(* ===== verification/Prelude.thy ===== *)
theory Prelude
  imports Main "HOL-Library.Word"
begin

text \<open>
  Shared vocabulary of the development: the fixed-width integer types of the C and C++ sources,
  the fact collections that carry the component proofs, the arithmetic of \<open>size_t\<close> with its
  wrap-around written out, the bounds-checked buffer accesses that make an out-of-range memory
  access a value (\<open>None\<close>), and big-endian byte strings with the lemmas that invert them.
\<close>

unbundle bit_operations_syntax

section \<open>Machine types\<close>

type_synonym u8 = "8 word"
type_synonym u16 = "16 word"
type_synonym u32 = "32 word"
type_synonym u64 = "64 word"
type_synonym bytes = "u8 list"

named_theorems size_simps \<open>\<open>size_t\<close> arithmetic inside its range\<close>
named_theorems buffer_simps \<open>bounds-checked buffer accesses\<close>
named_theorems be_simps \<open>big-endian byte strings\<close>

section \<open>\<open>size_t\<close> arithmetic\<close>

text \<open>Sizes and offsets are natural numbers; additions and doublings of \<open>size_t\<close> wrap at 64 bits.\<close>

definition size_max :: nat where
  "size_max = 2 ^ 64"

definition size_add :: "nat \<Rightarrow> nat \<Rightarrow> nat" where
  "size_add a b = (a + b) mod size_max"

definition size_sub :: "nat \<Rightarrow> nat \<Rightarrow> nat" where
  "size_sub a b = (a + size_max - b) mod size_max"

lemma size_add_id [size_simps]: "a + b < size_max \<Longrightarrow> size_add a b = a + b"
  by (simp add: size_add_def)

lemma size_sub_id [size_simps]: "b \<le> a \<Longrightarrow> a < size_max \<Longrightarrow> size_sub a b = a - b"
proof -
  assume "b \<le> a" and "a < size_max"
  then have eq: "a + size_max - b = size_max + (a - b)" and "a - b < size_max" by auto
  then show ?thesis unfolding size_sub_def eq by simp
qed

section \<open>Buffers with bounds checks\<close>

text \<open>
  \<open>peek buf i n\<close> reads \<open>n\<close> bytes at offset \<open>i\<close>, \<open>poke buf i bs\<close> stores \<open>bs\<close> at offset
  \<open>i\<close>. Both are \<open>None\<close> when the access leaves the allocation.
\<close>

definition peek :: "'a list \<Rightarrow> nat \<Rightarrow> nat \<Rightarrow> 'a list option" where
  "peek buf i n = (if i + n \<le> length buf then Some (take n (drop i buf)) else None)"

definition poke :: "'a list \<Rightarrow> nat \<Rightarrow> 'a list \<Rightarrow> 'a list option" where
  "poke buf i bs =
     (if i + length bs \<le> length buf then Some (take i buf @ bs @ drop (i + length bs) buf) else None)"

lemma peek_in [buffer_simps]: "i + n \<le> length buf \<Longrightarrow> peek buf i n = Some (take n (drop i buf))"
  by (simp add: peek_def)

lemma poke_in [buffer_simps]:
  "i + length bs \<le> length buf \<Longrightarrow> poke buf i bs = Some (take i buf @ bs @ drop (i + length bs) buf)"
  by (simp add: poke_def)

lemma peek_out [buffer_simps]: "length buf < i + n \<Longrightarrow> peek buf i n = None"
  by (simp add: peek_def)

lemma poke_out [buffer_simps]: "length buf < i + length bs \<Longrightarrow> poke buf i bs = None"
  by (simp add: poke_def)

lemma peek_Some_length: "peek buf i n = Some bs \<Longrightarrow> length bs = n"
  by (auto simp: peek_def split: if_splits)

lemma poke_Some_length: "poke buf i bs = Some buf' \<Longrightarrow> length buf' = length buf"
  by (auto simp: poke_def split: if_splits)

lemma poke_take: "poke buf i bs = Some buf' \<Longrightarrow> take (i + length bs) buf' = take i buf @ bs"
  by (auto simp: poke_def split: if_splits)

lemma take_drop_split: "drop k (take n xs) = ys @ zs \<Longrightarrow> take (length ys) (drop k xs) = ys"
  by (metis append.assoc append_eq_conv_conj append_take_drop_id drop_take)

lemma prefix_split: "a @ x = p @ y \<Longrightarrow> length a \<le> length p \<Longrightarrow> \<exists>q. p = a @ q \<and> x = q @ y"
  by (auto simp: append_eq_append_conv2)

section \<open>Big-endian byte strings\<close>

text \<open>
  \<open>be_bytes n w\<close> is the low \<open>n\<close> bytes of \<open>w\<close>, most significant first;
  \<open>be_word bs\<close> reads a byte string back.
\<close>

fun be_bytes :: "nat \<Rightarrow> 'a::len word \<Rightarrow> bytes" where
  "be_bytes 0 w = []"
| "be_bytes (Suc n) w = ucast (drop_bit (8 * n) w) # be_bytes n w"

definition be_word :: "bytes \<Rightarrow> 'a::len word" where
  "be_word bs = foldl (\<lambda>acc b. push_bit 8 acc + ucast b) 0 bs"

lemma be_bytes_length [simp]: "length (be_bytes n w) = n"
  by (induction n) auto

lemma xor_right_cancel: "a XOR c = b XOR c \<Longrightarrow> a = b" for a b c :: "'a::len word"
proof -
  assume "a XOR c = b XOR c"
  then have "(a XOR c) XOR c = (b XOR c) XOR c" by simp
  then show "a = b" by (simp add: xor.assoc)
qed

lemma ucast_up_eq: "LENGTH('a) \<le> LENGTH('b) \<Longrightarrow> (ucast x :: 'b::len word) = ucast y \<longleftrightarrow> x = y"
  for x y :: "'a::len word"
  by (metis is_up ucast_up_ucast_id)

lemma ucast_ucast_byte: "(ucast (ucast w :: u8) :: 'a::len word) = take_bit 8 w" for w :: "'a::len word"
  by (rule bit_word_eqI) (auto simp: bit_simps)

lemma take_bit_byte_split:
  "push_bit (8 * n) (take_bit 8 (drop_bit (8 * n) w)) + take_bit (8 * n) w = take_bit (8 + 8 * n) w"
  for w :: "'a::len word"
proof -
  have "push_bit (8 * n) (drop_bit (8 * n) (take_bit (8 + 8 * n) w)) + take_bit (8 * n) (take_bit (8 + 8 * n) w)
      = take_bit (8 + 8 * n) w"
    by (rule bits_ident)
  then show ?thesis by (simp add: drop_bit_take_bit min_def)
qed

lemma be_fold_bytes:
  "foldl (\<lambda>acc b. push_bit 8 acc + ucast b) acc (be_bytes n w) = push_bit (8 * n) acc + take_bit (8 * n) w"
  for w :: "'a::len word"
proof (induction n arbitrary: acc)
  case 0
  then show ?case by simp
next
  case (Suc n)
  have "foldl (\<lambda>acc b. push_bit 8 acc + ucast b) acc (be_bytes (Suc n) w)
      = push_bit (8 * n) (push_bit 8 acc + take_bit 8 (drop_bit (8 * n) w)) + take_bit (8 * n) w"
    by (simp add: Suc ucast_ucast_byte)
  also have "\<dots> = push_bit (8 * n) (push_bit 8 acc) + take_bit (8 + 8 * n) w"
    by (simp add: push_bit_add add.assoc take_bit_byte_split)
  finally show ?case by (simp add: add.commute)
qed

lemma be_word_bytes: "be_word (be_bytes n w) = take_bit (8 * n) w"
  by (simp add: be_word_def be_fold_bytes)

lemma be_word_bytes_full [be_simps]: "LENGTH('a) \<le> 8 * n \<Longrightarrow> be_word (be_bytes n w) = w"
  for w :: "'a::len word"
  by (simp add: be_word_bytes take_bit_word_eq_self)

lemma be_word_snoc: "be_word (xs @ [b]) = (push_bit 8 (be_word xs) OR ucast b :: 'a::len word)"
proof -
  have "(push_bit 8 (be_word xs) :: 'a word) AND ucast b = 0"
    by (rule bit_word_eqI) (auto simp: bit_simps dest: bit_imp_le_length)
  then show ?thesis by (simp add: be_word_def disjunctive_add_eq_or)
qed

lemma be_word_bit: "bit (be_word bs :: 'a::len word) k \<Longrightarrow> k < 8 * length bs"
proof (induction bs arbitrary: k rule: rev_induct)
  case Nil
  then show ?case by (simp add: be_word_def)
next
  case (snoc b xs)
  then consider "bit b k" | "8 \<le> k" "bit (be_word xs :: 'a word) (k - 8)"
    by (auto simp: be_word_snoc bit_simps)
  then show ?case
  proof cases
    case 1
    then show ?thesis by (auto dest: bit_imp_le_length)
  next
    case 2
    then show ?thesis using snoc.IH [of "k - 8"] by simp
  qed
qed

lemma be_bytes_snoc: "be_bytes (Suc n) w = be_bytes n (drop_bit 8 w) @ [ucast w]"
proof (induction n)
  case 0
  then show ?case by simp
next
  case (Suc n)
  have "be_bytes (Suc (Suc n)) w = ucast (drop_bit (8 * Suc n) w) # be_bytes (Suc n) w" by simp
  also have "\<dots> = ucast (drop_bit (8 * n) (drop_bit 8 w)) # be_bytes n (drop_bit 8 w) @ [ucast w]"
    by (simp only: Suc drop_bit_drop_bit mult_Suc_right add.commute)
  finally show ?case by simp
qed

lemma be_bytes_word [be_simps]:
  "8 * length bs \<le> LENGTH('a) \<Longrightarrow> be_bytes (length bs) (be_word bs :: 'a::len word) = bs"
proof (induction bs rule: rev_induct)
  case Nil
  then show ?case by simp
next
  case (snoc b xs)
  have "drop_bit 8 (be_word (xs @ [b]) :: 'a word) = be_word xs"
    using snoc.prems
    by (intro bit_word_eqI) (auto simp: be_word_snoc bit_simps dest: be_word_bit bit_imp_le_length)
  moreover have "ucast (be_word (xs @ [b]) :: 'a word) = b"
    using snoc.prems
    by (intro bit_word_eqI) (auto simp: be_word_snoc bit_simps)
  ultimately show ?case using snoc by (simp add: be_bytes_snoc del: be_bytes.simps)
qed

text \<open>A short byte string has the same bits at every width that holds it.\<close>

lemma be_word_ucast:
  "8 * length bs \<le> LENGTH('a) \<Longrightarrow> 8 * length bs \<le> LENGTH('b) \<Longrightarrow>
     (ucast (be_word bs :: 'a::len word) :: 'b::len word) = be_word bs"
proof (induction bs rule: rev_induct)
  case Nil
  then show ?case by (simp add: be_word_def)
next
  case (snoc b xs)
  then have IH: "(ucast (be_word xs :: 'a word) :: 'b word) = be_word xs" by simp
  show ?case
  proof (rule bit_word_eqI)
    fix k
    assume k: "k < LENGTH('b)"
    have "bit (be_word xs :: 'b word) (k - 8) \<longleftrightarrow> bit (be_word xs :: 'a word) (k - 8)" if "8 \<le> k"
      using that k by (subst IH [symmetric]) (auto simp: bit_simps)
    then show "bit (ucast (be_word (xs @ [b]) :: 'a word) :: 'b word) k = bit (be_word (xs @ [b]) :: 'b word) k"
      using k snoc.prems by (auto simp: be_word_snoc bit_simps dest: bit_imp_le_length be_word_bit)
  qed
qed

lemma bind_SomeE: "Option.bind m f = Some y \<Longrightarrow> (\<And>x. m = Some x \<Longrightarrow> f x = Some y \<Longrightarrow> P) \<Longrightarrow> P"
  by (cases m) auto

end
