(* ===== verification/Quic_Time.thy ===== *)
theory Quic_Time
  imports Prelude "HOL-Library.Signed_Division" "HOL-Library.Log_Nat" "HOL-Library.Monad_Syntax"
begin

text \<open>
  \<^verbatim>\<open>scoped_ptr/quic_time.{h,cc}\<close>, \<^verbatim>\<open>quic_clock.{h,cc}\<close> and \<^verbatim>\<open>sys_clock.h\<close>: points in time, differences of times, wall
  time, and the conversion between the two by a calibrated clock. Signed 64-bit microseconds are
  integers; an operation whose result leaves the range is undefined in C++ and is \<open>None\<close> here. Wall times are
  unsigned 64-bit words and wrap. A product with a \<open>double\<close> is rounded as the hardware does. What the
  operating system's clock shows is a parameter: a state from which readings are taken.
\<close>

section \<open>Signed 64-bit arithmetic and doubles\<close>

definition i64 :: "int \<Rightarrow> int option" where
  "i64 x = (if - (2 ^ 63) \<le> x \<and> x < 2 ^ 63 then Some x else None)"

definition i64_max :: int where
  "i64_max = 2 ^ 63 - 1"

text \<open>A positive number rounded to 53 significant bits, ties to even, and \<open>llround\<close>, ties away from zero.\<close>

definition pow2 :: "int \<Rightarrow> rat" where
  "pow2 e = (if 0 \<le> e then 2 ^ nat e else 1 / 2 ^ nat (- e))"

definition exponent :: "rat \<Rightarrow> int" where
  "exponent x =
     (case quotient_of x of (p, q) \<Rightarrow>
        let e = int (floorlog 2 (nat p)) - int (floorlog 2 (nat q)) in if pow2 e \<le> x then e else e - 1)"

definition round_even :: "rat \<Rightarrow> int" where
  "round_even x =
     (let n = \<lfloor>x\<rfloor>; r = x - of_int n in if r < 1 / 2 then n else if r > 1 / 2 then n + 1 else if even n then n else n + 1)"

definition to_double :: "rat \<Rightarrow> rat" where
  "to_double x =
     (if x = 0 then 0
      else let u = pow2 (exponent \<bar>x\<bar> - 52) in (if x < 0 then - 1 else 1) * of_int (round_even (\<bar>x\<bar> / u)) * u)"

definition llround :: "rat \<Rightarrow> int option" where
  "llround x = i64 (if x < 0 then - \<lfloor>- x + 1 / 2\<rfloor> else \<lfloor>x + 1 / 2\<rfloor>)"

section \<open>Differences and points in time\<close>

datatype Delta = Delta (time_offset: int)

datatype QuicTime = QuicTime (time_us: int)

definition kQuicInfiniteTimeUs :: int where
  "kQuicInfiniteTimeUs = i64_max"

definition Delta_Zero :: Delta where "Delta_Zero = Delta 0"
definition Delta_Infinite :: Delta where "Delta_Infinite = Delta kQuicInfiniteTimeUs"

definition FromSeconds :: "int \<Rightarrow> Delta option" where
  "FromSeconds secs = do { x \<leftarrow> i64 (secs * 1000); y \<leftarrow> i64 (x * 1000); Some (Delta y) }"

definition FromMilliseconds :: "int \<Rightarrow> Delta option" where
  "FromMilliseconds ms = map_option Delta (i64 (ms * 1000))"

definition FromMicroseconds :: "int \<Rightarrow> Delta" where
  "FromMicroseconds us = Delta us"

definition ToSeconds :: "Delta \<Rightarrow> int" where "ToSeconds d = (time_offset d sdiv 1000) sdiv 1000"
definition ToMilliseconds :: "Delta \<Rightarrow> int" where "ToMilliseconds d = time_offset d sdiv 1000"
definition ToMicroseconds :: "Delta \<Rightarrow> int" where "ToMicroseconds d = time_offset d"
definition IsZero :: "Delta \<Rightarrow> bool" where "IsZero d \<longleftrightarrow> time_offset d = 0"
definition IsInfinite :: "Delta \<Rightarrow> bool" where "IsInfinite d \<longleftrightarrow> time_offset d = kQuicInfiniteTimeUs"

definition Time_Zero :: QuicTime where "Time_Zero = QuicTime 0"
definition Time_Infinite :: QuicTime where "Time_Infinite = QuicTime kQuicInfiniteTimeUs"
definition ToDebuggingValue :: "QuicTime \<Rightarrow> int" where "ToDebuggingValue t = time_us t"
definition IsInitialized :: "QuicTime \<Rightarrow> bool" where "IsInitialized t \<longleftrightarrow> 0 \<noteq> time_us t"

text \<open>The operators. A shift by 64 or more is undefined.\<close>

definition delta_shift_right :: "Delta \<Rightarrow> nat \<Rightarrow> Delta option" where
  "delta_shift_right lhs rhs = (if rhs < 64 then Some (Delta (drop_bit rhs (time_offset lhs))) else None)"

definition delta_plus :: "Delta \<Rightarrow> Delta \<Rightarrow> Delta option" where
  "delta_plus lhs rhs = map_option Delta (i64 (time_offset lhs + time_offset rhs))"

definition delta_minus :: "Delta \<Rightarrow> Delta \<Rightarrow> Delta option" where
  "delta_minus lhs rhs = map_option Delta (i64 (time_offset lhs - time_offset rhs))"

definition delta_times :: "Delta \<Rightarrow> int \<Rightarrow> Delta option" where
  "delta_times lhs rhs = map_option Delta (i64 (time_offset lhs * rhs))"

definition delta_scale :: "Delta \<Rightarrow> rat \<Rightarrow> Delta option" where
  "delta_scale lhs rhs = map_option Delta (llround (to_double (to_double (of_int (time_offset lhs)) * rhs)))"

definition time_plus :: "QuicTime \<Rightarrow> Delta \<Rightarrow> QuicTime option" where
  "time_plus lhs rhs = map_option QuicTime (i64 (time_us lhs + time_offset rhs))"

definition time_minus :: "QuicTime \<Rightarrow> Delta \<Rightarrow> QuicTime option" where
  "time_minus lhs rhs = map_option QuicTime (i64 (time_us lhs - time_offset rhs))"

definition time_diff :: "QuicTime \<Rightarrow> QuicTime \<Rightarrow> Delta option" where
  "time_diff lhs rhs = map_option Delta (i64 (time_us lhs - time_us rhs))"

text \<open>
  The relational operators, one by one as the source defines them, are the linear order of the
  library's type class.
\<close>

instantiation Delta :: linorder
begin

definition less_Delta :: "Delta \<Rightarrow> Delta \<Rightarrow> bool" where
  "lhs < rhs \<longleftrightarrow> time_offset lhs < time_offset rhs"

definition less_eq_Delta :: "Delta \<Rightarrow> Delta \<Rightarrow> bool" where
  "lhs \<le> rhs \<longleftrightarrow> \<not> rhs < (lhs :: Delta)"

instance by standard (auto simp: less_Delta_def less_eq_Delta_def intro: Delta.expand)

end

instantiation QuicTime :: linorder
begin

definition less_QuicTime :: "QuicTime \<Rightarrow> QuicTime \<Rightarrow> bool" where
  "lhs < rhs \<longleftrightarrow> time_us lhs < time_us rhs"

definition less_eq_QuicTime :: "QuicTime \<Rightarrow> QuicTime \<Rightarrow> bool" where
  "lhs \<le> rhs \<longleftrightarrow> \<not> rhs < (lhs :: QuicTime)"

instance by standard (auto simp: less_QuicTime_def less_eq_QuicTime_def intro: QuicTime.expand)

end

section \<open>Printing\<close>

text \<open>\<open>%PRId64\<close>\<close>

fun decimal :: "nat \<Rightarrow> string" where
  "decimal n = (if n < 10 then [char_of (48 + n)] else decimal (n div 10) @ [char_of (48 + n mod 10)])"

definition print_int :: "int \<Rightarrow> string" where
  "print_int x = (if x < 0 then ''-'' @ decimal (nat (- x)) else decimal (nat x))"

definition ToDebugValue :: "Delta \<Rightarrow> string option" where
  "ToDebugValue d =
     (let one_ms = 1000; one_s = 1000 * one_ms in do {
        absolute_value \<leftarrow> i64 \<bar>time_offset d\<bar>;
        Some (if absolute_value > one_s \<and> absolute_value mod one_s = 0 then print_int (time_offset d sdiv one_s) @ ''s''
              else if absolute_value > one_ms \<and> absolute_value mod one_ms = 0 then print_int (time_offset d sdiv one_ms) @ ''ms''
              else print_int (time_offset d) @ ''us'')
      })"

declare decimal.simps [simp del]

section \<open>Wall time\<close>

datatype QuicWallTime = QuicWallTime (microseconds: u64)

definition FromUNIXSeconds :: "u64 \<Rightarrow> QuicWallTime" where "FromUNIXSeconds seconds = QuicWallTime (seconds * 1000000)"
definition FromUNIXMicroseconds :: "u64 \<Rightarrow> QuicWallTime" where "FromUNIXMicroseconds us = QuicWallTime us"
definition Wall_Zero :: QuicWallTime where "Wall_Zero = QuicWallTime 0"
definition ToUNIXSeconds :: "QuicWallTime \<Rightarrow> u64" where "ToUNIXSeconds w = microseconds w div 1000000"
definition ToUNIXMicroseconds :: "QuicWallTime \<Rightarrow> u64" where "ToUNIXMicroseconds w = microseconds w"
definition IsAfter :: "QuicWallTime \<Rightarrow> QuicWallTime \<Rightarrow> bool" where "IsAfter w other \<longleftrightarrow> microseconds w > microseconds other"
definition IsBefore :: "QuicWallTime \<Rightarrow> QuicWallTime \<Rightarrow> bool" where "IsBefore w other \<longleftrightarrow> microseconds w < microseconds other"
definition Wall_IsZero :: "QuicWallTime \<Rightarrow> bool" where "Wall_IsZero w \<longleftrightarrow> microseconds w = 0"

definition AbsoluteDifference :: "QuicWallTime \<Rightarrow> QuicWallTime \<Rightarrow> Delta" where
  "AbsoluteDifference w other =
     (let d = (if microseconds w > microseconds other then microseconds w - microseconds other else microseconds other - microseconds w);
          d = (if d > word_of_int i64_max then word_of_int i64_max else d)
      in FromMicroseconds (sint d))"

text \<open>The signed delta is converted to \<open>uint64_t\<close> before the addition.\<close>

definition Add :: "QuicWallTime \<Rightarrow> Delta \<Rightarrow> QuicWallTime" where
  "Add w delta =
     (let us = microseconds w + word_of_int (ToMicroseconds delta) in QuicWallTime (if us < microseconds w then - 1 else us))"

definition Subtract :: "QuicWallTime \<Rightarrow> Delta \<Rightarrow> QuicWallTime" where
  "Subtract w delta =
     (let us = microseconds w - word_of_int (ToMicroseconds delta) in QuicWallTime (if us > microseconds w then 0 else us))"

section \<open>Clocks\<close>

text \<open>The virtual functions read the clock, whose state is of type \<open>'c\<close>.\<close>

record 'c clock_source =
  Now :: "'c \<Rightarrow> (QuicTime \<times> 'c) option"
  WallNow :: "'c \<Rightarrow> (QuicWallTime \<times> 'c) option"

record QuicClock =
  is_calibrated :: bool
  calibration_offset :: Delta

definition new_clock :: QuicClock where
  "new_clock = \<lparr>is_calibrated = False, calibration_offset = Delta_Zero\<rparr>"

fun calibration_loop :: "'c clock_source \<Rightarrow> nat \<Rightarrow> int \<Rightarrow> 'c \<Rightarrow> (int \<times> 'c) option" where
  "calibration_loop src 0 min_offset_us c = Some (min_offset_us, c)"
| "calibration_loop src (Suc n) min_offset_us c = do {
     (now, c) \<leftarrow> Now src c;
     now_in_us \<leftarrow> map_option ToMicroseconds (time_diff now Time_Zero);
     (wall, c) \<leftarrow> WallNow src c;
     offset_us \<leftarrow> i64 (sint (ToUNIXMicroseconds wall) - now_in_us);
     calibration_loop src n (if offset_us < min_offset_us then offset_us else min_offset_us) c
   }"

definition ComputeCalibrationOffset :: "'c clock_source \<Rightarrow> 'c \<Rightarrow> (Delta \<times> 'c) option" where
  "ComputeCalibrationOffset src c =
     map_option (\<lambda>(min_offset_us, c). (FromMicroseconds min_offset_us, c)) (calibration_loop src 128 i64_max c)"

definition SetCalibrationOffset :: "Delta \<Rightarrow> QuicClock \<Rightarrow> QuicClock" where
  "SetCalibrationOffset offset clock = clock\<lparr>calibration_offset := offset, is_calibrated := True\<rparr>"

text \<open>\<open>Now()\<close> is read before \<open>WallNow()\<close>; C++ leaves the order open.\<close>

definition ConvertWallTimeToQuicTime :: "'c clock_source \<Rightarrow> QuicWallTime \<Rightarrow> QuicClock \<Rightarrow> 'c \<Rightarrow> (QuicTime \<times> 'c) option" where
  "ConvertWallTimeToQuicTime src walltime clock c =
     (if is_calibrated clock
      then do {
        time_in_us \<leftarrow> i64 (sint (ToUNIXMicroseconds walltime) - ToMicroseconds (calibration_offset clock));
        t \<leftarrow> time_plus Time_Zero (FromMicroseconds time_in_us);
        Some (t, c)
      }
      else do {
        (now, c) \<leftarrow> Now src c;
        (wall, c) \<leftarrow> WallNow src c;
        t \<leftarrow> time_minus now (FromMicroseconds
               (sint (ToUNIXMicroseconds (Subtract wall (FromMicroseconds (sint (ToUNIXMicroseconds walltime)))))));
        Some (t, c)
      })"

definition CreateTimeFromMicroseconds :: "u64 \<Rightarrow> QuicTime" where
  "CreateTimeFromMicroseconds us = QuicTime (sint us)"

section \<open>The system clock\<close>

text \<open>\<open>gettimeofday\<close> of the operating system gives seconds and microseconds; its state is a parameter.\<close>

definition itimeofday :: "('c \<Rightarrow> (int \<times> int) \<times> 'c) \<Rightarrow> 'c \<Rightarrow> (int \<times> int) \<times> 'c" where
  "itimeofday gettimeofday c = (case gettimeofday c of ((sec, usec), c) \<Rightarrow> ((sec, usec), c))"

definition iclock64 :: "('c \<Rightarrow> (int \<times> int) \<times> 'c) \<Rightarrow> 'c \<Rightarrow> (int \<times> 'c) option" where
  "iclock64 gettimeofday c =
     (case itimeofday gettimeofday c of ((s, u), c) \<Rightarrow> do {
        ms \<leftarrow> i64 (s * 1000);
        val \<leftarrow> i64 (ms + u sdiv 1000);
        Some (val, c)
      })"

definition iclock :: "('c \<Rightarrow> (int \<times> int) \<times> 'c) \<Rightarrow> 'c \<Rightarrow> (u32 \<times> 'c) option" where
  "iclock gettimeofday c = map_option (\<lambda>(v, c). (word_of_int (v AND 0xffffffff), c)) (iclock64 gettimeofday c)"

definition SysClock :: "('c \<Rightarrow> (int \<times> int) \<times> 'c) \<Rightarrow> 'c clock_source" where
  "SysClock gettimeofday = \<lparr>
     Now = (\<lambda>c. do {
       (now, c) \<leftarrow> iclock64 gettimeofday c;
       d \<leftarrow> FromMilliseconds now;
       t \<leftarrow> time_plus Time_Zero d;
       Some (t, c)
     }),
     WallNow = (\<lambda>c. do {
       (now, c) \<leftarrow> iclock64 gettimeofday c;
       time_since_unix_epoch_micro \<leftarrow> i64 (now * 1000);
       Some (FromUNIXMicroseconds (word_of_int time_since_unix_epoch_micro), c)
     })\<rparr>"

definition ApproximateNow :: "('c \<Rightarrow> (int \<times> int) \<times> 'c) \<Rightarrow> 'c \<Rightarrow> (QuicTime \<times> 'c) option" where
  "ApproximateNow gettimeofday = Now (SysClock gettimeofday)"

section \<open>Range lemmas\<close>

lemma i64_in: "- (2 ^ 63) \<le> x \<Longrightarrow> x < 2 ^ 63 \<Longrightarrow> i64 x = Some x"
  by (simp add: i64_def)

lemma sint_of_small: "0 \<le> x \<Longrightarrow> x < 2 ^ 63 \<Longrightarrow> sint (word_of_int x :: u64) = x"
  by (simp add: sint_sbintrunc' signed_take_bit_int_eq_self)

lemma uint_of_small: "0 \<le> x \<Longrightarrow> x < 2 ^ 64 \<Longrightarrow> uint (word_of_int x :: u64) = x"
  by (simp add: uint_word_of_int take_bit_int_eq_self)

lemma sint_is_uint: "uint (w :: u64) < 2 ^ 63 \<Longrightarrow> sint w = uint w"
  using sint_of_small [of "uint w"] by simp

section \<open>Doubles\<close>

lemma pow2_diff: "pow2 (int i - int j) = 2 ^ i / 2 ^ j"
  by (cases "j \<le> i") (simp_all add: pow2_def power_diff of_nat_diff flip: of_nat_diff)

text \<open>The exponent is that of the leading bit or less, so rounding to 53 bits at most doubles a number.\<close>

lemma exponent_le:
  assumes "0 < x"
  shows "pow2 (exponent x) \<le> x"
proof -
  obtain p q where pq: "quotient_of x = (p, q)" by force
  let ?a = "floorlog 2 (nat p)" and ?b = "floorlog 2 (nat q)"
  have x: "x = of_int p / of_int q" and q: "0 < q" using quotient_of_div [OF pq] quotient_of_denom_pos [OF pq] by simp_all
  then have p: "0 < p" using assms by (simp add: zero_less_divide_iff)
  have "2 ^ (?a - 1) \<le> nat p" "nat q < 2 ^ ?b" "0 < ?a"
    using floorlog_bounds [of "nat p" 2] floorlog_bounds [of "nat q" 2] p q by (auto simp: floorlog_def)
  then have "2 ^ (?a - 1) \<le> (of_nat (nat p) :: rat)" "(of_nat (nat q) :: rat) \<le> 2 ^ ?b"
    by (metis of_nat_le_iff of_nat_numeral of_nat_power less_imp_le)+
  moreover have "of_nat (nat p) = (of_int p :: rat)" "of_nat (nat q) = (of_int q :: rat)"
    using less_imp_le [OF p] less_imp_le [OF q] by (simp_all only: of_nat_nat)
  ultimately have "2 ^ (?a - 1) \<le> (of_int p :: rat)" "(of_int q :: rat) \<le> 2 ^ ?b" by (simp_all only:)
  then have "2 ^ (?a - 1) / 2 ^ ?b \<le> x" unfolding x using p q by (intro frac_le) simp_all
  moreover have "2 ^ (?a - 1) / 2 ^ ?b = (2 :: rat) ^ ?a / 2 ^ (?b + 1)" using \<open>0 < ?a\<close> by (cases ?a) simp_all
  ultimately have "pow2 (int ?a - int (?b + 1)) \<le> x" by (simp only: pow2_diff)
  moreover have "int ?a - int (?b + 1) = int ?a - int ?b - 1" by simp
  ultimately have "pow2 (int ?a - int ?b - 1) \<le> x" by metis
  then show ?thesis by (simp add: exponent_def pq Let_def)
qed

lemma pow2_pos: "0 < pow2 e"
  by (simp add: pow2_def)

lemma pow2_52: "pow2 (e - 52) \<le> pow2 e"
proof -
  obtain i j where e: "e = int i - int j" by (metis int_diff_cases)
  then have "e - 52 = int i - int (j + 52)" by simp
  with e show ?thesis by (simp only: pow2_diff) (simp add: divide_simps power_add)
qed

lemma round_even_le: "1 \<le> y \<Longrightarrow> of_int (round_even y) \<le> 2 * y" "0 \<le> y \<Longrightarrow> 0 \<le> round_even y"
  using of_int_floor_le [of y] by (auto simp: round_even_def Let_def) linarith+

lemma to_double_bound: "\<bar>to_double x\<bar> \<le> 2 * \<bar>x\<bar>"
proof (cases "x = 0")
  case False
  let ?u = "pow2 (exponent \<bar>x\<bar> - 52)"
  have u: "0 < ?u" "?u \<le> \<bar>x\<bar>" using pow2_pos exponent_le [of "\<bar>x\<bar>"] pow2_52 [of "exponent \<bar>x\<bar>"] False by simp_all
  then have y: "1 \<le> \<bar>x\<bar> / ?u" by simp
  have "\<bar>to_double x\<bar> = of_int (round_even (\<bar>x\<bar> / ?u)) * ?u"
    using round_even_le(2) [of "\<bar>x\<bar> / ?u"] u False by (simp add: to_double_def Let_def abs_mult)
  also have "\<dots> \<le> (2 * (\<bar>x\<bar> / ?u)) * ?u" using round_even_le(1) [OF y] u by (intro mult_right_mono) simp_all
  also have "\<dots> = 2 * \<bar>x\<bar>" using u by simp
  finally show ?thesis .
qed (simp add: to_double_def)

lemma llround_defined:
  fixes y :: rat
  assumes "\<bar>y\<bar> \<le> 2 ^ 62"
  shows "llround y \<noteq> None"
proof -
  from assms have "y + 1 / 2 < of_int (2 ^ 63)" "of_int (- (2 ^ 63)) \<le> y + 1 / 2" "- y + 1 / 2 < of_int (2 ^ 63)" by simp_all
  then have "\<lfloor>y + 1 / 2\<rfloor> < 2 ^ 63" "- (2 ^ 63) \<le> \<lfloor>y + 1 / 2\<rfloor>" "\<lfloor>- y + 1 / 2\<rfloor> < 2 ^ 63" "y < 0 \<Longrightarrow> 0 \<le> \<lfloor>- y + 1 / 2\<rfloor>"
    unfolding floor_less_iff le_floor_iff by simp_all
  then have "i64 (if y < 0 then - \<lfloor>- y + 1 / 2\<rfloor> else \<lfloor>y + 1 / 2\<rfloor>) = Some (if y < 0 then - \<lfloor>- y + 1 / 2\<rfloor> else \<lfloor>y + 1 / 2\<rfloor>)"
    by (intro i64_in; cases "y < 0"; simp only: if_True if_False not_True_eq_False) linarith+
  then show ?thesis by (simp add: llround_def)
qed

lemma delta_scale_defined:
  assumes "\<bar>time_offset d\<bar> < 2 ^ 59" and "\<bar>r\<bar> \<le> 2"
  shows "\<exists>d'. delta_scale d r = Some d'"
proof -
  let ?t = "of_int (time_offset d) :: rat"
  have "\<bar>?t\<bar> = of_int \<bar>time_offset d\<bar>" by simp
  also have "\<dots> \<le> of_int (2 ^ 59)" using assms(1) by (subst of_int_le_iff) simp
  finally have t: "\<bar>to_double ?t\<bar> \<le> 2 ^ 60" using to_double_bound [of ?t] by simp
  obtain y where y: "y = to_double ?t * r" by simp
  have "\<bar>y\<bar> \<le> 2 ^ 60 * 2" unfolding y abs_mult by (rule mult_mono [OF t assms(2)]) simp_all
  then have "\<bar>to_double y\<bar> \<le> 2 ^ 62" using to_double_bound [of y] by simp
  from llround_defined [OF this] show ?thesis by (auto simp: delta_scale_def y)
qed

section \<open>Arithmetic on wall time\<close>

text \<open>
  Adding and subtracting on wall time. A delta that is not negative is added and subtracted exactly, with
  saturation at the ends of the range. A negative delta is not: \<open>Add\<close> never gives an earlier time, and
  \<open>Subtract\<close> never a later one.
\<close>

theorem wall_time_saturates:
  fixes w :: QuicWallTime
  shows "(0 \<le> x \<and> x < 2 ^ 63 \<longrightarrow> uint (microseconds (Add w (Delta x))) = min (uint (microseconds w) + x) (2 ^ 64 - 1) \<and>
      uint (microseconds (Subtract w (Delta x))) = max (uint (microseconds w) - x) 0) \<and>
    (- (2 ^ 63) \<le> x \<and> x < 0 \<longrightarrow> microseconds w \<le> microseconds (Add w (Delta x)) \<and> microseconds (Subtract w (Delta x)) \<le> microseconds w)"
proof (rule conjI)
  let ?m = "uint (microseconds w)"
  have m: "0 \<le> ?m" "?m < 2 ^ 64" using uint_lt2p [of "microseconds w"] by simp_all
  have word: "microseconds w = word_of_int ?m" by simp
  show "0 \<le> x \<and> x < 2 ^ 63 \<longrightarrow> uint (microseconds (Add w (Delta x))) = min (?m + x) (2 ^ 64 - 1) \<and>
      uint (microseconds (Subtract w (Delta x))) = max (?m - x) 0"
  proof
    assume x: "0 \<le> x \<and> x < 2 ^ 63"
    have "uint (microseconds w + word_of_int x) = (if ?m + x < 2 ^ 64 then ?m + x else ?m + x - 2 ^ 64)"
      using uint_of_small [of x] x m by (simp add: uint_plus_if_size word_size)
    moreover have "uint (microseconds w - word_of_int x) = (if x \<le> ?m then ?m - x else ?m - x + 2 ^ 64)"
      using uint_of_small [of x] x m by (simp add: uint_sub_if_size word_size)
    moreover have "uint (- 1 :: u64) = 2 ^ 64 - 1" by (simp add: uint_word_ariths)
    ultimately show "uint (microseconds (Add w (Delta x))) = min (?m + x) (2 ^ 64 - 1) \<and>
      uint (microseconds (Subtract w (Delta x))) = max (?m - x) 0"
      using x m by (auto simp: Add_def Subtract_def Let_def ToMicroseconds_def word_less_def)
  qed
  show "- (2 ^ 63) \<le> x \<and> x < 0 \<longrightarrow> microseconds w \<le> microseconds (Add w (Delta x)) \<and> microseconds (Subtract w (Delta x)) \<le> microseconds w"
    by (auto simp: Add_def Subtract_def Let_def ToMicroseconds_def)
qed

theorem wall_time_saturates_witness:
  "uint (microseconds (Add (QuicWallTime 5) (Delta 7))) = 12 \<and> uint (microseconds (Subtract (QuicWallTime 5) (Delta 7))) = 0 \<and>
   (5 :: u64) \<le> microseconds (Add (QuicWallTime 5) (Delta (- 1)))"
  using wall_time_saturates [of 7 "QuicWallTime 5"] wall_time_saturates [of "- 1" "QuicWallTime 5"] by simp

section \<open>The system clock and its calibration\<close>

text \<open>
  What POSIX promises of \<open>gettimeofday\<close>: microseconds below a million, seconds since the epoch in range, and no
  reading before an earlier one (the clock is not set back while it is read).
\<close>

definition timeofday_documented :: "('c \<Rightarrow> (int \<times> int) \<times> 'c) \<Rightarrow> bool" where
  "timeofday_documented tod \<longleftrightarrow>
     (\<forall>c. case tod c of ((s, u), c') \<Rightarrow> case tod c' of ((s', u'), _) \<Rightarrow>
        0 \<le> s \<and> s < 2 ^ 43 \<and> 0 \<le> u \<and> u < 1000000 \<and> s * 1000000 + u \<le> s' * 1000000 + u')"

definition reading :: "('c \<Rightarrow> (int \<times> int) \<times> 'c) \<Rightarrow> 'c \<Rightarrow> int" where
  "reading tod c = (case tod c of ((s, u), _) \<Rightarrow> 1000 * (s * 1000 + u div 1000))"

abbreviation "after tod c \<equiv> snd (tod c)"

lemma timeofdayD:
  assumes "timeofday_documented tod" and "tod c = ((s, u), c')" and "tod c' = ((s', u'), c'')"
  shows "0 \<le> s" "s < 2 ^ 43" "0 \<le> u" "u < 1000000" "s * 1000000 + u \<le> s' * 1000000 + u'"
  using assms(1) [unfolded timeofday_documented_def, rule_format, of c] assms(2,3) by simp_all

lemma reading_bounds:
  assumes "timeofday_documented tod"
  shows "0 \<le> reading tod c" "reading tod c < 2 ^ 63" "reading tod c \<le> reading tod (after tod c)"
proof -
  obtain s u c' s' u' c'' where r: "tod c = ((s, u), c')" "tod c' = ((s', u'), c'')" by (metis prod.collapse)
  note 1 = timeofdayD [OF assms r]
  show "0 \<le> reading tod c" "reading tod c < 2 ^ 63" using 1 by (simp_all add: reading_def r)
  have "(s * 1000000 + u) div 1000 \<le> (s' * 1000000 + u') div 1000" using 1(5) by (rule zdiv_mono1) simp
  moreover have "(s * 1000000 + u) div 1000 = s * 1000 + u div 1000" "(s' * 1000000 + u') div 1000 = s' * 1000 + u' div 1000" by simp_all
  ultimately show "reading tod c \<le> reading tod (after tod c)" by (simp add: reading_def r)
qed

lemma SysClock_reads:
  assumes "timeofday_documented tod"
  shows "Now (SysClock tod) c = Some (QuicTime (reading tod c), after tod c)"
    "WallNow (SysClock tod) c = Some (QuicWallTime (word_of_int (reading tod c)), after tod c)"
proof -
  obtain s u c' s' u' c'' where r: "tod c = ((s, u), c')" "tod c' = ((s', u'), c'')" by (metis prod.collapse)
  note u = timeofdayD(1-4) [OF assms r]
  then have "u sdiv 1000 = u div 1000" by (simp add: signed_divide_int_def sgn_if)
  with u have "iclock64 tod c = Some (reading tod c div 1000, c')" "1000 * (reading tod c div 1000) = reading tod c"
    by (simp_all add: iclock64_def itimeofday_def reading_def r i64_in)
  with r reading_bounds(1,2) [OF assms, of c]
  show "Now (SysClock tod) c = Some (QuicTime (reading tod c), after tod c)"
    "WallNow (SysClock tod) c = Some (QuicWallTime (word_of_int (reading tod c)), after tod c)"
    by (simp_all add: SysClock_def FromMilliseconds_def time_plus_def Time_Zero_def FromUNIXMicroseconds_def i64_in mult.commute)
qed

text \<open>The differences that the calibration compares.\<close>

fun offsets :: "('c \<Rightarrow> (int \<times> int) \<times> 'c) \<Rightarrow> nat \<Rightarrow> 'c \<Rightarrow> int list" where
  "offsets tod 0 c = []"
| "offsets tod (Suc n) c = (reading tod (after tod c) - reading tod c) # offsets tod n (after tod (after tod c))"

lemma offsets_bounds:
  assumes "timeofday_documented tod"
  shows "x \<in> set (offsets tod n c) \<Longrightarrow> 0 \<le> x \<and> x < 2 ^ 63"
proof (induction n arbitrary: c)
  case (Suc n)
  with reading_bounds [OF assms, of c] reading_bounds(2) [OF assms, of "after tod c"] show ?case by auto
qed simp

lemma calibration_loop_min:
  assumes "timeofday_documented tod"
  shows "\<exists>c'. calibration_loop (SysClock tod) n m c = Some (Min (insert m (set (offsets tod n c))), c')"
proof (induction n arbitrary: m c)
  case (Suc n)
  let ?c = "after tod c" and ?x = "reading tod (after tod c) - reading tod c"
  note b = reading_bounds [OF assms, of c] reading_bounds(1,2) [OF assms, of ?c]
  from Suc.IH [of "min ?x m" "after tod ?c"] obtain c' where
    c': "calibration_loop (SysClock tod) n (min ?x m) (after tod ?c) = Some (Min (insert (min ?x m) (set (offsets tod n (after tod ?c)))), c')" ..
  have "calibration_loop (SysClock tod) (Suc n) m c = calibration_loop (SysClock tod) n (min ?x m) (after tod ?c)"
    using b by (simp add: SysClock_reads [OF assms] time_diff_def Time_Zero_def ToMicroseconds_def ToUNIXMicroseconds_def sint_of_small i64_in min_def)
  moreover have "Min (insert (min ?x m) A) = Min (insert m (insert ?x A))" if "finite A" for A :: "int set"
    using that by (cases "A = {}") (simp_all add: min.left_commute min.commute)
  ultimately show ?case using c' by simp
qed simp

text \<open>
  Calibrating the system clock. The offset computed from 128 pairs of readings is the least difference that was
  seen and is not negative; with it the clock converts every wall time to the same time for good, that
  offset below it.
\<close>

theorem sys_clock_calibrated:
  assumes "timeofday_documented tod"
  shows "\<exists>d c'. ComputeCalibrationOffset (SysClock tod) c = Some (Delta d, c') \<and> d = Min (set (offsets tod 128 c)) \<and> 0 \<le> d \<and>
     (\<forall>w c''. uint (microseconds w) < 2 ^ 63 \<longrightarrow>
        ConvertWallTimeToQuicTime (SysClock tod) w (SetCalibrationOffset (Delta d) new_clock) c'' = Some (QuicTime (uint (microseconds w) - d), c''))"
proof -
  let ?O = "set (offsets tod 128 c)" and ?d = "Min (set (offsets tod 128 c))"
  have ne: "offsets tod 128 c \<noteq> []" by (simp add: numeral_eq_Suc)
  then have "?d \<in> ?O" by (intro Min_in) simp_all
  from offsets_bounds [OF assms this] have d: "0 \<le> ?d" "?d < 2 ^ 63" by simp_all
  from calibration_loop_min [OF assms, of 128 i64_max c] obtain c' where
    "calibration_loop (SysClock tod) 128 i64_max c = Some (Min (insert i64_max ?O), c')" ..
  moreover have "Min (insert i64_max ?O) = ?d" using d ne by (simp add: i64_max_def)
  ultimately have "ComputeCalibrationOffset (SysClock tod) c = Some (Delta ?d, c')"
    by (simp add: ComputeCalibrationOffset_def FromMicroseconds_def)
  moreover have "ConvertWallTimeToQuicTime (SysClock tod) w (SetCalibrationOffset (Delta ?d) new_clock) c'' =
      Some (QuicTime (uint (microseconds w) - ?d), c'')" if w: "uint (microseconds w) < 2 ^ 63" for w c''
  proof -
    have "i64 (uint (microseconds w) - ?d) = Some (uint (microseconds w) - ?d)"
      using d w uint_ge_0 [of "microseconds w"] by (intro i64_in) linarith+
    then show ?thesis
      by (simp add: ConvertWallTimeToQuicTime_def SetCalibrationOffset_def ToUNIXMicroseconds_def ToMicroseconds_def FromMicroseconds_def
          time_plus_def Time_Zero_def sint_is_uint [OF w])
  qed
  ultimately show ?thesis using d(1) by blast
qed

lemma fixed_timeofday: "timeofday_documented (\<lambda>_ :: unit. ((5, 7), ()))"
  by (simp add: timeofday_documented_def)

theorem sys_clock_calibrated_witness:
  "\<exists>d c'. ComputeCalibrationOffset (SysClock (\<lambda>_ :: unit. ((5, 7), ()))) () = Some (Delta d, c') \<and> 0 \<le> d \<and>
     ConvertWallTimeToQuicTime (SysClock (\<lambda>_ :: unit. ((5, 7), ()))) (QuicWallTime 9) (SetCalibrationOffset (Delta d) new_clock) () =
       Some (QuicTime (9 - d), ())"
  using sys_clock_calibrated [OF fixed_timeofday, of "()"] by force

text \<open>
  Converting wall time with a clock that is not calibrated. A wall time up to now is as far before the clock's
  current time as it is before the current wall time; every later wall time becomes the current time.
\<close>

theorem uncalibrated_conversion:
  assumes "timeofday_documented tod" and "uint (microseconds w) < 2 ^ 63"
  shows "ConvertWallTimeToQuicTime (SysClock tod) w new_clock c =
     Some (QuicTime (reading tod c - max 0 (reading tod (after tod c) - uint (microseconds w))), after tod (after tod c))"
proof -
  let ?now = "reading tod c" and ?wall = "reading tod (after tod c)" and ?w = "uint (microseconds w)"
  note b = reading_bounds(1,2) [OF assms(1), of c] reading_bounds(1,2) [OF assms(1), of "after tod c"] uint_ge_0 [of "microseconds w"] assms(2)
  let ?s = "Subtract (QuicWallTime (word_of_int ?wall)) (FromMicroseconds ?w)"
  have "uint (word_of_int ?wall :: u64) = ?wall" using b by (intro uint_of_small) simp_all
  moreover have "uint (word_of_int ?wall - microseconds w) = (if ?w \<le> ?wall then ?wall - ?w else ?wall - ?w + 2 ^ 64)"
    using calculation by (simp add: uint_sub_if_size word_size)
  ultimately have "uint (microseconds ?s) = max 0 (?wall - ?w)"
    using b by (auto simp: Subtract_def Let_def ToMicroseconds_def FromMicroseconds_def word_less_def)
  moreover from this have "uint (microseconds ?s) < 2 ^ 63" using b by linarith
  ultimately have "sint (microseconds ?s) = max 0 (?wall - ?w)" using sint_is_uint by simp
  moreover have "i64 (?now - max 0 (?wall - ?w)) = Some (?now - max 0 (?wall - ?w))" using b by (intro i64_in) linarith+
  ultimately show ?thesis
    by (simp add: ConvertWallTimeToQuicTime_def new_clock_def SysClock_reads [OF assms(1)] ToUNIXMicroseconds_def sint_is_uint [OF assms(2)]
        time_minus_def FromMicroseconds_def)
qed

theorem uncalibrated_conversion_witness:
  "ConvertWallTimeToQuicTime (SysClock (\<lambda>_ :: unit. ((5, 7), ()))) (QuicWallTime 9000000) new_clock () = Some (QuicTime 5000000, ())"
  using uncalibrated_conversion [OF fixed_timeofday, of "QuicWallTime 9000000" "()"] by (simp add: reading_def)

end
