(* ===== verification/Quic_Alarm.thy ===== *)
theory Quic_Alarm
  imports Quic_Time
begin

text \<open>
  \<^verbatim>\<open>scoped_ptr/quic_alarm.{h,cc}\<close> and \<^verbatim>\<open>null_alarm.h\<close>: an alarm with a deadline, the scheduling functions a subclass
  provides, and a delegate that is called when the alarm fires. The virtual functions see the
  deadline and change the platform's state; \<open>OnAlarm\<close> changes the delegate's. Calling the delegate is the
  last action of \<open>Fire\<close>, so calls it makes back into the alarm are the operations that follow.

  The lemmas relate the alarm to a machine that is idle or armed: it fires at most once for each time it
  is armed, and the platform's timer always has the alarm's deadline.
\<close>

section \<open>The alarm\<close>

record 'p alarm_impl =
  SetImpl :: "QuicTime \<Rightarrow> 'p \<Rightarrow> 'p"
  CancelImpl :: "QuicTime \<Rightarrow> 'p \<Rightarrow> 'p"
  UpdateImpl :: "QuicTime \<Rightarrow> 'p \<Rightarrow> 'p"

record ('p, 'd) alarm =
  deadline :: QuicTime
  platform :: 'p
  delegate :: 'd

definition QuicAlarm :: "'p \<Rightarrow> 'd \<Rightarrow> ('p, 'd) alarm" where
  "QuicAlarm p d = \<lparr>deadline = Time_Zero, platform = p, delegate = d\<rparr>"

definition IsSet :: "('p, 'd) alarm \<Rightarrow> bool" where
  "IsSet a = IsInitialized (deadline a)"

definition Alarm_Set :: "'p alarm_impl \<Rightarrow> QuicTime \<Rightarrow> ('p, 'd) alarm \<Rightarrow> ('p, 'd) alarm" where
  "Alarm_Set impl new_deadline a = a\<lparr>deadline := new_deadline, platform := SetImpl impl new_deadline (platform a)\<rparr>"

definition Alarm_Cancel :: "'p alarm_impl \<Rightarrow> ('p, 'd) alarm \<Rightarrow> ('p, 'd) alarm" where
  "Alarm_Cancel impl a =
     (if \<not> IsSet a then a else a\<lparr>deadline := Time_Zero, platform := CancelImpl impl Time_Zero (platform a)\<rparr>)"

definition Alarm_Update :: "'p alarm_impl \<Rightarrow> QuicTime \<Rightarrow> Delta \<Rightarrow> ('p, 'd) alarm \<Rightarrow> ('p, 'd) alarm option" where
  "Alarm_Update impl new_deadline granularity a =
     (if \<not> IsInitialized new_deadline then Some (Alarm_Cancel impl a)
      else do {
        d \<leftarrow> time_diff new_deadline (deadline a);
        distance \<leftarrow> i64 \<bar>ToMicroseconds d\<bar>;
        (if distance < ToMicroseconds granularity then Some a
         else let was_set = IsSet a; a = a\<lparr>deadline := new_deadline\<rparr>
              in Some (a\<lparr>platform := (if was_set then UpdateImpl impl else SetImpl impl) new_deadline (platform a)\<rparr>))
      })"

definition Fire :: "('d \<Rightarrow> 'd option) \<Rightarrow> ('p, 'd) alarm \<Rightarrow> ('p, 'd) alarm option" where
  "Fire OnAlarm a =
     (if \<not> IsSet a then Some a
      else let a = a\<lparr>deadline := Time_Zero\<rparr> in map_option (\<lambda>d. a\<lparr>delegate := d\<rparr>) (OnAlarm (delegate a)))"

text \<open>The \<open>UpdateImpl\<close> of the base class: the deadline is zero while \<open>CancelImpl\<close> runs.\<close>

definition base_UpdateImpl :: "(QuicTime \<Rightarrow> 'p \<Rightarrow> 'p) \<Rightarrow> (QuicTime \<Rightarrow> 'p \<Rightarrow> 'p) \<Rightarrow> QuicTime \<Rightarrow> 'p \<Rightarrow> 'p" where
  "base_UpdateImpl set_impl cancel_impl new_deadline p = set_impl new_deadline (cancel_impl Time_Zero p)"

section \<open>The null alarm\<close>

definition NullAlarm :: "'p alarm_impl" where
  "NullAlarm = \<lparr>SetImpl = (\<lambda>_ p. p), CancelImpl = (\<lambda>_ p. p), UpdateImpl = (\<lambda>_ p. p)\<rparr>"

definition Trigger :: "('d \<Rightarrow> 'd option) \<Rightarrow> ('p, 'd) alarm \<Rightarrow> ('p, 'd) alarm option" where
  "Trigger = Fire"

text \<open>The delegate of \<^verbatim>\<open>null_alarm.h\<close> counts its calls in an \<open>int\<close>.\<close>

definition NullDelegate_OnAlarm :: "int \<Rightarrow> int option" where
  "NullDelegate_OnAlarm counter = (if counter + 1 < 2 ^ 31 then Some (counter + 1) else None)"

section \<open>The machine behind the alarm\<close>

datatype alarm_op = DoSet QuicTime | DoCancel | DoUpdate QuicTime Delta | DoFire

fun alarm_step :: "'p alarm_impl \<Rightarrow> ('d \<Rightarrow> 'd option) \<Rightarrow> alarm_op \<Rightarrow> ('p, 'd) alarm \<Rightarrow> ('p, 'd) alarm option" where
  "alarm_step impl OnAlarm (DoSet t) a = Some (Alarm_Set impl t a)"
| "alarm_step impl OnAlarm DoCancel a = Some (Alarm_Cancel impl a)"
| "alarm_step impl OnAlarm (DoUpdate t g) a = Alarm_Update impl t g a"
| "alarm_step impl OnAlarm DoFire a = Fire OnAlarm a"

fun alarm_run :: "'p alarm_impl \<Rightarrow> ('d \<Rightarrow> 'd option) \<Rightarrow> alarm_op list \<Rightarrow> ('p, 'd) alarm \<Rightarrow> ('p, 'd) alarm option" where
  "alarm_run impl OnAlarm [] a = Some a"
| "alarm_run impl OnAlarm (op # ops) a = Option.bind (alarm_step impl OnAlarm op a) (alarm_run impl OnAlarm ops)"

text \<open>Idle is \<open>None\<close>; the second part counts the calls of \<open>OnAlarm\<close>.\<close>

inductive machine_step :: "QuicTime option \<times> nat \<Rightarrow> alarm_op \<Rightarrow> QuicTime option \<times> nat \<Rightarrow> bool" where
  arm: "IsInitialized t \<Longrightarrow> machine_step (s, n) (DoSet t) (Some t, n)"
| disarm: "\<not> IsInitialized t \<Longrightarrow> machine_step (s, n) (DoSet t) (None, n)"
| cancel: "machine_step (s, n) DoCancel (None, n)"
| update_cancel: "\<not> IsInitialized t \<Longrightarrow> machine_step (s, n) (DoUpdate t g) (None, n)"
| update_near: "IsInitialized t \<Longrightarrow> \<bar>time_us t - (case s of None \<Rightarrow> 0 | Some u \<Rightarrow> time_us u)\<bar> < time_offset g \<Longrightarrow>
    machine_step (s, n) (DoUpdate t g) (s, n)"
| update_far: "IsInitialized t \<Longrightarrow> time_offset g \<le> \<bar>time_us t - (case s of None \<Rightarrow> 0 | Some u \<Rightarrow> time_us u)\<bar> \<Longrightarrow>
    machine_step (s, n) (DoUpdate t g) (Some t, n)"
| fire_idle: "machine_step (None, n) DoFire (None, n)"
| fire: "machine_step (Some t, n) DoFire (None, Suc n)"

inductive_cases machine_stepE: "machine_step s op s'"

inductive machine_run :: "QuicTime option \<times> nat \<Rightarrow> alarm_op list \<Rightarrow> QuicTime option \<times> nat \<Rightarrow> bool" where
  none: "machine_run s [] s"
| step: "machine_step s op s' \<Longrightarrow> machine_run s' ops s'' \<Longrightarrow> machine_run s (op # ops) s''"

text \<open>Arming operations, and what they bound.\<close>

fun arms :: "alarm_op \<Rightarrow> bool" where
  "arms (DoSet t) = True" | "arms (DoUpdate t g) = True" | "arms _ = False"

lemma machine_run_bound:
  assumes "machine_run s ops s'"
  shows "snd s' + (if fst s' = None then 0 else 1) \<le> snd s + (if fst s = None then 0 else 1) + length (filter arms ops)"
  using assms by induction (fastforce elim!: machine_stepE split: if_splits)+

fun valid_op :: "alarm_op \<Rightarrow> bool" where
  "valid_op (DoSet t) \<longleftrightarrow> 0 \<le> time_us t \<and> time_us t < 2 ^ 63"
| "valid_op (DoUpdate t g) \<longleftrightarrow> 0 \<le> time_us t \<and> time_us t < 2 ^ 63"
| "valid_op _ \<longleftrightarrow> True"

definition armed :: "('p, 'd) alarm \<Rightarrow> QuicTime option" where
  "armed a = (if IsSet a then Some (deadline a) else None)"

lemma armed_time: "(case armed a of None \<Rightarrow> 0 | Some u \<Rightarrow> time_us u) = time_us (deadline a)"
  by (auto simp: armed_def IsSet_def IsInitialized_def)

lemma alarm_step_simulates:
  assumes op: "valid_op op" and range: "0 \<le> time_us (deadline a)" "time_us (deadline a) < 2 ^ 63"
    and count: "delegate a = int n" "Suc n < 2 ^ 31"
  shows "\<exists>a' n'. alarm_step impl NullDelegate_OnAlarm op a = Some a' \<and> machine_step (armed a, n) op (armed a', n') \<and>
     delegate a' = int n' \<and> n' \<le> Suc n \<and> 0 \<le> time_us (deadline a') \<and> time_us (deadline a') < 2 ^ 63"
proof (cases op)
  case (DoUpdate t g)
  show ?thesis
  proof (cases "IsInitialized t")
    case True
    let ?d = "\<bar>time_us t - time_us (deadline a)\<bar>"
    have "i64 (time_us t - time_us (deadline a)) = Some (time_us t - time_us (deadline a))" "i64 ?d = Some ?d"
      using op range DoUpdate by (auto intro!: i64_in)
    then have "Alarm_Update impl t g a = Some (if ?d < time_offset g then a
        else a\<lparr>deadline := t, platform := (if IsSet a then UpdateImpl impl else SetImpl impl) t (platform a)\<rparr>)"
      using True by (simp add: Alarm_Update_def time_diff_def ToMicroseconds_def Let_def)
    then show ?thesis
      using True DoUpdate op range count update_near [OF True, of "armed a" g n, unfolded armed_time]
        update_far [OF True, of g "armed a" n, unfolded armed_time]
      by (cases "?d < time_offset g") (auto simp: armed_def IsSet_def)
  next
    case False
    then show ?thesis
      using DoUpdate range count update_cancel [OF False, of "armed a" n g]
      by (auto simp: Alarm_Update_def Alarm_Cancel_def armed_def IsSet_def Time_Zero_def IsInitialized_def)
  qed
next
  case DoFire
  then show ?thesis
    using range count fire_idle [of n] fire [of "deadline a" n]
    by (auto simp: Fire_def armed_def IsSet_def Time_Zero_def IsInitialized_def NullDelegate_OnAlarm_def Let_def)
next
  case (DoSet t)
  then show ?thesis
    using op count arm [of t "armed a" n] disarm [of t "armed a" n] by (auto simp: Alarm_Set_def armed_def IsSet_def)
next
  case DoCancel
  then show ?thesis
    using range count cancel [of "armed a" n]
    by (auto simp: Alarm_Cancel_def armed_def IsSet_def Time_Zero_def IsInitialized_def)
qed

lemma alarm_run_simulates:
  "\<forall>op \<in> set ops. valid_op op \<Longrightarrow> 0 \<le> time_us (deadline a) \<Longrightarrow> time_us (deadline a) < 2 ^ 63 \<Longrightarrow> delegate a = int n \<Longrightarrow>
   n + length ops < 2 ^ 31 \<Longrightarrow>
   \<exists>a' n'. alarm_run impl NullDelegate_OnAlarm ops a = Some a' \<and> machine_run (armed a, n) ops (armed a', n') \<and> delegate a' = int n'"
proof (induction ops arbitrary: a n)
  case Nil
  then show ?case using machine_run.none by auto
next
  case (Cons op ops)
  then have "valid_op op" "Suc n < 2 ^ 31" by simp_all
  with alarm_step_simulates [OF this(1) Cons.prems(2-4), of impl] obtain a1 n1 where
    1: "alarm_step impl NullDelegate_OnAlarm op a = Some a1" "machine_step (armed a, n) op (armed a1, n1)" "delegate a1 = int n1"
      "n1 \<le> Suc n" "0 \<le> time_us (deadline a1)" "time_us (deadline a1) < 2 ^ 63" by blast
  moreover have "\<forall>op \<in> set ops. valid_op op" "n1 + length ops < 2 ^ 31" using Cons.prems(1,5) 1(4) by auto
  ultimately obtain a' n' where "alarm_run impl NullDelegate_OnAlarm ops a1 = Some a'" "machine_run (armed a1, n1) ops (armed a', n')"
    "delegate a' = int n'" using Cons.IH [of a1 n1] by blast
  with 1 show ?case using machine_run.step [OF 1(2)] by auto
qed

text \<open>
  C34: an alarm is the machine that is idle or armed. On every sequence of operations with deadlines that are
  not negative, whatever the platform functions do, the alarm follows the machine's steps, its counting
  delegate has been called as often as the machine fired, and that is at most once for each time the alarm
  was set or updated.
\<close>

theorem alarm_refines_machine:
  assumes "\<forall>op \<in> set ops. valid_op op" and "length ops < 2 ^ 31"
  shows "\<exists>a n. alarm_run impl NullDelegate_OnAlarm ops (QuicAlarm p 0) = Some a \<and> machine_run (None, 0) ops (armed a, n) \<and>
     delegate a = int n \<and> n \<le> length (filter arms ops)"
proof -
  have "armed (QuicAlarm p (0 :: int)) = None" by (simp add: armed_def QuicAlarm_def IsSet_def IsInitialized_def Time_Zero_def)
  moreover have "deadline (QuicAlarm p (0 :: int)) = QuicTime 0" "delegate (QuicAlarm p 0) = int 0" by (simp_all add: QuicAlarm_def Time_Zero_def)
  ultimately obtain a n where "alarm_run impl NullDelegate_OnAlarm ops (QuicAlarm p 0) = Some a" "machine_run (None, 0) ops (armed a, n)"
    "delegate a = int n"
    using alarm_run_simulates [OF assms(1), of "QuicAlarm p 0" 0 impl] assms(2) by auto
  with machine_run_bound [of "(None, 0)" ops "(armed a, n)"] show ?thesis by fastforce
qed

theorem alarm_refines_machine_witness:
  "\<exists>a n. alarm_run NullAlarm NullDelegate_OnAlarm [DoSet (QuicTime 10), DoFire, DoFire, DoUpdate (QuicTime 20) (Delta 1), DoCancel, DoFire]
       (QuicAlarm () 0) = Some a \<and> delegate a = int n \<and> n \<le> 2"
  using alarm_refines_machine [of "[DoSet (QuicTime 10), DoFire, DoFire, DoUpdate (QuicTime 20) (Delta 1), DoCancel, DoFire]" NullAlarm "()"]
  by auto

section \<open>The platform's timer\<close>

text \<open>
  The platform's timer follows the alarm. If \<open>SetImpl\<close> starts a timer for the deadline it sees and \<open>CancelImpl\<close>
  stops it, and updates are those of the base class, then after every sequence of operations an alarm
  that is set has its deadline on the timer.
\<close>

theorem alarm_timer_follows:
  assumes "\<And>t p. timer (set_impl t p) = Some t" and "\<And>t p. timer (cancel_impl t p) = None"
    and "alarm_run \<lparr>SetImpl = set_impl, CancelImpl = cancel_impl, UpdateImpl = base_UpdateImpl set_impl cancel_impl\<rparr> OnAlarm ops (QuicAlarm p d) = Some a"
  shows "IsSet a \<longrightarrow> timer (platform a) = Some (deadline a)"
proof -
  let ?impl = "\<lparr>SetImpl = set_impl, CancelImpl = cancel_impl, UpdateImpl = base_UpdateImpl set_impl cancel_impl\<rparr>"
  let ?ok = "\<lambda>a. IsSet a \<longrightarrow> timer (platform a) = Some (deadline a)"
  have step: "?ok a'" if "alarm_step ?impl OnAlarm op a = Some a'" "?ok a" for op a a'
    using that assms(1,2)
    by (cases op) (auto simp: Alarm_Set_def Alarm_Cancel_def Alarm_Update_def Fire_def base_UpdateImpl_def IsSet_def IsInitialized_def
        Time_Zero_def Let_def bind_eq_Some_conv split: if_splits)
  have "alarm_run ?impl OnAlarm ops a0 = Some a \<Longrightarrow> ?ok a0 \<Longrightarrow> ?ok a" for a0
    using step by (induction ops arbitrary: a0) (auto simp: bind_eq_Some_conv)
  then show ?thesis using assms(3) by (simp add: QuicAlarm_def IsSet_def IsInitialized_def Time_Zero_def)
qed

theorem alarm_timer_follows_witness:
  "IsSet (the (alarm_run \<lparr>SetImpl = (\<lambda>t _. Some t), CancelImpl = (\<lambda>_ _. None), UpdateImpl = base_UpdateImpl (\<lambda>t _. Some t) (\<lambda>_ _. None)\<rparr>
      NullDelegate_OnAlarm [DoSet (QuicTime 10), DoUpdate (QuicTime 20) (Delta 1)] (QuicAlarm None 0))) \<longrightarrow>
    platform (the (alarm_run \<lparr>SetImpl = (\<lambda>t _. Some t), CancelImpl = (\<lambda>_ _. None), UpdateImpl = base_UpdateImpl (\<lambda>t _. Some t) (\<lambda>_ _. None)\<rparr>
      NullDelegate_OnAlarm [DoSet (QuicTime 10), DoUpdate (QuicTime 20) (Delta 1)] (QuicAlarm None 0))) = Some (QuicTime 20)"
  (is "IsSet (the ?run) \<longrightarrow> _")
proof -
  obtain a where a: "?run = Some a" "deadline a = QuicTime 20"
    by (simp add: Alarm_Set_def Alarm_Update_def QuicAlarm_def IsInitialized_def time_diff_def i64_def ToMicroseconds_def Let_def)
  from alarm_timer_follows [OF _ _ a(1), of "\<lambda>p. p"] a show ?thesis by simp
qed

end
