(* ===== verification/Std_Map.thy ===== *)
theory Std_Map
  imports Main
begin

text \<open>
  \<open>std::map\<close> as the list of its entries in the order of iteration: keys strictly ascending, \<open>begin\<close> the head,
  \<open>rbegin\<close> the last entry, \<open>find\<close> the lookup \<open>map_of\<close>; \<open>insert\<close> keeps an entry that is there.
\<close>

fun map_insert :: "'k :: linorder \<Rightarrow> 'v \<Rightarrow> ('k \<times> 'v) list \<Rightarrow> ('k \<times> 'v) list" where
  "map_insert k v [] = [(k, v)]"
| "map_insert k v ((k', v') # m) =
     (if k < k' then (k, v) # (k', v') # m else if k = k' then (k', v') # m else (k', v') # map_insert k v m)"

definition map_erase :: "'k \<Rightarrow> ('k \<times> 'v) list \<Rightarrow> ('k \<times> 'v) list" where
  "map_erase k m = filter (\<lambda>(k', _). k' \<noteq> k) m"

definition ascending :: "('k :: linorder \<times> 'v) list \<Rightarrow> bool" where
  "ascending m \<longleftrightarrow> sorted_wrt (<) (map fst m)"

lemma ascending_simps [simp]:
  "ascending []" "ascending ((k, v) # m) \<longleftrightarrow> (\<forall>k' \<in> fst ` set m. k < k') \<and> ascending m"
  by (auto simp: ascending_def)

lemma ascending_append: "ascending (m @ m') \<longleftrightarrow> ascending m \<and> ascending m' \<and> (\<forall>k \<in> fst ` set m. \<forall>k' \<in> fst ` set m'. k < k')"
  by (auto simp: ascending_def sorted_wrt_append)

lemma ascending_distinct: "ascending m \<Longrightarrow> distinct (map fst m)"
  by (induction m) fastforce+

lemma map_insert_entries:
  "set (map_insert k v m) \<subseteq> insert (k, v) (set m)" "set m \<subseteq> set (map_insert k v m)" "\<exists>v'. (k, v') \<in> set (map_insert k v m)"
  by (induction m) (auto split: if_splits)

lemma map_insert_keys: "fst ` set (map_insert k v m) = insert k (fst ` set m)"
  using map_insert_entries(1) [where k = k and v = v and m = m] map_insert_entries(2) [where k = k and v = v and m = m]
    map_insert_entries(3) [where k = k and v = v and m = m] by (force simp: image_iff)

lemma map_insert_ascending: "ascending m \<Longrightarrow> ascending (map_insert k v m)"
  by (induction m) (force simp: map_insert_keys)+

lemma map_insert_last: "\<forall>k' \<in> fst ` set m. k' < k \<Longrightarrow> map_insert k v m = m @ [(k, v)]"
  by (induction m) auto

lemma map_erase_set: "set (map_erase k m) = {p \<in> set m. fst p \<noteq> k}"
  by (auto simp: map_erase_def)

lemma map_erase_ascending: "ascending m \<Longrightarrow> ascending (map_erase k m)"
  by (induction m) (auto simp: map_erase_def)

lemma ascending_find: "ascending m \<Longrightarrow> map_of m k = Some v \<longleftrightarrow> (k, v) \<in> set m"
  using map_of_eq_Some_iff [OF ascending_distinct] .

end
