(* ===== verification/Bbr_Sender.thy ===== *)
theory Bbr_Sender
  imports Quic_Time Std_Map
begin

text \<open>
  \<^verbatim>\<open>mybbr/my_bbr_sender.{h,cc}\<close> and \<^verbatim>\<open>my_pacing_sender.{h,cc}\<close>: congestion control by bandwidth probing. The
  sender keeps the packets of each gain cycle in a cluster on the heap; clusters are linked in both
  directions, found through a map from rounds, and remembered in a list once they have given a
  bandwidth sample. The heap is explicit: an address that was deleted is not in it, and following a pointer to
  it is \<open>None\<close>, like an index out of range and an arithmetic overflow. Times are those of \<open>Quic_Time\<close>.

  \<open>QuicBandwidth\<close>, \<open>WindowedFilter\<close> and \<open>QuicRandom\<close> belong to the QUIC library and are parameters, gathered
  in \<open>bbr_lib\<close>; nothing is assumed of them here. Gains are single-precision constants that
  rational numbers represent exactly.
\<close>

section \<open>The library's interface\<close>

record ('b, 'f, 'r) bbr_lib =
  Bandwidth_Zero :: 'b
  Bandwidth_Infinite :: 'b
  FromBitsPerSecond :: "u64 \<Rightarrow> 'b"
  FromBytesAndTimeDelta :: "u64 \<Rightarrow> Delta \<Rightarrow> 'b"
  bw_less :: "'b \<Rightarrow> 'b \<Rightarrow> bool"
  bw_scale :: "rat \<Rightarrow> 'b \<Rightarrow> 'b"
  TransferTime :: "'b \<Rightarrow> u64 \<Rightarrow> Delta"
  new_filter :: "u64 \<Rightarrow> 'b \<Rightarrow> u64 \<Rightarrow> 'f"
  filter_Update :: "'b \<Rightarrow> u64 \<Rightarrow> 'f \<Rightarrow> 'f"
  filter_Reset :: "'b \<Rightarrow> u64 \<Rightarrow> 'f \<Rightarrow> 'f"
  GetBest :: "'f \<Rightarrow> 'b"
  RandUint64 :: "'r \<Rightarrow> u64 \<times> 'r"

definition bw_min :: "('b, 'f, 'r) bbr_lib \<Rightarrow> 'b \<Rightarrow> 'b \<Rightarrow> 'b" where
  "bw_min lib a b = (if bw_less lib b a then b else a)"

section \<open>Constants\<close>

definition kPacingGain :: "rat list" where
  "kPacingGain = [5 / 4, 3 / 4, 1, 1, 1, 1, 1, 1]"

definition kGainCycleLength :: nat where "kGainCycleLength = length kPacingGain"
definition kBandwidthWindowSize :: u64 where "kBandwidthWindowSize = of_nat kGainCycleLength + 2"
definition kMinRttExpiry :: Delta where "kMinRttExpiry = Delta 10000000"
definition kProbeRttTime :: Delta where "kProbeRttTime = Delta 200000"
definition kSimilarMinRttThreshold :: rat where "kSimilarMinRttThreshold = 9 / 8"
definition kAverageAckRateWindowSize :: nat where "kAverageAckRateWindowSize = 10"

section \<open>State\<close>

record SentPacketInfo =
  pkt_seq :: u64
  pkt_sent_ts :: QuicTime
  pkt_ack_ts :: QuicTime
  pkt_len :: u64

record 'b SentClusterInfo =
  cluster_id :: u64
  first_send_ts :: QuicTime
  last_send_ts :: QuicTime
  first_ack_ts :: QuicTime
  last_ack_ts :: QuicTime
  acked_packets :: u64
  sent_packets :: u64
  packet_infos :: "SentPacketInfo list"
  prev_cluster :: "nat option"
  next_cluster :: "nat option"
  cluster_bw :: 'b

datatype Mode = START_UP | PROBE_BW | PROBE_RTT

record ('b, 'f, 'r) bbr =
  min_bps :: u64
  start_bps :: u64
  max_bps :: u64
  mode :: Mode
  round_trip_count :: u64
  connection_info :: "(u64 \<times> nat) list"
  seq_round_map :: "(u64 \<times> u64) list"
  seq_ts_map :: "(u64 \<times> QuicTime) list"
  min_rtt :: Delta
  recored_min_rtt :: Delta
  min_rtt_timestamp :: QuicTime
  exit_probe_rtt_at :: QuicTime
  pacing_rate :: 'b
  pacing_gain :: rat
  cycle_current_offset :: nat
  last_cycle_start :: QuicTime
  last_ack_seq :: u64
  max_bandwidth :: 'f
  avergae_bandwidth :: 'f
  average_round :: u64
  acked_clusters :: "nat list"
  random :: 'r
  clusters :: "nat \<Rightarrow> 'b SentClusterInfo option"
  next_address :: nat

definition SentClusterInfo_new :: "('b, 'f, 'r) bbr_lib \<Rightarrow> u64 \<Rightarrow> 'b SentClusterInfo" where
  "SentClusterInfo_new lib cid = \<lparr>cluster_id = cid, first_send_ts = Time_Zero, last_send_ts = Time_Zero, first_ack_ts = Time_Zero,
     last_ack_ts = Time_Zero, acked_packets = 0, sent_packets = 0, packet_infos = [], prev_cluster = None, next_cluster = None, cluster_bw = Bandwidth_Zero lib\<rparr>"

definition MyBbrSender :: "('b, 'f, 'r) bbr_lib \<Rightarrow> 'r \<Rightarrow> u64 \<Rightarrow> u64 \<Rightarrow> u64 \<Rightarrow> ('b, 'f, 'r) bbr" where
  "MyBbrSender lib rnd mn start mx = \<lparr>
     min_bps = mn, start_bps = start, max_bps = mx, mode = START_UP, round_trip_count = 0, connection_info = [], seq_round_map = [],
     seq_ts_map = [], min_rtt = Delta_Zero, recored_min_rtt = Delta_Zero, min_rtt_timestamp = Time_Zero, exit_probe_rtt_at = Time_Zero,
     pacing_rate = FromBitsPerSecond lib start, pacing_gain = 1, cycle_current_offset = 0, last_cycle_start = Time_Zero, last_ack_seq = 0,
     max_bandwidth = new_filter lib kBandwidthWindowSize (Bandwidth_Zero lib) 0,
     avergae_bandwidth = new_filter lib (of_nat kAverageAckRateWindowSize) (Bandwidth_Zero lib) 0,
     average_round = 0, acked_clusters = [], random = rnd, clusters = (\<lambda>_. None), next_address = 0\<rparr>"

section \<open>Clusters\<close>

definition set_cluster :: "nat \<Rightarrow> 'b SentClusterInfo \<Rightarrow> ('b, 'f, 'r) bbr \<Rightarrow> ('b, 'f, 'r) bbr" where
  "set_cluster a c s = s\<lparr>clusters := (clusters s)(a := Some c)\<rparr>"

definition delete_cluster :: "nat \<Rightarrow> ('b, 'f, 'r) bbr \<Rightarrow> ('b, 'f, 'r) bbr option" where
  "delete_cluster a s = map_option (\<lambda>_. s\<lparr>clusters := (clusters s)(a := None)\<rparr>) (clusters s a)"

definition SetPrev :: "nat \<Rightarrow> nat option \<Rightarrow> ('b, 'f, 'r) bbr \<Rightarrow> ('b, 'f, 'r) bbr option" where
  "SetPrev a p s = map_option (\<lambda>c. set_cluster a (c\<lparr>prev_cluster := p\<rparr>) s) (clusters s a)"

definition SetNext :: "nat \<Rightarrow> nat option \<Rightarrow> ('b, 'f, 'r) bbr \<Rightarrow> ('b, 'f, 'r) bbr option" where
  "SetNext a n s = map_option (\<lambda>c. set_cluster a (c\<lparr>next_cluster := n\<rparr>) s) (clusters s a)"

definition cluster_OnPacketSent :: "nat \<Rightarrow> QuicTime \<Rightarrow> u64 \<Rightarrow> u64 \<Rightarrow> ('b, 'f, 'r) bbr \<Rightarrow> ('b, 'f, 'r) bbr option" where
  "cluster_OnPacketSent a now seq len s = do {
     c \<leftarrow> clusters s a;
     Some (set_cluster a (c\<lparr>first_send_ts := (if first_send_ts c = Time_Zero then now else first_send_ts c), last_send_ts := now,
       packet_infos := packet_infos c @ [\<lparr>pkt_seq = seq, pkt_sent_ts = now, pkt_ack_ts = Time_Zero, pkt_len = len\<rparr>],
       sent_packets := sent_packets c + len\<rparr>) s)
   }"

definition OnEstimateBandwidth :: "('b, 'f, 'r) bbr_lib \<Rightarrow> nat \<Rightarrow> u64 \<Rightarrow> 'b \<Rightarrow> ('b, 'f, 'r) bbr \<Rightarrow> ('b, 'f, 'r) bbr" where
  "OnEstimateBandwidth lib a cid b s =
     s\<lparr>acked_clusters := acked_clusters s @ [a], max_bandwidth := filter_Update lib b cid (max_bandwidth s)\<rparr>"

definition TriggerBandwidthEstimate :: "('b, 'f, 'r) bbr_lib \<Rightarrow> nat \<Rightarrow> ('b, 'f, 'r) bbr \<Rightarrow> ('b, 'f, 'r) bbr option" where
  "TriggerBandwidthEstimate lib a s = do {
     c \<leftarrow> clusters s a;
     (if acked_packets c = 0 \<or> last_ack_ts c = first_ack_ts c then Some s
      else do {
        send_rate \<leftarrow> (if last_send_ts c > first_send_ts c
                       then map_option (FromBytesAndTimeDelta lib (sent_packets c)) (time_diff (last_send_ts c) (first_send_ts c))
                       else Some (Bandwidth_Infinite lib));
        ack_rate \<leftarrow> map_option (FromBytesAndTimeDelta lib (acked_packets c)) (time_diff (last_ack_ts c) (first_ack_ts c));
        let b = bw_min lib send_rate ack_rate;
        let s = set_cluster a (c\<lparr>cluster_bw := b\<rparr>) s;
        Some (if bw_less lib (Bandwidth_Zero lib) b then OnEstimateBandwidth lib a (cluster_id c) b s else s)
      })
   }"

text \<open>The offset into the packets is computed modulo \<open>2 ^ 32\<close>.\<close>

definition cluster_OnAck :: "('b, 'f, 'r) bbr_lib \<Rightarrow> nat \<Rightarrow> u64 \<Rightarrow> QuicTime \<Rightarrow> ('b, 'f, 'r) bbr \<Rightarrow> ('b, 'f, 'r) bbr option" where
  "cluster_OnAck lib a seq now s = do {
     c \<leftarrow> clusters s a;
     s \<leftarrow> (if first_ack_ts c = Time_Zero
           then let s = set_cluster a (c\<lparr>first_ack_ts := now\<rparr>) s
                in case prev_cluster c of None \<Rightarrow> Some s | Some p \<Rightarrow> TriggerBandwidthEstimate lib p s
           else Some s);
     c \<leftarrow> clusters s a;
     let c = c\<lparr>last_ack_ts := now\<rparr>;
     (case packet_infos c of
        [] \<Rightarrow> None
      | head # _ \<Rightarrow>
          let offset = unat (ucast (seq - pkt_seq head) :: u32) in
          Some (set_cluster a
            (if seq \<ge> pkt_seq head \<and> offset < length (packet_infos c)
             then c\<lparr>packet_infos := (packet_infos c)[offset := (packet_infos c ! offset)\<lparr>pkt_ack_ts := now\<rparr>],
                    acked_packets := acked_packets c + pkt_len (packet_infos c ! offset)\<rparr>
             else c) s))
   }"

text \<open>\<open>GetSentInfo\<close> and \<open>GetAckedInfo\<close>: milliseconds as \<open>uint64_t\<close> and bytes.\<close>

definition GetSentInfo :: "'b SentClusterInfo \<Rightarrow> (u64 \<times> u64) option" where
  "GetSentInfo c = map_option (\<lambda>d. (word_of_int (ToMilliseconds d), sent_packets c)) (time_diff (last_send_ts c) (first_send_ts c))"

definition GetAckedInfo :: "'b SentClusterInfo \<Rightarrow> (u64 \<times> u64) option" where
  "GetAckedInfo c = map_option (\<lambda>d. (word_of_int (ToMilliseconds d), acked_packets c)) (time_diff (last_ack_ts c) (first_ack_ts c))"

section \<open>Removing clusters\<close>

fun delete_all :: "(u64 \<times> nat) list \<Rightarrow> ('b, 'f, 'r) bbr \<Rightarrow> ('b, 'f, 'r) bbr option" where
  "delete_all [] s = Some (s\<lparr>connection_info := []\<rparr>)"
| "delete_all ((cid, a) # m) s = Option.bind (delete_cluster a s) (delete_all m)"

definition ClusterInfoClear :: "('b, 'f, 'r) bbr_lib \<Rightarrow> ('b, 'f, 'r) bbr \<Rightarrow> ('b, 'f, 'r) bbr option" where
  "ClusterInfoClear lib s =
     (let s = s\<lparr>max_bandwidth := filter_Reset lib (Bandwidth_Zero lib) 0 (max_bandwidth s),
              avergae_bandwidth := filter_Reset lib (Bandwidth_Zero lib) 0 (avergae_bandwidth s),
              seq_round_map := [], acked_clusters := [], average_round := 0\<rparr>
      in delete_all (connection_info s) s)"

definition MyBbrSender_delete :: "('b, 'f, 'r) bbr \<Rightarrow> ('b, 'f, 'r) bbr option" where
  "MyBbrSender_delete s = delete_all (connection_info s) (s\<lparr>seq_round_map := [], acked_clusters := []\<rparr>)"

text \<open>The loop takes the entries of the map from the front.\<close>

fun remove_le :: "u64 \<Rightarrow> (u64 \<times> nat) list \<Rightarrow> ('b, 'f, 'r) bbr \<Rightarrow> ('b, 'f, 'r) bbr option" where
  "remove_le r [] s = Some (s\<lparr>connection_info := []\<rparr>)"
| "remove_le r ((cid, a) # m) s =
     (if cid \<le> r
      then do {
        c \<leftarrow> clusters s a;
        s \<leftarrow> (case next_cluster c of None \<Rightarrow> Some s | Some n \<Rightarrow> SetPrev n None s);
        s \<leftarrow> delete_cluster a s;
        remove_le r m s
      }
      else Some (s\<lparr>connection_info := (cid, a) # m\<rparr>))"

definition RemoveClusterLE :: "u64 \<Rightarrow> ('b, 'f, 'r) bbr \<Rightarrow> ('b, 'f, 'r) bbr option" where
  "RemoveClusterLE r s = remove_le r (connection_info s) s"

section \<open>Rates\<close>

definition PaceRate :: "('b, 'f, 'r) bbr \<Rightarrow> 'b" where "PaceRate s = pacing_rate s"

definition BandwidthEstimate :: "('b, 'f, 'r) bbr_lib \<Rightarrow> ('b, 'f, 'r) bbr \<Rightarrow> 'b" where
  "BandwidthEstimate lib s = GetBest lib (max_bandwidth s)"

definition AverageBandwidthEstimate :: "('b, 'f, 'r) bbr_lib \<Rightarrow> ('b, 'f, 'r) bbr \<Rightarrow> 'b" where
  "AverageBandwidthEstimate lib s = GetBest lib (avergae_bandwidth s)"

definition GetReferenceRate :: "('b, 'f, 'r) bbr_lib \<Rightarrow> ('b, 'f, 'r) bbr \<Rightarrow> 'b" where
  "GetReferenceRate lib s =
     (let min_rate = FromBitsPerSecond lib (min_bps s); b = GetBest lib (max_bandwidth s) in if bw_less lib b min_rate then min_rate else b)"

definition ShouldSendProbePacket :: "('b, 'f, 'r) bbr \<Rightarrow> bool" where
  "ShouldSendProbePacket s \<longleftrightarrow> \<not> pacing_gain s \<le> 1"

definition CalculatePacingRate :: "('b, 'f, 'r) bbr_lib \<Rightarrow> ('b, 'f, 'r) bbr \<Rightarrow> ('b, 'f, 'r) bbr" where
  "CalculatePacingRate lib s =
     (let min_rate = FromBitsPerSecond lib (min_bps s);
          s = (if mode s = PROBE_RTT \<or> mode s = START_UP then s\<lparr>pacing_rate := min_rate\<rparr> else s)
      in if mode s = PROBE_BW
         then let target_rate = bw_scale lib (pacing_gain s) (BandwidthEstimate lib s)
              in s\<lparr>pacing_rate := (if bw_less lib target_rate min_rate then min_rate else target_rate)\<rparr>
         else s)"

section \<open>Round-trip times and modes\<close>

definition UpdateRtt :: "QuicTime \<Rightarrow> u64 \<Rightarrow> ('b, 'f, 'r) bbr \<Rightarrow> ('b, 'f, 'r) bbr option" where
  "UpdateRtt now packet_number s = do {
     s \<leftarrow> (case map_of (seq_ts_map s) packet_number of
             None \<Rightarrow> Some s
           | Some ts \<Rightarrow> do {
               rtt \<leftarrow> time_diff now ts;
               (if min_rtt s = Delta_Zero then Some (s\<lparr>min_rtt := rtt, min_rtt_timestamp := now\<rparr>)
                else do {
                  let s = (if rtt < min_rtt s then s\<lparr>min_rtt := rtt, min_rtt_timestamp := now\<rparr> else s);
                  similar \<leftarrow> (if rtt > min_rtt s then delta_scale (min_rtt s) kSimilarMinRttThreshold else Some Delta_Zero);
                  Some (if rtt > min_rtt s \<and> rtt \<le> similar then s\<lparr>min_rtt_timestamp := now\<rparr> else s)
                })
             });
     Some (s\<lparr>seq_ts_map := dropWhile (\<lambda>(seq, _). seq \<le> packet_number) (seq_ts_map s)\<rparr>)
   }"

definition set_gain :: "nat \<Rightarrow> QuicTime \<Rightarrow> ('b, 'f, 'r) bbr \<Rightarrow> ('b, 'f, 'r) bbr option" where
  "set_gain offset now s =
     (if offset < length kPacingGain
      then Some (s\<lparr>cycle_current_offset := offset, last_cycle_start := now, pacing_gain := kPacingGain ! offset,
                  round_trip_count := round_trip_count s + 1\<rparr>)
      else None)"

definition EnterProbeBandwidthMode :: "('b, 'f, 'r) bbr_lib \<Rightarrow> QuicTime \<Rightarrow> ('b, 'f, 'r) bbr \<Rightarrow> ('b, 'f, 'r) bbr option" where
  "EnterProbeBandwidthMode lib now s =
     (if mode s = PROBE_BW then Some s
      else case RandUint64 lib (random s) of
        (n, rnd) \<Rightarrow>
          let offset = unat (n mod of_nat (kGainCycleLength - 1));
              offset = (if offset \<ge> 1 then offset + 1 else offset)
          in set_gain offset now (s\<lparr>mode := PROBE_BW, random := rnd\<rparr>))"

definition UpdateGainCyclePhase :: "QuicTime \<Rightarrow> ('b, 'f, 'r) bbr \<Rightarrow> ('b, 'f, 'r) bbr option" where
  "UpdateGainCyclePhase now s = do {
     d \<leftarrow> time_diff now (last_cycle_start s);
     (if d > min_rtt s then set_gain ((cycle_current_offset s + 1) mod kGainCycleLength) now s else Some s)
   }"

definition HasSampledLastMinRtt :: "('b, 'f, 'r) bbr \<Rightarrow> bool option" where
  "HasSampledLastMinRtt s =
     (if min_rtt s \<noteq> Delta_Zero \<and> recored_min_rtt s \<noteq> Delta_Zero
      then map_option (\<lambda>d. min_rtt s < d) (delta_scale (recored_min_rtt s) kSimilarMinRttThreshold)
      else Some False)"

definition MaybeEnterOrExitProbeRtt ::
  "('b, 'f, 'r) bbr_lib \<Rightarrow> QuicTime \<Rightarrow> bool \<Rightarrow> ('b, 'f, 'r) bbr \<Rightarrow> ('b, 'f, 'r) bbr option" where
  "MaybeEnterOrExitProbeRtt lib now min_rtt_expired s = do {
     s \<leftarrow> (if min_rtt_expired \<and> mode s \<noteq> PROBE_RTT
           then ClusterInfoClear lib (s\<lparr>mode := PROBE_RTT, pacing_gain := 1, exit_probe_rtt_at := Time_Zero, round_trip_count := 0,
                  recored_min_rtt := min_rtt s, min_rtt := Delta_Zero, seq_ts_map := []\<rparr>)
           else Some s);
     (if mode s = PROBE_RTT
      then do {
        s \<leftarrow> (if exit_probe_rtt_at s = Time_Zero then map_option (\<lambda>t. s\<lparr>exit_probe_rtt_at := t\<rparr>) (time_plus now kProbeRttTime) else Some s);
        leave \<leftarrow> (if now > exit_probe_rtt_at s then Some True else HasSampledLastMinRtt s);
        (if leave then EnterProbeBandwidthMode lib now (s\<lparr>recored_min_rtt := Delta_Zero\<rparr>) else Some s)
      }
      else Some s)
   }"

section \<open>Events\<close>

definition AddSeqAndTimestamp :: "QuicTime \<Rightarrow> u64 \<Rightarrow> ('b, 'f, 'r) bbr \<Rightarrow> ('b, 'f, 'r) bbr" where
  "AddSeqAndTimestamp now packet_number s = s\<lparr>seq_ts_map := map_insert packet_number now (seq_ts_map s)\<rparr>"

definition new_cluster :: "('b, 'f, 'r) bbr_lib \<Rightarrow> ('b, 'f, 'r) bbr \<Rightarrow> (nat \<times> ('b, 'f, 'r) bbr) option" where
  "new_cluster lib s = do {
     let prev = (if connection_info s = [] then None else Some (snd (last (connection_info s))));
     let a = next_address s;
     let s = set_cluster a (SentClusterInfo_new lib (round_trip_count s)) (s\<lparr>next_address := a + 1\<rparr>);
     s \<leftarrow> SetPrev a prev s;
     s \<leftarrow> (case prev of None \<Rightarrow> Some s | Some p \<Rightarrow> SetNext p (Some a) s);
     Some (a, s\<lparr>connection_info := map_insert (round_trip_count s) a (connection_info s)\<rparr>)
   }"

definition AddPacketInfoSampler :: "('b, 'f, 'r) bbr_lib \<Rightarrow> QuicTime \<Rightarrow> u64 \<Rightarrow> u64 \<Rightarrow> ('b, 'f, 'r) bbr \<Rightarrow> ('b, 'f, 'r) bbr option" where
  "AddPacketInfoSampler lib now packet_number bytes s = do {
     (a, s) \<leftarrow> (case map_of (connection_info s) (round_trip_count s) of Some a \<Rightarrow> Some (a, s) | None \<Rightarrow> new_cluster lib s);
     s \<leftarrow> cluster_OnPacketSent a now packet_number bytes s;
     Some (s\<lparr>seq_round_map := map_insert packet_number (round_trip_count s) (seq_round_map s)\<rparr>)
   }"

definition OnPacketSent :: "('b, 'f, 'r) bbr_lib \<Rightarrow> QuicTime \<Rightarrow> u64 \<Rightarrow> u64 \<Rightarrow> ('b, 'f, 'r) bbr \<Rightarrow> ('b, 'f, 'r) bbr option" where
  "OnPacketSent lib event_time packet_number bytes s =
     (let s = AddSeqAndTimestamp event_time packet_number s in
      if mode s = PROBE_BW
      then Option.bind (UpdateGainCyclePhase event_time s) (AddPacketInfoSampler lib event_time packet_number bytes)
      else Some s)"

text \<open>The sums over the acknowledged clusters: sent and acknowledged bytes, the two times, the last id that counted.\<close>

record cluster_sums =
  total_sent_bytes :: u64
  total_acked_bytes :: u64
  acc_sent_delta :: u64
  acc_ack_delta :: u64
  last_cluster_id :: u64

fun sum_clusters :: "nat list \<Rightarrow> ('b, 'f, 'r) bbr \<Rightarrow> cluster_sums \<Rightarrow> cluster_sums option" where
  "sum_clusters [] s t = Some t"
| "sum_clusters (a # as) s t = do {
     c \<leftarrow> clusters s a;
     (sent_delta, sent_bytes) \<leftarrow> GetSentInfo c;
     (ack_delta, acked_bytes) \<leftarrow> GetAckedInfo c;
     let t = (if sent_delta \<noteq> 0 then t\<lparr>acc_sent_delta := acc_sent_delta t + sent_delta, total_sent_bytes := total_sent_bytes t + sent_bytes\<rparr> else t);
     let t = (if ack_delta \<noteq> 0 then t\<lparr>acc_ack_delta := acc_ack_delta t + ack_delta, total_acked_bytes := total_acked_bytes t + acked_bytes,
                last_cluster_id := cluster_id c\<rparr> else t);
     sum_clusters as s t
   }"

fun drop_stale :: "nat \<Rightarrow> ('b, 'f, 'r) bbr \<Rightarrow> ('b, 'f, 'r) bbr option" where
  "drop_stale 0 s = Some s"
| "drop_stale (Suc n) s =
     (case acked_clusters s of
        [] \<Rightarrow> None
      | a # as \<Rightarrow> do {
          c \<leftarrow> clusters s a;
          s \<leftarrow> RemoveClusterLE (cluster_id c) (s\<lparr>acked_clusters := as\<rparr>);
          drop_stale n s
        })"

definition rate_of :: "('b, 'f, 'r) bbr_lib \<Rightarrow> u64 \<Rightarrow> u64 \<Rightarrow> 'b option" where
  "rate_of lib bytes delta_ms =
     (if delta_ms > 0 then map_option (FromBytesAndTimeDelta lib bytes) (FromMilliseconds (sint delta_ms)) else Some (Bandwidth_Infinite lib))"

definition update_average :: "('b, 'f, 'r) bbr_lib \<Rightarrow> ('b, 'f, 'r) bbr \<Rightarrow> ('b, 'f, 'r) bbr option" where
  "update_average lib s =
     (let total = length (acked_clusters s) in
      if total \<ge> kAverageAckRateWindowSize
      then do {
        t \<leftarrow> sum_clusters (acked_clusters s) s
               \<lparr>total_sent_bytes = 0, total_acked_bytes = 0, acc_sent_delta = 0, acc_ack_delta = 0, last_cluster_id = 0\<rparr>;
        sent_rate \<leftarrow> rate_of lib (total_sent_bytes t) (acc_sent_delta t);
        acked_rate \<leftarrow> rate_of lib (total_acked_bytes t) (acc_ack_delta t);
        let average_rate = bw_min lib sent_rate acked_rate;
        let average = average_round s + last_cluster_id t mod of_nat kAverageAckRateWindowSize;
        let average_rate = (if average_rate = Bandwidth_Infinite lib then FromBitsPerSecond lib (min_bps s) else average_rate);
        drop_stale (total - (kAverageAckRateWindowSize - 1))
          (s\<lparr>average_round := average, avergae_bandwidth := filter_Update lib average_rate average (avergae_bandwidth s)\<rparr>)
      }
      else Some s)"

definition ack_cluster :: "('b, 'f, 'r) bbr_lib \<Rightarrow> QuicTime \<Rightarrow> u64 \<Rightarrow> ('b, 'f, 'r) bbr \<Rightarrow> ('b, 'f, 'r) bbr option" where
  "ack_cluster lib event_time packet_number s =
     (case map_of (seq_round_map s) packet_number of
        None \<Rightarrow> Some s
      | Some r \<Rightarrow>
          let s = s\<lparr>seq_round_map := map_erase packet_number (seq_round_map s)\<rparr>
          in case map_of (connection_info s) r of None \<Rightarrow> Some s | Some a \<Rightarrow> cluster_OnAck lib a packet_number event_time s)"

definition OnAck :: "('b, 'f, 'r) bbr_lib \<Rightarrow> QuicTime \<Rightarrow> u64 \<Rightarrow> ('b, 'f, 'r) bbr \<Rightarrow> ('b, 'f, 'r) bbr option" where
  "OnAck lib event_time packet_number s =
     (if packet_number \<le> last_ack_seq s then Some s
      else do {
        s \<leftarrow> UpdateRtt event_time packet_number (s\<lparr>last_ack_seq := packet_number\<rparr>);
        s \<leftarrow> (if mode s = START_UP then EnterProbeBandwidthMode lib event_time s else Some s);
        expiry \<leftarrow> time_plus (min_rtt_timestamp s) kMinRttExpiry;
        s \<leftarrow> MaybeEnterOrExitProbeRtt lib event_time (event_time > expiry) s;
        s \<leftarrow> ack_cluster lib event_time packet_number (CalculatePacingRate lib s);
        update_average lib s
      })"

section \<open>Pacing\<close>

record pacing =
  ideal_next_packet_send_time :: QuicTime
  alarm_granularity :: Delta

definition MyPacingSender :: pacing where
  "MyPacingSender = \<lparr>ideal_next_packet_send_time = Time_Zero, alarm_granularity = Delta 1000\<rparr>"

text \<open>The sender that \<open>set_sender\<close> installed, if any, is passed along.\<close>

definition Pacing_OnPacketSent ::
  "('b, 'f, 'r) bbr_lib \<Rightarrow> QuicTime \<Rightarrow> u64 \<Rightarrow> u64 \<Rightarrow> pacing \<times> ('b, 'f, 'r) bbr option \<Rightarrow> (pacing \<times> ('b, 'f, 'r) bbr option) option" where
  "Pacing_OnPacketSent lib now packet_number bytes = (\<lambda>(p, sender).
     case sender of
       None \<Rightarrow> Some (p, None)
     | Some s \<Rightarrow> do {
         s \<leftarrow> OnPacketSent lib now packet_number bytes s;
         let delay = TransferTime lib (PaceRate s) bytes;
         t1 \<leftarrow> time_plus (ideal_next_packet_send_time p) delay;
         t2 \<leftarrow> time_plus now delay;
         Some (p\<lparr>ideal_next_packet_send_time := max t1 t2\<rparr>, Some s)
       })"

definition OnCongestionEvent ::
  "('b, 'f, 'r) bbr_lib \<Rightarrow> QuicTime \<Rightarrow> u64 \<Rightarrow> pacing \<times> ('b, 'f, 'r) bbr option \<Rightarrow> (pacing \<times> ('b, 'f, 'r) bbr option) option" where
  "OnCongestionEvent lib now packet_number = (\<lambda>(p, sender).
     case sender of None \<Rightarrow> Some (p, None) | Some s \<Rightarrow> map_option (\<lambda>s. (p, Some s)) (OnAck lib now packet_number s))"

definition TimeUntilSend :: "QuicTime \<Rightarrow> pacing \<Rightarrow> Delta option" where
  "TimeUntilSend now p = do {
     t \<leftarrow> time_plus now (alarm_granularity p);
     (if ideal_next_packet_send_time p > t then time_diff (ideal_next_packet_send_time p) now else Some Delta_Zero)
   }"

end
