(* ===== verification/Bbr_Proofs.thy ===== *)
theory Bbr_Proofs
  imports Bbr_Sender
begin

text \<open>
  Memory safety of the BBR sender: however packets are sent and acknowledged, no pointer to a deleted
  cluster is followed, no index leaves an array and no time overflows. The invariant describes the heap as a
  chain of clusters in the order of their rounds, linked in both directions, with all sampled clusters in it.
\<close>

section \<open>The chain of clusters\<close>

type_synonym 'b cluster_heap = "nat \<Rightarrow> 'b SentClusterInfo option"

definition head_seq :: "'b SentClusterInfo \<Rightarrow> u64" where
  "head_seq c = pkt_seq (hd (packet_infos c))"

definition time_ok :: "QuicTime \<Rightarrow> bool" where
  "time_ok t \<longleftrightarrow> 0 \<le> time_us t \<and> time_us t < 2 ^ 58"

definition cluster_ok :: "'b SentClusterInfo \<Rightarrow> bool" where
  "cluster_ok c \<longleftrightarrow> packet_infos c \<noteq> [] \<and> time_ok (first_send_ts c) \<and> time_ok (last_send_ts c) \<and> time_ok (first_ack_ts c) \<and> time_ok (last_ack_ts c)"

definition head_address :: "(u64 \<times> nat) list \<Rightarrow> nat option" where
  "head_address m = (case m of [] \<Rightarrow> None | (_, a) # _ \<Rightarrow> Some a)"

fun chain :: "'b cluster_heap \<Rightarrow> nat option \<Rightarrow> (u64 \<times> nat) list \<Rightarrow> bool" where
  "chain h p [] \<longleftrightarrow> True"
| "chain h p ((cid, a) # m) \<longleftrightarrow>
     (\<exists>c. h a = Some c \<and> cluster_id c = cid \<and> prev_cluster c = p \<and> next_cluster c = head_address m \<and> cluster_ok c) \<and> chain h (Some a) m"

lemma chain_other: "a \<notin> snd ` set m \<Longrightarrow> chain (h(a := x)) p m = chain h p m"
  by (induction m arbitrary: p) auto

lemma chain_lookup:
  assumes "chain h p m" and "(cid, a) \<in> set m"
  shows "\<exists>c. h a = Some c \<and> cluster_id c = cid \<and> cluster_ok c"
  using assms by (induction m arbitrary: p) auto

text \<open>A change of a cluster that keeps its id and links.\<close>

lemma chain_change:
  assumes "chain h p m" and "h a = Some c" and "cluster_id c' = cluster_id c" and "prev_cluster c' = prev_cluster c"
    and "next_cluster c' = next_cluster c" and "cluster_ok c'"
  shows "chain (h(a := Some c')) p m"
  using assms by (induction m arbitrary: p) auto

lemma chain_append:
  "chain h p (m @ [(cid, a)]) \<longleftrightarrow>
     (case rev m of
        [] \<Rightarrow> chain h p [(cid, a)]
      | (cid', b) # m' \<Rightarrow> chain h p (rev m' @ [(cid', b), (cid, a)]))"
  by (auto split: list.splits simp flip: rev_eq_Cons_iff)

text \<open>Neighbours in the chain.\<close>

lemma chain_split:
  "chain h p (m @ m') \<Longrightarrow> chain h (if m = [] then p else Some (snd (last m))) m'"
  by (induction m arbitrary: p) (auto split: if_splits)

lemma chain_next:
  assumes "chain h p (m @ (cid, a) # m')"
  shows "\<exists>c. h a = Some c \<and> next_cluster c = head_address m' \<and> prev_cluster c = (if m = [] then p else Some (snd (last m)))"
  using chain_split [OF assms] by auto

section \<open>Removing clusters\<close>

text \<open>What stays of a cluster when links of its neighbours are cut.\<close>

definition same_but_prev :: "'b cluster_heap \<Rightarrow> 'b cluster_heap \<Rightarrow> nat \<Rightarrow> bool" where
  "same_but_prev h h' a \<longleftrightarrow> (\<exists>c p. h a = Some c \<and> h' a = Some (c\<lparr>prev_cluster := p\<rparr>))"

lemma chain_cut:
  assumes "chain h p ((cid, a) # m)" and "h a = Some c"
  shows "chain (h(a := Some (c\<lparr>prev_cluster := p'\<rparr>))) p' ((cid, a) # m) \<or> a \<in> snd ` set m"
  using assms by (auto simp: chain_other cluster_ok_def)

lemma remove_le_removes:
  assumes "chain (clusters s) None m" and "distinct (map snd m)" and "ascending m"
  shows "\<exists>h. remove_le r m s = Some (s\<lparr>connection_info := dropWhile (\<lambda>(cid, _). cid \<le> r) m, clusters := h\<rparr>) \<and>
     chain h None (dropWhile (\<lambda>(cid, _). cid \<le> r) m) \<and>
     (\<forall>a \<in> snd ` set (dropWhile (\<lambda>(cid, _). cid \<le> r) m). same_but_prev (clusters s) h a) \<and>
     (\<forall>a. h a \<noteq> None \<longrightarrow> clusters s a \<noteq> None \<and> a \<notin> snd ` set (takeWhile (\<lambda>(cid, _). cid \<le> r) m))"
  using assms
proof (induction m arbitrary: s)
  case Nil
  show ?case by (rule exI [of _ "clusters s"]) simp
next
  case (Cons x m)
  obtain cid a where x: "x = (cid, a)" by force
  show ?case
  proof (cases "cid \<le> r")
    case False
    have "same_but_prev (clusters s) (clusters s) b" if b: "b \<in> snd ` set ((cid, a) # m)" for b
    proof -
      from b obtain i where "(i, b) \<in> set ((cid, a) # m)" by force
      from chain_lookup [OF Cons.prems(1) [unfolded x] this] obtain c where "clusters s b = Some c" by blast
      then show ?thesis by (auto simp: same_but_prev_def intro!: exI [of _ "prev_cluster c"])
    qed
    moreover have "dropWhile (\<lambda>(cid, _). cid \<le> r) (x # m) = x # m" using False by (simp add: x)
    ultimately show ?thesis using False Cons.prems(1) by (intro exI [of _ "clusters s"]) (simp add: x)
  next
    case True
    from Cons.prems(1) obtain c where c: "clusters s a = Some c" "next_cluster c = head_address m" and m: "chain (clusters s) (Some a) m"
      by (auto simp: x)
    obtain s1 where s1: "(case next_cluster c of None \<Rightarrow> Some s | Some n \<Rightarrow> SetPrev n None s) = Some s1"
      "s1 = s\<lparr>clusters := clusters s1\<rparr>" "chain (clusters s1) None m" "clusters s1 a = Some c"
      "\<And>b. b \<in> snd ` set m \<Longrightarrow> same_but_prev (clusters s) (clusters s1) b" "\<And>b. clusters s1 b \<noteq> None \<Longrightarrow> clusters s b \<noteq> None"
    proof (cases m)
      case Nil
      then show ?thesis using that [of s] c by (simp add: head_address_def)
    next
      case (Cons y m')
      obtain i b where y: "y = (i, b)" by force
      with m Cons obtain d where d: "clusters s b = Some d" by auto
      have b: "b \<notin> snd ` set m'" "b \<noteq> a" using Cons.prems(2) Cons y x by auto
      have "same_but_prev (clusters s) ((clusters s)(b := Some (d\<lparr>prev_cluster := None\<rparr>))) e" if e: "e \<in> snd ` set m" for e
      proof (cases "e = b")
        case True
        then show ?thesis using d by (auto simp: same_but_prev_def)
      next
        case False
        from e obtain j where "(j, e) \<in> set m" by force
        from chain_lookup [OF m this] obtain f where "clusters s e = Some f" by blast
        with False show ?thesis by (auto simp: same_but_prev_def intro!: exI [of _ "prev_cluster f"])
      qed
      moreover have "chain ((clusters s)(b := Some (d\<lparr>prev_cluster := None\<rparr>))) None m"
        using chain_cut [OF m [unfolded Cons y] d, of None] b by (simp add: Cons y)
      moreover have "next_cluster c = Some b" using c by (simp add: Cons y head_address_def)
      ultimately show ?thesis
        using d c b
        by (intro that [of "set_cluster b (d\<lparr>prev_cluster := None\<rparr>) s"]) (auto simp: SetPrev_def set_cluster_def split: if_splits)
    qed
    have am: "a \<notin> snd ` set m" using Cons.prems(2) by (auto simp: x)
    let ?s2 = "s1\<lparr>clusters := (clusters s1)(a := None)\<rparr>"
    have "chain (clusters ?s2) None m" using s1(3) am by (simp add: chain_other)
    moreover have "distinct (map snd m)" "ascending m" using Cons.prems(2,3) by (auto simp: x)
    ultimately obtain h where
      h: "remove_le r m ?s2 = Some (?s2\<lparr>connection_info := dropWhile (\<lambda>(cid, _). cid \<le> r) m, clusters := h\<rparr>)"
        "chain h None (dropWhile (\<lambda>(cid, _). cid \<le> r) m)"
        "\<forall>a \<in> snd ` set (dropWhile (\<lambda>(cid, _). cid \<le> r) m). same_but_prev (clusters ?s2) h a"
        "\<forall>a. h a \<noteq> None \<longrightarrow> clusters ?s2 a \<noteq> None \<and> a \<notin> snd ` set (takeWhile (\<lambda>(cid, _). cid \<le> r) m)"
      using Cons.IH by blast
    have eq: "?s2\<lparr>connection_info := dropWhile (\<lambda>(cid, _). cid \<le> r) m, clusters := h\<rparr> =
        s\<lparr>connection_info := dropWhile (\<lambda>(cid, _). cid \<le> r) m, clusters := h\<rparr>"
      by (subst s1(2)) simp
    have "remove_le r (x # m) s = Some (s\<lparr>connection_info := dropWhile (\<lambda>(cid, _). cid \<le> r) m, clusters := h\<rparr>)"
      using True c(1) s1(1,4) h(1) eq by (simp add: x delete_cluster_def)
    moreover have "same_but_prev (clusters s) h b" if b: "b \<in> snd ` set (dropWhile (\<lambda>(cid, _). cid \<le> r) m)" for b
    proof -
      have bm: "b \<in> snd ` set m" using b set_dropWhileD by fastforce
      with am have "b \<noteq> a" by auto
      moreover have "same_but_prev (clusters ?s2) h b" using h(3) b by blast
      ultimately have "same_but_prev (clusters s1) h b" by (simp add: same_but_prev_def)
      with s1(5) [OF bm] show ?thesis by (auto simp: same_but_prev_def)
    qed
    moreover have "clusters s b \<noteq> None \<and> b \<notin> snd ` set (takeWhile (\<lambda>(cid, _). cid \<le> r) (x # m))" if "h b \<noteq> None" for b
    proof -
      from h(4) that have b: "clusters ?s2 b \<noteq> None" "b \<notin> snd ` set (takeWhile (\<lambda>(cid, _). cid \<le> r) m)" by blast+
      then have "clusters s1 b \<noteq> None" "b \<noteq> a" by (simp_all split: if_splits)
      with s1(6) b(2) True show ?thesis by (auto simp: x)
    qed
    ultimately show ?thesis using True h(2) by (auto simp: x)
  qed
qed

section \<open>The invariant of the heap\<close>

text \<open>
  \<open>linked\<close>: the map lists the clusters of the chain, all that is allocated is in the map and below the next address, no round is
  beyond the current one. \<open>heads\<close>: every cluster starts with a packet that was sent, and one that was acknowledged
  starts at or below the last acknowledged packet. \<open>entries\<close>: a packet's round is that of the cluster that
  holds it, and all later clusters start with later packets. \<open>sampled\<close>: the clusters with a sample are in
  the map, in order, and the next cluster of each was acknowledged.
\<close>

definition linked :: "'b cluster_heap \<Rightarrow> (u64 \<times> nat) list \<Rightarrow> nat \<Rightarrow> u64 \<Rightarrow> bool" where
  "linked h conn fresh rnd \<longleftrightarrow> ascending conn \<and> distinct (map snd conn) \<and> chain h None conn \<and> (\<forall>a. h a \<noteq> None \<longrightarrow> a < fresh \<and> a \<in> snd ` set conn) \<and>
     (\<forall>k \<in> fst ` set conn. k \<le> rnd)"

definition heads :: "'b cluster_heap \<Rightarrow> (u64 \<times> nat) list \<Rightarrow> nat \<Rightarrow> u64 \<Rightarrow> bool" where
  "heads h conn bnd ackd \<longleftrightarrow>
     (\<forall>a \<in> snd ` set conn. \<forall>c. h a = Some c \<longrightarrow> unat (head_seq c) < bnd \<and> (first_ack_ts c \<noteq> Time_Zero \<longrightarrow> head_seq c \<le> ackd))"

definition entries :: "'b cluster_heap \<Rightarrow> (u64 \<times> nat) list \<Rightarrow> (u64 \<times> u64) list \<Rightarrow> u64 \<Rightarrow> nat \<Rightarrow> bool" where
  "entries h conn rounds rnd bnd \<longleftrightarrow> ascending rounds \<and>
     (\<forall>n r. (n, r) \<in> set rounds \<longrightarrow> unat n < bnd \<and> r \<le> rnd \<and> (r = rnd \<longrightarrow> r \<in> fst ` set conn) \<and>
        (\<forall>k a c. (k, a) \<in> set conn \<and> h a = Some c \<longrightarrow> (r = k \<longrightarrow> head_seq c \<le> n) \<and> (r < k \<longrightarrow> n < head_seq c)))"

definition key :: "'b cluster_heap \<Rightarrow> nat \<Rightarrow> u64" where
  "key h a = cluster_id (the (h a))"

definition sampled :: "'b cluster_heap \<Rightarrow> (u64 \<times> nat) list \<Rightarrow> nat list \<Rightarrow> bool" where
  "sampled h conn acked \<longleftrightarrow>
     (\<forall>a \<in> set acked. a \<in> snd ` set conn \<and> (\<exists>c b d. h a = Some c \<and> next_cluster c = Some b \<and> h b = Some d \<and> first_ack_ts d \<noteq> Time_Zero)) \<and>
     sorted_wrt (\<lambda>a b. key h a < key h b) acked"

definition core :: "'b cluster_heap \<Rightarrow> (u64 \<times> nat) list \<Rightarrow> nat \<Rightarrow> u64 \<Rightarrow> (u64 \<times> u64) list \<Rightarrow> nat list \<Rightarrow> nat \<Rightarrow> u64 \<Rightarrow> bool" where
  "core h conn fresh rnd rounds acked bnd ackd \<longleftrightarrow>
     linked h conn fresh rnd \<and> heads h conn bnd ackd \<and> entries h conn rounds rnd bnd \<and> sampled h conn acked"

lemma core_lookup:
  assumes "core h conn fresh rnd rounds acked bnd ackd" and "(k, a) \<in> set conn"
  shows "\<exists>c. h a = Some c \<and> cluster_id c = k \<and> cluster_ok c" "a < fresh"
proof -
  from assms chain_lookup show "\<exists>c. h a = Some c \<and> cluster_id c = k \<and> cluster_ok c" by (fastforce simp: core_def linked_def)
  with assms(1) show "a < fresh" by (force simp: core_def linked_def)
qed

text \<open>A cluster may change as long as its id, its links and its first packet stay.\<close>

lemma core_change:
  assumes core: "core h conn fresh rnd rounds acked bnd ackd" and c: "h a = Some c"
    and same: "cluster_id c' = cluster_id c" "prev_cluster c' = prev_cluster c" "next_cluster c' = next_cluster c" "head_seq c' = head_seq c"
    and ok: "cluster_ok c'" and ack: "first_ack_ts c' \<noteq> Time_Zero \<Longrightarrow> head_seq c' \<le> ackd"
    and keeps: "first_ack_ts c \<noteq> Time_Zero \<Longrightarrow> first_ack_ts c' \<noteq> Time_Zero"
  shows "core (h(a := Some c')) conn fresh rnd rounds acked bnd ackd"
proof -
  from core have l: "linked h conn fresh rnd" and h: "heads h conn bnd ackd" and e: "entries h conn rounds rnd bnd" and s: "sampled h conn acked"
    by (simp_all add: core_def)
  have "linked (h(a := Some c')) conn fresh rnd"
    using l chain_change [where h = h and c = c and c' = c' and p = None and m = conn] c same(1-3) ok by (auto simp: linked_def)
  moreover have "heads (h(a := Some c')) conn bnd ackd" using h c same(4) ack by (auto simp: heads_def)
  moreover have "entries (h(a := Some c')) conn rounds rnd bnd" using e c same(4) by (fastforce simp: entries_def)
  moreover have "sampled (h(a := Some c')) conn acked"
  proof -
    have "key (h(a := Some c')) = key h" using c same(1) by (auto simp: key_def)
    moreover have "\<exists>f b d. (h(a := Some c')) x = Some f \<and> next_cluster f = Some b \<and> (h(a := Some c')) b = Some d \<and> first_ack_ts d \<noteq> Time_Zero"
      if "h x = Some f" "next_cluster f = Some b" "h b = Some d" "first_ack_ts d \<noteq> Time_Zero" for x f b d
      using that c same(3) keeps by (cases "x = a"; cases "b = a") auto
    ultimately show ?thesis using s unfolding sampled_def by metis
  qed
  ultimately show ?thesis by (simp add: core_def)
qed

text \<open>No cluster, no entry.\<close>

lemma core_empty: "core (\<lambda>_. None) [] fresh rnd [] [] bnd ackd"
  by (simp add: core_def linked_def heads_def entries_def sampled_def)

text \<open>Later packets, later rounds, later acknowledgements.\<close>

lemma core_mono:
  assumes "core h conn fresh rnd rounds acked bnd ackd" and "bnd \<le> bnd'" and "ackd \<le> ackd'" and "rnd' = rnd \<or> rnd < rnd'"
  shows "core h conn fresh rnd' rounds acked bnd' ackd'"
  using assms by (auto 4 4 simp: core_def linked_def heads_def entries_def)

abbreviation core_of :: "('b, 'f, 'r) bbr \<Rightarrow> nat \<Rightarrow> u64 \<Rightarrow> bool" where
  "core_of s \<equiv> core (clusters s) (connection_info s) (next_address s) (round_trip_count s) (seq_round_map s) (acked_clusters s)"

section \<open>Acknowledging a packet of a cluster\<close>

lemma time_diff_ok: "time_ok t \<Longrightarrow> time_ok u \<Longrightarrow> time_diff t u = Some (Delta (time_us t - time_us u))"
  by (simp add: time_diff_def time_ok_def i64_in)

lemma Trigger_defined:
  assumes c: "clusters s p = Some c" and ok: "cluster_ok c"
  shows "\<exists>b f as. TriggerBandwidthEstimate lib p s =
     Some (s\<lparr>clusters := (clusters s)(p := Some (c\<lparr>cluster_bw := b\<rparr>)), acked_clusters := as, max_bandwidth := f\<rparr>) \<and>
     (as = acked_clusters s \<or> as = acked_clusters s @ [p])"
proof (cases "acked_packets c = 0 \<or> last_ack_ts c = first_ack_ts c")
  case True
  have "(clusters s)(p := Some (c\<lparr>cluster_bw := cluster_bw c\<rparr>)) = clusters s" using c by (intro fun_upd_idem) simp
  then have "TriggerBandwidthEstimate lib p s =
     Some (s\<lparr>clusters := (clusters s)(p := Some (c\<lparr>cluster_bw := cluster_bw c\<rparr>)), acked_clusters := acked_clusters s, max_bandwidth := max_bandwidth s\<rparr>)"
    using True c by (simp add: TriggerBandwidthEstimate_def)
  then show ?thesis by blast
next
  case False
  from ok have t: "time_diff (last_send_ts c) (first_send_ts c) \<noteq> None" "time_diff (last_ack_ts c) (first_ack_ts c) \<noteq> None"
    by (simp_all add: cluster_ok_def time_diff_ok)
  then obtain send_rate ack_rate where r:
    "(if last_send_ts c > first_send_ts c then map_option (FromBytesAndTimeDelta lib (sent_packets c)) (time_diff (last_send_ts c) (first_send_ts c))
      else Some (Bandwidth_Infinite lib)) = Some send_rate"
    "map_option (FromBytesAndTimeDelta lib (acked_packets c)) (time_diff (last_ack_ts c) (first_ack_ts c)) = Some ack_rate"
    by (cases "last_send_ts c > first_send_ts c") auto
  let ?b = "bw_min lib send_rate ack_rate"
  let ?as = "if bw_less lib (Bandwidth_Zero lib) ?b then acked_clusters s @ [p] else acked_clusters s"
    and ?f = "if bw_less lib (Bandwidth_Zero lib) ?b then filter_Update lib ?b (cluster_id c) (max_bandwidth s) else max_bandwidth s"
  have "TriggerBandwidthEstimate lib p s =
     Some (s\<lparr>clusters := (clusters s)(p := Some (c\<lparr>cluster_bw := ?b\<rparr>)), acked_clusters := ?as, max_bandwidth := ?f\<rparr>)"
    unfolding TriggerBandwidthEstimate_def c bind.bind_lunit r using False
    by (simp add: OnEstimateBandwidth_def set_cluster_def Let_def)
  moreover have "?as = acked_clusters s \<or> ?as = acked_clusters s @ [p]" by simp
  ultimately show ?thesis by (intro exI conjI)
qed

lemma head_of_update: "xs \<noteq> [] \<Longrightarrow> pkt_seq (hd (xs[i := (xs ! i)\<lparr>pkt_ack_ts := t\<rparr>])) = pkt_seq (hd xs)"
  by (cases xs; cases i) auto

text \<open>The cluster before one that is acknowledged for the first time comes after all that were sampled.\<close>

lemma sampled_before:
  assumes core: "core h conn fresh rnd rounds acked bnd ackd" and conn: "conn = m @ [(kp, p), (k, a)] @ m'"
    and c: "h a = Some c" "first_ack_ts c = Time_Zero" and n: "(n, k) \<in> set rounds" "ackd < n" and x: "x \<in> set acked"
  shows "key h x < kp"
proof (rule ccontr)
  assume not: "\<not> key h x < kp"
  from core have l: "linked h conn fresh rnd" and hd: "heads h conn bnd ackd" and e: "entries h conn rounds rnd bnd" and s: "sampled h conn acked"
    by (simp_all add: core_def)
  from s x obtain f b d where f: "x \<in> snd ` set conn" "h x = Some f" "next_cluster f = Some b" "h b = Some d" "first_ack_ts d \<noteq> Time_Zero"
    by (auto simp: sampled_def)
  then obtain kx where kx: "(kx, x) \<in> set conn" by force
  with core_lookup(1) [OF core] f(2) have "key h x = kx" by (fastforce simp: key_def)
  with not have "kp \<le> kx" by simp
  with kx l have "(kx, x) \<in> set ((kp, p) # (k, a) # m')"
    by (force simp: conn linked_def ascending_append)
  then consider "x = p" | "(kx, x) \<in> set ((k, a) # m')" by auto
  then show False
  proof cases
    case 1
    with l chain_next [of h None m kp p "(k, a) # m'"] have "next_cluster f = Some a" using f(2) by (simp add: linked_def conn head_address_def)
    with f c show False by simp
  next
    case 2
    then obtain m1 m2 where m: "(k, a) # m' = m1 @ (kx, x) # m2" by (metis split_list)
    with l chain_next [of h None "m @ [(kp, p)] @ m1" kx x m2] f(2,3) have "head_address m2 = Some b" by (simp add: linked_def conn)
    then obtain kb where kb: "(kb, b) \<in> set m2" by (auto simp: head_address_def split: list.splits)
    then have "(kb, b) \<in> set m'" using m by (cases m1) auto
    then have b: "(kb, b) \<in> set conn" "k < kb" using l by (auto simp: conn linked_def ascending_append)
    with e n f(4) have "n < head_seq d" by (auto simp: entries_def)
    moreover have "head_seq d \<le> ackd" using hd b f(4,5) by (force simp: heads_def)
    ultimately show False using n(2) by simp
  qed
qed

lemma core_sampled_append:
  assumes core: "core h conn fresh rnd rounds acked bnd ackd" and conn: "conn = m @ [(kp, p), (k, a)] @ m'"
    and c: "h a = Some c" "first_ack_ts c \<noteq> Time_Zero" and before: "\<And>x. x \<in> set acked \<Longrightarrow> key h x < kp"
  shows "core h conn fresh rnd rounds (acked @ [p]) bnd ackd"
proof -
  from core have l: "linked h conn fresh rnd" and s: "sampled h conn acked" by (simp_all add: core_def)
  from l chain_next [of h None m kp p "(k, a) # m'"] obtain f where f: "h p = Some f" "next_cluster f = Some a"
    by (auto simp: linked_def conn head_address_def)
  have "key h p = kp" using core_lookup(1) [OF core, of kp p] f by (auto simp: conn key_def)
  with s f c before have "sampled h conn (acked @ [p])" by (auto simp: sampled_def sorted_wrt_append conn)
  with core show ?thesis by (simp add: core_def)
qed

lemma first_ack_core:
  assumes core: "core (clusters s) conn fresh rnd rounds (acked_clusters s) bnd l" and n: "l < n" "(n, k) \<in> set rounds"
    and a: "(k, a) \<in> set conn" and c: "clusters s a = Some c" "first_ack_ts c = Time_Zero" and now: "time_ok now" "now \<noteq> Time_Zero"
  defines "s1 \<equiv> set_cluster a (c\<lparr>first_ack_ts := now\<rparr>) s"
  shows "\<exists>h as f. (case prev_cluster c of None \<Rightarrow> Some s1 | Some p \<Rightarrow> TriggerBandwidthEstimate lib p s1) =
       Some (s\<lparr>clusters := h, acked_clusters := as, max_bandwidth := f\<rparr>) \<and>
     core h conn fresh rnd rounds as bnd n \<and> length as \<le> Suc (length (acked_clusters s)) \<and>
     (\<exists>c1. h a = Some c1 \<and> first_ack_ts c1 \<noteq> Time_Zero)"
proof -
  let ?c = "c\<lparr>first_ack_ts := now\<rparr>" and ?h = "(clusters s)(a := Some (c\<lparr>first_ack_ts := now\<rparr>))"
  have cok: "cluster_ok c" using core_lookup(1) [OF core a] c by auto
  have "head_seq c \<le> n" using core n(2) a c(1) by (auto simp: core_def entries_def)
  then have core1: "core ?h conn fresh rnd rounds (acked_clusters s) bnd n"
    using cok now n(1) core_mono [OF core, of bnd n rnd]
    by (intro core_change [where c = c]) (auto simp: c cluster_ok_def head_seq_def)
  have s1: "s1 = s\<lparr>clusters := ?h, acked_clusters := acked_clusters s, max_bandwidth := max_bandwidth s\<rparr>" by (simp add: s1_def set_cluster_def)
  obtain m m' where m: "conn = m @ (k, a) # m'" using a by (metis split_list)
  show ?thesis
  proof (cases "m = []")
    case True
    then have "prev_cluster c = None"
      using core c m by (auto simp: core_def linked_def)
    with s1 core1 now show ?thesis by (intro exI [of _ ?h] exI [of _ "acked_clusters s"] exI [of _ "max_bandwidth s"]) simp
  next
    case False
    then obtain m0 kp p where m0: "m = m0 @ [(kp, p)]" by (metis rev_exhaust prod.collapse)
    with m have conn: "conn = m0 @ [(kp, p), (k, a)] @ m'" by simp
    have "prev_cluster c = Some p"
      using core c chain_next [of "clusters s" None m k a m'] by (auto simp: core_def linked_def m m0)
    moreover obtain f where f: "?h p = Some f" "cluster_ok f" using core_lookup(1) [OF core1, of kp p] conn by auto
    obtain b g as where t: "TriggerBandwidthEstimate lib p s1 =
        Some (s1\<lparr>clusters := ?h(p := Some (f\<lparr>cluster_bw := b\<rparr>)), acked_clusters := as, max_bandwidth := g\<rparr>)"
      "as = acked_clusters s \<or> as = acked_clusters s @ [p]"
      using Trigger_defined [of s1 p f lib] f by (auto simp: s1)
    have pa: "p \<noteq> a" using core by (auto simp: core_def linked_def conn)
    let ?h2 = "?h(p := Some (f\<lparr>cluster_bw := b\<rparr>))"
    have core2: "core ?h2 conn fresh rnd rounds (acked_clusters s) bnd n"
      using f core1 conn by (intro core_change [where c = f and h = ?h]) (auto simp: cluster_ok_def head_seq_def core_def heads_def)
    have "key ?h2 = key (clusters s)" using f c pa by (auto simp: key_def)
    then have "core ?h2 conn fresh rnd rounds (acked_clusters s @ [p]) bnd n"
      using core_sampled_append [OF core2 conn, of ?c] now pa sampled_before [OF core conn c n(2,1)] by auto
    with core2 t(2) have "core ?h2 conn fresh rnd rounds as bnd n" "length as \<le> Suc (length (acked_clusters s))" by auto
    moreover have "?h2 a = Some ?c" using pa by simp
    ultimately show ?thesis using t(1) now by (intro exI [of _ ?h2] exI [of _ as] exI [of _ g]) (simp add: s1)
  qed
qed

lemma cluster_OnAck_core:
  assumes core: "core (clusters s) conn fresh rnd rounds (acked_clusters s) bnd l" and n: "l < n" "(n, k) \<in> set rounds"
    and a: "(k, a) \<in> set conn" and now: "time_ok now" "now \<noteq> Time_Zero"
  shows "\<exists>h as f. cluster_OnAck lib a n now s = Some (s\<lparr>clusters := h, acked_clusters := as, max_bandwidth := f\<rparr>) \<and>
     core h conn fresh rnd rounds as bnd n \<and> length as \<le> Suc (length (acked_clusters s))"
proof -
  from core_lookup(1) [OF core a] obtain c where c: "clusters s a = Some c" "cluster_ok c" by blast
  have "\<exists>h as f c1. (if first_ack_ts c = Time_Zero
       then let s = set_cluster a (c\<lparr>first_ack_ts := now\<rparr>) s
            in case prev_cluster c of None \<Rightarrow> Some s | Some p \<Rightarrow> TriggerBandwidthEstimate lib p s
       else Some s) = Some (s\<lparr>clusters := h, acked_clusters := as, max_bandwidth := f\<rparr>) \<and>
     core h conn fresh rnd rounds as bnd n \<and> length as \<le> Suc (length (acked_clusters s)) \<and> h a = Some c1 \<and> first_ack_ts c1 \<noteq> Time_Zero"
  proof (cases "first_ack_ts c = Time_Zero")
    case True
    with first_ack_core [OF core n a c(1) True now, of lib] show ?thesis by (simp add: Let_def)
  next
    case False
    have "core (clusters s) conn fresh rnd rounds (acked_clusters s) bnd n" using core_mono [OF core, of bnd n rnd] n(1) by simp
    with False c show ?thesis
      by (intro exI [of _ "clusters s"] exI [of _ "acked_clusters s"] exI [of _ "max_bandwidth s"] exI [of _ c]) simp
  qed
  then obtain h as f c1 where 1: "(if first_ack_ts c = Time_Zero
       then let s = set_cluster a (c\<lparr>first_ack_ts := now\<rparr>) s
            in case prev_cluster c of None \<Rightarrow> Some s | Some p \<Rightarrow> TriggerBandwidthEstimate lib p s
       else Some s) = Some (s\<lparr>clusters := h, acked_clusters := as, max_bandwidth := f\<rparr>)"
    "core h conn fresh rnd rounds as bnd n" "length as \<le> Suc (length (acked_clusters s))" "h a = Some c1" "first_ack_ts c1 \<noteq> Time_Zero"
    by blast
  from core_lookup(1) [OF 1(2) a] 1(4) have ok: "cluster_ok c1" by auto
  then obtain x xs where x: "packet_infos c1 = x # xs" by (auto simp: cluster_ok_def neq_Nil_conv)
  have "head_seq c1 \<le> n" using 1(2,4) n(2) a by (auto simp: core_def entries_def)
  have upd: "core (h(a := Some c')) conn fresh rnd rounds as bnd n"
    if "c' = c1\<lparr>last_ack_ts := now\<rparr> \<or>
      (\<exists>i b. c' = c1\<lparr>last_ack_ts := now, packet_infos := (packet_infos c1)[i := (packet_infos c1 ! i)\<lparr>pkt_ack_ts := now\<rparr>], acked_packets := b\<rparr>)" for c'
  proof -
    from that have "cluster_id c' = cluster_id c1" "prev_cluster c' = prev_cluster c1" "next_cluster c' = next_cluster c1" "head_seq c' = head_seq c1"
      "cluster_ok c'" "first_ack_ts c' = first_ack_ts c1"
      using ok now(1) by (auto simp: cluster_ok_def head_seq_def head_of_update)
    with core_change [OF 1(2,4)] \<open>head_seq c1 \<le> n\<close> show ?thesis by auto
  qed
  let ?i = "unat (ucast (n - pkt_seq x) :: u32)"
  let ?c = "if n \<ge> pkt_seq x \<and> ?i < length (packet_infos c1)
    then c1\<lparr>last_ack_ts := now, packet_infos := (packet_infos c1)[?i := (packet_infos c1 ! ?i)\<lparr>pkt_ack_ts := now\<rparr>],
            acked_packets := acked_packets c1 + pkt_len (packet_infos c1 ! ?i)\<rparr>
    else c1\<lparr>last_ack_ts := now\<rparr>"
  have "cluster_OnAck lib a n now s = Some (s\<lparr>clusters := h(a := Some ?c), acked_clusters := as, max_bandwidth := f\<rparr>)"
    unfolding cluster_OnAck_def c(1) bind.bind_lunit 1(1) using 1(4) x by (simp add: set_cluster_def Let_def)
  moreover have "core (h(a := Some ?c)) conn fresh rnd rounds as bnd n" by (rule upd) auto
  ultimately show ?thesis using 1(3) by blast
qed

section \<open>Dropping sampled clusters\<close>

lemma ascending_dropWhile:
  "ascending m \<Longrightarrow> set (dropWhile (\<lambda>(cid, _). cid \<le> r) m) = {x \<in> set m. \<not> fst x \<le> r}"
  by (induction m) (auto, force)

lemma next_in_chain:
  assumes l: "linked h conn fresh rnd" and x: "(kx, x) \<in> set conn" "h x = Some f" "next_cluster f = Some b"
  shows "\<exists>kb. (kb, b) \<in> set conn \<and> kx < kb"
proof -
  obtain m1 m2 where m: "conn = m1 @ (kx, x) # m2" using x(1) by (metis split_list)
  with l chain_next [of h None m1 kx x m2] x(2,3) have "head_address m2 = Some b" by (simp add: linked_def)
  then obtain kb where "(kb, b) \<in> set m2" by (auto simp: head_address_def split: list.splits)
  moreover from this l have "kx < kb" by (auto simp: m linked_def ascending_append)
  ultimately show ?thesis by (intro exI [of _ kb]) (simp add: m)
qed

lemma core_remove:
  assumes core: "core (clusters s) (connection_info s) fresh rnd rounds (a # as) bnd ackd" and c: "clusters s a = Some c"
  shows "\<exists>h m. RemoveClusterLE (cluster_id c) s = Some (s\<lparr>connection_info := m, clusters := h\<rparr>) \<and> core h m fresh rnd rounds as bnd ackd"
proof -
  let ?h = "clusters s" and ?conn = "connection_info s" and ?k = "cluster_id c"
  let ?m = "dropWhile (\<lambda>(cid, _). cid \<le> ?k) ?conn"
  from core have l: "linked ?h ?conn fresh rnd" and hd: "heads ?h ?conn bnd ackd" and e: "entries ?h ?conn rounds rnd bnd"
    and s: "sampled ?h ?conn (a # as)" by (simp_all add: core_def)
  from remove_le_removes [of s ?conn ?k] l obtain h where
    h: "RemoveClusterLE ?k s = Some (s\<lparr>connection_info := ?m, clusters := h\<rparr>)" "chain h None ?m"
      "\<And>b. b \<in> snd ` set ?m \<Longrightarrow> same_but_prev ?h h b" "\<And>b. h b \<noteq> None \<Longrightarrow> ?h b \<noteq> None \<and> b \<notin> snd ` set (takeWhile (\<lambda>(cid, _). cid \<le> ?k) ?conn)"
    by (auto simp: linked_def RemoveClusterLE_def)
  have m: "set ?m = {x \<in> set ?conn. \<not> fst x \<le> ?k}" using l ascending_dropWhile by (auto simp: linked_def)
  have same: "\<exists>d. ?h b = Some d \<and> head_seq f = head_seq d \<and> first_ack_ts f = first_ack_ts d \<and> next_cluster f = next_cluster d \<and>
      cluster_id f = cluster_id d" if "(k, b) \<in> set ?m" "h b = Some f" for k b f
  proof -
    from that(1) have "b \<in> snd ` set ?m" by force
    from h(3) [OF this] that(2) show ?thesis by (auto simp: same_but_prev_def head_seq_def)
  qed
  have "ascending (takeWhile (\<lambda>(cid, _). cid \<le> ?k) ?conn @ ?m)" "distinct (map snd (takeWhile (\<lambda>(cid, _). cid \<le> ?k) ?conn @ ?m))"
    using l unfolding takeWhile_dropWhile_id by (simp_all add: linked_def)
  then have "distinct (map snd ?m)" "ascending ?m" unfolding map_append by (simp_all only: ascending_append distinct_append)
  moreover have "b < fresh \<and> b \<in> snd ` set ?m" if "h b \<noteq> None" for b
  proof -
    have "snd ` set ?conn = snd ` set (takeWhile (\<lambda>(cid, _). cid \<le> ?k) ?conn) \<union> snd ` set ?m"
      by (metis image_Un set_append takeWhile_dropWhile_id)
    moreover have "b < fresh" "b \<in> snd ` set ?conn" using h(4) [OF that] l by (auto simp: linked_def)
    ultimately show ?thesis using h(4) [OF that] by blast
  qed
  ultimately have "linked h ?m fresh rnd" using l h(2) m by (auto simp: linked_def)
  moreover have "heads h ?m bnd ackd"
    unfolding heads_def
  proof (intro ballI allI impI)
    fix b f
    assume "b \<in> snd ` set ?m" and f: "h b = Some f"
    then obtain k where k: "(k, b) \<in> set ?m" by force
    with same [OF k f] m hd show "unat (head_seq f) < bnd \<and> (first_ack_ts f \<noteq> Time_Zero \<longrightarrow> head_seq f \<le> ackd)"
      by (force simp: heads_def)
  qed
  moreover have "entries h ?m rounds rnd bnd"
    unfolding entries_def
  proof (intro conjI allI impI)
    fix n r k b f
    assume r: "(n, r) \<in> set rounds"
    show "unat n < bnd" "r \<le> rnd" using e r by (auto simp: entries_def)
    show "r \<in> fst ` set ?m" if "r = rnd"
    proof -
      from s c obtain b where b: "next_cluster c = Some b" "a \<in> snd ` set ?conn" by (auto simp: sampled_def)
      then obtain ka where ka: "(ka, a) \<in> set ?conn" by force
      with core_lookup(1) [OF core] c have "ka = ?k" by fastforce
      with next_in_chain [OF l ka c b(1)] l that have "?k < r" by (fastforce simp: linked_def)
      moreover have "r \<in> fst ` set ?conn" using e r that by (auto simp: entries_def)
      ultimately show ?thesis by (auto simp: m)
    qed
    assume b: "(k, b) \<in> set ?m \<and> h b = Some f"
    then obtain d where "?h b = Some d" "head_seq f = head_seq d" using same by blast
    moreover have "(k, b) \<in> set ?conn" using b m by blast
    ultimately show "r = k \<Longrightarrow> head_seq f \<le> n" "r < k \<Longrightarrow> n < head_seq f" using e r unfolding entries_def by metis+
  qed (use e in \<open>simp add: entries_def\<close>)
  moreover have "sampled h ?m as"
  proof -
    have later: "\<exists>k f d b. (k, x) \<in> set ?m \<and> h x = Some f \<and> cluster_id f = k \<and> key ?h x = k \<and>
        next_cluster f = Some b \<and> h b = Some d \<and> first_ack_ts d \<noteq> Time_Zero" if x: "x \<in> set as" for x
    proof -
      from s x obtain f b d where f: "x \<in> snd ` set ?conn" "?h x = Some f" "next_cluster f = Some b" "?h b = Some d" "first_ack_ts d \<noteq> Time_Zero"
        by (auto simp: sampled_def)
      from f(1) obtain kx where kx: "(kx, x) \<in> set ?conn" by force
      with core_lookup(1) [OF core] f(2) have "cluster_id f = kx" "key ?h x = kx" by (fastforce simp: key_def)+
      moreover have "?k < key ?h x" using s x c by (auto simp: sampled_def key_def)
      ultimately have xm: "(kx, x) \<in> set ?m" "?k < kx" using kx m by auto
      from next_in_chain [OF l kx f(2,3)] obtain kb where "(kb, b) \<in> set ?conn" "kx < kb" by blast
      with xm(2) m have bm: "(kb, b) \<in> set ?m" by auto
      from h(3) [of x] xm(1) f(2) obtain p where "h x = Some (f\<lparr>prev_cluster := p\<rparr>)" by (force simp: same_but_prev_def)
      moreover from h(3) [of b] bm f(4) obtain q where "h b = Some (d\<lparr>prev_cluster := q\<rparr>)" by (force simp: same_but_prev_def)
      ultimately show ?thesis using xm f(3,5) \<open>cluster_id f = kx\<close> \<open>key ?h x = kx\<close> by auto
    qed
    have eq: "key h x = key ?h x" if "x \<in> set as" for x using later [OF that] by (auto simp: key_def)
    have "sorted_wrt (\<lambda>a b. key h a < key h b) as"
      by (rule sorted_wrt_mono_rel [of _ "\<lambda>a b. key ?h a < key ?h b"]) (use s eq in \<open>auto simp: sampled_def\<close>)
    moreover have "x \<in> snd ` set ?m" "\<exists>c b d. h x = Some c \<and> next_cluster c = Some b \<and> h b = Some d \<and> first_ack_ts d \<noteq> Time_Zero"
      if "x \<in> set as" for x
    proof -
      from later [OF that] obtain k f d b where f: "(k, x) \<in> set ?m" "h x = Some f" "next_cluster f = Some b" "h b = Some d" "first_ack_ts d \<noteq> Time_Zero"
        by blast
      from f(1) show "x \<in> snd ` set ?m" by force
      from f(2-) show "\<exists>c b d. h x = Some c \<and> next_cluster c = Some b \<and> h b = Some d \<and> first_ack_ts d \<noteq> Time_Zero" by blast
    qed
    ultimately show ?thesis unfolding sampled_def by blast
  qed
  ultimately show ?thesis using h(1) unfolding core_def by blast
qed

lemma drop_stale_core:
  assumes "n \<le> length (acked_clusters s)" and "core (clusters s) (connection_info s) fresh rnd rounds (acked_clusters s) bnd ackd"
  shows "\<exists>h m. drop_stale n s = Some (s\<lparr>connection_info := m, clusters := h, acked_clusters := drop n (acked_clusters s)\<rparr>) \<and>
     core h m fresh rnd rounds (drop n (acked_clusters s)) bnd ackd"
  using assms
proof (induction n arbitrary: s)
  case 0
  then show ?case by (intro exI [of _ "clusters s"] exI [of _ "connection_info s"]) simp
next
  case (Suc n)
  then obtain a as where a: "acked_clusters s = a # as" by (cases "acked_clusters s") auto
  with Suc.prems(2) obtain c where c: "clusters s a = Some c" by (auto simp: core_def sampled_def)
  from core_remove [of "s\<lparr>acked_clusters := as\<rparr>" fresh rnd rounds a as bnd ackd c] Suc.prems(2) a c obtain h m where
    1: "RemoveClusterLE (cluster_id c) (s\<lparr>acked_clusters := as\<rparr>) = Some (s\<lparr>acked_clusters := as, connection_info := m, clusters := h\<rparr>)"
    "core h m fresh rnd rounds as bnd ackd" by auto
  from Suc.IH [of "s\<lparr>acked_clusters := as, connection_info := m, clusters := h\<rparr>"] 1(2) Suc.prems(1) a obtain h' m' where
    "drop_stale n (s\<lparr>acked_clusters := as, connection_info := m, clusters := h\<rparr>) =
       Some (s\<lparr>connection_info := m', clusters := h', acked_clusters := drop n as\<rparr>)" "core h' m' fresh rnd rounds (drop n as) bnd ackd"
    by auto
  then show ?case using a c 1(1) by auto
qed

section \<open>The average over the sampled clusters\<close>

lemma ms_bound:
  assumes "time_ok t" and "time_ok u"
  shows "\<exists>x. map_option ToMilliseconds (time_diff t u) = Some x \<and> \<bar>x\<bar> \<le> 2 ^ 49"
proof -
  let ?d = "time_us t - time_us u"
  have "\<bar>?d\<bar> < 2 ^ 58" using assms by (auto simp: time_ok_def)
  then have "\<bar>?d\<bar> div 1000 \<le> 2 ^ 49" by simp
  moreover have "\<bar>?d sdiv 1000\<bar> = \<bar>?d\<bar> div 1000" by (simp add: signed_divide_int_def abs_mult sgn_if)
  ultimately show ?thesis using time_diff_ok [OF assms] by (simp add: ToMilliseconds_def)
qed

lemma sint_add_int:
  fixes w :: u64
  assumes "\<bar>sint w\<bar> \<le> 2 ^ 61" and "\<bar>x\<bar> \<le> 2 ^ 61"
  shows "sint (w + word_of_int x) = sint w + x"
proof -
  have "w + word_of_int x = word_of_int (sint w + x)" by simp
  then have "sint (w + word_of_int x) = sint (word_of_int (sint w + x) :: u64)" by (rule arg_cong)
  also have "\<dots> = signed_take_bit 63 (sint w + x)" by (subst sint_sbintrunc') simp
  also have "\<dots> = sint w + x" using assms by (intro signed_take_bit_int_eq_self) auto
  finally show ?thesis .
qed

lemma sum_clusters_defined:
  assumes "\<And>a. a \<in> set as \<Longrightarrow> \<exists>c. clusters s a = Some c \<and> cluster_ok c" and "length as \<le> n"
    and "\<bar>sint (acc_sent_delta t)\<bar> \<le> (10 - int n) * 2 ^ 49" and "\<bar>sint (acc_ack_delta t)\<bar> \<le> (10 - int n) * 2 ^ 49"
  shows "\<exists>t'. sum_clusters as s t = Some t' \<and> \<bar>sint (acc_sent_delta t')\<bar> \<le> 10 * 2 ^ 49 \<and> \<bar>sint (acc_ack_delta t')\<bar> \<le> 10 * 2 ^ 49"
  using assms
proof (induction as arbitrary: n t)
  case Nil
  then have "(10 - int n) * 2 ^ 49 \<le> 10 * 2 ^ 49" by simp
  with Nil show ?case by auto
next
  case (Cons a as)
  then obtain n' where n: "n = Suc n'" "length as \<le> n'" by (cases n) auto
  from Cons.prems(1) [of a] obtain c where c: "clusters s a = Some c" "cluster_ok c" by auto
  then obtain x y where xy: "map_option ToMilliseconds (time_diff (last_send_ts c) (first_send_ts c)) = Some x" "\<bar>x\<bar> \<le> 2 ^ 49"
    "map_option ToMilliseconds (time_diff (last_ack_ts c) (first_ack_ts c)) = Some y" "\<bar>y\<bar> \<le> 2 ^ 49"
    using ms_bound by (metis cluster_ok_def)
  have info: "GetSentInfo c = Some (word_of_int x, sent_packets c)" "GetAckedInfo c = Some (word_of_int y, acked_packets c)"
    using xy(1,3) by (auto simp: GetSentInfo_def GetAckedInfo_def)
  have "0 \<le> (10 - int n) * 2 ^ 49" using Cons.prems(3) by linarith
  then have small: "(10 - int n) * 2 ^ 49 \<le> 10 * 2 ^ 49" "(10 - int n) * 2 ^ 49 + 2 ^ 49 = (10 - int n') * 2 ^ 49" by (simp_all add: n algebra_simps)
  have add: "sint (w + word_of_int z) = sint w + z" if "\<bar>sint w\<bar> \<le> (10 - int n) * 2 ^ 49" "\<bar>z\<bar> \<le> 2 ^ 49" for w :: u64 and z
    by (rule sint_add_int) (rule order_trans [OF that(1)], use small(1) in simp, rule order_trans [OF that(2)], simp)
  note s = add [OF Cons.prems(3) xy(2)] add [OF Cons.prems(4) xy(4)]
  let ?t1 = "if word_of_int x \<noteq> (0 :: u64)
    then t\<lparr>acc_sent_delta := acc_sent_delta t + word_of_int x, total_sent_bytes := total_sent_bytes t + sent_packets c\<rparr> else t"
  let ?t2 = "if word_of_int y \<noteq> (0 :: u64) then ?t1\<lparr>acc_ack_delta := acc_ack_delta ?t1 + word_of_int y,
    total_acked_bytes := total_acked_bytes ?t1 + acked_packets c, last_cluster_id := cluster_id c\<rparr> else ?t1"
  have "\<bar>sint (acc_sent_delta ?t2)\<bar> \<le> (10 - int n') * 2 ^ 49" "\<bar>sint (acc_ack_delta ?t2)\<bar> \<le> (10 - int n') * 2 ^ 49"
    using s Cons.prems(3,4) small(2) xy(2,4) by auto
  from Cons.IH [OF _ n(2) this] Cons.prems(1) c info show ?case by (simp add: Let_def)
qed

lemma rate_of_defined:
  assumes "\<bar>sint d\<bar> \<le> 10 * 2 ^ 49"
  shows "\<exists>r. rate_of lib b d = Some r"
proof -
  have "i64 (sint d * 1000) = Some (sint d * 1000)" using assms by (intro i64_in) (simp_all add: abs_le_iff)
  then show ?thesis by (simp add: rate_of_def FromMilliseconds_def)
qed

lemma update_average_core:
  assumes core: "core_of s bnd ackd" and len: "length (acked_clusters s) \<le> 10"
  shows "\<exists>h m as r f. update_average lib s =
       Some (s\<lparr>average_round := r, avergae_bandwidth := f, connection_info := m, clusters := h, acked_clusters := as\<rparr>) \<and>
     core h m (next_address s) (round_trip_count s) (seq_round_map s) as bnd ackd \<and> length as \<le> 9"
proof (cases "10 \<le> length (acked_clusters s)")
  case False
  then have "update_average lib s = Some (s\<lparr>average_round := average_round s, avergae_bandwidth := avergae_bandwidth s,
      connection_info := connection_info s, clusters := clusters s, acked_clusters := acked_clusters s\<rparr>)"
    by (simp add: update_average_def Let_def kAverageAckRateWindowSize_def)
  moreover have "length (acked_clusters s) \<le> 9" using False by simp
  ultimately show ?thesis using core by blast
next
  case True
  have live: "\<exists>c. clusters s a = Some c \<and> cluster_ok c" if "a \<in> set (acked_clusters s)" for a
  proof -
    from core that obtain k where "(k, a) \<in> set (connection_info s)" by (force simp: core_def sampled_def)
    from core_lookup(1) [OF core this] show ?thesis by blast
  qed
  obtain t where t: "sum_clusters (acked_clusters s) s
       \<lparr>total_sent_bytes = 0, total_acked_bytes = 0, acc_sent_delta = 0, acc_ack_delta = 0, last_cluster_id = 0\<rparr> = Some t"
    "\<bar>sint (acc_sent_delta t)\<bar> \<le> 10 * 2 ^ 49" "\<bar>sint (acc_ack_delta t)\<bar> \<le> 10 * 2 ^ 49"
    using sum_clusters_defined [OF live len, of "\<lparr>total_sent_bytes = 0, total_acked_bytes = 0, acc_sent_delta = 0, acc_ack_delta = 0, last_cluster_id = 0\<rparr>"]
    by auto
  obtain r1 r2 where r: "rate_of lib (total_sent_bytes t) (acc_sent_delta t) = Some r1" "rate_of lib (total_acked_bytes t) (acc_ack_delta t) = Some r2"
    using rate_of_defined t(2,3) by metis
  let ?avg = "average_round s + last_cluster_id t mod of_nat kAverageAckRateWindowSize" and ?r = "bw_min lib r1 r2"
  let ?rate = "if ?r = Bandwidth_Infinite lib then FromBitsPerSecond lib (min_bps s) else ?r"
  let ?s = "s\<lparr>average_round := ?avg, avergae_bandwidth := filter_Update lib ?rate ?avg (avergae_bandwidth s)\<rparr>"
  have n: "length (acked_clusters s) = 10" using True len by simp
  from drop_stale_core [of 1 ?s "next_address s" "round_trip_count s" "seq_round_map s" bnd ackd] core n obtain h m where
    "drop_stale 1 ?s = Some (?s\<lparr>connection_info := m, clusters := h, acked_clusters := drop 1 (acked_clusters s)\<rparr>)"
    "core h m (next_address s) (round_trip_count s) (seq_round_map s) (drop 1 (acked_clusters s)) bnd ackd" by auto
  moreover have "update_average lib s = drop_stale 1 ?s"
    unfolding update_average_def n Let_def kAverageAckRateWindowSize_def using t(1) r by (simp add: kAverageAckRateWindowSize_def)
  ultimately show ?thesis using n by (intro exI conjI) auto
qed

section \<open>Forgetting all clusters\<close>

lemma delete_all_heap:
  assumes "distinct (map snd m)" and "\<And>a. a \<in> snd ` set m \<Longrightarrow> clusters s a \<noteq> None"
  shows "delete_all m s = Some (s\<lparr>connection_info := [], clusters := \<lambda>a. if a \<in> snd ` set m then None else clusters s a\<rparr>)"
  using assms
proof (induction m arbitrary: s)
  case (Cons x m)
  obtain cid a where x: "x = (cid, a)" by force
  let ?s = "s\<lparr>clusters := (clusters s)(a := None)\<rparr>"
  have "delete_cluster a s = Some ?s" using Cons.prems(2) [of a] by (auto simp: x delete_cluster_def)
  moreover have "delete_all m ?s = Some (?s\<lparr>connection_info := [], clusters := \<lambda>a. if a \<in> snd ` set m then None else clusters ?s a\<rparr>)"
    using Cons.prems by (intro Cons.IH) (auto simp: x)
  moreover have "(\<lambda>b. if b \<in> snd ` set m then None else clusters ?s b) = (\<lambda>b. if b \<in> snd ` set (x # m) then None else clusters s b)"
    by (auto simp: x)
  ultimately show ?case by (simp add: x)
qed simp

lemma delete_all_core:
  assumes "core (clusters s) (connection_info s) fresh rnd rounds acked bnd ackd"
  shows "delete_all (connection_info s) s = Some (s\<lparr>connection_info := [], clusters := \<lambda>_. None\<rparr>)"
proof -
  from assms have l: "linked (clusters s) (connection_info s) fresh rnd" by (simp add: core_def)
  have "clusters s a \<noteq> None" if "a \<in> snd ` set (connection_info s)" for a
    using that core_lookup(1) [OF assms] by fastforce
  with l have "delete_all (connection_info s) s =
      Some (s\<lparr>connection_info := [], clusters := \<lambda>a. if a \<in> snd ` set (connection_info s) then None else clusters s a\<rparr>)"
    by (intro delete_all_heap) (auto simp: linked_def)
  moreover have "(\<lambda>a. if a \<in> snd ` set (connection_info s) then None else clusters s a) = (\<lambda>_. None)"
    using l unfolding linked_def by (intro ext) (metis (no_types, lifting))
  ultimately show ?thesis by simp
qed

lemma ClusterInfoClear_core:
  assumes "core (clusters s) (connection_info s) fresh rnd rounds acked bnd ackd"
  shows "\<exists>f g. ClusterInfoClear lib s = Some (s\<lparr>max_bandwidth := f, avergae_bandwidth := g, seq_round_map := [], acked_clusters := [],
     average_round := 0, connection_info := [], clusters := \<lambda>_. None\<rparr>)"
proof -
  let ?s = "s\<lparr>max_bandwidth := filter_Reset lib (Bandwidth_Zero lib) 0 (max_bandwidth s),
      avergae_bandwidth := filter_Reset lib (Bandwidth_Zero lib) 0 (avergae_bandwidth s), seq_round_map := [], acked_clusters := [], average_round := 0\<rparr>"
  have "delete_all (connection_info ?s) ?s = Some (?s\<lparr>connection_info := [], clusters := \<lambda>_. None\<rparr>)"
    using assms by (intro delete_all_core) simp
  then show ?thesis by (simp add: ClusterInfoClear_def Let_def) blast
qed

section \<open>Sending a packet in a cluster\<close>

lemma chain_extend:
  assumes "chain h p (m @ [(kp, q)])" and "a \<notin> snd ` set (m @ [(kp, q)])" and "distinct (map snd (m @ [(kp, q)]))" and "h q = Some c"
    and "cluster_ok d" and "prev_cluster d = Some q" and "next_cluster d = None" and "cluster_id d = k"
  shows "chain (h(a := Some d, q := Some (c\<lparr>next_cluster := Some a\<rparr>))) p (m @ [(kp, q), (k, a)])"
  using assms(1-3)
proof (induction m arbitrary: p)
  case Nil
  then show ?case using assms(4-) by (auto simp: head_address_def cluster_ok_def)
next
  case (Cons x m)
  obtain i b where x: "x = (i, b)" by force
  have "head_address (m @ [(kp, q)]) = head_address (m @ [(kp, q), (k, a)])" by (cases m) (simp_all add: head_address_def)
  moreover have "b \<noteq> a" "b \<noteq> q" using Cons.prems(2,3) by (auto simp: x)
  ultimately show ?case using Cons by (simp add: x)
qed

lemma core_entry:
  assumes core: "core h conn fresh rnd rounds acked (unat n + 1) ackd" and "rnd \<in> fst ` set conn" and new: "\<And>k. k \<in> fst ` set rounds \<Longrightarrow> k < n"
  shows "core h conn fresh rnd (map_insert n rnd rounds) acked (unat n + 1) ackd"
proof -
  from core have l: "linked h conn fresh rnd" and hd: "heads h conn (unat n + 1) ackd" and e: "entries h conn rounds rnd (unat n + 1)"
    by (simp_all add: core_def)
  have ins: "map_insert n rnd rounds = rounds @ [(n, rnd)]" using new by (intro map_insert_last) auto
  have "ascending (rounds @ [(n, rnd)])" using e new by (auto simp: entries_def ascending_append)
  moreover have "head_seq c \<le> n" if "(k, a) \<in> set conn" "h a = Some c" for k a c
  proof -
    from that(1) have "a \<in> snd ` set conn" by force
    with hd that(2) have "unat (head_seq c) < unat n + 1" by (auto simp: heads_def)
    then show ?thesis by (simp add: word_le_nat_alt)
  qed
  moreover have "\<not> rnd < k" if "(k, a) \<in> set conn" for k a using l that by (force simp: linked_def)
  ultimately have "entries h conn (map_insert n rnd rounds) rnd (unat n + 1)"
    using e assms(2) unfolding entries_def ins by (auto dest: spec)
  with core show ?thesis by (simp add: core_def)
qed

lemma core_new_cluster:
  assumes core: "core h conn fresh rnd rounds acked bnd ackd" and new: "rnd \<notin> fst ` set conn" and n: "bnd \<le> unat n"
    and d: "cluster_ok d" "next_cluster d = None" "cluster_id d = rnd" "first_ack_ts d = Time_Zero" "head_seq d = n"
    and prev: "prev_cluster d = (if conn = [] then None else Some (snd (last conn)))"
    and h': "h' = (if conn = [] then h(fresh := Some d)
      else h(fresh := Some d, snd (last conn) := Some ((the (h (snd (last conn))))\<lparr>next_cluster := Some fresh\<rparr>)))"
  shows "core h' (conn @ [(rnd, fresh)]) (fresh + 1) rnd rounds acked (unat n + 1) ackd"
proof -
  from core have l: "linked h conn fresh rnd" and hd: "heads h conn bnd ackd" and e: "entries h conn rounds rnd bnd" and s: "sampled h conn acked"
    by (simp_all add: core_def)
  have fresh: "fresh \<notin> snd ` set conn" using core_lookup(2) [OF core] by fastforce
  have below: "k < rnd" if "k \<in> fst ` set conn" for k using l new that by (metis linked_def order_le_neq_trans)
  have at: "h' fresh = Some d" using h' fresh by (cases "conn = []") auto
  have old: "\<exists>c'. h' a = Some c' \<and> head_seq c' = head_seq c \<and> first_ack_ts c' = first_ack_ts c \<and> cluster_id c' = cluster_id c \<and>
      (next_cluster c \<noteq> None \<longrightarrow> next_cluster c' = next_cluster c)" if a: "(k, a) \<in> set conn" "h a = Some c" for k a c
  proof (cases "a = snd (last conn)")
    case False
    from a(1) fresh have "a \<noteq> fresh" by force
    with False show ?thesis using a(2) h' by auto
  next
    case True
    have ne: "conn \<noteq> []" using a by auto
    then have "conn = butlast conn @ [last conn]" by simp
    with l True chain_next [of h None "butlast conn" "fst (last conn)" a "[]"] a(2) have "next_cluster c = None"
      by (simp add: linked_def head_address_def)
    then show ?thesis using True a(2) h' ne by (simp add: head_seq_def)
  qed
  have "chain h' None (conn @ [(rnd, fresh)])"
  proof (cases "conn = []")
    case True
    then show ?thesis using h' d prev by (simp add: head_address_def)
  next
    case False
    then obtain m kp q where m: "conn = m @ [(kp, q)]" by (metis rev_exhaust prod.collapse)
    with core_lookup(1) [OF core, of kp q] obtain c where "h q = Some c" by auto
    with chain_extend [of h None m kp q fresh c d rnd] l fresh d prev h' show ?thesis by (simp add: m linked_def)
  qed
  moreover have "a < fresh + 1 \<and> a \<in> snd ` set (conn @ [(rnd, fresh)])" if "h' a \<noteq> None" for a
  proof (cases "a \<in> snd ` set conn")
    case True
    with core_lookup(2) [OF core] show ?thesis by force
  next
    case False
    then have "h' a = (h(fresh := Some d)) a" using h' by (cases "conn = []") auto
    with that False l show ?thesis by (auto simp: linked_def split: if_splits)
  qed
  ultimately have "linked h' (conn @ [(rnd, fresh)]) (fresh + 1) rnd"
    using l below fresh by (auto simp: linked_def ascending_append)
  moreover have "heads h' (conn @ [(rnd, fresh)]) (unat n + 1) ackd"
  proof -
    have "unat (head_seq c') < unat n + 1 \<and> (first_ack_ts c' \<noteq> Time_Zero \<longrightarrow> head_seq c' \<le> ackd)"
      if a: "(k, a) \<in> set conn" "h' a = Some c'" for k a c'
    proof -
      from core_lookup(1) [OF core a(1)] obtain c where c: "h a = Some c" by blast
      from a(1) have "a \<in> snd ` set conn" by force
      with hd c have "unat (head_seq c) < bnd \<and> (first_ack_ts c \<noteq> Time_Zero \<longrightarrow> head_seq c \<le> ackd)" by (auto simp: heads_def)
      with old [OF a(1) c] a(2) n show ?thesis by auto
    qed
    then show ?thesis using at d by (auto simp: heads_def)
  qed
  moreover have "entries h' (conn @ [(rnd, fresh)]) rounds rnd (unat n + 1)"
    unfolding entries_def
  proof (intro conjI allI impI)
    fix n' r k a c'
    assume r: "(n', r) \<in> set rounds"
    have n': "unat n' < bnd" using e r by (auto simp: entries_def)
    with n show "unat n' < unat n + 1" by simp
    show "r \<le> rnd" using e r by (auto simp: entries_def)
    show "r \<in> fst ` set (conn @ [(rnd, fresh)])" if "r = rnd" using that by simp
    have rn: "r \<noteq> rnd" using e r new by (auto simp: entries_def)
    assume a: "(k, a) \<in> set (conn @ [(rnd, fresh)]) \<and> h' a = Some c'"
    have "(r = k \<longrightarrow> head_seq c' \<le> n') \<and> (r < k \<longrightarrow> n' < head_seq c')"
    proof (cases "(k, a) \<in> set conn")
      case True
      from core_lookup(1) [OF core True] obtain c where c: "h a = Some c" by blast
      with old [OF True c] a have "head_seq c' = head_seq c" by auto
      moreover have "(r = k \<longrightarrow> head_seq c \<le> n') \<and> (r < k \<longrightarrow> n' < head_seq c)" using e r True c unfolding entries_def by blast
      ultimately show ?thesis by simp
    next
      case False
      with a at have "k = rnd" "head_seq c' = n" using d by auto
      moreover have "n' < n" using n n' by (simp add: word_less_nat_alt)
      ultimately show ?thesis using rn by auto
    qed
    then show "r = k \<Longrightarrow> head_seq c' \<le> n'" "r < k \<Longrightarrow> n' < head_seq c'" by auto
  qed (use e in \<open>simp add: entries_def\<close>)
  moreover have "sampled h' (conn @ [(rnd, fresh)]) acked"
  proof -
    have x: "x \<in> snd ` set conn \<and> key h' x = key h x \<and>
        (\<exists>c b e. h' x = Some c \<and> next_cluster c = Some b \<and> h' b = Some e \<and> first_ack_ts e \<noteq> Time_Zero)" if "x \<in> set acked" for x
    proof -
      from s that obtain f b g where f: "x \<in> snd ` set conn" "h x = Some f" "next_cluster f = Some b" "h b = Some g" "first_ack_ts g \<noteq> Time_Zero"
        by (auto simp: sampled_def)
      from f(1) obtain kx where kx: "(kx, x) \<in> set conn" by force
      from next_in_chain [OF l kx f(2,3)] obtain kb where kb: "(kb, b) \<in> set conn" by blast
      from old [OF kx f(2)] old [OF kb f(4)] f show ?thesis by (fastforce simp: key_def)
    qed
    moreover have "sorted_wrt (\<lambda>a b. key h' a < key h' b) acked"
      by (rule sorted_wrt_mono_rel [of _ "\<lambda>a b. key h a < key h b"]) (use s x in \<open>auto simp: sampled_def\<close>)
    ultimately show ?thesis by (auto simp: sampled_def)
  qed
  ultimately show ?thesis by (simp add: core_def)
qed

lemma AddPacketInfoSampler_core:
  assumes core: "core_of s bnd ackd" and n: "bnd \<le> unat n" and now: "time_ok now"
  shows "\<exists>h m a rs. AddPacketInfoSampler lib now n bytes s =
       Some (s\<lparr>clusters := h, connection_info := m, next_address := a, seq_round_map := rs\<rparr>) \<and>
     core h m a (round_trip_count s) rs (acked_clusters s) (unat n + 1) ackd"
proof -
  let ?rnd = "round_trip_count s" and ?h = "clusters s" and ?conn = "connection_info s"
  define sent where "sent c = c\<lparr>first_send_ts := (if first_send_ts c = Time_Zero then now else first_send_ts c), last_send_ts := now,
      packet_infos := packet_infos c @ [\<lparr>pkt_seq = n, pkt_sent_ts = now, pkt_ack_ts = Time_Zero, pkt_len = bytes\<rparr>],
      sent_packets := sent_packets c + bytes\<rparr>" for c :: "'a SentClusterInfo"
  have new: "k < n" if "k \<in> fst ` set (seq_round_map s)" for k
    using core n that by (fastforce simp: core_def entries_def word_less_nat_alt)
  have asc: "ascending ?conn" using core by (simp add: core_def linked_def)
  show ?thesis
  proof (cases "map_of ?conn ?rnd")
    case (Some a)
    then have a: "(?rnd, a) \<in> set ?conn" using ascending_find [OF asc] by simp
    from core_lookup(1) [OF core a] obtain c where c: "?h a = Some c" "cluster_ok c" by blast
    have "first_ack_ts c \<noteq> Time_Zero \<Longrightarrow> head_seq c \<le> ackd" using core a c(1) by (force simp: core_def heads_def)
    moreover have "packet_infos c \<noteq> []" using c(2) by (simp add: cluster_ok_def)
    ultimately have "core (?h(a := Some (sent c))) ?conn (next_address s) ?rnd (seq_round_map s) (acked_clusters s) bnd ackd"
      using c now by (intro core_change [OF core c(1)]) (auto simp: sent_def head_seq_def cluster_ok_def)
    then have "core (?h(a := Some (sent c))) ?conn (next_address s) ?rnd (seq_round_map s) (acked_clusters s) (unat n + 1) ackd"
      by (rule core_mono) (use n in auto)
    then have "core (?h(a := Some (sent c))) ?conn (next_address s) ?rnd (map_insert n ?rnd (seq_round_map s)) (acked_clusters s) (unat n + 1) ackd"
      using a new by (intro core_entry) force+
    moreover have "AddPacketInfoSampler lib now n bytes s = Some (s\<lparr>clusters := ?h(a := Some (sent c)), connection_info := ?conn,
        next_address := next_address s, seq_round_map := map_insert n ?rnd (seq_round_map s)\<rparr>)"
      using Some c(1) by (simp add: AddPacketInfoSampler_def cluster_OnPacketSent_def set_cluster_def sent_def)
    ultimately show ?thesis by blast
  next
    case None
    then have no: "?rnd \<notin> fst ` set ?conn" by (simp add: map_of_eq_None_iff)
    let ?a = "next_address s" and ?prev = "if ?conn = [] then None else Some (snd (last ?conn))"
    let ?d = "sent (SentClusterInfo_new lib ?rnd\<lparr>prev_cluster := ?prev\<rparr>)"
    let ?h' = "if ?conn = [] then ?h(?a := Some ?d)
      else ?h(?a := Some ?d, snd (last ?conn) := Some ((the (?h (snd (last ?conn))))\<lparr>next_cluster := Some ?a\<rparr>))"
    have "core ?h' (?conn @ [(?rnd, ?a)]) (?a + 1) ?rnd (seq_round_map s) (acked_clusters s) (unat n + 1) ackd"
      using now by (intro core_new_cluster [OF core no n, where d = ?d])
        (simp_all add: sent_def cluster_ok_def SentClusterInfo_new_def head_seq_def time_ok_def Time_Zero_def)
    then have "core ?h' (?conn @ [(?rnd, ?a)]) (?a + 1) ?rnd (map_insert n ?rnd (seq_round_map s)) (acked_clusters s) (unat n + 1) ackd"
      using new by (intro core_entry) auto
    moreover have "AddPacketInfoSampler lib now n bytes s = Some (s\<lparr>clusters := ?h', connection_info := ?conn @ [(?rnd, ?a)],
        next_address := ?a + 1, seq_round_map := map_insert n ?rnd (seq_round_map s)\<rparr>)"
    proof -
      have ins: "map_insert ?rnd ?a ?conn = ?conn @ [(?rnd, ?a)]"
        using core no by (intro map_insert_last) (metis core_def linked_def order_le_neq_trans)
      show ?thesis
      proof (cases "?conn = []")
        case True
        then show ?thesis
          by (simp add: AddPacketInfoSampler_def new_cluster_def SetPrev_def set_cluster_def cluster_OnPacketSent_def sent_def
              SentClusterInfo_new_def Let_def)
      next
        case False
        then have q: "last ?conn \<in> set ?conn" by simp
        then obtain kq q where kq: "last ?conn = (kq, q)" "(kq, q) \<in> set ?conn" by (metis surj_pair)
        from core_lookup [OF core kq(2)] obtain c where "?h q = Some c" "q \<noteq> ?a" by auto
        with False kq None ins show ?thesis
          by (simp add: AddPacketInfoSampler_def new_cluster_def SetPrev_def SetNext_def set_cluster_def cluster_OnPacketSent_def sent_def
              SentClusterInfo_new_def Let_def fun_upd_twist)
      qed
    qed
    ultimately show ?thesis by blast
  qed
qed

section \<open>Acknowledging a packet\<close>

lemma ack_cluster_core:
  assumes core: "core_of s bnd l" and n: "l < n" and now: "time_ok now" "now \<noteq> Time_Zero"
  shows "\<exists>h as f rs. ack_cluster lib now n s = Some (s\<lparr>clusters := h, acked_clusters := as, max_bandwidth := f, seq_round_map := rs\<rparr>) \<and>
     core h (connection_info s) (next_address s) (round_trip_count s) rs as bnd n \<and> length as \<le> Suc (length (acked_clusters s))"
proof -
  let ?rs = "map_erase n (seq_round_map s)"
  have e: "entries (clusters s) (connection_info s) (seq_round_map s) (round_trip_count s) bnd" and asc: "ascending (connection_info s)"
    using core by (simp_all add: core_def linked_def)
  have erase: "core h m fr r rounds as b a \<Longrightarrow> core h m fr r (map_erase n rounds) as b a" for h :: "'a cluster_heap" and m fr r rounds as b a
    by (auto simp: core_def entries_def map_erase_set map_erase_ascending)
  have mono: "core h m fr r rounds as b l \<Longrightarrow> core h m fr r rounds as b n" for h :: "'a cluster_heap" and m fr r rounds as b
    by (rule core_mono) (use n in auto)
  have same: "s = s\<lparr>clusters := clusters s, acked_clusters := acked_clusters s, max_bandwidth := max_bandwidth s, seq_round_map := seq_round_map s\<rparr>"
    by simp
  show ?thesis
  proof (cases "map_of (seq_round_map s) n")
    case None
    then have "ack_cluster lib now n s = Some (s\<lparr>clusters := clusters s, acked_clusters := acked_clusters s, max_bandwidth := max_bandwidth s,
        seq_round_map := seq_round_map s\<rparr>)" by (simp add: ack_cluster_def)
    with mono [OF core] show ?thesis by (metis le_SucI le_refl)
  next
    case r: (Some r)
    show ?thesis
    proof (cases "map_of (connection_info s) r")
      case None
      with r have "ack_cluster lib now n s = Some (s\<lparr>clusters := clusters s, acked_clusters := acked_clusters s, max_bandwidth := max_bandwidth s,
        seq_round_map := ?rs\<rparr>)" by (simp add: ack_cluster_def)
      with erase [OF mono [OF core]] show ?thesis by (metis le_SucI le_refl)
    next
      case (Some a)
      let ?s = "s\<lparr>seq_round_map := ?rs\<rparr>"
      have a: "(r, a) \<in> set (connection_info s)" using Some ascending_find [OF asc] by simp
      have nr: "(n, r) \<in> set (seq_round_map s)" using r e by (simp add: entries_def ascending_find)
      from cluster_OnAck_core [of ?s, simplified, OF core n nr a now, of lib] obtain h as f where
        "cluster_OnAck lib a n now ?s = Some (?s\<lparr>clusters := h, acked_clusters := as, max_bandwidth := f\<rparr>)"
        "core h (connection_info s) (next_address s) (round_trip_count s) (seq_round_map s) as bnd n" "length as \<le> Suc (length (acked_clusters s))"
        by auto
      moreover from this(2) have "core h (connection_info s) (next_address s) (round_trip_count s) ?rs as bnd n" by (rule erase)
      ultimately show ?thesis using r Some by (intro exI [of _ h] exI [of _ as] exI [of _ f] exI [of _ ?rs]) (simp add: ack_cluster_def)
    qed
  qed
qed

section \<open>Times, offsets and counters\<close>

definition times_ok :: "('b, 'f, 'r) bbr \<Rightarrow> bool" where
  "times_ok s \<longleftrightarrow> time_ok (min_rtt_timestamp s) \<and> time_ok (last_cycle_start s) \<and> \<bar>time_offset (min_rtt s)\<bar> < 2 ^ 58 \<and>
     \<bar>time_offset (recored_min_rtt s)\<bar> < 2 ^ 58 \<and> (\<forall>t \<in> snd ` set (seq_ts_map s). time_ok t)"

text \<open>\<open>bnd\<close> bounds the packet numbers sent, \<open>l\<close> is the last acknowledged one, \<open>k\<close> bounds the rounds.\<close>

definition ready :: "('b, 'f, 'r) bbr \<Rightarrow> nat \<Rightarrow> u64 \<Rightarrow> nat \<Rightarrow> bool" where
  "ready s bnd l k \<longleftrightarrow> core_of s bnd l \<and> times_ok s \<and> length (acked_clusters s) \<le> 9 \<and> unat (round_trip_count s) \<le> k"

lemma zero_offset: "time_offset Delta_Zero = 0"
  by (simp add: Delta_Zero_def)

lemma similar_defined: "\<bar>time_offset d\<bar> < 2 ^ 58 \<Longrightarrow> \<exists>d'. delta_scale d kSimilarMinRttThreshold = Some d'"
  by (intro delta_scale_defined) (simp_all add: kSimilarMinRttThreshold_def)

lemma UpdateRtt_ready:
  assumes r: "ready s bnd l k" and now: "time_ok now"
  shows "\<exists>s'. UpdateRtt now n s = Some s' \<and> ready s' bnd l k \<and> last_ack_seq s' = last_ack_seq s \<and> mode s' = mode s"
proof -
  let ?drop = "\<lambda>s. s\<lparr>seq_ts_map := dropWhile (\<lambda>(seq, _). seq \<le> n) (seq_ts_map s)\<rparr>"
  have drop: "t \<in> snd ` set (dropWhile (\<lambda>(seq, _). seq \<le> n) (seq_ts_map s)) \<Longrightarrow> time_ok t" for t
    using r set_dropWhileD by (fastforce simp: ready_def times_ok_def)
  show ?thesis
  proof (cases "map_of (seq_ts_map s) n")
    case None
    then have "UpdateRtt now n s = Some (?drop s)" by (simp add: UpdateRtt_def)
    moreover have "ready (?drop s) bnd l k" using r drop by (simp add: ready_def times_ok_def)
    ultimately show ?thesis by simp
  next
    case (Some ts)
    then have "time_ok ts" using r map_of_SomeD by (fastforce simp: ready_def times_ok_def)
    then obtain d where d: "time_diff now ts = Some d" "\<bar>time_offset d\<bar> < 2 ^ 58"
      using time_diff_ok [OF now] now by (auto simp: time_ok_def)
    have upd: ?thesis if "UpdateRtt now n s = Some (?drop (s\<lparr>min_rtt := d', min_rtt_timestamp := t\<rparr>))" "d' = min_rtt s \<or> d' = d"
      "t = min_rtt_timestamp s \<or> t = now" for d' t
    proof -
      let ?s = "?drop (s\<lparr>min_rtt := d', min_rtt_timestamp := t\<rparr>)"
      have "ready ?s bnd l k" using r now drop d(2) that(2,3) by (auto simp: ready_def times_ok_def)
      with that(1) show ?thesis by simp
    qed
    show ?thesis
    proof (cases "min_rtt s = Delta_Zero")
      case True
      then have "UpdateRtt now n s = Some (?drop (s\<lparr>min_rtt := d, min_rtt_timestamp := now\<rparr>))" using Some d(1) by (simp add: UpdateRtt_def)
      then show ?thesis by (rule upd) auto
    next
      case False
      let ?d = "if d < min_rtt s then d else min_rtt s" and ?t = "if d < min_rtt s then now else min_rtt_timestamp s"
      obtain d' where d': "delta_scale (min_rtt s) kSimilarMinRttThreshold = Some d'"
        using r similar_defined by (auto simp: ready_def times_ok_def)
      have "UpdateRtt now n s = Some (?drop (s\<lparr>min_rtt := ?d, min_rtt_timestamp := if d > ?d \<and> d \<le> d' then now else ?t\<rparr>))"
        using Some d(1) False d' by (auto simp: UpdateRtt_def Let_def)
      then show ?thesis by (rule upd) auto
    qed
  qed
qed

lemma gain_index: "i < kGainCycleLength \<longleftrightarrow> i < 8" "length kPacingGain = 8"
  by (simp_all add: kGainCycleLength_def kPacingGain_def eval_nat_numeral)

lemma set_gain_ready:
  assumes r: "ready s bnd l k" and now: "time_ok now" and "i < 8" and k: "Suc k < 2 ^ 64"
  shows "\<exists>s'. set_gain i now s = Some s' \<and> ready s' bnd l (Suc k) \<and> s' = s\<lparr>cycle_current_offset := i, last_cycle_start := now,
     pacing_gain := kPacingGain ! i, round_trip_count := round_trip_count s + 1\<rparr>"
proof -
  let ?s = "s\<lparr>cycle_current_offset := i, last_cycle_start := now, pacing_gain := kPacingGain ! i, round_trip_count := round_trip_count s + 1\<rparr>"
  have u: "unat (round_trip_count s + 1) = Suc (unat (round_trip_count s))" using r k by (simp add: unat_word_ariths ready_def)
  then have "round_trip_count s < round_trip_count s + 1" by (simp add: word_less_nat_alt)
  then have "core_of ?s bnd l" using r by (auto simp: ready_def intro: core_mono)
  with r u now have "ready ?s bnd l (Suc k)" by (simp add: ready_def times_ok_def)
  then show ?thesis using assms(3) by (simp add: set_gain_def gain_index)
qed

lemma EnterProbeBandwidthMode_ready:
  assumes r: "ready s bnd l k" and now: "time_ok now" and k: "Suc k < 2 ^ 64"
  shows "\<exists>s'. EnterProbeBandwidthMode lib now s = Some s' \<and> ready s' bnd l (Suc k) \<and> mode s' = PROBE_BW \<and> last_ack_seq s' = last_ack_seq s \<and>
     min_rtt_timestamp s' = min_rtt_timestamp s"
proof (cases "mode s = PROBE_BW")
  case True
  with r show ?thesis by (auto simp: EnterProbeBandwidthMode_def ready_def)
next
  case False
  obtain n rnd where n: "RandUint64 lib (random s) = (n, rnd)" by force
  let ?o = "unat (n mod of_nat (kGainCycleLength - 1))"
  have "?o < 7" by (simp add: kGainCycleLength_def kPacingGain_def unat_mod_distrib)
  then have i: "(if ?o \<ge> 1 then ?o + 1 else ?o) < 8" by simp
  have "ready (s\<lparr>mode := PROBE_BW, random := rnd\<rparr>) bnd l k" using r by (simp add: ready_def times_ok_def)
  from set_gain_ready [OF this now i k] obtain s' where s': "set_gain (if ?o \<ge> 1 then ?o + 1 else ?o) now (s\<lparr>mode := PROBE_BW, random := rnd\<rparr>) = Some s'"
    "ready s' bnd l (Suc k)" "mode s' = PROBE_BW" "last_ack_seq s' = last_ack_seq s" "min_rtt_timestamp s' = min_rtt_timestamp s"
    by force
  moreover have "EnterProbeBandwidthMode lib now s = set_gain (if ?o \<ge> 1 then ?o + 1 else ?o) now (s\<lparr>mode := PROBE_BW, random := rnd\<rparr>)"
    using False by (simp add: EnterProbeBandwidthMode_def n Let_def)
  ultimately show ?thesis by (intro exI [of _ s']) simp
qed

lemma UpdateGainCyclePhase_ready:
  assumes r: "ready s bnd l k" and now: "time_ok now" and k: "Suc k < 2 ^ 64"
  shows "\<exists>s'. UpdateGainCyclePhase now s = Some s' \<and> ready s' bnd l (Suc k) \<and> last_ack_seq s' = last_ack_seq s"
proof -
  have "time_diff now (last_cycle_start s) \<noteq> None" using r time_diff_ok [OF now] by (simp add: ready_def times_ok_def)
  then obtain d where d: "time_diff now (last_cycle_start s) = Some d" by auto
  show ?thesis
  proof (cases "d > min_rtt s")
    case True
    have "(cycle_current_offset s + 1) mod kGainCycleLength < 8" by (simp add: kGainCycleLength_def gain_index)
    from set_gain_ready [OF r now this k] show ?thesis using d True by (force simp: UpdateGainCyclePhase_def)
  next
    case False
    with d r show ?thesis by (auto simp: UpdateGainCyclePhase_def ready_def)
  qed
qed

lemma HasSampled_defined: "times_ok s \<Longrightarrow> \<exists>b. HasSampledLastMinRtt s = Some b"
  using similar_defined [of "recored_min_rtt s"] by (auto simp: HasSampledLastMinRtt_def times_ok_def)

lemma enter_probe_rtt_ready:
  assumes r: "ready s bnd l k"
  shows "\<exists>s'. ClusterInfoClear lib (s\<lparr>mode := PROBE_RTT, pacing_gain := 1, exit_probe_rtt_at := Time_Zero, round_trip_count := 0,
       recored_min_rtt := min_rtt s, min_rtt := Delta_Zero, seq_ts_map := []\<rparr>) = Some s' \<and> ready s' bnd l k \<and>
     last_ack_seq s' = last_ack_seq s \<and> mode s' = PROBE_RTT \<and> exit_probe_rtt_at s' = Time_Zero \<and> recored_min_rtt s' = min_rtt s \<and>
     min_rtt s' = Delta_Zero \<and> connection_info s' = [] \<and> seq_round_map s' = [] \<and> acked_clusters s' = [] \<and>
     min_bps s' = min_bps s \<and> seq_ts_map s' = [] \<and> min_rtt_timestamp s' = min_rtt_timestamp s"
proof -
  let ?s = "s\<lparr>mode := PROBE_RTT, pacing_gain := 1, exit_probe_rtt_at := Time_Zero, round_trip_count := 0,
       recored_min_rtt := min_rtt s, min_rtt := Delta_Zero, seq_ts_map := []\<rparr>"
  from r have "core (clusters ?s) (connection_info ?s) (next_address s) (round_trip_count s) (seq_round_map s) (acked_clusters s) bnd l"
    by (simp add: ready_def)
  from ClusterInfoClear_core [OF this, of lib] obtain f g where
    "ClusterInfoClear lib ?s = Some (?s\<lparr>max_bandwidth := f, avergae_bandwidth := g, seq_round_map := [], acked_clusters := [],
       average_round := 0, connection_info := [], clusters := \<lambda>_. None\<rparr>)" by blast
  moreover have "ready (?s\<lparr>max_bandwidth := f, avergae_bandwidth := g, seq_round_map := [], acked_clusters := [],
       average_round := 0, connection_info := [], clusters := \<lambda>_. None\<rparr>) bnd l k" using r
    by (simp add: ready_def times_ok_def core_empty zero_offset)
  ultimately show ?thesis by simp
qed

definition probe_rtt :: "('b, 'f, 'r) bbr_lib \<Rightarrow> QuicTime \<Rightarrow> ('b, 'f, 'r) bbr \<Rightarrow> ('b, 'f, 'r) bbr option" where
  "probe_rtt lib now s =
     (if mode s = PROBE_RTT
      then do {
        s \<leftarrow> (if exit_probe_rtt_at s = Time_Zero then map_option (\<lambda>t. s\<lparr>exit_probe_rtt_at := t\<rparr>) (time_plus now kProbeRttTime) else Some s);
        leave \<leftarrow> (if now > exit_probe_rtt_at s then Some True else HasSampledLastMinRtt s);
        (if leave then EnterProbeBandwidthMode lib now (s\<lparr>recored_min_rtt := Delta_Zero\<rparr>) else Some s)
      }
      else Some s)"

lemma MaybeEnterOrExit_split:
  "MaybeEnterOrExitProbeRtt lib now expired s =
     (if expired \<and> mode s \<noteq> PROBE_RTT
      then Option.bind (ClusterInfoClear lib (s\<lparr>mode := PROBE_RTT, pacing_gain := 1, exit_probe_rtt_at := Time_Zero, round_trip_count := 0,
        recored_min_rtt := min_rtt s, min_rtt := Delta_Zero, seq_ts_map := []\<rparr>)) (probe_rtt lib now)
      else probe_rtt lib now s)"
  unfolding MaybeEnterOrExitProbeRtt_def probe_rtt_def by simp

lemma probe_rtt_ready:
  assumes r: "ready s bnd l k" and now: "time_ok now" and k: "Suc k < 2 ^ 64"
  shows "\<exists>s'. probe_rtt lib now s = Some s' \<and> ready s' bnd l (Suc k) \<and> last_ack_seq s' = last_ack_seq s"
proof (cases "mode s = PROBE_RTT")
  case False
  with r show ?thesis by (auto simp: probe_rtt_def ready_def)
next
  case True
  have "i64 (time_us now + 200000) = Some (time_us now + 200000)" using now by (intro i64_in) (simp_all add: time_ok_def)
  then have plus: "time_plus now kProbeRttTime = Some (QuicTime (time_us now + 200000))" by (simp add: time_plus_def kProbeRttTime_def)
  let ?s = "s\<lparr>exit_probe_rtt_at := (if exit_probe_rtt_at s = Time_Zero then QuicTime (time_us now + 200000) else exit_probe_rtt_at s)\<rparr>"
  obtain b where b: "HasSampledLastMinRtt ?s = Some b" using HasSampled_defined [of ?s] r by (auto simp: ready_def times_ok_def)
  have "ready (?s\<lparr>recored_min_rtt := Delta_Zero\<rparr>) bnd l k" and stay: "ready ?s bnd l (Suc k)"
    using r by (auto simp: ready_def times_ok_def zero_offset)
  from EnterProbeBandwidthMode_ready [OF this(1) now k, of lib] obtain s' where s': "EnterProbeBandwidthMode lib now (?s\<lparr>recored_min_rtt := Delta_Zero\<rparr>) = Some s'"
    "ready s' bnd l (Suc k)" "last_ack_seq s' = last_ack_seq s" by auto
  have "probe_rtt lib now s = (if now > exit_probe_rtt_at ?s \<or> b then EnterProbeBandwidthMode lib now (?s\<lparr>recored_min_rtt := Delta_Zero\<rparr>) else Some ?s)"
    using True plus b by (cases "exit_probe_rtt_at s = Time_Zero") (auto simp: probe_rtt_def)
  with s' stay show ?thesis by simp
qed

lemma MaybeEnterOrExitProbeRtt_ready:
  assumes r: "ready s bnd l k" and now: "time_ok now" and k: "Suc k < 2 ^ 64"
  shows "\<exists>s'. MaybeEnterOrExitProbeRtt lib now expired s = Some s' \<and> ready s' bnd l (Suc k) \<and> last_ack_seq s' = last_ack_seq s"
proof (cases "expired \<and> mode s \<noteq> PROBE_RTT")
  case True
  from enter_probe_rtt_ready [OF r, of lib] obtain s1 where s1: "ClusterInfoClear lib (s\<lparr>mode := PROBE_RTT, pacing_gain := 1,
      exit_probe_rtt_at := Time_Zero, round_trip_count := 0, recored_min_rtt := min_rtt s, min_rtt := Delta_Zero, seq_ts_map := []\<rparr>) = Some s1"
    "ready s1 bnd l k" "last_ack_seq s1 = last_ack_seq s" by blast
  from probe_rtt_ready [OF s1(2) now k, of lib] True s1(1,3) show ?thesis by (simp add: MaybeEnterOrExit_split)
next
  case False
  from probe_rtt_ready [OF r now k, of lib] False show ?thesis unfolding MaybeEnterOrExit_split by auto
qed

lemma CalculatePacingRate_frame: "\<exists>b. CalculatePacingRate lib s = s\<lparr>pacing_rate := b\<rparr>"
  by (cases "mode s") (auto simp: CalculatePacingRate_def Let_def)

section \<open>Every event\<close>

lemma OnPacketSent_ready:
  assumes r: "ready s bnd (last_ack_seq s) k" and n: "bnd \<le> unat n" and now: "time_ok now" and k: "Suc k < 2 ^ 64"
  shows "\<exists>s'. OnPacketSent lib now n bytes s = Some s' \<and> ready s' (unat n + 1) (last_ack_seq s') (Suc k)"
proof -
  let ?s = "AddSeqAndTimestamp now n s"
  have "time_ok t" if "t \<in> snd ` set (map_insert n now (seq_ts_map s))" for t
  proof -
    have "t = now \<or> t \<in> snd ` set (seq_ts_map s)" using map_insert_entries(1) [of n now "seq_ts_map s"] that by force
    with r now show ?thesis by (auto simp: ready_def times_ok_def)
  qed
  then have s: "ready ?s bnd (last_ack_seq s) k" using r by (simp add: ready_def times_ok_def AddSeqAndTimestamp_def)
  show ?thesis
  proof (cases "mode ?s = PROBE_BW")
    case False
    have "core_of ?s (unat n + 1) (last_ack_seq s)"
      by (rule core_mono [of _ _ _ _ _ _ bnd "last_ack_seq s"]) (use s n in \<open>auto simp: ready_def\<close>)
    then show ?thesis using False s by (simp add: OnPacketSent_def Let_def ready_def AddSeqAndTimestamp_def)
  next
    case True
    from UpdateGainCyclePhase_ready [OF s now k] obtain s1 where s1: "UpdateGainCyclePhase now ?s = Some s1" "ready s1 bnd (last_ack_seq s) (Suc k)"
      "last_ack_seq s1 = last_ack_seq s" by (auto simp: AddSeqAndTimestamp_def)
    from AddPacketInfoSampler_core [of s1 bnd "last_ack_seq s" n now lib bytes] s1(2) n now obtain h m a rs where
      "AddPacketInfoSampler lib now n bytes s1 = Some (s1\<lparr>clusters := h, connection_info := m, next_address := a, seq_round_map := rs\<rparr>)"
      "core h m a (round_trip_count s1) rs (acked_clusters s1) (unat n + 1) (last_ack_seq s)" by (auto simp: ready_def)
    with s1 True show ?thesis by (simp add: OnPacketSent_def Let_def ready_def times_ok_def)
  qed
qed

lemma ack_clusters_ready:
  assumes r: "ready s bnd l k" and n: "l < n" "last_ack_seq s = n" and now: "time_ok now" "now \<noteq> Time_Zero"
  shows "\<exists>s'. Option.bind (ack_cluster lib now n s) (update_average lib) = Some s' \<and> ready s' bnd (last_ack_seq s') k \<and>
     pacing_rate s' = pacing_rate s \<and> mode s' = mode s \<and> min_bps s' = min_bps s"
proof -
  from ack_cluster_core [of s bnd l n now lib] r n now obtain h as f rs where
    h: "ack_cluster lib now n s = Some (s\<lparr>clusters := h, acked_clusters := as, max_bandwidth := f, seq_round_map := rs\<rparr>)"
    "core h (connection_info s) (next_address s) (round_trip_count s) rs as bnd n" "length as \<le> Suc (length (acked_clusters s))"
    by (auto simp: ready_def)
  let ?s = "s\<lparr>clusters := h, acked_clusters := as, max_bandwidth := f, seq_round_map := rs\<rparr>"
  have "core_of ?s bnd n" "length (acked_clusters ?s) \<le> 10" using h(2,3) r by (simp_all add: ready_def)
  from update_average_core [OF this, of lib] obtain h' m' as' r' f' where
    "update_average lib ?s = Some (?s\<lparr>average_round := r', avergae_bandwidth := f', connection_info := m', clusters := h', acked_clusters := as'\<rparr>)"
    "core h' m' (next_address s) (round_trip_count s) rs as' bnd n" "length as' \<le> 9" by auto
  then show ?thesis using r n(2) h(1) by (simp add: ready_def times_ok_def)
qed

lemma expiry_defined: "ready s bnd l k \<Longrightarrow> \<exists>e. time_plus (min_rtt_timestamp s) kMinRttExpiry = Some e"
  by (simp add: time_plus_def kMinRttExpiry_def ready_def times_ok_def time_ok_def i64_in)

lemma OnAck_ready:
  assumes r: "ready s bnd (last_ack_seq s) k" and now: "time_ok now" "now \<noteq> Time_Zero" and k: "Suc (Suc k) < 2 ^ 64"
  shows "\<exists>s'. OnAck lib now n s = Some s' \<and> ready s' bnd (last_ack_seq s') (Suc (Suc k))"
proof (cases "n \<le> last_ack_seq s")
  case True
  with r show ?thesis by (auto simp: OnAck_def ready_def)
next
  case False
  let ?l = "last_ack_seq s" and ?s = "s\<lparr>last_ack_seq := n\<rparr>"
  have "ready ?s bnd ?l k" using r by (simp add: ready_def times_ok_def)
  from UpdateRtt_ready [OF this now(1), of n] obtain s1 where s1: "UpdateRtt now n ?s = Some s1" "ready s1 bnd ?l k" "last_ack_seq s1 = n" by auto
  obtain s2 where s2: "(if mode s1 = START_UP then EnterProbeBandwidthMode lib now s1 else Some s1) = Some s2" "ready s2 bnd ?l (Suc k)" "last_ack_seq s2 = n"
    using EnterProbeBandwidthMode_ready [OF s1(2) now(1), of lib] s1(2,3) k by (cases "mode s1 = START_UP") (auto simp: ready_def)
  from expiry_defined [OF s2(2)] obtain e where e: "time_plus (min_rtt_timestamp s2) kMinRttExpiry = Some e" by blast
  from MaybeEnterOrExitProbeRtt_ready [OF s2(2) now(1) k, of lib "now > e"] s2(3) obtain s3 where
    s3: "MaybeEnterOrExitProbeRtt lib now (now > e) s2 = Some s3" "ready s3 bnd ?l (Suc (Suc k))" "last_ack_seq s3 = n" by auto
  obtain b where b: "CalculatePacingRate lib s3 = s3\<lparr>pacing_rate := b\<rparr>" using CalculatePacingRate_frame [of lib s3] by (elim exE)
  have "ready (s3\<lparr>pacing_rate := b\<rparr>) bnd ?l (Suc (Suc k))" "last_ack_seq (s3\<lparr>pacing_rate := b\<rparr>) = n" "?l < n"
    using s3(2,3) False by (auto simp: ready_def times_ok_def)
  from ack_clusters_ready [OF this(1,3,2) now, of lib] obtain s5 where
    "Option.bind (ack_cluster lib now n (s3\<lparr>pacing_rate := b\<rparr>)) (update_average lib) = Some s5" "ready s5 bnd (last_ack_seq s5) (Suc (Suc k))" by blast
  then show ?thesis using False s1(1) s2(1) e s3(1) b by (simp add: OnAck_def)
qed

section \<open>Runs\<close>

datatype bbr_event = Sent QuicTime u64 u64 | Acked QuicTime u64

fun bbr_step :: "('b, 'f, 'r) bbr_lib \<Rightarrow> bbr_event \<Rightarrow> ('b, 'f, 'r) bbr \<Rightarrow> ('b, 'f, 'r) bbr option" where
  "bbr_step lib (Sent now n bytes) s = OnPacketSent lib now n bytes s"
| "bbr_step lib (Acked now n) s = OnAck lib now n s"

fun bbr_run :: "('b, 'f, 'r) bbr_lib \<Rightarrow> bbr_event list \<Rightarrow> ('b, 'f, 'r) bbr \<Rightarrow> ('b, 'f, 'r) bbr option" where
  "bbr_run lib [] s = Some s"
| "bbr_run lib (e # es) s = Option.bind (bbr_step lib e s) (bbr_run lib es)"

text \<open>Times after the epoch, and before the year 11100; packet numbers of sent packets grow, acknowledgements are arbitrary.\<close>

fun bbr_events :: "nat \<Rightarrow> bbr_event list \<Rightarrow> bool" where
  "bbr_events bnd [] \<longleftrightarrow> True"
| "bbr_events bnd (Sent now n bytes # es) \<longleftrightarrow> 0 < time_us now \<and> time_us now < 2 ^ 58 \<and> bnd \<le> unat n \<and> bbr_events (unat n + 1) es"
| "bbr_events bnd (Acked now n # es) \<longleftrightarrow> 0 < time_us now \<and> time_us now < 2 ^ 58 \<and> bbr_events bnd es"

lemma bbr_run_ready:
  assumes "bbr_events bnd (es @ es')" and "ready s bnd (last_ack_seq s) k" and "k + 2 * length es < 2 ^ 64"
  shows "\<exists>s' bnd' k'. bbr_run lib es s = Some s' \<and> ready s' bnd' (last_ack_seq s') k' \<and> k' \<le> k + 2 * length es \<and> bbr_events bnd' es'"
  using assms
proof (induction es arbitrary: bnd s k)
  case Nil
  then show ?case by auto
next
  case (Cons e es)
  show ?case
  proof (cases e)
    case (Sent now n bytes)
    with Cons.prems have "time_ok now" "bnd \<le> unat n" "Suc k < 2 ^ 64" by (auto simp: time_ok_def)
    with OnPacketSent_ready [OF Cons.prems(2)] obtain s1 where s1: "OnPacketSent lib now n bytes s = Some s1"
      "ready s1 (unat n + 1) (last_ack_seq s1) (Suc k)" by blast
    from Cons.IH [OF _ s1(2)] Cons.prems(1,3) s1(1) Sent show ?thesis by fastforce
  next
    case (Acked now n)
    with Cons.prems have "time_ok now" "now \<noteq> Time_Zero" "Suc (Suc k) < 2 ^ 64" by (auto simp: time_ok_def Time_Zero_def)
    with OnAck_ready [OF Cons.prems(2)] obtain s1 where s1: "OnAck lib now n s = Some s1" "ready s1 bnd (last_ack_seq s1) (Suc (Suc k))" by blast
    from Cons.IH [OF _ s1(2)] Cons.prems(1,3) s1(1) Acked show ?thesis by fastforce
  qed
qed

lemma new_sender_ready: "ready (MyBbrSender lib rnd mn start mx) bnd l 0"
  by (simp add: MyBbrSender_def ready_def times_ok_def time_ok_def Time_Zero_def core_empty zero_offset)

lemma ready_delete: "ready s bnd l k \<Longrightarrow> \<exists>s'. MyBbrSender_delete s = Some s' \<and> clusters s' = (\<lambda>_. None)"
proof -
  assume "ready s bnd l k"
  then have "core (clusters s) (connection_info s) (next_address s) (round_trip_count s) (seq_round_map s) (acked_clusters s) bnd l"
    by (simp add: ready_def)
  with delete_all_core [of "s\<lparr>seq_round_map := [], acked_clusters := []\<rparr>"] show ?thesis by (simp add: MyBbrSender_delete_def)
qed

text \<open>
  C3: however the sender is driven - packets with growing numbers, acknowledgements of any packet, known or not, in any order - it
  never follows a pointer to a deleted cluster, reads outside a table or overflows a time, and its destructor then deletes every
  cluster that is left, once, and leaks none.
\<close>

theorem bbr_memory_safe:
  assumes "bbr_events 0 es" and "length es < 2 ^ 62"
  shows "\<exists>s s'. bbr_run lib es (MyBbrSender lib rnd mn start mx) = Some s \<and> MyBbrSender_delete s = Some s' \<and> clusters s' = (\<lambda>_. None)"
proof -
  from bbr_run_ready [of 0 es "[]", OF _ new_sender_ready, where lib = lib] assms obtain s bnd k where
    "bbr_run lib es (MyBbrSender lib rnd mn start mx) = Some s" "ready s bnd (last_ack_seq s) k"
    by fastforce
  with ready_delete show ?thesis by blast
qed

text \<open>A library on numbers: rates in bits per second, a filter that keeps the largest sample, a generator that counts.\<close>

definition demo_lib :: "(nat, nat, nat) bbr_lib" where
  "demo_lib = \<lparr>Bandwidth_Zero = 0, Bandwidth_Infinite = 1000000000, FromBitsPerSecond = unat,
     FromBytesAndTimeDelta = (\<lambda>b d. unat b * 8000000 div nat (time_offset d)), bw_less = (<), bw_scale = (\<lambda>r b. nat \<lfloor>r * of_nat b\<rfloor>),
     TransferTime = (\<lambda>b n. Delta (int (unat n * 8000000 div max 1 b))), new_filter = (\<lambda>_ b _. b), filter_Update = (\<lambda>b _ f. max b f),
     filter_Reset = (\<lambda>b _ _. b), GetBest = id, RandUint64 = (\<lambda>r. (of_nat r, Suc r))\<rparr>"

definition demo_events :: "bbr_event list" where
  "demo_events = [Sent (QuicTime 1000) 1 1200, Acked (QuicTime 51000) 1, Sent (QuicTime 60000) 2 1200, Sent (QuicTime 70000) 3 1200,
     Sent (QuicTime 200000) 4 1200, Acked (QuicTime 210000) 2, Acked (QuicTime 220000) 3, Acked (QuicTime 250000) 4]"

theorem bbr_memory_safe_witness:
  "\<exists>s s'. bbr_run demo_lib demo_events (MyBbrSender demo_lib 3 100000 300000 500000) = Some s \<and> MyBbrSender_delete s = Some s' \<and>
     clusters s' = (\<lambda>_. None)"
  by (rule bbr_memory_safe) (simp_all add: demo_events_def)

end
