(* ===== verification/Bbr_Modes.thy ===== *)
theory Bbr_Modes
  imports Bbr_Proofs
begin

text \<open>
  The control loop of the BBR sender: the pacing rate after an acknowledgement, how PROBE_RTT is left and entered again, and what
  the pacer promises. What belongs to the control loop is gathered in \<open>control\<close>; operations on clusters leave it alone.
\<close>

section \<open>The control part of the state\<close>

definition kept :: "('b, 'f, 'r) bbr \<Rightarrow> u64 \<times> Delta \<times> QuicTime \<times> u64 \<times> (u64 \<times> QuicTime) list" where
  "kept s = (min_bps s, min_rtt s, min_rtt_timestamp s, last_ack_seq s, seq_ts_map s)"

definition control where
  "control s = (mode s, exit_probe_rtt_at s, pacing_rate s, kept s)" for s :: "('b, 'f, 'r) bbr"

lemmas control_defs = control_def kept_def

lemma if_SomeE: "(if b then m else m') = Some y \<Longrightarrow> (b \<Longrightarrow> m = Some y \<Longrightarrow> P) \<Longrightarrow> (\<not> b \<Longrightarrow> m' = Some y \<Longrightarrow> P) \<Longrightarrow> P"
  by (cases b) auto

lemma case_SomeE:
  "(case x of None \<Rightarrow> m | Some z \<Rightarrow> m' z) = Some y \<Longrightarrow> (x = None \<Longrightarrow> m = Some y \<Longrightarrow> P) \<Longrightarrow> (\<And>z. x = Some z \<Longrightarrow> m' z = Some y \<Longrightarrow> P) \<Longrightarrow> P"
  by (cases x) auto

lemmas SomeE = bind_SomeE if_SomeE case_SomeE

lemma control_cluster [simp]:
  "control (set_cluster a c s) = control s" "control (s\<lparr>clusters := h\<rparr>) = control s" "control (s\<lparr>connection_info := m\<rparr>) = control s"
  "control (s\<lparr>acked_clusters := as\<rparr>) = control s" "control (s\<lparr>max_bandwidth := f\<rparr>) = control s" "control (s\<lparr>seq_round_map := rs\<rparr>) = control s"
  "control (s\<lparr>average_round := r\<rparr>) = control s" "control (s\<lparr>avergae_bandwidth := g\<rparr>) = control s" "control (s\<lparr>next_address := i\<rparr>) = control s"
  by (simp_all add: control_defs set_cluster_def)

lemma delete_cluster_control: "delete_cluster a s = Some s' \<Longrightarrow> control s' = control s"
  by (auto simp: delete_cluster_def)

lemma Set_control: "SetPrev a p s = Some s' \<Longrightarrow> control s' = control s" "SetNext a p s = Some s' \<Longrightarrow> control s' = control s"
  by (auto simp: SetPrev_def SetNext_def)

lemma Trigger_control:
  assumes "TriggerBandwidthEstimate lib p s = Some s'"
  shows "control s' = control s"
  using assms unfolding TriggerBandwidthEstimate_def Let_def
  by (elim bind_SomeE if_SomeE) (auto simp: OnEstimateBandwidth_def split: if_splits)

lemma cluster_OnAck_control:
  assumes "cluster_OnAck lib a n now s = Some s'"
  shows "control s' = control s"
proof -
  from assms obtain c s1 c1 where s1: "(if first_ack_ts c = Time_Zero
       then let s = set_cluster a (c\<lparr>first_ack_ts := now\<rparr>) s
            in case prev_cluster c of None \<Rightarrow> Some s | Some p \<Rightarrow> TriggerBandwidthEstimate lib p s
       else Some s) = Some s1"
    and s': "(case packet_infos (c1\<lparr>last_ack_ts := now\<rparr>) of [] \<Rightarrow> None
      | head # _ \<Rightarrow> let offset = unat (ucast (n - pkt_seq head) :: u32) in
          Some (set_cluster a
            (if n \<ge> pkt_seq head \<and> offset < length (packet_infos (c1\<lparr>last_ack_ts := now\<rparr>))
             then c1\<lparr>last_ack_ts := now, packet_infos := (packet_infos (c1\<lparr>last_ack_ts := now\<rparr>))[offset :=
                   (packet_infos (c1\<lparr>last_ack_ts := now\<rparr>) ! offset)\<lparr>pkt_ack_ts := now\<rparr>],
                   acked_packets := acked_packets (c1\<lparr>last_ack_ts := now\<rparr>) + pkt_len (packet_infos (c1\<lparr>last_ack_ts := now\<rparr>) ! offset)\<rparr>
             else c1\<lparr>last_ack_ts := now\<rparr>) s1)) = Some s'"
    unfolding cluster_OnAck_def by (elim bind_SomeE) (simp add: Let_def)
  have "control s1 = control s" using s1 unfolding Let_def by (elim if_SomeE case_SomeE) (auto dest!: Trigger_control)
  moreover have "control s' = control s1" using s' unfolding Let_def by (auto split: list.splits)
  ultimately show ?thesis by simp
qed

lemma ack_cluster_control:
  assumes "ack_cluster lib now n s = Some s'"
  shows "control s' = control s"
  using assms unfolding ack_cluster_def Let_def by (elim case_SomeE) (auto dest!: cluster_OnAck_control)

lemma remove_le_control: "remove_le r m s = Some s' \<Longrightarrow> control s' = control s"
proof (induction m arbitrary: s)
  case (Cons x m)
  obtain cid a where x: "x = (cid, a)" by force
  from Cons.prems [unfolded x remove_le.simps] show ?case
  proof (elim SomeE)
    fix c s1 s2 assume "delete_cluster a s1 = Some s2" "remove_le r m s2 = Some s'" "Some s = Some s1"
    then show ?thesis using Cons.IH [of s2] delete_cluster_control [of a s1 s2] by simp
  next
    fix c s1 s2 n assume "delete_cluster a s1 = Some s2" "remove_le r m s2 = Some s'" "SetPrev n None s = Some s1"
    then show ?thesis using Cons.IH [of s2] delete_cluster_control [of a s1 s2] Set_control(1) [of n None s s1] by simp
  qed auto
qed auto

lemma drop_stale_control: "drop_stale n s = Some s' \<Longrightarrow> control s' = control s"
proof (induction n arbitrary: s)
  case (Suc n)
  then obtain r as s1 where s1: "RemoveClusterLE r (s\<lparr>acked_clusters := as\<rparr>) = Some s1" "drop_stale n s1 = Some s'"
    by (auto split: list.splits elim!: bind_SomeE)
  from s1(1) have "control s1 = control (s\<lparr>acked_clusters := as\<rparr>)" unfolding RemoveClusterLE_def by (rule remove_le_control)
  with Suc.IH [OF s1(2)] show ?case by simp
qed auto

lemma update_average_control:
  assumes "update_average lib s = Some s'"
  shows "control s' = control s"
  using assms unfolding update_average_def Let_def by (elim bind_SomeE if_SomeE) (auto dest!: drop_stale_control)

lemma new_cluster_control:
  assumes "new_cluster lib s = Some (a, s')"
  shows "control s' = control s"
  using assms unfolding new_cluster_def Let_def by (elim SomeE) (auto dest!: Set_control)

lemma AddPacketInfoSampler_control:
  assumes "AddPacketInfoSampler lib now n b s = Some s'"
  shows "control s' = control s"
proof -
  from assms obtain a s1 s2 where "(case map_of (connection_info s) (round_trip_count s) of Some a \<Rightarrow> Some (a, s) | None \<Rightarrow> new_cluster lib s) = Some (a, s1)"
    "cluster_OnPacketSent a now n b s1 = Some s2" "s' = s2\<lparr>seq_round_map := map_insert n (round_trip_count s2) (seq_round_map s2)\<rparr>"
    unfolding AddPacketInfoSampler_def by (auto simp: bind_eq_Some_conv)
  moreover from this(1) have "control s1 = control s" by (elim case_SomeE) (auto dest: new_cluster_control)
  moreover from calculation(2) have "control s2 = control s1" by (auto simp: cluster_OnPacketSent_def bind_eq_Some_conv)
  ultimately show ?thesis by simp
qed

lemma delete_all_control: "delete_all m s = Some s' \<Longrightarrow> control s' = control s"
proof (induction m arbitrary: s)
  case (Cons x m)
  then obtain a s1 where s1: "delete_cluster a s = Some s1" "delete_all m s1 = Some s'" by (cases x) (auto elim!: bind_SomeE)
  with Cons.IH [OF s1(2)] delete_cluster_control [OF s1(1)] show ?case by simp
qed auto

lemma ClusterInfoClear_control: "ClusterInfoClear lib s = Some s' \<Longrightarrow> control s' = control s"
  by (auto simp: ClusterInfoClear_def Let_def dest!: delete_all_control)

section \<open>What the steps of the control loop do\<close>

lemma set_gain_frame: "set_gain i now s = Some s' \<Longrightarrow> mode s' = mode s \<and> exit_probe_rtt_at s' = exit_probe_rtt_at s \<and> kept s' = kept s"
  by (auto simp: set_gain_def kept_def split: if_splits)

lemma Enter_frame: "EnterProbeBandwidthMode lib now s = Some s' \<Longrightarrow> mode s' = PROBE_BW \<and> kept s' = kept s"
  by (auto simp: EnterProbeBandwidthMode_def Let_def kept_def split: if_splits prod.splits dest!: set_gain_frame)

lemma UpdateGain_frame:
  assumes "UpdateGainCyclePhase now s = Some s'"
  shows "mode s' = mode s \<and> exit_probe_rtt_at s' = exit_probe_rtt_at s \<and> kept s' = kept s"
  using assms unfolding UpdateGainCyclePhase_def by (elim bind_SomeE if_SomeE) (auto dest: set_gain_frame)

lemma Calculate_frame:
  "mode (CalculatePacingRate lib s) = mode s" "exit_probe_rtt_at (CalculatePacingRate lib s) = exit_probe_rtt_at s"
  "kept (CalculatePacingRate lib s) = kept s"
  by (simp_all add: CalculatePacingRate_def Let_def kept_def)

lemma UpdateRtt_frame:
  assumes "UpdateRtt now n s = Some s'"
  shows "mode s' = mode s \<and> exit_probe_rtt_at s' = exit_probe_rtt_at s \<and> min_bps s' = min_bps s \<and> last_ack_seq s' = last_ack_seq s"
proof -
  from assms obtain s1 where s1: "(case map_of (seq_ts_map s) n of
             None \<Rightarrow> Some s
           | Some ts \<Rightarrow> do {
               rtt \<leftarrow> time_diff now ts;
               (if min_rtt s = Delta_Zero then Some (s\<lparr>min_rtt := rtt, min_rtt_timestamp := now\<rparr>)
                else do {
                  let s = (if rtt < min_rtt s then s\<lparr>min_rtt := rtt, min_rtt_timestamp := now\<rparr> else s);
                  similar \<leftarrow> (if rtt > min_rtt s then delta_scale (min_rtt s) kSimilarMinRttThreshold else Some Delta_Zero);
                  Some (if rtt > min_rtt s \<and> rtt \<le> similar then s\<lparr>min_rtt_timestamp := now\<rparr> else s)
                })
             }) = Some s1" and s': "s' = s1\<lparr>seq_ts_map := dropWhile (\<lambda>(seq, _). seq \<le> n) (seq_ts_map s1)\<rparr>"
    unfolding UpdateRtt_def by (auto simp: bind_eq_Some_conv)
  from s1 have "mode s1 = mode s \<and> exit_probe_rtt_at s1 = exit_probe_rtt_at s \<and> min_bps s1 = min_bps s \<and> last_ack_seq s1 = last_ack_seq s"
    unfolding Let_def by (elim case_SomeE bind_SomeE if_SomeE) auto
  with s' show ?thesis by simp
qed

text \<open>While PROBE_RTT lasts, its end is set, at most 200 ms after the last event.\<close>

definition probe_ok :: "int \<Rightarrow> ('b, 'f, 'r) bbr \<Rightarrow> bool" where
  "probe_ok T s \<longleftrightarrow> (mode s = PROBE_RTT \<longrightarrow> exit_probe_rtt_at s \<noteq> Time_Zero \<and> time_us (exit_probe_rtt_at s) \<le> T + 200000)"

lemma probe_rtt_frame:
  assumes "probe_rtt lib now s = Some s'" and "0 < time_us now" and "time_us now \<le> T"
    and "mode s = PROBE_RTT \<Longrightarrow> exit_probe_rtt_at s = Time_Zero \<or> time_us (exit_probe_rtt_at s) \<le> T + 200000"
  shows "kept s' = kept s \<and> probe_ok T s' \<and> (mode s \<noteq> START_UP \<longrightarrow> mode s' \<noteq> START_UP)"
proof (cases "mode s = PROBE_RTT")
  case False
  with assms(1) show ?thesis by (auto simp: probe_rtt_def probe_ok_def)
next
  case True
  with assms(1) obtain s1 leave where
    s1: "(if exit_probe_rtt_at s = Time_Zero then map_option (\<lambda>t. s\<lparr>exit_probe_rtt_at := t\<rparr>) (time_plus now kProbeRttTime) else Some s) = Some s1"
    and s': "(if leave then EnterProbeBandwidthMode lib now (s1\<lparr>recored_min_rtt := Delta_Zero\<rparr>) else Some s1) = Some s'"
    unfolding probe_rtt_def by (auto elim!: bind_SomeE)
  from s1 assms(2-4) True have "kept s1 = kept s" "probe_ok T s1" "mode s1 = mode s"
    by (auto simp: probe_ok_def kept_def time_plus_def kProbeRttTime_def i64_def Time_Zero_def split: if_splits)
  with s' True show ?thesis by (auto simp: probe_ok_def kept_def split: if_splits dest!: Enter_frame)
qed

section \<open>Every event\<close>

lemma OnAck_parts:
  assumes "OnAck lib now n s = Some s'" and "last_ack_seq s < n"
  obtains s1 s2 e s3 where "UpdateRtt now n (s\<lparr>last_ack_seq := n\<rparr>) = Some s1"
    "(if mode s1 = START_UP then EnterProbeBandwidthMode lib now s1 else Some s1) = Some s2" "time_plus (min_rtt_timestamp s2) kMinRttExpiry = Some e"
    "MaybeEnterOrExitProbeRtt lib now (now > e) s2 = Some s3" "control s' = control (CalculatePacingRate lib s3)"
proof -
  from assms have "\<not> n \<le> last_ack_seq s" by simp
  with assms(1) show ?thesis
    unfolding OnAck_def by (auto elim!: bind_SomeE dest!: ack_cluster_control update_average_control intro: that)
qed

lemma MaybeEnterOrExit_frame:
  assumes "MaybeEnterOrExitProbeRtt lib now expired s = Some s'" and now: "0 < time_us now" "time_us now \<le> T" and ok: "probe_ok T s"
  shows "probe_ok T s' \<and> (mode s \<noteq> START_UP \<longrightarrow> mode s' \<noteq> START_UP) \<and> min_bps s' = min_bps s \<and> last_ack_seq s' = last_ack_seq s"
proof (cases "expired \<and> mode s \<noteq> PROBE_RTT")
  case False
  with assms(1) have "probe_rtt lib now s = Some s'" unfolding MaybeEnterOrExit_split by auto
  from probe_rtt_frame [OF this now] ok show ?thesis by (auto simp: probe_ok_def kept_def)
next
  case True
  let ?s = "s\<lparr>mode := PROBE_RTT, pacing_gain := 1, exit_probe_rtt_at := Time_Zero, round_trip_count := 0,
        recored_min_rtt := min_rtt s, min_rtt := Delta_Zero, seq_ts_map := []\<rparr>"
  from assms(1) True obtain s1 where s1: "ClusterInfoClear lib ?s = Some s1" "probe_rtt lib now s1 = Some s'"
    unfolding MaybeEnterOrExit_split by (auto elim!: bind_SomeE)
  from ClusterInfoClear_control [OF s1(1)] have "mode s1 = PROBE_RTT" "exit_probe_rtt_at s1 = Time_Zero" "min_bps s1 = min_bps s"
    "last_ack_seq s1 = last_ack_seq s" by (simp_all add: control_defs)
  with probe_rtt_frame [OF s1(2) now] show ?thesis by (simp add: kept_def)
qed

lemma OnAck_frame:
  assumes "OnAck lib now n s = Some s'" and now: "0 < time_us now" "time_us now \<le> T" and ok: "probe_ok T s"
  shows "probe_ok T s' \<and> min_bps s' = min_bps s \<and> (last_ack_seq s < n \<longrightarrow> mode s' \<noteq> START_UP)"
proof (cases "last_ack_seq s < n")
  case False
  with assms show ?thesis by (auto simp: OnAck_def not_less)
next
  case True
  from OnAck_parts [OF assms(1) True] obtain s1 s2 e s3 where p: "UpdateRtt now n (s\<lparr>last_ack_seq := n\<rparr>) = Some s1"
    "(if mode s1 = START_UP then EnterProbeBandwidthMode lib now s1 else Some s1) = Some s2"
    "MaybeEnterOrExitProbeRtt lib now (now > e) s2 = Some s3" "control s' = control (CalculatePacingRate lib s3)" by metis
  from UpdateRtt_frame [OF p(1)] ok have "probe_ok T s1" "min_bps s1 = min_bps s" by (auto simp: probe_ok_def)
  with p(2) have "probe_ok T s2" "min_bps s2 = min_bps s" "mode s2 \<noteq> START_UP"
    by (auto simp: probe_ok_def kept_def split: if_splits dest!: Enter_frame)
  with MaybeEnterOrExit_frame [OF p(3) now] have "probe_ok T s3" "min_bps s3 = min_bps s" "mode s3 \<noteq> START_UP" by auto
  with p(4) Calculate_frame [of lib s3] show ?thesis by (simp add: control_defs probe_ok_def)
qed

lemma OnPacketSent_frame:
  assumes "OnPacketSent lib now n b s = Some s'"
  shows "mode s' = mode s \<and> exit_probe_rtt_at s' = exit_probe_rtt_at s \<and> min_bps s' = min_bps s \<and> last_ack_seq s' = last_ack_seq s \<and>
     min_rtt s' = min_rtt s \<and> min_rtt_timestamp s' = min_rtt_timestamp s \<and> seq_ts_map s' = map_insert n now (seq_ts_map s)"
proof -
  let ?s = "AddSeqAndTimestamp now n s"
  from assms have "mode s' = mode ?s \<and> exit_probe_rtt_at s' = exit_probe_rtt_at ?s \<and> kept s' = kept ?s"
    unfolding OnPacketSent_def Let_def
    by (elim bind_SomeE if_SomeE) (auto dest!: UpdateGain_frame AddPacketInfoSampler_control simp: control_def)
  then show ?thesis by (auto simp: AddSeqAndTimestamp_def kept_def)
qed

section \<open>Reachable states\<close>

fun event_time :: "bbr_event \<Rightarrow> QuicTime" where
  "event_time (Sent now n bytes) = now"
| "event_time (Acked now n) = now"

lemma bbr_events_append_time: "bbr_events bnd es \<Longrightarrow> e \<in> set es \<Longrightarrow> 0 < time_us (event_time e)"
  by (induction bnd es rule: bbr_events.induct) auto

lemma bbr_run_frame:
  assumes "bbr_run lib es s = Some s'" and "\<And>e. e \<in> set es \<Longrightarrow> 0 < time_us (event_time e) \<and> time_us (event_time e) \<le> T" and "probe_ok T s"
  shows "probe_ok T s' \<and> min_bps s' = min_bps s"
  using assms
proof (induction es arbitrary: s)
  case (Cons e es)
  then obtain s1 where s1: "bbr_step lib e s = Some s1" "bbr_run lib es s1 = Some s'" by (auto elim!: bind_SomeE)
  have "probe_ok T s1 \<and> min_bps s1 = min_bps s"
  proof (cases e)
    case (Sent now n bytes)
    with s1(1) OnPacketSent_frame [of lib now n bytes s s1] Cons.prems(3) show ?thesis by (simp add: probe_ok_def)
  next
    case (Acked now n)
    with s1(1) OnAck_frame [of lib now n s s1 T] Cons.prems(2) [of e] Cons.prems(3) show ?thesis by simp
  qed
  with Cons.IH [OF s1(2)] Cons.prems(2) show ?case by simp
qed simp

lemma bbr_reach_ready:
  assumes "bbr_events 0 (es @ es')" and "length es < 2 ^ 60" and "bbr_run lib es (MyBbrSender lib rnd mn start mx) = Some s"
  shows "\<exists>bnd k. ready s bnd (last_ack_seq s) k \<and> k < 2 ^ 62 \<and> bbr_events bnd es'"
proof -
  have "ready (MyBbrSender lib rnd mn start mx) 0 (last_ack_seq (MyBbrSender lib rnd mn start mx)) 0" by (rule new_sender_ready)
  from bbr_run_ready [OF assms(1) this, of lib] assms(2) have
    "\<exists>s' bnd' k'. bbr_run lib es (MyBbrSender lib rnd mn start mx) = Some s' \<and> ready s' bnd' (last_ack_seq s') k' \<and> k' \<le> 0 + 2 * length es \<and>
       bbr_events bnd' es'" by simp
  with assms(2,3) show ?thesis by fastforce
qed

lemma bbr_reach_OnAck:
  assumes ev: "bbr_events 0 (es @ [Acked now n])" and len: "length es < 2 ^ 60" and run: "bbr_run lib es (MyBbrSender lib rnd mn start mx) = Some s"
  shows "\<exists>s'. OnAck lib now n s = Some s'"
proof -
  from bbr_reach_ready [OF ev len run] obtain bnd k where r: "ready s bnd (last_ack_seq s) k" "k < 2 ^ 62" "bbr_events bnd [Acked now n]" by blast
  then have "time_ok now" "now \<noteq> Time_Zero" "Suc (Suc k) < 2 ^ 64" by (auto simp: time_ok_def Time_Zero_def)
  with OnAck_ready [OF r(1)] show ?thesis by blast
qed

lemma new_sender_probe_ok: "probe_ok T (MyBbrSender lib rnd mn start mx)" "min_bps (MyBbrSender lib rnd mn start mx) = mn"
  by (simp_all add: MyBbrSender_def probe_ok_def)

lemma pacing_floor:
  assumes "\<And>b. \<not> bw_less lib b b"
  shows "mode s \<noteq> START_UP \<Longrightarrow> \<not> bw_less lib (pacing_rate (CalculatePacingRate lib s)) (FromBitsPerSecond lib (min_bps s))"
    "mode s = PROBE_RTT \<Longrightarrow> pacing_rate (CalculatePacingRate lib s) = FromBitsPerSecond lib (min_bps s)"
  using assms by (cases "mode s"; simp add: CalculatePacingRate_def Let_def)+

lemma reach_times:
  assumes "bbr_events bnd es" and "e \<in> set es"
  shows "0 < time_us (event_time e) \<and> time_us (event_time e) \<le> 2 ^ 58"
  using assms by (induction bnd es rule: bbr_events.induct) auto

lemma bbr_events_prefix: "bbr_events bnd (es @ es') \<Longrightarrow> bbr_events bnd es"
  by (induction bnd es rule: bbr_events.induct) auto

text \<open>
  C36: every acknowledgement of a packet above the last acknowledged one is processed, ends start-up, and leaves a pacing rate that is not
  below the configured minimum, and is exactly the minimum while the round-trip time is probed.
\<close>

theorem bbr_ack_pacing:
  assumes irrefl: "\<And>b. \<not> bw_less lib b b" and ev: "bbr_events 0 (es @ [Acked now n])" and len: "length es < 2 ^ 60"
    and run: "bbr_run lib es (MyBbrSender lib rnd mn start mx) = Some s" and new: "last_ack_seq s < n"
  shows "\<exists>s'. OnAck lib now n s = Some s' \<and> mode s' \<noteq> START_UP \<and> \<not> bw_less lib (pacing_rate s') (FromBitsPerSecond lib mn) \<and>
     (mode s' = PROBE_RTT \<longrightarrow> pacing_rate s' = FromBitsPerSecond lib mn)"
proof -
  have t: "0 < time_us now \<and> time_us now \<le> 2 ^ 58" using reach_times [OF ev, of "Acked now n"] by simp
  from bbr_reach_OnAck [OF ev len run] obtain s' where s': "OnAck lib now n s = Some s'" by blast
  from bbr_run_frame [OF run reach_times [OF bbr_events_prefix [OF ev]] new_sender_probe_ok(1)]
  have "probe_ok (2 ^ 58) s" "min_bps s = mn" by (simp_all add: new_sender_probe_ok)
  with OnAck_frame [OF s', of "2 ^ 58"] t new have f: "mode s' \<noteq> START_UP" "min_bps s' = mn" by auto
  from OnAck_parts [OF s' new] obtain s3 where "control s' = control (CalculatePacingRate lib s3)" by metis
  then have "pacing_rate s' = pacing_rate (CalculatePacingRate lib s3)" "mode s' = mode s3" "min_bps s' = min_bps s3"
    using Calculate_frame [of lib s3] by (simp_all add: control_defs)
  with s' f pacing_floor [OF irrefl, of s3] show ?thesis by auto
qed

theorem bbr_ack_pacing_witness:
  "\<exists>s'. OnAck demo_lib (QuicTime 51000) 1 (MyBbrSender demo_lib 3 100000 300000 500000) = Some s' \<and> mode s' \<noteq> START_UP \<and>
     100000 \<le> pacing_rate s'"
  using bbr_ack_pacing [of demo_lib "[]" "QuicTime 51000" 1 3 100000 300000 500000 "MyBbrSender demo_lib 3 100000 300000 500000"]
  by (auto simp: demo_lib_def MyBbrSender_def not_less)

text \<open>
  C28: PROBE_RTT ends. An acknowledgement of a packet above the last one, more than 200 ms after every earlier event, finds or puts the sender
  back in PROBE_BW if it was in PROBE_RTT, with no bandwidth sample needed.
\<close>

theorem bbr_leaves_probe_rtt:
  assumes ev: "bbr_events 0 (es @ [Acked now n])" and len: "length es < 2 ^ 60"
    and run: "bbr_run lib es (MyBbrSender lib rnd mn start mx) = Some s" and new: "last_ack_seq s < n"
    and mode: "mode s = PROBE_RTT" and late: "\<And>e. e \<in> set es \<Longrightarrow> time_us (event_time e) + 200000 < time_us now"
  shows "\<exists>s'. OnAck lib now n s = Some s' \<and> mode s' = PROBE_BW"
proof -
  let ?T = "time_us now - 200001"
  from bbr_reach_OnAck [OF ev len run] obtain s' where s': "OnAck lib now n s = Some s'" by blast
  have t: "0 < time_us (event_time e) \<and> time_us (event_time e) \<le> ?T" if "e \<in> set es" for e
    using reach_times [OF bbr_events_prefix [OF ev] that] late [OF that] by auto
  from bbr_run_frame [OF run t new_sender_probe_ok(1)] have "probe_ok ?T s" by blast
  with mode have exit: "exit_probe_rtt_at s \<noteq> Time_Zero" "exit_probe_rtt_at s < now" by (auto simp: probe_ok_def less_QuicTime_def)
  from OnAck_parts [OF s' new] obtain s1 s2 e s3 where p: "UpdateRtt now n (s\<lparr>last_ack_seq := n\<rparr>) = Some s1"
    "(if mode s1 = START_UP then EnterProbeBandwidthMode lib now s1 else Some s1) = Some s2"
    "MaybeEnterOrExitProbeRtt lib now (now > e) s2 = Some s3" "control s' = control (CalculatePacingRate lib s3)" by metis
  from UpdateRtt_frame [OF p(1)] mode exit have s1: "mode s1 = PROBE_RTT" "exit_probe_rtt_at s1 \<noteq> Time_Zero" "exit_probe_rtt_at s1 < now" by auto
  with p(2) have "s2 = s1" by simp
  with p(3) s1 have "EnterProbeBandwidthMode lib now (s1\<lparr>recored_min_rtt := Delta_Zero\<rparr>) = Some s3"
    by (simp add: MaybeEnterOrExit_split probe_rtt_def)
  then have "mode s3 = PROBE_BW" using Enter_frame by blast
  with p(4) s' Calculate_frame(1) [of lib s3] show ?thesis by (auto simp: control_defs)
qed

text \<open>A path with a constant round-trip time of 300 ms: the second sample, ten seconds later, does not renew the first.\<close>

definition slow_path :: "bbr_event list" where
  "slow_path = [Sent (QuicTime 1000) 1 1200, Acked (QuicTime 301000) 1, Sent (QuicTime 10100000) 2 1200, Sent (QuicTime 10350000) 3 1200,
     Sent (QuicTime 10380000) 4 1200, Acked (QuicTime 10400000) 2, Sent (QuicTime 10500000) 5 1200]"

lemmas bbr_eval = OnPacketSent_def AddSeqAndTimestamp_def UpdateGainCyclePhase_def AddPacketInfoSampler_def new_cluster_def SetPrev_def SetNext_def
  set_cluster_def cluster_OnPacketSent_def SentClusterInfo_new_def OnAck_def UpdateRtt_def EnterProbeBandwidthMode_def set_gain_def
  kGainCycleLength_def kPacingGain_def MaybeEnterOrExitProbeRtt_def ClusterInfoClear_def delete_cluster_def HasSampledLastMinRtt_def
  CalculatePacingRate_def BandwidthEstimate_def ack_cluster_def cluster_OnAck_def TriggerBandwidthEstimate_def update_average_def
  kAverageAckRateWindowSize_def kMinRttExpiry_def kProbeRttTime_def map_erase_def time_plus_def time_diff_def i64_def Time_Zero_def Delta_Zero_def
  less_Delta_def less_QuicTime_def Let_def

lemma slow_path_probes:
  obtains s where "bbr_run demo_lib slow_path (MyBbrSender demo_lib 3 100000 300000 500000) = Some s" "mode s = PROBE_RTT" "last_ack_seq s = 2"
    "seq_ts_map s = [(5, QuicTime 10500000)]" "exit_probe_rtt_at s = QuicTime 10600000" "min_rtt_timestamp s = QuicTime 301000"
proof -
  have "case bbr_run demo_lib slow_path (MyBbrSender demo_lib 3 100000 300000 500000) of None \<Rightarrow> False
      | Some s \<Rightarrow> mode s = PROBE_RTT \<and> last_ack_seq s = 2 \<and> seq_ts_map s = [(5, QuicTime 10500000)] \<and> exit_probe_rtt_at s = QuicTime 10600000 \<and>
          min_rtt_timestamp s = QuicTime 301000"
    by (simp add: bbr_eval slow_path_def demo_lib_def MyBbrSender_def) (simp add: word_le_nat_alt)
  then show ?thesis by (auto intro: that split: option.splits)
qed

theorem bbr_leaves_probe_rtt_witness:
  "\<exists>s s'. bbr_run demo_lib slow_path (MyBbrSender demo_lib 3 100000 300000 500000) = Some s \<and> mode s = PROBE_RTT \<and>
     OnAck demo_lib (QuicTime 10750000) 3 s = Some s' \<and> mode s' = PROBE_BW"
proof -
  obtain s where s: "bbr_run demo_lib slow_path (MyBbrSender demo_lib 3 100000 300000 500000) = Some s" "mode s = PROBE_RTT" "last_ack_seq s = 2"
    by (rule slow_path_probes)
  have "\<exists>s'. OnAck demo_lib (QuicTime 10750000) 3 s = Some s' \<and> mode s' = PROBE_BW"
    by (rule bbr_leaves_probe_rtt [OF _ _ s(1) _ s(2)]) (auto simp: slow_path_def s(3))
  with s show ?thesis by blast
qed

section \<open>PROBE_RTT again and again\<close>

lemma bbr_run_append: "bbr_run lib (es @ es') s = Option.bind (bbr_run lib es s) (bbr_run lib es')"
  by (induction es arbitrary: s) (auto simp: bind_assoc split: Option.bind_split)

definition unsent_before :: "u64 \<Rightarrow> ('b, 'f, 'r) bbr \<Rightarrow> bool" where
  "unsent_before n s \<longleftrightarrow> (\<forall>k \<in> fst ` set (seq_ts_map s). n < k)"

lemma UpdateRtt_unknown:
  assumes "unsent_before n s"
  shows "UpdateRtt now n s = Some s"
proof -
  have "map_of (seq_ts_map s) n = None" using assms by (auto simp: unsent_before_def map_of_eq_None_iff)
  moreover have "dropWhile (\<lambda>(k, _). k \<le> n) (seq_ts_map s) = seq_ts_map s" using assms by (cases "seq_ts_map s") (auto simp: unsent_before_def)
  ultimately show ?thesis by (simp add: UpdateRtt_def)
qed

lemma sends_frame:
  assumes "bbr_run lib es s = Some s'" and "\<And>e. e \<in> set es \<Longrightarrow> \<exists>t m b. e = Sent t m b \<and> n < m" and "unsent_before n s"
  shows "mode s' = mode s \<and> min_bps s' = min_bps s \<and> last_ack_seq s' = last_ack_seq s \<and> min_rtt_timestamp s' = min_rtt_timestamp s \<and> unsent_before n s'"
  using assms
proof (induction es arbitrary: s)
  case (Cons e es)
  from Cons.prems(2) [of e] obtain t m b where e: "e = Sent t m b" "n < m" by auto
  with Cons.prems(1) obtain s1 where s1: "OnPacketSent lib t m b s = Some s1" "bbr_run lib es s1 = Some s'" by (auto elim!: bind_SomeE)
  from OnPacketSent_frame [OF s1(1)] Cons.prems(3) e have "unsent_before n s1" by (auto simp: unsent_before_def map_insert_keys)
  with Cons.IH [OF s1(2)] Cons.prems(2) OnPacketSent_frame [OF s1(1)] show ?case by simp
qed simp

lemma unknown_ack_leaves:
  assumes "OnAck lib now n s = Some s'" and "last_ack_seq s < n" and "unsent_before n s" and "mode s = PROBE_RTT"
    and "exit_probe_rtt_at s \<noteq> Time_Zero" and "exit_probe_rtt_at s < now"
  shows "mode s' = PROBE_BW \<and> last_ack_seq s' = n \<and> min_rtt_timestamp s' = min_rtt_timestamp s \<and> seq_ts_map s' = seq_ts_map s \<and> min_bps s' = min_bps s"
proof -
  from OnAck_parts [OF assms(1,2)] obtain s1 s2 e s3 where p: "UpdateRtt now n (s\<lparr>last_ack_seq := n\<rparr>) = Some s1"
    "(if mode s1 = START_UP then EnterProbeBandwidthMode lib now s1 else Some s1) = Some s2"
    "MaybeEnterOrExitProbeRtt lib now (now > e) s2 = Some s3" "control s' = control (CalculatePacingRate lib s3)" by metis
  have "s1 = s\<lparr>last_ack_seq := n\<rparr>" using p(1) UpdateRtt_unknown [of n "s\<lparr>last_ack_seq := n\<rparr>" now] assms(3) by (simp add: unsent_before_def)
  with p(2) assms(4) have s2: "s2 = s\<lparr>last_ack_seq := n\<rparr>" by simp
  with p(3) assms(4-6) have "EnterProbeBandwidthMode lib now (s2\<lparr>recored_min_rtt := Delta_Zero\<rparr>) = Some s3"
    by (simp add: MaybeEnterOrExit_split probe_rtt_def)
  from Enter_frame [OF this] s2 have "mode s3 = PROBE_BW" "kept s3 = kept (s\<lparr>last_ack_seq := n\<rparr>)" by (auto simp: kept_def)
  with p(4) Calculate_frame [of lib s3] show ?thesis by (simp add: control_defs)
qed

lemma unknown_ack_enters:
  assumes r: "ready s bnd l k" and now: "time_ok now" and n: "last_ack_seq s < n" and no: "unsent_before n s" and mode: "mode s = PROBE_BW"
    and old: "time_us (min_rtt_timestamp s) + 10000000 < time_us now"
  shows "\<exists>s'. OnAck lib now n s = Some s' \<and> mode s' = PROBE_RTT \<and> seq_ts_map s' = [] \<and> connection_info s' = [] \<and> seq_round_map s' = [] \<and>
     min_rtt s' = Delta_Zero \<and> min_rtt_timestamp s' = min_rtt_timestamp s \<and> pacing_rate s' = FromBitsPerSecond lib (min_bps s) \<and>
     exit_probe_rtt_at s' = QuicTime (time_us now + 200000) \<and> last_ack_seq s' = n"
proof -
  let ?s = "s\<lparr>last_ack_seq := n\<rparr>"
  have "ready ?s bnd l k" using r by (simp add: ready_def times_ok_def)
  from enter_probe_rtt_ready [OF this, of lib] obtain s1 where s1: "ClusterInfoClear lib (?s\<lparr>mode := PROBE_RTT, pacing_gain := 1,
      exit_probe_rtt_at := Time_Zero, round_trip_count := 0, recored_min_rtt := min_rtt ?s, min_rtt := Delta_Zero, seq_ts_map := []\<rparr>) = Some s1"
    "last_ack_seq s1 = n" "mode s1 = PROBE_RTT" "exit_probe_rtt_at s1 = Time_Zero" "min_rtt s1 = Delta_Zero" "connection_info s1 = []"
    "seq_round_map s1 = []" "acked_clusters s1 = []" "min_bps s1 = min_bps s" "seq_ts_map s1 = []" "min_rtt_timestamp s1 = min_rtt_timestamp s"
    by auto
  have i: "i64 (time_us (min_rtt_timestamp s) + 10000000) = Some (time_us (min_rtt_timestamp s) + 10000000)"
    "i64 (time_us now + 200000) = Some (time_us now + 200000)"
    using r now by (auto intro!: i64_in simp: ready_def times_ok_def time_ok_def)
  then have e: "time_plus (min_rtt_timestamp ?s) kMinRttExpiry = Some (QuicTime (time_us (min_rtt_timestamp s) + 10000000))"
    by (simp add: time_plus_def kMinRttExpiry_def)
  have plus: "time_plus now kProbeRttTime = Some (QuicTime (time_us now + 200000))" using i(2) by (simp add: time_plus_def kProbeRttTime_def)
  let ?s3 = "s1\<lparr>exit_probe_rtt_at := QuicTime (time_us now + 200000)\<rparr>"
  have "probe_rtt lib now s1 = Some ?s3"
    using s1(3-5) plus by (simp add: probe_rtt_def HasSampledLastMinRtt_def less_QuicTime_def)
  then have m: "MaybeEnterOrExitProbeRtt lib now (now > QuicTime (time_us (min_rtt_timestamp s) + 10000000)) ?s = Some ?s3"
    using s1(1) old mode by (simp add: MaybeEnterOrExit_split less_QuicTime_def)
  let ?s4 = "?s3\<lparr>pacing_rate := FromBitsPerSecond lib (min_bps s)\<rparr>"
  have "CalculatePacingRate lib ?s3 = ?s4" using s1(3,9) by (simp add: CalculatePacingRate_def Let_def)
  moreover have "ack_cluster lib now n ?s4 = Some ?s4" using s1(7) by (simp add: ack_cluster_def)
  moreover have "update_average lib ?s4 = Some ?s4" using s1(8) by (simp add: update_average_def Let_def kAverageAckRateWindowSize_def)
  moreover have "UpdateRtt now n ?s = Some ?s" using no by (intro UpdateRtt_unknown) (simp add: unsent_before_def)
  ultimately have "OnAck lib now n s = Some ?s4" using n mode e m by (simp add: OnAck_def)
  then show ?thesis using s1 by simp
qed

text \<open>
  PROBE_RTT is entered again at once. If PROBE_RTT ends by time, no round-trip sample having arrived, and the next acknowledgement is
  again of a packet sent before PROBE_RTT began, then that acknowledgement starts PROBE_RTT anew: all send times and clusters are forgotten,
  those of the packets just sent too, and the rate is the minimum again. The state is as it was, so with round trips longer than the 200 ms of
  PROBE_RTT the sender never gets a sample again.
\<close>

theorem bbr_restarts_probe_rtt:
  assumes ev: "bbr_events 0 (es @ Acked t n # xs @ [Acked t' n'])" and len: "length es + length xs < 2 ^ 58"
    and run: "bbr_run lib es (MyBbrSender lib rnd mn start mx) = Some s" and mode: "mode s = PROBE_RTT"
    and n: "last_ack_seq s < n" "n < n'" and old: "unsent_before n' s" and sends: "\<And>e. e \<in> set xs \<Longrightarrow> \<exists>u m b. e = Sent u m b \<and> n' < m"
    and exit: "exit_probe_rtt_at s < t" and expired: "time_us (min_rtt_timestamp s) + 10000000 < time_us t'"
  shows "\<exists>s'. bbr_run lib (es @ Acked t n # xs @ [Acked t' n']) (MyBbrSender lib rnd mn start mx) = Some s' \<and> mode s' = PROBE_RTT \<and>
     seq_ts_map s' = [] \<and> connection_info s' = [] \<and> seq_round_map s' = [] \<and> min_rtt s' = Delta_Zero \<and>
     min_rtt_timestamp s' = min_rtt_timestamp s \<and> pacing_rate s' = FromBitsPerSecond lib mn \<and>
     exit_probe_rtt_at s' = QuicTime (time_us t' + 200000) \<and> last_ack_seq s' = n'"
proof -
  let ?init = "MyBbrSender lib rnd mn start mx"
  have prefix: "bbr_events 0 ((es @ Acked t n # xs) @ [Acked t' n'])" "bbr_events 0 (es @ [Acked t n])" "bbr_events 0 es"
    using ev bbr_events_prefix [of 0 "es @ [Acked t n]" "xs @ [Acked t' n']"] bbr_events_prefix [of 0 es] by simp_all
  have "probe_ok (2 ^ 58) s \<and> min_bps s = mn"
    using bbr_run_frame [OF run reach_times [OF prefix(3)] new_sender_probe_ok(1)] by (simp add: new_sender_probe_ok)
  with mode have s: "exit_probe_rtt_at s \<noteq> Time_Zero" "min_bps s = mn" by (auto simp: probe_ok_def)
  from bbr_reach_OnAck [OF prefix(2) _ run] len obtain s1 where s1: "OnAck lib t n s = Some s1" by auto
  have "unsent_before n s" using old n(2) by (force simp: unsent_before_def)
  from unknown_ack_leaves [OF s1 n(1) this mode s(1) exit]
  have f1: "mode s1 = PROBE_BW" "last_ack_seq s1 = n" "min_rtt_timestamp s1 = min_rtt_timestamp s" "unsent_before n' s1" "min_bps s1 = mn"
    using old s(2) by (auto simp: unsent_before_def)
  have "ready ?init 0 (last_ack_seq ?init) 0" by (rule new_sender_ready)
  from bbr_run_ready [OF prefix(1) this, of lib] len obtain s2 bnd k where
    s2: "bbr_run lib (es @ Acked t n # xs) ?init = Some s2" "ready s2 bnd (last_ack_seq s2) k" "bbr_events bnd [Acked t' n']"
    by force
  then have "bbr_run lib xs s1 = Some s2" using run s1 by (simp add: bbr_run_append)
  from sends_frame [OF this sends f1(4)] f1 have f2: "mode s2 = PROBE_BW" "last_ack_seq s2 = n" "min_rtt_timestamp s2 = min_rtt_timestamp s"
    "unsent_before n' s2" "min_bps s2 = mn" by auto
  have "time_ok t'" using s2(3) by (simp add: time_ok_def)
  from unknown_ack_enters [OF s2(2) this _ f2(4,1), of lib] f2 n expired obtain s' where
    s': "OnAck lib t' n' s2 = Some s'" "mode s' = PROBE_RTT" "seq_ts_map s' = []" "connection_info s' = []" "seq_round_map s' = []"
      "min_rtt s' = Delta_Zero" "min_rtt_timestamp s' = min_rtt_timestamp s" "pacing_rate s' = FromBitsPerSecond lib mn"
      "exit_probe_rtt_at s' = QuicTime (time_us t' + 200000)" "last_ack_seq s' = n'" by auto
  moreover have "bbr_run lib (es @ Acked t n # xs @ [Acked t' n']) ?init = Some s'"
    using bbr_run_append [of lib "es @ Acked t n # xs" "[Acked t' n']" ?init] s2(1) s'(1) by simp
  ultimately show ?thesis by blast
qed

theorem bbr_restarts_probe_rtt_witness:
  "\<exists>s'. bbr_run demo_lib (slow_path @ Acked (QuicTime 10650000) 3 # [Sent (QuicTime 10660000) 6 1200] @ [Acked (QuicTime 10680000) 4])
       (MyBbrSender demo_lib 3 100000 300000 500000) = Some s' \<and>
     mode s' = PROBE_RTT \<and> seq_ts_map s' = [] \<and> pacing_rate s' = 100000"
proof -
  obtain s where s: "bbr_run demo_lib slow_path (MyBbrSender demo_lib 3 100000 300000 500000) = Some s" "mode s = PROBE_RTT" "last_ack_seq s = 2"
    "seq_ts_map s = [(5, QuicTime 10500000)]" "exit_probe_rtt_at s = QuicTime 10600000" "min_rtt_timestamp s = QuicTime 301000"
    by (rule slow_path_probes)
  have "FromBitsPerSecond demo_lib 100000 = 100000" by (simp add: demo_lib_def)
  moreover have "unsent_before 4 s" by (simp add: unsent_before_def s(4))
  ultimately show ?thesis
    using bbr_restarts_probe_rtt [where es = slow_path and t = "QuicTime 10650000" and n = 3 and xs = "[Sent (QuicTime 10660000) 6 1200]"
        and t' = "QuicTime 10680000" and n' = 4, OF _ _ s(1,2)] s(3,5,6)
    by (auto simp: slow_path_def less_QuicTime_def)
qed

section \<open>The pacer\<close>

text \<open>
  Packets sent only when \<open>TimeUntilSend\<close> is zero, with acknowledgements between them at any time; the result collects the transfer times of the
  packets at the rate of the moment.
\<close>

fun paced :: "('b, 'f, 'r) bbr_lib \<Rightarrow> bbr_event list \<Rightarrow> pacing \<Rightarrow> ('b, 'f, 'r) bbr \<Rightarrow> (pacing \<times> ('b, 'f, 'r) bbr \<times> int list) option" where
  "paced lib [] p s = Some (p, s, [])"
| "paced lib (Sent now n b # es) p s =
     (if TimeUntilSend now p = Some Delta_Zero
      then case Pacing_OnPacketSent lib now n b (p, Some s) of
        Some (p, Some s) \<Rightarrow> map_option (\<lambda>(p', s', ds). (p', s', time_offset (TransferTime lib (PaceRate s) b) # ds)) (paced lib es p s)
      | _ \<Rightarrow> None
      else None)"
| "paced lib (Acked now n # es) p s =
     (case OnCongestionEvent lib now n (p, Some s) of Some (p, Some s) \<Rightarrow> paced lib es p s | _ \<Rightarrow> None)"

lemma i64_D: "i64 x = Some y \<Longrightarrow> y = x"
  by (simp add: i64_def split: if_splits)

lemma Pacing_step:
  assumes "Pacing_OnPacketSent lib now n b (p, Some s) = Some (p', s')"
  obtains s1 where "s' = Some s1" "OnPacketSent lib now n b s = Some s1" "alarm_granularity p' = alarm_granularity p"
    "time_us (ideal_next_packet_send_time p) + time_offset (TransferTime lib (PaceRate s1) b) \<le> time_us (ideal_next_packet_send_time p')"
    "time_us now + time_offset (TransferTime lib (PaceRate s1) b) \<le> time_us (ideal_next_packet_send_time p')"
proof -
  from assms obtain s1 t1 t2 where "OnPacketSent lib now n b s = Some s1" "s' = Some s1"
    "time_plus (ideal_next_packet_send_time p) (TransferTime lib (PaceRate s1) b) = Some t1" "time_plus now (TransferTime lib (PaceRate s1) b) = Some t2"
    "p' = p\<lparr>ideal_next_packet_send_time := max t1 t2\<rparr>"
    unfolding Pacing_OnPacketSent_def Let_def by (auto elim!: bind_SomeE)
  then show ?thesis by (intro that) (auto simp: time_plus_def max_def less_eq_QuicTime_def less_QuicTime_def dest!: i64_D)
qed

lemma paced_ideal:
  assumes "paced lib es p s = Some (p', s', ds)"
  shows "time_us (ideal_next_packet_send_time p) + sum_list ds \<le> time_us (ideal_next_packet_send_time p') \<and>
     alarm_granularity p' = alarm_granularity p"
  using assms
proof (induction es arbitrary: p s ds)
  case (Cons e es)
  show ?case
  proof (cases e)
    case (Sent now n b)
    with Cons.prems obtain p1 s1 ds1 where 1: "Pacing_OnPacketSent lib now n b (p, Some s) = Some (p1, Some s1)" "paced lib es p1 s1 = Some (p', s', ds1)"
      "ds = time_offset (TransferTime lib (PaceRate s1) b) # ds1" by (auto split: if_splits option.splits)
    from 1(1) have "time_us (ideal_next_packet_send_time p) + time_offset (TransferTime lib (PaceRate s1) b) \<le> time_us (ideal_next_packet_send_time p1)"
      "alarm_granularity p1 = alarm_granularity p" by (auto elim: Pacing_step)
    with Cons.IH [OF 1(2)] 1(3) show ?thesis by simp
  next
    case (Acked now n)
    with Cons.prems obtain s1 where "paced lib es p s1 = Some (p', s', ds)" by (auto simp: OnCongestionEvent_def split: option.splits)
    then show ?thesis by (rule Cons.IH)
  qed
qed simp

lemma paced_append:
  "paced lib (xs @ ys) p s = (case paced lib xs p s of None \<Rightarrow> None
     | Some (p1, s1, ds) \<Rightarrow> map_option (\<lambda>(p', s', ds'). (p', s', ds @ ds')) (paced lib ys p1 s1))"
proof (induction xs arbitrary: p s)
  case Nil
  show ?case by (cases "paced lib ys p s") auto
next
  case (Cons e xs)
  show ?case by (cases e) (auto simp: Cons.IH option.map_comp comp_def split_def split: option.splits)
qed

lemma paced_length:
  "paced lib es p s = Some (p', s', ds) \<Longrightarrow> length ds = length (filter (\<lambda>e. case e of Sent _ _ _ \<Rightarrow> True | Acked _ _ \<Rightarrow> False) es)"
  by (induction lib es p s arbitrary: ds rule: paced.induct) (auto split: if_splits option.splits)

lemma TimeUntilSend_zero:
  assumes "TimeUntilSend now p = Some Delta_Zero" and "0 \<le> time_offset (alarm_granularity p)"
  shows "time_us (ideal_next_packet_send_time p) \<le> time_us now + time_offset (alarm_granularity p)"
  using assms unfolding TimeUntilSend_def
  by (elim bind_SomeE if_SomeE) (auto simp: time_plus_def time_diff_def less_QuicTime_def Delta_Zero_def dest!: i64_D)

text \<open>
  C35: the pacer's promise. When packets are sent only at times the pacer allows, whatever is acknowledged between them and whatever was sent
  before, then from any packet to any later one no more was sent than the pacing rates allow: the transfer times of all these packets but the last,
  each at the rate when it was sent, fit in the time from first to last and one alarm granularity of 1 ms.
\<close>

theorem pacing_bound:
  assumes "paced lib (Sent t n b # es @ [Sent t' n' b']) p s = Some (p', s', ds)" and "alarm_granularity p = alarm_granularity MyPacingSender"
  shows "sum_list (butlast ds) \<le> time_us t' - time_us t + 1000 \<and> length ds = length (filter (\<lambda>e. case e of Sent _ _ _ \<Rightarrow> True | Acked _ _ \<Rightarrow> False) es) + 2 \<and>
     alarm_granularity p' = alarm_granularity p"
proof -
  from assms obtain p1 s1 ds1 where 1: "Pacing_OnPacketSent lib t n b (p, Some s) = Some (p1, Some s1)"
    "paced lib (es @ [Sent t' n' b']) p1 s1 = Some (p', s', ds1)" "ds = time_offset (TransferTime lib (PaceRate s1) b) # ds1"
    by (auto split: if_splits option.splits)
  from 1(2) obtain p2 s2 ds2 d where 2: "paced lib es p1 s1 = Some (p2, s2, ds2)" "ds1 = ds2 @ [d]" "TimeUntilSend t' p2 = Some Delta_Zero"
    by (auto simp: paced_append split: option.splits if_splits)
  have first: "time_us t + time_offset (TransferTime lib (PaceRate s1) b) \<le> time_us (ideal_next_packet_send_time p1)" "alarm_granularity p1 = Delta 1000"
    using 1(1) assms(2) by (auto elim!: Pacing_step simp: MyPacingSender_def)
  moreover have "time_us (ideal_next_packet_send_time p1) + sum_list ds2 \<le> time_us (ideal_next_packet_send_time p2)" "alarm_granularity p2 = Delta 1000"
    using paced_ideal [OF 2(1)] first(2) by simp_all
  moreover from this have "time_us (ideal_next_packet_send_time p2) \<le> time_us t' + 1000" using TimeUntilSend_zero [OF 2(3)] by simp
  ultimately show ?thesis using 1(3) 2(2) paced_length [OF 2(1)] paced_ideal [OF assms(1)] by simp
qed

theorem pacing_bound_witness:
  "\<exists>p s ds. paced demo_lib (Sent (QuicTime 1000) 1 1200 # [Acked (QuicTime 20000) 1] @ [Sent (QuicTime 32500) 2 1200]) MyPacingSender
       (MyBbrSender demo_lib 3 100000 300000 500000) = Some (p, s, ds) \<and> ds = [32000, 96000] \<and> sum_list (butlast ds) \<le> 32500"
proof -
  have "\<exists>p s. paced demo_lib (Sent (QuicTime 1000) 1 1200 # [Acked (QuicTime 20000) 1] @ [Sent (QuicTime 32500) 2 1200]) MyPacingSender
       (MyBbrSender demo_lib 3 100000 300000 500000) = Some (p, s, [32000, 96000])"
    by (simp add: bbr_eval TimeUntilSend_def Pacing_OnPacketSent_def OnCongestionEvent_def MyPacingSender_def MyBbrSender_def demo_lib_def PaceRate_def max_def
        less_eq_QuicTime_def)
  then show ?thesis using pacing_bound [where lib = demo_lib] by fastforce
qed

end
