(* ===== verification/Bin_Stream.thy ===== *)
theory Bin_Stream
  imports Prelude "HOL-Library.Monad_Syntax"
begin

text \<open>
  \<^verbatim>\<open>razor/cf_stream.{h,c}\<close>: the growable byte stream every message of the simulation protocol is
  written to and read from. The model keeps the struct's seven fields, the pointers as offsets into
  the allocation, and the static byte-order flag of the file. An operation that would touch memory
  outside the allocation, fail an \<open>assert\<close> or never return is \<open>None\<close>.

  After the operations come the two invariants (a stream that can be read, a stream that can be
  written), the abstraction of a stream to its bytes, the two judgements \<open>writes\<close> and \<open>reads\<close>
  with their composition rules, and the interface \<open>field_codec\<close> that the scalar writers and
  readers implement.
\<close>

section \<open>The machine: byte order, the static flag, the allocator\<close>

record machine =
  host_big :: bool
  big_endian :: int
  alloc_ok :: "nat \<Rightarrow> bool"
  junk :: "nat \<Rightarrow> u8"

text \<open>
  \<open>malloc\<close> may refuse a request and leaves fresh bytes unspecified; \<open>realloc\<close> keeps the common
  prefix and is an allocation on a null pointer. \<open>data = None\<close> stands for a null or freed pointer
  (a freed stream has size 0, so no operation hands a freed pointer to \<open>realloc\<close>). \<open>native_bytes\<close> is a store of an integer through a pointer of its own width.
\<close>

definition malloc :: "machine \<Rightarrow> nat \<Rightarrow> bytes option" where
  "malloc m n = (if alloc_ok m n then Some (map (junk m) [0..<n]) else None)"

definition realloc :: "machine \<Rightarrow> bytes option \<Rightarrow> nat \<Rightarrow> bytes option" where
  "realloc m old n =
     (case old of
        None \<Rightarrow> malloc m n
      | Some d \<Rightarrow> if alloc_ok m n then Some (take n d @ map (junk m) [length d..<n]) else None)"

definition native_bytes :: "machine \<Rightarrow> nat \<Rightarrow> 'a::len word \<Rightarrow> bytes" where
  "native_bytes m n v = (if host_big m then be_bytes n v else rev (be_bytes n v))"

definition native_word :: "machine \<Rightarrow> bytes \<Rightarrow> 'a::len word" where
  "native_word m bs = (if host_big m then be_word bs else be_word (rev bs))"

section \<open>The stream and its administration\<close>

definition DEFAULT_PACKET_SIZE :: nat where
  "DEFAULT_PACKET_SIZE = 1024"

definition BIN_STREAM_MAGIC :: u64 where
  "BIN_STREAM_MAGIC = 0x019ef8f09867cda6"

definition READ_DATA_ERROR :: u16 where
  "READ_DATA_ERROR = 0xffff"

record bin_stream =
  data :: "bytes option"
  ssize :: nat
  rptr :: nat
  rsize :: nat
  wptr :: nat
  used :: nat
  magic :: u64

definition bin_stream_init :: "machine \<Rightarrow> bin_stream \<Rightarrow> machine \<times> int \<times> bin_stream" where
  "bin_stream_init m strm =
     (let m1 = (if big_endian m = -1
                then m\<lparr>big_endian := (if hd (native_bytes m 2 (0x0100 :: u16)) = 0x01 then 1 else 0)\<rparr>
                else m);
          s1 = strm\<lparr>ssize := DEFAULT_PACKET_SIZE, data := malloc m1 DEFAULT_PACKET_SIZE\<rparr>
      in if data s1 = None then (m1, -1, s1)
         else (m1, 0, s1\<lparr>rptr := 0, wptr := 0, rsize := 0, used := 0, magic := 0\<rparr>))"

definition bin_stream_destroy :: "bin_stream option \<Rightarrow> bin_stream option" where
  "bin_stream_destroy ptr =
     map_option (\<lambda>strm. strm\<lparr>data := None, ssize := 0, rptr := 0, rsize := 0, wptr := 0, used := 0\<rparr>) ptr"

definition bin_stream_rewind :: "bin_stream \<Rightarrow> int \<Rightarrow> bin_stream" where
  "bin_stream_rewind strm reset =
     (let s1 = (if reset = 1 then strm\<lparr>wptr := 0, used := 0\<rparr> else strm)
      in s1\<lparr>rptr := 0, rsize := 0\<rparr>)"

definition bin_stream_reduce :: "machine \<Rightarrow> bin_stream \<Rightarrow> bin_stream" where
  "bin_stream_reduce m strm =
     (if ssize strm > DEFAULT_PACKET_SIZE * 2
      then strm\<lparr>data := realloc m (data strm) DEFAULT_PACKET_SIZE,
                rptr := 0, wptr := 0, ssize := DEFAULT_PACKET_SIZE, rsize := 0, used := 0\<rparr>
      else strm)"

definition bin_stream_reset :: "machine \<Rightarrow> bin_stream \<Rightarrow> int \<Rightarrow> bin_stream" where
  "bin_stream_reset m strm flag =
     (let s1 = (if flag = 1 then strm\<lparr>magic := BIN_STREAM_MAGIC\<rparr> else strm\<lparr>magic := 0\<rparr>)
      in bin_stream_reduce m (bin_stream_rewind s1 1))"

definition bin_stream_check :: "bin_stream \<Rightarrow> int" where
  "bin_stream_check strm = (if magic strm = BIN_STREAM_MAGIC then 0 else -1)"

text \<open>The result is the \<open>size_t\<close> difference converted to a 32-bit \<open>int\<close>; the assertion failing is \<open>None\<close>.\<close>

definition bin_stream_available_read :: "bin_stream \<Rightarrow> int option" where
  "bin_stream_available_read strm =
     (if rsize strm \<le> used strm then Some (sint (of_nat (used strm - rsize strm) :: u32)) else None)"

text \<open>The doubling loop of \<open>bin_stream_resize\<close>: \<open>None\<close> is a loop that does not return.\<close>

partial_function (option) grow :: "nat \<Rightarrow> nat \<Rightarrow> nat option" where
  "grow new_size alloc_size =
     (if new_size > alloc_size then grow new_size ((alloc_size * 2) mod size_max) else Some alloc_size)"

definition bin_stream_resize :: "machine \<Rightarrow> bin_stream \<Rightarrow> nat \<Rightarrow> bin_stream option" where
  "bin_stream_resize m strm new_size =
     (if new_size \<le> ssize strm then Some strm
      else do {
        alloc_size \<leftarrow> grow new_size (ssize strm);
        Some (strm\<lparr>data := realloc m (data strm) alloc_size,
                   ssize := alloc_size, wptr := used strm, rptr := rsize strm\<rparr>)
      })"

definition RESIZE :: "machine \<Rightarrow> bin_stream \<Rightarrow> nat \<Rightarrow> bin_stream option" where
  "RESIZE m strm s =
     (if ssize strm < size_add (used strm) s then bin_stream_resize m strm (size_add (used strm) s)
      else Some strm)"

definition bin_stream_set_used_size :: "bin_stream \<Rightarrow> nat \<Rightarrow> bin_stream" where
  "bin_stream_set_used_size strm u = strm\<lparr>used := u\<rparr>"

text \<open>The moved length passes through a \<open>uint32_t\<close>.\<close>

definition bin_stream_move :: "bin_stream \<Rightarrow> bin_stream option" where
  "bin_stream_move strm =
     (let s1 = (if used strm = rsize strm \<and> rsize strm > 0
                then strm\<lparr>rptr := 0, wptr := 0, used := 0, rsize := 0\<rparr> else strm)
      in if used s1 > rsize s1 \<and> rsize s1 > ssize s1 div 2 \<and> size_add (used s1) 256 \<ge> ssize s1
         then (let sz = unat (of_nat (used s1 - rsize s1) :: u32)
               in do {
                 d \<leftarrow> data s1;
                 bs \<leftarrow> peek d (rptr s1) sz;
                 d' \<leftarrow> poke d 0 bs;
                 Some (s1\<lparr>data := Some d', wptr := sz, rptr := 0, rsize := 0, used := sz\<rparr>)
               })
         else Some s1)"

section \<open>Integers in network order\<close>

definition mach_put_2 :: "machine \<Rightarrow> u16 \<Rightarrow> bytes" where
  "mach_put_2 m val =
     (if big_endian m \<noteq> 0 then native_bytes m 2 val
      else [ucast (drop_bit 8 val), ucast val])"

definition mach_get_2 :: "machine \<Rightarrow> bytes \<Rightarrow> u16" where
  "mach_get_2 m ptr =
     (if big_endian m \<noteq> 0 then native_word m (take 2 ptr)
      else push_bit 8 (ucast (ptr ! 0)) + ucast (ptr ! 1))"

definition mach_put_4 :: "machine \<Rightarrow> u32 \<Rightarrow> bytes" where
  "mach_put_4 m val =
     (if big_endian m \<noteq> 0 then native_bytes m 4 val
      else [ucast (drop_bit 24 val), ucast (drop_bit 16 val), ucast (drop_bit 8 val), ucast val])"

definition mach_get_4 :: "machine \<Rightarrow> bytes \<Rightarrow> u32" where
  "mach_get_4 m ptr =
     (if big_endian m \<noteq> 0 then native_word m (take 4 ptr)
      else push_bit 24 (ucast (ptr ! 0)) + push_bit 16 (ucast (ptr ! 1)) + push_bit 8 (ucast (ptr ! 2))
           + ucast (ptr ! 3))"

definition mach_put_8 :: "machine \<Rightarrow> u64 \<Rightarrow> bytes" where
  "mach_put_8 m val =
     (if big_endian m \<noteq> 0 then native_bytes m 8 val
      else [ucast (drop_bit 56 val), ucast (drop_bit 48 val), ucast (drop_bit 40 val),
            ucast (drop_bit 32 val), ucast (drop_bit 24 val), ucast (drop_bit 16 val),
            ucast (drop_bit 8 val), ucast val])"

definition mach_get_8 :: "machine \<Rightarrow> bytes \<Rightarrow> u64" where
  "mach_get_8 m ptr =
     (if big_endian m \<noteq> 0 then native_word m (take 8 ptr)
      else push_bit 56 (ucast (ptr ! 0)) + push_bit 48 (ucast (ptr ! 1)) + push_bit 40 (ucast (ptr ! 2))
           + push_bit 32 (ucast (ptr ! 3)) + push_bit 24 (ucast (ptr ! 4)) + push_bit 16 (ucast (ptr ! 5))
           + push_bit 8 (ucast (ptr ! 6)) + ucast (ptr ! 7))"

section \<open>Writers and readers\<close>

text \<open>
  \<open>store_at_wptr\<close> is the common tail of every writer (store the bytes at \<open>wptr\<close>, advance
  \<open>wptr\<close> and \<open>used\<close>), \<open>fetch_at_rptr\<close> that of every reader.
\<close>

definition store_at_wptr :: "bin_stream \<Rightarrow> bytes \<Rightarrow> bin_stream option" where
  "store_at_wptr strm bs = do {
     d \<leftarrow> data strm;
     d' \<leftarrow> poke d (wptr strm) bs;
     Some (strm\<lparr>data := Some d', wptr := wptr strm + length bs, used := size_add (used strm) (length bs)\<rparr>)
   }"

definition fetch_at_rptr :: "bin_stream \<Rightarrow> nat \<Rightarrow> (bytes \<times> bin_stream) option" where
  "fetch_at_rptr strm n = do {
     d \<leftarrow> data strm;
     bs \<leftarrow> peek d (rptr strm) n;
     Some (bs, strm\<lparr>rptr := rptr strm + n, rsize := size_add (rsize strm) n\<rparr>)
   }"

definition mach_uint8_write :: "machine \<Rightarrow> bin_stream \<Rightarrow> u8 \<Rightarrow> bin_stream option" where
  "mach_uint8_write m strm val = do { s \<leftarrow> RESIZE m strm 1; store_at_wptr s [val] }"

definition mach_uint8_read :: "machine \<Rightarrow> bin_stream \<Rightarrow> (u8 \<times> bin_stream) option" where
  "mach_uint8_read m strm =
     (if used strm < size_add (rsize strm) 1 then Some (0, strm)
      else do { (bs, s) \<leftarrow> fetch_at_rptr strm 1; Some (bs ! 0, s) })"

definition mach_int8_write :: "machine \<Rightarrow> bin_stream \<Rightarrow> u8 \<Rightarrow> bin_stream option" where
  "mach_int8_write m strm val = do { s \<leftarrow> RESIZE m strm 1; store_at_wptr s [val] }"

definition mach_int8_read :: "machine \<Rightarrow> bin_stream \<Rightarrow> (u8 \<times> bin_stream) option" where
  "mach_int8_read m strm =
     (if used strm < size_add (rsize strm) 1 then Some (0, strm)
      else do { (bs, s) \<leftarrow> fetch_at_rptr strm 1; Some (bs ! 0, s) })"

definition mach_uint16_write :: "machine \<Rightarrow> bin_stream \<Rightarrow> u16 \<Rightarrow> bin_stream option" where
  "mach_uint16_write m strm val = do { s \<leftarrow> RESIZE m strm 2; store_at_wptr s (mach_put_2 m val) }"

definition mach_uint16_read :: "machine \<Rightarrow> bin_stream \<Rightarrow> (u16 \<times> bin_stream) option" where
  "mach_uint16_read m strm =
     (if used strm < size_add (rsize strm) 2 then Some (0, strm)
      else do { (bs, s) \<leftarrow> fetch_at_rptr strm 2; Some (mach_get_2 m bs, s) })"

definition mach_int16_write :: "machine \<Rightarrow> bin_stream \<Rightarrow> u16 \<Rightarrow> bin_stream option" where
  "mach_int16_write m strm val = do { s \<leftarrow> RESIZE m strm 2; store_at_wptr s (mach_put_2 m val) }"

definition mach_int16_read :: "machine \<Rightarrow> bin_stream \<Rightarrow> (u16 \<times> bin_stream) option" where
  "mach_int16_read m strm =
     (if used strm < size_add (rsize strm) 2 then Some (0, strm)
      else do { (bs, s) \<leftarrow> fetch_at_rptr strm 2; Some (mach_get_2 m bs, s) })"

definition mach_uint32_write :: "machine \<Rightarrow> bin_stream \<Rightarrow> u32 \<Rightarrow> bin_stream option" where
  "mach_uint32_write m strm val = do { s \<leftarrow> RESIZE m strm 4; store_at_wptr s (mach_put_4 m val) }"

definition mach_uint32_read :: "machine \<Rightarrow> bin_stream \<Rightarrow> (u32 \<times> bin_stream) option" where
  "mach_uint32_read m strm =
     (if used strm < size_add (rsize strm) 4 then Some (0, strm)
      else do { (bs, s) \<leftarrow> fetch_at_rptr strm 4; Some (mach_get_4 m bs, s) })"

definition mach_int32_write :: "machine \<Rightarrow> bin_stream \<Rightarrow> u32 \<Rightarrow> bin_stream option" where
  "mach_int32_write m strm val = do { s \<leftarrow> RESIZE m strm 4; store_at_wptr s (mach_put_4 m val) }"

definition mach_int32_read :: "machine \<Rightarrow> bin_stream \<Rightarrow> (u32 \<times> bin_stream) option" where
  "mach_int32_read m strm =
     (if used strm < size_add (rsize strm) 4 then Some (0, strm)
      else do { (bs, s) \<leftarrow> fetch_at_rptr strm 4; Some (mach_get_4 m bs, s) })"

definition mach_uint64_write :: "machine \<Rightarrow> bin_stream \<Rightarrow> u64 \<Rightarrow> bin_stream option" where
  "mach_uint64_write m strm val = do { s \<leftarrow> RESIZE m strm 8; store_at_wptr s (mach_put_8 m val) }"

definition mach_uint64_read :: "machine \<Rightarrow> bin_stream \<Rightarrow> (u64 \<times> bin_stream) option" where
  "mach_uint64_read m strm =
     (if used strm < size_add (rsize strm) 8 then Some (0, strm)
      else do { (bs, s) \<leftarrow> fetch_at_rptr strm 8; Some (mach_get_8 m bs, s) })"

definition mach_int64_write :: "machine \<Rightarrow> bin_stream \<Rightarrow> u64 \<Rightarrow> bin_stream option" where
  "mach_int64_write m strm val = do { s \<leftarrow> RESIZE m strm 8; store_at_wptr s (mach_put_8 m val) }"

definition mach_int64_read :: "machine \<Rightarrow> bin_stream \<Rightarrow> (u64 \<times> bin_stream) option" where
  "mach_int64_read m strm =
     (if used strm < size_add (rsize strm) 8 then Some (0, strm)
      else do { (bs, s) \<leftarrow> fetch_at_rptr strm 8; Some (mach_get_8 m bs, s) })"

text \<open>
  Length-prefixed data and raw blocks. The caller's array is an argument: reading past its end when
  writing, or overrunning it when reading, is \<open>None\<close>. A reader returns the updated array.
\<close>

definition mach_data_write :: "machine \<Rightarrow> bin_stream \<Rightarrow> bytes \<Rightarrow> nat \<Rightarrow> bin_stream option" where
  "mach_data_write m strm str n = do {
     s \<leftarrow> RESIZE m strm (size_add n 2);
     s \<leftarrow> mach_uint16_write m s (of_nat n);
     bs \<leftarrow> peek str 0 n;
     store_at_wptr s bs
   }"

definition mach_data_read ::
  "machine \<Rightarrow> bin_stream \<Rightarrow> bytes \<Rightarrow> nat \<Rightarrow> ((u16 \<times> bytes) \<times> bin_stream) option" where
  "mach_data_read m strm str n = do {
     (len, s) \<leftarrow> mach_uint16_read m strm;
     if unat len > n \<or> size_add (rsize s) (unat len) > used s then Some ((READ_DATA_ERROR, str), s)
     else do {
       (bs, s) \<leftarrow> fetch_at_rptr s (unat len);
       str' \<leftarrow> poke str 0 bs;
       Some ((len, str'), s)
     }
   }"

definition mach_block_write :: "machine \<Rightarrow> bin_stream \<Rightarrow> bytes \<Rightarrow> nat \<Rightarrow> bin_stream option" where
  "mach_block_write m strm str n = do {
     s \<leftarrow> RESIZE m strm n;
     bs \<leftarrow> peek str 0 n;
     store_at_wptr s bs
   }"

definition mach_block_read ::
  "machine \<Rightarrow> bin_stream \<Rightarrow> bytes \<Rightarrow> nat \<Rightarrow> ((u16 \<times> bytes) \<times> bin_stream) option" where
  "mach_block_read m strm str n =
     (if size_add (rsize strm) n > used strm then Some ((READ_DATA_ERROR, str), strm)
      else do {
        (bs, s) \<leftarrow> fetch_at_rptr strm n;
        str' \<leftarrow> poke str 0 bs;
        Some ((of_nat n, str'), s)
      })"

section \<open>Invariants, abstraction, judgements\<close>

definition stream_limit :: nat where
  "stream_limit = 2 ^ 62"

text \<open>A stream whose bytes can be read, and one that can also be appended to.\<close>

definition stream_r :: "bin_stream \<Rightarrow> bool" where
  "stream_r s \<longleftrightarrow>
     (\<exists>d. data s = Some d \<and> length d = ssize s) \<and> rptr s = rsize s \<and> rsize s \<le> used s \<and>
     used s \<le> ssize s \<and> ssize s \<le> 2 ^ 63"

definition stream_w :: "bin_stream \<Rightarrow> bool" where
  "stream_w s \<longleftrightarrow> stream_r s \<and> wptr s = used s \<and> 0 < ssize s"

definition contents :: "bin_stream \<Rightarrow> bytes" where
  "contents s = (case data s of None \<Rightarrow> [] | Some d \<Rightarrow> take (used s) d)"

definition unread :: "bin_stream \<Rightarrow> bytes" where
  "unread s = drop (rsize s) (contents s)"

text \<open>
  A ready machine has run \<open>bin_stream_init\<close>, so the flag agrees with the byte order, and its
  allocator does not fail.
\<close>

definition machine_ready :: "machine \<Rightarrow> bool" where
  "machine_ready m \<longleftrightarrow> big_endian m = (if host_big m then 1 else 0) \<and> (\<forall>n. alloc_ok m n)"

definition appended :: "bin_stream \<Rightarrow> bin_stream \<Rightarrow> bytes \<Rightarrow> bool" where
  "appended s s' bs \<longleftrightarrow>
     stream_w s' \<and> contents s' = contents s @ bs \<and> used s' = used s + length bs \<and> rsize s' = rsize s"

text \<open>A read moves the two read positions together, forward and within the used part, and nothing else.\<close>

definition read_upto :: "bin_stream \<Rightarrow> bin_stream \<Rightarrow> bool" where
  "read_upto s s' \<longleftrightarrow> rsize s \<le> rsize s' \<and> rsize s' \<le> used s \<and> s' = s\<lparr>rptr := rsize s', rsize := rsize s'\<rparr>"

definition consumed :: "bin_stream \<Rightarrow> bin_stream \<Rightarrow> bytes \<Rightarrow> bool" where
  "consumed s s' rest \<longleftrightarrow> read_upto s s' \<and> unread s' = rest"

definition writes :: "(machine \<Rightarrow> bin_stream \<Rightarrow> bin_stream option) \<Rightarrow> bytes \<Rightarrow> bool" where
  "writes f bs \<longleftrightarrow>
     (\<forall>m s. machine_ready m \<longrightarrow> stream_w s \<longrightarrow> used s + length bs \<le> stream_limit \<longrightarrow>
        (\<exists>s'. f m s = Some s' \<and> appended s s' bs))"

definition reads :: "(machine \<Rightarrow> bin_stream \<Rightarrow> ('a \<times> bin_stream) option) \<Rightarrow> bytes \<Rightarrow> 'a \<Rightarrow> bool" where
  "reads g bs v \<longleftrightarrow>
     (\<forall>m s rest. machine_ready m \<longrightarrow> stream_r s \<longrightarrow> unread s = bs @ rest \<longrightarrow>
        (\<exists>s'. g m s = Some (v, s') \<and> consumed s s' rest))"

lemma writesD:
  "writes f bs \<Longrightarrow> machine_ready m \<Longrightarrow> stream_w s \<Longrightarrow> used s + length bs \<le> stream_limit \<Longrightarrow>
     \<exists>s'. f m s = Some s' \<and> appended s s' bs"
  by (simp add: writes_def)

lemma readsD:
  "reads g bs v \<Longrightarrow> machine_ready m \<Longrightarrow> stream_r s \<Longrightarrow> unread s = bs @ rest \<Longrightarrow>
     \<exists>s'. g m s = Some (v, s') \<and> consumed s s' rest"
  by (simp add: reads_def)

named_theorems stream_intros \<open>composition rules of the judgements\<close>

lemma appended_trans: "appended s s1 xs \<Longrightarrow> appended s1 s2 ys \<Longrightarrow> appended s s2 (xs @ ys)"
  by (simp add: appended_def)

lemma writes_bind [stream_intros]:
  assumes "writes f xs" and "writes g ys"
  shows "writes (\<lambda>m s. Option.bind (f m s) (g m)) (xs @ ys)"
  unfolding writes_def
proof (intro allI impI)
  fix m s
  assume m: "machine_ready m" and s: "stream_w s" and room: "used s + length (xs @ ys) \<le> stream_limit"
  from assms(1) m s room obtain s1 where s1: "f m s = Some s1" "appended s s1 xs"
    by (fastforce simp: writes_def)
  then have "stream_w s1" and "used s1 + length ys \<le> stream_limit"
    using room by (simp_all add: appended_def)
  with assms(2) m obtain s2 where "g m s1 = Some s2" "appended s1 s2 ys"
    by (fastforce simp: writes_def)
  with s1 show "\<exists>s'. Option.bind (f m s) (g m) = Some s' \<and> appended s s' (xs @ ys)"
    by (auto intro: appended_trans)
qed

lemma read_uptoD:
  assumes "read_upto s s'"
  shows "data s' = data s" "ssize s' = ssize s" "wptr s' = wptr s" "used s' = used s" "magic s' = magic s"
    "rptr s' = rsize s'" "rsize s \<le> rsize s'" "rsize s' \<le> used s"
proof -
  from assms have s': "s' = s\<lparr>rptr := rsize s', rsize := rsize s'\<rparr>"
    and le: "rsize s \<le> rsize s'" "rsize s' \<le> used s" by (auto simp: read_upto_def)
  show "data s' = data s" "ssize s' = ssize s" "wptr s' = wptr s" "used s' = used s" "magic s' = magic s"
    "rptr s' = rsize s'" by (subst s', simp)+
  show "rsize s \<le> rsize s'" "rsize s' \<le> used s" by (fact le)+
qed

lemma read_upto_refl: "stream_r s \<Longrightarrow> read_upto s s"
  by (simp add: read_upto_def stream_r_def)

lemma read_upto_trans:
  assumes 1: "read_upto s s1" and 2: "read_upto s1 s2"
  shows "read_upto s s2"
proof -
  note d = read_uptoD [OF 1] read_uptoD [OF 2]
  have "s2 = s\<lparr>rptr := rsize s2, rsize := rsize s2\<rparr>"
    by (rule bin_stream.equality) (simp_all add: d)
  moreover have "rsize s \<le> rsize s2" "rsize s2 \<le> used s"
    using le_trans [OF d(7) d(15)] d(16) d(4) by simp_all
  ultimately show ?thesis by (simp add: read_upto_def)
qed

lemma read_upto_contents:
  assumes "read_upto s s'"
  shows "contents s' = contents s"
  unfolding contents_def read_uptoD(1,4) [OF assms] ..

lemma read_upto_r:
  assumes "read_upto s s'" and "stream_r s"
  shows "stream_r s'"
  using assms(2) read_uptoD(7,8) [OF assms(1)]
  unfolding stream_r_def read_uptoD(1-6) [OF assms(1)] by simp

lemma read_upto_w:
  assumes "read_upto s s'" and "stream_w s"
  shows "stream_w s'"
  using assms(2) read_upto_r [OF assms(1)]
  unfolding stream_w_def read_uptoD(1-6) [OF assms(1)] by simp

lemma consumed_trans: "consumed s s1 xs \<Longrightarrow> consumed s1 s2 ys \<Longrightarrow> consumed s s2 ys"
  by (auto simp: consumed_def dest: read_upto_trans)

lemma reads_bind [stream_intros]:
  assumes "reads g xs v" and "reads (h v) ys w"
  shows "reads (\<lambda>m s. Option.bind (g m s) (\<lambda>(x, s'). h x m s')) (xs @ ys) w"
  unfolding reads_def
proof (intro allI impI)
  fix m s rest
  assume m: "machine_ready m" and s: "stream_r s" and u: "unread s = (xs @ ys) @ rest"
  from u have "unread s = xs @ (ys @ rest)" by simp
  from assms(1) [unfolded reads_def, rule_format, OF m s this]
  obtain s1 where s1: "g m s = Some (v, s1)" "consumed s s1 (ys @ rest)" by blast
  then have "stream_r s1" and "unread s1 = ys @ rest" using s by (auto simp: consumed_def dest: read_upto_r)
  from assms(2) [unfolded reads_def, rule_format, OF m this]
  obtain s2 where "h v m s1 = Some (w, s2)" "consumed s1 s2 rest" by blast
  with s1 show "\<exists>s'. Option.bind (g m s) (\<lambda>(x, s'). h x m s') = Some (w, s') \<and> consumed s s' rest"
    by (auto intro: consumed_trans)
qed

lemma writes_if [stream_intros]:
  "(c \<Longrightarrow> writes f xs) \<Longrightarrow> (\<not> c \<Longrightarrow> writes g ys) \<Longrightarrow>
     writes (\<lambda>m s. if c then f m s else g m s) (if c then xs else ys)"
  by (cases c) simp_all

lemma writes_none [stream_intros]: "writes (\<lambda>m s. Some s) []"
  by (simp add: writes_def appended_def)

lemma reads_value: "v = w \<Longrightarrow> reads (\<lambda>m s. Some (v, s)) [] w"
  by (simp add: reads_def consumed_def read_upto_refl)

lemma reads_return [stream_intros]: "reads (\<lambda>m s. Some (v, s)) [] v"
  by (simp add: reads_def consumed_def read_upto_refl)

lemma reads_map [stream_intros]:
  "reads g xs v \<Longrightarrow> reads (\<lambda>m s. Option.bind (g m s) (\<lambda>(x, s'). Some (k x, s'))) xs (k v)"
  using reads_bind [where h = "\<lambda>x m s. Some (k x, s)" and ys = "[]"] reads_return by fastforce

section \<open>The doubling loop\<close>

lemma grow_stop: "new \<le> a \<Longrightarrow> grow new a = Some a"
  by (subst grow.simps) simp

lemma grow_returns:
  "0 < a \<Longrightarrow> a \<le> 2 ^ 63 \<Longrightarrow> new \<le> 2 ^ 62 \<Longrightarrow>
     \<exists>b. grow new a = Some b \<and> new \<le> b \<and> a \<le> b \<and> b \<le> 2 ^ 63"
proof (induction "new - a" arbitrary: a rule: less_induct)
  case less
  show ?case
  proof (cases "new > a")
    case True
    with less.prems have "a * 2 \<le> 2 ^ 63" and "a * 2 < size_max" by (auto simp: size_max_def)
    moreover from this have "grow new a = grow new (a * 2)" using True by (subst grow.simps) simp
    ultimately show ?thesis using less.hyps [of "a * 2"] less.prems True by fastforce
  next
    case False
    with less.prems show ?thesis by (auto simp: grow_stop)
  qed
qed

text \<open>On an allocation of size 0 (a destroyed stream) the loop never returns.\<close>

lemma grow_zero: "0 < new \<Longrightarrow> grow new 0 = None"
proof (rule ccontr)
  assume "0 < new" and "grow new 0 \<noteq> None"
  then obtain b where "grow new 0 = Some b" by blast
  then have "0 < new \<longrightarrow> (0::nat) \<noteq> 0"
    by (rule grow.raw_induct [where P = "\<lambda>n a b. 0 < n \<longrightarrow> a \<noteq> 0", rotated])
      (fastforce split: if_splits)
  with \<open>0 < new\<close> show False by simp
qed

section \<open>Integers in network order, for every host\<close>

lemma be_bytes_unfold [be_simps]:
  "be_bytes 2 v = [ucast (drop_bit 8 v), ucast v]"
  "be_bytes 4 w = [ucast (drop_bit 24 w), ucast (drop_bit 16 w), ucast (drop_bit 8 w), ucast w]"
  "be_bytes 8 x = [ucast (drop_bit 56 x), ucast (drop_bit 48 x), ucast (drop_bit 40 x), ucast (drop_bit 32 x),
     ucast (drop_bit 24 x), ucast (drop_bit 16 x), ucast (drop_bit 8 x), ucast x]"
  by (simp_all add: eval_nat_numeral)

lemma be_word_unfold:
  "be_word [a, b] = (push_bit 8 (ucast a) + ucast b :: 'a::len word)"
  "be_word [a, b, c, d] = (push_bit 24 (ucast a) + push_bit 16 (ucast b) + push_bit 8 (ucast c) + ucast d :: 'a word)"
  "be_word [a, b, c, d, e, f, g, h] =
     (push_bit 56 (ucast a) + push_bit 48 (ucast b) + push_bit 40 (ucast c) + push_bit 32 (ucast d) +
      push_bit 24 (ucast e) + push_bit 16 (ucast f) + push_bit 8 (ucast g) + ucast h :: 'a word)"
  by (simp_all add: be_word_def push_bit_add)

lemma native_ready:
  "machine_ready m \<Longrightarrow> big_endian m \<noteq> 0 \<Longrightarrow> native_bytes m n v = be_bytes n v"
  "machine_ready m \<Longrightarrow> big_endian m \<noteq> 0 \<Longrightarrow> native_word m bs = be_word bs"
  by (auto simp: machine_ready_def native_bytes_def native_word_def split: if_splits)

lemma mach_put_be:
  assumes "machine_ready m"
  shows "mach_put_2 m v = be_bytes 2 v" and "mach_put_4 m w = be_bytes 4 w" and "mach_put_8 m x = be_bytes 8 x"
  by (simp_all add: mach_put_2_def mach_put_4_def mach_put_8_def native_ready [OF assms] be_bytes_unfold)

lemma mach_get_word:
  assumes "machine_ready m"
  shows "length ps = 2 \<Longrightarrow> mach_get_2 m ps = be_word ps"
    and "length ps = 4 \<Longrightarrow> mach_get_4 m ps = be_word ps"
    and "length ps = 8 \<Longrightarrow> mach_get_8 m ps = be_word ps"
  by (auto simp: mach_get_2_def mach_get_4_def mach_get_8_def native_ready [OF assms] eval_nat_numeral
      length_Suc_conv be_word_unfold)

lemma mach_get_be:
  assumes "machine_ready m"
  shows "mach_get_2 m (be_bytes 2 v) = v" and "mach_get_4 m (be_bytes 4 w) = w"
    and "mach_get_8 m (be_bytes 8 x) = x"
  by (simp_all add: mach_get_word [OF assms] be_word_bytes_full)

section \<open>Growing, storing, fetching\<close>

lemma stream_r_data: "stream_r s \<Longrightarrow> \<exists>d. data s = Some d \<and> length d = ssize s"
  by (simp add: stream_r_def)

lemma unread_length: "stream_r s \<Longrightarrow> length (unread s) = used s - rsize s"
  by (auto simp: stream_r_def unread_def contents_def)

lemma realloc_grow:
  "\<forall>n. alloc_ok m n \<Longrightarrow> length d \<le> n \<Longrightarrow> \<exists>d'. realloc m (Some d) n = Some d' \<and> length d' = n \<and> take (length d) d' = d"
  by (simp add: realloc_def)

lemma RESIZE_ok:
  assumes "machine_ready m" and s: "stream_w s" and room: "used s + n \<le> stream_limit"
  shows "\<exists>s'. RESIZE m s n = Some s' \<and> stream_w s' \<and> contents s' = contents s \<and> used s' = used s \<and>
            rsize s' = rsize s \<and> used s + n \<le> ssize s'"
proof (cases "ssize s < used s + n")
  case False
  with room s show ?thesis
    by (auto simp: RESIZE_def size_simps size_max_def stream_limit_def)
next
  case True
  from s obtain d where d: "data s = Some d" "length d = ssize s" and sz: "0 < ssize s" "ssize s \<le> 2 ^ 63"
      "used s \<le> ssize s"
    by (auto simp: stream_w_def stream_r_def)
  have add: "size_add (used s) n = used s + n"
    using room by (simp add: size_simps size_max_def stream_limit_def)
  from grow_returns [OF sz(1,2), of "used s + n"] room obtain b
    where b: "grow (used s + n) (ssize s) = Some b" "used s + n \<le> b" "ssize s \<le> b" "b \<le> 2 ^ 63"
    by (auto simp: stream_limit_def)
  obtain d' where d': "realloc m (Some d) b = Some d'" "length d' = b" "take (length d) d' = d"
    using realloc_grow [of m d b] assms(1) b d by (auto simp: machine_ready_def)
  have "take (used s) d' = take (used s) d"
    using d'(3) sz(3) d(2) by (metis min.absorb1 take_take)
  then show ?thesis
    using s True b d d' by (auto simp: RESIZE_def add bin_stream_resize_def stream_w_def stream_r_def contents_def)
qed

lemma store_ok:
  assumes s: "stream_w s" and room: "used s + length bs \<le> ssize s"
  shows "\<exists>s'. store_at_wptr s bs = Some s' \<and> appended s s' bs"
proof -
  from s obtain d where d: "data s = Some d" "length d = ssize s" and sz: "ssize s \<le> 2 ^ 63" "wptr s = used s"
    by (auto simp: stream_w_def stream_r_def)
  have add: "size_add (used s) (length bs) = used s + length bs"
    using room sz by (simp add: size_simps size_max_def)
  show ?thesis
    using s room d
    by (auto simp: store_at_wptr_def add sz poke_in appended_def contents_def stream_w_def stream_r_def)
qed

lemma put_writes:
  assumes "\<And>m. machine_ready m \<Longrightarrow> enc m = bs" and "length bs = n"
  shows "writes (\<lambda>m s. Option.bind (RESIZE m s n) (\<lambda>s. store_at_wptr s (enc m))) bs"
  unfolding writes_def
proof (intro allI impI)
  fix m s
  assume m: "machine_ready m" and s: "stream_w s" and room: "used s + length bs \<le> stream_limit"
  from RESIZE_ok [OF m s, of n] room assms(2) obtain s1 where s1: "RESIZE m s n = Some s1"
    "stream_w s1" "contents s1 = contents s" "used s1 = used s" "rsize s1 = rsize s" "used s + n \<le> ssize s1"
    by auto
  from store_ok [OF s1(2), of bs] s1 assms(2) obtain s2 where "store_at_wptr s1 bs = Some s2" "appended s1 s2 bs"
    by auto
  with s1 show "\<exists>s'. Option.bind (RESIZE m s n) (\<lambda>s. store_at_wptr s (enc m)) = Some s' \<and> appended s s' bs"
    by (auto simp: assms(1) [OF m] appended_def)
qed

lemma fetch_ok:
  assumes s: "stream_r s" and u: "unread s = bs @ rest"
  shows "\<exists>s'. fetch_at_rptr s (length bs) = Some (bs, s') \<and> consumed s s' rest"
proof -
  from s obtain d where d: "data s = Some d" "length d = ssize s" and sz: "ssize s \<le> 2 ^ 63" "rptr s = rsize s"
      "rsize s \<le> used s" "used s \<le> ssize s"
    by (auto simp: stream_r_def)
  have len: "rsize s + length bs \<le> used s" using unread_length [OF s] u sz by simp
  then have add: "size_add (rsize s) (length bs) = rsize s + length bs"
    using sz by (simp add: size_simps size_max_def)
  have split: "drop (rsize s) (take (used s) d) = bs @ rest" using u d by (simp add: unread_def contents_def)
  then have bs: "take (length bs) (drop (rsize s) d) = bs" by (rule take_drop_split)
  have "drop (length bs) (drop (rsize s) (take (used s) d)) = rest" by (simp add: split)
  then have rest: "drop (rsize s + length bs) (take (used s) d) = rest" by (simp add: add.commute)
  show ?thesis
    using d sz len bs rest
    by (auto simp: fetch_at_rptr_def add peek_in consumed_def read_upto_def contents_def unread_def)
qed

lemma get_reads:
  assumes "\<And>m. machine_ready m \<Longrightarrow> dec m bs = v" and "length bs = n"
  shows "reads (\<lambda>m s. if used s < size_add (rsize s) n then Some (z, s)
                      else Option.bind (fetch_at_rptr s n) (\<lambda>(ps, s). Some (dec m ps, s))) bs v"
  unfolding reads_def
proof (intro allI impI)
  fix m s rest
  assume m: "machine_ready m" and s: "stream_r s" and u: "unread s = bs @ rest"
  have le: "rsize s + n \<le> used s" using unread_length [OF s] u assms(2) s by (auto simp: stream_r_def)
  with s have "size_add (rsize s) n = rsize s + n"
    by (auto simp: size_simps size_max_def stream_r_def)
  moreover from fetch_ok [OF s u] assms(2) obtain s' where "fetch_at_rptr s n = Some (bs, s')" "consumed s s' rest"
    by auto
  ultimately show "\<exists>s'. (if used s < size_add (rsize s) n then Some (z, s)
      else Option.bind (fetch_at_rptr s n) (\<lambda>(ps, s). Some (dec m ps, s))) = Some (v, s') \<and> consumed s s' rest"
    using le by (auto simp: assms(1) [OF m])
qed

section \<open>Reads that cannot fail\<close>

definition safe_read :: "(machine \<Rightarrow> bin_stream \<Rightarrow> ('a \<times> bin_stream) option) \<Rightarrow> bool" where
  "safe_read g \<longleftrightarrow>
     (\<forall>m s. machine_ready m \<longrightarrow> stream_r s \<longrightarrow>
        (\<exists>v s'. g m s = Some (v, s') \<and> read_upto s s'))"

lemma safe_readD:
  "safe_read g \<Longrightarrow> machine_ready m \<Longrightarrow> stream_r s \<Longrightarrow> \<exists>v s'. g m s = Some (v, s') \<and> read_upto s s'"
  by (simp add: safe_read_def)

lemma safe_read_bind [stream_intros]:
  assumes "safe_read g" and "\<And>x. safe_read (h x)"
  shows "safe_read (\<lambda>m s. Option.bind (g m s) (\<lambda>(x, s'). h x m s'))"
  unfolding safe_read_def
proof (intro allI impI)
  fix m s
  assume m: "machine_ready m" and s: "stream_r s"
  from safe_readD [OF assms(1) m s] obtain v s1 where 1: "g m s = Some (v, s1)" "read_upto s s1" by blast
  from safe_readD [OF assms(2) m read_upto_r [OF 1(2) s]] obtain w s2 where
    "h v m s1 = Some (w, s2)" "read_upto s1 s2" by blast
  with 1 show "\<exists>v s'. Option.bind (g m s) (\<lambda>(x, s'). h x m s') = Some (v, s') \<and> read_upto s s'"
    by (auto dest: read_upto_trans)
qed

lemma safe_read_return [stream_intros]: "safe_read (\<lambda>m s. Some (v, s))"
  by (simp add: safe_read_def read_upto_refl)

lemma safe_read_if [stream_intros]:
  "safe_read g \<Longrightarrow> safe_read h \<Longrightarrow> safe_read (\<lambda>m s. if c then g m s else h m s)"
  by (cases c) simp_all

lemma fetch_safe:
  assumes s: "stream_r s" and le: "rsize s + n \<le> used s"
  shows "\<exists>bs s'. fetch_at_rptr s n = Some (bs, s') \<and> length bs = n \<and> read_upto s s'"
proof -
  have "length (take n (unread s)) = n" using unread_length [OF s] le by simp
  with fetch_ok [OF s, of "take n (unread s)" "drop n (unread s)"] show ?thesis
    by (auto simp: consumed_def)
qed

lemma get_safe:
  "safe_read (\<lambda>m s. if used s < size_add (rsize s) n then Some (z, s)
                    else Option.bind (fetch_at_rptr s n) (\<lambda>(ps, s). Some (dec m ps, s)))" if "n \<le> 8"
  unfolding safe_read_def
proof (intro allI impI)
  fix m s
  assume "machine_ready m" and s: "stream_r s"
  have add: "size_add (rsize s) n = rsize s + n"
    using s that by (auto simp: size_simps size_max_def stream_r_def)
  show "\<exists>v s'. (if used s < size_add (rsize s) n then Some (z, s)
      else Option.bind (fetch_at_rptr s n) (\<lambda>(ps, s). Some (dec m ps, s))) = Some (v, s') \<and> read_upto s s'"
  proof (cases "used s < rsize s + n")
    case True
    with s show ?thesis by (simp add: add read_upto_refl)
  next
    case False
    with fetch_safe [OF s, of n] show ?thesis by (auto simp: add)
  qed
qed

section \<open>The interface of a scalar field\<close>

text \<open>
  What the protocol relies on for every fixed-width field: writing appends the field's bytes, reading
  takes them back off the front, a read of a stream that is too short gives the default and moves
  nothing, and no read leaves the buffer.
\<close>

locale field_codec =
  fixes put :: "machine \<Rightarrow> bin_stream \<Rightarrow> 'a \<Rightarrow> bin_stream option"
    and get :: "machine \<Rightarrow> bin_stream \<Rightarrow> ('a \<times> bin_stream) option"
    and enc :: "'a \<Rightarrow> bytes"
    and width :: nat
    and default :: 'a
  assumes put_enc: "writes (\<lambda>m s. put m s v) (enc v)"
    and get_enc: "reads get (enc v) v"
    and enc_width: "length (enc v) = width"
    and get_short: "stream_r s \<Longrightarrow> length (unread s) < width \<Longrightarrow> get m s = Some (default, s)"
    and get_safely: "safe_read get"
begin

lemma put_get:
  assumes m: "machine_ready m" and s: "stream_w s" and all_read: "unread s = []"
    and room: "used s + width \<le> stream_limit"
  shows "\<exists>s1 s2. put m s v = Some s1 \<and> get m s1 = Some (v, s2) \<and> contents s2 = contents s @ enc v \<and> unread s2 = []"
proof -
  from put_enc [of v] m s room obtain s1 where s1: "put m s v = Some s1" "appended s s1 (enc v)"
    by (auto simp: writes_def enc_width)
  from s have r: "stream_r s" by (simp add: stream_w_def)
  then have "used s = rsize s" using all_read unread_length [OF r] by (simp add: stream_r_def)
  then have "unread s1 = enc v @ []"
    using s1(2) s by (auto simp: unread_def appended_def contents_def stream_w_def stream_r_def)
  moreover have "stream_r s1" using s1(2) by (simp add: appended_def stream_w_def)
  ultimately obtain s2 where "get m s1 = Some (v, s2)" "consumed s1 s2 []"
    using get_enc [of v] m unfolding reads_def by blast
  with s1 show ?thesis by (auto simp: appended_def consumed_def dest: read_upto_contents)
qed

text \<open>Two fields in a row: what the second read sees does not depend on the first value.\<close>

lemma get_bind: "reads (h v) ys w \<Longrightarrow> reads (\<lambda>m s. Option.bind (get m s) (\<lambda>(x, s'). h x m s')) (enc v @ ys) w"
  by (rule reads_bind [OF get_enc])

lemma put_bind: "writes g ys \<Longrightarrow> writes (\<lambda>m s. Option.bind (put m s v) (g m)) (enc v @ ys)"
  by (rule writes_bind [OF put_enc])

lemma get_bind_safe: "(\<And>x. safe_read (h x)) \<Longrightarrow> safe_read (\<lambda>m s. Option.bind (get m s) (\<lambda>(x, s'). h x m s'))"
  by (rule safe_read_bind [OF get_safely])

end

lemma short_read:
  "stream_r s \<Longrightarrow> length (unread s) < n \<Longrightarrow> n \<le> 8 \<Longrightarrow> used s < size_add (rsize s) n"
  using unread_length [of s] by (auto simp: size_simps size_max_def stream_r_def)

interpretation cu8: field_codec mach_uint8_write mach_uint8_read "\<lambda>v. [v]" 1 0
proof
  show "writes (\<lambda>m s. mach_uint8_write m s v) [v]" for v
    unfolding mach_uint8_write_def by (rule put_writes) simp_all
  show "reads mach_uint8_read [v] v" for v
    unfolding mach_uint8_read_def [abs_def] by (rule get_reads) simp_all
  show "safe_read mach_uint8_read" unfolding mach_uint8_read_def [abs_def] by (rule get_safe) simp
qed (use short_read in \<open>auto simp: mach_uint8_read_def\<close>)

interpretation ci8: field_codec mach_int8_write mach_int8_read "\<lambda>v. [v]" 1 0
  using cu8.field_codec_axioms unfolding mach_int8_write_def [abs_def] mach_int8_read_def [abs_def]
    mach_uint8_write_def [abs_def] mach_uint8_read_def [abs_def] .

interpretation cu16: field_codec mach_uint16_write mach_uint16_read "be_bytes 2" 2 0
proof
  show "writes (\<lambda>m s. mach_uint16_write m s v) (be_bytes 2 v)" for v
    unfolding mach_uint16_write_def by (rule put_writes) (simp_all add: mach_put_be)
  show "reads mach_uint16_read (be_bytes 2 v) v" for v
    unfolding mach_uint16_read_def [abs_def] by (rule get_reads) (simp_all add: mach_get_be)
  show "safe_read mach_uint16_read" unfolding mach_uint16_read_def [abs_def] by (rule get_safe) simp
qed (use short_read in \<open>auto simp: mach_uint16_read_def\<close>)

interpretation ci16: field_codec mach_int16_write mach_int16_read "be_bytes 2" 2 0
  using cu16.field_codec_axioms unfolding mach_int16_write_def [abs_def] mach_int16_read_def [abs_def]
    mach_uint16_write_def [abs_def] mach_uint16_read_def [abs_def] .

interpretation cu32: field_codec mach_uint32_write mach_uint32_read "be_bytes 4" 4 0
proof
  show "writes (\<lambda>m s. mach_uint32_write m s v) (be_bytes 4 v)" for v
    unfolding mach_uint32_write_def by (rule put_writes) (simp_all add: mach_put_be)
  show "reads mach_uint32_read (be_bytes 4 v) v" for v
    unfolding mach_uint32_read_def [abs_def] by (rule get_reads) (simp_all add: mach_get_be)
  show "safe_read mach_uint32_read" unfolding mach_uint32_read_def [abs_def] by (rule get_safe) simp
qed (use short_read in \<open>auto simp: mach_uint32_read_def\<close>)

interpretation ci32: field_codec mach_int32_write mach_int32_read "be_bytes 4" 4 0
  using cu32.field_codec_axioms unfolding mach_int32_write_def [abs_def] mach_int32_read_def [abs_def]
    mach_uint32_write_def [abs_def] mach_uint32_read_def [abs_def] .

interpretation cu64: field_codec mach_uint64_write mach_uint64_read "be_bytes 8" 8 0
proof
  show "writes (\<lambda>m s. mach_uint64_write m s v) (be_bytes 8 v)" for v
    unfolding mach_uint64_write_def by (rule put_writes) (simp_all add: mach_put_be)
  show "reads mach_uint64_read (be_bytes 8 v) v" for v
    unfolding mach_uint64_read_def [abs_def] by (rule get_reads) (simp_all add: mach_get_be)
  show "safe_read mach_uint64_read" unfolding mach_uint64_read_def [abs_def] by (rule get_safe) simp
qed (use short_read in \<open>auto simp: mach_uint64_read_def\<close>)

interpretation ci64: field_codec mach_int64_write mach_int64_read "be_bytes 8" 8 0
  using cu64.field_codec_axioms unfolding mach_int64_write_def [abs_def] mach_int64_read_def [abs_def]
    mach_uint64_write_def [abs_def] mach_uint64_read_def [abs_def] .

section \<open>Length-prefixed data and blocks\<close>

lemma store_ssize: "store_at_wptr s bs = Some s' \<Longrightarrow> ssize s' = ssize s"
  by (auto simp: store_at_wptr_def bind_eq_Some_conv)

lemma RESIZE_noop: "used s + n \<le> ssize s \<Longrightarrow> ssize s < size_max \<Longrightarrow> RESIZE m s n = Some s"
  by (simp add: RESIZE_def size_simps)

lemma data_write_writes:
  assumes n: "n \<le> length str"
  shows "writes (\<lambda>m s. mach_data_write m s str n) (be_bytes 2 (of_nat n :: u16) @ take n str)"
  unfolding writes_def
proof (intro allI impI)
  fix m s
  let ?h = "be_bytes 2 (of_nat n :: u16)"
  assume m: "machine_ready m" and s: "stream_w s" and "used s + length (?h @ take n str) \<le> stream_limit"
  then have room: "used s + (n + 2) \<le> stream_limit" using n by (simp add: add.commute)
  then have add: "size_add n 2 = n + 2" by (simp add: size_simps size_max_def stream_limit_def)
  from RESIZE_ok [OF m s room] obtain s1 where s1: "RESIZE m s (n + 2) = Some s1" "stream_w s1"
    "contents s1 = contents s" "used s1 = used s" "rsize s1 = rsize s" "used s + (n + 2) \<le> ssize s1" by auto
  have noop: "RESIZE m s1 2 = Some s1"
    using s1 by (intro RESIZE_noop) (auto simp: stream_w_def stream_r_def size_max_def)
  from store_ok [OF s1(2), of ?h] s1 obtain s2 where s2: "store_at_wptr s1 ?h = Some s2" "appended s1 s2 ?h" by auto
  with store_ssize [OF s2(1)] s1 have "used s2 + length (take n str) \<le> ssize s2" "stream_w s2"
    using n by (auto simp: appended_def)
  with store_ok [of s2 "take n str"] obtain s3 where s3: "store_at_wptr s2 (take n str) = Some s3"
    "appended s2 s3 (take n str)" by auto
  have "mach_data_write m s str n = Some s3"
    using s1(1) noop s2(1) s3(1) n by (simp add: mach_data_write_def add mach_uint16_write_def mach_put_be [OF m] peek_in)
  with s1 s2 s3 show "\<exists>s'. mach_data_write m s str n = Some s' \<and> appended s s' (?h @ take n str)"
    by (auto simp: appended_def)
qed

lemma fetch_reads:
  "stream_r s \<Longrightarrow> unread s = bs @ rest \<Longrightarrow>
     size_add (rsize s) (length bs) \<le> used s \<and> (\<exists>s'. fetch_at_rptr s (length bs) = Some (bs, s') \<and> consumed s s' rest)"
  using fetch_ok [of s bs rest] unread_length [of s] by (auto simp: size_simps size_max_def stream_r_def)

lemma data_read_reads:
  assumes len: "length bs < 2 ^ 16" and cap: "length bs \<le> n" "length bs \<le> length str"
  shows "reads (\<lambda>m s. mach_data_read m s str n) (be_bytes 2 (of_nat (length bs) :: u16) @ bs)
           (of_nat (length bs), bs @ drop (length bs) str)"
proof -
  have un: "unat (of_nat (length bs) :: u16) = length bs" using len by (simp add: unat_of_nat)
  have "reads (\<lambda>m s. if unat l > n \<or> size_add (rsize s) (unat l) > used s then Some ((READ_DATA_ERROR, str), s)
          else Option.bind (fetch_at_rptr s (unat l)) (\<lambda>(ps, s). Option.bind (poke str 0 ps) (\<lambda>str'. Some ((l, str'), s))))
        bs (l, bs @ drop (length bs) str)" if "l = of_nat (length bs)" for l
    unfolding reads_def that un
  proof (intro allI impI)
    fix m s rest assume "machine_ready m" and s: "stream_r s" and u: "unread s = bs @ rest"
    from fetch_reads [OF s u] cap show "\<exists>s'. (if n < length bs \<or> used s < size_add (rsize s) (length bs)
        then Some ((READ_DATA_ERROR, str), s)
        else Option.bind (fetch_at_rptr s (length bs)) (\<lambda>(ps, s). Option.bind (poke str 0 ps)
          (\<lambda>str'. Some ((of_nat (length bs), str'), s)))) = Some ((of_nat (length bs), bs @ drop (length bs) str), s')
        \<and> consumed s s' rest"
      by (auto simp: poke_in)
  qed
  then show ?thesis unfolding mach_data_read_def by (intro cu16.get_bind) simp
qed

lemma fetch_poke_safe:
  assumes "stream_r s" and "n \<le> length str" and "n < 2 ^ 63"
  shows "\<exists>v s'. (if size_add (rsize s) n > used s then Some ((READ_DATA_ERROR, str), s)
          else Option.bind (fetch_at_rptr s n) (\<lambda>(ps, s). Option.bind (poke str 0 ps) (\<lambda>str'. Some ((r, str'), s))))
        = Some (v, s') \<and> length (snd v) = length str \<and> fst v \<in> {READ_DATA_ERROR, r} \<and> read_upto s s'"
proof -
  have add: "size_add (rsize s) n = rsize s + n" using assms by (auto simp: size_simps size_max_def stream_r_def)
  show ?thesis
  proof (cases "rsize s + n \<le> used s")
    case True
    from fetch_safe [OF assms(1) True] obtain bs s' where "fetch_at_rptr s n = Some (bs, s')" "length bs = n"
      "read_upto s s'" by blast
    with True assms(2) show ?thesis by (auto simp: add poke_in)
  next
    case False
    with assms show ?thesis by (auto simp: add read_upto_refl)
  qed
qed

lemma data_read_safe:
  assumes m: "machine_ready m" and s: "stream_r s" and cap: "n \<le> length str"
  shows "\<exists>v s'. mach_data_read m s str n = Some (v, s') \<and> length (snd v) = length str \<and>
           (fst v = READ_DATA_ERROR \<or> unat (fst v) \<le> n) \<and> read_upto s s'"
proof -
  from safe_readD [OF cu16.get_safely m s] obtain l s1 where 1: "mach_uint16_read m s = Some (l, s1)" "read_upto s s1"
    by blast
  have r: "stream_r s1" by (rule read_upto_r [OF 1(2) s])
  show ?thesis
  proof (cases "unat l \<le> n")
    case True
    have "unat l < 2 ^ 63" using unsigned_less [of l, where ?'a = nat] by simp
    from fetch_poke_safe [OF r le_trans [OF True cap] this, where r = l] show ?thesis
      using 1 True by (auto simp: mach_data_read_def dest: read_upto_trans)
  next
    case False
    with 1 show ?thesis by (auto simp: mach_data_read_def)
  qed
qed

section \<open>Administration\<close>

lemma init_ok:
  assumes "\<forall>n. alloc_ok m n" and "big_endian m = -1 \<or> machine_ready m"
  shows "\<exists>m' s. bin_stream_init m strm = (m', 0, s) \<and> machine_ready m' \<and> stream_w s \<and> contents s = [] \<and>
           unread s = [] \<and> used s = 0"
  using assms
  by (auto simp: bin_stream_init_def Let_def machine_ready_def native_bytes_def malloc_def stream_w_def stream_r_def
      contents_def unread_def DEFAULT_PACKET_SIZE_def be_bytes_unfold)

lemma reset_ok:
  assumes "machine_ready m" and "stream_w s"
  shows "stream_w (bin_stream_reset m s flag)" and "contents (bin_stream_reset m s flag) = []"
    and "used (bin_stream_reset m s flag) = 0" and "unread (bin_stream_reset m s flag) = []"
  using assms
  by (auto simp: bin_stream_reset_def bin_stream_reduce_def bin_stream_rewind_def Let_def machine_ready_def realloc_def
      stream_w_def stream_r_def contents_def unread_def DEFAULT_PACKET_SIZE_def split: option.splits)

lemma reset_check: "bin_stream_check (bin_stream_reset m s flag) = (if flag = 1 then 0 else -1)"
  by (simp add: bin_stream_check_def bin_stream_reset_def bin_stream_reduce_def bin_stream_rewind_def Let_def
      BIN_STREAM_MAGIC_def)

lemma sint_of_nat_small: "n < 2 ^ 31 \<Longrightarrow> sint (of_nat n :: u32) = int n"
  by (simp add: signed_of_nat signed_take_bit_int_eq_self)

lemma available_ok:
  assumes s: "stream_r s" and small: "used s < 2 ^ 31"
  shows "bin_stream_available_read s = Some (int (length (unread s)))"
proof -
  have "rsize s \<le> used s" using s by (simp add: stream_r_def)
  moreover have "used s - rsize s < 2 ^ 31" using small by (rule less_imp_diff_less)
  ultimately show ?thesis
    by (simp only: bin_stream_available_read_def sint_of_nat_small unread_length [OF s] if_True)
qed

lemma move_ok:
  assumes s: "stream_w s" and small: "used s < 2 ^ 32"
  shows "\<exists>s'. bin_stream_move s = Some s' \<and> stream_w s' \<and> unread s' = unread s \<and> used s' \<le> used s"
proof -
  define s1 where "s1 = (if used s = rsize s \<and> rsize s > 0 then s\<lparr>rptr := 0, wptr := 0, used := 0, rsize := 0\<rparr> else s)"
  have w1: "stream_w s1" and u1: "unread s1 = unread s" and le1: "used s1 \<le> used s"
    using s by (auto simp: s1_def stream_w_def stream_r_def unread_def contents_def)
  from w1 obtain d where d: "data s1 = Some d" "length d = ssize s1" "rptr s1 = rsize s1" "rsize s1 \<le> used s1"
    "used s1 \<le> ssize s1" "ssize s1 \<le> 2 ^ 63" "wptr s1 = used s1" "0 < ssize s1"
    by (auto simp: stream_w_def stream_r_def)
  have un: "unread s = take (used s1 - rsize s1) (drop (rsize s1) d)"
    using u1 d(1) by (simp add: unread_def contents_def drop_take)
  let ?n = "used s1 - rsize s1"
  have "?n < 2 ^ 32" using le1 small by simp
  then have n: "unat (of_nat ?n :: u32) = ?n" by (simp add: unat_of_nat)
  have peek: "peek d (rsize s1) ?n = Some (take ?n (drop (rsize s1) d))" using d by (simp add: peek_in)
  show ?thesis
  proof (cases "used s1 > rsize s1 \<and> rsize s1 > ssize s1 div 2 \<and> size_add (used s1) 256 \<ge> ssize s1")
    case True
    with d le1 show ?thesis unfolding bin_stream_move_def Let_def s1_def [symmetric] n d(1,3) un
      by (simp add: peek poke_in stream_w_def stream_r_def unread_def contents_def) linarith
  next
    case False
    with w1 u1 le1 show ?thesis unfolding bin_stream_move_def Let_def s1_def [symmetric] by auto
  qed
qed

section \<open>The stream as a queue of bytes\<close>

text \<open>
  What a client of the stream does, as a sequence of calls, and the specification it relies on: an
  unbounded first-in first-out queue of bytes. A read of a queue that is too short gives 0 and takes
  nothing. Values are widened to 64 bits so that one list holds the results of a run.
\<close>

datatype stream_op =
    Put8 u8 | Put16 u16 | Put32 u32 | Put64 u64 | Get8 | Get16 | Get32 | Get64 | Available | Move | Reset int

definition got :: "('a::len word \<times> bin_stream) option \<Rightarrow> (u64 list \<times> bin_stream) option" where
  "got r = map_option (\<lambda>(v, s). ([ucast v], s)) r"

fun stream_step :: "machine \<Rightarrow> bin_stream \<Rightarrow> stream_op \<Rightarrow> (u64 list \<times> bin_stream) option" where
  "stream_step m s (Put8 v) = map_option (Pair []) (mach_uint8_write m s v)"
| "stream_step m s (Put16 v) = map_option (Pair []) (mach_uint16_write m s v)"
| "stream_step m s (Put32 v) = map_option (Pair []) (mach_uint32_write m s v)"
| "stream_step m s (Put64 v) = map_option (Pair []) (mach_uint64_write m s v)"
| "stream_step m s Get8 = got (mach_uint8_read m s)"
| "stream_step m s Get16 = got (mach_uint16_read m s)"
| "stream_step m s Get32 = got (mach_uint32_read m s)"
| "stream_step m s Get64 = got (mach_uint64_read m s)"
| "stream_step m s Available = map_option (\<lambda>n. ([of_int n], s)) (bin_stream_available_read s)"
| "stream_step m s Move = map_option (Pair []) (bin_stream_move s)"
| "stream_step m s (Reset flag) = Some ([], bin_stream_reset m s flag)"

fun stream_run :: "machine \<Rightarrow> bin_stream \<Rightarrow> stream_op list \<Rightarrow> (u64 list \<times> bin_stream) option" where
  "stream_run m s [] = Some ([], s)"
| "stream_run m s (x # xs) = do {
     (vs, s1) \<leftarrow> stream_step m s x;
     (ws, s2) \<leftarrow> stream_run m s1 xs;
     Some (vs @ ws, s2)
   }"

definition fifo_get :: "nat \<Rightarrow> bytes \<Rightarrow> u64 list \<times> bytes" where
  "fifo_get n q = (if length q < n then ([0], q) else ([be_word (take n q)], drop n q))"

fun fifo_step :: "bytes \<Rightarrow> stream_op \<Rightarrow> u64 list \<times> bytes" where
  "fifo_step q (Put8 v) = ([], q @ [v])"
| "fifo_step q (Put16 v) = ([], q @ be_bytes 2 v)"
| "fifo_step q (Put32 v) = ([], q @ be_bytes 4 v)"
| "fifo_step q (Put64 v) = ([], q @ be_bytes 8 v)"
| "fifo_step q Get8 = fifo_get 1 q"
| "fifo_step q Get16 = fifo_get 2 q"
| "fifo_step q Get32 = fifo_get 4 q"
| "fifo_step q Get64 = fifo_get 8 q"
| "fifo_step q Available = ([of_nat (length q)], q)"
| "fifo_step q Move = ([], q)"
| "fifo_step q (Reset flag) = ([], [])"

fun fifo_run :: "bytes \<Rightarrow> stream_op list \<Rightarrow> u64 list \<times> bytes" where
  "fifo_run q [] = ([], q)"
| "fifo_run q (x # xs) = (let (vs, q1) = fifo_step q x; (ws, q2) = fifo_run q1 xs in (vs @ ws, q2))"

fun put_width :: "stream_op \<Rightarrow> nat" where
  "put_width (Put8 v) = 1"
| "put_width (Put16 v) = 2"
| "put_width (Put32 v) = 4"
| "put_width (Put64 v) = 8"
| "put_width _ = 0"

text \<open>One step preserves the invariant and simulates the queue.\<close>

definition simulates :: "machine \<Rightarrow> bin_stream \<Rightarrow> stream_op \<Rightarrow> bool" where
  "simulates m s x \<longleftrightarrow>
     (\<exists>s'. stream_step m s x = Some (fst (fifo_step (unread s) x), s') \<and> stream_w s' \<and>
           unread s' = snd (fifo_step (unread s) x) \<and> used s' \<le> used s + put_width x)"

lemma unread_appended: "stream_w s \<Longrightarrow> appended s s' bs \<Longrightarrow> unread s' = unread s @ bs"
  by (auto simp: unread_def appended_def contents_def stream_w_def stream_r_def)

lemma put_simulates:
  assumes "writes f bs" and "machine_ready m" "stream_w s" "used s + length bs \<le> stream_limit"
  shows "\<exists>s'. f m s = Some s' \<and> stream_w s' \<and> unread s' = unread s @ bs \<and> used s' \<le> used s + length bs"
proof -
  from assms obtain s' where "f m s = Some s'" "appended s s' bs" by (auto simp: writes_def)
  with unread_appended [OF assms(3)] show ?thesis by (auto simp: appended_def)
qed

context field_codec
begin

text \<open>A read of a long enough stream is the decoding of its first bytes, whatever they are.\<close>

lemma get_front:
  assumes m: "machine_ready m" and s: "stream_w s" and len: "width \<le> length (unread s)"
    and dec: "enc v = take width (unread s)"
  shows "\<exists>s'. get m s = Some (v, s') \<and> stream_w s' \<and> unread s' = drop width (unread s) \<and> used s' = used s"
proof -
  have r: "stream_r s" using s by (simp add: stream_w_def)
  have "unread s = enc v @ drop width (unread s)" by (simp add: dec)
  then obtain s' where "get m s = Some (v, s')" "consumed s s' (drop width (unread s))"
    using get_enc [of v, unfolded reads_def, rule_format, OF m r] by blast
  then show ?thesis using read_upto_w [OF _ s] by (auto simp: consumed_def dest: read_uptoD)
qed

end

lemma get_simulates:
  assumes "field_codec put get enc n (0 :: 'a::len word)" and enc: "\<And>v. enc v = be_bytes n v"
    and n: "8 * n = LENGTH('a)" "LENGTH('a) \<le> 64" and m: "machine_ready m" and s: "stream_w s"
  shows "\<exists>s'. got (get m s) = Some (fst (fifo_get n (unread s)), s') \<and> stream_w s' \<and>
           unread s' = snd (fifo_get n (unread s)) \<and> used s' \<le> used s"
proof (cases "n \<le> length (unread s)")
  case True
  let ?b = "take n (unread s)" and ?v = "be_word (take n (unread s)) :: 'a word"
  have "be_bytes (length ?b) ?v = ?b" using True n by (intro be_bytes_word) simp
  then have v: "be_bytes n ?v = ?b" using True by simp
  then have "enc ?v = ?b" by (simp add: enc)
  from field_codec.get_front [OF assms(1) m s True this] obtain s' where
    "get m s = Some (?v, s')" "stream_w s'" "unread s' = drop n (unread s)" "used s' = used s" by blast
  moreover have "(ucast ?v :: u64) = be_word ?b"
    using n True by (intro be_word_ucast) simp_all
  ultimately show ?thesis using True by (simp add: got_def fifo_get_def)
next
  case False
  with field_codec.get_short [OF assms(1), of s] s show ?thesis
    by (simp add: got_def fifo_get_def stream_w_def)
qed

lemma stream_step_simulates:
  assumes "machine_ready m" and "stream_w s" and "used s + put_width x < 2 ^ 31"
  shows "simulates m s x"
proof -
  have room: "used s + put_width x \<le> stream_limit" using assms(3) by (simp add: stream_limit_def)
  note puts = put_simulates [OF cu8.put_enc assms(1,2)] put_simulates [OF cu16.put_enc assms(1,2)]
    put_simulates [OF cu32.put_enc assms(1,2)] put_simulates [OF cu64.put_enc assms(1,2)]
  note gets = get_simulates [OF cu8.field_codec_axioms _ _ _ assms(1,2), simplified]
    get_simulates [OF cu16.field_codec_axioms _ _ _ assms(1,2), simplified]
    get_simulates [OF cu32.field_codec_axioms _ _ _ assms(1,2), simplified]
    get_simulates [OF cu64.field_codec_axioms _ _ _ assms(1,2), simplified]
  have r: "stream_r s" using assms(2) by (simp add: stream_w_def)
  show ?thesis
  proof (cases x)
    case (Put8 v) with puts(1) [of v] room show ?thesis by (auto simp: simulates_def)
  next
    case (Put16 v) with puts(2) [of v] room show ?thesis by (auto simp: simulates_def)
  next
    case (Put32 v) with puts(3) [of v] room show ?thesis by (auto simp: simulates_def)
  next
    case (Put64 v) with puts(4) [of v] room show ?thesis by (auto simp: simulates_def)
  next
    case Get8 with gets(1) show ?thesis by (auto simp: simulates_def)
  next
    case Get16 with gets(2) show ?thesis by (auto simp: simulates_def)
  next
    case Get32 with gets(3) show ?thesis by (auto simp: simulates_def)
  next
    case Get64 with gets(4) show ?thesis by (auto simp: simulates_def)
  next
    case Available
    with available_ok [OF r] assms show ?thesis by (auto simp: simulates_def)
  next
    case Move
    with move_ok [OF assms(2)] assms(3) show ?thesis by (auto simp: simulates_def)
  next
    case (Reset f)
    with reset_ok [OF assms(1,2)] show ?thesis by (auto simp: simulates_def)
  qed
qed

lemma stream_run_simulates:
  assumes "machine_ready m"
  shows "stream_w s \<Longrightarrow> used s + sum_list (map put_width xs) < 2 ^ 31 \<Longrightarrow>
     \<exists>s'. stream_run m s xs = Some (fst (fifo_run (unread s) xs), s') \<and> stream_w s' \<and>
          unread s' = snd (fifo_run (unread s) xs)"
proof (induction xs arbitrary: s)
  case Nil
  then show ?case by simp
next
  case (Cons x xs)
  then have "simulates m s x" using stream_step_simulates [OF assms Cons.prems(1)] by simp
  then obtain s1 where s1: "stream_step m s x = Some (fst (fifo_step (unread s) x), s1)" "stream_w s1"
    "unread s1 = snd (fifo_step (unread s) x)" "used s1 \<le> used s + put_width x"
    by (auto simp: simulates_def)
  with Cons.prems(2) have "used s1 + sum_list (map put_width xs) < 2 ^ 31" by simp
  from Cons.IH [OF s1(2) this] s1 show ?case by (auto simp: split_beta Let_def)
qed

section \<open>Properties of the stream\<close>

text \<open>
  C8: a freshly initialised stream behaves as a first-in first-out queue of bytes. Whatever sequence of
  writes, reads, moves and resets a client performs (up to 2 GiB written), on a host of either byte
  order, no call fails or leaves the allocation, the values read are those the queue gives, and the
  unread bytes are the queue.
\<close>

theorem stream_refines_fifo:
  assumes "\<forall>n. alloc_ok m n" and "big_endian m = -1 \<or> machine_ready m"
    and "sum_list (map put_width xs) < 2 ^ 31"
  shows "\<exists>m' s s'. bin_stream_init m strm = (m', 0, s) \<and>
           stream_run m' s xs = Some (fst (fifo_run [] xs), s') \<and> unread s' = snd (fifo_run [] xs)"
proof -
  from init_ok [OF assms(1,2), of strm] obtain m' s where "bin_stream_init m strm = (m', 0, s)"
    "machine_ready m'" "stream_w s" "unread s = []" "used s = 0" by blast
  with stream_run_simulates [of m' s xs] assms(3) show ?thesis by auto
qed

definition le_machine :: machine where
  "le_machine = \<lparr>host_big = False, big_endian = -1, alloc_ok = (\<lambda>_. True), junk = (\<lambda>_. 0)\<rparr>"

definition no_stream :: bin_stream where
  "no_stream = \<lparr>data = None, ssize = 0, rptr = 0, rsize = 0, wptr = 0, used = 0, magic = 0\<rparr>"

theorem stream_refines_fifo_witness:
  "\<exists>m' s s'. bin_stream_init le_machine no_stream = (m', 0, s) \<and>
     stream_run m' s [Put16 0x1234, Put8 7, Get8, Move, Available, Get16, Get32] = Some ([0x12, 2, 0x3407, 0], s') \<and>
     unread s' = []"
proof -
  have "fifo_run [] [Put16 0x1234, Put8 7, Get8, Move, Available, Get16, Get32] = ([0x12, 2, 0x3407, 0], [])"
    by (simp add: fifo_get_def be_bytes_unfold be_word_def)
  with stream_refines_fifo [of le_machine "[Put16 0x1234, Put8 7, Get8, Move, Available, Get16, Get32]" no_stream]
  show ?thesis by (simp add: le_machine_def)
qed

text \<open>
  The length-prefixed block writer and reader invert each other at any position of a stream that is
  in use: data of fewer than 65536 bytes, written with \<open>mach_data_write\<close> and then read into an array
  that holds it, comes back with its length; the rest of the array and the stream's earlier bytes are
  unchanged.
\<close>

theorem data_round_trip:
  assumes "machine_ready m" and "stream_w s" and "unread s = []"
    and "length bs < 2 ^ 16" and "length bs \<le> cap" and "cap \<le> length arr"
    and "used s + 2 + length bs \<le> stream_limit"
  shows "\<exists>s1 s2. mach_data_write m s bs (length bs) = Some s1 \<and>
           mach_data_read m s1 arr cap = Some ((of_nat (length bs), bs @ drop (length bs) arr), s2) \<and>
           contents s2 = contents s @ be_bytes 2 (of_nat (length bs) :: u16) @ bs \<and> unread s2 = []"
proof -
  let ?b = "be_bytes 2 (of_nat (length bs) :: u16) @ bs"
  have "writes (\<lambda>m s. mach_data_write m s bs (length bs)) ?b" using data_write_writes [of "length bs" bs] by simp
  with assms obtain s1 where s1: "mach_data_write m s bs (length bs) = Some s1" "appended s s1 ?b"
    by (auto simp: writes_def)
  have "stream_r s1" "unread s1 = ?b @ []"
    using s1(2) unread_appended [OF assms(2)] assms(3) by (auto simp: appended_def stream_w_def)
  from data_read_reads [unfolded reads_def, rule_format, OF assms(4,5) _ assms(1) this, of arr] assms(5,6)
  obtain s2 where "mach_data_read m s1 arr cap = Some ((of_nat (length bs), bs @ drop (length bs) arr), s2)"
    "consumed s1 s2 []" by auto
  with s1 show ?thesis by (auto simp: consumed_def appended_def read_upto_contents)
qed

theorem data_round_trip_witness:
  "\<exists>s1 s2. mach_data_write (le_machine\<lparr>big_endian := 0\<rparr>)
       (snd (snd (bin_stream_init le_machine no_stream))) [9, 8, 7] 3 = Some s1 \<and>
     mach_data_read (le_machine\<lparr>big_endian := 0\<rparr>) s1 [1, 1, 1, 1] 4 = Some ((3, [9, 8, 7, 1]), s2)"
proof -
  let ?m = "le_machine\<lparr>big_endian := 0\<rparr>" and ?s = "snd (snd (bin_stream_init le_machine no_stream))"
  have "machine_ready ?m" by (simp add: machine_ready_def le_machine_def)
  moreover have "stream_w ?s" "unread ?s = []" "used ?s = 0"
    using init_ok [of le_machine no_stream] by (auto simp: le_machine_def)
  ultimately show ?thesis
    using data_round_trip [of ?m ?s "[9, 8, 7]" 4 "[1, 1, 1, 1]"] by (auto simp: stream_limit_def numeral_3_eq_3)
qed

text \<open>
  A write to a destroyed stream never returns: \<open>bin_stream_destroy\<close> leaves the size 0, and the
  doubling loop of \<open>bin_stream_resize\<close> cannot leave 0.
\<close>

theorem write_after_destroy_diverges:
  "mach_uint8_write m (the (bin_stream_destroy (Some s))) v = None"
  by (simp add: mach_uint8_write_def bin_stream_destroy_def RESIZE_def bin_stream_resize_def size_add_def size_max_def
      grow_zero)

end
