(* ===== verification/Crc32.thy ===== *)
theory Crc32
  imports Prelude
begin

text \<open>
  \<^verbatim>\<open>razor/cf_crc32.c\<close>: the table-driven CRC-32 that protects every message of the
  simulation protocol. The table is the source's, entry by entry. The lemmas relate the table to
  the bitwise definition of the reflected polynomial and show that the checksum separates any two
  messages that differ only inside a window of four consecutive bytes.
\<close>

section \<open>The table and the loop\<close>

definition crc32_tab :: "u32 list" where
  "crc32_tab = [
     0x00000000, 0x77073096, 0xee0e612c, 0x990951ba, 0x076dc419, 0x706af48f,
     0xe963a535, 0x9e6495a3, 0x0edb8832, 0x79dcb8a4, 0xe0d5e91e, 0x97d2d988,
     0x09b64c2b, 0x7eb17cbd, 0xe7b82d07, 0x90bf1d91, 0x1db71064, 0x6ab020f2,
     0xf3b97148, 0x84be41de, 0x1adad47d, 0x6ddde4eb, 0xf4d4b551, 0x83d385c7,
     0x136c9856, 0x646ba8c0, 0xfd62f97a, 0x8a65c9ec, 0x14015c4f, 0x63066cd9,
     0xfa0f3d63, 0x8d080df5, 0x3b6e20c8, 0x4c69105e, 0xd56041e4, 0xa2677172,
     0x3c03e4d1, 0x4b04d447, 0xd20d85fd, 0xa50ab56b, 0x35b5a8fa, 0x42b2986c,
     0xdbbbc9d6, 0xacbcf940, 0x32d86ce3, 0x45df5c75, 0xdcd60dcf, 0xabd13d59,
     0x26d930ac, 0x51de003a, 0xc8d75180, 0xbfd06116, 0x21b4f4b5, 0x56b3c423,
     0xcfba9599, 0xb8bda50f, 0x2802b89e, 0x5f058808, 0xc60cd9b2, 0xb10be924,
     0x2f6f7c87, 0x58684c11, 0xc1611dab, 0xb6662d3d, 0x76dc4190, 0x01db7106,
     0x98d220bc, 0xefd5102a, 0x71b18589, 0x06b6b51f, 0x9fbfe4a5, 0xe8b8d433,
     0x7807c9a2, 0x0f00f934, 0x9609a88e, 0xe10e9818, 0x7f6a0dbb, 0x086d3d2d,
     0x91646c97, 0xe6635c01, 0x6b6b51f4, 0x1c6c6162, 0x856530d8, 0xf262004e,
     0x6c0695ed, 0x1b01a57b, 0x8208f4c1, 0xf50fc457, 0x65b0d9c6, 0x12b7e950,
     0x8bbeb8ea, 0xfcb9887c, 0x62dd1ddf, 0x15da2d49, 0x8cd37cf3, 0xfbd44c65,
     0x4db26158, 0x3ab551ce, 0xa3bc0074, 0xd4bb30e2, 0x4adfa541, 0x3dd895d7,
     0xa4d1c46d, 0xd3d6f4fb, 0x4369e96a, 0x346ed9fc, 0xad678846, 0xda60b8d0,
     0x44042d73, 0x33031de5, 0xaa0a4c5f, 0xdd0d7cc9, 0x5005713c, 0x270241aa,
     0xbe0b1010, 0xc90c2086, 0x5768b525, 0x206f85b3, 0xb966d409, 0xce61e49f,
     0x5edef90e, 0x29d9c998, 0xb0d09822, 0xc7d7a8b4, 0x59b33d17, 0x2eb40d81,
     0xb7bd5c3b, 0xc0ba6cad, 0xedb88320, 0x9abfb3b6, 0x03b6e20c, 0x74b1d29a,
     0xead54739, 0x9dd277af, 0x04db2615, 0x73dc1683, 0xe3630b12, 0x94643b84,
     0x0d6d6a3e, 0x7a6a5aa8, 0xe40ecf0b, 0x9309ff9d, 0x0a00ae27, 0x7d079eb1,
     0xf00f9344, 0x8708a3d2, 0x1e01f268, 0x6906c2fe, 0xf762575d, 0x806567cb,
     0x196c3671, 0x6e6b06e7, 0xfed41b76, 0x89d32be0, 0x10da7a5a, 0x67dd4acc,
     0xf9b9df6f, 0x8ebeeff9, 0x17b7be43, 0x60b08ed5, 0xd6d6a3e8, 0xa1d1937e,
     0x38d8c2c4, 0x4fdff252, 0xd1bb67f1, 0xa6bc5767, 0x3fb506dd, 0x48b2364b,
     0xd80d2bda, 0xaf0a1b4c, 0x36034af6, 0x41047a60, 0xdf60efc3, 0xa867df55,
     0x316e8eef, 0x4669be79, 0xcb61b38c, 0xbc66831a, 0x256fd2a0, 0x5268e236,
     0xcc0c7795, 0xbb0b4703, 0x220216b9, 0x5505262f, 0xc5ba3bbe, 0xb2bd0b28,
     0x2bb45a92, 0x5cb36a04, 0xc2d7ffa7, 0xb5d0cf31, 0x2cd99e8b, 0x5bdeae1d,
     0x9b64c2b0, 0xec63f226, 0x756aa39c, 0x026d930a, 0x9c0906a9, 0xeb0e363f,
     0x72076785, 0x05005713, 0x95bf4a82, 0xe2b87a14, 0x7bb12bae, 0x0cb61b38,
     0x92d28e9b, 0xe5d5be0d, 0x7cdcefb7, 0x0bdbdf21, 0x86d3d2d4, 0xf1d4e242,
     0x68ddb3f8, 0x1fda836e, 0x81be16cd, 0xf6b9265b, 0x6fb077e1, 0x18b74777,
     0x88085ae6, 0xff0f6a70, 0x66063bca, 0x11010b5c, 0x8f659eff, 0xf862ae69,
     0x616bffd3, 0x166ccf45, 0xa00ae278, 0xd70dd2ee, 0x4e048354, 0x3903b3c2,
     0xa7672661, 0xd06016f7, 0x4969474d, 0x3e6e77db, 0xaed16a4a, 0xd9d65adc,
     0x40df0b66, 0x37d83bf0, 0xa9bcae53, 0xdebb9ec5, 0x47b2cf7f, 0x30b5ffe9,
     0xbdbdf21c, 0xcabac28a, 0x53b39330, 0x24b4a3a6, 0xbad03605, 0xcdd70693,
     0x54de5729, 0x23d967bf, 0xb3667a2e, 0xc4614ab8, 0x5d681b02, 0x2a6f2b94,
     0xb40bbe37, 0xc30c8ea1, 0x5a05df1b, 0x2d02ef8d]"

fun crc32_loop :: "u32 \<Rightarrow> bytes \<Rightarrow> u32" where
  "crc32_loop crc [] = crc"
| "crc32_loop crc (p # ps) =
     crc32_loop (crc32_tab ! unat ((crc XOR ucast p) AND 0xFF) XOR drop_bit 8 crc) ps"

text \<open>\<open>crc32 crc buf n\<close> reads \<open>n\<close> bytes of \<open>buf\<close>; reading past the buffer is \<open>None\<close>.\<close>

definition crc32 :: "u32 \<Rightarrow> bytes \<Rightarrow> nat \<Rightarrow> u32 option" where
  "crc32 crc buf n =
     map_option (\<lambda>ps. crc32_loop (crc XOR NOT 0) ps XOR NOT 0) (peek buf 0 n)"

section \<open>The bitwise reference\<close>

definition crc_poly :: u32 where
  "crc_poly = 0xEDB88320"

definition crc_bit :: "u32 \<Rightarrow> u32" where
  "crc_bit c = (if bit c 0 then crc_poly XOR drop_bit 1 c else drop_bit 1 c)"

definition crc_byte :: "u32 \<Rightarrow> u32" where
  "crc_byte c = (crc_bit ^^ 8) c"

fun crc_ref :: "u32 \<Rightarrow> bytes \<Rightarrow> u32" where
  "crc_ref c [] = c"
| "crc_ref c (p # ps) = crc_ref (crc_byte (c XOR ucast p)) ps"

lemma crc_byte_unfold:
  "crc_byte c = crc_bit (crc_bit (crc_bit (crc_bit (crc_bit (crc_bit (crc_bit (crc_bit c)))))))"
  by (simp add: crc_byte_def eval_nat_numeral)

section \<open>The table is the reference on one byte\<close>

text \<open>One step of the reference is linear over exclusive or, so eight entries determine the table.\<close>

lemma crc_bit_xor: "crc_bit (a XOR b) = crc_bit a XOR crc_bit b"
  by (rule bit_word_eqI) (auto simp: crc_bit_def bit_simps)

lemma crc_bits_xor: "(crc_bit ^^ n) (a XOR b) = (crc_bit ^^ n) a XOR (crc_bit ^^ n) b"
  by (induction n) (simp_all add: crc_bit_xor)

lemma crc_byte_xor: "crc_byte (a XOR b) = crc_byte a XOR crc_byte b"
  by (simp add: crc_byte_def crc_bits_xor)

lemma crc_tab_length [simp]: "length crc32_tab = 256"
  by (simp add: crc32_tab_def)

lemma crc_tab_zero: "crc32_tab ! 0 = crc_byte 0"
  by (simp add: crc_byte_unfold crc_bit_def crc_poly_def crc32_tab_def)

lemma crc_tab_powers: "k < 8 \<Longrightarrow> crc32_tab ! (2 ^ k) = crc_byte (2 ^ k)"
proof -
  assume "k < 8"
  then consider "k = 0" | "k = 1" | "k = 2" | "k = 3" | "k = 4" | "k = 5" | "k = 6" | "k = 7"
    by linarith
  then show ?thesis
    by cases (simp_all add: crc_byte_unfold crc_bit_def crc_poly_def crc32_tab_def)
qed

lemma crc_tab_halves:
  "k < 8 \<Longrightarrow> take (2 ^ k) (drop (2 ^ k) crc32_tab) = map (\<lambda>x. x XOR crc32_tab ! (2 ^ k)) (take (2 ^ k) crc32_tab)"
proof -
  assume "k < 8"
  then consider "k = 0" | "k = 1" | "k = 2" | "k = 3" | "k = 4" | "k = 5" | "k = 6" | "k = 7"
    by linarith
  then show ?thesis by cases (simp_all add: crc32_tab_def)
qed

lemma of_nat_top_bit: "j < 2 ^ k \<Longrightarrow> (of_nat (2 ^ k + j) :: u32) = of_nat j XOR 2 ^ k"
proof -
  assume j: "j < 2 ^ k"
  have "(of_nat j :: u32) AND 2 ^ k = 0"
  proof (rule bit_word_eqI)
    fix n assume "n < LENGTH(32)"
    have "\<not> bit j k" using j by (metis bit_take_bit_iff less_irrefl take_bit_nat_eq_self)
    then show "bit ((of_nat j :: u32) AND 2 ^ k) n = bit (0::u32) n"
      by (auto simp: bit_simps)
  qed
  then have "(of_nat j :: u32) + 2 ^ k = of_nat j XOR 2 ^ k"
    by (rule disjunctive_add_eq_xor)
  then show ?thesis by (simp add: add.commute)
qed

lemma crc_tab_upto: "k \<le> 8 \<Longrightarrow> i < 2 ^ k \<Longrightarrow> crc32_tab ! i = crc_byte (of_nat i)"
proof (induction k arbitrary: i)
  case 0
  then show ?case by (simp add: crc_tab_zero)
next
  case (Suc k)
  then have k: "k < 8" and kk: "(2::nat) ^ k \<le> 128"
    using power_increasing [of k 7 "2::nat"] by auto
  show ?case
  proof (cases "i < 2 ^ k")
    case True
    with Suc k show ?thesis by simp
  next
    case False
    then obtain j where i: "i = 2 ^ k + j" by (metis le_add_diff_inverse not_less)
    with Suc.prems have j: "j < 2 ^ k" by simp
    have "crc32_tab ! i = take (2 ^ k) (drop (2 ^ k) crc32_tab) ! j"
      using i j kk by simp
    also have "\<dots> = crc32_tab ! j XOR crc32_tab ! (2 ^ k)"
      using j kk by (simp add: crc_tab_halves [OF k])
    also have "\<dots> = crc_byte (of_nat j) XOR crc_byte (2 ^ k)"
      using Suc.IH [OF _ j] k by (simp add: crc_tab_powers [OF k])
    also have "\<dots> = crc_byte (of_nat i)"
      by (simp add: i of_nat_top_bit [OF j] flip: crc_byte_xor del: of_nat_add)
    finally show ?thesis .
  qed
qed

lemma byte_mask: "c AND 0xFF = take_bit 8 c" for c :: "'a::len word"
  by (simp add: take_bit_eq_mask mask_numeral)

lemma unat_byte_mask: "unat (c AND 0xFF) < 2 ^ 8" for c :: u32
  unfolding byte_mask unsigned_take_bit_eq by (rule take_bit_nat_less_exp)

section \<open>The loop computes the reference\<close>

lemma crc_bits_shift: "take_bit n c = 0 \<Longrightarrow> (crc_bit ^^ n) c = drop_bit n c"
proof (induction n arbitrary: c)
  case 0
  then show ?case by simp
next
  case (Suc n)
  from Suc.prems have "\<not> bit (take_bit (Suc n) c) 0" by simp
  then have step: "crc_bit c = drop_bit 1 c" by (simp add: crc_bit_def bit_take_bit_iff)
  have "take_bit n (drop_bit 1 c) = drop_bit 1 (take_bit (Suc n) c)"
    by (simp add: drop_bit_take_bit)
  with Suc.prems have "take_bit n (drop_bit 1 c) = 0" by simp
  from Suc.IH [OF this] show ?case
    by (simp add: funpow_Suc_right step del: funpow.simps)
qed

lemma crc_byte_split: "crc_byte c = crc_byte (c AND 0xFF) XOR drop_bit 8 c"
proof -
  let ?hi = "push_bit 8 (drop_bit 8 c)"
  have split: "c = take_bit 8 c XOR ?hi"
    by (rule bit_word_eqI) (auto simp: bit_simps)
  have hi: "crc_byte ?hi = drop_bit 8 ?hi"
    unfolding crc_byte_def by (rule crc_bits_shift, rule bit_word_eqI) (simp add: bit_simps)
  have "drop_bit 8 ?hi = drop_bit 8 c"
    by (rule bit_word_eqI) (auto simp: bit_simps dest: bit_imp_le_length)
  then have "crc_byte (take_bit 8 c XOR ?hi) = crc_byte (take_bit 8 c) XOR drop_bit 8 c"
    by (simp add: crc_byte_xor hi)
  then show ?thesis using split by (simp add: byte_mask)
qed

lemma crc32_step_ref:
  "crc32_tab ! unat ((crc XOR ucast p) AND 0xFF) XOR drop_bit 8 crc = crc_byte (crc XOR ucast p)"
  for p :: u8
proof -
  have "crc32_tab ! unat ((crc XOR ucast p) AND 0xFF) = crc_byte ((crc XOR ucast p) AND 0xFF)"
    using crc_tab_upto [OF _ unat_byte_mask] by simp
  moreover have "drop_bit 8 (crc XOR ucast p) = drop_bit 8 crc"
    by (rule bit_word_eqI) (auto simp: bit_simps dest: bit_imp_le_length)
  ultimately show ?thesis using crc_byte_split [of "crc XOR ucast p"] by simp
qed

lemma crc32_loop_ref: "crc32_loop crc ps = crc_ref crc ps"
  by (induction ps arbitrary: crc) (simp_all add: crc32_step_ref)

section \<open>Bursts of four bytes are detected\<close>

lemma crc_bit_top: "bit (crc_bit c) 31 = bit c 0"
  by (auto simp: crc_bit_def crc_poly_def bit_simps dest: bit_imp_le_length)

lemma crc_bit_eq: "crc_bit a = crc_bit b \<Longrightarrow> a = b"
proof -
  assume eq: "crc_bit a = crc_bit b"
  then have b0: "bit a 0 = bit b 0" by (metis crc_bit_top)
  with eq have d: "drop_bit 1 a = drop_bit 1 b"
    by (auto simp: crc_bit_def split: if_splits dest: arg_cong [where f = "\<lambda>x. crc_poly XOR x"] simp flip: xor.assoc)
  show "a = b"
  proof (rule bit_word_eqI)
    fix n assume "n < LENGTH(32)"
    show "bit a n = bit b n"
    proof (cases n)
      case 0
      with b0 show ?thesis by simp
    next
      case (Suc m)
      have "bit a (1 + m) = bit b (1 + m)" using d by (metis bit_drop_bit_eq comp_apply)
      with Suc show ?thesis by simp
    qed
  qed
qed

lemma crc_bits_eq: "(crc_bit ^^ n) a = (crc_bit ^^ n) b \<Longrightarrow> a = b"
  by (induction n) (auto dest: crc_bit_eq)

lemma crc_ref_append: "crc_ref c (xs @ ys) = crc_ref (crc_ref c xs) ys"
  by (induction xs arbitrary: c) simp_all

lemma crc_ref_state_eq: "crc_ref a ps = crc_ref b ps \<Longrightarrow> a = b"
proof (induction ps arbitrary: a b)
  case Nil
  then show ?case by simp
next
  case (Cons p ps)
  then have "crc_byte (a XOR ucast p) = crc_byte (b XOR ucast p)" by simp
  then have "a XOR ucast p = b XOR ucast p" unfolding crc_byte_def by (rule crc_bits_eq)
  then show ?case by (rule xor_right_cancel)
qed

fun le_word :: "bytes \<Rightarrow> u32" where
  "le_word [] = 0"
| "le_word (p # ps) = ucast p XOR push_bit 8 (le_word ps)"

lemma le_word_bit: "bit (le_word ps) k \<Longrightarrow> k < 8 * length ps"
proof (induction ps arbitrary: k)
  case Nil
  then show ?case by simp
next
  case (Cons p ps)
  then consider "bit p k" | "8 \<le> k" "bit (le_word ps) (k - 8)" by (auto simp: bit_simps)
  then show ?case
  proof cases
    case 1
    then show ?thesis by (auto dest: bit_imp_le_length)
  next
    case 2
    with Cons.IH show ?thesis by fastforce
  qed
qed

lemma le_word_drop: "length ps \<le> 3 \<Longrightarrow> drop_bit 8 (push_bit 8 (le_word ps)) = le_word ps"
  by (rule bit_word_eqI) (auto simp: bit_simps dest: le_word_bit)

lemma le_word_low: "take_bit 8 (le_word (p # ps)) = ucast p"
  by (rule bit_word_eqI) (auto simp: bit_simps dest: bit_imp_le_length)

lemma le_word_high: "length ps \<le> 3 \<Longrightarrow> drop_bit 8 (le_word (p # ps)) = le_word ps"
  by (rule bit_word_eqI) (auto simp: bit_simps dest: bit_imp_le_length le_word_bit)

lemma le_word_eq: "length xs = length ys \<Longrightarrow> length xs \<le> 4 \<Longrightarrow> le_word xs = le_word ys \<Longrightarrow> xs = ys"
proof (induction xs ys rule: list_induct2)
  case Nil
  then show ?case by simp
next
  case (Cons x xs y ys)
  have "(ucast x :: u32) = ucast y" using Cons.prems(2) by (metis le_word_low)
  then have "x = y" by (simp add: ucast_up_eq)
  moreover have "le_word xs = le_word ys"
    using Cons.prems Cons.hyps by (metis le_word_high length_Cons Suc_le_mono numeral_eq_Suc pred_numeral_simps(2,3) BitM.simps)
  ultimately show ?case using Cons.IH Cons.prems(1) by simp
qed

lemma crc_ref_short: "length ps \<le> 4 \<Longrightarrow> crc_ref c ps = (crc_bit ^^ (8 * length ps)) (c XOR le_word ps)"
proof (induction ps arbitrary: c)
  case Nil
  then show ?case by simp
next
  case (Cons p ps)
  let ?n = "8 * length ps"
  have hi: "crc_byte (push_bit 8 (le_word ps)) = le_word ps"
    using Cons.prems le_word_drop [of ps] unfolding crc_byte_def
    by (subst crc_bits_shift) (auto intro!: bit_word_eqI simp: bit_simps)
  have "crc_ref c (p # ps) = (crc_bit ^^ ?n) (crc_byte (c XOR ucast p) XOR le_word ps)"
    using Cons by simp
  also have "crc_byte (c XOR ucast p) XOR le_word ps = crc_byte (c XOR le_word (p # ps))"
    using crc_byte_xor [of "c XOR ucast p" "push_bit 8 (le_word ps)"] by (simp add: hi xor.assoc)
  also have "(crc_bit ^^ ?n) (crc_byte (c XOR le_word (p # ps))) = (crc_bit ^^ (?n + 8)) (c XOR le_word (p # ps))"
    by (simp add: crc_byte_def funpow_add)
  finally show ?case by (simp add: add.commute)
qed

lemma crc_ref_burst:
  assumes len: "length xs = length ys" "length xs \<le> 4" and ne: "xs \<noteq> ys"
  shows "crc_ref c (pre @ xs @ post) \<noteq> crc_ref c (pre @ ys @ post)"
proof
  let ?c = "crc_ref c pre"
  assume "crc_ref c (pre @ xs @ post) = crc_ref c (pre @ ys @ post)"
  then have "crc_ref ?c xs = crc_ref ?c ys"
    by (auto simp: crc_ref_append dest: crc_ref_state_eq)
  then have "?c XOR le_word xs = ?c XOR le_word ys"
    using len by (auto simp: crc_ref_short dest: crc_bits_eq)
  then have "?c XOR (?c XOR le_word xs) = ?c XOR (?c XOR le_word ys)" by simp
  then have "le_word xs = le_word ys" by (simp flip: xor.assoc)
  with le_word_eq [OF len] ne show False by simp
qed

section \<open>Properties\<close>

text \<open>
  C30: for every starting value, buffer and length, the table-driven loop of \<open>crc32\<close> returns the
  bitwise CRC-32 of the reflected polynomial \<open>0xEDB88320\<close> with the source's initial and final
  complement; it fails exactly when the length leaves the buffer.
\<close>

theorem crc32_is_bitwise:
  "crc32 crc buf n =
     (if n \<le> length buf then Some (crc_ref (crc XOR NOT 0) (take n buf) XOR NOT 0) else None)"
  by (simp add: crc32_def crc32_loop_ref peek_def)

text \<open>
  Two buffers that differ only inside a window of at most four consecutive bytes (a burst error
  of up to 32 bits) never have the same checksum.
\<close>

theorem crc32_detects_burst:
  assumes "length xs = length ys" and "length xs \<le> 4" and "xs \<noteq> ys"
  shows "crc32 crc (pre @ xs @ post) (length (pre @ xs @ post))
       \<noteq> crc32 crc (pre @ ys @ post) (length (pre @ ys @ post))"
proof
  assume "crc32 crc (pre @ xs @ post) (length (pre @ xs @ post))
       = crc32 crc (pre @ ys @ post) (length (pre @ ys @ post))"
  then have "crc_ref (crc XOR NOT 0) (pre @ xs @ post) XOR NOT 0 =
      crc_ref (crc XOR NOT 0) (pre @ ys @ post) XOR NOT 0"
    by (simp add: crc32_def peek_def crc32_loop_ref)
  then have "crc_ref (crc XOR NOT 0) (pre @ xs @ post) = crc_ref (crc XOR NOT 0) (pre @ ys @ post)"
    by (rule xor_right_cancel)
  with crc_ref_burst [OF assms] show False by blast
qed

theorem crc32_detects_burst_witness:
  "crc32 0 ([1, 2] @ [3] @ [4]) (length [1, 2, 3 :: u8, 4])
     \<noteq> crc32 0 ([1, 2] @ [7] @ [4]) (length [1, 2, 7 :: u8, 4])"
  using crc32_detects_burst [of "[3]" "[7]" 0 "[1, 2]" "[4]"] by simp

end
