(* ===== verification/Sim_Proto.thy ===== *)
theory Sim_Proto
  imports Bin_Stream Crc32
begin

text \<open>
  \<^verbatim>\<open>razor/sim_proto.{h,inl,c}\<close>: the datagrams of the simulated video transport. Every message is a
  six-byte header, a body chosen by the message id, and a CRC over both. The C structs are records,
  their fixed arrays lists; the \<open>void*\<close> body is a sum of the structs, and passing a struct that is not
  the one the message id names is \<open>None\<close>, like every access outside a buffer.

  The lemmas show that encoding and decoding invert each other up to the fields the wire format
  narrows, that decoding any received datagram of at least four bytes stays inside its buffers, and
  that a burst error is rejected by the header decoder.
\<close>

section \<open>Messages\<close>

definition MIN_MSG_ID :: u8 where "MIN_MSG_ID = 0x10"
definition SIM_CONNECT :: u8 where "SIM_CONNECT = 0x11"
definition SIM_CONNECT_ACK :: u8 where "SIM_CONNECT_ACK = 0x12"
definition SIM_DISCONNECT :: u8 where "SIM_DISCONNECT = 0x13"
definition SIM_DISCONNECT_ACK :: u8 where "SIM_DISCONNECT_ACK = 0x14"
definition SIM_PING :: u8 where "SIM_PING = 0x15"
definition SIM_PONG :: u8 where "SIM_PONG = 0x16"
definition SIM_SEG :: u8 where "SIM_SEG = 0x17"
definition SIM_SEG_ACK :: u8 where "SIM_SEG_ACK = 0x18"
definition SIM_FEEDBACK :: u8 where "SIM_FEEDBACK = 0x19"
definition SIM_FIR :: u8 where "SIM_FIR = 0x1a"
definition SIM_PAD :: u8 where "SIM_PAD = 0x1b"
definition MAX_MSG_ID :: u8 where "MAX_MSG_ID = 0x1c"

lemmas msg_ids = MIN_MSG_ID_def SIM_CONNECT_def SIM_CONNECT_ACK_def SIM_DISCONNECT_def SIM_DISCONNECT_ACK_def
  SIM_PING_def SIM_PONG_def SIM_SEG_def SIM_SEG_ACK_def SIM_FEEDBACK_def SIM_FIR_def SIM_PAD_def MAX_MSG_ID_def

definition protocol_ver :: u8 where "protocol_ver = 0x01"
definition SIM_HEADER_SIZE :: nat where "SIM_HEADER_SIZE = 6"
definition SIM_VIDEO_SIZE :: nat where "SIM_VIDEO_SIZE = 1000"
definition SIM_TOKEN_SIZE :: nat where "SIM_TOKEN_SIZE = 128"
definition NACK_NUM :: nat where "NACK_NUM = 80"
definition SIM_FEEDBACK_SIZE :: nat where "SIM_FEEDBACK_SIZE = 1000"
definition PADDING_DATA_SIZE :: nat where "PADDING_DATA_SIZE = 500"
definition SIM_SEGMENT_HEADER_SIZE :: nat where "SIM_SEGMENT_HEADER_SIZE = SIM_HEADER_SIZE + 24"

lemmas array_sizes = SIM_VIDEO_SIZE_def SIM_TOKEN_SIZE_def NACK_NUM_def SIM_FEEDBACK_SIZE_def PADDING_DATA_SIZE_def

record sim_header =
  ver :: u8
  mid :: u8
  uid :: u32

definition INIT_SIM_HEADER :: "u8 \<Rightarrow> u32 \<Rightarrow> sim_header" where
  "INIT_SIM_HEADER msg_id userid = \<lparr>ver = protocol_ver, mid = msg_id, uid = userid\<rparr>"

record sim_connect =
  con_cid :: u32
  con_token_size :: u16
  con_token :: bytes
  con_cc_type :: u8

record sim_connect_ack =
  ack_cid :: u32
  ack_result :: u32

record sim_disconnect =
  dis_cid :: u32

record sim_segment =
  seg_packet_id :: u32
  seg_fid :: u32
  seg_timestamp :: u32
  seg_index :: u16
  seg_total :: u16
  seg_ftype :: u8
  seg_payload_type :: u8
  seg_remb :: u8
  seg_send_ts :: u16
  seg_transport_seq :: u16
  seg_data_size :: u16
  seg_data :: bytes

record sim_segment_ack =
  sack_base_packet_id :: u32
  sack_acked_packet_id :: u32
  sack_nack_num :: u8
  sack_nack :: "u16 list"

record sim_ping =
  ping_ts :: u64

record sim_feedback =
  fb_base_packet_id :: u32
  fb_feedback_size :: u16
  fb_feedback :: bytes

record sim_fir =
  fir_seq :: u32

record sim_pad =
  pad_send_ts :: u32
  pad_transport_seq :: u16
  pad_data_size :: u16
  pad_data :: bytes

datatype sim_body =
    Connect sim_connect
  | ConnectAck sim_connect_ack
  | Disconnect sim_disconnect
  | Ping sim_ping
  | Segment sim_segment
  | SegmentAck sim_segment_ack
  | Feedback sim_feedback
  | Fir sim_fir
  | Pad sim_pad

section \<open>Encoders and decoders of the bodies\<close>

text \<open>A size field is the value \<open>mach_data_read\<close> returned, or 0 when it reported an error.\<close>

definition size_or_0 :: "u16 \<Rightarrow> u16" where
  "size_or_0 n = (if n = READ_DATA_ERROR then 0 else n)"

definition sim_connect_encode :: "machine \<Rightarrow> bin_stream \<Rightarrow> sim_connect \<Rightarrow> bin_stream option" where
  "sim_connect_encode m strm body = do {
     s \<leftarrow> mach_uint32_write m strm (con_cid body);
     s \<leftarrow> mach_data_write m s (con_token body) (unat (con_token_size body));
     mach_int8_write m s (con_cc_type body)
   }"

definition sim_connect_decode ::
  "machine \<Rightarrow> bin_stream \<Rightarrow> sim_connect \<Rightarrow> ((int \<times> sim_connect) \<times> bin_stream) option" where
  "sim_connect_decode m strm body = do {
     (c, s) \<leftarrow> mach_uint32_read m strm;
     ((n, tok), s) \<leftarrow> mach_data_read m s (con_token body) SIM_TOKEN_SIZE;
     (cc, s) \<leftarrow> mach_int8_read m s;
     Some ((0, body\<lparr>con_cid := c, con_token_size := size_or_0 n, con_token := tok, con_cc_type := cc\<rparr>), s)
   }"

definition sim_connect_ack_encode :: "machine \<Rightarrow> bin_stream \<Rightarrow> sim_connect_ack \<Rightarrow> bin_stream option" where
  "sim_connect_ack_encode m strm body = do {
     s \<leftarrow> mach_uint32_write m strm (ack_cid body);
     mach_uint32_write m s (ack_result body)
   }"

definition sim_connect_ack_decode ::
  "machine \<Rightarrow> bin_stream \<Rightarrow> sim_connect_ack \<Rightarrow> ((int \<times> sim_connect_ack) \<times> bin_stream) option" where
  "sim_connect_ack_decode m strm body = do {
     (c, s) \<leftarrow> mach_uint32_read m strm;
     (r, s) \<leftarrow> mach_uint32_read m s;
     Some ((0, body\<lparr>ack_cid := c, ack_result := r\<rparr>), s)
   }"

definition sim_disconnect_encode :: "machine \<Rightarrow> bin_stream \<Rightarrow> sim_disconnect \<Rightarrow> bin_stream option" where
  "sim_disconnect_encode m strm body = mach_uint32_write m strm (dis_cid body)"

definition sim_disconnect_decode ::
  "machine \<Rightarrow> bin_stream \<Rightarrow> sim_disconnect \<Rightarrow> ((int \<times> sim_disconnect) \<times> bin_stream) option" where
  "sim_disconnect_decode m strm body = do {
     (c, s) \<leftarrow> mach_uint32_read m strm;
     Some ((0, body\<lparr>dis_cid := c\<rparr>), s)
   }"

definition sim_ping_encode :: "machine \<Rightarrow> bin_stream \<Rightarrow> sim_ping \<Rightarrow> bin_stream option" where
  "sim_ping_encode m strm body = mach_int64_write m strm (ping_ts body)"

definition sim_ping_decode :: "machine \<Rightarrow> bin_stream \<Rightarrow> sim_ping \<Rightarrow> ((int \<times> sim_ping) \<times> bin_stream) option" where
  "sim_ping_decode m strm body = do {
     (t, s) \<leftarrow> mach_int64_read m strm;
     Some ((0, body\<lparr>ping_ts := t\<rparr>), s)
   }"

definition sim_feedbak_encode :: "machine \<Rightarrow> bin_stream \<Rightarrow> sim_feedback \<Rightarrow> bin_stream option" where
  "sim_feedbak_encode m strm body = do {
     s \<leftarrow> mach_uint32_write m strm (fb_base_packet_id body);
     mach_data_write m s (fb_feedback body) (unat (fb_feedback_size body))
   }"

definition sim_feedbak_decode ::
  "machine \<Rightarrow> bin_stream \<Rightarrow> sim_feedback \<Rightarrow> ((int \<times> sim_feedback) \<times> bin_stream) option" where
  "sim_feedbak_decode m strm body = do {
     (b, s) \<leftarrow> mach_uint32_read m strm;
     ((n, fb), s) \<leftarrow> mach_data_read m s (fb_feedback body) SIM_FEEDBACK_SIZE;
     Some ((0, body\<lparr>fb_base_packet_id := b, fb_feedback_size := size_or_0 n, fb_feedback := fb\<rparr>), s)
   }"

definition U16_MAX :: u32 where "U16_MAX = 65535"
definition U8_MAX :: u16 where "U8_MAX = 255"

text \<open>The mask byte of a segment: which of the variable-width fields are wide, the frame type, the remb flag.\<close>

definition segment_mask :: "sim_segment \<Rightarrow> u8" where
  "segment_mask body =
     (let mask = seg_ftype body AND 0x01;
          mask = (if seg_packet_id body > U16_MAX then mask OR push_bit 7 1 else mask);
          mask = (if seg_fid body > U16_MAX then mask OR push_bit 6 1 else mask);
          mask = (if seg_total body > U8_MAX then mask OR push_bit 5 1 else mask);
          mask = (if seg_remb body = 0 then mask OR push_bit 4 1 else mask)
      in mask)"

definition sim_segment_encode :: "machine \<Rightarrow> bin_stream \<Rightarrow> sim_segment \<Rightarrow> bin_stream option" where
  "sim_segment_encode m strm body = do {
     s \<leftarrow> mach_uint8_write m strm (segment_mask body);
     s \<leftarrow> mach_uint8_write m s (seg_payload_type body);
     s \<leftarrow> (if seg_packet_id body > U16_MAX then mach_uint32_write m s (seg_packet_id body)
           else mach_uint16_write m s (ucast (seg_packet_id body)));
     s \<leftarrow> (if seg_fid body > U16_MAX then mach_uint32_write m s (seg_fid body)
           else mach_uint16_write m s (ucast (seg_fid body)));
     s \<leftarrow> mach_uint32_write m s (seg_timestamp body);
     s \<leftarrow> (if seg_total body > U8_MAX then mach_uint16_write m s (seg_index body)
           else mach_uint8_write m s (ucast (seg_index body)));
     s \<leftarrow> (if seg_total body > U8_MAX then mach_uint16_write m s (seg_total body)
           else mach_uint8_write m s (ucast (seg_total body)));
     s \<leftarrow> mach_uint16_write m s (seg_send_ts body);
     s \<leftarrow> mach_uint16_write m s (seg_transport_seq body);
     mach_data_write m s (seg_data body) (unat (seg_data_size body))
   }"

text \<open>A field read at a width chosen by a bit of the mask, widened into the struct's field.\<close>

definition read_32_or_16 :: "bool \<Rightarrow> machine \<Rightarrow> bin_stream \<Rightarrow> (u32 \<times> bin_stream) option" where
  "read_32_or_16 wide m strm =
     (if wide then mach_uint32_read m strm
      else do { (v16, s) \<leftarrow> mach_uint16_read m strm; Some (ucast v16, s) })"

definition read_16_or_8 :: "bool \<Rightarrow> machine \<Rightarrow> bin_stream \<Rightarrow> (u16 \<times> bin_stream) option" where
  "read_16_or_8 wide m strm =
     (if wide then mach_uint16_read m strm
      else do { (v8, s) \<leftarrow> mach_uint8_read m strm; Some (ucast v8, s) })"

definition sim_segment_decode ::
  "machine \<Rightarrow> bin_stream \<Rightarrow> sim_segment \<Rightarrow> ((int \<times> sim_segment) \<times> bin_stream) option" where
  "sim_segment_decode m strm body = do {
     (mask, s) \<leftarrow> mach_uint8_read m strm;
     (pt, s) \<leftarrow> mach_uint8_read m s;
     (pid, s) \<leftarrow> read_32_or_16 (mask AND push_bit 7 1 \<noteq> 0) m s;
     (f, s) \<leftarrow> read_32_or_16 (mask AND push_bit 6 1 \<noteq> 0) m s;
     (ts, s) \<leftarrow> mach_uint32_read m s;
     (i, s) \<leftarrow> read_16_or_8 (mask AND push_bit 5 1 \<noteq> 0) m s;
     (t, s) \<leftarrow> read_16_or_8 (mask AND push_bit 5 1 \<noteq> 0) m s;
     (sts, s) \<leftarrow> mach_uint16_read m s;
     (sq, s) \<leftarrow> mach_uint16_read m s;
     ((n, d), s) \<leftarrow> mach_data_read m s (seg_data body) SIM_VIDEO_SIZE;
     Some ((0, body\<lparr>seg_payload_type := pt, seg_ftype := mask AND 0x01, seg_packet_id := pid, seg_fid := f,
                   seg_timestamp := ts, seg_index := i, seg_total := t,
                   seg_remb := (if mask AND push_bit 4 1 \<noteq> 0 then 0 else 0xff),
                   seg_send_ts := sts, seg_transport_seq := sq, seg_data_size := size_or_0 n, seg_data := d\<rparr>), s)
   }"

text \<open>The loop over the negative acknowledgements: \<open>k\<close> iterations left, from index \<open>i\<close>.\<close>

fun nack_write_loop :: "machine \<Rightarrow> u16 list \<Rightarrow> nat \<Rightarrow> nat \<Rightarrow> bin_stream \<Rightarrow> bin_stream option" where
  "nack_write_loop m nack 0 i s = Some s"
| "nack_write_loop m nack (Suc k) i s =
     (if i < length nack
      then do { s \<leftarrow> mach_uint16_write m s (nack ! i); nack_write_loop m nack k (i + 1) s }
      else None)"

fun nack_read_loop :: "nat \<Rightarrow> nat \<Rightarrow> u16 list \<Rightarrow> machine \<Rightarrow> bin_stream \<Rightarrow> (u16 list \<times> bin_stream) option" where
  "nack_read_loop 0 i nack m s = Some (nack, s)"
| "nack_read_loop (Suc k) i nack m s =
     (if i < length nack
      then do { (v, s) \<leftarrow> mach_uint16_read m s; nack_read_loop k (i + 1) (nack[i := v]) m s }
      else None)"

definition sim_segment_ack_encode :: "machine \<Rightarrow> bin_stream \<Rightarrow> sim_segment_ack \<Rightarrow> bin_stream option" where
  "sim_segment_ack_encode m strm body = do {
     s \<leftarrow> mach_uint32_write m strm (sack_base_packet_id body);
     s \<leftarrow> mach_uint32_write m s (sack_acked_packet_id body);
     s \<leftarrow> mach_uint8_write m s (sack_nack_num body);
     nack_write_loop m (sack_nack body) (unat (sack_nack_num body)) 0 s
   }"

definition sim_segment_ack_decode ::
  "machine \<Rightarrow> bin_stream \<Rightarrow> sim_segment_ack \<Rightarrow> ((int \<times> sim_segment_ack) \<times> bin_stream) option" where
  "sim_segment_ack_decode m strm body = do {
     (b, s) \<leftarrow> mach_uint32_read m strm;
     (a, s) \<leftarrow> mach_uint32_read m s;
     (n, s) \<leftarrow> mach_uint8_read m s;
     (ns, s) \<leftarrow> nack_read_loop (min (unat n) NACK_NUM) 0 (sack_nack body) m s;
     Some ((0, body\<lparr>sack_base_packet_id := b, sack_acked_packet_id := a,
                   sack_nack_num := of_nat (min (unat n) NACK_NUM), sack_nack := ns\<rparr>), s)
   }"

definition sim_fir_encode :: "machine \<Rightarrow> bin_stream \<Rightarrow> sim_fir \<Rightarrow> bin_stream option" where
  "sim_fir_encode m strm body = mach_uint32_write m strm (fir_seq body)"

definition sim_fir_decode :: "machine \<Rightarrow> bin_stream \<Rightarrow> sim_fir \<Rightarrow> ((int \<times> sim_fir) \<times> bin_stream) option" where
  "sim_fir_decode m strm body = do {
     (q, s) \<leftarrow> mach_uint32_read m strm;
     Some ((0, body\<lparr>fir_seq := q\<rparr>), s)
   }"

definition sim_pad_encode :: "machine \<Rightarrow> bin_stream \<Rightarrow> sim_pad \<Rightarrow> bin_stream option" where
  "sim_pad_encode m strm body = do {
     s \<leftarrow> mach_uint32_write m strm (pad_send_ts body);
     s \<leftarrow> mach_uint16_write m s (pad_transport_seq body);
     mach_data_write m s (pad_data body) (unat (pad_data_size body))
   }"

definition sim_pad_decode :: "machine \<Rightarrow> bin_stream \<Rightarrow> sim_pad \<Rightarrow> ((int \<times> sim_pad) \<times> bin_stream) option" where
  "sim_pad_decode m strm body = do {
     (t, s) \<leftarrow> mach_uint32_read m strm;
     (q, s) \<leftarrow> mach_uint16_read m s;
     ((n, d), s) \<leftarrow> mach_data_read m s (pad_data body) PADDING_DATA_SIZE;
     Some ((0, body\<lparr>pad_send_ts := t, pad_transport_seq := q, pad_data_size := size_or_0 n, pad_data := d\<rparr>), s)
   }"

section \<open>Header, checksum, dispatch\<close>

definition CRC_VAL :: u32 where "CRC_VAL = 0x0e3dfc0a"

definition sim_encode_header :: "machine \<Rightarrow> bin_stream \<Rightarrow> sim_header \<Rightarrow> bin_stream option" where
  "sim_encode_header m strm header = do {
     s \<leftarrow> mach_uint8_write m strm (ver header);
     s \<leftarrow> mach_uint8_write m s (mid header);
     mach_uint32_write m s (uid header)
   }"

text \<open>
  The position of the stored checksum is \<open>data + used - 4\<close>: with fewer than four bytes in the stream
  it lies before the allocation, and the length given to \<open>crc32\<close> wraps around.
\<close>

definition sim_decode_header ::
  "machine \<Rightarrow> bin_stream \<Rightarrow> sim_header \<Rightarrow> ((int \<times> sim_header) \<times> bin_stream) option" where
  "sim_decode_header m strm header = do {
     d \<leftarrow> data strm;
     pos \<leftarrow> (if used strm < 4 then None else peek d (used strm - 4) 4);
     crc \<leftarrow> crc32 CRC_VAL d (size_sub (used strm) 4);
     if mach_get_4 m pos = crc
     then do {
       (v, s) \<leftarrow> mach_uint8_read m strm;
       (i, s) \<leftarrow> mach_uint8_read m s;
       (u, s) \<leftarrow> mach_uint32_read m s;
       Some ((0, header\<lparr>ver := v, mid := i, uid := u\<rparr>), s)
     }
     else Some ((-1, header), strm)
   }"

definition encode_body :: "machine \<Rightarrow> bin_stream \<Rightarrow> u8 \<Rightarrow> sim_body \<Rightarrow> bin_stream option" where
  "encode_body m s i body =
     (if i = SIM_CONNECT then (case body of Connect b \<Rightarrow> sim_connect_encode m s b | _ \<Rightarrow> None)
      else if i = SIM_CONNECT_ACK \<or> i = SIM_DISCONNECT_ACK
      then (case body of ConnectAck b \<Rightarrow> sim_connect_ack_encode m s b | _ \<Rightarrow> None)
      else if i = SIM_DISCONNECT then (case body of Disconnect b \<Rightarrow> sim_disconnect_encode m s b | _ \<Rightarrow> None)
      else if i = SIM_PING \<or> i = SIM_PONG then (case body of Ping b \<Rightarrow> sim_ping_encode m s b | _ \<Rightarrow> None)
      else if i = SIM_SEG then (case body of Segment b \<Rightarrow> sim_segment_encode m s b | _ \<Rightarrow> None)
      else if i = SIM_SEG_ACK then (case body of SegmentAck b \<Rightarrow> sim_segment_ack_encode m s b | _ \<Rightarrow> None)
      else if i = SIM_FEEDBACK then (case body of Feedback b \<Rightarrow> sim_feedbak_encode m s b | _ \<Rightarrow> None)
      else if i = SIM_FIR then (case body of Fir b \<Rightarrow> sim_fir_encode m s b | _ \<Rightarrow> None)
      else if i = SIM_PAD then (case body of Pad b \<Rightarrow> sim_pad_encode m s b | _ \<Rightarrow> None)
      else Some s)"

definition sim_encode_msg :: "machine \<Rightarrow> bin_stream \<Rightarrow> sim_header \<Rightarrow> sim_body \<Rightarrow> bin_stream option" where
  "sim_encode_msg m strm header body = do {
     s \<leftarrow> Some (bin_stream_rewind strm 1);
     s \<leftarrow> sim_encode_header m s header;
     s \<leftarrow> encode_body m s (mid header) body;
     d \<leftarrow> data s;
     crc \<leftarrow> crc32 CRC_VAL d (used s);
     mach_uint32_write m s crc
   }"

text \<open>The struct behind the body pointer is passed in and returned updated.\<close>

definition through :: "('b \<Rightarrow> sim_body) \<Rightarrow> ((int \<times> 'b) \<times> bin_stream) option \<Rightarrow> ((int \<times> sim_body) \<times> bin_stream) option" where
  "through con r = map_option (\<lambda>((ret, b), s). ((ret, con b), s)) r"

definition sim_decode_msg ::
  "machine \<Rightarrow> bin_stream \<Rightarrow> sim_header \<Rightarrow> sim_body \<Rightarrow> ((int \<times> sim_body) \<times> bin_stream) option" where
  "sim_decode_msg m s header body =
     (let i = mid header in
      if i = SIM_CONNECT then (case body of Connect b \<Rightarrow> through Connect (sim_connect_decode m s b) | _ \<Rightarrow> None)
      else if i = SIM_CONNECT_ACK \<or> i = SIM_DISCONNECT_ACK
      then (case body of ConnectAck b \<Rightarrow> through ConnectAck (sim_connect_ack_decode m s b) | _ \<Rightarrow> None)
      else if i = SIM_DISCONNECT
      then (case body of Disconnect b \<Rightarrow> through Disconnect (sim_disconnect_decode m s b) | _ \<Rightarrow> None)
      else if i = SIM_PING \<or> i = SIM_PONG
      then (case body of Ping b \<Rightarrow> through Ping (sim_ping_decode m s b) | _ \<Rightarrow> None)
      else if i = SIM_SEG then (case body of Segment b \<Rightarrow> through Segment (sim_segment_decode m s b) | _ \<Rightarrow> None)
      else if i = SIM_SEG_ACK
      then (case body of SegmentAck b \<Rightarrow> through SegmentAck (sim_segment_ack_decode m s b) | _ \<Rightarrow> None)
      else if i = SIM_FEEDBACK
      then (case body of Feedback b \<Rightarrow> through Feedback (sim_feedbak_decode m s b) | _ \<Rightarrow> None)
      else if i = SIM_FIR then (case body of Fir b \<Rightarrow> through Fir (sim_fir_decode m s b) | _ \<Rightarrow> None)
      else if i = SIM_PAD then (case body of Pad b \<Rightarrow> through Pad (sim_pad_decode m s b) | _ \<Rightarrow> None)
      else Some ((-1, body), s))"

definition sim_get_msg_name :: "u8 \<Rightarrow> string" where
  "sim_get_msg_name msg_id =
     (if msg_id = SIM_CONNECT then ''SIM_CONNECT''
      else if msg_id = SIM_CONNECT_ACK then ''SIM_CONNECT_ACK''
      else if msg_id = SIM_DISCONNECT then ''SIM_DISCONNECT''
      else if msg_id = SIM_DISCONNECT_ACK then ''SIM_DISCONNECT_ACK''
      else if msg_id = SIM_PING then ''SIM_PING''
      else if msg_id = SIM_PONG then ''SIM_PONG''
      else if msg_id = SIM_SEG then ''SIM_SEG''
      else if msg_id = SIM_SEG_ACK then ''SIM_SEG_ACK''
      else if msg_id = SIM_FEEDBACK then ''SIM_FEEDBACK''
      else if msg_id = SIM_FIR then ''SIM_FIR''
      else if msg_id = SIM_PAD then ''SIM_PAD''
      else ''unknown message'')"

section \<open>The wire format\<close>

text \<open>
  The bytes a message occupies, independently of the stream: the reference the encoders and decoders
  are compared with. \<open>wf_body\<close> is the condition on a struct: its arrays have their declared length and
  its counts stay within them; \<open>room_for\<close> is the part of it a decoder needs of the struct it fills.
\<close>

definition data_bytes :: "u16 \<Rightarrow> bytes \<Rightarrow> bytes" where
  "data_bytes n d = be_bytes 2 n @ take (unat n) d"

definition wide_bytes :: "u32 \<Rightarrow> bytes" where
  "wide_bytes v = (if v > U16_MAX then be_bytes 4 v else be_bytes 2 (ucast v :: u16))"

definition index_bytes :: "u16 \<Rightarrow> u16 \<Rightarrow> bytes" where
  "index_bytes tot v = (if tot > U8_MAX then be_bytes 2 v else [ucast v])"

fun body_bytes :: "sim_body \<Rightarrow> bytes" where
  "body_bytes (Connect b) = be_bytes 4 (con_cid b) @ data_bytes (con_token_size b) (con_token b) @ [con_cc_type b] @ []"
| "body_bytes (ConnectAck b) = be_bytes 4 (ack_cid b) @ be_bytes 4 (ack_result b) @ []"
| "body_bytes (Disconnect b) = be_bytes 4 (dis_cid b) @ []"
| "body_bytes (Ping b) = be_bytes 8 (ping_ts b) @ []"
| "body_bytes (Segment b) =
     [segment_mask b] @ [seg_payload_type b] @ wide_bytes (seg_packet_id b) @ wide_bytes (seg_fid b) @
     be_bytes 4 (seg_timestamp b) @ index_bytes (seg_total b) (seg_index b) @ index_bytes (seg_total b) (seg_total b) @
     be_bytes 2 (seg_send_ts b) @ be_bytes 2 (seg_transport_seq b) @ data_bytes (seg_data_size b) (seg_data b) @ []"
| "body_bytes (SegmentAck b) =
     be_bytes 4 (sack_base_packet_id b) @ be_bytes 4 (sack_acked_packet_id b) @ [sack_nack_num b] @
     concat (map (be_bytes 2) (take (unat (sack_nack_num b)) (sack_nack b))) @ []"
| "body_bytes (Feedback b) = be_bytes 4 (fb_base_packet_id b) @ data_bytes (fb_feedback_size b) (fb_feedback b) @ []"
| "body_bytes (Fir b) = be_bytes 4 (fir_seq b) @ []"
| "body_bytes (Pad b) =
     be_bytes 4 (pad_send_ts b) @ be_bytes 2 (pad_transport_seq b) @ data_bytes (pad_data_size b) (pad_data b) @ []"

definition header_bytes :: "sim_header \<Rightarrow> bytes" where
  "header_bytes h = [ver h] @ [mid h] @ be_bytes 4 (uid h) @ []"

definition sim_crc :: "bytes \<Rightarrow> u32" where
  "sim_crc p = crc32_loop (CRC_VAL XOR NOT 0) p XOR NOT 0"

definition msg_bytes :: "sim_header \<Rightarrow> sim_body \<Rightarrow> bytes" where
  "msg_bytes h b = (let p = header_bytes h @ body_bytes b in p @ be_bytes 4 (sim_crc p))"

fun names :: "u8 \<Rightarrow> sim_body \<Rightarrow> bool" where
  "names i (Connect b) \<longleftrightarrow> i = SIM_CONNECT"
| "names i (ConnectAck b) \<longleftrightarrow> i = SIM_CONNECT_ACK \<or> i = SIM_DISCONNECT_ACK"
| "names i (Disconnect b) \<longleftrightarrow> i = SIM_DISCONNECT"
| "names i (Ping b) \<longleftrightarrow> i = SIM_PING \<or> i = SIM_PONG"
| "names i (Segment b) \<longleftrightarrow> i = SIM_SEG"
| "names i (SegmentAck b) \<longleftrightarrow> i = SIM_SEG_ACK"
| "names i (Feedback b) \<longleftrightarrow> i = SIM_FEEDBACK"
| "names i (Fir b) \<longleftrightarrow> i = SIM_FIR"
| "names i (Pad b) \<longleftrightarrow> i = SIM_PAD"

fun room_for :: "sim_body \<Rightarrow> bool" where
  "room_for (Connect b) \<longleftrightarrow> length (con_token b) = SIM_TOKEN_SIZE"
| "room_for (Segment b) \<longleftrightarrow> length (seg_data b) = SIM_VIDEO_SIZE"
| "room_for (SegmentAck b) \<longleftrightarrow> length (sack_nack b) = NACK_NUM"
| "room_for (Feedback b) \<longleftrightarrow> length (fb_feedback b) = SIM_FEEDBACK_SIZE"
| "room_for (Pad b) \<longleftrightarrow> length (pad_data b) = PADDING_DATA_SIZE"
| "room_for _ \<longleftrightarrow> True"

fun wf_body :: "sim_body \<Rightarrow> bool" where
  "wf_body (Connect b) \<longleftrightarrow> room_for (Connect b) \<and> unat (con_token_size b) \<le> SIM_TOKEN_SIZE"
| "wf_body (Segment b) \<longleftrightarrow> room_for (Segment b) \<and> unat (seg_data_size b) \<le> SIM_VIDEO_SIZE"
| "wf_body (SegmentAck b) \<longleftrightarrow> room_for (SegmentAck b) \<and> unat (sack_nack_num b) \<le> NACK_NUM"
| "wf_body (Feedback b) \<longleftrightarrow> room_for (Feedback b) \<and> unat (fb_feedback_size b) \<le> SIM_FEEDBACK_SIZE"
| "wf_body (Pad b) \<longleftrightarrow> room_for (Pad b) \<and> unat (pad_data_size b) \<le> PADDING_DATA_SIZE"
| "wf_body _ \<longleftrightarrow> True"

text \<open>
  What arrives in a struct \<open>old\<close> when \<open>b\<close> was sent: the sent fields; the tail of an array the
  message did not fill keeps its old bytes; of a segment, the frame type keeps its low bit, a
  non-zero remb flag becomes \<open>0xff\<close>, and the index of a frame of at most 255 parts is one byte.
\<close>

definition fill :: "nat \<Rightarrow> 'a list \<Rightarrow> 'a list \<Rightarrow> 'a list" where
  "fill n sent old = take n sent @ drop n old"

fun received :: "sim_body \<Rightarrow> sim_body \<Rightarrow> sim_body" where
  "received (Connect old) (Connect b) =
     Connect (b\<lparr>con_token := fill (unat (con_token_size b)) (con_token b) (con_token old)\<rparr>)"
| "received (Segment old) (Segment b) =
     Segment (b\<lparr>seg_data := fill (unat (seg_data_size b)) (seg_data b) (seg_data old),
                seg_ftype := seg_ftype b AND 1,
                seg_remb := (if seg_remb b = 0 then 0 else 0xff),
                seg_index := (if seg_total b > U8_MAX then seg_index b else ucast (ucast (seg_index b) :: u8))\<rparr>)"
| "received (SegmentAck old) (SegmentAck b) =
     SegmentAck (b\<lparr>sack_nack := fill (unat (sack_nack_num b)) (sack_nack b) (sack_nack old)\<rparr>)"
| "received (Feedback old) (Feedback b) =
     Feedback (b\<lparr>fb_feedback := fill (unat (fb_feedback_size b)) (fb_feedback b) (fb_feedback old)\<rparr>)"
| "received (Pad old) (Pad b) =
     Pad (b\<lparr>pad_data := fill (unat (pad_data_size b)) (pad_data b) (pad_data old)\<rparr>)"
| "received old b = b"

section \<open>Encoders write the wire format\<close>

lemma data_put_bind:
  assumes "unat n \<le> length d" and "writes g ys"
  shows "writes (\<lambda>m s. Option.bind (mach_data_write m s d (unat n)) (g m)) (data_bytes n d @ ys)"
  using writes_bind [OF data_write_writes [OF assms(1)] assms(2)] by (simp add: data_bytes_def)

lemma data_put: "unat n \<le> length d \<Longrightarrow> writes (\<lambda>m s. mach_data_write m s d (unat n)) (data_bytes n d @ [])"
  using data_write_writes [of "unat n" d] by (simp add: data_bytes_def)

lemma wide_put: "writes (\<lambda>m s. if v > U16_MAX then mach_uint32_write m s v else mach_uint16_write m s (ucast v)) (wide_bytes v)"
  unfolding wide_bytes_def by (intro writes_if cu32.put_enc cu16.put_enc)

lemma index_put:
  "writes (\<lambda>m s. if t > U8_MAX then mach_uint16_write m s v else mach_uint8_write m s (ucast v)) (index_bytes t v)"
  unfolding index_bytes_def by (intro writes_if cu16.put_enc cu8.put_enc)

lemma put_last:
  "writes (\<lambda>m s. mach_uint32_write m s v) (be_bytes 4 v @ [])"
  "writes (\<lambda>m s. mach_int8_write m s w) ([w] @ [])"
  "writes (\<lambda>m s. mach_int64_write m s x) (be_bytes 8 x @ [])"
  using cu32.put_enc [of v] ci8.put_enc [of w] ci64.put_enc [of x] by simp_all

lemmas puts = cu8.put_bind cu16.put_bind cu32.put_bind data_put_bind writes_bind [OF wide_put]
  writes_bind [OF index_put] data_put put_last

lemma nack_put:
  "i + k \<le> length nack \<Longrightarrow>
     writes (\<lambda>m s. nack_write_loop m nack k i s) (concat (map (be_bytes 2) (take k (drop i nack))))"
proof (induction k arbitrary: i)
  case 0
  then show ?case by (simp add: writes_none)
next
  case (Suc k)
  then have i: "i < length nack" and "drop i nack = nack ! i # drop (Suc i) nack"
    by (simp_all add: Cons_nth_drop_Suc)
  then show ?case using cu16.put_bind [OF Suc.IH [of "Suc i"], of "nack ! i"] Suc.prems by simp
qed

lemma header_put: "writes (\<lambda>m s. sim_encode_header m s h) (header_bytes h)"
  unfolding sim_encode_header_def header_bytes_def by (intro puts)

lemmas body_encoders = sim_connect_encode_def sim_connect_ack_encode_def sim_disconnect_encode_def sim_ping_encode_def
  sim_segment_encode_def sim_feedbak_encode_def sim_fir_encode_def sim_pad_encode_def

lemma segment_ack_put:
  assumes "wf_body (SegmentAck b)"
  shows "writes (\<lambda>m s. sim_segment_ack_encode m s b) (body_bytes (SegmentAck b))"
proof -
  have "0 + unat (sack_nack_num b) \<le> length (sack_nack b)" using assms by simp
  from nack_put [OF this] show ?thesis
    unfolding sim_segment_ack_encode_def body_bytes.simps
    by (intro cu32.put_bind cu8.put_bind) simp
qed

lemma body_put:
  assumes "names i b" and "wf_body b"
  shows "writes (\<lambda>m s. encode_body m s i b) (body_bytes b)"
proof (cases b)
  case (SegmentAck x)
  with assms segment_ack_put [of x] show ?thesis by (simp add: encode_body_def msg_ids)
qed (use assms in \<open>auto simp: encode_body_def msg_ids body_encoders simp del: append_Nil2 append.simps intro!: puts\<close>)

section \<open>Decoders read it back\<close>

lemma data_get_bind:
  assumes n: "unat n \<le> cap" "unat n \<le> length d" "cap \<le> length arr"
    and h: "reads (h n (fill (unat n) d arr)) ys w"
  shows "reads (\<lambda>m s. Option.bind (mach_data_read m s arr cap) (\<lambda>((k, a), s'). h k a m s')) (data_bytes n d @ ys) w"
proof -
  let ?bs = "take (unat n) d"
  have len: "length ?bs = unat n" using n by simp
  have "unat n < 2 ^ 16" using unsigned_less [of n, where ?'a = nat] by simp
  with data_read_reads [of ?bs cap arr] n len
  have r: "reads (\<lambda>m s. mach_data_read m s arr cap) (data_bytes n d) (n, fill (unat n) d arr)"
    by (simp add: data_bytes_def fill_def)
  have "(\<lambda>((k, a), s'). h k a m s') = (\<lambda>(x, s'). (case x of (k, a) \<Rightarrow> h k a) m s')" for m
    by (auto simp: fun_eq_iff)
  then show ?thesis
    using reads_bind [OF r, where h = "\<lambda>(k, a). h k a" and ys = ys and w = w] h by simp
qed

lemma ucast_narrow: "v \<le> U16_MAX \<Longrightarrow> ucast (ucast v :: u16) = v" "w \<le> U8_MAX \<Longrightarrow> ucast (ucast w :: u8) = w"
proof -
  have "ucast (ucast v :: u16) = take_bit 16 v" "ucast (ucast w :: u8) = take_bit 8 w"
    by (rule bit_word_eqI; auto simp: bit_simps)+
  then show "v \<le> U16_MAX \<Longrightarrow> ucast (ucast v :: u16) = v" "w \<le> U8_MAX \<Longrightarrow> ucast (ucast w :: u8) = w"
    by (simp_all add: word_unat_eq_iff unsigned_take_bit_eq take_bit_nat_eq_self U16_MAX_def U8_MAX_def word_le_nat_alt)
qed

lemma wide_get_bind:
  assumes c: "c \<longleftrightarrow> v > U16_MAX" and h: "reads (h v) ys w"
  shows "reads (\<lambda>m s. Option.bind (read_32_or_16 c m s) (\<lambda>(x, s'). h x m s')) (wide_bytes v @ ys) w"
proof (rule reads_bind [where h = h, OF _ h])
  show "reads (read_32_or_16 c) (wide_bytes v) v"
  proof (cases c)
    case True
    with c cu32.get_enc [of v] show ?thesis by (simp add: read_32_or_16_def [abs_def] wide_bytes_def)
  next
    case False
    with c reads_map [OF cu16.get_enc [of "ucast v"], of "ucast :: u16 \<Rightarrow> u32"] show ?thesis
      by (simp add: read_32_or_16_def [abs_def] wide_bytes_def ucast_narrow)
  qed
qed

lemma index_get_bind:
  assumes c: "c \<longleftrightarrow> t > U8_MAX" and h: "reads (h (if c then v else ucast (ucast v :: u8))) ys w"
  shows "reads (\<lambda>m s. Option.bind (read_16_or_8 c m s) (\<lambda>(x, s'). h x m s')) (index_bytes t v @ ys) w"
proof (rule reads_bind [where h = h, OF _ h])
  show "reads (read_16_or_8 c) (index_bytes t v) (if c then v else ucast (ucast v :: u8))"
    using c cu16.get_enc [of v] reads_map [OF cu8.get_enc [of "ucast v"], of "ucast :: u8 \<Rightarrow> u16"]
    by (cases c) (simp_all add: read_16_or_8_def [abs_def] index_bytes_def)
qed

lemma segment_mask_bits:
  "segment_mask b AND push_bit 7 1 \<noteq> 0 \<longleftrightarrow> seg_packet_id b > U16_MAX"
  "segment_mask b AND push_bit 6 1 \<noteq> 0 \<longleftrightarrow> seg_fid b > U16_MAX"
  "segment_mask b AND push_bit 5 1 \<noteq> 0 \<longleftrightarrow> seg_total b > U8_MAX"
  "segment_mask b AND push_bit 4 1 \<noteq> 0 \<longleftrightarrow> seg_remb b = 0"
  "segment_mask b AND 1 = seg_ftype b AND 1"
proof -
  have "seg_ftype b AND 1 = 0 \<or> seg_ftype b AND 1 = 1"
    by (simp add: and_one_eq mod_2_eq_odd)
  then show "segment_mask b AND push_bit 7 1 \<noteq> 0 \<longleftrightarrow> seg_packet_id b > U16_MAX"
    "segment_mask b AND push_bit 6 1 \<noteq> 0 \<longleftrightarrow> seg_fid b > U16_MAX"
    "segment_mask b AND push_bit 5 1 \<noteq> 0 \<longleftrightarrow> seg_total b > U8_MAX"
    "segment_mask b AND push_bit 4 1 \<noteq> 0 \<longleftrightarrow> seg_remb b = 0"
    "segment_mask b AND 1 = seg_ftype b AND 1"
    by (elim disjE; simp add: segment_mask_def Let_def)+
qed

lemma nack_get_bind:
  assumes "length sent = length old" and "k \<le> length old" and "reads (h (fill k sent old)) ys w"
  shows "reads (\<lambda>m s. Option.bind (nack_read_loop k 0 old m s) (\<lambda>(x, s'). h x m s'))
           (concat (map (be_bytes 2) (take k sent)) @ ys) w"
proof (rule reads_bind [where h = h, OF _ assms(3)])
  have "i + j = k \<Longrightarrow> length arr = length sent \<Longrightarrow>
      reads (nack_read_loop j i arr) (concat (map (be_bytes 2) (take j (drop i sent))))
        (take i arr @ take j (drop i sent) @ drop (i + j) arr)" for i j arr
  proof (induction j arbitrary: i arr)
    case 0
    have "nack_read_loop 0 i arr = (\<lambda>m s. Some (arr, s))" by (simp add: fun_eq_iff)
    then show ?case by (simp add: reads_return)
  next
    case (Suc j)
    let ?v = "sent ! i"
    have i: "i < length arr" using Suc.prems assms by simp
    have split: "take (Suc j) (drop i sent) = ?v # take j (drop (Suc i) sent)"
      using i Suc.prems by (simp add: Cons_nth_drop_Suc [symmetric])
    have "reads (nack_read_loop j (Suc i) (arr[i := ?v])) (concat (map (be_bytes 2) (take j (drop (Suc i) sent))))
        (take (Suc i) (arr[i := ?v]) @ take j (drop (Suc i) sent) @ drop (Suc i + j) (arr[i := ?v]))"
      using Suc.IH [of "Suc i" "arr[i := ?v]"] Suc.prems by simp
    moreover have "take (Suc i) (arr[i := ?v]) = take i arr @ [?v]" using i by (simp add: take_Suc_conv_app_nth)
    ultimately have "reads (nack_read_loop j (Suc i) (arr[i := ?v])) (concat (map (be_bytes 2) (take j (drop (Suc i) sent))))
        (take i arr @ take (Suc j) (drop i sent) @ drop (i + Suc j) arr)"
      by (simp add: split)
    from cu16.get_bind [where h = "\<lambda>v. nack_read_loop j (Suc i) (arr[i := v])", OF this] i show ?case
      by (simp add: split)
  qed
  from this [of 0 k old] assms show "reads (nack_read_loop k 0 old) (concat (map (be_bytes 2) (take k sent))) (fill k sent old)"
    by (simp add: fill_def)
qed

lemmas gets = cu8.get_bind cu16.get_bind cu32.get_bind ci8.get_bind ci64.get_bind data_get_bind wide_get_bind
  index_get_bind nack_get_bind

lemma header_get:
  "reads (\<lambda>m s. Option.bind (mach_uint8_read m s) (\<lambda>(v, s). Option.bind (mach_uint8_read m s)
      (\<lambda>(i, s). Option.bind (mach_uint32_read m s) (\<lambda>(u, s). Some ((0 :: int, old\<lparr>ver := v, mid := i, uid := u\<rparr>), s)))))
    (header_bytes h) (0, h)"
  unfolding header_bytes_def by (intro gets reads_value) simp

lemma through_get:
  assumes "reads g bs (r, b)"
  shows "reads (\<lambda>m s. through con (g m s)) bs (r, con b)"
proof -
  have eq: "through con x = Option.bind x (\<lambda>(y, s). Some ((fst y, con (snd y)), s))" for x
    by (cases x) (auto simp: through_def)
  show ?thesis using reads_map [OF assms, of "\<lambda>y. (fst y, con (snd y))"] by (simp add: eq)
qed

lemma size_or_0_id: "unat n \<le> 1000 \<Longrightarrow> size_or_0 n = n"
  by (auto simp: size_or_0_def READ_DATA_ERROR_def)

lemma connect_get:
  assumes "wf_body (Connect b)" and "room_for (Connect old)"
  shows "reads (\<lambda>m s. sim_connect_decode m s old) (body_bytes (Connect b))
           (0, b\<lparr>con_token := fill (unat (con_token_size b)) (con_token b) (con_token old)\<rparr>)"
  unfolding sim_connect_decode_def body_bytes.simps
  by (intro gets reads_value) (use assms in \<open>simp_all add: size_or_0_id array_sizes\<close>)

lemma segment_get:
  assumes "wf_body (Segment b)" and "room_for (Segment old)"
  shows "reads (\<lambda>m s. sim_segment_decode m s old) (body_bytes (Segment b))
     (0, b\<lparr>seg_data := fill (unat (seg_data_size b)) (seg_data b) (seg_data old),
           seg_ftype := seg_ftype b AND 1, seg_remb := (if seg_remb b = 0 then 0 else 0xff),
           seg_index := (if seg_total b > U8_MAX then seg_index b else ucast (ucast (seg_index b) :: u8))\<rparr>)"
  unfolding sim_segment_decode_def body_bytes.simps
  by (intro gets reads_value)
    (use assms in \<open>simp_all add: size_or_0_id array_sizes segment_mask_bits [simplified] ucast_narrow\<close>)

lemma segment_ack_get:
  assumes "wf_body (SegmentAck b)" and "room_for (SegmentAck old)"
  shows "reads (\<lambda>m s. sim_segment_ack_decode m s old) (body_bytes (SegmentAck b))
     (0, b\<lparr>sack_nack := fill (unat (sack_nack_num b)) (sack_nack b) (sack_nack old)\<rparr>)"
proof -
  have "min (unat (sack_nack_num b)) NACK_NUM = unat (sack_nack_num b)" using assms by (simp add: min_def)
  then show ?thesis
    unfolding sim_segment_ack_decode_def body_bytes.simps
    apply (intro cu32.get_bind cu8.get_bind)
    apply (simp only:)
    apply (intro nack_get_bind reads_value)
    using assms by (simp_all add: array_sizes)
qed

lemma feedback_get:
  assumes "wf_body (Feedback b)" and "room_for (Feedback old)"
  shows "reads (\<lambda>m s. sim_feedbak_decode m s old) (body_bytes (Feedback b))
           (0, b\<lparr>fb_feedback := fill (unat (fb_feedback_size b)) (fb_feedback b) (fb_feedback old)\<rparr>)"
  unfolding sim_feedbak_decode_def body_bytes.simps
  by (intro gets reads_value) (use assms in \<open>simp_all add: size_or_0_id array_sizes\<close>)

lemma pad_get:
  assumes "wf_body (Pad b)" and "room_for (Pad old)"
  shows "reads (\<lambda>m s. sim_pad_decode m s old) (body_bytes (Pad b))
           (0, b\<lparr>pad_data := fill (unat (pad_data_size b)) (pad_data b) (pad_data old)\<rparr>)"
  unfolding sim_pad_decode_def body_bytes.simps
  by (intro gets reads_value) (use assms in \<open>simp_all add: size_or_0_id array_sizes\<close>)

lemma plain_gets:
  "reads (\<lambda>m s. sim_connect_ack_decode m s ca') (body_bytes (ConnectAck ca)) (0, ca)"
  "reads (\<lambda>m s. sim_disconnect_decode m s d') (body_bytes (Disconnect d)) (0, d)"
  "reads (\<lambda>m s. sim_ping_decode m s p') (body_bytes (Ping p)) (0, p)"
  "reads (\<lambda>m s. sim_fir_decode m s f') (body_bytes (Fir f)) (0, f)"
  unfolding sim_connect_ack_decode_def sim_disconnect_decode_def sim_ping_decode_def sim_fir_decode_def body_bytes.simps
  by (intro gets reads_value; simp)+

text \<open>The body decoder the message id selects, on the struct kind that goes with it.\<close>

lemma body_get:
  assumes "names (mid h) b" and "names (mid h) old" and "wf_body b" and "room_for old"
  shows "reads (\<lambda>m s. sim_decode_msg m s h old) (body_bytes b) (0, received old b)"
  using assms
  by (cases b; cases old)
    (auto simp: sim_decode_msg_def Let_def msg_ids simp del: body_bytes.simps wf_body.simps room_for.simps
      split del: if_split
      intro!: through_get connect_get segment_get segment_ack_get feedback_get pad_get plain_gets)

section \<open>The whole datagram\<close>

lemma crc32_contents:
  "data s = Some d \<Longrightarrow> n \<le> used s \<Longrightarrow> used s \<le> length d \<Longrightarrow>
     crc32 CRC_VAL d n = Some (sim_crc (take n (contents s)))"
  by (simp add: crc32_def peek_in sim_crc_def contents_def min_def)

lemma rewind_w: "stream_w s \<Longrightarrow> stream_w (bin_stream_rewind s 1)"
  and rewind_contents: "stream_w s \<Longrightarrow> contents (bin_stream_rewind s 1) = []"
  and rewind_used: "used (bin_stream_rewind s 1) = 0" "rsize (bin_stream_rewind s 1) = 0"
  by (auto simp: bin_stream_rewind_def Let_def stream_w_def stream_r_def contents_def)

lemma unat_u16_bound: "unat (n :: u16) < 65536"
  using unsigned_less [of n, where ?'a = nat] by simp

lemma nack_bytes_length: "length (concat (map (be_bytes 2) ns)) = 2 * length ns"
  by (induction ns) simp_all

lemma body_bytes_bound: "length (body_bytes b) < 2 ^ 20"
proof -
  have data: "length (data_bytes n d) < 65540" for n d using unat_u16_bound [of n] by (simp add: data_bytes_def)
  have nack: "length (concat (map (be_bytes 2) (take (unat n) ns))) < 600" for n :: u8 and ns
    using unsigned_less [of n, where ?'a = nat] by (simp add: nack_bytes_length)
  show ?thesis
  proof (cases b)
    case (Connect x)
    then show ?thesis using data [of "con_token_size x" "con_token x"] by simp
  next
    case (Segment x)
    have "length (wide_bytes v) \<le> 4" "length (index_bytes t w) \<le> 2" for v t w
      by (simp_all add: wide_bytes_def index_bytes_def)
    from this(1) [of "seg_packet_id x"] this(1) [of "seg_fid x"] this(2) [of "seg_total x" "seg_index x"]
      this(2) [of "seg_total x" "seg_total x"] Segment
    show ?thesis using data [of "seg_data_size x" "seg_data x"] by simp
  next
    case (SegmentAck x)
    then show ?thesis using nack [of "sack_nack_num x" "sack_nack x"] by simp
  next
    case (Feedback x)
    then show ?thesis using data [of "fb_feedback_size x" "fb_feedback x"] by simp
  next
    case (Pad x)
    then show ?thesis using data [of "pad_data_size x" "pad_data x"] by simp
  qed simp_all
qed

lemma encode_msg_bytes:
  assumes m: "machine_ready m" and s: "stream_w s" and b: "names (mid h) b" "wf_body b"
  shows "\<exists>s'. sim_encode_msg m s h b = Some s' \<and> stream_w s' \<and> contents s' = msg_bytes h b \<and>
           used s' = length (msg_bytes h b) \<and> rsize s' = 0"
proof -
  let ?p = "header_bytes h @ body_bytes b" and ?s0 = "bin_stream_rewind s 1"
  have "length (header_bytes h) = 6" by (simp add: header_bytes_def)
  then have room: "used ?s0 + length ?p \<le> stream_limit" "used ?s0 + length ?p + 4 \<le> stream_limit"
    using body_bytes_bound [of b] by (simp_all add: rewind_used stream_limit_def)
  have "writes (\<lambda>m s. Option.bind (sim_encode_header m s h) (\<lambda>s. encode_body m s (mid h) b)) ?p"
    by (intro writes_bind header_put body_put b)
  with m rewind_w [OF s] room obtain s1 where
    s1: "Option.bind (sim_encode_header m ?s0 h) (\<lambda>s. encode_body m s (mid h) b) = Some s1"
      "appended ?s0 s1 ?p" unfolding writes_def by blast
  then have p: "contents s1 = ?p" "used s1 = length ?p" "rsize s1 = 0" "stream_w s1"
    using rewind_contents [OF s] by (auto simp: appended_def rewind_used)
  obtain d where d: "data s1 = Some d" "used s1 \<le> length d"
    using p(4) by (auto simp: stream_w_def stream_r_def)
  have crc: "crc32 CRC_VAL d (used s1) = Some (sim_crc ?p)"
    using crc32_contents [OF d(1) order_refl d(2)] p by simp
  have "used s1 + length (be_bytes 4 (sim_crc ?p)) \<le> stream_limit" using p room by (simp add: rewind_used)
  from writesD [OF cu32.put_enc m p(4) this] obtain s2 where
    "mach_uint32_write m s1 (sim_crc ?p) = Some s2" "appended s1 s2 (be_bytes 4 (sim_crc ?p))" by blast
  with s1(1) d crc p show ?thesis
    by (auto simp: sim_encode_msg_def bind_eq_Some_conv appended_def msg_bytes_def Let_def)
qed

text \<open>The header decoder in terms of the received bytes: compare the checksum, then read three fields.\<close>

lemma decode_header_split:
  assumes m: "machine_ready m" and s: "stream_r s" and c: "contents s = p @ c4" "length c4 = 4"
  shows "sim_decode_header m s h =
     (if be_word c4 = sim_crc p
      then Option.bind (mach_uint8_read m s) (\<lambda>(v, s). Option.bind (mach_uint8_read m s)
             (\<lambda>(i, s). Option.bind (mach_uint32_read m s) (\<lambda>(u, s). Some ((0, h\<lparr>ver := v, mid := i, uid := u\<rparr>), s))))
      else Some ((-1, h), s))"
proof -
  obtain d where d: "data s = Some d" "used s \<le> length d" "ssize s \<le> 2 ^ 63" "used s \<le> ssize s"
    using s by (auto simp: stream_r_def)
  have len: "used s = length p + 4" using arg_cong [OF c(1), of length] c(2) d by (simp add: contents_def)
  have "take (used s) d = p @ c4" using c d by (simp add: contents_def)
  then have "take 4 (drop (length p) d) = c4"
    using c(2) len by (metis append_eq_conv_conj add_diff_cancel_left' drop_take)
  then have pos: "peek d (used s - 4) 4 = Some c4" using d(2) len by (simp add: peek_in)
  have sub: "size_sub (used s) 4 = length p" using len d by (simp add: size_sub_id size_max_def)
  have "crc32 CRC_VAL d (length p) = Some (sim_crc p)"
    using crc32_contents [OF d(1) _ d(2), of "length p"] len c by simp
  with pos sub d len show ?thesis
    by (simp add: sim_decode_header_def mach_get_word(2) [OF m c(2)])
qed

lemma decode_msg_bytes:
  assumes m: "machine_ready m" and r: "stream_r r" "rsize r = 0" "contents r = msg_bytes h b"
    and b: "names (mid h) b" "wf_body b" and old: "names (mid h) old" "room_for old"
  shows "\<exists>r1 r2. sim_decode_header m r h0 = Some ((0, h), r1) \<and>
           sim_decode_msg m r1 h old = Some ((0, received old b), r2) \<and> length (unread r2) = 4"
proof -
  let ?p = "header_bytes h @ body_bytes b" let ?c = "be_bytes 4 (sim_crc ?p)"
  have c: "contents r = ?p @ ?c" using r by (simp add: msg_bytes_def Let_def)
  have u: "unread r = header_bytes h @ (body_bytes b @ ?c)" using c r by (simp add: unread_def)
  from readsD [OF header_get [of h0 h] m r(1) u] obtain r1 where
    r1: "sim_decode_header m r h0 = Some ((0, h), r1)" "consumed r r1 (body_bytes b @ ?c)"
    unfolding decode_header_split [OF m r(1) c be_bytes_length] by (auto simp: be_word_bytes_full)
  then have "stream_r r1" "unread r1 = body_bytes b @ ?c"
    using read_upto_r [OF _ r(1)] by (auto simp: consumed_def)
  from readsD [OF body_get [OF b(1) old(1) b(2) old(2)] m this] obtain r2 where
    "sim_decode_msg m r1 h old = Some ((0, received old b), r2)" "unread r2 = ?c" by (auto simp: consumed_def)
  with r1 show ?thesis by auto
qed

section \<open>Decoding untrusted datagrams\<close>

text \<open>A read that always returns, inside the buffer, with a result that satisfies \<open>P\<close>.\<close>

definition yields :: "(machine \<Rightarrow> bin_stream \<Rightarrow> ('a \<times> bin_stream) option) \<Rightarrow> ('a \<Rightarrow> bool) \<Rightarrow> bool" where
  "yields g P \<longleftrightarrow>
     (\<forall>m s. machine_ready m \<longrightarrow> stream_r s \<longrightarrow> (\<exists>v s'. g m s = Some (v, s') \<and> P v \<and> read_upto s s'))"

lemma yieldsD: "yields g P \<Longrightarrow> machine_ready m \<Longrightarrow> stream_r s \<Longrightarrow> \<exists>v s'. g m s = Some (v, s') \<and> P v \<and> read_upto s s'"
  by (simp add: yields_def)

lemma yields_bind:
  assumes "yields g P" and "\<And>x. P x \<Longrightarrow> yields (h x) Q"
  shows "yields (\<lambda>m s. Option.bind (g m s) (\<lambda>(x, s'). h x m s')) Q"
  unfolding yields_def
proof (intro allI impI)
  fix m s
  assume m: "machine_ready m" and s: "stream_r s"
  from yieldsD [OF assms(1) m s] obtain v s1 where 1: "g m s = Some (v, s1)" "P v" "read_upto s s1" by blast
  from yieldsD [OF assms(2) [OF 1(2)] m read_upto_r [OF 1(3) s]] obtain w s2 where
    "h v m s1 = Some (w, s2)" "Q w" "read_upto s1 s2" by blast
  with 1 show "\<exists>v s'. Option.bind (g m s) (\<lambda>(x, s'). h x m s') = Some (v, s') \<and> Q v \<and> read_upto s s'"
    by (auto dest: read_upto_trans)
qed

lemma yields_return: "P v \<Longrightarrow> yields (\<lambda>m s. Some (v, s)) P"
  by (simp add: yields_def read_upto_refl)

lemma yields_safe: "safe_read g \<Longrightarrow> yields g (\<lambda>_. True)"
  by (simp add: yields_def safe_read_def)

lemma yields_data_bind:
  assumes "cap \<le> length arr"
    and "\<And>n d. length d = length arr \<Longrightarrow> unat (size_or_0 n) \<le> cap \<Longrightarrow> yields (h n d) Q"
  shows "yields (\<lambda>m s. Option.bind (mach_data_read m s arr cap) (\<lambda>((n, d), s'). h n d m s')) Q"
proof -
  have "yields (\<lambda>m s. mach_data_read m s arr cap)
      (\<lambda>(n, d). length d = length arr \<and> unat (size_or_0 n) \<le> cap)"
    using data_read_safe [OF _ _ assms(1)] by (fastforce simp: yields_def size_or_0_def split_beta)
  from yields_bind [OF this, where h = "\<lambda>(n, d). h n d" and Q = Q] assms(2)
  have "yields (\<lambda>m s. Option.bind (mach_data_read m s arr cap) (\<lambda>(x, s'). (case x of (n, d) \<Rightarrow> h n d) m s')) Q"
    by auto
  moreover have "(\<lambda>((n, d), s'). h n d m s') = (\<lambda>(x, s'). (case x of (n, d) \<Rightarrow> h n d) m s')" for m
    by (auto simp: fun_eq_iff)
  ultimately show ?thesis by simp
qed

lemma yields_nack_bind:
  assumes "k \<le> length arr" and "\<And>ns. length ns = length arr \<Longrightarrow> yields (h ns) Q"
  shows "yields (\<lambda>m s. Option.bind (nack_read_loop k 0 arr m s) (\<lambda>(x, s'). h x m s')) Q"
proof (rule yields_bind [where h = h and P = "\<lambda>ns. length ns = length arr", OF _ assms(2)])
  have "i + j = k \<Longrightarrow> length a = length arr \<Longrightarrow> yields (nack_read_loop j i a) (\<lambda>ns. length ns = length arr)" for i j a
  proof (induction j arbitrary: i a)
    case 0
    then show ?case by (simp add: yields_def read_upto_refl)
  next
    case (Suc j)
    then have IH: "yields (nack_read_loop j (Suc i) (a[i := v])) (\<lambda>ns. length ns = length arr)" for v by simp
    from yields_bind [OF yields_safe [OF cu16.get_safely], where h = "\<lambda>v. nack_read_loop j (Suc i) (a[i := v])", OF IH]
    show ?case using Suc.prems assms(1) by (simp add: yields_def)
  qed
  from this [of 0 k arr] show "yields (nack_read_loop k 0 arr) (\<lambda>ns. length ns = length arr)" by simp
qed simp

lemma yields_wide: "yields (read_32_or_16 c) (\<lambda>_. True)" "yields (read_16_or_8 c) (\<lambda>_. True)"
  unfolding read_32_or_16_def [abs_def] read_16_or_8_def [abs_def]
  by (intro yields_safe safe_read_if cu32.get_safely cu16.get_safely cu16.get_bind_safe cu8.get_bind_safe
      safe_read_return)+

lemmas scalar_yields = yields_safe [OF cu8.get_safely] yields_safe [OF cu16.get_safely] yields_safe [OF cu32.get_safely]
  yields_safe [OF ci8.get_safely] yields_safe [OF ci64.get_safely] yields_wide

lemmas yields_rules = yields_data_bind yields_nack_bind scalar_yields [THEN yields_bind] yields_return

definition decodes_wf :: "u8 \<Rightarrow> ('b \<Rightarrow> sim_body) \<Rightarrow> (machine \<Rightarrow> bin_stream \<Rightarrow> ((int \<times> 'b) \<times> bin_stream) option) \<Rightarrow> bool" where
  "decodes_wf i con g \<longleftrightarrow> yields g (\<lambda>(r, b). r = 0 \<and> names i (con b) \<and> wf_body (con b))"

lemma decoders_wf:
  "room_for (Connect b0) \<Longrightarrow> names i (Connect b0) \<Longrightarrow> decodes_wf i Connect (\<lambda>m s. sim_connect_decode m s b0)"
  "room_for (Segment b1) \<Longrightarrow> names i (Segment b1) \<Longrightarrow> decodes_wf i Segment (\<lambda>m s. sim_segment_decode m s b1)"
  "room_for (SegmentAck b2) \<Longrightarrow> names i (SegmentAck b2) \<Longrightarrow> decodes_wf i SegmentAck (\<lambda>m s. sim_segment_ack_decode m s b2)"
  "room_for (Feedback b3) \<Longrightarrow> names i (Feedback b3) \<Longrightarrow> decodes_wf i Feedback (\<lambda>m s. sim_feedbak_decode m s b3)"
  "room_for (Pad b4) \<Longrightarrow> names i (Pad b4) \<Longrightarrow> decodes_wf i Pad (\<lambda>m s. sim_pad_decode m s b4)"
  "room_for (ConnectAck b5) \<Longrightarrow> names i (ConnectAck b5) \<Longrightarrow> decodes_wf i ConnectAck (\<lambda>m s. sim_connect_ack_decode m s b5)"
  "room_for (Disconnect b6) \<Longrightarrow> names i (Disconnect b6) \<Longrightarrow> decodes_wf i Disconnect (\<lambda>m s. sim_disconnect_decode m s b6)"
  "room_for (Ping b7) \<Longrightarrow> names i (Ping b7) \<Longrightarrow> decodes_wf i Ping (\<lambda>m s. sim_ping_decode m s b7)"
  "room_for (Fir b8) \<Longrightarrow> names i (Fir b8) \<Longrightarrow> decodes_wf i Fir (\<lambda>m s. sim_fir_decode m s b8)"
  unfolding decodes_wf_def sim_connect_decode_def sim_segment_decode_def sim_segment_ack_decode_def sim_feedbak_decode_def
    sim_pad_decode_def sim_connect_ack_decode_def sim_disconnect_decode_def sim_ping_decode_def sim_fir_decode_def
  by (intro yields_rules; simp add: array_sizes unat_of_nat min_def)+

lemma yields_through:
  "decodes_wf i con g \<Longrightarrow> yields (\<lambda>m s. through con (g m s)) (\<lambda>(r, b). r = 0 \<and> names i b \<and> wf_body b)"
  unfolding decodes_wf_def by (fastforce simp: yields_def through_def)

lemma body_yields:
  assumes "names (mid h) old" and "room_for old"
  shows "yields (\<lambda>m s. sim_decode_msg m s h old) (\<lambda>(r, b). r = 0 \<and> names (mid h) b \<and> wf_body b)"
  using assms
  by (cases old)
    (auto simp: sim_decode_msg_def Let_def msg_ids simp del: wf_body.simps room_for.simps
      intro!: yields_through decoders_wf)

lemma split_last4: "4 \<le> length xs \<Longrightarrow> \<exists>p c4. xs = p @ c4 \<and> length c4 = 4"
  by (rule exI [of _ "take (length xs - 4) xs"], rule exI [of _ "drop (length xs - 4) xs"]) simp

lemma header_yields:
  "yields (\<lambda>m s. Option.bind (mach_uint8_read m s) (\<lambda>(v, s). Option.bind (mach_uint8_read m s)
      (\<lambda>(i, s). Option.bind (mach_uint32_read m s) (\<lambda>(u, s). Some ((0 :: int, old\<lparr>ver := v, mid := i, uid := u\<rparr>), s)))))
    (\<lambda>(r, h). r = 0)"
  by (intro yields_rules) simp

lemma decode_header_safe:
  assumes m: "machine_ready m" and s: "stream_r s" "4 \<le> used s"
  shows "\<exists>r h' s'. sim_decode_header m s h = Some ((r, h'), s') \<and> (r = 0 \<or> r = -1) \<and> stream_r s'"
proof -
  have "length (contents s) = used s" using s by (auto simp: contents_def stream_r_def)
  with split_last4 s obtain p c4 where c: "contents s = p @ c4" "length c4 = 4" by metis
  from yieldsD [OF header_yields [of h] m s(1)] read_upto_r [OF _ s(1)] s show ?thesis
    unfolding decode_header_split [OF m s(1) c] by auto
qed

section \<open>Properties of the protocol\<close>

text \<open>
  C7: sending and receiving a message. Whatever the state of the sender's stream, encoding a
  well-formed message of any kind succeeds; a receiver whose stream holds exactly the encoded bytes
  accepts the checksum, recovers the header, and decodes the body into a struct of the right kind;
  only the four checksum bytes are left unread.
\<close>

theorem sim_msg_round_trip:
  assumes "machine_ready m" and "stream_w s" and "names (mid h) b" and "wf_body b"
    and "names (mid h) old" and "room_for old"
  shows "\<exists>s1. sim_encode_msg m s h b = Some s1 \<and>
     (\<forall>r. stream_r r \<and> rsize r = 0 \<and> contents r = contents s1 \<longrightarrow>
        (\<exists>r1 r2. sim_decode_header m r h0 = Some ((0, h), r1) \<and>
           sim_decode_msg m r1 h old = Some ((0, received old b), r2) \<and> length (unread r2) = 4))"
proof -
  from encode_msg_bytes [OF assms(1-4)] obtain s1 where
    "sim_encode_msg m s h b = Some s1" "contents s1 = msg_bytes h b" by blast
  with decode_msg_bytes [OF assms(1) _ _ _ assms(3-6)] show ?thesis by auto
qed

definition demo_machine :: machine where
  "demo_machine = le_machine\<lparr>big_endian := 0\<rparr>"

definition demo_stream :: bin_stream where
  "demo_stream = snd (snd (bin_stream_init le_machine no_stream))"

lemma demo_ready: "machine_ready demo_machine" "stream_w demo_stream" "rsize demo_stream = 0"
  using init_ok [of le_machine no_stream]
  by (auto simp: machine_ready_def demo_machine_def demo_stream_def le_machine_def bin_stream_init_def Let_def)

definition demo_pad :: sim_pad where
  "demo_pad = \<lparr>pad_send_ts = 7, pad_transport_seq = 3, pad_data_size = 500, pad_data = replicate 500 0xab\<rparr>"

definition demo_slot :: sim_pad where
  "demo_slot = \<lparr>pad_send_ts = 0, pad_transport_seq = 0, pad_data_size = 0, pad_data = replicate 500 0\<rparr>"

theorem sim_msg_round_trip_witness:
  "\<exists>s1 r1 r2. sim_encode_msg demo_machine demo_stream (INIT_SIM_HEADER SIM_PAD 9) (Pad demo_pad) = Some s1 \<and>
     sim_decode_header demo_machine s1 (INIT_SIM_HEADER 0 0) = Some ((0, INIT_SIM_HEADER SIM_PAD 9), r1) \<and>
     sim_decode_msg demo_machine r1 (INIT_SIM_HEADER SIM_PAD 9) (Pad demo_slot) = Some ((0, Pad demo_pad), r2)"
proof -
  have wf: "names (mid (INIT_SIM_HEADER SIM_PAD 9)) (Pad demo_pad)" "wf_body (Pad demo_pad)"
    "names (mid (INIT_SIM_HEADER SIM_PAD 9)) (Pad demo_slot)" "room_for (Pad demo_slot)"
    by (simp_all add: INIT_SIM_HEADER_def demo_pad_def demo_slot_def array_sizes)
  have got: "received (Pad demo_slot) (Pad demo_pad) = Pad demo_pad"
    by (simp add: demo_pad_def demo_slot_def fill_def)
  from encode_msg_bytes [OF demo_ready(1,2) wf(1,2)] obtain s1 where
    s1: "sim_encode_msg demo_machine demo_stream (INIT_SIM_HEADER SIM_PAD 9) (Pad demo_pad) = Some s1"
      "stream_r s1" "rsize s1 = 0" by (auto simp: stream_w_def)
  with sim_msg_round_trip [OF demo_ready(1,2) wf, of "INIT_SIM_HEADER 0 0"] got show ?thesis by auto
qed

text \<open>
  C10: memory safety of decoding. On any received bytes, at least four of them, the header decoder
  returns 0 or -1 without an access outside the buffer; decoding the body into a struct of the kind
  the received message id names then succeeds, and every size and count it leaves in the struct is
  within the struct's arrays.
\<close>

theorem sim_decode_safe:
  assumes "machine_ready m" and "stream_r s" and "4 \<le> used s"
  shows "\<exists>r h' s1. sim_decode_header m s h = Some ((r, h'), s1) \<and> (r = 0 \<or> r = -1) \<and>
     (\<forall>old. names (mid h') old \<and> room_for old \<longrightarrow>
        (\<exists>b s2. sim_decode_msg m s1 h' old = Some ((0, b), s2) \<and> names (mid h') b \<and> wf_body b))"
proof -
  from decode_header_safe [OF assms, of h] obtain r h' s1 where
    1: "sim_decode_header m s h = Some ((r, h'), s1)" "r = 0 \<or> r = -1" "stream_r s1" by blast
  have "\<exists>b s2. sim_decode_msg m s1 h' old = Some ((0, b), s2) \<and> names (mid h') b \<and> wf_body b"
    if "names (mid h') old" "room_for old" for old
    using yieldsD [OF body_yields [OF that] assms(1) 1(3)] by auto
  with 1 show ?thesis by blast
qed

definition datagram :: "bytes \<Rightarrow> bin_stream" where
  "datagram bs = \<lparr>data = Some bs, ssize = length bs, rptr = 0, rsize = 0, wptr = 0, used = length bs, magic = 0\<rparr>"

theorem sim_decode_safe_witness:
  "\<exists>r h' s1. sim_decode_header demo_machine (datagram [1, 2, 3, 4, 5]) (INIT_SIM_HEADER 0 0) = Some ((r, h'), s1)"
proof -
  have "stream_r (datagram [1, 2, 3, 4, 5])" by (simp add: stream_r_def datagram_def)
  with sim_decode_safe [OF demo_ready(1), of "datagram [1, 2, 3, 4, 5]" "INIT_SIM_HEADER 0 0"]
  show ?thesis by (auto simp: datagram_def)
qed

text \<open>
  A datagram of fewer than four bytes. The receive loops pass every datagram with at least one byte
  to \<open>sim_decode_header\<close>, which then reads its checksum from before the buffer: the access is outside
  the allocation for every stream with fewer than four bytes in use.
\<close>

theorem sim_decode_header_runt:
  "used s < 4 \<Longrightarrow> sim_decode_header m s h = None"
  by (cases "data s") (simp_all add: sim_decode_header_def)

theorem sim_decode_header_runt_witness:
  "sim_decode_header demo_machine (datagram [0x01]) (INIT_SIM_HEADER 0 0) = None"
  using sim_decode_header_runt [of "datagram [0x01]" demo_machine "INIT_SIM_HEADER 0 0"] by (simp add: datagram_def)

text \<open>
  C33: error detection. If a burst of at most four consecutive bytes of an encoded message is changed in
  transit, inside the header and body or inside the checksum, the receiver rejects the datagram with
  -1, leaves its header struct alone and reads nothing.
\<close>

theorem sim_burst_rejected:
  assumes "machine_ready m" and "stream_w s" and "names (mid h) b" and "wf_body b"
    and "sim_encode_msg m s h b = Some s1" and "contents s1 = pre @ xs @ post"
    and "length ys = length xs" and "length xs \<le> 4" and "ys \<noteq> xs"
    and "length pre + length xs \<le> used s1 - 4 \<or> used s1 - 4 \<le> length pre"
    and "stream_r r" and "contents r = pre @ ys @ post"
  shows "sim_decode_header m r h0 = Some ((-1, h0), r)"
proof -
  let ?p = "header_bytes h @ body_bytes b" let ?c = "be_bytes 4 (sim_crc ?p)"
  from encode_msg_bytes [OF assms(1-4)] assms(5) have msg: "contents s1 = ?p @ ?c" "used s1 = length ?p + 4"
    by (auto simp: msg_bytes_def Let_def)
  from assms(10) msg(2) consider (payload) "length (pre @ xs) \<le> length ?p" | (crc) "length ?p \<le> length pre" by auto
  then show ?thesis
  proof cases
    case payload
    from msg(1) assms(6) have "(pre @ xs) @ post = ?p @ ?c" by simp
    from prefix_split [OF this payload] obtain q where q: "?p = pre @ xs @ q" "post = q @ ?c" by auto
    have "crc_ref (CRC_VAL XOR NOT 0) (pre @ xs @ q) \<noteq> crc_ref (CRC_VAL XOR NOT 0) (pre @ ys @ q)"
      using assms(7-9) by (intro crc_ref_burst) auto
    then have "sim_crc ?p \<noteq> sim_crc (pre @ ys @ q)"
      using xor_right_cancel unfolding sim_crc_def crc32_loop_ref q(1) by blast
    then show ?thesis
      using decode_header_split [OF assms(1,11), of "pre @ ys @ q" ?c h0] assms(12) q(2)
      by (simp add: be_word_bytes_full)
  next
    case crc
    from msg(1) assms(6) have "?p @ ?c = pre @ (xs @ post)" by simp
    from prefix_split [OF this crc] obtain q where q: "pre = ?p @ q" "?c = q @ xs @ post" by auto
    have len: "length (q @ ys @ post) = 4" using arg_cong [OF q(2), of length] assms(7) by simp
    have "be_bytes 4 (be_word (q @ ys @ post) :: u32) = q @ ys @ post"
      using be_bytes_word [of "q @ ys @ post", where ?'a = 32] len by simp
    moreover have "q @ ys @ post \<noteq> ?c" using q(2) assms(7,9) by simp
    ultimately have "(be_word (q @ ys @ post) :: u32) \<noteq> sim_crc ?p" by auto
    then show ?thesis
      using decode_header_split [OF assms(1,11), of ?p "q @ ys @ post" h0] assms(12) q(1) len by simp
  qed
qed

theorem sim_burst_rejected_witness:
  "\<exists>r. contents r \<noteq> [] \<and> sim_decode_header demo_machine r (INIT_SIM_HEADER 0 0) = Some ((-1, INIT_SIM_HEADER 0 0), r)"
proof -
  let ?h = "INIT_SIM_HEADER SIM_FIR 5" and ?b = "Fir \<lparr>fir_seq = 1\<rparr>"
  have wf: "names (mid ?h) ?b" "wf_body ?b" by (simp_all add: INIT_SIM_HEADER_def)
  from encode_msg_bytes [OF demo_ready(1,2) wf] obtain s1 where
    s1: "sim_encode_msg demo_machine demo_stream ?h ?b = Some s1" "contents s1 = msg_bytes ?h ?b"
      "used s1 = length (msg_bytes ?h ?b)" by blast
  define post where "post = tl (msg_bytes ?h ?b)"
  have c: "contents s1 = [] @ [1] @ post"
    by (simp add: s1 post_def msg_bytes_def Let_def header_bytes_def INIT_SIM_HEADER_def protocol_ver_def)
  have u: "used s1 = 14" by (simp add: s1 msg_bytes_def Let_def header_bytes_def)
  let ?r = "datagram ([] @ [2] @ post)"
  have "length post < 100" by (simp add: post_def msg_bytes_def Let_def header_bytes_def)
  then have r: "stream_r ?r" "contents ?r = [] @ [2] @ post"
    by (simp_all add: stream_r_def datagram_def contents_def)
  have "sim_decode_header demo_machine ?r (INIT_SIM_HEADER 0 0) = Some ((-1, INIT_SIM_HEADER 0 0), ?r)"
    by (rule sim_burst_rejected [OF demo_ready(1,2) wf s1(1) c _ _ _ _ r]) (simp_all add: u)
  then show ?thesis by (intro exI [of _ ?r]) (use r(2) in auto)
qed

text \<open>
  The message names are pairwise distinct and identify the message kinds: two ids with the same name
  are equal unless both are unknown, and a body can only be encoded under an id that has a name.
\<close>

theorem sim_get_msg_name_inj:
  assumes "sim_get_msg_name i = sim_get_msg_name j" and "sim_get_msg_name i \<noteq> ''unknown message''"
  shows "i = j"
  using assms by (auto simp: sim_get_msg_name_def split: if_splits)

theorem sim_get_msg_name_inj_witness: "SIM_FIR = (0x1a :: u8)"
  using sim_get_msg_name_inj [of SIM_FIR "0x1a"] by (simp add: sim_get_msg_name_def msg_ids)

end
