(* ===== verification/Su_Addr.thy ===== *)
theory Su_Addr
  imports Bin_Stream Quic_Time
begin

text \<open>
  Socket addresses of \<^verbatim>\<open>razor/posix.c\<close> and \<^verbatim>\<open>quic-test/net/posix.c\<close>: the two files are copies that differ in one character of
  \<open>su_string_to_addr\<close>, which is the flag \<open>nul\<close> here (\<open>True\<close> for \<^verbatim>\<open>razor\<close>). A C string is a list of bytes with a zero in it; reading beyond the
  list is \<open>None\<close>. \<open>inet_addr\<close> and \<open>inet_ntop\<close> of the operating system are parameters, and so is what \<open>recvfrom\<close> finds.
\<close>

section \<open>Addresses\<close>

record su_addr =
  sin_addr :: u32
  sin_port :: u16

definition IP_SIZE :: nat where "IP_SIZE = 32"

definition htons :: "machine \<Rightarrow> u16 \<Rightarrow> u16" where
  "htons m w = native_word m (be_bytes 2 w)"

definition ntohs :: "machine \<Rightarrow> u16 \<Rightarrow> u16" where
  "ntohs m w = be_word (native_bytes m 2 w)"

definition su_set_addr :: "machine \<Rightarrow> (bytes \<Rightarrow> u32) \<Rightarrow> bytes \<Rightarrow> u16 \<Rightarrow> su_addr" where
  "su_set_addr m inet_addr ip port = \<lparr>sin_addr = inet_addr (takeWhile (\<lambda>c. c \<noteq> 0) ip), sin_port = htons m port\<rparr>"

definition su_set_addr2 :: "machine \<Rightarrow> u32 \<Rightarrow> u16 \<Rightarrow> su_addr" where
  "su_set_addr2 m ip port = \<lparr>sin_addr = ip, sin_port = htons m port\<rparr>"

definition su_addr_to_addr :: "su_addr \<Rightarrow> su_addr \<Rightarrow> su_addr" where
  "su_addr_to_addr src dst = dst\<lparr>sin_port := sin_port src, sin_addr := sin_addr src\<rparr>"

definition su_addr_cmp :: "su_addr \<Rightarrow> su_addr \<Rightarrow> int" where
  "su_addr_cmp src dst =
     (if sin_addr src > sin_addr dst then 1 else if sin_addr src < sin_addr dst then - 1
      else if sin_port src > sin_port dst then 1 else if sin_port src < sin_port dst then - 1 else 0)"

definition su_addr_eq :: "su_addr \<Rightarrow> su_addr \<Rightarrow> int" where
  "su_addr_eq src dst = (if sin_addr src = sin_addr dst \<and> sin_port src = sin_port dst then 0 else - 1)"

definition su_addr_to_iport :: "machine \<Rightarrow> (u32 \<Rightarrow> bytes) \<Rightarrow> su_addr \<Rightarrow> int \<Rightarrow> (bytes \<times> u16) option" where
  "su_addr_to_iport m inet_ntop addr len = (if len < 24 then None else Some (inet_ntop (sin_addr addr), ntohs m (sin_port addr)))"

section \<open>Numbers in strings\<close>

text \<open>\<open>atoi\<close> of the C library: a value that is no \<open>int\<close> is undefined.\<close>

definition is_space :: "u8 \<Rightarrow> bool" where "is_space c \<longleftrightarrow> c = 32 \<or> (9 \<le> c \<and> c \<le> 13)"
definition is_digit :: "u8 \<Rightarrow> bool" where "is_digit c \<longleftrightarrow> 48 \<le> c \<and> c \<le> 57"

fun atoi_digits :: "bytes \<Rightarrow> int \<Rightarrow> int option" where
  "atoi_digits [] v = None"
| "atoi_digits (c # cs) v = (if is_digit c then atoi_digits cs (10 * v + (uint c - 48)) else Some v)"

definition atoi :: "bytes \<Rightarrow> int option" where
  "atoi cs = do {
     v \<leftarrow> (case dropWhile is_space cs of
             [] \<Rightarrow> None
           | c # r \<Rightarrow> if c = 45 then map_option uminus (atoi_digits r 0) else if c = 43 then atoi_digits r 0 else atoi_digits (c # r) 0);
     (if - (2 ^ 31) \<le> v \<and> v < 2 ^ 31 then Some v else None)
   }"

section \<open>Parsing an address\<close>

text \<open>The do-while loop: \<open>i\<close> bytes are copied when it ends. The first is copied unseen.\<close>

function copy_ip :: "bool \<Rightarrow> bytes \<Rightarrow> nat \<Rightarrow> nat option" where
  "copy_ip nul str i =
     (if i + 1 < length str
      then if str ! (i + 1) \<noteq> 58 \<and> (nul \<longrightarrow> str ! (i + 1) \<noteq> 0) \<and> i + 1 < IP_SIZE - 1 then copy_ip nul str (i + 1) else Some (i + 1)
      else None)"
  by auto
termination by (relation "measure (\<lambda>(_, _, i). IP_SIZE - i)") auto

declare copy_ip.simps [simp del]

definition su_string_to_addr :: "bool \<Rightarrow> machine \<Rightarrow> (bytes \<Rightarrow> u32) \<Rightarrow> bytes \<Rightarrow> su_addr option" where
  "su_string_to_addr nul m inet_addr str = do {
     i \<leftarrow> copy_ip nul str 0;
     let pos = (if str ! i = 58 then i + 1 else i);
     port \<leftarrow> atoi (drop pos str);
     Some (su_set_addr m inet_addr (take i str @ replicate (IP_SIZE - i) 0) (word_of_int port))
   }"

text \<open>\<open>strrchr\<close> finds the last colon; the part before it is copied with a zero, the part after it read as a number.\<close>

definition su_addrstr_to_iport :: "bytes \<Rightarrow> (bytes option \<times> int) option" where
  "su_addrstr_to_iport str =
     (let s = takeWhile (\<lambda>c. c \<noteq> 0) str in
      if 0 \<notin> set str then None
      else if 58 \<in> set s
      then let len = length s - 1 - length (takeWhile (\<lambda>c. c \<noteq> 58) (rev s))
           in map_option (\<lambda>v. (Some (take len s @ [0]), uint (word_of_int v :: u16))) (atoi (drop (len + 1) str))
      else Some (None, - 1))"

section \<open>Datagrams\<close>

text \<open>\<open>recvfrom\<close> copies at most \<open>len\<close> bytes of a datagram and drops the rest; no datagram, or an empty one, is -1.\<close>

definition su_udp_recv :: "(su_addr \<times> bytes) option \<Rightarrow> bytes \<Rightarrow> nat \<Rightarrow> (int \<times> su_addr option \<times> bytes) option" where
  "su_udp_recv incoming buf len =
     (case incoming of
        None \<Rightarrow> Some (- 1, None, buf)
      | Some (a, bs) \<Rightarrow> map_option (\<lambda>buf. (if take len bs = [] then - 1 else int (length (take len bs)), Some a, buf)) (poke buf 0 (take len bs)))"

section \<open>Properties\<close>

lemma copy_ip_colon:
  assumes "\<And>j. i < j \<Longrightarrow> j < n \<Longrightarrow> str ! j \<noteq> 58 \<and> str ! j \<noteq> 0" and "str ! n = 58" and "i < n" and "n < length str" and "n < IP_SIZE"
  shows "copy_ip nul str i = Some n"
  using assms
proof (induction nul str i rule: copy_ip.induct)
  case (1 nul str i)
  show ?case
  proof (cases "i + 1 = n")
    case True
    then show ?thesis using "1.prems" by (simp add: copy_ip.simps [of nul str i])
  next
    case False
    then have c: "str ! (i + 1) \<noteq> 58 \<and> (nul \<longrightarrow> str ! (i + 1) \<noteq> 0) \<and> i + 1 < IP_SIZE - 1" "i + 1 < length str"
      using "1.prems" by auto
    have "copy_ip nul str (i + 1) = Some n" using "1.IH" [OF c(2,1)] "1.prems" False by auto
    then show ?thesis using c by (simp add: copy_ip.simps [of nul str i])
  qed
qed

lemma copy_ip_runs_out:
  assumes "58 \<notin> set str" and "length str \<le> IP_SIZE - 1"
  shows "copy_ip False str i = None"
  using assms
proof (induction "False" str i rule: copy_ip.induct)
  case (1 str i)
  show ?case
  proof (cases "i + 1 < length str")
    case True
    then have "str ! (i + 1) \<noteq> 58" using "1.prems"(1) by (metis nth_mem)
    with True 1 show ?thesis by (simp add: copy_ip.simps [of False str i])
  qed (simp add: copy_ip.simps [of False str i])
qed

text \<open>Printed numbers are read back.\<close>

definition digit_bytes :: "nat \<Rightarrow> bytes" where
  "digit_bytes n = map of_char (decimal n)"

lemma digit_byte: "d < 10 \<Longrightarrow> of_char (char_of (48 + d)) = (of_nat (48 + d) :: u8)" "d < 10 \<Longrightarrow> is_digit (of_nat (48 + d))"
  "d < 10 \<Longrightarrow> uint (of_nat (48 + d) :: u8) - 48 = int d"
proof -
  assume d: "d < 10"
  have "of_char (char_of (48 + d)) = (of_nat (of_char (char_of (48 + d))) :: u8)" by (simp only: of_nat_of_char)
  also have "(of_char (char_of (48 + d)) :: nat) = 48 + d" using d by simp
  finally show "of_char (char_of (48 + d)) = (of_nat (48 + d) :: u8)" .
  have "unat (of_nat (48 + d) :: u8) = 48 + d" using d by (simp only: unat_of_nat) simp
  then show "is_digit (of_nat (48 + d))" "uint (of_nat (48 + d) :: u8) - 48 = int d"
    using d by (simp_all only: is_digit_def word_le_nat_alt uint_nat) simp_all
qed

lemma digits_read: "atoi_digits (digit_bytes n @ cs) v = atoi_digits cs (v * 10 ^ length (decimal n) + int n)"
proof (induction n arbitrary: v cs rule: decimal.induct)
  case (1 n)
  show ?case
  proof (cases "n < 10")
    case True
    then show ?thesis using digit_byte [of n] by (simp add: digit_bytes_def decimal.simps [of n] mult.commute)
  next
    case False
    have d: "n mod 10 < 10" by simp
    have "digit_bytes n = digit_bytes (n div 10) @ [of_nat (48 + n mod 10)]" "length (decimal n) = length (decimal (n div 10)) + 1"
      using False digit_byte(1) [OF d] by (simp_all add: digit_bytes_def decimal.simps [of n])
    moreover have "int n = 10 * int (n div 10) + int (n mod 10)" by presburger
    ultimately show ?thesis
      using "1.IH" [OF False, of "of_nat (48 + n mod 10) # cs" v] digit_byte(2,3) [OF d] by (simp add: algebra_simps)
  qed
qed

lemma digits_start: "\<exists>c cs. digit_bytes n = c # cs \<and> is_digit c"
proof (induction n rule: decimal.induct)
  case (1 n)
  show ?case
  proof (cases "n < 10")
    case True
    then show ?thesis using digit_byte [of n] by (simp add: digit_bytes_def decimal.simps [of n])
  next
    case False
    then show ?thesis using "1.IH" [OF False] by (auto simp: digit_bytes_def decimal.simps [of n])
  qed
qed

lemma atoi_digit_bytes:
  assumes "n < 2 ^ 31" and "\<not> is_digit c"
  shows "atoi (digit_bytes n @ c # cs) = Some (int n)"
proof -
  obtain d ds where d: "digit_bytes n = d # ds" "is_digit d" using digits_start by blast
  then have "\<not> is_space d" "d \<noteq> 45" "d \<noteq> 43" by (auto simp: is_digit_def is_space_def word_le_nat_alt)
  then have "atoi (digit_bytes n @ c # cs) = Option.bind (atoi_digits (digit_bytes n @ c # cs) 0) (\<lambda>v. if - (2 ^ 31) \<le> v \<and> v < 2 ^ 31 then Some v else None)"
    by (simp add: atoi_def d(1))
  with assms show ?thesis by (simp add: digits_read)
qed

text \<open>
  An address printed as \<open>ip:port\<close>, with an ip part of 1 to 31 characters, is parsed to that ip and port, by both versions of the parser.
\<close>

theorem address_parsed:
  assumes "ip \<noteq> []" and "length ip < IP_SIZE" and "58 \<notin> set ip" and "0 \<notin> set ip" and "port < 2 ^ 16"
  shows "su_string_to_addr nul m inet_addr (ip @ 58 # digit_bytes port @ 0 # rest) = Some \<lparr>sin_addr = inet_addr ip, sin_port = htons m (of_nat port)\<rparr>"
proof -
  let ?s = "ip @ 58 # digit_bytes port @ 0 # rest"
  have "copy_ip nul ?s 0 = Some (length ip)"
    using assms(1-4) by (intro copy_ip_colon) (auto simp: nth_append dest: nth_mem)
  moreover have "atoi (digit_bytes port @ 0 # rest) = Some (int port)"
    using assms(5) by (intro atoi_digit_bytes) (auto simp: is_digit_def word_le_nat_alt)
  moreover have "takeWhile (\<lambda>c. c \<noteq> 0) (ip @ replicate (IP_SIZE - length ip) 0) = ip"
    using assms(2,4) by (subst takeWhile_append2) (auto simp: Suc_diff_le takeWhile_replicate)
  ultimately show ?thesis using assms(2) by (simp add: su_string_to_addr_def su_set_addr_def)
qed

theorem address_parsed_witness:
  "su_string_to_addr True le_machine (\<lambda>ip. of_nat (length ip)) ([49, 46, 50] @ 58 # digit_bytes 4321 @ 0 # []) =
     Some \<lparr>sin_addr = 3, sin_port = htons le_machine 4321\<rparr>"
  using address_parsed [of "[49, 46, 50]" 4321 True le_machine "\<lambda>ip. of_nat (length ip)" "[]"] by (simp add: IP_SIZE_def)

text \<open>
  An address without a colon. The parser of \<^verbatim>\<open>quic-test\<close> compares the pointer, not the character, with zero: on every string shorter than its
  buffer it runs past the terminating zero and out of the string. That of \<^verbatim>\<open>razor\<close> stops at the zero and takes port 0.
\<close>

theorem address_without_colon:
  assumes "cs \<noteq> []" and "0 \<notin> set cs" and "58 \<notin> set cs" and "length cs < IP_SIZE - 1"
  shows "su_string_to_addr False m inet_addr (cs @ [0]) = None \<and>
     su_string_to_addr True m inet_addr (cs @ [0]) = Some \<lparr>sin_addr = inet_addr cs, sin_port = htons m 0\<rparr>"
proof -
  have "copy_ip True (cs @ [0]) i = Some (length cs)" if "i < length cs" for i
    using that
  proof (induction "length cs - i" arbitrary: i)
    case (Suc n)
    show ?case
    proof (cases "i + 1 = length cs")
      case True
      then show ?thesis using Suc.prems by (simp add: copy_ip.simps [of True _ i] nth_append)
    next
      case False
      then have i: "i + 1 < length cs" using Suc.prems by simp
      then have "cs ! (i + 1) \<noteq> 58" "cs ! (i + 1) \<noteq> 0" using assms(2,3) by (metis nth_mem)+
      with i assms(4) Suc.hyps(1) [of "i + 1"] Suc.hyps(2) show ?thesis
        by (simp add: copy_ip.simps [of True _ i] nth_append)
    qed
  qed simp
  then have "copy_ip True (cs @ [0]) 0 = Some (length cs)" using assms(1) by simp
  moreover have "takeWhile (\<lambda>c. c \<noteq> 0) (cs @ replicate (IP_SIZE - length cs) 0) = cs"
    using assms(2,4) by (subst takeWhile_append2) (auto simp: takeWhile_replicate)
  moreover have "copy_ip False (cs @ [0]) 0 = None" using assms by (intro copy_ip_runs_out) auto
  ultimately show ?thesis
    using assms(4) by (simp add: su_string_to_addr_def su_set_addr_def atoi_def is_space_def is_digit_def)
qed

theorem address_without_colon_witness:
  "su_string_to_addr False le_machine (\<lambda>_. 7) ([49, 46, 50] @ [0]) = None \<and>
     su_string_to_addr True le_machine (\<lambda>_. 7) ([49, 46, 50] @ [0]) = Some \<lparr>sin_addr = 7, sin_port = htons le_machine 0\<rparr>"
  by (rule address_without_colon) (simp_all add: IP_SIZE_def)

end
