(* ===== verification/Sim_Peers.thy ===== *)
theory Sim_Peers
  imports Sim_Proto Su_Addr Std_Map
begin

text \<open>
  \<^verbatim>\<open>mininet-webrtc/receiver.{h,cc}\<close> and \<^verbatim>\<open>sender.{h,cc}\<close>: the two ends of the simulation, which exchange the datagrams of \<open>Sim_Proto\<close>.
  What they ask of the socket and of the WebRTC library (congestion controller, pacer, module thread, encoder) is recorded in order
  as values of \<open>peer_call\<close>; readings of the clock are arguments, one for each reading on a path. The callbacks of the library
  (\<open>SendTransportFeedback\<close>, \<open>TimeToSendPacket\<close>, \<open>TimeToSendPadding\<close>, \<open>OnTargetTransferRate\<close>) are operations of their own.

  An uninitialised local struct holds the bytes \<open>malloc\<close> would give; an uninitialised address is \<open>None\<close>, and sending to it too. \<open>int64_t\<close>
  arithmetic that overflows is \<open>None\<close>. \<open>parses\<close> tells whether the library can parse a feedback packet.
\<close>

section \<open>What the peers ask for\<close>

datatype peer_call =
    Datagram su_addr bytes
  | RegisterModules
  | DeRegisterModules
  | OnReceivedPacket u32 u32 u32 u16
  | OnRttUpdate int int
  | AddPacket u32 u16 int
  | OnSentPacket u16 int
  | OnTransportFeedback bytes
  | InsertPacket u32 u16 int u16
  | ChangeRate u32
  | SetMinRate u32
  | StartEncoder
  | StopEncoder

definition local_bytes :: "machine \<Rightarrow> nat \<Rightarrow> bytes" where
  "local_bytes m n = map (junk m) [0..<n]"

definition local_word :: "machine \<Rightarrow> 'w::len word" where
  "local_word m = be_word (local_bytes m 8)"

definition local_header :: "machine \<Rightarrow> sim_header" where
  "local_header m = \<lparr>ver = local_word m, mid = local_word m, uid = local_word m\<rparr>"

definition local_ping :: "machine \<Rightarrow> sim_ping" where
  "local_ping m = \<lparr>ping_ts = local_word m\<rparr>"

definition local_segment :: "machine \<Rightarrow> sim_segment" where
  "local_segment m = \<lparr>seg_packet_id = local_word m, seg_fid = local_word m, seg_timestamp = local_word m, seg_index = local_word m,
     seg_total = local_word m, seg_ftype = local_word m, seg_payload_type = local_word m, seg_remb = local_word m, seg_send_ts = local_word m,
     seg_transport_seq = local_word m, seg_data_size = local_word m, seg_data = local_bytes m SIM_VIDEO_SIZE\<rparr>"

definition local_pad :: "machine \<Rightarrow> sim_pad" where
  "local_pad m = \<lparr>pad_send_ts = local_word m, pad_transport_seq = local_word m, pad_data_size = local_word m,
     pad_data = local_bytes m PADDING_DATA_SIZE\<rparr>"

definition local_feedback :: "machine \<Rightarrow> sim_feedback" where
  "local_feedback m = \<lparr>fb_base_packet_id = local_word m, fb_feedback_size = local_word m, fb_feedback = local_bytes m SIM_FEEDBACK_SIZE\<rparr>"

text \<open>The sizes of the structs, with the padding of their alignment.\<close>

definition sizeof_sim_header_t :: nat where "sizeof_sim_header_t = 8"
definition sizeof_sim_pad_t :: nat where "sizeof_sim_pad_t = 4 + 2 + 2 + PADDING_DATA_SIZE"

text \<open>A stream as \<open>Process\<close> fills it from the socket: the first \<open>ret\<close> bytes and \<open>used\<close>.\<close>

definition received_stream :: "bin_stream \<Rightarrow> bytes \<Rightarrow> nat \<Rightarrow> bin_stream" where
  "received_stream s d n = s\<lparr>data := Some d, used := n\<rparr>"

section \<open>The receiver\<close>

record receiver =
  r_running :: bool
  r_session_connected :: bool
  r_first_packet :: bool
  r_dst :: "su_addr option"
  r_stream :: bin_stream
  r_receive_side_cc :: bool
  r_uid :: u32
  r_rtt :: u32
  r_sum_rtt :: int
  r_rtt_num :: int
  r_max_rtt :: u32
  r_update_ping_ts :: int
  r_duration :: u32
  r_stop_ts :: u32
  r_base_seq :: u32
  r_calls :: "peer_call list"

definition Receiver :: "machine \<Rightarrow> bin_stream \<Rightarrow> machine \<times> receiver" where
  "Receiver m strm = (case bin_stream_init m strm of (m, _, s) \<Rightarrow> (m,
     \<lparr>r_running = True, r_session_connected = False, r_first_packet = True, r_dst = None, r_stream = s, r_receive_side_cc = False, r_uid = 4321,
      r_rtt = 0, r_sum_rtt = 0, r_rtt_num = 0, r_max_rtt = 0, r_update_ping_ts = 0, r_duration = 0, r_stop_ts = 0, r_base_seq = 0, r_calls = []\<rparr>))"

definition Receiver_delete :: "receiver \<Rightarrow> receiver" where
  "Receiver_delete r = (case bin_stream_destroy (Some (r_stream r)) of None \<Rightarrow> r | Some s \<Rightarrow> r\<lparr>r_stream := s\<rparr>)"

definition R_SetRunDuration :: "u32 \<Rightarrow> receiver \<Rightarrow> receiver" where
  "R_SetRunDuration delta r = r\<lparr>r_duration := delta\<rparr>"

definition R_IsStop :: "int \<Rightarrow> receiver \<Rightarrow> bool" where
  "R_IsStop now r \<longleftrightarrow> r_session_connected r \<and> r_stop_ts r \<noteq> 0 \<and> (word_of_int now :: u32) > r_stop_ts r"

definition R_Stop :: "receiver \<Rightarrow> receiver" where
  "R_Stop r = (if r_receive_side_cc r then r\<lparr>r_calls := r_calls r @ [DeRegisterModules]\<rparr> else r)"

definition R_SendToNetwork :: "bin_stream \<Rightarrow> receiver \<Rightarrow> receiver option" where
  "R_SendToNetwork s r = do {
     d \<leftarrow> data s;
     bs \<leftarrow> peek d 0 (used s);
     a \<leftarrow> r_dst r;
     Some (r\<lparr>r_calls := r_calls r @ [Datagram a bs]\<rparr>)
   }"

definition R_SendPing :: "machine \<Rightarrow> int \<Rightarrow> receiver \<Rightarrow> receiver option" where
  "R_SendPing m now r = do {
     s \<leftarrow> sim_encode_msg m (r_stream r) (INIT_SIM_HEADER SIM_PING (r_uid r)) (Ping \<lparr>ping_ts = word_of_int now\<rparr>);
     r \<leftarrow> R_SendToNetwork s (r\<lparr>r_stream := s\<rparr>);
     Some (r\<lparr>r_update_ping_ts := now\<rparr>)
   }"

definition R_ConfigureCongestion :: "receiver \<Rightarrow> receiver" where
  "R_ConfigureCongestion r =
     (if r_receive_side_cc r then r else r\<lparr>r_receive_side_cc := True, r_calls := r_calls r @ [RegisterModules]\<rparr>)"

definition R_UpdateRtt :: "u32 \<Rightarrow> receiver \<Rightarrow> receiver option" where
  "R_UpdateRtt t r =
     (let keep_rtt = (if t > 5 then t else 5);
          r = (if r_rtt r = 0 then r\<lparr>r_rtt := keep_rtt\<rparr> else r);
          r = r\<lparr>r_rtt := (7 * r_rtt r + keep_rtt) div 8\<rparr>;
          r = (if r_rtt r < 10 then r\<lparr>r_rtt := 10\<rparr> else r)
      in if r_rtt_num r = 0
         then let r = (if r_receive_side_cc r then r\<lparr>r_calls := r_calls r @ [OnRttUpdate (uint keep_rtt) (uint keep_rtt)]\<rparr> else r)
              in Some (r\<lparr>r_sum_rtt := uint keep_rtt, r_max_rtt := keep_rtt, r_rtt_num := r_rtt_num r + 1\<rparr>)
         else do {
           num \<leftarrow> i64 (r_rtt_num r + 1);
           sum \<leftarrow> i64 (r_sum_rtt r + uint keep_rtt);
           let average_rtt = (word_of_int (sum sdiv num) :: u32);
           let r = r\<lparr>r_rtt_num := num, r_sum_rtt := sum, r_max_rtt := (if keep_rtt > r_max_rtt r then keep_rtt else r_max_rtt r)\<rparr>;
           Some (if r_receive_side_cc r then r\<lparr>r_calls := r_calls r @ [OnRttUpdate (uint average_rtt) (uint (r_max_rtt r))]\<rparr> else r)
         })"

definition R_OnRecvSegment :: "int \<Rightarrow> sim_header \<Rightarrow> sim_segment \<Rightarrow> receiver \<Rightarrow> receiver" where
  "R_OnRecvSegment time header seg r =
     (let r = R_ConfigureCongestion r; now = (word_of_int time :: u32);
          overhead = ucast (seg_data_size seg) + of_nat SIM_SEGMENT_HEADER_SIZE;
          r = r\<lparr>r_calls := r_calls r @ [OnReceivedPacket now overhead (uid header) (seg_transport_seq seg)]\<rparr>
      in if r_first_packet r then r\<lparr>r_first_packet := False, r_stop_ts := now + r_duration r\<rparr> else r)"

definition R_OnRecvPad :: "int \<Rightarrow> sim_header \<Rightarrow> sim_pad \<Rightarrow> receiver \<Rightarrow> receiver" where
  "R_OnRecvPad time header body r =
     (let now = (word_of_int time :: u32); header_len = of_nat (sizeof_sim_header_t + sizeof_sim_pad_t);
          overhead = ucast (pad_data_size body) + header_len; r = R_ConfigureCongestion r
      in r\<lparr>r_calls := r_calls r @ [OnReceivedPacket now overhead (uid header) (pad_transport_seq body)]\<rparr>)"

definition R_ProcessingMsg :: "machine \<Rightarrow> int \<Rightarrow> bin_stream \<Rightarrow> receiver \<Rightarrow> receiver option" where
  "R_ProcessingMsg m now stream r = do {
     ((ret, header), s) \<leftarrow> sim_decode_header m stream (local_header m);
     (if ret \<noteq> 0 then Some r
      else if mid header < MIN_MSG_ID \<or> mid header > MAX_MSG_ID then Some r
      else let r = r\<lparr>r_session_connected := True\<rparr> in
        if mid header = SIM_PING
        then do {
          ((_, ping), s) \<leftarrow> sim_decode_msg m s header (Ping (local_ping m));
          s \<leftarrow> sim_encode_msg m s (INIT_SIM_HEADER SIM_PONG (r_uid r)) ping;
          R_SendToNetwork s r
        }
        else if mid header = SIM_PONG
        then do {
          ((_, body), s) \<leftarrow> sim_decode_msg m s header (Ping (local_ping m));
          (case body of
             Ping pong \<Rightarrow> do {
               rtt \<leftarrow> i64 (now - sint (ping_ts pong));
               (if rtt > 0 then R_UpdateRtt (word_of_int rtt) r else Some r)
             }
           | _ \<Rightarrow> None)
        }
        else if mid header = SIM_SEG
        then do {
          ((ret, body), s) \<leftarrow> sim_decode_msg m s header (Segment (local_segment m));
          (case body of Segment seg \<Rightarrow> Some (if ret \<noteq> 0 then r else R_OnRecvSegment now header seg r) | _ \<Rightarrow> None)
        }
        else if mid header = SIM_PAD
        then do {
          ((ret, body), s) \<leftarrow> sim_decode_msg m s header (Pad (local_pad m));
          (case body of Pad pad \<Rightarrow> Some (if ret \<noteq> 0 then r else R_OnRecvPad now header pad r) | _ \<Rightarrow> None)
        }
        else Some r)
   }"

definition R_Process :: "machine \<Rightarrow> int \<Rightarrow> int \<Rightarrow> (su_addr \<times> bytes) option \<Rightarrow> receiver \<Rightarrow> receiver option" where
  "R_Process m time1 time2 incoming r =
     (if \<not> r_running r then Some r
      else do {
        r \<leftarrow> (if r_session_connected r
              then let now = (word_of_int time1 :: u32); delta = (if r_rtt r \<noteq> 0 then r_rtt r else 100)
                   in do {
                     since \<leftarrow> i64 (uint now - r_update_ping_ts r);
                     (if since > uint delta then R_SendPing m (uint now) r else Some r)
                   }
              else Some r);
        (m, _, rstream) \<leftarrow> Some (bin_stream_init m (r_stream r));
        d \<leftarrow> data rstream;
        (ret, remote, d) \<leftarrow> su_udp_recv incoming d (ssize rstream);
        (if ret > 0
         then let r = (if \<not> r_session_connected r then r\<lparr>r_session_connected := True, r_dst := remote\<rparr> else r)
              in R_ProcessingMsg m time2 (received_stream rstream d (nat ret)) r
         else Some r)
      })"

text \<open>\<open>serialized\<close> is what \<open>Build\<close> of the library makes of the packet.\<close>

definition R_SendTransportFeedback :: "machine \<Rightarrow> (u32 \<Rightarrow> bytes) \<Rightarrow> receiver \<Rightarrow> (bool \<times> receiver) option" where
  "R_SendTransportFeedback m Build r =
     (let serialized = Build (r_uid r); payload_size = (of_nat (length serialized) :: u32) in
      if payload_size > of_nat SIM_FEEDBACK_SIZE then Some (False, r)
      else do {
        fb \<leftarrow> poke (local_bytes m SIM_FEEDBACK_SIZE) 0 (take (unat payload_size) serialized);
        s \<leftarrow> sim_encode_msg m (r_stream r) (INIT_SIM_HEADER SIM_FEEDBACK (r_uid r))
               (Feedback \<lparr>fb_base_packet_id = r_base_seq r, fb_feedback_size = ucast payload_size, fb_feedback = fb\<rparr>);
        r \<leftarrow> R_SendToNetwork s (r\<lparr>r_stream := s\<rparr>);
        Some (True, r)
      })"

section \<open>The sender\<close>

definition kInitialBitrateBps :: u32 where "kInitialBitrateBps = 500000"
definition MAX_SPLIT_NUMBER :: nat where "MAX_SPLIT_NUMBER = 1024"
definition MAX_PAD_SIZE :: int where "MAX_PAD_SIZE = 500"

record sender =
  s_running :: bool
  s_dst :: "su_addr option"
  s_pending_buf :: "(u16 \<times> sim_segment) list"
  s_frame_seed :: u32
  s_packet_seed :: u32
  s_trans_seq :: u16
  s_encoder :: bool
  s_stream :: bin_stream
  s_first_ts :: int
  s_uid :: u32
  s_rtt :: u32
  s_sum_rtt :: int
  s_rtt_num :: int
  s_min_rtt :: int
  s_max_rtt :: int
  s_average_rtt :: int
  s_update_ping_ts :: int
  s_base_seq :: u32
  s_calls :: "peer_call list"

definition Sender :: "machine \<Rightarrow> bin_stream \<Rightarrow> machine \<times> sender" where
  "Sender m strm = (case bin_stream_init m strm of (m, _, s) \<Rightarrow> (m,
     \<lparr>s_running = False, s_dst = None, s_pending_buf = [], s_frame_seed = 1, s_packet_seed = 1, s_trans_seq = 1, s_encoder = False, s_stream = s,
      s_first_ts = - 1, s_uid = 1234, s_rtt = 0, s_sum_rtt = 0, s_rtt_num = 0, s_min_rtt = 0, s_max_rtt = 0, s_average_rtt = 0,
      s_update_ping_ts = 0, s_base_seq = 0, s_calls = []\<rparr>))"

text \<open>The destructor deletes the waiting segments from the front of the map; the list of them is returned.\<close>

fun free_segments :: "(u16 \<times> sim_segment) list \<Rightarrow> sim_segment list \<Rightarrow> sim_segment list \<times> (u16 \<times> sim_segment) list" where
  "free_segments [] freed = (freed, [])"
| "free_segments ((q, seg) # m) freed = free_segments m (freed @ [seg])"

definition Sender_delete :: "sender \<Rightarrow> sim_segment list \<times> sender" where
  "Sender_delete s =
     (let s = (case bin_stream_destroy (Some (s_stream s)) of None \<Rightarrow> s | Some st \<Rightarrow> s\<lparr>s_stream := st\<rparr>);
          (freed, buf) = free_segments (s_pending_buf s) []
      in (freed, s\<lparr>s_pending_buf := buf\<rparr>))"

definition S_SetEncoder :: "sender \<Rightarrow> sender" where
  "S_SetEncoder s = s\<lparr>s_encoder := True\<rparr>"

definition S_SetPeer :: "machine \<Rightarrow> (bytes \<Rightarrow> u32) \<Rightarrow> bytes \<Rightarrow> sender \<Rightarrow> sender option" where
  "S_SetPeer m inet_addr addr s = map_option (\<lambda>a. s\<lparr>s_dst := Some a\<rparr>) (su_string_to_addr True m inet_addr addr)"

definition S_Start :: "sender \<Rightarrow> sender" where
  "S_Start s = (let s = s\<lparr>s_running := True\<rparr> in
     if s_encoder s then s\<lparr>s_calls := s_calls s @ [SetMinRate kInitialBitrateBps, StartEncoder]\<rparr> else s)"

definition S_Stop :: "sender \<Rightarrow> sender" where
  "S_Stop s = (let s = s\<lparr>s_running := False\<rparr> in if s_encoder s then s\<lparr>s_calls := s_calls s @ [StopEncoder]\<rparr> else s)"

definition S_SendToNetwork :: "bin_stream \<Rightarrow> sender \<Rightarrow> sender option" where
  "S_SendToNetwork strm s = do {
     d \<leftarrow> data strm;
     bs \<leftarrow> peek d 0 (used strm);
     a \<leftarrow> s_dst s;
     Some (s\<lparr>s_calls := s_calls s @ [Datagram a bs]\<rparr>)
   }"

definition S_SendPing :: "machine \<Rightarrow> int \<Rightarrow> sender \<Rightarrow> sender option" where
  "S_SendPing m now s = do {
     strm \<leftarrow> sim_encode_msg m (s_stream s) (INIT_SIM_HEADER SIM_PING (s_uid s)) (Ping \<lparr>ping_ts = word_of_int now\<rparr>);
     s \<leftarrow> S_SendToNetwork strm (s\<lparr>s_stream := strm\<rparr>);
     Some (s\<lparr>s_update_ping_ts := now\<rparr>)
   }"

text \<open>The sizes of the parts of a frame, written into the array \<open>splits\<close>.\<close>

fun fill_splits :: "nat \<Rightarrow> nat \<Rightarrow> u16 list \<Rightarrow> u16 list option" where
  "fill_splits 0 i splits = Some splits"
| "fill_splits (Suc n) i splits = (if i < length splits then fill_splits n (i + 1) (splits[i := of_nat SIM_VIDEO_SIZE]) else None)"

definition FrameSplit :: "u16 list \<Rightarrow> nat \<Rightarrow> (u16 \<times> u16 list) option" where
  "FrameSplit splits len =
     (if len \<le> SIM_VIDEO_SIZE
      then (if 0 < length splits then Some (1, splits[0 := of_nat len]) else None)
      else do {
        let ret = (of_nat (len div SIM_VIDEO_SIZE) :: u16);
        splits \<leftarrow> fill_splits (unat ret) 0 splits;
        let remain_size = (of_nat (len mod SIM_VIDEO_SIZE) :: u16);
        (if remain_size > 0
         then (if unat ret < length splits then Some (ret + 1, splits[unat ret := remain_size]) else None)
         else Some (ret, splits))
      })"

text \<open>The loop under the lock: \<open>n\<close> parts to go, part \<open>i\<close> next, its bytes at \<open>pos\<close>. Returned with the list of sequence numbers and sizes.\<close>

fun make_segments ::
  "nat \<Rightarrow> nat \<Rightarrow> nat \<Rightarrow> u16 list \<Rightarrow> u16 \<Rightarrow> bytes \<Rightarrow> u32 \<Rightarrow> u8 \<Rightarrow> u8 \<Rightarrow> sender \<Rightarrow> (u16 \<times> u16) list \<Rightarrow> (sender \<times> (u16 \<times> u16) list) option" where
  "make_segments 0 i pos splits tot dat timestamp ftype payload_type s seq_len_map = Some (s, seq_len_map)"
| "make_segments (Suc n) i pos splits tot dat timestamp ftype payload_type s seq_len_map =
     (if i < length splits
      then do {
        part \<leftarrow> peek dat pos (unat (splits ! i));
        whole \<leftarrow> poke (replicate SIM_VIDEO_SIZE 0) 0 part;
        let seg = \<lparr>seg_packet_id = s_packet_seed s, seg_fid = s_frame_seed s, seg_timestamp = timestamp, seg_index = of_nat i, seg_total = tot,
              seg_ftype = ftype, seg_payload_type = payload_type, seg_remb = 1, seg_send_ts = 0, seg_transport_seq = s_trans_seq s,
              seg_data_size = splits ! i, seg_data = whole\<rparr>;
        let overhead = seg_data_size seg + of_nat SIM_SEGMENT_HEADER_SIZE;
        make_segments n (i + 1) (pos + unat (splits ! i)) splits tot dat timestamp ftype payload_type
          (s\<lparr>s_packet_seed := s_packet_seed s + 1, s_trans_seq := s_trans_seq s + 1,
             s_pending_buf := map_insert (seg_transport_seq seg) seg (s_pending_buf s)\<rparr>)
          (map_insert (seg_transport_seq seg) overhead seq_len_map)
      }
      else None)"

definition SendVideo :: "machine \<Rightarrow> u8 \<Rightarrow> int \<Rightarrow> bytes \<Rightarrow> u32 \<Rightarrow> int \<Rightarrow> sender \<Rightarrow> sender option" where
  "SendVideo m payload_type ftype dat len now s =
     (if \<not> s_running s then Some s
      else if len = 0 then Some s
      else do {
        let s = (if s_first_ts s = - 1 then s\<lparr>s_first_ts := now\<rparr> else s);
        since \<leftarrow> i64 (now - s_first_ts s);
        let timestamp = (word_of_int since :: u32);
        u \<leftarrow> (if unat len div SIM_VIDEO_SIZE < MAX_SPLIT_NUMBER then Some () else None);
        (tot, splits) \<leftarrow> FrameSplit (map (\<lambda>_. local_word m) [0..<MAX_SPLIT_NUMBER]) (unat len);
        (s, seq_len_map) \<leftarrow> make_segments (unat tot) 0 0 splits tot dat timestamp (word_of_int ftype) payload_type s [];
        Some (s\<lparr>s_frame_seed := s_frame_seed s + 1,
                s_calls := s_calls s @ map (\<lambda>(seq, overhead). InsertPacket (s_uid s) seq now overhead) seq_len_map\<rparr>)
      })"

definition get_segment_t :: "u16 \<Rightarrow> sender \<Rightarrow> sim_segment option \<times> sender" where
  "get_segment_t sequence_number s =
     (case map_of (s_pending_buf s) sequence_number of
        None \<Rightarrow> (None, s)
      | Some seg \<Rightarrow> (Some seg, s\<lparr>s_pending_buf := map_erase sequence_number (s_pending_buf s)\<rparr>))"

definition SendSegment :: "machine \<Rightarrow> sim_segment \<Rightarrow> u32 \<Rightarrow> sender \<Rightarrow> sender option" where
  "SendSegment m seg now s = do {
     t \<leftarrow> i64 (uint now - s_first_ts s);
     t \<leftarrow> i64 (t - uint (seg_timestamp seg));
     strm \<leftarrow> sim_encode_msg m (s_stream s) (INIT_SIM_HEADER SIM_SEG (s_uid s)) (Segment (seg\<lparr>seg_send_ts := word_of_int t\<rparr>));
     S_SendToNetwork strm (s\<lparr>s_stream := strm\<rparr>)
   }"

definition TimeToSendPacket :: "machine \<Rightarrow> u16 \<Rightarrow> int \<Rightarrow> sender \<Rightarrow> (bool \<times> sender) option" where
  "TimeToSendPacket m sequence_number now s =
     (case get_segment_t sequence_number s of
        (None, s) \<Rightarrow> Some (True, s)
      | (Some seg, s) \<Rightarrow> do {
          s \<leftarrow> SendSegment m seg (word_of_int now) s;
          let overhead = seg_data_size seg + of_nat SIM_SEGMENT_HEADER_SIZE;
          Some (True, s\<lparr>s_calls := s_calls s @ [AddPacket (s_uid s) sequence_number (uint overhead), OnSentPacket sequence_number now]\<rparr>)
        })"

definition pad_overhead :: "u16 \<Rightarrow> int" where
  "pad_overhead payload_len = int (sizeof_sim_header_t + sizeof_sim_pad_t) + uint payload_len"

definition SendPadding :: "machine \<Rightarrow> u16 \<Rightarrow> u32 \<Rightarrow> sender \<Rightarrow> (int \<times> sender) option" where
  "SendPadding m payload_len ts s = do {
     let sequence_number = s_trans_seq s;
     let pad = local_pad m\<lparr>pad_data_size := payload_len, pad_send_ts := ts, pad_transport_seq := sequence_number\<rparr>;
     let overhead = pad_overhead payload_len;
     strm \<leftarrow> sim_encode_msg m (s_stream s) (INIT_SIM_HEADER SIM_PAD (s_uid s)) (Pad pad);
     s \<leftarrow> S_SendToNetwork strm (s\<lparr>s_trans_seq := s_trans_seq s + 1, s_stream := strm\<rparr>);
     Some (overhead, s\<lparr>s_calls := s_calls s @ [AddPacket (s_uid s) sequence_number overhead, OnSentPacket sequence_number (uint ts)]\<rparr>)
   }"

text \<open>The loop of \<open>TimeToSendPadding\<close>; \<open>SendPadding\<close> returns \<open>pad_overhead\<close>, so every round takes away what it returned.\<close>

function padding_loop :: "machine \<Rightarrow> int \<Rightarrow> int \<Rightarrow> sender \<Rightarrow> sender option" where
  "padding_loop m now remain s =
     (if remain > 0
      then if remain \<ge> MAX_PAD_SIZE
           then Option.bind (SendPadding m (word_of_int MAX_PAD_SIZE) (word_of_int now) s)
                  (\<lambda>(_, s). padding_loop m now (remain - pad_overhead (word_of_int MAX_PAD_SIZE)) s)
           else if remain \<ge> 100 then map_option snd (SendPadding m (word_of_int remain) (word_of_int now) s) else Some s
      else Some s)"
  by auto
termination
  by (relation "measure (\<lambda>(_, _, remain, _). nat remain)") (auto simp: pad_overhead_def MAX_PAD_SIZE_def sizeof_sim_header_t_def sizeof_sim_pad_t_def)

declare padding_loop.simps [simp del]

text \<open>The number of bytes is converted to \<open>int\<close>.\<close>

definition TimeToSendPadding :: "machine \<Rightarrow> nat \<Rightarrow> int \<Rightarrow> sender \<Rightarrow> (nat \<times> sender) option" where
  "TimeToSendPadding m bytes now s =
     (if bytes < 100 then Some (bytes, s)
      else map_option (\<lambda>s. (bytes, s)) (padding_loop m now (sint (of_nat bytes :: u32)) s))"

definition S_RTT :: "sender \<Rightarrow> int \<times> int \<times> int \<times> int" where
  "S_RTT s = (uint (s_rtt s), s_average_rtt s, s_min_rtt s, s_max_rtt s)"

definition OnTargetTransferRate :: "int \<Rightarrow> sender \<Rightarrow> sender" where
  "OnTargetTransferRate bps s = (if s_encoder s then s\<lparr>s_calls := s_calls s @ [ChangeRate (word_of_int bps)]\<rparr> else s)"

definition OnStartRateUpdate :: "int \<Rightarrow> sender \<Rightarrow> sender" where
  "OnStartRateUpdate bps s = (if s_encoder s then s\<lparr>s_calls := s_calls s @ [ChangeRate (word_of_int bps)]\<rparr> else s)"

definition S_UpdateRtt :: "u32 \<Rightarrow> sender \<Rightarrow> sender option" where
  "S_UpdateRtt t s =
     (let keep_rtt = (if t > 5 then t else 5);
          s = (if s_rtt s = 0 then s\<lparr>s_rtt := keep_rtt\<rparr> else s);
          s = s\<lparr>s_rtt := (7 * s_rtt s + keep_rtt) div 8\<rparr>;
          s = (if s_rtt s < 10 then s\<lparr>s_rtt := 10\<rparr> else s)
      in if s_rtt_num s = 0
         then let k = uint keep_rtt
              in Some (s\<lparr>s_sum_rtt := k, s_max_rtt := k, s_min_rtt := k, s_average_rtt := k, s_rtt_num := s_rtt_num s + 1,
                        s_calls := s_calls s @ [OnRttUpdate k k]\<rparr>)
         else do {
           num \<leftarrow> i64 (s_rtt_num s + 1);
           sum \<leftarrow> i64 (s_sum_rtt s + uint keep_rtt);
           let s = s\<lparr>s_rtt_num := num, s_sum_rtt := sum, s_average_rtt := sum sdiv num\<rparr>;
           let s = s\<lparr>s_calls := s_calls s @ [OnRttUpdate (s_average_rtt s) (s_max_rtt s)]\<rparr>;
           let s = (if uint keep_rtt > s_max_rtt s then s\<lparr>s_max_rtt := uint keep_rtt\<rparr> else s);
           Some (if uint keep_rtt < s_min_rtt s then s\<lparr>s_min_rtt := uint keep_rtt\<rparr> else s)
         })"

definition InnerProcessFeedback :: "(bytes \<Rightarrow> bool) \<Rightarrow> sim_feedback \<Rightarrow> sender \<Rightarrow> sender option" where
  "InnerProcessFeedback parses feedback s = do {
     fb \<leftarrow> peek (fb_feedback feedback) 0 (unat (fb_feedback_size feedback));
     (if parses fb then Some (s\<lparr>s_calls := s_calls s @ [OnTransportFeedback fb]\<rparr>) else None)
   }"

definition S_ProcessingMsg :: "(bytes \<Rightarrow> bool) \<Rightarrow> machine \<Rightarrow> int \<Rightarrow> bin_stream \<Rightarrow> sender \<Rightarrow> sender option" where
  "S_ProcessingMsg parses m now stream s = do {
     ((ret, header), strm) \<leftarrow> sim_decode_header m stream (local_header m);
     (if ret \<noteq> 0 then Some s
      else if mid header < MIN_MSG_ID \<or> mid header > MAX_MSG_ID then Some s
      else if mid header = SIM_PING
      then do {
        ((_, ping), strm) \<leftarrow> sim_decode_msg m strm header (Ping (local_ping m));
        strm \<leftarrow> sim_encode_msg m strm (INIT_SIM_HEADER SIM_PONG (s_uid s)) ping;
        S_SendToNetwork strm s
      }
      else if mid header = SIM_PONG
      then do {
        ((_, body), strm) \<leftarrow> sim_decode_msg m strm header (Ping (local_ping m));
        (case body of
           Ping pong \<Rightarrow> do {
             rtt \<leftarrow> i64 (now - sint (ping_ts pong));
             (if rtt > 0 then S_UpdateRtt (word_of_int rtt) s else Some s)
           }
         | _ \<Rightarrow> None)
      }
      else if mid header = SIM_FEEDBACK
      then do {
        ((ret, body), strm) \<leftarrow> sim_decode_msg m strm header (Feedback (local_feedback m));
        (case body of Feedback fb \<Rightarrow> if ret \<noteq> 0 then Some s else InnerProcessFeedback parses fb s | _ \<Rightarrow> None)
      }
      else Some s)
   }"

definition S_Process :: "(bytes \<Rightarrow> bool) \<Rightarrow> machine \<Rightarrow> int \<Rightarrow> int \<Rightarrow> (su_addr \<times> bytes) option \<Rightarrow> sender \<Rightarrow> sender option" where
  "S_Process parses m now time2 incoming s =
     (if \<not> s_running s then Some s
      else do {
        let delta = (if s_rtt s \<noteq> 0 then s_rtt s else 100);
        since \<leftarrow> i64 (now - s_update_ping_ts s);
        s \<leftarrow> (if since > uint delta then S_SendPing m now s else Some s);
        (m, _, rstream) \<leftarrow> Some (bin_stream_init m (s_stream s));
        d \<leftarrow> data rstream;
        (ret, remote, d) \<leftarrow> su_udp_recv incoming d (ssize rstream);
        (if ret > 0 then S_ProcessingMsg parses m time2 (received_stream rstream d (nat ret)) (s\<lparr>s_dst := remote\<rparr>) else Some s)
      })"

end
