(* ===== verification/Peer_Proofs.thy ===== *)
theory Peer_Proofs
  imports Sim_Peers
begin

text \<open>
  The two ends of the simulation: their round-trip statistics, the exchange of pings, the way of a video frame through segments,
  and what arbitrary datagrams can do to them.
\<close>

section \<open>Round-trip statistics\<close>

text \<open>A sample as it is kept, and the smoothed value after it.\<close>

definition keep :: "u32 \<Rightarrow> u32" where
  "keep t = (if t > 5 then t else 5)"

definition smooth :: "u32 \<Rightarrow> u32 \<Rightarrow> u32" where
  "smooth r k = (let x = (7 * (if r = 0 then k else r) + k) div 8 in if x < 10 then 10 else x)"

lemma smooth_bounds:
  assumes "unat r \<le> b" and "unat k \<le> b" and "10 \<le> b" and "b < 2 ^ 29"
  shows "10 \<le> unat (smooth r k)" "unat (smooth r k) \<le> b"
proof -
  let ?q = "if r = 0 then k else r"
  have q: "unat ?q \<le> b" using assms by simp
  have "unat (7 * ?q + k) = 7 * unat ?q + unat k" using q assms by (simp add: unat_word_ariths)
  then have x: "unat ((7 * ?q + k) div 8) = (7 * unat ?q + unat k) div 8" by (simp add: unat_div_distrib)
  also have "\<dots> \<le> b" using q assms(2) by linarith
  finally have "unat ((7 * ?q + k) div 8) \<le> b" .
  then show "10 \<le> unat (smooth r k)" "unat (smooth r k) \<le> b"
    using assms(3) by (auto simp: smooth_def Let_def word_less_nat_alt not_less)
qed

lemma keep_max: "unat (keep t) = max 5 (unat t)" "uint (keep t) = int (max 5 (unat t))"
proof -
  show "unat (keep t) = max 5 (unat t)" by (cases "t > 5") (simp_all add: keep_def word_less_nat_alt not_less)
  then show "uint (keep t) = int (max 5 (unat t))" by (simp only: uint_nat)
qed

fun samples_run :: "(u32 \<Rightarrow> 's \<Rightarrow> 's option) \<Rightarrow> u32 list \<Rightarrow> 's \<Rightarrow> 's option" where
  "samples_run update [] s = Some s"
| "samples_run update (t # ts) s = Option.bind (update t s) (samples_run update ts)"

definition kept_sum :: "u32 list \<Rightarrow> int" where
  "kept_sum ts = sum_list (map (\<lambda>t. uint (keep t)) ts)"

lemma kept_bounds: "5 \<le> uint (keep t)" "uint (keep t) \<le> 2 ^ 32"
proof -
  have "unat t < 2 ^ 32" using unsigned_less [of t, where ?'a = nat] by simp
  then show "5 \<le> uint (keep t)" "uint (keep t) \<le> 2 ^ 32" by (simp_all add: keep_max)
qed

lemma kept_sum_Cons: "kept_sum (t # ts) = uint (keep t) + kept_sum ts"
  by (simp add: kept_sum_def)

lemma kept_sum_bounds: "5 * int (length ts) \<le> kept_sum ts" "kept_sum ts \<le> 2 ^ 32 * int (length ts)"
proof -
  show "5 * int (length ts) \<le> kept_sum ts"
  proof (induction ts)
    case (Cons t ts)
    with kept_bounds(1) [of t] show ?case unfolding kept_sum_Cons by simp
  qed (simp add: kept_sum_def)
  show "kept_sum ts \<le> 2 ^ 32 * int (length ts)"
  proof (induction ts)
    case (Cons t ts)
    with kept_bounds(2) [of t] show ?case unfolding kept_sum_Cons by simp
  qed (simp add: kept_sum_def)
qed

text \<open>What both peers promise of an update; the lemma follows for any sequence of samples.\<close>

locale rtt_estimator =
  fixes update :: "u32 \<Rightarrow> 's \<Rightarrow> 's option" and rtt :: "'s \<Rightarrow> u32" and total :: "'s \<Rightarrow> int" and num :: "'s \<Rightarrow> int"
  assumes step: "0 \<le> num s \<Longrightarrow> num s < 2 ^ 30 \<Longrightarrow> 0 \<le> total s \<Longrightarrow> total s \<le> 2 ^ 62 \<Longrightarrow> (num s = 0 \<longrightarrow> total s = 0) \<Longrightarrow>
      \<exists>s'. update t s = Some s' \<and> rtt s' = smooth (rtt s) (keep t) \<and> num s' = num s + 1 \<and> total s' = total s + uint (keep t)"
begin

lemma run:
  assumes "0 \<le> num s" and "num s + int (length ts) \<le> 2 ^ 30" and "5 * num s \<le> total s" and "total s \<le> 2 ^ 32 * num s"
    and "\<And>t. t \<in> set ts \<Longrightarrow> unat t \<le> b" and "unat (rtt s) \<le> b" and "10 \<le> b" and "b < 2 ^ 29"
  shows "\<exists>s'. samples_run update ts s = Some s' \<and> num s' = num s + int (length ts) \<and> total s' = total s + kept_sum ts \<and>
     (ts \<noteq> [] \<longrightarrow> 10 \<le> unat (rtt s')) \<and> unat (rtt s') \<le> b"
  using assms(1-6)
proof (induction ts arbitrary: s)
  case Nil
  then show ?case by (simp add: kept_sum_def)
next
  case (Cons t ts)
  have "2 ^ 32 * num s \<le> 2 ^ 32 * 2 ^ 30" using Cons.prems(1,2) by simp
  then have "total s \<le> 2 ^ 62" "num s < 2 ^ 30" "0 \<le> total s" "num s = 0 \<longrightarrow> total s = 0" using Cons.prems(1-4) by auto
  with step [of s t] Cons.prems(1) obtain s1 where
    s1: "update t s = Some s1" "rtt s1 = smooth (rtt s) (keep t)" "num s1 = num s + 1" "total s1 = total s + uint (keep t)" by blast
  have k: "unat (keep t) \<le> b" using Cons.prems(5) [of t] assms(7) by (simp add: keep_max)
  note r = smooth_bounds [OF Cons.prems(6) k assms(7,8)]
  have "\<exists>s'. samples_run update ts s1 = Some s' \<and> num s' = num s1 + int (length ts) \<and> total s' = total s1 + kept_sum ts \<and>
     (ts \<noteq> [] \<longrightarrow> 10 \<le> unat (rtt s')) \<and> unat (rtt s') \<le> b"
    using Cons.prems kept_bounds [of t] s1 r by (intro Cons.IH) auto
  then obtain s' where s': "samples_run update ts s1 = Some s'" "num s' = num s1 + int (length ts)" "total s' = total s1 + kept_sum ts"
    "ts \<noteq> [] \<longrightarrow> 10 \<le> unat (rtt s')" "unat (rtt s') \<le> b" by blast
  have "10 \<le> unat (rtt s')"
  proof (cases ts)
    case Nil
    with s'(1) s1(2) r(1) show ?thesis by simp
  next
    case (Cons t' ts')
    with s'(4) show ?thesis by simp
  qed
  then show ?case using s1 s' by (simp add: kept_sum_Cons)
qed

end

lemma smoothed:
  "(let r1 = (if r_rtt r = 0 then r\<lparr>r_rtt := k\<rparr> else r); r2 = r1\<lparr>r_rtt := (7 * r_rtt r1 + k) div 8\<rparr>
    in if r_rtt r2 < 10 then r2\<lparr>r_rtt := 10\<rparr> else r2) = r\<lparr>r_rtt := smooth (r_rtt r) k\<rparr>"
  "(let s1 = (if s_rtt s = 0 then s\<lparr>s_rtt := k\<rparr> else s); s2 = s1\<lparr>s_rtt := (7 * s_rtt s1 + k) div 8\<rparr>
    in if s_rtt s2 < 10 then s2\<lparr>s_rtt := 10\<rparr> else s2) = s\<lparr>s_rtt := smooth (s_rtt s) k\<rparr>"
  by (simp_all add: smooth_def Let_def)

lemma R_UpdateRtt_eq:
  "R_UpdateRtt t r =
     (let k = keep t; r = r\<lparr>r_rtt := smooth (r_rtt r) k\<rparr> in
      if r_rtt_num r = 0
      then let r = (if r_receive_side_cc r then r\<lparr>r_calls := r_calls r @ [OnRttUpdate (uint k) (uint k)]\<rparr> else r)
           in Some (r\<lparr>r_sum_rtt := uint k, r_max_rtt := k, r_rtt_num := r_rtt_num r + 1\<rparr>)
      else do {
        num \<leftarrow> i64 (r_rtt_num r + 1);
        sum \<leftarrow> i64 (r_sum_rtt r + uint k);
        let average_rtt = (word_of_int (sum sdiv num) :: u32);
        let r = r\<lparr>r_rtt_num := num, r_sum_rtt := sum, r_max_rtt := (if k > r_max_rtt r then k else r_max_rtt r)\<rparr>;
        Some (if r_receive_side_cc r then r\<lparr>r_calls := r_calls r @ [OnRttUpdate (uint average_rtt) (uint (r_max_rtt r))]\<rparr> else r)
      })"
  unfolding R_UpdateRtt_def keep_def [symmetric] smoothed(1) [symmetric] Let_def by (rule refl)

lemma S_UpdateRtt_eq:
  "S_UpdateRtt t s =
     (let k = keep t; s = s\<lparr>s_rtt := smooth (s_rtt s) k\<rparr> in
      if s_rtt_num s = 0
      then let k = uint k
           in Some (s\<lparr>s_sum_rtt := k, s_max_rtt := k, s_min_rtt := k, s_average_rtt := k, s_rtt_num := s_rtt_num s + 1,
                     s_calls := s_calls s @ [OnRttUpdate k k]\<rparr>)
      else do {
        num \<leftarrow> i64 (s_rtt_num s + 1);
        sum \<leftarrow> i64 (s_sum_rtt s + uint k);
        let s = s\<lparr>s_rtt_num := num, s_sum_rtt := sum, s_average_rtt := sum sdiv num\<rparr>;
        let s = s\<lparr>s_calls := s_calls s @ [OnRttUpdate (s_average_rtt s) (s_max_rtt s)]\<rparr>;
        let s = (if uint k > s_max_rtt s then s\<lparr>s_max_rtt := uint k\<rparr> else s);
        Some (if uint k < s_min_rtt s then s\<lparr>s_min_rtt := uint k\<rparr> else s)
      })"
  unfolding S_UpdateRtt_def keep_def [symmetric] smoothed(2) [symmetric] Let_def by (rule refl)

lemma i64_add: "0 \<le> x \<Longrightarrow> x \<le> 2 ^ 62 \<Longrightarrow> 0 \<le> y \<Longrightarrow> y \<le> 2 ^ 32 \<Longrightarrow> i64 (x + y) = Some (x + y)"
  by (rule i64_in) auto

interpretation rr: rtt_estimator R_UpdateRtt r_rtt r_sum_rtt r_rtt_num
proof
  fix s :: receiver and t
  assume a: "0 \<le> r_rtt_num s" "r_rtt_num s < 2 ^ 30" "0 \<le> r_sum_rtt s" "r_sum_rtt s \<le> 2 ^ 62" "r_rtt_num s = 0 \<longrightarrow> r_sum_rtt s = 0"
  have "i64 (r_rtt_num s + 1) = Some (r_rtt_num s + 1)" "i64 (r_sum_rtt s + uint (keep t)) = Some (r_sum_rtt s + uint (keep t))"
    using a kept_bounds [of t] by (intro i64_add; simp)+
  then show "\<exists>s'. R_UpdateRtt t s = Some s' \<and> r_rtt s' = smooth (r_rtt s) (keep t) \<and> r_rtt_num s' = r_rtt_num s + 1 \<and>
      r_sum_rtt s' = r_sum_rtt s + uint (keep t)"
    using a(5) by (cases "r_rtt_num s = 0") (simp_all add: R_UpdateRtt_eq Let_def)
qed

interpretation sr: rtt_estimator S_UpdateRtt s_rtt s_sum_rtt s_rtt_num
proof
  fix s :: sender and t
  assume a: "0 \<le> s_rtt_num s" "s_rtt_num s < 2 ^ 30" "0 \<le> s_sum_rtt s" "s_sum_rtt s \<le> 2 ^ 62" "s_rtt_num s = 0 \<longrightarrow> s_sum_rtt s = 0"
  have "i64 (s_rtt_num s + 1) = Some (s_rtt_num s + 1)" "i64 (s_sum_rtt s + uint (keep t)) = Some (s_sum_rtt s + uint (keep t))"
    using a kept_bounds [of t] by (intro i64_add; simp)+
  then show "\<exists>s'. S_UpdateRtt t s = Some s' \<and> s_rtt s' = smooth (s_rtt s) (keep t) \<and> s_rtt_num s' = s_rtt_num s + 1 \<and>
      s_sum_rtt s' = s_sum_rtt s + uint (keep t)"
    using a(5) by (cases "s_rtt_num s = 0") (simp_all add: S_UpdateRtt_eq Let_def)
qed

text \<open>The sender also keeps the average, the least and the largest sample.\<close>

definition sender_stats :: "u32 list \<Rightarrow> sender \<Rightarrow> bool" where
  "sender_stats ts s \<longleftrightarrow> s_rtt_num s = int (length ts) \<and> s_sum_rtt s = kept_sum ts \<and>
     (ts \<noteq> [] \<longrightarrow> s_average_rtt s = kept_sum ts div int (length ts) \<and>
        s_min_rtt s = Min ((\<lambda>t. uint (keep t)) ` set ts) \<and> s_max_rtt s = Max ((\<lambda>t. uint (keep t)) ` set ts))"

lemma kept_sum_snoc: "kept_sum (ts @ [t]) = kept_sum ts + uint (keep t)"
  by (simp add: kept_sum_def)

lemma sender_stats_step:
  assumes st: "sender_stats ts s" and len: "length ts < 2 ^ 30"
  shows "\<exists>s'. S_UpdateRtt t s = Some s' \<and> sender_stats (ts @ [t]) s'"
proof (cases "ts = []")
  case True
  with st show ?thesis by (auto simp: S_UpdateRtt_eq sender_stats_def Let_def kept_sum_def)
next
  case False
  let ?k = "\<lambda>t. uint (keep t)"
  have num: "s_rtt_num s = int (length ts)" "s_sum_rtt s = kept_sum ts" "s_rtt_num s \<noteq> 0" using st False by (simp_all add: sender_stats_def)
  have "2 ^ 32 * int (length ts) \<le> 2 ^ 62" using len by simp
  with kept_sum_bounds(2) [of ts] have b: "kept_sum ts \<le> 2 ^ 62" by (rule order_trans)
  have "0 \<le> kept_sum ts" using kept_sum_bounds(1) [of ts] by simp
  note b = this b
  have i: "i64 (s_rtt_num s + 1) = Some (int (length ts) + 1)" "i64 (s_sum_rtt s + ?k t) = Some (kept_sum ts + ?k t)"
    using num len b kept_bounds [of t] i64_add [of "int (length ts)" 1] i64_add [of "kept_sum ts" "?k t"] by auto
  have "0 \<le> kept_sum ts + ?k t" using b kept_bounds [of t] by simp
  then have div: "(kept_sum ts + ?k t) sdiv (int (length ts) + 1) = (kept_sum ts + ?k t) div (int (length ts) + 1)"
    by (simp add: signed_divide_int_def sgn_if)
  obtain s' where s': "S_UpdateRtt t s = Some s'" "s_rtt_num s' = int (length ts) + 1" "s_sum_rtt s' = kept_sum ts + ?k t"
    "s_average_rtt s' = (kept_sum ts + ?k t) div (int (length ts) + 1)"
    "s_max_rtt s' = max (?k t) (s_max_rtt s)" "s_min_rtt s' = min (?k t) (s_min_rtt s)"
    using num(3) i div by (simp add: S_UpdateRtt_eq Let_def max_def min_def)
  moreover have "s_max_rtt s' = Max (?k ` set (ts @ [t]))" "s_min_rtt s' = Min (?k ` set (ts @ [t]))"
    using st False s'(5,6) by (simp_all add: sender_stats_def)
  ultimately have "sender_stats (ts @ [t]) s'" by (simp add: sender_stats_def kept_sum_snoc algebra_simps)
  with s'(1) show ?thesis by blast
qed

lemma samples_run_append: "samples_run update (ts @ us) s = Option.bind (samples_run update ts s) (samples_run update us)"
  by (induction ts arbitrary: s) (auto split: Option.bind_split)

lemma sender_stats_run:
  assumes "length ts \<le> 2 ^ 30" and "sender_stats [] s"
  shows "\<exists>s'. samples_run S_UpdateRtt ts s = Some s' \<and> sender_stats ts s'"
  using assms(1)
proof (induction ts rule: rev_induct)
  case (snoc t ts)
  then obtain s1 where s1: "samples_run S_UpdateRtt ts s = Some s1" "sender_stats ts s1" by auto
  from sender_stats_step [OF s1(2)] snoc.prems obtain s2 where "S_UpdateRtt t s1 = Some s2" "sender_stats (ts @ [t]) s2" by auto
  with s1(1) show ?case by (simp add: samples_run_append)
qed (use assms(2) in simp)

lemma mean_between:
  assumes "ts \<noteq> []"
  shows "Min ((\<lambda>t. uint (keep t)) ` set ts) \<le> kept_sum ts div int (length ts)" "kept_sum ts div int (length ts) \<le> Max ((\<lambda>t. uint (keep t)) ` set ts)"
proof -
  let ?k = "\<lambda>t. uint (keep t)"
  have "(\<Sum>t\<leftarrow>ts. ?k t) \<le> (\<Sum>t\<leftarrow>ts. Max (?k ` set ts))" by (rule sum_list_mono) simp
  moreover have "(\<Sum>t\<leftarrow>ts. Min (?k ` set ts)) \<le> (\<Sum>t\<leftarrow>ts. ?k t)" by (rule sum_list_mono) simp
  ultimately have b: "int (length ts) * Min (?k ` set ts) \<le> kept_sum ts" "kept_sum ts \<le> int (length ts) * Max (?k ` set ts)"
    by (simp_all add: kept_sum_def sum_list_triv)
  have n: "0 < int (length ts)" using assms by simp
  show "Min (?k ` set ts) \<le> kept_sum ts div int (length ts)" using zdiv_mono1 [OF b(1) n] n by simp
  show "kept_sum ts div int (length ts) \<le> Max (?k ` set ts)" using zdiv_mono1 [OF b(2) n] n by simp
qed

text \<open>
  The sender's round-trip statistics. From a new sender, any samples of at most \<open>b\<close> ms are taken without overflow; the average is the
  mean of the samples, each counted as at least 5 ms, it lies between the least and the largest, which \<open>RTT\<close> reports, and the smoothed time is
  between 10 and \<open>b\<close>.
\<close>

theorem sender_rtt_statistics:
  assumes "ts \<noteq> []" and "length ts \<le> 2 ^ 30" and "\<And>t. t \<in> set ts \<Longrightarrow> unat t \<le> b" and "10 \<le> b" and "b < 2 ^ 29"
  shows "\<exists>s' rtt avg least most. samples_run S_UpdateRtt ts (snd (Sender m strm)) = Some s' \<and> S_RTT s' = (rtt, avg, least, most) \<and>
     avg = (\<Sum>t\<leftarrow>ts. int (max 5 (unat t))) div int (length ts) \<and> least = Min ((\<lambda>t. int (max 5 (unat t))) ` set ts) \<and>
     most = Max ((\<lambda>t. int (max 5 (unat t))) ` set ts) \<and> least \<le> avg \<and> avg \<le> most \<and> 10 \<le> rtt \<and> rtt \<le> int b"
proof -
  let ?s = "snd (Sender m strm)"
  obtain m' ret st where i: "bin_stream_init m strm = (m', ret, st)" by (metis surj_pair)
  have s: "sender_stats [] ?s" "s_rtt_num ?s = 0" "s_sum_rtt ?s = 0" "s_rtt ?s = 0" by (simp_all add: Sender_def i sender_stats_def kept_sum_def)
  from sender_stats_run [OF assms(2) s(1)] obtain s' where s': "samples_run S_UpdateRtt ts ?s = Some s'" "sender_stats ts s'" by blast
  from sr.run [of ?s ts b] s(2-4) assms s'(1) have r: "10 \<le> unat (s_rtt s')" "unat (s_rtt s') \<le> b" by auto
  let ?k = "\<lambda>t :: u32. int (max 5 (unat t))"
  have k: "(\<lambda>t. uint (keep t)) = ?k" by (simp add: keep_max(2))
  have v: "s_average_rtt s' = (\<Sum>t\<leftarrow>ts. ?k t) div int (length ts)" "s_min_rtt s' = Min (?k ` set ts)" "s_max_rtt s' = Max (?k ` set ts)"
    using s'(2) assms(1) unfolding sender_stats_def kept_sum_def k by auto
  have m: "s_min_rtt s' \<le> s_average_rtt s'" "s_average_rtt s' \<le> s_max_rtt s'"
    using mean_between [OF assms(1)] unfolding kept_sum_def k v by auto
  have "10 \<le> uint (s_rtt s')" "uint (s_rtt s') \<le> int b" using r uint_nat [of "s_rtt s'"] by linarith+
  then show ?thesis
    using s'(1) v m
    by (intro exI [of _ s'] exI [of _ "uint (s_rtt s')"] exI [of _ "s_average_rtt s'"] exI [of _ "s_min_rtt s'"]
        exI [of _ "s_max_rtt s'"]) (simp add: S_RTT_def)
qed

theorem sender_rtt_statistics_witness:
  "\<exists>s' rtt. samples_run S_UpdateRtt [20, 40, 3] (snd (Sender le_machine no_stream)) = Some s' \<and> S_RTT s' = (rtt, 21, 5, 40) \<and> 10 \<le> rtt \<and> rtt \<le> 100"
proof -
  have "\<exists>s' rtt avg least most. samples_run S_UpdateRtt [20, 40, 3] (snd (Sender le_machine no_stream)) = Some s' \<and> S_RTT s' = (rtt, avg, least, most) \<and>
     avg = (\<Sum>t\<leftarrow>[20, 40, 3 :: u32]. int (max 5 (unat t))) div int (length [20, 40, 3 :: u32]) \<and>
     least = Min ((\<lambda>t. int (max 5 (unat t))) ` set [20, 40, 3 :: u32]) \<and> most = Max ((\<lambda>t. int (max 5 (unat t))) ` set [20, 40, 3 :: u32]) \<and>
     least \<le> avg \<and> avg \<le> most \<and> 10 \<le> rtt \<and> rtt \<le> int 100"
    by (rule sender_rtt_statistics) auto
  then show ?thesis by simp
qed

lemma receiver_reports:
  assumes "R_UpdateRtt t r = Some r'"
  shows "r_calls r' = r_calls r \<or> (\<exists>avg most. r_calls r' = r_calls r @ [OnRttUpdate avg most] \<and> uint (keep t) \<le> most)"
proof (cases "r_rtt_num r = 0")
  case True
  with assms show ?thesis by (cases "r_receive_side_cc r") (auto simp: R_UpdateRtt_eq Let_def)
next
  case False
  let ?most = "if keep t > r_max_rtt r then keep t else r_max_rtt r"
  have "uint (keep t) \<le> uint ?most" by (simp add: word_le_def word_less_def)
  moreover from assms False have "r_calls r' = r_calls r \<or> (\<exists>avg. r_calls r' = r_calls r @ [OnRttUpdate avg (uint ?most)])"
    by (cases "r_receive_side_cc r") (auto simp: R_UpdateRtt_eq Let_def bind_eq_Some_conv)
  ultimately show ?thesis by blast
qed

text \<open>
  The controller is told an average above the maximum. The sender reports a sample before it enters the maximum: after two samples, the
  second larger by at least 2, the average is above the reported maximum. The receiver, which updates the maximum first, never does so.
\<close>

theorem sender_reports_stale_maximum:
  assumes "5 < unat a" and "unat a + 2 \<le> unat b"
  shows "(\<exists>s'. samples_run S_UpdateRtt [a, b] (snd (Sender m strm)) = Some s' \<and>
       s_calls s' = [OnRttUpdate (uint a) (uint a), OnRttUpdate ((uint a + uint b) div 2) (uint a)] \<and> uint a < (uint a + uint b) div 2) \<and>
     (\<forall>r r' t. R_UpdateRtt t r = Some r' \<longrightarrow> r_calls r' = r_calls r \<or>
       (\<exists>avg most. r_calls r' = r_calls r @ [OnRttUpdate avg most] \<and> uint (keep t) \<le> most))"
proof (intro conjI allI impI)
  obtain m' ret st where i: "bin_stream_init m strm = (m', ret, st)" by (metis surj_pair)
  have k: "keep a = a" "keep b = b" using assms by (auto simp: keep_def word_less_nat_alt)
  have n: "0 \<le> uint a" "uint a < 2 ^ 32" "0 \<le> uint b" "uint b < 2 ^ 32" "uint a + 2 \<le> uint b"
    using assms unsigned_less [of a, where ?'a = int] unsigned_less [of b, where ?'a = int] by (simp, simp, simp, simp, simp only: uint_nat)
  have j: "i64 (uint a + uint b) = Some (uint a + uint b)" "i64 2 = Some 2"
  proof -
    show "i64 (uint a + uint b) = Some (uint a + uint b)" using n(1-4) by (intro i64_add) auto
    show "i64 2 = Some 2" by (simp add: i64_def)
  qed
  have "(uint a + uint b) sdiv 2 = (uint a + uint b) div 2" using n by (simp add: signed_divide_int_def sgn_if)
  then have "\<exists>s'. samples_run S_UpdateRtt [a, b] (snd (Sender m strm)) = Some s' \<and>
       s_calls s' = [OnRttUpdate (uint a) (uint a), OnRttUpdate ((uint a + uint b) div 2) (uint a)]"
    using k j by (simp add: Sender_def i S_UpdateRtt_eq Let_def)
  moreover have "uint a < (uint a + uint b) div 2" using n(5) by linarith
  ultimately show "\<exists>s'. samples_run S_UpdateRtt [a, b] (snd (Sender m strm)) = Some s' \<and>
       s_calls s' = [OnRttUpdate (uint a) (uint a), OnRttUpdate ((uint a + uint b) div 2) (uint a)] \<and> uint a < (uint a + uint b) div 2" by blast
next
  fix r r' t
  assume u: "R_UpdateRtt t r = Some r'"
  then show "r_calls r' = r_calls r \<or> (\<exists>avg most. r_calls r' = r_calls r @ [OnRttUpdate avg most] \<and> uint (keep t) \<le> most)"
    by (rule receiver_reports)
qed

theorem sender_reports_stale_maximum_witness:
  "\<exists>s'. samples_run S_UpdateRtt [10, 1000] (snd (Sender le_machine no_stream)) = Some s' \<and> s_calls s' = [OnRttUpdate 10 10, OnRttUpdate 505 10]"
  using sender_reports_stale_maximum [of 10 1000 le_machine no_stream] by auto

end
