(* ===== verification/Peer_Exchange.thy ===== *)
theory Peer_Exchange
  imports Peer_Proofs
begin

text \<open>
  What the two peers make of each other's datagrams: the exchange of pings and pongs, segments and padding, and arbitrary bytes.
\<close>

section \<open>Sending and receiving\<close>

text \<open>A message can also be encoded into a stream that has been read.\<close>

lemma encode_anywhere:
  assumes "machine_ready m" and "stream_r s" and "0 < ssize s" and "names (mid h) b" and "wf_body b"
  shows "\<exists>s'. sim_encode_msg m s h b = Some s' \<and> stream_w s' \<and> contents s' = msg_bytes h b"
proof -
  let ?s = "s\<lparr>wptr := used s\<rparr>"
  have "stream_w ?s" using assms(2,3) by (simp add: stream_w_def stream_r_def)
  from encode_msg_bytes [OF assms(1) this assms(4,5)]
  obtain s' where "sim_encode_msg m ?s h b = Some s'" "stream_w s'" "contents s' = msg_bytes h b" by blast
  moreover have "sim_encode_msg m s h b = sim_encode_msg m ?s h b"
    by (simp add: sim_encode_msg_def bin_stream_rewind_def Let_def)
  ultimately show ?thesis by auto
qed

lemma stream_contents: "stream_w s \<Longrightarrow> \<exists>d. data s = Some d \<and> peek d 0 (used s) = Some (contents s)"
  by (auto simp: stream_w_def stream_r_def contents_def peek_in)

lemma R_send: "stream_w s \<Longrightarrow> r_dst r = Some a \<Longrightarrow> R_SendToNetwork s r = Some (r\<lparr>r_calls := r_calls r @ [Datagram a (contents s)]\<rparr>)"
  by (drule stream_contents) (auto simp: R_SendToNetwork_def)

lemma S_send: "stream_w s \<Longrightarrow> s_dst r = Some a \<Longrightarrow> S_SendToNetwork s r = Some (r\<lparr>s_calls := s_calls r @ [Datagram a (contents s)]\<rparr>)"
  by (drule stream_contents) (auto simp: S_SendToNetwork_def)

text \<open>The stream a datagram arrives in: at most \<open>DEFAULT_PACKET_SIZE\<close> bytes of it.\<close>

definition arrived :: "machine \<Rightarrow> bin_stream \<Rightarrow> bytes \<Rightarrow> bin_stream" where
  "arrived m strm bs =
     (let bs = take DEFAULT_PACKET_SIZE bs
      in received_stream (snd (snd (bin_stream_init m strm))) (bs @ drop (length bs) (map (junk m) [0..<DEFAULT_PACKET_SIZE])) (length bs))"

lemma init_ready:
  "machine_ready m \<Longrightarrow> \<exists>s. bin_stream_init m strm = (m, 0, s) \<and> data s = Some (map (junk m) [0..<DEFAULT_PACKET_SIZE]) \<and>
     ssize s = DEFAULT_PACKET_SIZE \<and> rptr s = 0 \<and> rsize s = 0 \<and> wptr s = 0"
  by (auto simp: bin_stream_init_def machine_ready_def malloc_def Let_def)

lemma arrived_stream:
  assumes "machine_ready m"
  shows "stream_r (arrived m strm bs)" "0 < ssize (arrived m strm bs)" "rsize (arrived m strm bs) = 0"
    "contents (arrived m strm bs) = take DEFAULT_PACKET_SIZE bs"
  using init_ready [OF assms, of strm]
  by (auto simp: arrived_def received_stream_def stream_r_def contents_def Let_def DEFAULT_PACKET_SIZE_def min_def)

lemma receive_step:
  assumes "machine_ready m" and "bs \<noteq> []"
  shows "\<exists>s d d'. bin_stream_init m strm = (m, 0, s) \<and> data s = Some d \<and>
     su_udp_recv (Some (a, bs)) d (ssize s) = Some (int (length (take DEFAULT_PACKET_SIZE bs)), Some a, d') \<and>
     0 < length (take DEFAULT_PACKET_SIZE bs) \<and>
     received_stream s d' (length (take DEFAULT_PACKET_SIZE bs)) = arrived m strm bs"
proof -
  let ?n = "length (take DEFAULT_PACKET_SIZE bs)" and ?d = "map (junk m) [0..<DEFAULT_PACKET_SIZE]"
  from init_ready [OF assms(1)] obtain s where s: "bin_stream_init m strm = (m, 0, s)" "data s = Some ?d" "ssize s = DEFAULT_PACKET_SIZE" by blast
  have n: "0 < ?n" using assms(2) by (simp add: DEFAULT_PACKET_SIZE_def)
  then have "take DEFAULT_PACKET_SIZE bs \<noteq> []" by auto
  moreover have "poke ?d 0 (take DEFAULT_PACKET_SIZE bs) = Some (take DEFAULT_PACKET_SIZE bs @ drop ?n ?d)" by (subst poke_in) simp_all
  ultimately have "su_udp_recv (Some (a, bs)) ?d (ssize s) = Some (int ?n, Some a, take DEFAULT_PACKET_SIZE bs @ drop ?n ?d)"
    using s(3) by (simp add: su_udp_recv_def del: length_take)
  moreover have "received_stream s (take DEFAULT_PACKET_SIZE bs @ drop ?n ?d) ?n = arrived m strm bs"
    by (simp add: arrived_def Let_def s(1) del: length_take)
  ultimately show ?thesis using s n by blast
qed

definition R_due :: "int \<Rightarrow> receiver \<Rightarrow> bool" where
  "R_due t r \<longleftrightarrow> uint (word_of_int t :: u32) - r_update_ping_ts r > uint (if r_rtt r \<noteq> 0 then r_rtt r else 100)"

definition S_due :: "int \<Rightarrow> sender \<Rightarrow> bool" where
  "S_due t s \<longleftrightarrow> t - s_update_ping_ts s > uint (if s_rtt s \<noteq> 0 then s_rtt s else 100)"

text \<open>A peer that can ping: its stream is in use, it has a peer, the time of its last ping is no large number.\<close>

definition R_ready :: "receiver \<Rightarrow> bool" where
  "R_ready r \<longleftrightarrow> r_running r \<and> r_session_connected r \<and> stream_w (r_stream r) \<and> 0 \<le> r_update_ping_ts r \<and> r_update_ping_ts r < 2 ^ 62 \<and>
     r_dst r \<noteq> None"

definition S_ready :: "sender \<Rightarrow> bool" where
  "S_ready s \<longleftrightarrow> s_running s \<and> stream_w (s_stream s) \<and> 0 \<le> s_update_ping_ts s \<and> s_update_ping_ts s < 2 ^ 62 \<and> s_dst s \<noteq> None"

lemma i64_diff: "0 \<le> x \<Longrightarrow> x < 2 ^ 62 \<Longrightarrow> 0 \<le> y \<Longrightarrow> y < 2 ^ 62 \<Longrightarrow> i64 (x - y) = Some (x - y)" for x y :: int
  by (simp add: i64_def)

text \<open>\<open>Process\<close> is a ping, if one is due, and then the handling of a datagram.\<close>

definition R_tick :: "machine \<Rightarrow> int \<Rightarrow> receiver \<Rightarrow> receiver option" where
  "R_tick m t r = (if R_due t r then R_SendPing m (uint (word_of_int t :: u32)) r else Some r)"

definition R_receive :: "machine \<Rightarrow> int \<Rightarrow> (su_addr \<times> bytes) option \<Rightarrow> receiver \<Rightarrow> receiver option" where
  "R_receive m t' incoming r =
     Option.bind (Some (bin_stream_init m (r_stream r))) (\<lambda>(m, _, rstream). Option.bind (data rstream) (\<lambda>d.
        Option.bind (su_udp_recv incoming d (ssize rstream)) (\<lambda>(ret, remote, d).
          if ret > 0 then R_ProcessingMsg m t' (received_stream rstream d (nat ret)) (if \<not> r_session_connected r then r\<lparr>r_session_connected := True, r_dst := remote\<rparr> else r)
          else Some r)))"

definition S_tick :: "machine \<Rightarrow> int \<Rightarrow> sender \<Rightarrow> sender option" where
  "S_tick m t s = (if S_due t s then S_SendPing m t s else Some s)"

definition S_receive :: "(bytes \<Rightarrow> bool) \<Rightarrow> machine \<Rightarrow> int \<Rightarrow> (su_addr \<times> bytes) option \<Rightarrow> sender \<Rightarrow> sender option" where
  "S_receive parses m t' incoming s =
     Option.bind (Some (bin_stream_init m (s_stream s))) (\<lambda>(m, _, rstream). Option.bind (data rstream) (\<lambda>d.
        Option.bind (su_udp_recv incoming d (ssize rstream)) (\<lambda>(ret, remote, d).
          if ret > 0 then S_ProcessingMsg parses m t' (received_stream rstream d (nat ret)) (s\<lparr>s_dst := remote\<rparr>) else Some s)))"

lemma R_Process_split:
  assumes "R_ready r"
  shows "R_Process m t t' incoming r = Option.bind (R_tick m t r) (R_receive m t' incoming)"
proof -
  have "uint (word_of_int t :: u32) < 2 ^ 32" "0 \<le> uint (word_of_int t :: u32)" using uint_bounded [of "word_of_int t :: u32"] by simp_all
  then have i: "i64 (uint (word_of_int t :: u32) - r_update_ping_ts r) = Some (uint (word_of_int t :: u32) - r_update_ping_ts r)"
    using assms unfolding R_ready_def by (intro i64_diff) auto
  then show ?thesis
    using assms unfolding R_Process_def Let_def R_receive_def [abs_def] by (simp add: R_ready_def R_due_def R_tick_def)
qed

lemma S_Process_split:
  assumes "S_ready s" and "0 \<le> t" and "t < 2 ^ 62"
  shows "S_Process parses m t t' incoming s = Option.bind (S_tick m t s) (S_receive parses m t' incoming)"
proof -
  have i: "i64 (t - s_update_ping_ts s) = Some (t - s_update_ping_ts s)"
    using assms unfolding S_ready_def by (intro i64_diff) auto
  then show ?thesis
    using assms unfolding S_Process_def Let_def S_receive_def [abs_def] by (simp add: S_ready_def S_due_def S_tick_def)
qed

lemma receive_nothing:
  assumes "machine_ready m"
  shows "R_receive m t' None r = Some r" "S_receive parses m t' None s = Some s"
  using init_ready [OF assms, of "r_stream r"] init_ready [OF assms, of "s_stream s"]
  by (auto simp: R_receive_def S_receive_def su_udp_recv_def)

lemma R_receive_bytes:
  assumes "machine_ready m" and "bs \<noteq> []"
  shows "R_receive m t' (Some (a, bs)) r = R_ProcessingMsg m t' (arrived m (r_stream r) bs)
     (if r_session_connected r then r else r\<lparr>r_session_connected := True, r_dst := Some a\<rparr>)"
  using receive_step [OF assms, of "r_stream r" a] by (auto simp: R_receive_def simp del: length_take)

lemma S_receive_bytes:
  assumes "machine_ready m" and "bs \<noteq> []"
  shows "S_receive parses m t' (Some (a, bs)) s = S_ProcessingMsg parses m t' (arrived m (s_stream s) bs) (s\<lparr>s_dst := Some a\<rparr>)"
  using receive_step [OF assms, of "s_stream s" a] by (auto simp: S_receive_def simp del: length_take)

section \<open>Pings and pongs\<close>

lemma arrived_msg:
  assumes m: "machine_ready m" and b: "names (mid h) b" "wf_body b" and old: "names (mid h) old" "room_for old"
    and len: "length (msg_bytes h b) \<le> DEFAULT_PACKET_SIZE"
  shows "\<exists>s1 s2. sim_decode_header m (arrived m strm (msg_bytes h b)) h0 = Some ((0, h), s1) \<and>
     sim_decode_msg m s1 h old = Some ((0, received old b), s2) \<and> stream_r s2 \<and> 0 < ssize s2"
proof -
  let ?a = "arrived m strm (msg_bytes h b)"
  note a = arrived_stream [OF m, of strm "msg_bytes h b"]
  have c: "contents ?a = msg_bytes h b" using a(4) len by simp
  from decode_msg_bytes [OF m a(1,3) c b old] obtain s1 s2 where
    s: "sim_decode_header m ?a h0 = Some ((0, h), s1)" "sim_decode_msg m s1 h old = Some ((0, received old b), s2)" "length (unread s2) = 4" by blast
  have "4 \<le> length (contents ?a)" using c by (simp add: msg_bytes_def Let_def)
  then have "4 \<le> used ?a" by (simp add: contents_def split: option.splits)
  from decode_header_safe [OF m a(1) this, of h0] s(1) have "stream_r s1" by auto
  with yieldsD [OF body_yields [OF old] m this] s(2) have r: "stream_r s2" by (auto dest: read_upto_r)
  then have "0 < used s2" "used s2 \<le> ssize s2" using s(3) unread_length [OF r] by (auto simp: stream_r_def)
  with s r show ?thesis by auto
qed

lemma header_simps [simp]: "mid (INIT_SIM_HEADER i u) = i" "uid (INIT_SIM_HEADER i u) = u"
  by (simp_all add: INIT_SIM_HEADER_def)

lemma ping_msg:
  assumes "i = SIM_PING \<or> i = SIM_PONG" and "machine_ready m"
  shows "\<exists>s1 s2. sim_decode_header m (arrived m strm (msg_bytes (INIT_SIM_HEADER i u) (Ping p))) h0 = Some ((0, INIT_SIM_HEADER i u), s1) \<and>
     sim_decode_msg m s1 (INIT_SIM_HEADER i u) (Ping (local_ping m)) = Some ((0, Ping p), s2) \<and> stream_r s2 \<and> 0 < ssize s2"
  using arrived_msg [OF assms(2), of "INIT_SIM_HEADER i u" "Ping p" "Ping (local_ping m)" strm h0] assms(1)
  by (simp add: msg_bytes_def Let_def header_bytes_def DEFAULT_PACKET_SIZE_def)

abbreviation ping_bytes :: "u8 \<Rightarrow> u32 \<Rightarrow> int \<Rightarrow> bytes" where
  "ping_bytes i u t \<equiv> msg_bytes (INIT_SIM_HEADER i u) (Ping \<lparr>ping_ts = word_of_int t\<rparr>)"

lemma connected_id: "r_session_connected r \<Longrightarrow> r\<lparr>r_session_connected := True\<rparr> = r"
  by simp

lemma dst_id: "s_dst s = a \<Longrightarrow> s\<lparr>s_dst := a\<rparr> = s"
  by auto

lemma R_on_ping:
  assumes m: "machine_ready m" and r: "r_session_connected r" "r_dst r = Some a"
  shows "R_ProcessingMsg m t (arrived m strm (msg_bytes (INIT_SIM_HEADER SIM_PING u) (Ping p))) r =
     Some (r\<lparr>r_calls := r_calls r @ [Datagram a (msg_bytes (INIT_SIM_HEADER SIM_PONG (r_uid r)) (Ping p))]\<rparr>)"
proof -
  from ping_msg [of SIM_PING, OF _ m] obtain s1 s2 where
    s: "sim_decode_header m (arrived m strm (msg_bytes (INIT_SIM_HEADER SIM_PING u) (Ping p))) (local_header m) = Some ((0, INIT_SIM_HEADER SIM_PING u), s1)"
      "sim_decode_msg m s1 (INIT_SIM_HEADER SIM_PING u) (Ping (local_ping m)) = Some ((0, Ping p), s2)" "stream_r s2" "0 < ssize s2" by blast
  from encode_anywhere [OF m s(3,4), of "INIT_SIM_HEADER SIM_PONG (r_uid r)" "Ping p"] obtain s3 where
    "sim_encode_msg m s2 (INIT_SIM_HEADER SIM_PONG (r_uid r)) (Ping p) = Some s3" "stream_w s3"
      "contents s3 = msg_bytes (INIT_SIM_HEADER SIM_PONG (r_uid r)) (Ping p)" by auto
  with s r R_send [of s3 r a] show ?thesis by (simp add: R_ProcessingMsg_def msg_ids connected_id [OF r(1)])
qed

lemma R_on_pong:
  assumes m: "machine_ready m" and r: "r_session_connected r" and t: "i64 (t - sint (ping_ts p)) = Some d"
  shows "R_ProcessingMsg m t (arrived m strm (msg_bytes (INIT_SIM_HEADER SIM_PONG u) (Ping p))) r =
     (if d > 0 then R_UpdateRtt (word_of_int d) r else Some r)"
proof -
  from ping_msg [of SIM_PONG, OF _ m] obtain s1 s2 where
    "sim_decode_header m (arrived m strm (msg_bytes (INIT_SIM_HEADER SIM_PONG u) (Ping p))) (local_header m) = Some ((0, INIT_SIM_HEADER SIM_PONG u), s1)"
      "sim_decode_msg m s1 (INIT_SIM_HEADER SIM_PONG u) (Ping (local_ping m)) = Some ((0, Ping p), s2)" by blast
  with t r show ?thesis by (simp add: R_ProcessingMsg_def msg_ids connected_id [OF r])
qed

lemma S_on_ping:
  assumes m: "machine_ready m" and r: "s_dst r = Some a"
  shows "S_ProcessingMsg parses m t (arrived m strm (msg_bytes (INIT_SIM_HEADER SIM_PING u) (Ping p))) r =
     Some (r\<lparr>s_calls := s_calls r @ [Datagram a (msg_bytes (INIT_SIM_HEADER SIM_PONG (s_uid r)) (Ping p))]\<rparr>)"
proof -
  from ping_msg [of SIM_PING, OF _ m] obtain s1 s2 where
    s: "sim_decode_header m (arrived m strm (msg_bytes (INIT_SIM_HEADER SIM_PING u) (Ping p))) (local_header m) = Some ((0, INIT_SIM_HEADER SIM_PING u), s1)"
      "sim_decode_msg m s1 (INIT_SIM_HEADER SIM_PING u) (Ping (local_ping m)) = Some ((0, Ping p), s2)" "stream_r s2" "0 < ssize s2" by blast
  from encode_anywhere [OF m s(3,4), of "INIT_SIM_HEADER SIM_PONG (s_uid r)" "Ping p"] obtain s3 where
    "sim_encode_msg m s2 (INIT_SIM_HEADER SIM_PONG (s_uid r)) (Ping p) = Some s3" "stream_w s3"
      "contents s3 = msg_bytes (INIT_SIM_HEADER SIM_PONG (s_uid r)) (Ping p)" by auto
  with s r S_send [of s3 r a] show ?thesis by (simp add: S_ProcessingMsg_def msg_ids)
qed

lemma S_on_pong:
  assumes m: "machine_ready m" and t: "i64 (t - sint (ping_ts p)) = Some d"
  shows "S_ProcessingMsg parses m t (arrived m strm (msg_bytes (INIT_SIM_HEADER SIM_PONG u) (Ping p))) r =
     (if d > 0 then S_UpdateRtt (word_of_int d) r else Some r)"
proof -
  from ping_msg [of SIM_PONG, OF _ m] obtain s1 s2 where
    "sim_decode_header m (arrived m strm (msg_bytes (INIT_SIM_HEADER SIM_PONG u) (Ping p))) (local_header m) = Some ((0, INIT_SIM_HEADER SIM_PONG u), s1)"
      "sim_decode_msg m s1 (INIT_SIM_HEADER SIM_PONG u) (Ping (local_ping m)) = Some ((0, Ping p), s2)" by blast
  with t show ?thesis by (simp add: S_ProcessingMsg_def msg_ids)
qed

lemma R_pings:
  assumes "machine_ready m" and "R_ready r" and "r_dst r = Some a" and "0 \<le> t" and "t < 2 ^ 62"
  shows "\<exists>r'. R_SendPing m t r = Some r' \<and> R_ready r' \<and> r_dst r' = Some a \<and> r_uid r' = r_uid r \<and> r_rtt r' = r_rtt r \<and> r_rtt_num r' = r_rtt_num r \<and>
     r_sum_rtt r' = r_sum_rtt r \<and> r_calls r' = r_calls r @ [Datagram a (ping_bytes SIM_PING (r_uid r) t)]"
proof -
  have w: "stream_r (r_stream r)" "0 < ssize (r_stream r)" using assms(2) by (simp_all add: R_ready_def stream_w_def)
  from encode_anywhere [OF assms(1) w, of "INIT_SIM_HEADER SIM_PING (r_uid r)" "Ping \<lparr>ping_ts = word_of_int t\<rparr>"] obtain s where
    "sim_encode_msg m (r_stream r) (INIT_SIM_HEADER SIM_PING (r_uid r)) (Ping \<lparr>ping_ts = word_of_int t\<rparr>) = Some s" "stream_w s"
      "contents s = ping_bytes SIM_PING (r_uid r) t" by auto
  with assms show ?thesis by (simp add: R_SendPing_def R_send R_ready_def)
qed

lemma S_pings:
  assumes "machine_ready m" and "S_ready r" and "s_dst r = Some a" and "0 \<le> t" and "t < 2 ^ 62"
  shows "\<exists>r'. S_SendPing m t r = Some r' \<and> S_ready r' \<and> s_dst r' = Some a \<and> s_uid r' = s_uid r \<and> s_rtt r' = s_rtt r \<and> s_rtt_num r' = s_rtt_num r \<and>
     s_sum_rtt r' = s_sum_rtt r \<and> s_calls r' = s_calls r @ [Datagram a (ping_bytes SIM_PING (s_uid r) t)]"
proof -
  have w: "stream_r (s_stream r)" "0 < ssize (s_stream r)" using assms(2) by (simp_all add: S_ready_def stream_w_def)
  from encode_anywhere [OF assms(1) w, of "INIT_SIM_HEADER SIM_PING (s_uid r)" "Ping \<lparr>ping_ts = word_of_int t\<rparr>"] obtain s where
    "sim_encode_msg m (s_stream r) (INIT_SIM_HEADER SIM_PING (s_uid r)) (Ping \<lparr>ping_ts = word_of_int t\<rparr>) = Some s" "stream_w s"
      "contents s = ping_bytes SIM_PING (s_uid r) t" by auto
  with assms show ?thesis by (simp add: S_SendPing_def S_send S_ready_def)
qed

text \<open>
  What the peers promise each other: \<open>Process\<close> pings when a ping is due, answers a ping with the same time stamp, and takes the age of a
  pong's time stamp as a sample. \<open>stamp\<close> is the clock as the peer sends it.
\<close>

locale ping_peer = rtt_estimator update rtt total num
  for update :: "u32 \<Rightarrow> 's \<Rightarrow> 's option" and rtt :: "'s \<Rightarrow> u32" and total :: "'s \<Rightarrow> int" and num :: "'s \<Rightarrow> int" +
  fixes Process :: "machine \<Rightarrow> int \<Rightarrow> int \<Rightarrow> (su_addr \<times> bytes) option \<Rightarrow> 's \<Rightarrow> 's option"
    and SendPing :: "machine \<Rightarrow> int \<Rightarrow> 's \<Rightarrow> 's option"
    and ready :: "'s \<Rightarrow> bool" and due :: "int \<Rightarrow> 's \<Rightarrow> bool" and stamp :: "int \<Rightarrow> int"
    and me :: "'s \<Rightarrow> u32" and dst :: "'s \<Rightarrow> su_addr option" and calls :: "'s \<Rightarrow> peer_call list"
  assumes stamps: "0 \<le> t \<Longrightarrow> t < 2 ^ 62 \<Longrightarrow> 0 \<le> stamp t \<and> stamp t \<le> t"
    and pings: "machine_ready m \<Longrightarrow> ready s \<Longrightarrow> dst s = Some a \<Longrightarrow> 0 \<le> t \<Longrightarrow> t < 2 ^ 62 \<Longrightarrow>
      \<exists>s'. SendPing m t s = Some s' \<and> ready s' \<and> dst s' = Some a \<and> me s' = me s \<and> rtt s' = rtt s \<and> num s' = num s \<and> total s' = total s \<and>
        calls s' = calls s @ [Datagram a (ping_bytes SIM_PING (me s) t)]"
    and idles: "machine_ready m \<Longrightarrow> ready s \<Longrightarrow> 0 \<le> t \<Longrightarrow> t < 2 ^ 62 \<Longrightarrow>
      Process m t t' None s = (if due t s then SendPing m (stamp t) s else Some s)"
    and answers: "machine_ready m \<Longrightarrow> ready s \<Longrightarrow> dst s = Some a \<Longrightarrow> 0 \<le> t \<Longrightarrow> t < 2 ^ 62 \<Longrightarrow>
      \<exists>s1 s2. (if due t s then SendPing m (stamp t) s else Some s) = Some s1 \<and>
        Process m t t' (Some (a, msg_bytes (INIT_SIM_HEADER SIM_PING u) (Ping p))) s = Some s2 \<and>
        calls s2 = calls s1 @ [Datagram a (msg_bytes (INIT_SIM_HEADER SIM_PONG (me s)) (Ping p))]"
    and takes: "machine_ready m \<Longrightarrow> ready s \<Longrightarrow> dst s = Some a \<Longrightarrow> 0 \<le> t \<Longrightarrow> t < 2 ^ 62 \<Longrightarrow> 0 < t' - sint (ping_ts p) \<Longrightarrow>
      t' - sint (ping_ts p) < 2 ^ 63 \<Longrightarrow>
      Process m t t' (Some (a, msg_bytes (INIT_SIM_HEADER SIM_PONG u) (Ping p))) s =
        Option.bind (if due t s then SendPing m (stamp t) s else Some s) (update (word_of_int (t' - sint (ping_ts p))))"
begin

lemma pinged:
  assumes "machine_ready m" and "ready s" and "dst s = Some a" and "0 \<le> t" and "t < 2 ^ 62"
  shows "\<exists>s'. (if due t s then SendPing m (stamp t) s else Some s) = Some s' \<and> ready s' \<and> dst s' = Some a \<and> me s' = me s \<and>
     rtt s' = rtt s \<and> num s' = num s \<and> total s' = total s \<and>
     calls s' = calls s @ (if due t s then [Datagram a (ping_bytes SIM_PING (me s) (stamp t))] else [])"
  using pings [OF assms(1-3), of "stamp t"] stamps [OF assms(4,5)] assms by auto

lemma takes_pong:
  assumes "machine_ready m" and "ready s" and "dst s = Some a" and "0 \<le> t" and "t < 2 ^ 62"
    and "0 \<le> t0" and "t0 < 2 ^ 62" and "stamp t0 < t'" and "t' < 2 ^ 62"
    and "0 \<le> num s" "num s < 2 ^ 30" "0 \<le> total s" "total s \<le> 2 ^ 62" "num s = 0 \<longrightarrow> total s = 0"
  shows "\<exists>s'. Process m t t' (Some (a, ping_bytes SIM_PONG u (stamp t0))) s = Some s' \<and>
     rtt s' = smooth (rtt s) (keep (word_of_int (t' - stamp t0))) \<and> num s' = num s + 1 \<and>
     total s' = total s + uint (keep (word_of_int (t' - stamp t0)))"
proof -
  note st = stamps [OF assms(6,7)]
  have p: "sint (ping_ts \<lparr>ping_ts = word_of_int (stamp t0)\<rparr>) = stamp t0" using st assms(7) by (simp add: sint_of_small)
  from pinged [OF assms(1-5)] obtain s1 where s1: "(if due t s then SendPing m (stamp t) s else Some s) = Some s1"
    "rtt s1 = rtt s" "num s1 = num s" "total s1 = total s" by blast
  have "t' - stamp t0 < 2 ^ 63" using st assms(9) by simp
  then have "Process m t t' (Some (a, ping_bytes SIM_PONG u (stamp t0))) s = update (word_of_int (t' - stamp t0)) s1"
    using takes [OF assms(1-5), of t' "\<lparr>ping_ts = word_of_int (stamp t0)\<rparr>" u] assms(8) s1(1) by (simp only: p) simp
  with step [of s1 "word_of_int (t' - stamp t0)"] assms(10-14) s1(2-4) show ?thesis by auto
qed

end

lemma msg_nonempty [simp]: "msg_bytes h b \<noteq> []"
  by (simp add: msg_bytes_def Let_def header_bytes_def)

text \<open>A ping leaves everything but the stream, the time and the calls alone.\<close>

lemma R_tick_ok:
  assumes "machine_ready m" and "R_ready r"
  shows "\<exists>r'. R_tick m t r = Some r' \<and> R_ready r' \<and> r_dst r' = r_dst r \<and> r_uid r' = r_uid r \<and> (\<exists>pings. r_calls r' = r_calls r @ pings)"
proof -
  from assms(2) obtain a where "r_dst r = Some a" by (auto simp: R_ready_def)
  moreover have "uint (word_of_int t :: u32) < 2 ^ 62" using uint_bounded [of "word_of_int t :: u32"] by simp
  ultimately show ?thesis using R_pings [OF assms, of a "uint (word_of_int t :: u32)"] assms(2) by (auto simp: R_tick_def)
qed

lemma S_tick_ok:
  assumes "machine_ready m" and "S_ready s" and "0 \<le> t" and "t < 2 ^ 62"
  shows "\<exists>s'. S_tick m t s = Some s' \<and> S_ready s' \<and> s_dst s' = s_dst s \<and> s_uid s' = s_uid s \<and> (\<exists>pings. s_calls s' = s_calls s @ pings)"
proof -
  from assms(2) obtain a where "s_dst s = Some a" by (auto simp: S_ready_def)
  then show ?thesis using S_pings [OF assms(1,2) _ assms(3,4), of a] assms(2) by (auto simp: S_tick_def)
qed

interpretation rp: ping_peer R_UpdateRtt r_rtt r_sum_rtt r_rtt_num R_Process R_SendPing R_ready R_due
  "\<lambda>t. uint (word_of_int t :: u32)" r_uid r_dst r_calls
proof
  fix t t' :: int and m a u p and s :: receiver
  show "0 \<le> uint (word_of_int t :: u32) \<and> uint (word_of_int t :: u32) \<le> t" if "0 \<le> t" "t < 2 ^ 62"
    using that by (simp add: uint_word_of_int zmod_le_nonneg_dividend)
  assume m: "machine_ready m" and s: "R_ready s"
  note split = R_Process_split [OF s, of m t t', unfolded R_tick_def [symmetric]]
  from R_tick_ok [OF m s] obtain s1 where s1: "R_tick m t s = Some s1" "R_ready s1" "r_dst s1 = r_dst s" "r_uid s1 = r_uid s" by blast
  have c: "r_session_connected s1" using s1(2) by (simp add: R_ready_def)
  show "R_Process m t t' None s = (if R_due t s then R_SendPing m (uint (word_of_int t :: u32)) s else Some s)"
    unfolding split receive_nothing [OF m] R_tick_def [symmetric] by (simp add: s1(1))
  assume a: "r_dst s = Some a"
  show "\<exists>s'. R_SendPing m t s = Some s' \<and> R_ready s' \<and> r_dst s' = Some a \<and> r_uid s' = r_uid s \<and> r_rtt s' = r_rtt s \<and> r_rtt_num s' = r_rtt_num s \<and>
      r_sum_rtt s' = r_sum_rtt s \<and> r_calls s' = r_calls s @ [Datagram a (ping_bytes SIM_PING (r_uid s) t)]" if "0 \<le> t" "t < 2 ^ 62"
    using R_pings [OF m s a that] .
  show "\<exists>s1 s2. (if R_due t s then R_SendPing m (uint (word_of_int t :: u32)) s else Some s) = Some s1 \<and>
        R_Process m t t' (Some (a, msg_bytes (INIT_SIM_HEADER SIM_PING u) (Ping p))) s = Some s2 \<and>
        r_calls s2 = r_calls s1 @ [Datagram a (msg_bytes (INIT_SIM_HEADER SIM_PONG (r_uid s)) (Ping p))]"
    unfolding split R_tick_def [symmetric]
    using s1 c a by (simp add: R_receive_bytes [OF m] R_on_ping [OF m])
  show "R_Process m t t' (Some (a, msg_bytes (INIT_SIM_HEADER SIM_PONG u) (Ping p))) s =
        Option.bind (if R_due t s then R_SendPing m (uint (word_of_int t :: u32)) s else Some s) (R_UpdateRtt (word_of_int (t' - sint (ping_ts p))))"
    if "0 < t' - sint (ping_ts p)" "t' - sint (ping_ts p) < 2 ^ 63"
  proof -
    have i: "i64 (t' - sint (ping_ts p)) = Some (t' - sint (ping_ts p))" using that by (intro i64_in) auto
    show ?thesis unfolding split R_tick_def [symmetric]
      using s1(1) c that by (simp add: R_receive_bytes [OF m] R_on_pong [OF m _ i])
  qed
qed

interpretation sp: ping_peer S_UpdateRtt s_rtt s_sum_rtt s_rtt_num "S_Process parses" S_SendPing S_ready S_due "\<lambda>t. t" s_uid s_dst s_calls
  for parses
proof
  fix t t' :: int and m a u p and s :: sender
  show "0 \<le> t \<and> t \<le> t" if "0 \<le> t" "t < 2 ^ 62" using that by simp
  assume m: "machine_ready m" and s: "S_ready s" and t: "0 \<le> t" "t < 2 ^ 62"
  note split = S_Process_split [OF s t, of parses m t']
  from S_tick_ok [OF m s t] obtain s1 where s1: "S_tick m t s = Some s1" "S_ready s1" "s_dst s1 = s_dst s" "s_uid s1 = s_uid s" by blast
  show "S_Process parses m t t' None s = (if S_due t s then S_SendPing m t s else Some s)"
    unfolding split receive_nothing [OF m] S_tick_def [symmetric] by (simp add: s1(1))
  assume a: "s_dst s = Some a"
  show "\<exists>s'. S_SendPing m t s = Some s' \<and> S_ready s' \<and> s_dst s' = Some a \<and> s_uid s' = s_uid s \<and> s_rtt s' = s_rtt s \<and> s_rtt_num s' = s_rtt_num s \<and>
      s_sum_rtt s' = s_sum_rtt s \<and> s_calls s' = s_calls s @ [Datagram a (ping_bytes SIM_PING (s_uid s) t)]"
    using S_pings [OF m s a t] .
  show "\<exists>s1 s2. (if S_due t s then S_SendPing m t s else Some s) = Some s1 \<and>
        S_Process parses m t t' (Some (a, msg_bytes (INIT_SIM_HEADER SIM_PING u) (Ping p))) s = Some s2 \<and>
        s_calls s2 = s_calls s1 @ [Datagram a (msg_bytes (INIT_SIM_HEADER SIM_PONG (s_uid s)) (Ping p))]"
    unfolding split S_tick_def [symmetric]
    using s1 a by (simp add: S_receive_bytes [OF m] S_on_ping [OF m, where a = a])
  show "S_Process parses m t t' (Some (a, msg_bytes (INIT_SIM_HEADER SIM_PONG u) (Ping p))) s =
        Option.bind (if S_due t s then S_SendPing m t s else Some s) (S_UpdateRtt (word_of_int (t' - sint (ping_ts p))))"
    if "0 < t' - sint (ping_ts p)" "t' - sint (ping_ts p) < 2 ^ 63"
  proof -
    have i: "i64 (t' - sint (ping_ts p)) = Some (t' - sint (ping_ts p))" using that by (intro i64_in) auto
    show ?thesis unfolding split S_tick_def [symmetric]
      using s1(1,3) a that by (simp add: S_receive_bytes [OF m] S_on_pong [OF m i] dst_id)
  qed
qed

text \<open>
  Two peers, each with the other's address: the first measures the time its ping takes to come back, in whatever state the second is when the ping
  comes and the first when the answer comes.
\<close>

locale ping_pair =
  a: ping_peer upd rtt tot num PA SA ra da st ma dst ca + b: ping_peer upd' rtt' tot' num' PB SB rb db st' mb dst' cb
  for upd :: "u32 \<Rightarrow> 'a \<Rightarrow> 'a option" and rtt tot num PA SA ra da st ma dst ca
    and upd' :: "u32 \<Rightarrow> 'b \<Rightarrow> 'b option" and rtt' tot' num' PB SB rb db st' mb dst' cb
begin

lemma measures:
  assumes m: "machine_ready m" "machine_ready m'" and s: "ra s" "dst s = Some B" "da t0 s" and r: "rb r" "dst' r = Some A"
    and s': "ra s'" "dst s' = Some B'"
    and t: "0 \<le> t0" "t0 < 2 ^ 62" "0 \<le> t1" "t1 < 2 ^ 62" "0 \<le> t2" "t2 < 2 ^ 62" "st t0 < now" "now < 2 ^ 62"
    and n: "0 \<le> num s'" "num s' < 2 ^ 30" "0 \<le> tot s'" "tot s' \<le> 2 ^ 62" "num s' = 0 \<longrightarrow> tot s' = 0"
  shows "\<exists>s1 r1 s2 q p pre. PA m t0 u0 None s = Some s1 \<and> ca s1 = ca s @ [Datagram B q] \<and>
     PB m' t1 u1 (Some (A, q)) r = Some r1 \<and> cb r1 = cb r @ pre @ [Datagram A p] \<and>
     PA m t2 now (Some (B', p)) s' = Some s2 \<and> rtt s2 = smooth (rtt s') (keep (word_of_int (now - st t0))) \<and> num s2 = num s' + 1 \<and>
     tot s2 = tot s' + uint (keep (word_of_int (now - st t0)))"
proof -
  from a.idles [OF m(1) s(1) t(1,2)] a.pinged [OF m(1) s(1,2) t(1,2)] s(3) obtain s1 where
    s1: "PA m t0 u0 None s = Some s1" "ca s1 = ca s @ [Datagram B (ping_bytes SIM_PING (ma s) (st t0))]" by auto
  from b.pinged [OF m(2) r t(3,4)] obtain r0 where r0: "(if db t1 r then SB m' (st' t1) r else Some r) = Some r0"
    "cb r0 = cb r @ (if db t1 r then [Datagram A (ping_bytes SIM_PING (mb r) (st' t1))] else [])" by blast
  from b.answers [OF m(2) r t(3,4), of u1 "ma s" "\<lparr>ping_ts = word_of_int (st t0)\<rparr>"] r0 obtain r1 pre where
    r1: "PB m' t1 u1 (Some (A, ping_bytes SIM_PING (ma s) (st t0))) r = Some r1"
      "cb r1 = cb r @ pre @ [Datagram A (ping_bytes SIM_PONG (mb r) (st t0))]" by fastforce
  from a.takes_pong [OF m(1) s' t(5,6,1,2,7,8) n, of "mb r"] obtain s2 where
    "PA m t2 now (Some (B', ping_bytes SIM_PONG (mb r) (st t0))) s' = Some s2"
    "rtt s2 = smooth (rtt s') (keep (word_of_int (now - st t0)))" "num s2 = num s' + 1"
    "tot s2 = tot s' + uint (keep (word_of_int (now - st t0)))" by auto
  with s1 r1 show ?thesis by blast
qed

end

interpretation spr: ping_pair S_UpdateRtt s_rtt s_sum_rtt s_rtt_num "S_Process parses" S_SendPing S_ready S_due "\<lambda>t. t" s_uid s_dst s_calls
    R_UpdateRtt r_rtt r_sum_rtt r_rtt_num R_Process R_SendPing R_ready R_due "\<lambda>t. uint (word_of_int t :: u32)" r_uid r_dst r_calls
  for parses ..

interpretation rps: ping_pair R_UpdateRtt r_rtt r_sum_rtt r_rtt_num R_Process R_SendPing R_ready R_due "\<lambda>t. uint (word_of_int t :: u32)" r_uid r_dst r_calls
    S_UpdateRtt s_rtt s_sum_rtt s_rtt_num "S_Process parses" S_SendPing S_ready S_due "\<lambda>t. t" s_uid s_dst s_calls
  for parses ..

lemma keep_time: "0 \<le> d \<Longrightarrow> d < 2 ^ 32 \<Longrightarrow> uint (keep (word_of_int d)) = max 5 d"
  by (simp add: keep_max(2) unat_eq_nat_uint uint_word_of_int)

definition home :: su_addr where
  "home = \<lparr>sin_addr = 0x7f000001, sin_port = 5000\<rparr>"

definition demo_sender :: sender where
  "demo_sender = (snd (Sender le_machine no_stream))\<lparr>s_running := True, s_dst := Some home\<rparr>"

definition demo_receiver :: receiver where
  "demo_receiver = (snd (Receiver le_machine no_stream))\<lparr>r_session_connected := True, r_dst := Some home\<rparr>"

lemma demo_peers:
  "S_ready demo_sender" "s_dst demo_sender = Some home" "s_rtt demo_sender = 0" "s_rtt_num demo_sender = 0" "s_sum_rtt demo_sender = 0"
  "s_calls demo_sender = []" "s_update_ping_ts demo_sender = 0" "s_uid demo_sender = 1234"
  "R_ready demo_receiver" "r_dst demo_receiver = Some home" "r_rtt demo_receiver = 0" "r_calls demo_receiver = []" "r_update_ping_ts demo_receiver = 0"
  using init_ok [of le_machine no_stream]
  by (auto simp: demo_sender_def demo_receiver_def Sender_def Receiver_def S_ready_def R_ready_def le_machine_def split: prod.splits)

text \<open>
  The receiver's pings end when its clock wraps. It keeps the time of the last ping in 64 bits but takes the new one as \<open>uint32_t\<close>: after
  \<open>TimeMillis\<close> has passed a multiple of \<open>2^32\<close> no ping is due until the truncated clock reaches the old value again, 49 days later.
\<close>

theorem receiver_pings_end_at_wrap:
  assumes "machine_ready m" and "R_ready r" and "R_due t0 r" and "t0 div 2 ^ 32 < t div 2 ^ 32" and "t \<le> t0 + 2 ^ 32"
  shows "\<exists>r'. R_Process m t0 u0 None r = Some r' \<and> R_ready r' \<and> (\<exists>a q. r_calls r' = r_calls r @ [Datagram a q]) \<and> R_Process m t u None r' = Some r'"
proof -
  let ?new = "uint (word_of_int t :: u32)" and ?old = "uint (word_of_int t0 :: u32)"
  obtain a where a: "r_dst r = Some a" using assms(2) by (auto simp: R_ready_def)
  have t0: "0 \<le> ?old" "?old < 2 ^ 62" using uint_bounded [of "word_of_int t0 :: u32"] by simp_all
  from R_pings [OF assms(1,2) a t0] obtain r' where
    r': "R_SendPing m ?old r = Some r'" "R_ready r'" "r_calls r' = r_calls r @ [Datagram a (ping_bytes SIM_PING (r_uid r) ?old)]" by blast
  have "r_update_ping_ts r' = ?old" using r'(1) by (auto simp: R_SendPing_def bind_eq_Some_conv)
  moreover have "?new \<le> ?old"
  proof -
    have e: "?new = t mod 2 ^ 32" "?old = t0 mod 2 ^ 32" by (simp_all add: uint_word_of_int take_bit_eq_mod)
    have n: "(2 :: int) ^ 32 = 4294967296" by simp
    have "4294967296 * (t div 4294967296) + t mod 4294967296 = t" "4294967296 * (t0 div 4294967296) + t0 mod 4294967296 = t0"
      by (rule mult_div_mod_eq)+
    then show ?thesis using assms(4,5) unfolding e n by linarith
  qed
  ultimately have "\<not> R_due t r'" using uint_ge_0 [of "if r_rtt r' \<noteq> 0 then r_rtt r' else 100"] unfolding R_due_def by linarith
  then have "R_Process m t u None r' = Some r'" by (simp add: R_Process_split [OF r'(2)] R_tick_def receive_nothing [OF assms(1)])
  moreover have "R_Process m t0 u0 None r = Some r'"
    using assms(3) r'(1) by (simp add: R_Process_split [OF assms(2)] R_tick_def receive_nothing [OF assms(1)])
  ultimately show ?thesis using r' by blast
qed

theorem receiver_pings_end_at_wrap_witness:
  "\<exists>r'. R_Process demo_machine (2 ^ 32 - 1) 0 None demo_receiver = Some r' \<and> R_Process demo_machine (2 ^ 32 + 10 ^ 9) 0 None r' = Some r'"
proof -
  have "R_due (2 ^ 32 - 1) demo_receiver" by (simp add: R_due_def demo_peers uint_word_of_int take_bit_eq_mod)
  from receiver_pings_end_at_wrap [OF demo_ready(1) demo_peers(9) this, of "2 ^ 32 + 10 ^ 9" 0 0] show ?thesis by auto
qed

end
