(* ===== verification/Peer_Video.thy ===== *)
theory Peer_Video
  imports Peer_Exchange
begin

text \<open>
  The way of a video frame: \<open>SendVideo\<close> cuts it into segments, the pacer asks for them by number, the receiver reports them to its
  congestion controller. Padding, which fills the rate when there is no video.
\<close>

section \<open>Cutting a frame\<close>

definition parts :: "nat \<Rightarrow> nat" where
  "parts len = (len + (SIM_VIDEO_SIZE - 1)) div SIM_VIDEO_SIZE"

definition part_size :: "nat \<Rightarrow> nat \<Rightarrow> nat" where
  "part_size len k = min SIM_VIDEO_SIZE (len - SIM_VIDEO_SIZE * k)"

lemma parts_div: "parts len = len div 1000 + (if len mod 1000 = 0 then 0 else 1)"
proof -
  have "(len + 999) div 1000 = (1000 * (len div 1000) + (len mod 1000 + 999)) div 1000"
    using mult_div_mod_eq [of 1000 len] by (metis add.assoc)
  also have "\<dots> = len div 1000 + (len mod 1000 + 999) div 1000" by (rule div_mult_self4) simp
  finally have "(len + 999) div 1000 = len div 1000 + (len mod 1000 + 999) div 1000" .
  moreover have "(len mod 1000 + 999) div 1000 = (if len mod 1000 = 0 then 0 else 1)"
  proof (cases "len mod 1000 = 0")
    case False
    have "len mod 1000 < 1000" by simp
    with False show ?thesis by (intro div_nat_eqI) auto
  qed simp
  ultimately show ?thesis by (simp add: parts_def SIM_VIDEO_SIZE_def)
qed

lemma part_before: "k < parts len \<Longrightarrow> 1000 * k < len"
  using mult_div_mod_eq [of 1000 len] unfolding parts_div by (split if_split_asm) linarith+

lemma part_size_full: "k < len div 1000 \<Longrightarrow> part_size len k = 1000"
proof -
  assume "k < len div 1000"
  then have "1000 * (k + 1) \<le> 1000 * (len div 1000)" by simp
  also have "\<dots> \<le> len" by simp
  finally show "part_size len k = 1000" by (simp add: part_size_def SIM_VIDEO_SIZE_def)
qed

lemma part_size_last: "part_size len (len div 1000) = len mod 1000"
  by (simp add: part_size_def SIM_VIDEO_SIZE_def minus_mult_div_eq_mod min_def)

lemma fill_splits_ok:
  "i + n \<le> length sp \<Longrightarrow> \<exists>sp'. fill_splits n i sp = Some sp' \<and> length sp' = length sp \<and>
     (\<forall>j. j < length sp \<longrightarrow> sp' ! j = (if i \<le> j \<and> j < i + n then of_nat SIM_VIDEO_SIZE else sp ! j))"
proof (induction n arbitrary: i sp)
  case (Suc n)
  let ?sp = "sp[i := of_nat SIM_VIDEO_SIZE]"
  have "i + 1 + n \<le> length ?sp" using Suc.prems by simp
  from Suc.IH [OF this] obtain sp' where sp': "fill_splits n (i + 1) ?sp = Some sp'" "length sp' = length ?sp"
    "\<forall>j. j < length ?sp \<longrightarrow> sp' ! j = (if i + 1 \<le> j \<and> j < i + 1 + n then of_nat SIM_VIDEO_SIZE else ?sp ! j)" by blast
  then show ?case using Suc.prems by (intro exI [of _ sp']) (auto simp: nth_list_update)
qed auto

lemma frame_split_ok:
  assumes "0 < len" and "len div 1000 < MAX_SPLIT_NUMBER" and "length sp = MAX_SPLIT_NUMBER"
  shows "\<exists>sp'. FrameSplit sp len = Some (of_nat (parts len), sp') \<and> length sp' = MAX_SPLIT_NUMBER \<and> parts len \<le> MAX_SPLIT_NUMBER \<and>
     (\<forall>k. k < parts len \<longrightarrow> unat (sp' ! k) = part_size len k)"
proof (cases "len \<le> SIM_VIDEO_SIZE")
  case True
  then have p: "parts len = 1" using assms(1) by (auto simp: parts_div SIM_VIDEO_SIZE_def div_eq_0_iff le_less)
  have "part_size len 0 = len" using True by (simp add: part_size_def SIM_VIDEO_SIZE_def)
  moreover have "unat (of_nat len :: u16) = len" using True by (simp add: unat_of_nat SIM_VIDEO_SIZE_def)
  ultimately show ?thesis using True assms(3) p by (simp add: FrameSplit_def MAX_SPLIT_NUMBER_def)
next
  case False
  let ?q = "len div 1000" and ?r = "len mod 1000"
  have q: "unat (of_nat ?q :: u16) = ?q" using assms(2) by (simp add: unat_of_nat MAX_SPLIT_NUMBER_def)
  have r: "unat (of_nat ?r :: u16) = ?r" by (simp add: unat_of_nat)
  have "0 + ?q \<le> length sp" using assms(2,3) by simp
  from fill_splits_ok [OF this] obtain sp' where sp': "fill_splits ?q 0 sp = Some sp'" "length sp' = length sp"
    "\<forall>j. j < length sp \<longrightarrow> sp' ! j = (if j < ?q then of_nat SIM_VIDEO_SIZE else sp ! j)" by auto
  have full: "unat (sp' ! k) = part_size len k" if "k < ?q" for k
    using that sp'(3) assms(2,3) part_size_full [OF that] by (simp add: SIM_VIDEO_SIZE_def)
  show ?thesis
  proof (cases "?r = 0")
    case True
    then have "parts len = ?q" "(of_nat ?r :: u16) = 0" by (simp_all add: parts_div)
    with False True sp' q full assms show ?thesis by (simp add: FrameSplit_def SIM_VIDEO_SIZE_def)
  next
    case nz: False
    then have "parts len = Suc ?q" "(of_nat ?r :: u16) > 0" using r by (simp_all add: parts_div word_less_nat_alt)
    moreover have "unat (sp'[?q := of_nat ?r] ! k) = part_size len k" if "k < Suc ?q" for k
      using that full sp'(2) assms(2,3) r part_size_last [of len] by (cases "k = ?q") auto
    ultimately show ?thesis using False sp' q assms by (simp add: FrameSplit_def SIM_VIDEO_SIZE_def)
  qed
qed

section \<open>The segments of a frame\<close>

definition video_part :: "sender \<Rightarrow> u32 \<Rightarrow> u8 \<Rightarrow> u8 \<Rightarrow> bytes \<Rightarrow> nat \<Rightarrow> nat \<Rightarrow> sim_segment" where
  "video_part s ts ftype payload_type dat len k =
     \<lparr>seg_packet_id = s_packet_seed s + of_nat k, seg_fid = s_frame_seed s, seg_timestamp = ts, seg_index = of_nat k,
      seg_total = of_nat (parts len), seg_ftype = ftype, seg_payload_type = payload_type, seg_remb = 1, seg_send_ts = 0,
      seg_transport_seq = s_trans_seq s + of_nat k, seg_data_size = of_nat (part_size len k),
      seg_data = take (part_size len k) (drop (SIM_VIDEO_SIZE * k) dat) @ replicate (SIM_VIDEO_SIZE - part_size len k) 0\<rparr>"

lemma part_size_bounds: "part_size len k \<le> 1000" "k < parts len \<Longrightarrow> 0 < part_size len k" "SIM_VIDEO_SIZE * k + part_size len k \<le> max len (1000 * k)"
  using part_before [of k len] by (auto simp: part_size_def SIM_VIDEO_SIZE_def min_def)

lemma unat_part_size: "unat (of_nat (part_size len k) :: u16) = part_size len k"
  using part_size_bounds(1) [of len k] by (simp add: unat_of_nat)

lemma part_size_step: "k < parts len \<Longrightarrow> k + 1 < parts len \<Longrightarrow> part_size len k = 1000"
  using part_before [of "k + 1" len] by (simp add: part_size_def SIM_VIDEO_SIZE_def)

text \<open>The map after the parts with the numbers \<open>ks\<close> were inserted.\<close>

definition insert_parts :: "sender \<Rightarrow> u32 \<Rightarrow> u8 \<Rightarrow> u8 \<Rightarrow> bytes \<Rightarrow> nat \<Rightarrow> nat list \<Rightarrow> (u16 \<times> sim_segment) list \<Rightarrow> (u16 \<times> sim_segment) list" where
  "insert_parts s ts ftype payload_type dat len ks =
     fold (\<lambda>k. map_insert (s_trans_seq s + of_nat k) (video_part s ts ftype payload_type dat len k)) ks"

definition insert_sizes :: "sender \<Rightarrow> nat \<Rightarrow> nat list \<Rightarrow> (u16 \<times> u16) list \<Rightarrow> (u16 \<times> u16) list" where
  "insert_sizes s len ks = fold (\<lambda>k. map_insert (s_trans_seq s + of_nat k) (of_nat (part_size len k) + of_nat SIM_SEGMENT_HEADER_SIZE)) ks"

lemma make_segments_ok:
  assumes "length sp = MAX_SPLIT_NUMBER" and "parts len \<le> MAX_SPLIT_NUMBER" and "\<forall>k. k < parts len \<longrightarrow> unat (sp ! k) = part_size len k"
    and "len \<le> length dat" and "i + n = parts len"
    and "s = s0\<lparr>s_packet_seed := s_packet_seed s0 + of_nat i, s_trans_seq := s_trans_seq s0 + of_nat i, s_pending_buf := buf\<rparr>"
    and "n = 0 \<or> pos = 1000 * i"
  shows "make_segments n i pos sp (of_nat (parts len)) dat ts ftype payload_type s m =
     Some (s0\<lparr>s_packet_seed := s_packet_seed s0 + of_nat (parts len), s_trans_seq := s_trans_seq s0 + of_nat (parts len),
             s_pending_buf := insert_parts s0 ts ftype payload_type dat len [i..<parts len] buf\<rparr>,
           insert_sizes s0 len [i..<parts len] m)"
  using assms(5-7)
proof (induction n arbitrary: i pos s m buf)
  case 0
  then show ?case by (simp add: insert_parts_def insert_sizes_def)
next
  case (Suc n)
  have i: "i < parts len" "i < length sp" using Suc.prems(1) assms(1,2) by simp_all
  then have u: "unat (sp ! i) = part_size len i" using assms(3) by simp
  then have sp: "sp ! i = of_nat (part_size len i)" by (simp flip: u)
  have pos: "pos = 1000 * i" using Suc.prems(3) by simp
  have b: "pos + part_size len i \<le> length dat" using part_size_bounds(3) [of i len] part_before [OF i(1)] assms(4) pos
    by (simp add: SIM_VIDEO_SIZE_def)
  define part where "part = take (part_size len i) (drop pos dat)"
  have p: "peek dat pos (unat (sp ! i)) = Some part" using b by (simp add: u peek_in part_def)
  have l: "length part = part_size len i" using b by (simp add: part_def)
  have q: "poke (replicate SIM_VIDEO_SIZE 0) 0 part = Some (part @ replicate (SIM_VIDEO_SIZE - part_size len i) 0)"
    using part_size_bounds(1) [of len i] l by (simp add: poke_in SIM_VIDEO_SIZE_def)
  let ?v = "video_part s0 ts ftype payload_type dat len i"
  have v: "?v = \<lparr>seg_packet_id = s_packet_seed s, seg_fid = s_frame_seed s, seg_timestamp = ts, seg_index = of_nat i, seg_total = of_nat (parts len),
              seg_ftype = ftype, seg_payload_type = payload_type, seg_remb = 1, seg_send_ts = 0, seg_transport_seq = s_trans_seq s,
              seg_data_size = sp ! i, seg_data = part @ replicate (SIM_VIDEO_SIZE - part_size len i) 0\<rparr>"
    by (simp add: video_part_def Suc.prems(2) sp part_def pos SIM_VIDEO_SIZE_def)
  have w: "seg_transport_seq ?v = s_trans_seq s0 + of_nat i" "seg_data_size ?v = of_nat (part_size len i)" by (simp_all add: video_part_def)
  have next': "n = 0 \<or> pos + unat (sp ! i) = 1000 * (i + 1)" using part_size_step [of i len] i(1) Suc.prems(1) u pos by (cases n) auto
  have s': "s\<lparr>s_packet_seed := s_packet_seed s + 1, s_trans_seq := s_trans_seq s + 1, s_pending_buf := map_insert (seg_transport_seq ?v) ?v (s_pending_buf s)\<rparr> =
     s0\<lparr>s_packet_seed := s_packet_seed s0 + of_nat (i + 1), s_trans_seq := s_trans_seq s0 + of_nat (i + 1),
        s_pending_buf := map_insert (seg_transport_seq ?v) ?v buf\<rparr>"
    by (simp add: Suc.prems(2) algebra_simps)
  have "i + 1 + n = parts len" using Suc.prems(1) by simp
  note IH = Suc.IH [OF this s' next']
  have up: "[i..<parts len] = i # [i + 1..<parts len]" using i(1) by (simp add: upt_conv_Cons)
  show ?case
    using i(2) p q v IH w by (simp add: up insert_parts_def insert_sizes_def Let_def)
qed

lemma map_of_insert:
  "ascending m \<Longrightarrow> map_of (map_insert k v m) x = (if x = k \<and> map_of m k = None then Some v else map_of m x)"
proof (induction m)
  case (Cons p m)
  obtain k' v' where p: "p = (k', v')" by (cases p)
  with Cons.prems have a: "\<forall>x \<in> fst ` set m. k' < x" "ascending m" by auto
  have "map_of m k = None" if "k < k'" using that a(1) by (auto simp: map_of_eq_None_iff)
  then show ?case using Cons.IH [OF a(2)] by (auto simp: p)
qed simp

lemma inserts_ascending: "ascending m \<Longrightarrow> ascending (fold (\<lambda>k. map_insert (f k) (g k)) ks m)"
  by (induction ks arbitrary: m) (auto intro: map_insert_ascending)

lemma inserts_other: "ascending m \<Longrightarrow> x \<notin> f ` set ks \<or> map_of m x \<noteq> None \<Longrightarrow> map_of (fold (\<lambda>k. map_insert (f k) (g k)) ks m) x = map_of m x"
proof (induction ks arbitrary: m)
  case (Cons k ks)
  then have "map_of (map_insert (f k) (g k) m) x = map_of m x" by (auto simp: map_of_insert)
  with Cons.IH [OF map_insert_ascending [OF Cons.prems(1)], of "f k" "g k"] Cons.prems(2) show ?case by auto
qed simp

lemma inserts_new:
  "ascending m \<Longrightarrow> inj_on f (set ks) \<Longrightarrow> distinct ks \<Longrightarrow> k \<in> set ks \<Longrightarrow> map_of m (f k) = None \<Longrightarrow>
     map_of (fold (\<lambda>k. map_insert (f k) (g k)) ks m) (f k) = Some (g k)"
proof (induction ks arbitrary: m)
  case (Cons k0 ks)
  note m = map_insert_ascending [OF Cons.prems(1), of "f k0" "g k0"]
  show ?case
  proof (cases "k = k0")
    case True
    then have "map_of (map_insert (f k0) (g k0) m) (f k) = Some (g k)" using Cons.prems by (simp add: map_of_insert)
    with inserts_other [OF m, of "f k" f ks g] True show ?thesis by simp
  next
    case False
    then have "f k \<noteq> f k0" "k \<in> set ks" using Cons.prems(2,4) by (auto simp: inj_on_def)
    with Cons m show ?thesis by (simp add: map_of_insert)
  qed
qed simp

lemma inserts_entries:
  assumes "inj_on f (set ks)" and "distinct ks"
  shows "set (fold (\<lambda>k. map_insert (f k) (g k)) ks []) = (\<lambda>k. (f k, g k)) ` set ks"
proof -
  let ?m = "fold (\<lambda>k. map_insert (f k) (g k)) ks []"
  have a: "ascending ?m" by (simp add: inserts_ascending)
  have "(x, v) \<in> set ?m \<longleftrightarrow> (x, v) \<in> (\<lambda>k. (f k, g k)) ` set ks" for x v
  proof (cases "x \<in> f ` set ks")
    case True
    then obtain k where k: "k \<in> set ks" "x = f k" by blast
    then have "map_of ?m x = Some (g k)" using inserts_new [OF _ assms k(1), of "[]" g] by simp
    then have "(x, v) \<in> set ?m \<longleftrightarrow> v = g k" using ascending_find [OF a, of x v] by auto
    then show ?thesis using k assms(1) by (auto simp: inj_on_def)
  next
    case False
    then have "map_of ?m x = None" using inserts_other [of "[]" x f ks g] by simp
    with False show ?thesis using ascending_find [OF a, of x v] by auto
  qed
  then show ?thesis by auto
qed

lemma concat_parts:
  "n \<le> parts len \<Longrightarrow> len \<le> length dat \<Longrightarrow>
     concat (map (\<lambda>k. take (part_size len k) (drop (SIM_VIDEO_SIZE * k) dat)) [0..<n]) = take (min len (1000 * n)) dat"
proof (induction n)
  case (Suc n)
  then have b: "1000 * n < len" using part_before [of n len] by simp
  then have "min len (1000 * Suc n) = 1000 * n + part_size len n" "min len (1000 * n) = 1000 * n"
    by (simp_all add: part_size_def SIM_VIDEO_SIZE_def)
  with Suc b show ?case by (simp add: take_add SIM_VIDEO_SIZE_def)
qed simp

lemma parts_cover: "len \<le> 1000 * parts len"
proof -
  have "1000 * (len div 1000) + len mod 1000 = len" "len mod 1000 < 1000" by simp_all
  then show ?thesis unfolding parts_div by (cases "len mod 1000 = 0") simp_all
qed

lemma seq_inj: "inj_on (\<lambda>k. q + of_nat k :: u16) {0..<n}" if "n \<le> MAX_SPLIT_NUMBER"
proof -
  have "inj_on (of_nat :: nat \<Rightarrow> u16) {0..<n}"
    using that by (auto simp: inj_on_def MAX_SPLIT_NUMBER_def word_of_nat_eq_iff take_bit_nat_eq_self_iff take_bit_nat_eq_self)
  then show ?thesis by (simp add: inj_on_def)
qed

text \<open>
  C11: a video frame in segments. A frame of \<open>len\<close> bytes, at most 1023999, becomes \<open>\<lceil>len / 1000\<rceil>\<close> segments with consecutive transport numbers,
  the number of the frame and their places in it; their data, one after the other, is the frame. They wait in the map, which is
  otherwise unchanged, when their numbers are free there; the pacer gets the number and the size of each, once, in the order of the numbers.
\<close>

theorem video_frame_split:
  assumes "s_running s" and "0 < unat len" and "unat len < 1024000" and "unat len \<le> length dat" and "ascending (s_pending_buf s)"
    and "0 \<le> now" and "now < 2 ^ 62" and "s_first_ts s = - 1 \<or> 0 \<le> s_first_ts s \<and> s_first_ts s < 2 ^ 62"
    and "\<forall>k < (unat len + 999) div 1000. map_of (s_pending_buf s) (s_trans_seq s + of_nat k) = None"
  shows "\<exists>s' n seg sizes. SendVideo m payload_type ftype dat len now s = Some s' \<and> n = (unat len + 999) div 1000 \<and>
     concat (map (\<lambda>k. take (unat (seg_data_size (seg k))) (seg_data (seg k))) [0..<n]) = take (unat len) dat \<and>
     (\<forall>k < n. map_of (s_pending_buf s') (s_trans_seq s + of_nat k) = Some (seg k) \<and> seg_transport_seq (seg k) = s_trans_seq s + of_nat k \<and>
        unat (seg_index (seg k)) = k \<and> unat (seg_total (seg k)) = n \<and> seg_fid (seg k) = s_frame_seed s \<and> wf_body (Segment (seg k))) \<and>
     (\<forall>q. q \<notin> (\<lambda>k. s_trans_seq s + of_nat k) ` {0..<n} \<longrightarrow> map_of (s_pending_buf s') q = map_of (s_pending_buf s) q) \<and>
     s_calls s' = s_calls s @ map (\<lambda>(seq, overhead). InsertPacket (s_uid s) seq now overhead) sizes \<and> ascending sizes \<and>
     set sizes = (\<lambda>k. (s_trans_seq s + of_nat k, seg_data_size (seg k) + 30)) ` {0..<n} \<and>
     s_trans_seq s' = s_trans_seq s + of_nat n \<and> s_frame_seed s' = s_frame_seed s + 1"
proof -
  let ?len = "unat len" and ?q = "\<lambda>k. s_trans_seq s + of_nat k :: u16"
  let ?n = "parts ?len"
  have n: "?n = (?len + 999) div 1000" by (simp add: parts_def SIM_VIDEO_SIZE_def)
  define s0 where "s0 = (if s_first_ts s = - 1 then s\<lparr>s_first_ts := now\<rparr> else s)"
  have s0: "s_pending_buf s0 = s_pending_buf s" "s_trans_seq s0 = s_trans_seq s" "s_frame_seed s0 = s_frame_seed s" "s_calls s0 = s_calls s"
    "s_uid s0 = s_uid s" by (simp_all add: s0_def)
  have "0 \<le> s_first_ts s0" "s_first_ts s0 < 2 ^ 62" using assms(6-8) by (auto simp: s0_def)
  then have since: "i64 (now - s_first_ts s0) = Some (now - s_first_ts s0)" by (rule i64_diff [OF assms(6,7)])
  have d: "?len div 1000 < MAX_SPLIT_NUMBER" using assms(3) by (simp add: MAX_SPLIT_NUMBER_def less_mult_imp_div_less)
  have "length (map (\<lambda>_. local_word m :: u16) [0..<MAX_SPLIT_NUMBER]) = MAX_SPLIT_NUMBER" by simp
  from frame_split_ok [OF assms(2) d this] obtain sp where sp:
    "FrameSplit (map (\<lambda>_. local_word m) [0..<MAX_SPLIT_NUMBER]) ?len = Some (of_nat ?n, sp)" "length sp = MAX_SPLIT_NUMBER" "?n \<le> MAX_SPLIT_NUMBER"
    "\<forall>k. k < ?n \<longrightarrow> unat (sp ! k) = part_size ?len k" by blast
  have u: "unat (of_nat ?n :: u16) = ?n" using sp(3) by (simp add: unat_of_nat MAX_SPLIT_NUMBER_def)
  let ?ts = "word_of_int (now - s_first_ts s0) :: u32" and ?ft = "word_of_int ftype :: u8"
  let ?seg = "video_part s0 ?ts ?ft payload_type dat ?len" and ?sizes = "insert_sizes s0 ?len [0..<?n] []"
  let ?buf = "insert_parts s0 ?ts ?ft payload_type dat ?len [0..<?n] (s_pending_buf s)"
  define s1 where "s1 = s0\<lparr>s_packet_seed := s_packet_seed s0 + of_nat ?n, s_trans_seq := s_trans_seq s0 + of_nat ?n, s_pending_buf := ?buf\<rparr>"
  have "make_segments ?n 0 0 sp (of_nat ?n) dat ?ts ?ft payload_type s0 [] = Some (s1, ?sizes)"
    unfolding s1_def by (rule make_segments_ok [OF sp(2-4) assms(4)]) (simp_all add: s0(1))
  then have run: "SendVideo m payload_type ftype dat len now s = Some (s1\<lparr>s_frame_seed := s_frame_seed s1 + 1,
      s_calls := s_calls s1 @ map (\<lambda>(seq, overhead). InsertPacket (s_uid s1) seq now overhead) ?sizes\<rparr>)"
    using assms(1,2) since d sp(1) u unfolding SendVideo_def Let_def s0_def [symmetric] by (auto simp: SIM_VIDEO_SIZE_def)
  note inj = seq_inj [OF sp(3), of "s_trans_seq s"]
  have new: "map_of ?buf (?q k) = Some (?seg k)" if "k < ?n" for k
    unfolding insert_parts_def s0 using that inj assms(5,9) n by (intro inserts_new) auto
  have old: "map_of ?buf x = map_of (s_pending_buf s) x" if "x \<notin> ?q ` {0..<?n}" for x
    unfolding insert_parts_def s0 using that assms(5) by (intro inserts_other) auto
  have sizes: "ascending ?sizes" "set ?sizes = (\<lambda>k. (?q k, seg_data_size (?seg k) + 30)) ` {0..<?n}"
    using inj inserts_entries [of ?q "[0..<?n]" "\<lambda>k. of_nat (part_size ?len k) + of_nat SIM_SEGMENT_HEADER_SIZE :: u16"]
    by (simp_all add: insert_sizes_def inserts_ascending s0 video_part_def SIM_SEGMENT_HEADER_SIZE_def SIM_HEADER_SIZE_def)
  have l: "length (take (part_size ?len k) (drop (SIM_VIDEO_SIZE * k) dat)) = part_size ?len k" if "k < ?n" for k
    using part_size_bounds(3) [of k ?len] part_before [OF that] assms(4) by (simp add: SIM_VIDEO_SIZE_def)
  then have "concat (map (\<lambda>k. take (unat (seg_data_size (?seg k))) (seg_data (?seg k))) [0..<?n]) =
      concat (map (\<lambda>k. take (part_size ?len k) (drop (SIM_VIDEO_SIZE * k) dat)) [0..<?n])"
    by (intro arg_cong [where f = concat] map_cong) (simp_all add: video_part_def unat_part_size)
  also have "\<dots> = take ?len dat"
    using concat_parts [OF order_refl assms(4)] parts_cover [of ?len] by (simp add: min_absorb1)
  finally have cat: "concat (map (\<lambda>k. take (unat (seg_data_size (?seg k))) (seg_data (?seg k))) [0..<?n]) = take ?len dat" .
  have fields: "seg_transport_seq (?seg k) = ?q k \<and> unat (seg_index (?seg k)) = k \<and> unat (seg_total (?seg k)) = ?n \<and> seg_fid (?seg k) = s_frame_seed s \<and>
      wf_body (Segment (?seg k))" if "k < ?n" for k
    using that sp(3) u l [OF that] part_size_bounds(1) [of ?len k]
    by (simp add: video_part_def s0 unat_of_nat MAX_SPLIT_NUMBER_def unat_part_size SIM_VIDEO_SIZE_def)
  show ?thesis unfolding n [symmetric]
    using run new old sizes cat fields
    by (intro exI [of _ "s1\<lparr>s_frame_seed := s_frame_seed s1 + 1,
      s_calls := s_calls s1 @ map (\<lambda>(seq, overhead). InsertPacket (s_uid s1) seq now overhead) ?sizes\<rparr>"] exI [of _ ?n] exI [of _ ?seg] exI [of _ ?sizes])
      (simp add: s1_def s0)
qed

theorem video_frame_split_witness:
  "\<exists>s' seg. SendVideo demo_machine 96 0 (replicate 2500 7) 2500 1000 demo_sender = Some s' \<and> map_of (s_pending_buf s') 3 = Some seg \<and>
     unat (seg_index seg) = 2 \<and> unat (seg_total seg) = 3"
proof -
  have e: "unat (2500 :: u32) = 2500" by simp
  have "s_running demo_sender" "s_pending_buf demo_sender = []" "s_trans_seq demo_sender = 1" "s_first_ts demo_sender = - 1"
    by (auto simp: demo_sender_def Sender_def split: prod.splits)
  then have "\<exists>s' n seg sizes. SendVideo demo_machine 96 0 (replicate 2500 7) 2500 1000 demo_sender = Some s' \<and> n = (unat (2500 :: u32) + 999) div 1000 \<and>
     concat (map (\<lambda>k. take (unat (seg_data_size (seg k))) (seg_data (seg k))) [0..<n]) = take (unat (2500 :: u32)) (replicate 2500 7) \<and>
     (\<forall>k < n. map_of (s_pending_buf s') (s_trans_seq demo_sender + of_nat k) = Some (seg k) \<and> seg_transport_seq (seg k) = s_trans_seq demo_sender + of_nat k \<and>
        unat (seg_index (seg k)) = k \<and> unat (seg_total (seg k)) = n \<and> seg_fid (seg k) = s_frame_seed demo_sender \<and> wf_body (Segment (seg k))) \<and>
     (\<forall>q. q \<notin> (\<lambda>k. s_trans_seq demo_sender + of_nat k) ` {0..<n} \<longrightarrow> map_of (s_pending_buf s') q = map_of (s_pending_buf demo_sender) q) \<and>
     s_calls s' = s_calls demo_sender @ map (\<lambda>(seq, overhead). InsertPacket (s_uid demo_sender) seq 1000 overhead) sizes \<and> ascending sizes \<and>
     set sizes = (\<lambda>k. (s_trans_seq demo_sender + of_nat k, seg_data_size (seg k) + 30)) ` {0..<n} \<and>
     s_trans_seq s' = s_trans_seq demo_sender + of_nat n \<and> s_frame_seed s' = s_frame_seed demo_sender + 1"
    by (intro video_frame_split) (simp_all add: e)
  then obtain s' n and seg :: "nat \<Rightarrow> sim_segment" where
    s': "SendVideo demo_machine 96 0 (replicate 2500 7) 2500 1000 demo_sender = Some s'" "n = (unat (2500 :: u32) + 999) div 1000"
      "\<forall>k < n. map_of (s_pending_buf s') (s_trans_seq demo_sender + of_nat k) = Some (seg k) \<and> seg_transport_seq (seg k) = s_trans_seq demo_sender + of_nat k \<and>
        unat (seg_index (seg k)) = k \<and> unat (seg_total (seg k)) = n \<and> seg_fid (seg k) = s_frame_seed demo_sender \<and> wf_body (Segment (seg k))" by blast
  then have "n = 3" by simp
  with s'(3) [rule_format, of 2] \<open>s_trans_seq demo_sender = 1\<close> s'(1) show ?thesis by auto
qed

section \<open>Segments on the way\<close>

lemma segment_length:
  assumes "wf_body (Segment b)"
  shows "length (msg_bytes h (Segment b)) = 28 + unat (seg_data_size b) + (if seg_packet_id b > U16_MAX then 2 else 0) +
     (if seg_fid b > U16_MAX then 2 else 0) + (if seg_total b > U8_MAX then 2 else 0)"
  using assms by (simp add: msg_bytes_def Let_def header_bytes_def wide_bytes_def index_bytes_def data_bytes_def SIM_VIDEO_SIZE_def min_def)

text \<open>The segment as it is sent: \<open>send_ts\<close> is the time since the frame was cut.\<close>

definition stamped :: "sender \<Rightarrow> int \<Rightarrow> sim_segment \<Rightarrow> sim_segment" where
  "stamped s now seg = seg\<lparr>seg_send_ts := word_of_int (uint (word_of_int now :: u32) - s_first_ts s - uint (seg_timestamp seg))\<rparr>"

abbreviation segment_bytes :: "sender \<Rightarrow> int \<Rightarrow> sim_segment \<Rightarrow> bytes" where
  "segment_bytes s now seg \<equiv> msg_bytes (INIT_SIM_HEADER SIM_SEG (s_uid s)) (Segment (stamped s now seg))"

lemma i64_sub2:
  "0 \<le> x \<Longrightarrow> x < 2 ^ 32 \<Longrightarrow> 0 \<le> y \<Longrightarrow> y < 2 ^ 61 \<Longrightarrow> 0 \<le> z \<Longrightarrow> z < 2 ^ 32 \<Longrightarrow>
     i64 (x - y) = Some (x - y) \<and> i64 (x - y - z) = Some (x - y - z)" for x y z :: int
  by (simp add: i64_def)

lemma segment_goes:
  assumes m: "machine_ready m" and s: "S_ready s" "s_dst s = Some B" "0 \<le> s_first_ts s" "s_first_ts s < 2 ^ 61"
    and seg: "map_of (s_pending_buf s) q = Some seg" "wf_body (Segment seg)"
  shows "\<exists>s'. TimeToSendPacket m q now s = Some (True, s') \<and> S_ready s' \<and> s_pending_buf s' = map_erase q (s_pending_buf s) \<and>
     s_calls s' = s_calls s @ [Datagram B (segment_bytes s now seg), AddPacket (s_uid s) q (int (unat (seg_data_size seg)) + 30), OnSentPacket q now]"
proof -
  let ?s = "s\<lparr>s_pending_buf := map_erase q (s_pending_buf s)\<rparr>" and ?now = "uint (word_of_int now :: u32)"
  have u: "0 \<le> ?now" "?now < 2 ^ 32" "0 \<le> uint (seg_timestamp seg)" "uint (seg_timestamp seg) < 2 ^ 32"
    using uint_bounded [of "word_of_int now :: u32"] uint_bounded [of "seg_timestamp seg"] by simp_all
  have i: "i64 (?now - s_first_ts s) = Some (?now - s_first_ts s)"
    "i64 (?now - s_first_ts s - uint (seg_timestamp seg)) = Some (?now - s_first_ts s - uint (seg_timestamp seg))"
    using i64_sub2 [OF u(1,2) s(3,4) u(3,4)] by simp_all
  have w: "stream_r (s_stream s)" "0 < ssize (s_stream s)" using s(1) by (simp_all add: S_ready_def stream_w_def)
  have "wf_body (Segment (stamped s now seg))" using seg(2) by (simp add: stamped_def)
  from encode_anywhere [OF m w _ this, of "INIT_SIM_HEADER SIM_SEG (s_uid s)"] obtain st where
    st: "sim_encode_msg m (s_stream s) (INIT_SIM_HEADER SIM_SEG (s_uid s)) (Segment (stamped s now seg)) = Some st" "stream_w st"
      "contents st = segment_bytes s now seg" by auto
  have e: "SendSegment m seg (word_of_int now) ?s = Option.bind (sim_encode_msg m (s_stream s) (INIT_SIM_HEADER SIM_SEG (s_uid s))
       (Segment (stamped s now seg))) (\<lambda>strm. S_SendToNetwork strm (?s\<lparr>s_stream := strm\<rparr>))"
    unfolding SendSegment_def stamped_def using i by simp
  have "SendSegment m seg (word_of_int now) ?s =
     Some (?s\<lparr>s_stream := st, s_calls := s_calls s @ [Datagram B (segment_bytes s now seg)]\<rparr>)"
    unfolding e st(1) using st(2,3) s(2) by (simp add: S_send)
  moreover have "unat (seg_data_size seg + of_nat SIM_SEGMENT_HEADER_SIZE) = unat (seg_data_size seg) + 30"
    using seg(2) by (simp add: SIM_SEGMENT_HEADER_SIZE_def SIM_HEADER_SIZE_def SIM_VIDEO_SIZE_def unat_word_ariths)
  then have "uint (seg_data_size seg + of_nat SIM_SEGMENT_HEADER_SIZE) = int (unat (seg_data_size seg)) + 30"
    by (simp only: uint_nat of_nat_add of_nat_numeral)
  ultimately show ?thesis
    using seg(1) s(1) st(2) by (simp add: TimeToSendPacket_def get_segment_t_def Let_def S_ready_def)
qed

lemma local_rooms: "room_for (Segment (local_segment m))" "room_for (Pad (local_pad m))" "room_for (Feedback (local_feedback m))"
  by (simp_all add: local_segment_def local_pad_def local_feedback_def local_bytes_def)

lemma R_on_segment:
  assumes m: "machine_ready m" and r: "r_session_connected r" and b: "wf_body (Segment b)"
    and len: "length (msg_bytes (INIT_SIM_HEADER SIM_SEG u) (Segment b)) \<le> DEFAULT_PACKET_SIZE"
  shows "\<exists>r' pre. R_ProcessingMsg m t (arrived m strm (msg_bytes (INIT_SIM_HEADER SIM_SEG u) (Segment b))) r = Some r' \<and>
     r_calls r' = r_calls r @ pre @ [OnReceivedPacket (word_of_int t) (ucast (seg_data_size b) + 30) u (seg_transport_seq b)]"
proof -
  from arrived_msg [OF m _ b _ local_rooms(1) [of m] len, where strm = strm and ?h0.0 = "local_header m"] obtain s1 s2 where
    "sim_decode_header m (arrived m strm (msg_bytes (INIT_SIM_HEADER SIM_SEG u) (Segment b))) (local_header m) = Some ((0, INIT_SIM_HEADER SIM_SEG u), s1)"
      "sim_decode_msg m s1 (INIT_SIM_HEADER SIM_SEG u) (Segment (local_segment m)) = Some ((0, received (Segment (local_segment m)) (Segment b)), s2)"
    by auto
  then show ?thesis
    using r by (auto simp: R_ProcessingMsg_def msg_ids R_OnRecvSegment_def R_ConfigureCongestion_def Let_def SIM_SEGMENT_HEADER_SIZE_def SIM_HEADER_SIZE_def)
qed

text \<open>
  C25: a segment of at most 990 bytes is delivered. When the pacer asks for a waiting segment it is sent once, taken off the map, and reported
  to the controller with its size; the receiver, whether or not it pings first, reports the same number and size.
\<close>

theorem segment_delivered:
  assumes "machine_ready m" and "machine_ready m'" and "S_ready s" and "s_dst s = Some B" and "0 \<le> s_first_ts s" and "s_first_ts s < 2 ^ 61"
    and "ascending (s_pending_buf s)" and "map_of (s_pending_buf s) q = Some seg" and "seg_transport_seq seg = q" and "wf_body (Segment seg)"
    and "unat (seg_data_size seg) \<le> 990" and "R_ready r"
  shows "\<exists>s' bs r' pre. TimeToSendPacket m q now s = Some (True, s') \<and> map_of (s_pending_buf s') q = None \<and>
     s_calls s' = s_calls s @ [Datagram B bs, AddPacket (s_uid s) q (int (unat (seg_data_size seg)) + 30), OnSentPacket q now] \<and>
     R_Process m' t t' (Some (A, bs)) r = Some r' \<and>
     r_calls r' = r_calls r @ pre @ [OnReceivedPacket (word_of_int t') (ucast (seg_data_size seg) + 30) (s_uid s) q]"
proof -
  let ?b = "stamped s now seg"
  from segment_goes [OF assms(1,3-6,8,10), of now] obtain s' where s': "TimeToSendPacket m q now s = Some (True, s')"
    "s_pending_buf s' = map_erase q (s_pending_buf s)"
    "s_calls s' = s_calls s @ [Datagram B (segment_bytes s now seg), AddPacket (s_uid s) q (int (unat (seg_data_size seg)) + 30), OnSentPacket q now]" by blast
  have b: "wf_body (Segment ?b)" "seg_data_size ?b = seg_data_size seg" "seg_transport_seq ?b = q" using assms(9,10) by (simp_all add: stamped_def)
  then have len: "length (segment_bytes s now seg) \<le> DEFAULT_PACKET_SIZE"
    using segment_length [OF b(1)] assms(11) by (simp add: DEFAULT_PACKET_SIZE_def)
  from R_tick_ok [OF assms(2,12)] obtain r1 ping where r1: "R_tick m' t r = Some r1" "R_ready r1" "r_calls r1 = r_calls r @ ping" by blast
  then have c: "r_session_connected r1" by (simp add: R_ready_def)
  from R_on_segment [OF assms(2) c b(1) len, of t' "r_stream r1"] b(2,3) obtain r' pre where
    "R_ProcessingMsg m' t' (arrived m' (r_stream r1) (segment_bytes s now seg)) r1 = Some r'"
    "r_calls r' = r_calls r1 @ pre @ [OnReceivedPacket (word_of_int t') (ucast (seg_data_size seg) + 30) (s_uid s) q]" by auto
  then have "R_Process m' t t' (Some (A, segment_bytes s now seg)) r = Some r'"
    "r_calls r' = r_calls r @ (ping @ pre) @ [OnReceivedPacket (word_of_int t') (ucast (seg_data_size seg) + 30) (s_uid s) q]"
    using r1 c by (simp_all add: R_Process_split [OF assms(12)] R_receive_bytes [OF assms(2)])
  moreover have "map_of (s_pending_buf s') q = None" unfolding s'(2) by (simp add: map_erase_def map_of_filter_in map_of_eq_None_iff image_iff)
  ultimately show ?thesis using s'(1,3) by blast
qed

definition demo_segment :: "bytes \<Rightarrow> nat \<Rightarrow> sim_segment" where
  "demo_segment d n = \<lparr>seg_packet_id = 1, seg_fid = 1, seg_timestamp = 0, seg_index = 0, seg_total = 1, seg_ftype = 0, seg_payload_type = 96,
     seg_remb = 1, seg_send_ts = 0, seg_transport_seq = 1, seg_data_size = of_nat n, seg_data = d\<rparr>"

theorem segment_delivered_witness:
  "\<exists>s s' bs r'. TimeToSendPacket demo_machine 1 1000 s = Some (True, s') \<and>
     s_calls s' = [Datagram home bs, AddPacket 1234 1 510, OnSentPacket 1 1000] \<and>
     R_Process demo_machine 0 7 (Some (home, bs)) demo_receiver = Some r' \<and> OnReceivedPacket 7 510 1234 1 \<in> set (r_calls r')"
proof -
  let ?seg = "demo_segment (replicate 1000 9) 480"
  let ?s = "demo_sender\<lparr>s_first_ts := 0, s_pending_buf := [(1, ?seg)]\<rparr>"
  have s: "S_ready ?s" "s_dst ?s = Some home" using demo_peers by (simp_all add: S_ready_def)
  have w: "wf_body (Segment ?seg)" "seg_transport_seq ?seg = 1" "seg_data_size ?seg = 480"
    by (simp_all add: demo_segment_def SIM_VIDEO_SIZE_def)
  from segment_delivered [OF demo_ready(1,1) s, of 1 ?seg demo_receiver 1000 0 7 home] w demo_peers show ?thesis by fastforce
qed

text \<open>
  C26: a full segment is lost. \<open>Process\<close> receives into a stream of \<open>DEFAULT_PACKET_SIZE\<close> = 1024 bytes, but a segment with more than 996 of its 1000
  bytes in use is longer than that: the end of the datagram is cut off and four bytes of the video are taken for the checksum. Unless they
  happen to be the checksum of the bytes before them, \<open>Process\<close> of a connected receiver does exactly what it does when nothing was received. A receiver that is
  not connected is lost to the segment as well, but takes the address it came from for its peer, because it does so before it looks at the checksum.
\<close>

theorem full_segment_lost:
  assumes "machine_ready m" and "r_running r" and "r_session_connected r \<longrightarrow> R_ready r" and "wf_body (Segment b)" and "996 < unat (seg_data_size b)"
    and "bs = msg_bytes (INIT_SIM_HEADER SIM_SEG u) (Segment b)" and "be_word (take 4 (drop 1020 bs)) \<noteq> sim_crc (take 1020 bs)"
  shows "1024 < length bs \<and> R_Process m t t' (Some (A, bs)) r =
     (if r_session_connected r then R_Process m t t' None r else Some (r\<lparr>r_session_connected := True, r_dst := Some A\<rparr>))"
proof
  show len: "1024 < length bs" using segment_length [OF assms(4)] assms(5,6) by simp
  have ne: "bs \<noteq> []" using len by auto
  have lost: "R_receive m t' (Some (A, bs)) r1 = Some (if r_session_connected r1 then r1 else r1\<lparr>r_session_connected := True, r_dst := Some A\<rparr>)" for r1
  proof -
    let ?a = "arrived m (r_stream r1) bs"
    have "contents ?a = take 1020 bs @ take 4 (drop 1020 bs)"
      using arrived_stream(4) [OF assms(1)] take_add [of 1020 4 bs] by (simp add: DEFAULT_PACKET_SIZE_def)
    moreover have "length (take 4 (drop 1020 bs)) = 4" using len by simp
    ultimately have "sim_decode_header m ?a (local_header m) = Some ((- 1, local_header m), ?a)"
      using assms(7) by (simp add: decode_header_split [OF assms(1) arrived_stream(1) [OF assms(1)]])
    then show ?thesis by (simp add: R_receive_bytes [OF assms(1) ne] R_ProcessingMsg_def)
  qed
  show "R_Process m t t' (Some (A, bs)) r =
     (if r_session_connected r then R_Process m t t' None r else Some (r\<lparr>r_session_connected := True, r_dst := Some A\<rparr>))"
  proof (cases "r_session_connected r")
    case True
    with assms(3) have rd: "R_ready r" by simp
    from R_tick_ok [OF assms(1) rd] obtain r1 where "R_tick m t r = Some r1" "R_ready r1" by blast
    with lost [of r1] True show ?thesis by (simp add: R_Process_split [OF rd] receive_nothing [OF assms(1)] R_ready_def)
  next
    case False
    then have "R_Process m t t' (Some (A, bs)) r = R_receive m t' (Some (A, bs)) r" using assms(2) unfolding R_Process_def R_receive_def Let_def by simp
    with lost [of r] False show ?thesis by simp
  qed
qed

text \<open>Of two segments that differ in the four bytes taken for the checksum at least one is lost.\<close>

theorem full_segment_lost_witness:
  "\<exists>d. length d = 1000 \<and> R_Process demo_machine 0 7 (Some (home, msg_bytes (INIT_SIM_HEADER SIM_SEG 1) (Segment (demo_segment d 1000)))) demo_receiver =
     Some demo_receiver"
proof -
  let ?d = "\<lambda>v. replicate 996 0 @ [v, 0, 0, 0] :: bytes"
  let ?bs = "\<lambda>v. msg_bytes (INIT_SIM_HEADER SIM_SEG 1) (Segment (demo_segment (?d v) 1000))"
  have w: "wf_body (Segment (demo_segment (?d v) 1000))" "996 < unat (seg_data_size (demo_segment (?d v) 1000))" for v
    by (simp_all add: demo_segment_def SIM_VIDEO_SIZE_def)
  define p where "p v = header_bytes (INIT_SIM_HEADER SIM_SEG 1) @ [segment_mask (demo_segment (?d v) 1000)] @ [96] @ wide_bytes 1 @ wide_bytes 1 @ be_bytes 4 (0 :: u32) @
     index_bytes 1 0 @ index_bytes 1 1 @ be_bytes 2 (0 :: u16) @ be_bytes 2 (1 :: u16) @ be_bytes 2 (1000 :: u16)" for v
  have p: "length (p v) = 24" "p v = p 0" for v
    by (simp_all add: p_def header_bytes_def wide_bytes_def index_bytes_def U16_MAX_def U8_MAX_def segment_mask_def demo_segment_def)
  have "\<exists>c. ?bs v = p v @ ?d v @ c" for v
    by (simp add: msg_bytes_def Let_def p_def demo_segment_def data_bytes_def)
  then obtain c where c: "?bs v = p v @ ?d v @ c v" for v by metis
  have cut: "take 1020 (?bs v) = p 0 @ replicate 996 0" "take 4 (drop 1020 (?bs v)) = [v, 0, 0, 0]" for v
    unfolding c using p(1) [of v] p(2) [of v] by (simp_all add: take_Cons')
  have "be_word [1, 0, 0, 0] \<noteq> (be_word [0, 0, 0, 0] :: u32)" by (simp add: be_word_def)
  then obtain v where v: "be_word (take 4 (drop 1020 (?bs v))) \<noteq> sim_crc (take 1020 (?bs v))" unfolding cut by metis
  have "\<not> R_due 0 demo_receiver" by (simp add: R_due_def demo_peers)
  then have "R_Process demo_machine 0 7 None demo_receiver = Some demo_receiver"
    by (simp add: R_Process_split [OF demo_peers(9)] R_tick_def receive_nothing [OF demo_ready(1)])
  with full_segment_lost [OF demo_ready(1) _ _ w refl v, of demo_receiver 0 7 home] demo_peers(9) show ?thesis
    by (intro exI [of _ "?d v"]) (simp add: R_ready_def)
qed

section \<open>Padding\<close>

lemma pad_sent:
  assumes m: "machine_ready m" and s: "S_ready s" "s_dst s = Some B" and n: "unat n \<le> PADDING_DATA_SIZE"
  shows "\<exists>s' bs. SendPadding m n ts s = Some (int (unat n) + 516, s') \<and> S_ready s' \<and> s_dst s' = Some B \<and> s_uid s' = s_uid s \<and>
     s_trans_seq s' = s_trans_seq s + 1 \<and> length bs = unat n + 18 \<and>
     s_calls s' = s_calls s @ [Datagram B bs, AddPacket (s_uid s) (s_trans_seq s) (int (unat n) + 516), OnSentPacket (s_trans_seq s) (uint ts)]"
proof -
  let ?pad = "local_pad m\<lparr>pad_data_size := n, pad_send_ts := ts, pad_transport_seq := s_trans_seq s\<rparr>"
  let ?h = "INIT_SIM_HEADER SIM_PAD (s_uid s)"
  have w: "stream_r (s_stream s)" "0 < ssize (s_stream s)" using s(1) by (simp_all add: S_ready_def stream_w_def)
  have wf: "wf_body (Pad ?pad)" using n local_rooms(2) [of m] by simp
  from encode_anywhere [OF m w _ wf, of ?h] obtain st where
    st: "sim_encode_msg m (s_stream s) ?h (Pad ?pad) = Some st" "stream_w st" "contents st = msg_bytes ?h (Pad ?pad)" by auto
  have l: "length (msg_bytes ?h (Pad ?pad)) = unat n + 18"
    using wf by (simp add: msg_bytes_def Let_def header_bytes_def data_bytes_def min_def)
  have o: "pad_overhead n = int (unat n) + 516"
    by (simp add: pad_overhead_def sizeof_sim_header_t_def sizeof_sim_pad_t_def PADDING_DATA_SIZE_def)
  show ?thesis
    using st s l by (intro exI [of _ "s\<lparr>s_trans_seq := s_trans_seq s + 1, s_stream := st, s_calls := s_calls s @
        [Datagram B (msg_bytes ?h (Pad ?pad)), AddPacket (s_uid s) (s_trans_seq s) (int (unat n) + 516), OnSentPacket (s_trans_seq s) (uint ts)]\<rparr>"]
      exI [of _ "msg_bytes ?h (Pad ?pad)"]) (simp add: SendPadding_def S_send o S_ready_def Let_def)
qed

text \<open>What goes out and what the controller is told of.\<close>

fun datagrams :: "peer_call list \<Rightarrow> bytes list" where
  "datagrams [] = []"
| "datagrams (Datagram a bs # cs) = bs # datagrams cs"
| "datagrams (c # cs) = datagrams cs"

fun accounted :: "peer_call list \<Rightarrow> int list" where
  "accounted [] = []"
| "accounted (AddPacket u q n # cs) = n # accounted cs"
| "accounted (c # cs) = accounted cs"

text \<open>The payloads: each full one takes 1016 off what remains.\<close>

definition payloads :: "int \<Rightarrow> nat list" where
  "payloads remain =
     (let k = (remain + 516) div 1016; rest = remain - 1016 * k in replicate (nat k) 500 @ (if rest \<ge> 100 then [nat rest] else []))"

lemma payloads_full: "500 \<le> r \<Longrightarrow> payloads r = 500 # payloads (r - 1016)"
proof -
  assume r: "500 \<le> r"
  define k where "k = (r + 516) div 1016"
  have k: "(r - 1016 + 516) div 1016 = k - 1" using div_add_self2 [of 1016 "r - 500"] by (simp add: k_def)
  have "1 \<le> k" using r zdiv_mono1 [of 1016 "r + 516" 1016] by (simp add: k_def)
  then have "nat k = Suc (nat (k - 1))" by simp
  then show ?thesis unfolding payloads_def k k_def [symmetric] Let_def by (simp add: algebra_simps)
qed

lemma payloads_part: "0 \<le> r \<Longrightarrow> r < 500 \<Longrightarrow> payloads r = (if r \<ge> 100 then [nat r] else [])"
  and payloads_none: "r \<le> 0 \<Longrightarrow> - 516 \<le> r \<Longrightarrow> payloads r = []"
  by (simp_all add: payloads_def Let_def)

lemma padding_loop_ok:
  assumes "machine_ready m" and "S_ready s" and "s_dst s = Some B" and "- 516 \<le> r"
  shows "\<exists>s' new. padding_loop m now r s = Some s' \<and> S_ready s' \<and> s_calls s' = s_calls s @ new \<and>
     map length (datagrams new) = map (\<lambda>n. n + 18) (payloads r) \<and> accounted new = map (\<lambda>n. int n + 516) (payloads r)"
  using assms
proof (induction m now r s rule: padding_loop.induct)
  case (1 m now r s)
  have n: "unat (word_of_int MAX_PAD_SIZE :: u16) = 500" by (simp add: MAX_PAD_SIZE_def)
  consider "r \<le> 0" | "0 < r" "r < 500" | "500 \<le> r" by linarith
  then show ?case
  proof cases
    case 1
    with "1.prems" show ?thesis by (simp add: padding_loop.simps payloads_none)
  next
    case 2
    have u: "unat (word_of_int r :: u16) = nat r" using 2 by (simp add: unat_eq_nat_uint uint_word_of_int)
    have "nat r \<le> 500" using 2 by simp
    with pad_sent [OF "1.prems"(1-3), of "word_of_int r" "word_of_int now"] obtain s' bs where
      "SendPadding m (word_of_int r) (word_of_int now) s = Some (int (nat r) + 516, s')" "S_ready s'" "length bs = nat r + 18"
      "s_calls s' = s_calls s @ [Datagram B bs, AddPacket (s_uid s) (s_trans_seq s) (int (nat r) + 516),
         OnSentPacket (s_trans_seq s) (uint (word_of_int now :: u32))]" by (auto simp: u PADDING_DATA_SIZE_def)
    with 2 "1.prems" show ?thesis by (auto simp: padding_loop.simps payloads_part MAX_PAD_SIZE_def)
  next
    case 3
    from pad_sent [OF "1.prems"(1-3), of "word_of_int MAX_PAD_SIZE" "word_of_int now"] n obtain s1 bs where
      s1: "SendPadding m (word_of_int MAX_PAD_SIZE) (word_of_int now) s = Some (1016, s1)" "S_ready s1" "s_dst s1 = Some B" "length bs = 518"
      "s_calls s1 = s_calls s @ [Datagram B bs, AddPacket (s_uid s) (s_trans_seq s) 1016,
         OnSentPacket (s_trans_seq s) (uint (word_of_int now :: u32))]" by (auto simp: PADDING_DATA_SIZE_def)
    have o: "pad_overhead (word_of_int MAX_PAD_SIZE) = 1016"
      by (simp add: pad_overhead_def sizeof_sim_header_t_def sizeof_sim_pad_t_def PADDING_DATA_SIZE_def MAX_PAD_SIZE_def)
    have "0 < r" "MAX_PAD_SIZE \<le> r" using 3 by (simp_all add: MAX_PAD_SIZE_def)
    from "1.IH" [OF this s1(1) refl "1.prems"(1) s1(2,3)] 3 obtain s' new where
      "padding_loop m now (r - 1016) s1 = Some s'" "S_ready s'" "s_calls s' = s_calls s1 @ new"
      "map length (datagrams new) = map (\<lambda>n. n + 18) (payloads (r - 1016))" "accounted new = map (\<lambda>n. int n + 516) (payloads (r - 1016))"
      unfolding o by auto
    with s1 o 3 show ?thesis
      by (intro exI [of _ s'] exI [of _ "[Datagram B bs, AddPacket (s_uid s) (s_trans_seq s) 1016,
         OnSentPacket (s_trans_seq s) (uint (word_of_int now :: u32))] @ new"]) (simp add: padding_loop.simps [of m now r] payloads_full MAX_PAD_SIZE_def)
  qed
qed

text \<open>
  Padding is counted twice over. Asked for \<open>n\<close> bytes, at least 100, \<open>TimeToSendPadding\<close> returns and reports \<open>n\<close> bytes sent, but it takes
  \<open>sizeof(sim_pad_t)\<close>, which contains the 500 bytes of the array, for the size of the header: with every padding datagram of 18 bytes more than
  its payload the controller is told 516 more, and of \<open>n\<close> bytes at most \<open>518 \<lceil>n / 1016\<rceil>\<close> are sent.
\<close>

theorem padding_overcounted:
  assumes "machine_ready m" and "S_ready s" and "100 \<le> n" and "n < 2 ^ 31"
  shows "\<exists>s' new. TimeToSendPadding m n now s = Some (n, s') \<and> s_calls s' = s_calls s @ new \<and>
     map length (datagrams new) = map (\<lambda>p. p + 18) (payloads (int n)) \<and> accounted new = map (\<lambda>p. int p + 516) (payloads (int n)) \<and>
     sum_list (map length (datagrams new)) \<le> 518 * ((n + 1015) div 1016)"
proof -
  obtain B where B: "s_dst s = Some B" using assms(2) by (auto simp: S_ready_def)
  have i: "sint (of_nat n :: u32) = int n" using assms(4) by (rule sint_of_nat_small)
  from padding_loop_ok [OF assms(1,2) B, of "int n" now] obtain s' new where
    l: "padding_loop m now (int n) s = Some s'" "s_calls s' = s_calls s @ new"
      "map length (datagrams new) = map (\<lambda>n. n + 18) (payloads (int n))" "accounted new = map (\<lambda>n. int n + 516) (payloads (int n))" by auto
  have "sum_list (map (\<lambda>p. p + 18) (payloads (int n))) \<le> 518 * ((n + 1015) div 1016)"
  proof -
    define k where "k = (n + 516) div 1016"
    define rest where "rest = int n - 1016 * int k"
    have k: "(int n + 516) div 1016 = int k" by (simp add: k_def zdiv_int)
    have p: "payloads (int n) = replicate k 500 @ (if rest \<ge> 100 then [nat rest] else [])" by (simp add: payloads_def k Let_def rest_def)
    have b: "1016 * k \<le> n + 516" "n + 516 < 1016 * (k + 1)"
      using times_div_less_eq_dividend [of 1016 "n + 516"] dividend_less_times_div [of 1016 "n + 516"] unfolding k_def by simp_all
    then have r: "rest < 500" by (simp add: rest_def)
    have "sum_list (map (\<lambda>p. p + 18) (payloads (int n))) = 518 * k + (if rest \<ge> 100 then nat rest + 18 else 0)"
      by (simp add: p sum_list_replicate)
    also have "\<dots> \<le> 518 * ((n + 1015) div 1016)"
    proof (cases "rest \<ge> 100")
      case True
      then have "1016 * (k + 1) \<le> n + 1015" by (simp add: rest_def)
      then have "k + 1 \<le> (n + 1015) div 1016" by (simp add: less_eq_div_iff_mult_less_eq mult.commute)
      then have "518 * (k + 1) \<le> 518 * ((n + 1015) div 1016)" by simp
      with True r show ?thesis by simp
    next
      case False
      have "(n + 516) div 1016 \<le> (n + 1015) div 1016" by (rule div_le_mono) simp
      with False show ?thesis by (simp add: k_def)
    qed
    finally show ?thesis .
  qed
  with l i assms(3) show ?thesis by (auto simp: TimeToSendPadding_def)
qed

theorem padding_overcounted_witness:
  "\<exists>s' new. TimeToSendPadding demo_machine 2500 1000 demo_sender = Some (2500, s') \<and> map length (datagrams new) = [518, 518, 486] \<and>
     accounted new = [1016, 1016, 984] \<and> s_calls s' = new"
proof -
  have "payloads 2500 = [500, 500, 468]" by (simp add: payloads_def Let_def numeral_2_eq_2)
  then show ?thesis using padding_overcounted [OF demo_ready(1) demo_peers(1), of 2500 1000] by (auto simp: demo_peers)
qed

end
