(* ===== verification/Peer_Safety.thy ===== *)
theory Peer_Safety
  imports Peer_Exchange
begin

text \<open>
  What arbitrary datagrams can do to the peers: invariants of both, which every datagram that \<open>R_tame\<close> and \<open>S_tame\<close> allow
  keeps, the round trip that a ping measures in any states that have them, and the way of feedback.
\<close>

section \<open>Decoding what arrived\<close>

lemma contents_length: "stream_r s \<Longrightarrow> length (contents s) = used s"
  by (auto simp: contents_def stream_r_def)

lemma decode_header_upto:
  assumes m: "machine_ready m" and s: "stream_r s" "4 \<le> used s"
  shows "\<exists>r h' s'. sim_decode_header m s h = Some ((r, h'), s') \<and> read_upto s s'"
proof -
  from split_last4 [of "contents s"] contents_length [OF s(1)] s obtain p c4 where c: "contents s = p @ c4" "length c4 = 4" by metis
  from yieldsD [OF header_yields [of h] m s(1)] s show ?thesis
    unfolding decode_header_split [OF m s(1) c] by (auto intro: read_upto_refl)
qed

lemma decoded_mid:
  assumes m: "machine_ready m" and s: "stream_r s" "rsize s = 0" "contents s = v # i # rest" "4 \<le> used s"
    and d: "sim_decode_header m s h = Some ((0, h'), s')"
  shows "mid h' = i"
proof -
  from split_last4 [of "contents s"] contents_length [OF s(1)] s(4) obtain p c4 where c: "contents s = p @ c4" "length c4 = 4" by metis
  have u: "unread s = be_bytes 1 v @ (i # rest)" using s by (simp add: unread_def be_bytes_unfold)
  from readsD [OF cu8.get_enc m s(1)] u obtain s1 where
    s1: "mach_uint8_read m s = Some (v, s1)" "consumed s s1 (i # rest)" by fastforce
  then have "stream_r s1" "unread s1 = be_bytes 1 i @ rest" using read_upto_r [OF _ s(1)] by (auto simp: consumed_def be_bytes_unfold)
  from readsD [OF cu8.get_enc m this(1)] this(2) obtain s2 where "mach_uint8_read m s1 = Some (i, s2)" by fastforce
  with s1 d show ?thesis unfolding decode_header_split [OF m s(1) c] by (auto simp: bind_eq_Some_conv split: if_splits)
qed

text \<open>The two reads of a handler: a header, and a body of the kind the header names.\<close>

lemma handler_reads:
  assumes m: "machine_ready m" and bs: "4 \<le> length bs"
  shows "\<exists>r h' s1. sim_decode_header m (arrived m strm bs) h = Some ((r, h'), s1) \<and> (r = 0 \<longrightarrow> mid h' = bs ! 1 \<and>
     (\<forall>old. names (mid h') old \<and> room_for old \<longrightarrow>
        (\<exists>b s2. sim_decode_msg m s1 h' old = Some ((0, b), s2) \<and> names (mid h') b \<and> wf_body b \<and> stream_r s2 \<and> 0 < ssize s2)))"
proof -
  let ?a = "arrived m strm bs"
  note a = arrived_stream [OF m, of strm bs]
  have used: "4 \<le> used ?a" using contents_length [OF a(1)] a(4) bs by (simp add: DEFAULT_PACKET_SIZE_def)
  from bs obtain v i rest where "bs = v # i # rest" by (cases bs; cases "tl bs") auto
  then have c: "contents ?a = v # i # take (DEFAULT_PACKET_SIZE - 2) rest" "bs ! 1 = i"
    using a(4) by (simp_all add: DEFAULT_PACKET_SIZE_def take_Cons')
  from decode_header_upto [OF m a(1) used, of h] obtain r h' s1 where
    d: "sim_decode_header m ?a h = Some ((r, h'), s1)" "read_upto ?a s1" by blast
  have s1: "stream_r s1" "ssize s1 = ssize ?a" using read_upto_r [OF d(2) a(1)] read_uptoD(2) [OF d(2)] by auto
  have "\<exists>b s2. sim_decode_msg m s1 h' old = Some ((0, b), s2) \<and> names (mid h') b \<and> wf_body b \<and> stream_r s2 \<and> 0 < ssize s2"
    if "names (mid h') old \<and> room_for old" for old
  proof -
    from that yieldsD [OF body_yields [of h' old] m s1(1)] obtain b s2 where
      b: "sim_decode_msg m s1 h' old = Some ((0, b), s2)" "names (mid h') b" "wf_body b" "read_upto s1 s2" by auto
    with read_upto_r [OF b(4) s1(1)] read_uptoD(2) [OF b(4)] s1(2) a(2) show ?thesis by auto
  qed
  moreover have "mid h' = bs ! 1" if "r = 0" using decoded_mid [OF m a(1,3) c(1) used] d(1) c(2) that by blast
  ultimately show ?thesis using d(1) by auto
qed

lemma names_unique:
  "names SIM_PING b \<Longrightarrow> \<exists>p. b = Ping p" "names SIM_PONG b \<Longrightarrow> \<exists>p. b = Ping p" "names SIM_SEG b \<Longrightarrow> \<exists>p. b = Segment p"
  "names SIM_PAD b \<Longrightarrow> \<exists>p. b = Pad p" "names SIM_FEEDBACK b \<Longrightarrow> \<exists>p. b = Feedback p"
  by (cases b; simp add: msg_ids)+

lemma local_segment_room: "room_for (Segment (local_segment m))"
  and local_pad_room: "room_for (Pad (local_pad m))"
  and local_feedback_room: "room_for (Feedback (local_feedback m))"
  by (simp_all add: local_segment_def local_pad_def local_feedback_def local_bytes_def)

section \<open>A process that receives\<close>

text \<open>The two clock readings of a \<open>Process\<close> and what the socket has.\<close>

type_synonym peer_event = "int \<times> int \<times> (su_addr \<times> bytes) option"

fun events_run :: "(peer_event \<Rightarrow> 's \<Rightarrow> 's option) \<Rightarrow> peer_event list \<Rightarrow> 's \<Rightarrow> 's option" where
  "events_run step [] s = Some s"
| "events_run step (e # es) s = Option.bind (step e s) (events_run step es)"

text \<open>A step per event keeps an invariant with a counter, which bounds how long it may run.\<close>

locale event_loop =
  fixes step :: "peer_event \<Rightarrow> 's \<Rightarrow> 's option" and ok :: "nat \<Rightarrow> 's \<Rightarrow> bool" and tame :: "peer_event \<Rightarrow> bool"
  assumes keeps: "ok k s \<Longrightarrow> k < 2 ^ 30 \<Longrightarrow> tame e \<Longrightarrow> \<exists>s'. step e s = Some s' \<and> ok (Suc k) s'"
begin

lemma run_ok: "ok k s \<Longrightarrow> k + length es \<le> 2 ^ 30 \<Longrightarrow> \<forall>e \<in> set es. tame e \<Longrightarrow> \<exists>s'. events_run step es s = Some s' \<and> ok (k + length es) s'"
proof (induction es arbitrary: k s)
  case (Cons e es)
  with keeps [of k s e] obtain s' where s': "step e s = Some s'" "ok (Suc k) s'" by auto
  with Cons.IH [OF s'(2)] Cons.prems show ?case by auto
qed simp

end

section \<open>The receiver\<close>

definition R_ok :: "nat \<Rightarrow> receiver \<Rightarrow> bool" where
  "R_ok k r \<longleftrightarrow> r_running r \<and> stream_w (r_stream r) \<and> 0 \<le> r_update_ping_ts r \<and> r_update_ping_ts r < 2 ^ 62 \<and>
     (r_session_connected r \<longrightarrow> r_dst r \<noteq> None) \<and> 0 \<le> r_rtt_num r \<and> r_rtt_num r \<le> int k \<and>
     5 * r_rtt_num r \<le> r_sum_rtt r \<and> r_sum_rtt r \<le> 2 ^ 32 * r_rtt_num r"

text \<open>
  A datagram the receiver survives: not shorter than a checksum, and when it is taken for a pong, because its second byte says so and its last
  four bytes are the checksum of the others, then with a time stamp that can be subtracted. What follows the header of a pong is its time stamp; a pong
  too short to hold one is read as 0. Only the first \<open>DEFAULT_PACKET_SIZE\<close> bytes of a datagram are received.
\<close>

definition checked :: "bytes \<Rightarrow> bool" where
  "checked bs \<longleftrightarrow> be_word (drop (length bs - 4) bs) = sim_crc (take (length bs - 4) bs)"

definition pong_stamp :: "bytes \<Rightarrow> u64" where
  "pong_stamp bs = (if 14 \<le> length bs then be_word (take 8 (drop 6 bs)) else 0)"

definition pong_ok :: "bytes \<Rightarrow> bool" where
  "pong_ok bs \<longleftrightarrow> (let bs = take DEFAULT_PACKET_SIZE bs in bs ! 1 = SIM_PONG \<and> checked bs \<longrightarrow> - (2 ^ 62) \<le> sint (pong_stamp bs))"

lemma word_read:
  assumes "field_codec put get (be_bytes n) n (0 :: 'a :: len word)" and n: "8 * n = LENGTH('a)" and m: "machine_ready m" and s: "stream_r s"
  shows "if n \<le> length (unread s) then \<exists>s'. get m s = Some (be_word (take n (unread s)), s') \<and> stream_r s' \<and> unread s' = drop n (unread s)
     else get m s = Some (0, s)"
proof (cases "n \<le> length (unread s)")
  case True
  let ?b = "take n (unread s)"
  have "be_bytes (length ?b) (be_word ?b :: 'a word) = ?b" using True n by (intro be_bytes_word) simp
  then have "unread s = be_bytes n (be_word ?b :: 'a word) @ drop n (unread s)" using True by simp
  then obtain s' where "get m s = Some (be_word ?b, s')" "consumed s s' (drop n (unread s))"
    using readsD [OF field_codec.get_enc [OF assms(1)] m s] by blast
  with True show ?thesis using read_upto_r [OF _ s] by (auto simp: consumed_def)
next
  case False
  with field_codec.get_short [OF assms(1) s] show ?thesis by simp
qed

lemma pong_reads:
  assumes m: "machine_ready m" and bs: "4 \<le> length bs" and d: "sim_decode_header m (arrived m strm bs) h0 = Some ((0, h), s1)" and h: "mid h = SIM_PONG"
  shows "checked (take DEFAULT_PACKET_SIZE bs) \<and> take DEFAULT_PACKET_SIZE bs ! 1 = SIM_PONG \<and>
     (\<exists>s2. sim_decode_msg m s1 h (Ping p) = Some ((0, Ping \<lparr>ping_ts = pong_stamp (take DEFAULT_PACKET_SIZE bs)\<rparr>), s2))"
proof -
  let ?a = "arrived m strm bs"
  define b where "b = take DEFAULT_PACKET_SIZE bs"
  note a = arrived_stream [OF m, of strm bs, folded b_def]
  have len: "4 \<le> length b" using bs by (simp add: b_def DEFAULT_PACKET_SIZE_def)
  then obtain v i r where c: "b = v # i # r" by (cases b; cases "tl b") auto
  have split: "contents ?a = take (length b - 4) b @ drop (length b - 4) b" "length (drop (length b - 4) b) = 4" using a(4) len by simp_all
  have ok: "checked b" using d unfolding decode_header_split [OF m a(1) split] by (auto simp: checked_def split: if_splits)
  have "unread ?a = [v] @ (i # r)" using a(3,4) c by (simp add: unread_def)
  from readsD [OF cu8.get_enc m a(1) this] obtain q1 where q1: "mach_uint8_read m ?a = Some (v, q1)" "stream_r q1" "unread q1 = [i] @ r"
    using read_upto_r [OF _ a(1)] by (auto simp: consumed_def)
  from readsD [OF cu8.get_enc m q1(2,3)] obtain q2 where q2: "mach_uint8_read m q1 = Some (i, q2)" "stream_r q2" "unread q2 = r"
    using read_upto_r [OF _ q1(2)] by (auto simp: consumed_def)
  have hs: "Option.bind (mach_uint32_read m q2) (\<lambda>(u, s). Some ((0 :: int, h0\<lparr>ver := v, mid := i, uid := u\<rparr>), s)) = Some ((0, h), s1)"
    using d unfolding decode_header_split [OF m a(1) split] by (simp add: q1(1) q2(1) split: if_splits)
  have i: "i = SIM_PONG" using hs h by (auto simp: bind_eq_Some_conv)
  have r32: "if 4 \<le> length r then stream_r s1 \<and> unread s1 = drop 4 r else s1 = q2"
    using word_read [OF cu32.field_codec_axioms _ m q2(2)] hs by (auto simp: q2(3) split: if_splits)
  then have s1: "stream_r s1" using q2(2) by (auto split: if_splits)
  have "\<exists>s2. mach_int64_read m s1 = Some (pong_stamp b, s2)"
    using word_read [OF ci64.field_codec_axioms _ m s1] r32 by (auto simp: pong_stamp_def c q2(3) split: if_splits)
  then show ?thesis using ok h c i unfolding b_def [symmetric] by (auto simp: sim_decode_msg_def Let_def msg_ids sim_ping_decode_def through_def)
qed

fun R_tame :: "peer_event \<Rightarrow> bool" where
  "R_tame (t, t', incoming) \<longleftrightarrow> 0 \<le> t' \<and> t' < 2 ^ 62 \<and>
     (case incoming of None \<Rightarrow> True | Some (a, bs) \<Rightarrow> bs = [] \<or> 4 \<le> length bs \<and> pong_ok bs)"

fun R_event :: "machine \<Rightarrow> peer_event \<Rightarrow> receiver \<Rightarrow> receiver option" where
  "R_event m (t, t', incoming) r = R_Process m t t' incoming r"

lemma R_UpdateRtt_frame:
  assumes "R_UpdateRtt t r = Some r'"
  shows "r_running r' = r_running r" "r_stream r' = r_stream r" "r_update_ping_ts r' = r_update_ping_ts r"
    "r_session_connected r' = r_session_connected r" "r_dst r' = r_dst r"
proof -
  have "r_running r' = r_running r \<and> r_stream r' = r_stream r \<and> r_update_ping_ts r' = r_update_ping_ts r \<and>
      r_session_connected r' = r_session_connected r \<and> r_dst r' = r_dst r"
    using assms by (cases "r_rtt_num r = 0"; cases "r_receive_side_cc r") (auto simp: R_UpdateRtt_eq Let_def bind_eq_Some_conv)
  then show "r_running r' = r_running r" "r_stream r' = r_stream r" "r_update_ping_ts r' = r_update_ping_ts r"
    "r_session_connected r' = r_session_connected r" "r_dst r' = r_dst r" by simp_all
qed

lemma R_UpdateRtt_keeps:
  assumes "R_ok k r" and "k < 2 ^ 30"
  shows "\<exists>r'. R_UpdateRtt t r = Some r' \<and> R_ok (Suc k) r'"
proof -
  have k: "int k < 2 ^ 30" using assms(2) by simp
  note r = assms(1) [unfolded R_ok_def]
  have n: "0 \<le> r_rtt_num r" "r_rtt_num r < 2 ^ 30" "0 \<le> r_sum_rtt r" "r_sum_rtt r \<le> 2 ^ 62" "r_rtt_num r = 0 \<longrightarrow> r_sum_rtt r = 0"
  proof -
    show "0 \<le> r_rtt_num r" "r_rtt_num r < 2 ^ 30" "0 \<le> r_sum_rtt r" "r_rtt_num r = 0 \<longrightarrow> r_sum_rtt r = 0" using r k by auto
    have "2 ^ 32 * r_rtt_num r \<le> 2 ^ 62" using r k by simp
    then show "r_sum_rtt r \<le> 2 ^ 62" using r by linarith
  qed
  from rr.step [OF n] obtain r' where r': "R_UpdateRtt t r = Some r'" "r_rtt_num r' = r_rtt_num r + 1" "r_sum_rtt r' = r_sum_rtt r + uint (keep t)"
    by blast
  have "R_ok (Suc k) r'" using r kept_bounds [of t] unfolding R_ok_def R_UpdateRtt_frame [OF r'(1)] r'(2,3) by (simp add: algebra_simps)
  with r'(1) show ?thesis by blast
qed

lemma R_ok_mono: "R_ok k r \<Longrightarrow> R_ok (Suc k) r"
  by (auto simp: R_ok_def)

lemma R_ok_calls: "R_ok k (r\<lparr>r_calls := c\<rparr>) = R_ok k r"
  by (simp add: R_ok_def)

lemma R_reports_keep: "R_ok k r \<Longrightarrow> R_ok k (R_OnRecvSegment t h seg r)" "R_ok k r \<Longrightarrow> R_ok k (R_OnRecvPad t h pad r)"
  by (simp_all add: R_ok_def R_OnRecvSegment_def R_OnRecvPad_def R_ConfigureCongestion_def Let_def)

lemma pong_time: "- (2 ^ 62) \<le> x \<Longrightarrow> 0 \<le> t \<Longrightarrow> t < 2 ^ 62 \<Longrightarrow> i64 (t - x) = Some (t - x)" if "x < 2 ^ 63"
  using that by (simp add: i64_def)

lemma sint_bound: "sint (w :: u64) < 2 ^ 63"
  using sint_lt [of w] by simp

lemma R_handles:
  assumes m: "machine_ready m" and r: "R_ok k r" "r_session_connected r" "k < 2 ^ 30" and bs: "4 \<le> length bs" "pong_ok bs"
    and t: "0 \<le> t" "t < 2 ^ 62"
  shows "\<exists>r'. R_ProcessingMsg m t (arrived m strm bs) r = Some r' \<and> R_ok (Suc k) r'"
proof -
  from r(1,2) obtain a where a: "r_dst r = Some a" by (auto simp: R_ok_def)
  from handler_reads [OF m bs(1), of strm "local_header m"] obtain ret h s1 where
    d: "sim_decode_header m (arrived m strm bs) (local_header m) = Some ((ret, h), s1)" "ret = 0 \<Longrightarrow> mid h = bs ! 1"
    "\<And>old. ret = 0 \<Longrightarrow> names (mid h) old \<Longrightarrow> room_for old \<Longrightarrow>
        \<exists>b s2. sim_decode_msg m s1 h old = Some ((0, b), s2) \<and> names (mid h) b \<and> wf_body b \<and> stream_r s2 \<and> 0 < ssize s2" by blast
  note start = R_ProcessingMsg_def d(1) connected_id [OF r(2)]
  consider (off) "ret \<noteq> 0 \<or> mid h \<notin> {SIM_PING, SIM_PONG, SIM_SEG, SIM_PAD}" | (ping) "ret = 0" "mid h = SIM_PING" |
    (pong) "ret = 0" "mid h = SIM_PONG" | (seg) "ret = 0" "mid h = SIM_SEG" | (pad) "ret = 0" "mid h = SIM_PAD" by blast
  then show ?thesis
  proof cases
    case off
    then have "R_ProcessingMsg m t (arrived m strm bs) r = Some r" by (auto simp: start)
    then show ?thesis using R_ok_mono [OF r(1)] by simp
  next
    case pong
    let ?ts = "pong_stamp (take DEFAULT_PACKET_SIZE bs)"
    from pong_reads [OF m bs(1) d(1) [unfolded pong(1)] pong(2), of "local_ping m"] obtain s2 where
      p: "sim_decode_msg m s1 h (Ping (local_ping m)) = Some ((0, Ping \<lparr>ping_ts = ?ts\<rparr>), s2)" "- (2 ^ 62) \<le> sint ?ts"
      using bs(2) by (auto simp: pong_ok_def Let_def)
    have "R_ProcessingMsg m t (arrived m strm bs) r = (if 0 < t - sint ?ts then R_UpdateRtt (word_of_int (t - sint ?ts)) r else Some r)"
      using pong p(1) pong_time [OF sint_bound p(2) t] by (simp add: start msg_ids)
    then show ?thesis using R_UpdateRtt_keeps [OF r(1,3)] R_ok_mono [OF r(1)] by auto
  next
    case ping
    with d(3) [of "Ping (local_ping m)"] obtain b s2 where
      b: "sim_decode_msg m s1 h (Ping (local_ping m)) = Some ((0, b), s2)" "names SIM_PING b" "stream_r s2" "0 < ssize s2" by auto
    from names_unique(1) [OF b(2)] obtain p where p: "b = Ping p" ..
    from encode_anywhere [OF m b(3,4), of "INIT_SIM_HEADER SIM_PONG (r_uid r)" b] p obtain s3 where
      "sim_encode_msg m s2 (INIT_SIM_HEADER SIM_PONG (r_uid r)) b = Some s3" "stream_w s3" by auto
    with ping b a have "\<exists>c. R_ProcessingMsg m t (arrived m strm bs) r = Some (r\<lparr>r_calls := c\<rparr>)"
      by (auto simp: start msg_ids R_send)
    then show ?thesis using R_ok_mono [OF r(1)] by (auto simp: R_ok_calls)
  next
    case seg
    with d(3) [of "Segment (local_segment m)"] local_segment_room [of m] obtain b s2 where
      b: "sim_decode_msg m s1 h (Segment (local_segment m)) = Some ((0, b), s2)" "names SIM_SEG b" by auto
    from names_unique(3) [OF b(2)] obtain x where "b = Segment x" ..
    with seg b(1) have "R_ProcessingMsg m t (arrived m strm bs) r = Some (R_OnRecvSegment t h x r)" by (simp add: start msg_ids)
    then show ?thesis using R_reports_keep(1) [OF R_ok_mono [OF r(1)]] by simp
  next
    case pad
    with d(3) [of "Pad (local_pad m)"] local_pad_room [of m] obtain b s2 where
      b: "sim_decode_msg m s1 h (Pad (local_pad m)) = Some ((0, b), s2)" "names SIM_PAD b" by auto
    from names_unique(4) [OF b(2)] obtain x where "b = Pad x" ..
    with pad b(1) have "R_ProcessingMsg m t (arrived m strm bs) r = Some (R_OnRecvPad t h x r)" by (simp add: start msg_ids)
    then show ?thesis using R_reports_keep(2) [OF R_ok_mono [OF r(1)]] by simp
  qed
qed

lemma receive_empty:
  assumes "machine_ready m"
  shows "R_receive m t' (Some (a, [])) r = R_receive m t' None r" "S_receive parses m t' (Some (a, [])) s = S_receive parses m t' None s"
  using init_ready [OF assms, of "r_stream r"] init_ready [OF assms, of "s_stream s"]
  by (auto simp: R_receive_def S_receive_def su_udp_recv_def poke_in)

lemma R_Process_unconnected:
  "r_running r \<Longrightarrow> \<not> r_session_connected r \<Longrightarrow> R_Process m t t' incoming r = R_receive m t' incoming r"
  unfolding R_Process_def R_receive_def Let_def by simp

lemma R_receives:
  assumes m: "machine_ready m" and r: "R_ok k r" "k < 2 ^ 30" and e: "R_tame (t, t', incoming)"
  shows "\<exists>r'. R_receive m t' incoming r = Some r' \<and> R_ok (Suc k) r'"
proof -
  have idle: "\<exists>r'. R_receive m t' None r = Some r' \<and> R_ok (Suc k) r'" using R_ok_mono [OF r(1)] by (simp add: receive_nothing [OF m])
  show ?thesis
  proof (cases incoming)
    case None
    with idle show ?thesis by simp
  next
    case (Some p)
    obtain a bs where p: "p = (a, bs)" by (cases p)
    show ?thesis
    proof (cases "bs = []")
      case True
      show ?thesis unfolding Some p True receive_empty(1) [OF m] by (rule idle)
    next
      case False
      let ?r = "if r_session_connected r then r else r\<lparr>r_session_connected := True, r_dst := Some a\<rparr>"
      have c: "R_ok k ?r" "r_session_connected ?r" using r(1) by (simp_all add: R_ok_def)
      have "4 \<le> length bs" "pong_ok bs" "0 \<le> t'" "t' < 2 ^ 62" using e Some p False by auto
      from R_handles [OF m c r(2) this, of "r_stream r"] show ?thesis unfolding Some p R_receive_bytes [OF m False] .
    qed
  qed
qed

lemma R_event_keeps:
  assumes m: "machine_ready m" and r: "R_ok k r" "k < 2 ^ 30" and e: "R_tame e"
  shows "\<exists>r'. R_event m e r = Some r' \<and> R_ok (Suc k) r'"
proof -
  obtain t t' incoming where ev: "e = (t, t', incoming)" by (cases e)
  show ?thesis
  proof (cases "r_session_connected r")
    case True
    with r(1) have rd: "R_ready r" by (simp add: R_ok_def R_ready_def)
    then obtain a where a: "r_dst r = Some a" by (auto simp: R_ready_def)
    have u: "0 \<le> uint (word_of_int t :: u32)" "uint (word_of_int t :: u32) < 2 ^ 62" using uint_bounded [of "word_of_int t :: u32"] by simp_all
    from R_pings [OF m rd a u] r(1) have "\<exists>r1. R_tick m t r = Some r1 \<and> R_ok k r1"
      by (auto simp: R_tick_def R_ready_def R_ok_def)
    then obtain r1 where "R_tick m t r = Some r1" "R_ok k r1" by blast
    with R_receives [OF m _ r(2)] e show ?thesis by (simp add: ev R_Process_split [OF rd])
  next
    case False
    with r(1) R_receives [OF m r] e show ?thesis by (simp add: ev R_ok_def R_Process_unconnected)
  qed
qed

interpretation rl: event_loop "R_event m" "\<lambda>k r. machine_ready m \<and> R_ok k r" R_tame for m
  by unfold_locales (use R_event_keeps in blast)

text \<open>
  C5: the receiver survives what it receives. From a new receiver, any sequence of up to \<open>2^30\<close> calls of \<open>Process\<close>, each with nothing, an empty
  datagram or any datagram of at least four bytes, however malformed, except one that has the checksum and the number of a pong with a time stamp
  further than \<open>2^62\<close> before the epoch, runs without an access outside a buffer, a missing address or an overflow, and keeps the invariant: a connected receiver has
  an address, its stream can be written, the sum of the samples lies between 5 and \<open>2^32\<close> times their number.
\<close>

theorem receiver_survives:
  assumes "machine_ready m" and "length es \<le> 2 ^ 30" and "\<forall>e \<in> set es. R_tame e"
  shows "\<exists>r'. events_run (R_event m) es (snd (Receiver m strm)) = Some r' \<and> R_ok (length es) r'"
proof -
  from init_ok [of m strm] assms(1) obtain s where "bin_stream_init m strm = (m, 0, s)" "stream_w s"
    using init_ready [OF assms(1), of strm] by (auto simp: machine_ready_def)
  then have "machine_ready m \<and> R_ok 0 (snd (Receiver m strm))" using assms(1) by (simp add: Receiver_def R_ok_def)
  from rl.run_ok [OF this _ assms(3)] assms(2) show ?thesis by auto
qed

theorem receiver_survives_witness:
  "\<exists>r'. events_run (R_event demo_machine) [(0, 0, None), (0, 5, Some (home, [1, 22, 3, 4, 5])), (200, 300, None)] (snd (Receiver demo_machine no_stream)) = Some r'"
  using receiver_survives [OF demo_ready(1), of "[(0, 0, None), (0, 5, Some (home, [1, 22, 3, 4, 5])), (200, 300, None)]" no_stream]
  by (auto simp: pong_ok_def pong_stamp_def DEFAULT_PACKET_SIZE_def Let_def)

section \<open>The sender\<close>

definition S_ok :: "nat \<Rightarrow> sender \<Rightarrow> bool" where
  "S_ok k s \<longleftrightarrow> s_running s \<and> stream_w (s_stream s) \<and> 0 \<le> s_update_ping_ts s \<and> s_update_ping_ts s < 2 ^ 62 \<and> s_dst s \<noteq> None \<and>
     0 \<le> s_rtt_num s \<and> s_rtt_num s \<le> int k \<and> 5 * s_rtt_num s \<le> s_sum_rtt s \<and> s_sum_rtt s \<le> 2 ^ 32 * s_rtt_num s"

fun S_tame :: "(bytes \<Rightarrow> bool) \<Rightarrow> peer_event \<Rightarrow> bool" where
  "S_tame parses (t, t', incoming) \<longleftrightarrow> 0 \<le> t \<and> t < 2 ^ 62 \<and> 0 \<le> t' \<and> t' < 2 ^ 62 \<and>
     (case incoming of None \<Rightarrow> True | Some (a, bs) \<Rightarrow> bs = [] \<or> 4 \<le> length bs \<and> pong_ok bs \<and> (bs ! 1 = SIM_FEEDBACK \<longrightarrow> (\<forall>fb. parses fb)))"

fun S_event :: "(bytes \<Rightarrow> bool) \<Rightarrow> machine \<Rightarrow> peer_event \<Rightarrow> sender \<Rightarrow> sender option" where
  "S_event parses m (t, t', incoming) s = S_Process parses m t t' incoming s"

lemma S_UpdateRtt_frame:
  assumes "S_UpdateRtt t s = Some s'"
  shows "s_running s' = s_running s" "s_stream s' = s_stream s" "s_update_ping_ts s' = s_update_ping_ts s" "s_dst s' = s_dst s"
proof -
  have "s_running s' = s_running s \<and> s_stream s' = s_stream s \<and> s_update_ping_ts s' = s_update_ping_ts s \<and> s_dst s' = s_dst s"
  proof (cases "s_rtt_num s = 0")
    case True
    with assms show ?thesis by (auto simp: S_UpdateRtt_eq Let_def)
  next
    case False
    let ?up = "\<lambda>s1 s2. s_running s2 = s_running s1 \<and> s_stream s2 = s_stream s1 \<and> s_update_ping_ts s2 = s_update_ping_ts s1 \<and> s_dst s2 = s_dst s1"
    have up: "?up s (if b then s1\<lparr>s_max_rtt := k\<rparr> else s1)" "?up s (if b then s1\<lparr>s_min_rtt := k\<rparr> else s1)" if "?up s s1" for b s1 k using that by auto
    from False assms show ?thesis by (auto simp: S_UpdateRtt_eq Let_def bind_eq_Some_conv intro!: up)
  qed
  then show "s_running s' = s_running s" "s_stream s' = s_stream s" "s_update_ping_ts s' = s_update_ping_ts s" "s_dst s' = s_dst s" by simp_all
qed

lemma S_ok_statistics:
  assumes "S_ok k s" and "k < 2 ^ 30"
  shows "0 \<le> s_rtt_num s \<and> s_rtt_num s < 2 ^ 30 \<and> 0 \<le> s_sum_rtt s \<and> s_sum_rtt s \<le> 2 ^ 62 \<and> (s_rtt_num s = 0 \<longrightarrow> s_sum_rtt s = 0)"
proof -
  note s = assms(1) [unfolded S_ok_def]
  have "int k < 2 ^ 30" using assms(2) by simp
  moreover from this have "2 ^ 32 * s_rtt_num s \<le> 2 ^ 62" using s by simp
  ultimately show ?thesis using s by auto
qed

lemma S_UpdateRtt_keeps:
  assumes "S_ok k s" and "k < 2 ^ 30"
  shows "\<exists>s'. S_UpdateRtt t s = Some s' \<and> S_ok (Suc k) s'"
proof -
  note s = assms(1) [unfolded S_ok_def]
  have n: "0 \<le> s_rtt_num s" "s_rtt_num s < 2 ^ 30" "0 \<le> s_sum_rtt s" "s_sum_rtt s \<le> 2 ^ 62" "s_rtt_num s = 0 \<longrightarrow> s_sum_rtt s = 0"
    using S_ok_statistics [OF assms] by blast+
  from sr.step [OF n] obtain s' where s': "S_UpdateRtt t s = Some s'" "s_rtt_num s' = s_rtt_num s + 1" "s_sum_rtt s' = s_sum_rtt s + uint (keep t)"
    by blast
  have "S_ok (Suc k) s'" using s kept_bounds [of t] unfolding S_ok_def S_UpdateRtt_frame [OF s'(1)] s'(2,3) by (simp add: algebra_simps)
  with s'(1) show ?thesis by blast
qed

lemma S_ok_mono: "S_ok k s \<Longrightarrow> S_ok (Suc k) s"
  by (auto simp: S_ok_def)

lemma S_ok_calls: "S_ok k (s\<lparr>s_calls := c\<rparr>) = S_ok k s"
  by (simp add: S_ok_def)

lemma S_handles:
  assumes m: "machine_ready m" and s: "S_ok k s" "k < 2 ^ 30" and bs: "4 \<le> length bs" "pong_ok bs" "bs ! 1 = SIM_FEEDBACK \<longrightarrow> (\<forall>fb. parses fb)"
    and t: "0 \<le> t" "t < 2 ^ 62"
  shows "\<exists>s'. S_ProcessingMsg parses m t (arrived m strm bs) s = Some s' \<and> S_ok (Suc k) s'"
proof -
  from s(1) obtain a where a: "s_dst s = Some a" by (auto simp: S_ok_def)
  from handler_reads [OF m bs(1), of strm "local_header m"] obtain ret h s1 where
    d: "sim_decode_header m (arrived m strm bs) (local_header m) = Some ((ret, h), s1)" "ret = 0 \<Longrightarrow> mid h = bs ! 1"
    "\<And>old. ret = 0 \<Longrightarrow> names (mid h) old \<Longrightarrow> room_for old \<Longrightarrow>
        \<exists>b s2. sim_decode_msg m s1 h old = Some ((0, b), s2) \<and> names (mid h) b \<and> wf_body b \<and> stream_r s2 \<and> 0 < ssize s2" by blast
  note start = S_ProcessingMsg_def d(1)
  consider (off) "ret \<noteq> 0 \<or> mid h \<notin> {SIM_PING, SIM_PONG, SIM_FEEDBACK}" | (ping) "ret = 0" "mid h = SIM_PING" |
    (pong) "ret = 0" "mid h = SIM_PONG" | (feedback) "ret = 0" "mid h = SIM_FEEDBACK" by blast
  then show ?thesis
  proof cases
    case off
    then have "S_ProcessingMsg parses m t (arrived m strm bs) s = Some s" by (auto simp: start)
    then show ?thesis using S_ok_mono [OF s(1)] by simp
  next
    case pong
    let ?ts = "pong_stamp (take DEFAULT_PACKET_SIZE bs)"
    from pong_reads [OF m bs(1) d(1) [unfolded pong(1)] pong(2), of "local_ping m"] obtain s2 where
      p: "sim_decode_msg m s1 h (Ping (local_ping m)) = Some ((0, Ping \<lparr>ping_ts = ?ts\<rparr>), s2)" "- (2 ^ 62) \<le> sint ?ts"
      using bs(2) by (auto simp: pong_ok_def Let_def)
    have "S_ProcessingMsg parses m t (arrived m strm bs) s = (if 0 < t - sint ?ts then S_UpdateRtt (word_of_int (t - sint ?ts)) s else Some s)"
      using pong p(1) pong_time [OF sint_bound p(2) t] by (simp add: start msg_ids)
    then show ?thesis using S_UpdateRtt_keeps [OF s(1,2)] S_ok_mono [OF s(1)] by auto
  next
    case ping
    with d(3) [of "Ping (local_ping m)"] obtain b s2 where
      b: "sim_decode_msg m s1 h (Ping (local_ping m)) = Some ((0, b), s2)" "names SIM_PING b" "stream_r s2" "0 < ssize s2" by auto
    from names_unique(1) [OF b(2)] obtain p where p: "b = Ping p" ..
    from encode_anywhere [OF m b(3,4), of "INIT_SIM_HEADER SIM_PONG (s_uid s)" b] p obtain s3 where
      "sim_encode_msg m s2 (INIT_SIM_HEADER SIM_PONG (s_uid s)) b = Some s3" "stream_w s3" by auto
    with ping b a have "\<exists>c. S_ProcessingMsg parses m t (arrived m strm bs) s = Some (s\<lparr>s_calls := c\<rparr>)"
      by (auto simp: start msg_ids S_send)
    then show ?thesis using S_ok_mono [OF s(1)] by (auto simp: S_ok_calls)
  next
    case feedback
    with d(3) [of "Feedback (local_feedback m)"] local_feedback_room [of m] obtain b s2 where
      b: "sim_decode_msg m s1 h (Feedback (local_feedback m)) = Some ((0, b), s2)" "names SIM_FEEDBACK b" "wf_body b" by auto
    from names_unique(5) [OF b(2)] obtain x where x: "b = Feedback x" ..
    have "unat (fb_feedback_size x) \<le> length (fb_feedback x)" using b(3) by (simp add: x)
    moreover have "\<forall>fb. parses fb" using bs(3) d(2) feedback by simp
    ultimately have "\<exists>c. InnerProcessFeedback parses x s = Some (s\<lparr>s_calls := c\<rparr>)" by (auto simp: InnerProcessFeedback_def peek_in)
    with feedback b(1) have "\<exists>c. S_ProcessingMsg parses m t (arrived m strm bs) s = Some (s\<lparr>s_calls := c\<rparr>)"
      by (auto simp: start msg_ids x)
    then show ?thesis using S_ok_mono [OF s(1)] by (auto simp: S_ok_calls)
  qed
qed

lemma S_receives:
  assumes m: "machine_ready m" and s: "S_ok k s" "k < 2 ^ 30" and e: "S_tame parses (t, t', incoming)"
  shows "\<exists>s'. S_receive parses m t' incoming s = Some s' \<and> S_ok (Suc k) s'"
proof -
  have idle: "\<exists>s'. S_receive parses m t' None s = Some s' \<and> S_ok (Suc k) s'" using S_ok_mono [OF s(1)] by (simp add: receive_nothing [OF m])
  show ?thesis
  proof (cases incoming)
    case None
    with idle show ?thesis by simp
  next
    case (Some p)
    obtain a bs where p: "p = (a, bs)" by (cases p)
    show ?thesis
    proof (cases "bs = []")
      case True
      show ?thesis unfolding Some p True receive_empty(2) [OF m] by (rule idle)
    next
      case False
      have c: "S_ok k (s\<lparr>s_dst := Some a\<rparr>)" using s(1) by (simp add: S_ok_def)
      have "4 \<le> length bs" "pong_ok bs" "bs ! 1 = SIM_FEEDBACK \<longrightarrow> (\<forall>fb. parses fb)" "0 \<le> t'" "t' < 2 ^ 62" using e Some p False by auto
      from S_handles [OF m c s(2) this, of "s_stream s"] show ?thesis unfolding Some p S_receive_bytes [OF m False] .
    qed
  qed
qed

lemma S_event_keeps:
  assumes m: "machine_ready m" and s: "S_ok k s" "k < 2 ^ 30" and e: "S_tame parses e"
  shows "\<exists>s'. S_event parses m e s = Some s' \<and> S_ok (Suc k) s'"
proof -
  obtain t t' incoming where ev: "e = (t, t', incoming)" by (cases e)
  from s(1) have rd: "S_ready s" by (simp add: S_ok_def S_ready_def)
  then obtain a where a: "s_dst s = Some a" by (auto simp: S_ready_def)
  have t: "0 \<le> t" "t < 2 ^ 62" using e ev by auto
  from S_pings [OF m rd a t] s(1) have "\<exists>s1. S_tick m t s = Some s1 \<and> S_ok k s1"
    by (auto simp: S_tick_def S_ready_def S_ok_def)
  then obtain s1 where "S_tick m t s = Some s1" "S_ok k s1" by blast
  with S_receives [OF m _ s(2)] e show ?thesis by (simp add: ev S_Process_split [OF rd t])
qed

interpretation sl: event_loop "S_event parses m" "\<lambda>k s. machine_ready m \<and> S_ok k s" "S_tame parses" for parses m
  by unfold_locales (use S_event_keeps in blast)

text \<open>
  C22: the sender survives what it receives, if the library can parse every feedback packet. A new sender with a peer, once started, runs any
  sequence of up to \<open>2^30\<close> calls of \<open>Process\<close> with nothing, an empty datagram or any datagram of at least four bytes, however malformed, except one
  that has the checksum and the number of a pong with a time stamp further than \<open>2^62\<close> before the epoch, and keeps its invariant.
\<close>

theorem sender_survives:
  assumes "machine_ready m" and "length es \<le> 2 ^ 30" and "\<forall>e \<in> set es. S_tame parses e"
    and "S_SetPeer m inet_addr addr (snd (Sender m strm)) = Some s"
  shows "\<exists>s'. events_run (S_event parses m) es (S_Start s) = Some s' \<and> S_ok (length es) s'"
proof -
  from init_ok [of m strm] assms(1) obtain st where "bin_stream_init m strm = (m, 0, st)" "stream_w st"
    using init_ready [OF assms(1), of strm] by (auto simp: machine_ready_def)
  then have "machine_ready m \<and> S_ok 0 (S_Start s)" using assms(1,4) by (auto simp: Sender_def S_SetPeer_def S_ok_def S_Start_def Let_def)
  from sl.run_ok [OF this _ assms(3)] assms(2) show ?thesis by auto
qed

theorem sender_survives_witness:
  "\<exists>s s'. S_SetPeer demo_machine (\<lambda>_. 0x0100007f) [49, 48, 58, 55, 0] (snd (Sender demo_machine no_stream)) = Some s \<and>
     events_run (S_event (\<lambda>_. True) demo_machine) [(200, 200, None), (201, 205, Some (home, [1, 22, 3, 4, 5]))] (S_Start s) = Some s'"
proof -
  have "\<exists>s. S_SetPeer demo_machine (\<lambda>_. 0x0100007f) [49, 48, 58, 55, 0] (snd (Sender demo_machine no_stream)) = Some s"
    by (simp add: S_SetPeer_def su_string_to_addr_def copy_ip.simps IP_SIZE_def atoi_def is_space_def is_digit_def)
  then obtain s where s: "S_SetPeer demo_machine (\<lambda>_. 0x0100007f) [49, 48, 58, 55, 0] (snd (Sender demo_machine no_stream)) = Some s" ..
  from sender_survives [OF demo_ready(1) _ _ s, of "[(200, 200, None), (201, 205, Some (home, [1, 22, 3, 4, 5]))]" "\<lambda>_. True"] s
  show ?thesis by (auto simp: pong_ok_def pong_stamp_def DEFAULT_PACKET_SIZE_def Let_def)
qed

text \<open>
  C12: the sender measures the round trip. A sender whose ping is due sends one at \<open>t0\<close>. In whatever state \<open>r\<close> a connected receiver finds it, it
  answers to its peer. In whatever state \<open>s'\<close> the sender is when the answer is handled at time \<open>now\<close>, the sample \<open>now - t0\<close>, counted as at least
  5 ms, is added to the statistics of that state. The states are only asked to have the invariants \<open>S_ok\<close> and \<open>R_ok\<close>, which every
  call of \<open>Process\<close> keeps and the state after the ping has too, so anything may be sent and received between the three calls.
\<close>

theorem ping_measures_round_trip:
  assumes "machine_ready m" and "machine_ready m'" and "S_ok k s" and "k < 2 ^ 30" and "S_due t0 s"
    and "R_ok j r" and "r_session_connected r" and "S_ok k' s'" and "k' < 2 ^ 30"
    and "0 \<le> t0" and "t0 < now" and "now < 2 ^ 62" and "now - t0 < 2 ^ 32" and "0 \<le> t1" and "t1 < 2 ^ 62" and "0 \<le> t2" and "t2 < 2 ^ 62"
  shows "\<exists>s1 r1 s2 q p pre. S_Process parses m t0 u0 None s = Some s1 \<and> s_calls s1 = s_calls s @ [Datagram (the (s_dst s)) q] \<and> S_ok (Suc k) s1 \<and>
     R_Process m' t1 u1 (Some (the (r_dst r), q)) r = Some r1 \<and> r_calls r1 = r_calls r @ pre @ [Datagram (the (r_dst r)) p] \<and>
     S_Process parses m t2 now (Some (the (s_dst s'), p)) s' = Some s2 \<and> s_rtt_num s2 = s_rtt_num s' + 1 \<and>
     s_sum_rtt s2 = s_sum_rtt s' + max 5 (now - t0) \<and> s_rtt s2 = smooth (s_rtt s') (word_of_int (max 5 (now - t0)))"
proof -
  have t: "t0 < 2 ^ 62" "0 \<le> now - t0" using assms by auto
  have k: "uint (keep (word_of_int (now - t0))) = max 5 (now - t0)" using keep_time [OF t(2)] assms by simp
  then have w: "keep (word_of_int (now - t0)) = word_of_int (max 5 (now - t0))" by (metis word_of_int_uint)
  have rd: "S_ready s" "s_dst s = Some (the (s_dst s))" "R_ready r" "r_dst r = Some (the (r_dst r))" "S_ready s'" "s_dst s' = Some (the (s_dst s'))"
    using assms(3,6,7,8) by (auto simp: S_ok_def S_ready_def R_ok_def R_ready_def)
  have n: "0 \<le> s_rtt_num s'" "s_rtt_num s' < 2 ^ 30" "0 \<le> s_sum_rtt s'" "s_sum_rtt s' \<le> 2 ^ 62" "s_rtt_num s' = 0 \<longrightarrow> s_sum_rtt s' = 0"
    using S_ok_statistics [OF assms(8,9)] by blast+
  from spr.measures [OF assms(1,2) rd(1,2) assms(5) rd(3-6) assms(10) t(1) assms(14-17,11,12) n, of parses u0 u1] k w obtain s1 r1 s2 q p pre where
    x: "S_Process parses m t0 u0 None s = Some s1" "s_calls s1 = s_calls s @ [Datagram (the (s_dst s)) q]"
      "R_Process m' t1 u1 (Some (the (r_dst r), q)) r = Some r1" "r_calls r1 = r_calls r @ pre @ [Datagram (the (r_dst r)) p]"
      "S_Process parses m t2 now (Some (the (s_dst s'), p)) s' = Some s2" "s_rtt_num s2 = s_rtt_num s' + 1"
      "s_sum_rtt s2 = s_sum_rtt s' + max 5 (now - t0)" "s_rtt s2 = smooth (s_rtt s') (word_of_int (max 5 (now - t0)))" by auto
  have "S_receive parses m u None = Some" for u by (rule ext) (rule receive_nothing [OF assms(1)])
  then have "S_Process parses m t0 0 None s = Some s1" using x(1) by (simp add: S_Process_split [OF rd(1) assms(10) t(1)])
  with S_event_keeps [OF assms(1,3,4), of parses "(t0, 0, None)"] assms(10) t(1) have "S_ok (Suc k) s1" by auto
  with x show ?thesis by blast
qed

lemma demo_statistics: "r_rtt_num demo_receiver = 0" "r_sum_rtt demo_receiver = 0"
  by (auto simp: demo_receiver_def Receiver_def split: prod.splits)

theorem ping_measures_round_trip_witness:
  "\<exists>s1 r1 s2 q p pre. S_Process (\<lambda>_. True) demo_machine 1000 0 None demo_sender = Some s1 \<and> s_calls s1 = [Datagram home q] \<and>
     R_Process demo_machine 1020 0 (Some (home, q)) demo_receiver = Some r1 \<and> r_calls r1 = pre @ [Datagram home p] \<and>
     S_Process (\<lambda>_. True) demo_machine 1040 1041 (Some (home, p)) (demo_sender\<lparr>s_rtt_num := 3, s_sum_rtt := 900, s_rtt := 300\<rparr>) = Some s2 \<and>
     s_sum_rtt s2 = 941"
proof -
  let ?s' = "demo_sender\<lparr>s_rtt_num := 3, s_sum_rtt := 900, s_rtt := 300\<rparr>"
  have "S_ok 3 ?s'" "S_ok 0 demo_sender" "R_ok 0 demo_receiver" "r_session_connected demo_receiver" "s_dst ?s' = Some home" "s_sum_rtt ?s' = 900"
    using demo_peers demo_statistics by (auto simp: S_ok_def R_ok_def S_ready_def R_ready_def)
  moreover have "S_due 1000 demo_sender" by (simp add: demo_peers S_due_def)
  ultimately show ?thesis
    using ping_measures_round_trip [OF demo_ready(1,1), where k = 0 and j = 0 and k' = 3 and s = demo_sender and r = demo_receiver and s' = ?s'
      and ?t0.0 = 1000 and now = 1041 and ?t1.0 = 1020 and ?t2.0 = 1040 and parses = "\<lambda>_. True" and ?u0.0 = 0 and ?u1.0 = 0] demo_peers
    by auto
qed

text \<open>
  A feedback packet the library cannot parse. \<open>InnerProcessFeedback\<close> dereferences the result of \<open>ParseFrom\<close> without looking at it: any datagram
  that names itself feedback, with a correct checksum and up to 1000 bytes the library rejects, makes the sender follow a null pointer.
\<close>

theorem unparsable_feedback:
  assumes "machine_ready m" and "S_ready s" and "0 \<le> t" and "t < 2 ^ 62" and "wf_body (Feedback fb)"
    and "\<not> parses (take (unat (fb_feedback_size fb)) (fb_feedback fb))"
  shows "S_Process parses m t t' (Some (a, msg_bytes (INIT_SIM_HEADER SIM_FEEDBACK u) (Feedback fb))) s = None"
proof -
  let ?h = "INIT_SIM_HEADER SIM_FEEDBACK u"
  have len: "length (msg_bytes ?h (Feedback fb)) \<le> DEFAULT_PACKET_SIZE"
    using assms(5) by (simp add: msg_bytes_def Let_def header_bytes_def data_bytes_def min_def DEFAULT_PACKET_SIZE_def SIM_FEEDBACK_SIZE_def)
  from S_tick_ok [OF assms(1-4)] obtain s1 where s1: "S_tick m t s = Some s1" by blast
  from arrived_msg [OF assms(1) _ assms(5) _ local_feedback_room [of m] len, where strm = "s_stream s1" and ?h0.0 = "local_header m"] obtain q1 q2 where
    q: "sim_decode_header m (arrived m (s_stream s1) (msg_bytes ?h (Feedback fb))) (local_header m) = Some ((0, ?h), q1)"
      "sim_decode_msg m q1 ?h (Feedback (local_feedback m)) = Some ((0, received (Feedback (local_feedback m)) (Feedback fb)), q2)" by auto
  have "length (fb_feedback fb) = 1000" "length (fb_feedback (local_feedback m)) = 1000" "unat (fb_feedback_size fb) \<le> 1000"
    using assms(5) local_feedback_room [of m] by (simp_all add: SIM_FEEDBACK_SIZE_def)
  then have "InnerProcessFeedback parses (fb\<lparr>fb_feedback := fill (unat (fb_feedback_size fb)) (fb_feedback fb) (fb_feedback (local_feedback m))\<rparr>) s2 = None" for s2
    using assms(6) by (simp add: InnerProcessFeedback_def peek_in fill_def)
  with q s1 show ?thesis
    by (simp add: S_Process_split [OF assms(2-4)] S_receive_bytes [OF assms(1)] S_ProcessingMsg_def msg_ids)
qed

theorem unparsable_feedback_witness:
  "S_Process (\<lambda>bs. 20 \<le> length bs) demo_machine 0 0 (Some (home, msg_bytes (INIT_SIM_HEADER SIM_FEEDBACK 7)
     (Feedback \<lparr>fb_base_packet_id = 0, fb_feedback_size = 3, fb_feedback = replicate 1000 0\<rparr>))) demo_sender = None"
  by (rule unparsable_feedback [OF demo_ready(1) demo_peers(1)]) (simp_all add: SIM_FEEDBACK_SIZE_def)

lemma feedback_taken:
  assumes m: "machine_ready m" and b: "wf_body (Feedback fb)" and p: "parses (take (unat (fb_feedback_size fb)) (fb_feedback fb))"
  shows "S_ProcessingMsg parses m t (arrived m strm (msg_bytes (INIT_SIM_HEADER SIM_FEEDBACK u) (Feedback fb))) s =
     Some (s\<lparr>s_calls := s_calls s @ [OnTransportFeedback (take (unat (fb_feedback_size fb)) (fb_feedback fb))]\<rparr>)"
proof -
  let ?h = "INIT_SIM_HEADER SIM_FEEDBACK u"
  have len: "length (msg_bytes ?h (Feedback fb)) \<le> DEFAULT_PACKET_SIZE"
    using b by (simp add: msg_bytes_def Let_def header_bytes_def data_bytes_def min_def DEFAULT_PACKET_SIZE_def SIM_FEEDBACK_SIZE_def)
  from arrived_msg [OF m _ b _ local_feedback_room [of m] len, where strm = strm and ?h0.0 = "local_header m"] obtain q1 q2 where
    q: "sim_decode_header m (arrived m strm (msg_bytes ?h (Feedback fb))) (local_header m) = Some ((0, ?h), q1)"
      "sim_decode_msg m q1 ?h (Feedback (local_feedback m)) = Some ((0, received (Feedback (local_feedback m)) (Feedback fb)), q2)" by auto
  have "length (fb_feedback fb) = 1000" "length (fb_feedback (local_feedback m)) = 1000" "unat (fb_feedback_size fb) \<le> 1000"
    using b local_feedback_room [of m] by (simp_all add: SIM_FEEDBACK_SIZE_def)
  then have "InnerProcessFeedback parses (fb\<lparr>fb_feedback := fill (unat (fb_feedback_size fb)) (fb_feedback fb) (fb_feedback (local_feedback m))\<rparr>) s =
      Some (s\<lparr>s_calls := s_calls s @ [OnTransportFeedback (take (unat (fb_feedback_size fb)) (fb_feedback fb))]\<rparr>)"
    using p by (simp add: InnerProcessFeedback_def peek_in fill_def)
  with q show ?thesis by (simp add: S_ProcessingMsg_def msg_ids)
qed

text \<open>
  C27: the feedback of the receiver reaches the controller of the sender. A packet the library builds, of at most 1000 bytes, goes out in one
  datagram, which \<open>Process\<close> of the sender hands to the controller byte for byte when the library can parse it; a longer one is refused, nothing is sent.
\<close>

theorem feedback_delivered:
  assumes "machine_ready m" and "machine_ready m'" and "R_ready r" and "r_dst r = Some B" and "S_ready s" and "0 \<le> t" and "t < 2 ^ 62"
    and "parses (Build (r_uid r))" and "length (Build (r_uid r)) < 2 ^ 32"
  shows "if length (Build (r_uid r)) \<le> 1000
     then \<exists>r' bs s' pings. R_SendTransportFeedback m Build r = Some (True, r') \<and> r_calls r' = r_calls r @ [Datagram B bs] \<and>
        S_Process parses m' t t' (Some (A, bs)) s = Some s' \<and> s_calls s' = s_calls s @ pings @ [OnTransportFeedback (Build (r_uid r))]
     else R_SendTransportFeedback m Build r = Some (False, r)"
proof (cases "length (Build (r_uid r)) \<le> 1000")
  case False
  then have "of_nat (length (Build (r_uid r))) > (of_nat SIM_FEEDBACK_SIZE :: u32)"
    using assms(9) by (simp add: word_less_nat_alt unat_of_nat SIM_FEEDBACK_SIZE_def)
  with False show ?thesis by (simp add: R_SendTransportFeedback_def Let_def)
next
  case True
  let ?p = "Build (r_uid r)"
  let ?fb = "\<lparr>fb_base_packet_id = r_base_seq r, fb_feedback_size = of_nat (length ?p), fb_feedback = ?p @ drop (length ?p) (local_bytes m SIM_FEEDBACK_SIZE)\<rparr>"
  have n: "unat (of_nat (length ?p) :: u32) = length ?p" "unat (of_nat (length ?p) :: u16) = length ?p" using True by (simp_all add: unat_of_nat)
  have "ucast (of_nat (length ?p) :: u32) = (of_nat (length ?p) :: u16)" using n True by (simp add: word_unat_eq_iff unsigned_ucast_eq take_bit_nat_eq_self)
  note n = n this
  have wf: "wf_body (Feedback ?fb)" using True n by (simp add: SIM_FEEDBACK_SIZE_def local_bytes_def)
  have w: "stream_r (r_stream r)" "0 < ssize (r_stream r)" using assms(3) by (simp_all add: R_ready_def stream_w_def)
  from encode_anywhere [OF assms(1) w _ wf, of "INIT_SIM_HEADER SIM_FEEDBACK (r_uid r)"] obtain st where
    st: "sim_encode_msg m (r_stream r) (INIT_SIM_HEADER SIM_FEEDBACK (r_uid r)) (Feedback ?fb) = Some st" "stream_w st"
      "contents st = msg_bytes (INIT_SIM_HEADER SIM_FEEDBACK (r_uid r)) (Feedback ?fb)" by auto
  have "poke (local_bytes m SIM_FEEDBACK_SIZE) 0 ?p = Some (fb_feedback ?fb)" using True by (simp add: poke_in local_bytes_def SIM_FEEDBACK_SIZE_def)
  moreover have "\<not> of_nat (length ?p) > (of_nat SIM_FEEDBACK_SIZE :: u32)" using True n by (simp add: word_less_nat_alt SIM_FEEDBACK_SIZE_def)
  ultimately have send: "R_SendTransportFeedback m Build r = Some (True, r\<lparr>r_stream := st, r_calls := r_calls r @ [Datagram B (contents st)]\<rparr>)"
    using n st(1,2) assms(4) by (simp add: R_SendTransportFeedback_def Let_def R_send)
  from S_tick_ok [OF assms(2,5-7)] obtain s1 pings where s1: "S_tick m' t s = Some s1" "s_calls s1 = s_calls s @ pings" by blast
  have "parses (take (unat (fb_feedback_size ?fb)) (fb_feedback ?fb))" "take (unat (fb_feedback_size ?fb)) (fb_feedback ?fb) = ?p"
    using n assms(8) by simp_all
  with feedback_taken [OF assms(2) wf, of parses] s1 have
    "\<exists>s'. S_Process parses m' t t' (Some (A, contents st)) s = Some s' \<and> s_calls s' = s_calls s @ pings @ [OnTransportFeedback ?p]"
    unfolding st(3) S_Process_split [OF assms(5-7)] by (simp add: S_receive_bytes [OF assms(2)])
  with send True show ?thesis by auto
qed

theorem feedback_delivered_witness:
  "\<exists>r' bs s'. R_SendTransportFeedback demo_machine (\<lambda>u. [1, 2, 3]) demo_receiver = Some (True, r') \<and> r_calls r' = [Datagram home bs] \<and>
     S_Process (\<lambda>_. True) demo_machine 0 0 (Some (home, bs)) demo_sender = Some s' \<and> OnTransportFeedback [1, 2, 3] \<in> set (s_calls s')"
  using feedback_delivered [OF demo_ready(1,1) demo_peers(9,10,1), of 0 "\<lambda>_. True" "\<lambda>_. [1, 2, 3]" 0 home] by (auto simp: demo_peers)

end
