(* ===== verification/Quic_Io.thy ===== *)
theory Quic_Io
  imports Prelude "HOL-Library.Monad_Syntax"
begin

text \<open>
  What the QUIC framer (\<^verbatim>\<open>quic-test/myquic/my_quic_framer.cc\<close>) uses of the Chromium QUIC library, which is
  not part of the repository: the values of its enumerators and the classes \<open>QuicDataReader\<close>,
  \<open>QuicDataWriter\<close>. They are parameters of the framer's definitions, gathered in one record. Their
  documented behaviour is stated by the predicates \<open>reader_documented\<close>, \<open>writer_documented\<close> and
  \<open>enums_documented\<close>, which the framer's properties take as hypotheses, relative to a view of
  readers and writers as byte strings and of the encodings of integers. Nothing else is assumed.

  The second half gives the composition rules for reading and writing that the framer's lemmas use.
\<close>

section \<open>The library's interface\<close>

datatype Endianness = NETWORK_BYTE_ORDER | HOST_BYTE_ORDER

datatype Perspective = IS_SERVER | IS_CLIENT

text \<open>The enumerators the framer names, by the enumeration they belong to; their values are parameters.\<close>

datatype version_enum = QUIC_VERSION_UNSUPPORTED | QUIC_VERSION_37 | QUIC_VERSION_38 | QUIC_VERSION_41

datatype length_enum =
    PACKET_0BYTE_CONNECTION_ID | PACKET_8BYTE_CONNECTION_ID
  | PACKET_1BYTE_PACKET_NUMBER | PACKET_2BYTE_PACKET_NUMBER | PACKET_4BYTE_PACKET_NUMBER
  | PACKET_6BYTE_PACKET_NUMBER | PACKET_8BYTE_PACKET_NUMBER
  | MaxPacketSize | PublicFlagsSize | PacketHeaderTypeSize | QuicVersionSize
  | DiversificationNonceSize | QuicPathFrameBufferSize

datatype flag_enum =
    PACKET_FLAGS_1BYTE_PACKET | PACKET_FLAGS_2BYTE_PACKET | PACKET_FLAGS_4BYTE_PACKET | PACKET_FLAGS_8BYTE_PACKET
  | PACKET_PUBLIC_FLAGS_0BYTE_CONNECTION_ID | PACKET_PUBLIC_FLAGS_8BYTE_CONNECTION_ID
  | PACKET_PUBLIC_FLAGS_8BYTE_CONNECTION_ID_OLD | PACKET_PUBLIC_FLAGS_MAX | PACKET_PUBLIC_FLAGS_NONCE
  | PACKET_PUBLIC_FLAGS_RST | PACKET_PUBLIC_FLAGS_VERSION
  | SHORT_HEADER_1_BYTE_PACKET_NUMBER | SHORT_HEADER_2_BYTE_PACKET_NUMBER | SHORT_HEADER_4_BYTE_PACKET_NUMBER
  | FLAGS_LONG_HEADER | VERSION_NEGOTIATION

datatype frame_enum =
    PADDING_FRAME | RST_STREAM_FRAME | CONNECTION_CLOSE_FRAME | GOAWAY_FRAME | WINDOW_UPDATE_FRAME | BLOCKED_FRAME
  | STOP_WAITING_FRAME | PING_FRAME

datatype ietf_enum =
    IETF_ACK | IETF_APPLICATION_CLOSE | IETF_BLOCKED | IETF_CONNECTION_CLOSE | IETF_MAX_DATA | IETF_MAX_STREAM_DATA
  | IETF_MAX_STREAM_ID | IETF_PATH_CHALLENGE | IETF_PATH_RESPONSE | IETF_RST_STREAM | IETF_STOP_SENDING | IETF_STREAM
  | IETF_STREAM_BLOCKED | IETF_STREAM_ID_BLOCKED
  | IETF_STREAM_FRAME_FIN_BIT | IETF_STREAM_FRAME_LEN_BIT | IETF_STREAM_FRAME_OFF_BIT

datatype level_enum = ENCRYPTION_NONE | ENCRYPTION_INITIAL | NUM_ENCRYPTION_LEVELS

datatype error_enum =
    QUIC_NO_ERROR | QUIC_INTERNAL_ERROR | QUIC_INVALID_PACKET_HEADER | QUIC_INVALID_FRAME_DATA | QUIC_MISSING_PAYLOAD
  | QUIC_INVALID_STREAM_DATA | QUIC_INVALID_RST_STREAM_DATA | QUIC_INVALID_CONNECTION_CLOSE_DATA
  | QUIC_INVALID_GOAWAY_DATA | QUIC_INVALID_WINDOW_UPDATE_DATA | QUIC_INVALID_BLOCKED_DATA
  | QUIC_INVALID_STOP_WAITING_DATA | QUIC_INVALID_ACK_DATA | QUIC_INVALID_VERSION_NEGOTIATION_PACKET
  | QUIC_INVALID_PUBLIC_RST_PACKET | QUIC_DECRYPTION_FAILURE | QUIC_ENCRYPTION_FAILURE | QUIC_PACKET_TOO_LARGE
  | QUIC_LAST_ERROR | QUIC_STREAM_LAST_ERROR

text \<open>
  A read returns the value and the advanced reader, or \<open>None\<close> (the method returned false; the framer
  never uses a reader again after that). A write returns the extended writer or \<open>None\<close>. \<open>written\<close> is
  the filled part of the buffer that the framer passed to the writer. A \<open>PacketNumberQueue\<close> is the list
  of its half-open intervals from the highest down, the order in which the framer walks through it;
  \<open>LargestAcked\<close> is applied to the largest-acked field and the packets of an ack frame.
\<close>

record ('r, 'w) quic =
  ver :: "version_enum \<Rightarrow> nat"
  len :: "length_enum \<Rightarrow> nat"
  flag :: "flag_enum \<Rightarrow> u8"
  ftype :: "frame_enum \<Rightarrow> u8"
  ietf :: "ietf_enum \<Rightarrow> u8"
  level :: "level_enum \<Rightarrow> nat"
  errc :: "error_enum \<Rightarrow> u32"
  kUFloat16MaxValue :: u64
  new_reader :: "bytes \<Rightarrow> Endianness \<Rightarrow> 'r"
  set_endianness :: "Endianness \<Rightarrow> 'r \<Rightarrow> 'r"
  ReadUInt8 :: "'r \<Rightarrow> (u8 \<times> 'r) option"
  ReadUInt16 :: "'r \<Rightarrow> (u16 \<times> 'r) option"
  ReadUInt32 :: "'r \<Rightarrow> (u32 \<times> 'r) option"
  ReadUInt64 :: "'r \<Rightarrow> (u64 \<times> 'r) option"
  ReadBytesToUInt64 :: "nat \<Rightarrow> 'r \<Rightarrow> (u64 \<times> 'r) option"
  ReadUFloat16 :: "'r \<Rightarrow> (u64 \<times> 'r) option"
  ReadVarInt62 :: "'r \<Rightarrow> (u64 \<times> 'r) option"
  ReadVarIntStreamId :: "'r \<Rightarrow> (u32 \<times> 'r) option"
  ReadConnectionId :: "'r \<Rightarrow> (u64 \<times> 'r) option"
  ReadTag :: "'r \<Rightarrow> (u32 \<times> 'r) option"
  ReadStringPiece16 :: "'r \<Rightarrow> (bytes \<times> 'r) option"
  ReadStringPiece :: "nat \<Rightarrow> 'r \<Rightarrow> (bytes \<times> 'r) option"
  ReadBytes :: "nat \<Rightarrow> 'r \<Rightarrow> (bytes \<times> 'r) option"
  ReadRemainingPayload :: "'r \<Rightarrow> bytes \<times> 'r"
  IsDoneReading :: "'r \<Rightarrow> bool"
  BytesRemaining :: "'r \<Rightarrow> nat"
  PeekByte :: "'r \<Rightarrow> u8"
  new_writer :: "nat \<Rightarrow> Endianness \<Rightarrow> 'w"
  WriteUInt8 :: "u8 \<Rightarrow> 'w \<Rightarrow> 'w option"
  WriteUInt16 :: "u16 \<Rightarrow> 'w \<Rightarrow> 'w option"
  WriteUInt32 :: "u32 \<Rightarrow> 'w \<Rightarrow> 'w option"
  WriteUInt64 :: "u64 \<Rightarrow> 'w \<Rightarrow> 'w option"
  WriteBytesToUInt64 :: "nat \<Rightarrow> u64 \<Rightarrow> 'w \<Rightarrow> 'w option"
  WriteUFloat16 :: "u64 \<Rightarrow> 'w \<Rightarrow> 'w option"
  WriteVarInt62 :: "u64 \<Rightarrow> 'w \<Rightarrow> 'w option"
  WriteConnectionId :: "u64 \<Rightarrow> 'w \<Rightarrow> 'w option"
  WriteTag :: "u32 \<Rightarrow> 'w \<Rightarrow> 'w option"
  WriteStringPiece16 :: "bytes \<Rightarrow> 'w \<Rightarrow> 'w option"
  WriteBytes :: "bytes \<Rightarrow> 'w \<Rightarrow> 'w option"
  WritePaddingBytes :: "nat \<Rightarrow> 'w \<Rightarrow> 'w option"
  WritePadding :: "'w \<Rightarrow> 'w"
  WriteUInt8AtOffset :: "u8 \<Rightarrow> nat \<Rightarrow> 'w \<Rightarrow> 'w option"
  capacity :: "'w \<Rightarrow> nat"
  wlength :: "'w \<Rightarrow> nat"
  written :: "'w \<Rightarrow> bytes"
  AddRange :: "u64 \<Rightarrow> u64 \<Rightarrow> (u64 \<times> u64) list \<Rightarrow> (u64 \<times> u64) list"
  LargestAckedOf :: "u64 \<Rightarrow> (u64 \<times> u64) list \<Rightarrow> u64"
  HostToNet32 :: "u32 \<Rightarrow> u32"
  NetToHost32 :: "u32 \<Rightarrow> u32"

section \<open>Its documented behaviour\<close>

text \<open>
  A view: the unread bytes and the byte order of a reader, the byte order of a writer, and the byte
  strings that stand for integers (of a width, of the variable-length form, as a 16-bit float, as a
  tag, as a connection id). A 16-bit float is lossy: \<open>ufloat_trip\<close> is the value that comes back.
\<close>

record ('r, 'w) view =
  rest :: "'r \<Rightarrow> bytes"
  rorder :: "'r \<Rightarrow> Endianness"
  worder :: "'w \<Rightarrow> Endianness"
  int_enc :: "Endianness \<Rightarrow> nat \<Rightarrow> u64 \<Rightarrow> bytes"
  var_enc :: "u64 \<Rightarrow> bytes"
  ufloat_enc :: "Endianness \<Rightarrow> u64 \<Rightarrow> bytes"
  ufloat_trip :: "u64 \<Rightarrow> u64"
  tag_enc :: "u32 \<Rightarrow> bytes"
  cid_enc :: "u64 \<Rightarrow> bytes"

text \<open>A write appends these bytes when they fit in the buffer and fails otherwise.\<close>

definition emits :: "('r, 'w) quic \<Rightarrow> ('r, 'w) view \<Rightarrow> Endianness \<Rightarrow> ('w \<Rightarrow> 'w option) \<Rightarrow> bytes \<Rightarrow> bool" where
  "emits q V e f bs \<longleftrightarrow>
     (\<forall>w. worder V w = e \<longrightarrow>
        (length (written q w) + length bs \<le> capacity q w \<longrightarrow>
           (\<exists>w'. f w = Some w' \<and> written q w' = written q w @ bs \<and> capacity q w' = capacity q w \<and> worder V w' = e)) \<and>
        (\<not> length (written q w) + length bs \<le> capacity q w \<longrightarrow> f w = None))"

text \<open>A read of a reader that starts with these bytes gives this value and leaves the rest.\<close>

definition parses :: "('r, 'w) view \<Rightarrow> Endianness \<Rightarrow> ('r \<Rightarrow> ('a \<times> 'r) option) \<Rightarrow> bytes \<Rightarrow> 'a \<Rightarrow> bool" where
  "parses V e g bs v \<longleftrightarrow>
     (\<forall>r left. rorder V r = e \<longrightarrow> rest V r = bs @ left \<longrightarrow>
        (\<exists>r'. g r = Some (v, r') \<and> rest V r' = left \<and> rorder V r' = e))"

text \<open>A read that needs \<open>n\<close> bytes takes exactly these, and fails exactly when they are not there.\<close>

definition consumes :: "('r, 'w) view \<Rightarrow> ('r \<Rightarrow> ('a \<times> 'r) option) \<Rightarrow> nat \<Rightarrow> bool" where
  "consumes V g n \<longleftrightarrow>
     (\<forall>r. if n \<le> length (rest V r)
          then \<exists>v r'. g r = Some (v, r') \<and> rest V r' = drop n (rest V r) \<and> rorder V r' = rorder V r
          else g r = None)"

text \<open>A read of variable length moves forward when it succeeds.\<close>

definition advances :: "('r, 'w) view \<Rightarrow> ('r \<Rightarrow> ('a \<times> 'r) option) \<Rightarrow> bool" where
  "advances V g \<longleftrightarrow>
     (\<forall>r v r'. g r = Some (v, r') \<longrightarrow> (\<exists>n > 0. n \<le> length (rest V r) \<and> rest V r' = drop n (rest V r)) \<and> rorder V r' = rorder V r)"

definition encodings_documented :: "('r, 'w) view \<Rightarrow> bool" where
  "encodings_documented V \<longleftrightarrow>
     (\<forall>e n v. n \<le> 8 \<longrightarrow> length (int_enc V e n v) = n) \<and> (\<forall>v. var_enc V v \<noteq> []) \<and>
     (\<forall>e v. length (ufloat_enc V e v) = 2) \<and> (\<forall>v. length (tag_enc V v) = 4) \<and> (\<forall>v. length (cid_enc V v) = 8)"

definition writer_documented :: "('r, 'w) quic \<Rightarrow> ('r, 'w) view \<Rightarrow> bool" where
  "writer_documented q V \<longleftrightarrow>
     (\<forall>n e. written q (new_writer q n e) = [] \<and> capacity q (new_writer q n e) = n \<and> worder V (new_writer q n e) = e) \<and>
     (\<forall>w. wlength q w = length (written q w) \<and> length (written q w) \<le> capacity q w) \<and>
     (\<forall>e v. emits q V e (WriteUInt8 q v) [v]) \<and>
     (\<forall>e v. emits q V e (WriteUInt16 q v) (int_enc V e 2 (ucast v))) \<and>
     (\<forall>e v. emits q V e (WriteUInt32 q v) (int_enc V e 4 (ucast v))) \<and>
     (\<forall>e v. emits q V e (WriteUInt64 q v) (int_enc V e 8 v)) \<and>
     (\<forall>e n v. n \<le> 8 \<longrightarrow> emits q V e (WriteBytesToUInt64 q n v) (int_enc V e n v)) \<and>
     (\<forall>e v. emits q V e (WriteUFloat16 q v) (ufloat_enc V e v)) \<and>
     (\<forall>e v. v < 2 ^ 62 \<longrightarrow> emits q V e (WriteVarInt62 q v) (var_enc V v)) \<and>
     (\<forall>e v. emits q V e (WriteConnectionId q v) (cid_enc V v)) \<and>
     (\<forall>e v. emits q V e (WriteTag q v) (tag_enc V v)) \<and>
     (\<forall>e bs. length bs < 2 ^ 16 \<longrightarrow> emits q V e (WriteStringPiece16 q bs) (int_enc V e 2 (of_nat (length bs)) @ bs)) \<and>
     (\<forall>e bs. emits q V e (WriteBytes q bs) bs) \<and>
     (\<forall>e n. emits q V e (WritePaddingBytes q n) (replicate n 0)) \<and>
     (\<forall>w. written q (WritePadding q w) = written q w @ replicate (capacity q w - length (written q w)) 0 \<and>
          capacity q (WritePadding q w) = capacity q w \<and> worder V (WritePadding q w) = worder V w) \<and>
     (\<forall>w v i. i < length (written q w) \<longrightarrow>
          (\<exists>w'. WriteUInt8AtOffset q v i w = Some w' \<and> written q w' = (written q w)[i := v] \<and>
                capacity q w' = capacity q w \<and> worder V w' = worder V w))"

definition reader_documented :: "('r, 'w) quic \<Rightarrow> ('r, 'w) view \<Rightarrow> bool" where
  "reader_documented q V \<longleftrightarrow>
     (\<forall>bs e. rest V (new_reader q bs e) = bs \<and> rorder V (new_reader q bs e) = e) \<and>
     (\<forall>e r. rest V (set_endianness q e r) = rest V r \<and> rorder V (set_endianness q e r) = e) \<and>
     (\<forall>r. IsDoneReading q r = (rest V r = []) \<and> BytesRemaining q r = length (rest V r)) \<and>
     (\<forall>r. rest V r \<noteq> [] \<longrightarrow> PeekByte q r = hd (rest V r)) \<and>
     (\<forall>r. fst (ReadRemainingPayload q r) = rest V r \<and> rest V (snd (ReadRemainingPayload q r)) = [] \<and>
          rorder V (snd (ReadRemainingPayload q r)) = rorder V r) \<and>
     (\<forall>e v. parses V e (ReadUInt8 q) [v] v) \<and> consumes V (ReadUInt8 q) 1 \<and>
     (\<forall>e v. parses V e (ReadUInt16 q) (int_enc V e 2 (ucast v)) v) \<and> consumes V (ReadUInt16 q) 2 \<and>
     (\<forall>e v. parses V e (ReadUInt32 q) (int_enc V e 4 (ucast v)) v) \<and> consumes V (ReadUInt32 q) 4 \<and>
     (\<forall>e v. parses V e (ReadUInt64 q) (int_enc V e 8 v) v) \<and> consumes V (ReadUInt64 q) 8 \<and>
     (\<forall>e n v. n \<le> 8 \<longrightarrow> parses V e (ReadBytesToUInt64 q n) (int_enc V e n v) (take_bit (8 * n) v)) \<and>
     (\<forall>n. n \<le> 8 \<longrightarrow> consumes V (ReadBytesToUInt64 q n) n) \<and>
     (\<forall>e v. parses V e (ReadUFloat16 q) (ufloat_enc V e v) (ufloat_trip V v)) \<and> consumes V (ReadUFloat16 q) 2 \<and>
     (\<forall>e v. v < 2 ^ 62 \<longrightarrow> parses V e (ReadVarInt62 q) (var_enc V v) v) \<and> advances V (ReadVarInt62 q) \<and>
     (\<forall>e v. parses V e (ReadVarIntStreamId q) (var_enc V (ucast v)) v) \<and> advances V (ReadVarIntStreamId q) \<and>
     (\<forall>e v. parses V e (ReadConnectionId q) (cid_enc V v) v) \<and> consumes V (ReadConnectionId q) 8 \<and>
     (\<forall>e v. parses V e (ReadTag q) (tag_enc V v) v) \<and> consumes V (ReadTag q) 4 \<and>
     (\<forall>e bs. length bs < 2 ^ 16 \<longrightarrow>
        parses V e (ReadStringPiece16 q) (int_enc V e 2 (of_nat (length bs)) @ bs) bs) \<and> advances V (ReadStringPiece16 q) \<and>
     (\<forall>e bs. parses V e (ReadStringPiece q (length bs)) bs bs) \<and> (\<forall>n. consumes V (ReadStringPiece q n) n) \<and>
     (\<forall>e bs. parses V e (ReadBytes q (length bs)) bs bs) \<and> (\<forall>n. consumes V (ReadBytes q n) n) \<and>
     (\<forall>l ps. LargestAckedOf q l ps = l) \<and>
     (\<forall>v. NetToHost32 q (HostToNet32 q v) = v \<and> NetToHost32 q (NetToHost32 q v) = v)"

definition enums_documented :: "('r, 'w) quic \<Rightarrow> bool" where
  "enums_documented q \<longleftrightarrow>
     map (ver q) [QUIC_VERSION_37, QUIC_VERSION_38, QUIC_VERSION_41] = [37, 38, 41] \<and>
     map (len q) [PACKET_0BYTE_CONNECTION_ID, PACKET_8BYTE_CONNECTION_ID] = [0, 8] \<and>
     map (len q) [PACKET_1BYTE_PACKET_NUMBER, PACKET_2BYTE_PACKET_NUMBER, PACKET_4BYTE_PACKET_NUMBER,
                  PACKET_6BYTE_PACKET_NUMBER, PACKET_8BYTE_PACKET_NUMBER] = [1, 2, 4, 6, 8] \<and>
     map (len q) [PublicFlagsSize, PacketHeaderTypeSize, QuicVersionSize, DiversificationNonceSize,
                  QuicPathFrameBufferSize] = [1, 1, 4, 32, 8] \<and>
     map (flag q) [PACKET_FLAGS_1BYTE_PACKET, PACKET_FLAGS_2BYTE_PACKET, PACKET_FLAGS_4BYTE_PACKET,
                   PACKET_FLAGS_8BYTE_PACKET] = [0, 1, 2, 3] \<and>
     map (flag q) [PACKET_PUBLIC_FLAGS_VERSION, PACKET_PUBLIC_FLAGS_RST, PACKET_PUBLIC_FLAGS_NONCE,
                   PACKET_PUBLIC_FLAGS_0BYTE_CONNECTION_ID, PACKET_PUBLIC_FLAGS_8BYTE_CONNECTION_ID,
                   PACKET_PUBLIC_FLAGS_8BYTE_CONNECTION_ID_OLD, PACKET_PUBLIC_FLAGS_MAX]
       = [0x01, 0x02, 0x04, 0x00, 0x08, 0x0C, 0x3F] \<and>
     map (ftype q) [PADDING_FRAME, RST_STREAM_FRAME, CONNECTION_CLOSE_FRAME, GOAWAY_FRAME, WINDOW_UPDATE_FRAME,
                    BLOCKED_FRAME, STOP_WAITING_FRAME, PING_FRAME] = [0, 1, 2, 3, 4, 5, 6, 7] \<and>
     map (ietf q) [IETF_STREAM, IETF_STREAM_FRAME_FIN_BIT, IETF_STREAM_FRAME_LEN_BIT, IETF_STREAM_FRAME_OFF_BIT]
       = [0x10, 0x01, 0x02, 0x04]"

definition documented :: "('r, 'w) quic \<Rightarrow> ('r, 'w) view \<Rightarrow> bool" where
  "documented q V \<longleftrightarrow>
     enums_documented q \<and> encodings_documented V \<and> writer_documented q V \<and> reader_documented q V"

section \<open>Composing reads and writes\<close>

text \<open>
  The two idioms of the framer: \<open>if (!reader->Read..(..)) { set_detailed_error(msg); return false; }\<close>
  and \<open>if (!writer->Write..(..)) { set_detailed_error(msg); return false; }\<close>. The left result is the
  message, the right one the value of a function that returned true.
\<close>

definition rd :: "string \<Rightarrow> ('a \<times> 'r) option \<Rightarrow> ('a \<Rightarrow> 'r \<Rightarrow> string + 'b) \<Rightarrow> string + 'b" where
  "rd msg x k = (case x of None \<Rightarrow> Inl msg | Some (v, r) \<Rightarrow> k v r)"

definition wr :: "string \<Rightarrow> 'w option \<Rightarrow> ('w \<Rightarrow> string + 'w) \<Rightarrow> string + 'w" where
  "wr msg x k = (case x of None \<Rightarrow> Inl msg | Some w \<Rightarrow> k w)"

definition decodes :: "('r, 'w) view \<Rightarrow> Endianness \<Rightarrow> ('r \<Rightarrow> string + 'a \<times> 'r) \<Rightarrow> bytes \<Rightarrow> 'a \<Rightarrow> bool" where
  "decodes V e g bs v \<longleftrightarrow>
     (\<forall>r left. rorder V r = e \<longrightarrow> rest V r = bs @ left \<longrightarrow>
        (\<exists>r'. g r = Inr (v, r') \<and> rest V r' = left \<and> rorder V r' = e))"

definition encodes :: "('r, 'w) quic \<Rightarrow> ('r, 'w) view \<Rightarrow> Endianness \<Rightarrow> ('w \<Rightarrow> string + 'w) \<Rightarrow> bytes \<Rightarrow> bool" where
  "encodes q V e f bs \<longleftrightarrow>
     (\<forall>w. worder V w = e \<longrightarrow>
        (length (written q w) + length bs \<le> capacity q w \<longrightarrow>
           (\<exists>w'. f w = Inr w' \<and> written q w' = written q w @ bs \<and> capacity q w' = capacity q w \<and> worder V w' = e)) \<and>
        (\<not> length (written q w) + length bs \<le> capacity q w \<longrightarrow> (\<exists>msg. f w = Inl msg)))"

text \<open>A decoder that never hands back more than it was given.\<close>

definition shrinks :: "('r, 'w) view \<Rightarrow> ('r \<Rightarrow> string + 'a \<times> 'r) \<Rightarrow> bool" where
  "shrinks V g \<longleftrightarrow>
     (\<forall>r v r'. g r = Inr (v, r') \<longrightarrow> length (rest V r') \<le> length (rest V r) \<and> rorder V r' = rorder V r)"

named_theorems io_intros \<open>composition rules for readers and writers\<close>

lemma parsesD:
  "parses V e g bs v \<Longrightarrow> rorder V r = e \<Longrightarrow> rest V r = bs @ left \<Longrightarrow>
     \<exists>r'. g r = Some (v, r') \<and> rest V r' = left \<and> rorder V r' = e"
  by (simp add: parses_def)

lemma decodesD:
  "decodes V e g bs v \<Longrightarrow> rorder V r = e \<Longrightarrow> rest V r = bs @ left \<Longrightarrow>
     \<exists>r'. g r = Inr (v, r') \<and> rest V r' = left \<and> rorder V r' = e"
  by (simp add: decodes_def)

lemma decodes_rd:
  assumes "parses V e g xs v" and "decodes V e (k v) ys w"
  shows "decodes V e (\<lambda>r. rd msg (g r) k) (xs @ ys) w"
  unfolding decodes_def
proof (intro allI impI)
  fix r left
  assume r: "rorder V r = e" "rest V r = (xs @ ys) @ left"
  then obtain r1 where 1: "g r = Some (v, r1)" "rest V r1 = ys @ left" "rorder V r1 = e"
    using parsesD [OF assms(1), of r "ys @ left"] by auto
  from decodesD [OF assms(2) 1(3,2)] 1(1) show "\<exists>r'. rd msg (g r) k = Inr (w, r') \<and> rest V r' = left \<and> rorder V r' = e"
    by (auto simp: rd_def)
qed

lemma decodes_done: "v = w \<Longrightarrow> decodes V e (\<lambda>r. Inr (v, r)) [] w"
  by (simp add: decodes_def)

lemma decodes_if:
  "c \<Longrightarrow> decodes V e f bs v \<Longrightarrow> decodes V e (\<lambda>r. if c then f r else g r) bs v"
  "\<not> c \<Longrightarrow> decodes V e g bs v \<Longrightarrow> decodes V e (\<lambda>r. if c then f r else g r) bs v"
  by simp_all

lemma emits_fit:
  "emits q V e f bs \<Longrightarrow> worder V w = e \<Longrightarrow> length (written q w) + length bs \<le> capacity q w \<Longrightarrow>
     \<exists>w'. f w = Some w' \<and> written q w' = written q w @ bs \<and> capacity q w' = capacity q w \<and> worder V w' = e"
  and emits_full:
  "emits q V e f bs \<Longrightarrow> worder V w = e \<Longrightarrow> \<not> length (written q w) + length bs \<le> capacity q w \<Longrightarrow> f w = None"
  by (simp_all add: emits_def)

lemma encodes_fit:
  "encodes q V e f bs \<Longrightarrow> worder V w = e \<Longrightarrow> length (written q w) + length bs \<le> capacity q w \<Longrightarrow>
     \<exists>w'. f w = Inr w' \<and> written q w' = written q w @ bs \<and> capacity q w' = capacity q w \<and> worder V w' = e"
  and encodes_full:
  "encodes q V e f bs \<Longrightarrow> worder V w = e \<Longrightarrow> \<not> length (written q w) + length bs \<le> capacity q w \<Longrightarrow> \<exists>msg. f w = Inl msg"
  by (simp_all add: encodes_def)

lemma emits_bind:
  assumes f: "emits q V e f xs" and g: "emits q V e g ys"
  shows "emits q V e (\<lambda>w. Option.bind (f w) g) (xs @ ys)"
  unfolding emits_def
proof (intro allI impI)
  fix w
  assume w: "worder V w = e"
  show "(length (written q w) + length (xs @ ys) \<le> capacity q w \<longrightarrow>
      (\<exists>w'. Option.bind (f w) g = Some w' \<and> written q w' = written q w @ xs @ ys \<and>
        capacity q w' = capacity q w \<and> worder V w' = e)) \<and>
    (\<not> length (written q w) + length (xs @ ys) \<le> capacity q w \<longrightarrow> Option.bind (f w) g = None)"
  proof (cases "length (written q w) + length xs \<le> capacity q w")
    case True
    from emits_fit [OF f w True] obtain w1 where 1: "f w = Some w1" "written q w1 = written q w @ xs"
      "capacity q w1 = capacity q w" "worder V w1 = e" by blast
    with emits_fit [OF g 1(4)] emits_full [OF g 1(4)] show ?thesis by auto
  next
    case False
    with emits_full [OF f w] show ?thesis by simp
  qed
qed

lemma emits_nothing: "emits q V e Some []" if "\<And>w. length (written q w) \<le> capacity q w"
  using that by (simp add: emits_def)

lemma emits_if:
  "(c \<Longrightarrow> emits q V e f xs) \<Longrightarrow> (\<not> c \<Longrightarrow> emits q V e g ys) \<Longrightarrow>
     emits q V e (\<lambda>w. if c then f w else g w) (if c then xs else ys)"
  by (cases c) simp_all

lemma encodes_wr:
  assumes f: "emits q V e f xs" and g: "encodes q V e g ys"
  shows "encodes q V e (\<lambda>w. wr msg (f w) g) (xs @ ys)"
  unfolding encodes_def
proof (intro allI impI)
  fix w
  assume w: "worder V w = e"
  show "(length (written q w) + length (xs @ ys) \<le> capacity q w \<longrightarrow>
      (\<exists>w'. wr msg (f w) g = Inr w' \<and> written q w' = written q w @ xs @ ys \<and>
        capacity q w' = capacity q w \<and> worder V w' = e)) \<and>
    (\<not> length (written q w) + length (xs @ ys) \<le> capacity q w \<longrightarrow> (\<exists>m. wr msg (f w) g = Inl m))"
  proof (cases "length (written q w) + length xs \<le> capacity q w")
    case True
    from emits_fit [OF f w True] obtain w1 where 1: "f w = Some w1" "written q w1 = written q w @ xs"
      "capacity q w1 = capacity q w" "worder V w1 = e" by blast
    with encodes_fit [OF g 1(4)] encodes_full [OF g 1(4)] show ?thesis by (auto simp: wr_def)
  next
    case False
    with emits_full [OF f w] show ?thesis by (simp add: wr_def)
  qed
qed

lemma encodes_done: "encodes q V e Inr []" if "\<And>w. length (written q w) \<le> capacity q w"
  using that by (simp add: encodes_def)

lemma shrinks_rd:
  assumes "\<And>r v r'. g r = Some (v, r') \<Longrightarrow> length (rest V r') \<le> length (rest V r) \<and> rorder V r' = rorder V r"
    and "\<And>v. shrinks V (k v)"
  shows "shrinks V (\<lambda>r. rd msg (g r) k)"
  unfolding shrinks_def rd_def
  by (auto split: option.splits dest!: assms(1) assms(2) [unfolded shrinks_def, rule_format])

lemma shrinks_done: "shrinks V (\<lambda>r. Inr (v, r))"
  by (simp add: shrinks_def)

lemma shrinks_fail: "shrinks V (\<lambda>r. Inl msg)"
  by (simp add: shrinks_def)

lemma shrinks_if: "(c \<Longrightarrow> shrinks V f) \<Longrightarrow> (\<not> c \<Longrightarrow> shrinks V g) \<Longrightarrow> shrinks V (\<lambda>r. if c then f r else g r)"
  by (cases c) simp_all

lemma consumes_step:
  assumes "consumes V g n" and "g r = Some (v, r')"
  shows "rest V r' = drop n (rest V r) \<and> n \<le> length (rest V r) \<and> rorder V r' = rorder V r"
proof (cases "n \<le> length (rest V r)")
  case True
  with assms show ?thesis unfolding consumes_def by (metis option.inject prod.inject)
next
  case False
  with assms show ?thesis unfolding consumes_def by (metis option.distinct(1))
qed

lemma advances_step:
  "advances V g \<Longrightarrow> g r = Some (v, r') \<Longrightarrow> length (rest V r') < length (rest V r) \<and> rorder V r' = rorder V r"
  unfolding advances_def by fastforce

section \<open>The laws, one by one\<close>

lemma documented_writer:
  assumes "documented q V"
  shows "emits q V e (WriteUInt8 q b) [b]" "emits q V e (WriteUInt16 q h) (int_enc V e 2 (ucast h))"
    "emits q V e (WriteUInt32 q u) (int_enc V e 4 (ucast u))" "emits q V e (WriteUInt64 q l) (int_enc V e 8 l)"
    "emits q V e (WriteUFloat16 q l) (ufloat_enc V e l)" "emits q V e (WriteConnectionId q l) (cid_enc V l)"
    "emits q V e (WriteTag q u) (tag_enc V u)" "emits q V e (WriteBytes q bs) bs"
    "emits q V e (WritePaddingBytes q n) (replicate n 0)"
    "n \<le> 8 \<Longrightarrow> emits q V e (WriteBytesToUInt64 q n l) (int_enc V e n l)"
    "l < 2 ^ 62 \<Longrightarrow> emits q V e (WriteVarInt62 q l) (var_enc V l)"
    "length bs < 2 ^ 16 \<Longrightarrow> emits q V e (WriteStringPiece16 q bs) (int_enc V e 2 (of_nat (length bs)) @ bs)"
  using assms unfolding documented_def writer_documented_def by simp_all

lemma documented_state:
  assumes "documented q V"
  shows "wlength q w = length (written q w)" "length (written q w) \<le> capacity q w"
    "written q (new_writer q n e) = []" "capacity q (new_writer q n e) = n" "worder V (new_writer q n e) = e"
    "rest V (new_reader q bs e) = bs" "rorder V (new_reader q bs e) = e"
    "rest V (set_endianness q e r) = rest V r" "rorder V (set_endianness q e r) = e"
    "IsDoneReading q r \<longleftrightarrow> rest V r = []" "BytesRemaining q r = length (rest V r)"
    "rest V r \<noteq> [] \<Longrightarrow> PeekByte q r = hd (rest V r)"
    "fst (ReadRemainingPayload q r) = rest V r" "rest V (snd (ReadRemainingPayload q r)) = []"
    "rorder V (snd (ReadRemainingPayload q r)) = rorder V r"
    "written q (WritePadding q w) = written q w @ replicate (capacity q w - length (written q w)) 0"
    "capacity q (WritePadding q w) = capacity q w" "worder V (WritePadding q w) = worder V w"
    "LargestAckedOf q l ps = l" "NetToHost32 q (HostToNet32 q u) = u" "NetToHost32 q (NetToHost32 q u) = u"
  using assms unfolding documented_def writer_documented_def reader_documented_def by simp_all

lemma documented_lengths:
  assumes "documented q V"
  shows "n \<le> 8 \<Longrightarrow> length (int_enc V e n v) = n" "length (ufloat_enc V e v) = 2" "length (tag_enc V u) = 4"
    "length (cid_enc V v) = 8" "var_enc V v \<noteq> []"
  using assms unfolding documented_def encodings_documented_def by simp_all

lemma documented_reader:
  assumes "documented q V"
  shows "parses V e (ReadUInt8 q) [b] b" "parses V e (ReadUInt16 q) (int_enc V e 2 (ucast h)) h"
    "parses V e (ReadUInt32 q) (int_enc V e 4 (ucast u)) u" "parses V e (ReadUInt64 q) (int_enc V e 8 l) l"
    "parses V e (ReadUFloat16 q) (ufloat_enc V e l) (ufloat_trip V l)"
    "parses V e (ReadVarIntStreamId q) (var_enc V (ucast u)) u" "parses V e (ReadConnectionId q) (cid_enc V l) l"
    "parses V e (ReadTag q) (tag_enc V u) u"
    "l < 2 ^ 62 \<Longrightarrow> parses V e (ReadVarInt62 q) (var_enc V l) l"
    "n \<le> 8 \<Longrightarrow> parses V e (ReadBytesToUInt64 q n) (int_enc V e n l) (take_bit (8 * n) l)"
    "length bs < 2 ^ 16 \<Longrightarrow> parses V e (ReadStringPiece16 q) (int_enc V e 2 (of_nat (length bs)) @ bs) bs"
    "length bs = n \<Longrightarrow> parses V e (ReadStringPiece q n) bs bs" "length bs = n \<Longrightarrow> parses V e (ReadBytes q n) bs bs"
  using assms unfolding documented_def reader_documented_def by auto

lemma documented_consumes:
  assumes "documented q V"
  shows "consumes V (ReadUInt8 q) 1" "consumes V (ReadUInt16 q) 2" "consumes V (ReadUInt32 q) 4"
    "consumes V (ReadUInt64 q) 8" "consumes V (ReadUFloat16 q) 2" "consumes V (ReadConnectionId q) 8"
    "consumes V (ReadTag q) 4" "consumes V (ReadStringPiece q n) n" "consumes V (ReadBytes q n) n"
    "n \<le> 8 \<Longrightarrow> consumes V (ReadBytesToUInt64 q n) n"
    "advances V (ReadVarInt62 q)" "advances V (ReadVarIntStreamId q)" "advances V (ReadStringPiece16 q)"
  using assms unfolding documented_def reader_documented_def by auto

lemma documented_enums:
  assumes "documented q V"
  shows "ver q QUIC_VERSION_37 = 37" "ver q QUIC_VERSION_38 = 38" "ver q QUIC_VERSION_41 = 41"
    "len q PACKET_0BYTE_CONNECTION_ID = 0" "len q PACKET_8BYTE_CONNECTION_ID = 8"
    "len q PACKET_1BYTE_PACKET_NUMBER = 1" "len q PACKET_2BYTE_PACKET_NUMBER = 2" "len q PACKET_4BYTE_PACKET_NUMBER = 4"
    "len q PACKET_6BYTE_PACKET_NUMBER = 6" "len q PACKET_8BYTE_PACKET_NUMBER = 8"
    "len q PublicFlagsSize = 1" "len q PacketHeaderTypeSize = 1" "len q QuicVersionSize = 4"
    "len q DiversificationNonceSize = 32" "len q QuicPathFrameBufferSize = 8"
    "flag q PACKET_FLAGS_1BYTE_PACKET = 0" "flag q PACKET_FLAGS_2BYTE_PACKET = 1"
    "flag q PACKET_FLAGS_4BYTE_PACKET = 2" "flag q PACKET_FLAGS_8BYTE_PACKET = 3"
    "flag q PACKET_PUBLIC_FLAGS_VERSION = 1" "flag q PACKET_PUBLIC_FLAGS_RST = 2" "flag q PACKET_PUBLIC_FLAGS_NONCE = 4"
    "flag q PACKET_PUBLIC_FLAGS_0BYTE_CONNECTION_ID = 0" "flag q PACKET_PUBLIC_FLAGS_8BYTE_CONNECTION_ID = 8"
    "flag q PACKET_PUBLIC_FLAGS_8BYTE_CONNECTION_ID_OLD = 12" "flag q PACKET_PUBLIC_FLAGS_MAX = 63"
    "ftype q PADDING_FRAME = 0" "ftype q RST_STREAM_FRAME = 1" "ftype q CONNECTION_CLOSE_FRAME = 2"
    "ftype q GOAWAY_FRAME = 3" "ftype q WINDOW_UPDATE_FRAME = 4" "ftype q BLOCKED_FRAME = 5"
    "ftype q STOP_WAITING_FRAME = 6" "ftype q PING_FRAME = 7"
    "ietf q IETF_STREAM = 16" "ietf q IETF_STREAM_FRAME_FIN_BIT = 1" "ietf q IETF_STREAM_FRAME_LEN_BIT = 2"
    "ietf q IETF_STREAM_FRAME_OFF_BIT = 4"
  using assms unfolding documented_def enums_documented_def by simp_all

end
