(* ===== verification/Quic_Demo.thy ===== *)
theory Quic_Demo
  imports Quic_Io
begin

text \<open>
  A concrete reader and writer over byte lists with concrete enumerator values: the instance on which
  the framer's properties are exercised. It shows that the documented behaviour of \<open>Quic_Io\<close> can be
  met; nothing else depends on it.
\<close>

section \<open>Byte lists as readers and writers\<close>

definition demo_int :: "Endianness \<Rightarrow> nat \<Rightarrow> u64 \<Rightarrow> bytes" where
  "demo_int e n v = (if e = NETWORK_BYTE_ORDER then be_bytes n v else rev (be_bytes n v))"

definition demo_val :: "Endianness \<Rightarrow> bytes \<Rightarrow> u64" where
  "demo_val e bs = (if e = NETWORK_BYTE_ORDER then be_word bs else be_word (rev bs))"

definition demo_read :: "nat \<Rightarrow> (Endianness \<Rightarrow> bytes \<Rightarrow> 'a) \<Rightarrow> bytes \<times> Endianness \<Rightarrow> ('a \<times> bytes \<times> Endianness) option" where
  "demo_read n f r = (if n \<le> length (fst r) then Some (f (snd r) (take n (fst r)), drop n (fst r), snd r) else None)"

definition demo_write :: "(Endianness \<Rightarrow> bytes) \<Rightarrow> bytes \<times> nat \<times> Endianness \<Rightarrow> (bytes \<times> nat \<times> Endianness) option" where
  "demo_write f w =
     (case w of (out, room, e) \<Rightarrow>
        if length (f e) \<le> room then Some (out @ f e, room - length (f e), e) else None)"

definition demo_string16 :: "bytes \<times> Endianness \<Rightarrow> (bytes \<times> bytes \<times> Endianness) option" where
  "demo_string16 r =
     (case demo_read 2 demo_val r of None \<Rightarrow> None | Some (n, r) \<Rightarrow> demo_read (unat n) (\<lambda>_ bs. bs) r)"

definition demo_len :: "length_enum \<Rightarrow> nat" where
  "demo_len x = (case x of
     PACKET_0BYTE_CONNECTION_ID \<Rightarrow> 0 | PACKET_8BYTE_CONNECTION_ID \<Rightarrow> 8 | PACKET_1BYTE_PACKET_NUMBER \<Rightarrow> 1
   | PACKET_2BYTE_PACKET_NUMBER \<Rightarrow> 2 | PACKET_4BYTE_PACKET_NUMBER \<Rightarrow> 4 | PACKET_6BYTE_PACKET_NUMBER \<Rightarrow> 6
   | PACKET_8BYTE_PACKET_NUMBER \<Rightarrow> 8 | MaxPacketSize \<Rightarrow> 1452 | PublicFlagsSize \<Rightarrow> 1 | PacketHeaderTypeSize \<Rightarrow> 1
   | QuicVersionSize \<Rightarrow> 4 | DiversificationNonceSize \<Rightarrow> 32 | QuicPathFrameBufferSize \<Rightarrow> 8)"

definition demo_flag :: "flag_enum \<Rightarrow> u8" where
  "demo_flag x = (case x of
     PACKET_FLAGS_1BYTE_PACKET \<Rightarrow> 0 | PACKET_FLAGS_2BYTE_PACKET \<Rightarrow> 1 | PACKET_FLAGS_4BYTE_PACKET \<Rightarrow> 2
   | PACKET_FLAGS_8BYTE_PACKET \<Rightarrow> 3 | PACKET_PUBLIC_FLAGS_0BYTE_CONNECTION_ID \<Rightarrow> 0
   | PACKET_PUBLIC_FLAGS_8BYTE_CONNECTION_ID \<Rightarrow> 8 | PACKET_PUBLIC_FLAGS_8BYTE_CONNECTION_ID_OLD \<Rightarrow> 12
   | PACKET_PUBLIC_FLAGS_MAX \<Rightarrow> 63 | PACKET_PUBLIC_FLAGS_NONCE \<Rightarrow> 4 | PACKET_PUBLIC_FLAGS_RST \<Rightarrow> 2
   | PACKET_PUBLIC_FLAGS_VERSION \<Rightarrow> 1 | SHORT_HEADER_1_BYTE_PACKET_NUMBER \<Rightarrow> 0
   | SHORT_HEADER_2_BYTE_PACKET_NUMBER \<Rightarrow> 1 | SHORT_HEADER_4_BYTE_PACKET_NUMBER \<Rightarrow> 2 | FLAGS_LONG_HEADER \<Rightarrow> 128
   | VERSION_NEGOTIATION \<Rightarrow> 0)"

definition demo_ftype :: "frame_enum \<Rightarrow> u8" where
  "demo_ftype x = (case x of
     PADDING_FRAME \<Rightarrow> 0 | RST_STREAM_FRAME \<Rightarrow> 1 | CONNECTION_CLOSE_FRAME \<Rightarrow> 2 | GOAWAY_FRAME \<Rightarrow> 3
   | WINDOW_UPDATE_FRAME \<Rightarrow> 4 | BLOCKED_FRAME \<Rightarrow> 5 | STOP_WAITING_FRAME \<Rightarrow> 6 | PING_FRAME \<Rightarrow> 7)"

definition demo_ietf :: "ietf_enum \<Rightarrow> u8" where
  "demo_ietf x = (case x of
     IETF_STREAM \<Rightarrow> 16 | IETF_STREAM_FRAME_FIN_BIT \<Rightarrow> 1 | IETF_STREAM_FRAME_LEN_BIT \<Rightarrow> 2
   | IETF_STREAM_FRAME_OFF_BIT \<Rightarrow> 4 | _ \<Rightarrow> 13)"

definition demo :: "(bytes \<times> Endianness, bytes \<times> nat \<times> Endianness) quic" where
  "demo = \<lparr>
     ver = (\<lambda>v. case v of QUIC_VERSION_UNSUPPORTED \<Rightarrow> 0 | QUIC_VERSION_37 \<Rightarrow> 37 | QUIC_VERSION_38 \<Rightarrow> 38 | QUIC_VERSION_41 \<Rightarrow> 41),
     len = demo_len, flag = demo_flag, ftype = demo_ftype, ietf = demo_ietf,
     level = (\<lambda>l. case l of ENCRYPTION_NONE \<Rightarrow> 0 | ENCRYPTION_INITIAL \<Rightarrow> 1 | NUM_ENCRYPTION_LEVELS \<Rightarrow> 3),
     errc = (\<lambda>c. case c of QUIC_NO_ERROR \<Rightarrow> 0 | QUIC_LAST_ERROR \<Rightarrow> 100 | QUIC_STREAM_LAST_ERROR \<Rightarrow> 50 | _ \<Rightarrow> 1),
     kUFloat16MaxValue = 0xFFFF,
     new_reader = (\<lambda>bs e. (bs, e)),
     set_endianness = (\<lambda>e r. (fst r, e)),
     ReadUInt8 = demo_read 1 (\<lambda>_. hd),
     ReadUInt16 = demo_read 2 (\<lambda>e bs. ucast (demo_val e bs)),
     ReadUInt32 = demo_read 4 (\<lambda>e bs. ucast (demo_val e bs)),
     ReadUInt64 = demo_read 8 demo_val,
     ReadBytesToUInt64 = (\<lambda>n. demo_read n demo_val),
     ReadUFloat16 = demo_read 2 demo_val,
     ReadVarInt62 = demo_read 8 (\<lambda>_. be_word),
     ReadVarIntStreamId = demo_read 8 (\<lambda>_ bs. ucast (be_word bs :: u64)),
     ReadConnectionId = demo_read 8 (\<lambda>_. be_word),
     ReadTag = demo_read 4 (\<lambda>_. be_word),
     ReadStringPiece16 = demo_string16,
     ReadStringPiece = (\<lambda>n. demo_read n (\<lambda>_ bs. bs)),
     ReadBytes = (\<lambda>n. demo_read n (\<lambda>_ bs. bs)),
     ReadRemainingPayload = (\<lambda>r. (fst r, ([], snd r))),
     IsDoneReading = (\<lambda>r. fst r = []),
     BytesRemaining = (\<lambda>r. length (fst r)),
     PeekByte = (\<lambda>r. hd (fst r)),
     new_writer = (\<lambda>n e. ([], n, e)),
     WriteUInt8 = (\<lambda>v. demo_write (\<lambda>_. [v])),
     WriteUInt16 = (\<lambda>v. demo_write (\<lambda>e. demo_int e 2 (ucast v))),
     WriteUInt32 = (\<lambda>v. demo_write (\<lambda>e. demo_int e 4 (ucast v))),
     WriteUInt64 = (\<lambda>v. demo_write (\<lambda>e. demo_int e 8 v)),
     WriteBytesToUInt64 = (\<lambda>n v. demo_write (\<lambda>e. demo_int e n v)),
     WriteUFloat16 = (\<lambda>v. demo_write (\<lambda>e. demo_int e 2 v)),
     WriteVarInt62 = (\<lambda>v. demo_write (\<lambda>_. be_bytes 8 v)),
     WriteConnectionId = (\<lambda>v. demo_write (\<lambda>_. be_bytes 8 v)),
     WriteTag = (\<lambda>v. demo_write (\<lambda>_. be_bytes 4 v)),
     WriteStringPiece16 = (\<lambda>bs. demo_write (\<lambda>e. demo_int e 2 (of_nat (length bs)) @ bs)),
     WriteBytes = (\<lambda>bs. demo_write (\<lambda>_. bs)),
     WritePaddingBytes = (\<lambda>n. demo_write (\<lambda>_. replicate n 0)),
     WritePadding = (\<lambda>(out, room, e). (out @ replicate room 0, 0, e)),
     WriteUInt8AtOffset = (\<lambda>v i (out, room, e). if i < length out then Some (out[i := v], room, e) else None),
     capacity = (\<lambda>(out, room, e). length out + room),
     wlength = (\<lambda>(out, room, e). length out),
     written = (\<lambda>(out, room, e). out),
     AddRange = (\<lambda>a b ps. ps @ [(a, b)]),
     LargestAckedOf = (\<lambda>l ps. l),
     HostToNet32 = (\<lambda>v. v),
     NetToHost32 = (\<lambda>v. v)\<rparr>"

lemma demo_sel:
  "ver demo = (\<lambda>v. case v of QUIC_VERSION_UNSUPPORTED \<Rightarrow> 0 | QUIC_VERSION_37 \<Rightarrow> 37 | QUIC_VERSION_38 \<Rightarrow> 38 | QUIC_VERSION_41 \<Rightarrow> 41)"
  "len demo = demo_len"
  "flag demo = demo_flag"
  "ftype demo = demo_ftype"
  "ietf demo = demo_ietf"
  "level demo = (\<lambda>l. case l of ENCRYPTION_NONE \<Rightarrow> 0 | ENCRYPTION_INITIAL \<Rightarrow> 1 | NUM_ENCRYPTION_LEVELS \<Rightarrow> 3)"
  "errc demo = (\<lambda>c. case c of QUIC_NO_ERROR \<Rightarrow> 0 | QUIC_LAST_ERROR \<Rightarrow> 100 | QUIC_STREAM_LAST_ERROR \<Rightarrow> 50 | _ \<Rightarrow> 1)"
  "kUFloat16MaxValue demo = 0xFFFF"
  "new_reader demo = (\<lambda>bs e. (bs, e))"
  "set_endianness demo = (\<lambda>e r. (fst r, e))"
  "ReadUInt8 demo = demo_read 1 (\<lambda>_. hd)"
  "ReadUInt16 demo = demo_read 2 (\<lambda>e bs. ucast (demo_val e bs))"
  "ReadUInt32 demo = demo_read 4 (\<lambda>e bs. ucast (demo_val e bs))"
  "ReadUInt64 demo = demo_read 8 demo_val"
  "ReadBytesToUInt64 demo = (\<lambda>n. demo_read n demo_val)"
  "ReadUFloat16 demo = demo_read 2 demo_val"
  "ReadVarInt62 demo = demo_read 8 (\<lambda>_. be_word)"
  "ReadVarIntStreamId demo = demo_read 8 (\<lambda>_ bs. ucast (be_word bs :: u64))"
  "ReadConnectionId demo = demo_read 8 (\<lambda>_. be_word)"
  "ReadTag demo = demo_read 4 (\<lambda>_. be_word)"
  "ReadStringPiece16 demo = demo_string16"
  "ReadStringPiece demo = (\<lambda>n. demo_read n (\<lambda>_ bs. bs))"
  "ReadBytes demo = (\<lambda>n. demo_read n (\<lambda>_ bs. bs))"
  "ReadRemainingPayload demo = (\<lambda>r. (fst r, ([], snd r)))"
  "IsDoneReading demo = (\<lambda>r. fst r = [])"
  "BytesRemaining demo = (\<lambda>r. length (fst r))"
  "PeekByte demo = (\<lambda>r. hd (fst r))"
  "new_writer demo = (\<lambda>n e. ([], n, e))"
  "WriteUInt8 demo = (\<lambda>v. demo_write (\<lambda>_. [v]))"
  "WriteUInt16 demo = (\<lambda>v. demo_write (\<lambda>e. demo_int e 2 (ucast v)))"
  "WriteUInt32 demo = (\<lambda>v. demo_write (\<lambda>e. demo_int e 4 (ucast v)))"
  "WriteUInt64 demo = (\<lambda>v. demo_write (\<lambda>e. demo_int e 8 v))"
  "WriteBytesToUInt64 demo = (\<lambda>n v. demo_write (\<lambda>e. demo_int e n v))"
  "WriteUFloat16 demo = (\<lambda>v. demo_write (\<lambda>e. demo_int e 2 v))"
  "WriteVarInt62 demo = (\<lambda>v. demo_write (\<lambda>_. be_bytes 8 v))"
  "WriteConnectionId demo = (\<lambda>v. demo_write (\<lambda>_. be_bytes 8 v))"
  "WriteTag demo = (\<lambda>v. demo_write (\<lambda>_. be_bytes 4 v))"
  "WriteStringPiece16 demo = (\<lambda>bs. demo_write (\<lambda>e. demo_int e 2 (of_nat (length bs)) @ bs))"
  "WriteBytes demo = (\<lambda>bs. demo_write (\<lambda>_. bs))"
  "WritePaddingBytes demo = (\<lambda>n. demo_write (\<lambda>_. replicate n 0))"
  "WritePadding demo = (\<lambda>(out, room, e). (out @ replicate room 0, 0, e))"
  "WriteUInt8AtOffset demo = (\<lambda>v i (out, room, e). if i < length out then Some (out[i := v], room, e) else None)"
  "capacity demo = (\<lambda>(out, room, e). length out + room)"
  "wlength demo = (\<lambda>(out, room, e). length out)"
  "written demo = (\<lambda>(out, room, e). out)"
  "AddRange demo = (\<lambda>a b ps. ps @ [(a, b)])"
  "LargestAckedOf demo = (\<lambda>l ps. l)"
  "HostToNet32 demo = (\<lambda>v. v)"
  "NetToHost32 demo = (\<lambda>v. v)"
  by (simp_all add: demo_def)

definition demo_view :: "(bytes \<times> Endianness, bytes \<times> nat \<times> Endianness) view" where
  "demo_view = \<lparr>rest = fst, rorder = snd, worder = (\<lambda>w. snd (snd w)), int_enc = demo_int, var_enc = be_bytes 8,
     ufloat_enc = (\<lambda>e. demo_int e 2), ufloat_trip = take_bit 16, tag_enc = be_bytes 4, cid_enc = be_bytes 8\<rparr>"

section \<open>The instance behaves as documented\<close>

lemma demo_int_length [simp]: "length (demo_int e n v) = n"
  by (simp add: demo_int_def)

lemma demo_val_int [simp]: "demo_val e (demo_int e n v) = take_bit (8 * n) v"
  by (simp add: demo_val_def demo_int_def be_word_bytes)

lemma demo_emits: "emits demo demo_view e (demo_write f) (f e)"
  by (auto simp: emits_def demo_def demo_view_def demo_write_def)

lemma demo_parses: "f e bs = v \<Longrightarrow> length bs = n \<Longrightarrow> parses demo_view e (demo_read n f) bs v"
  by (auto simp: parses_def demo_view_def demo_read_def)

lemma demo_consumes: "consumes demo_view (demo_read n f) n"
  by (auto simp: consumes_def demo_view_def demo_read_def)

lemma demo_advances: "0 < n \<Longrightarrow> advances demo_view (demo_read n f)"
  by (auto simp: advances_def demo_view_def demo_read_def split: if_splits)

lemma ucast_take_bit: "ucast (take_bit (8 * n) (ucast v :: u64)) = v"
  if "LENGTH('a) \<le> 8 * n" "LENGTH('a) \<le> 64" for v :: "'a::len word"
  using that by (intro bit_word_eqI) (auto simp: bit_simps dest: bit_imp_le_length)

lemma demo_string16_parses:
  assumes "length bs < 2 ^ 16"
  shows "parses demo_view e demo_string16 (demo_int e 2 (of_nat (length bs)) @ bs) bs"
proof -
  have "unat (take_bit 16 (of_nat (length bs)) :: u64) = length bs"
    using assms by (simp add: unsigned_take_bit_eq unat_of_nat take_bit_nat_eq_self)
  moreover have "demo_val e (demo_int e 2 (of_nat (length bs))) = take_bit 16 (of_nat (length bs))" by simp
  ultimately show ?thesis
    by (auto simp: parses_def demo_view_def demo_string16_def demo_read_def)
qed

lemma demo_string16_advances: "advances demo_view demo_string16"
proof -
  have "\<exists>n>0. n \<le> length (fst r) \<and> fst r' = drop n (fst r)" and "snd r' = snd r"
    if "demo_string16 r = Some (v, r')" for r v r'
    using that by (auto simp: demo_string16_def demo_read_def split: if_splits intro!: exI [of _ "unat _ + 2"])
  then show ?thesis by (simp add: advances_def demo_view_def)
qed

lemma demo_writer: "writer_documented demo demo_view"
proof -
  have w: "emits demo demo_view e (demo_write f) bs" if "f e = bs" for e f bs
    using demo_emits [of e f] that by simp
  show ?thesis
    unfolding writer_documented_def demo_sel
    by (intro conjI allI impI w) (auto simp: demo_view_def split_beta)
qed

lemma demo_reader: "reader_documented demo demo_view"
proof -
  note r = demo_parses demo_consumes demo_advances demo_string16_parses demo_string16_advances
  have enc: "int_enc demo_view = demo_int" "var_enc demo_view = be_bytes 8" "tag_enc demo_view = be_bytes 4"
    "cid_enc demo_view = be_bytes 8" "ufloat_enc demo_view e = demo_int e 2" "ufloat_trip demo_view = take_bit 16" for e
    by (simp_all add: demo_view_def)
  have cast: "ucast (take_bit 16 (ucast h :: u64)) = h" "ucast (take_bit 32 (ucast u :: u64)) = u"
    "ucast (ucast u :: u64) = u" for h :: u16 and u :: u32
    using ucast_take_bit [of 2 h] ucast_take_bit [of 4 u] ucast_take_bit [of 8 u] by (simp_all add: take_bit_word_eq_self)
  show ?thesis
    unfolding reader_documented_def demo_sel enc
    by (intro conjI allI impI r) (simp_all add: demo_view_def cast be_word_bytes_full take_bit_word_eq_self)
qed

lemma demo_documented: "documented demo demo_view"
  unfolding documented_def
  using demo_writer demo_reader
  by (simp add: enums_documented_def demo_sel demo_len_def demo_flag_def demo_ftype_def demo_ietf_def
      encodings_documented_def demo_view_def eval_nat_numeral)

end
