(* ===== verification/Quic_Apps.thy ===== *)
theory Quic_Apps
  imports Quic_Demo Quic_Time Su_Addr
begin

text \<open>
  What the programs of \<^verbatim>\<open>quic-test\<close> share: the packet header of \<^verbatim>\<open>myquic/my_quic_header.{h,cc}\<close>, the cutting of frames of
  \<^verbatim>\<open>my_quic_utils.{h,cc}\<close>, the source of video of \<^verbatim>\<open>fakevideogenerator.{h,cc}\<close> and the alarm of \<^verbatim>\<open>my_quic_receiver.h\<close>. Times are readings of
  \<open>MyQuicClock\<close>, whose arithmetic is that of \<open>Quic_Time\<close>.

  These programs go on after a read or a write that failed: the value then keeps its default, a writer is unchanged, and a reader that
  has failed once fails ever after, as the library's \<open>QuicDataReader\<close> is then at its end.
\<close>

section \<open>Readers and writers whose result is ignored\<close>

definition read_or :: "'a \<Rightarrow> ('r \<Rightarrow> ('a \<times> 'r) option) \<Rightarrow> 'r option \<Rightarrow> 'a \<times> 'r option" where
  "read_or dflt f r = (case Option.bind r f of None \<Rightarrow> (dflt, None) | Some (v, r) \<Rightarrow> (v, Some r))"

definition write_on :: "('w \<Rightarrow> 'w option) \<Rightarrow> 'w \<Rightarrow> 'w" where
  "write_on f w = (case f w of None \<Rightarrow> w | Some w \<Rightarrow> w)"

text \<open>A byte read with \<open>ReadBytes(&b, 1)\<close>.\<close>

definition read_byte :: "('r, 'w) quic \<Rightarrow> 'r option \<Rightarrow> u8 \<times> 'r option" where
  "read_byte q r = (case read_or [0] (ReadBytes q 1) r of (bs, r) \<Rightarrow> (hd bs, r))"

text \<open>A buffer of \<open>n\<close> zeros that a writer has filled from the front.\<close>

definition filled :: "('r, 'w) quic \<Rightarrow> nat \<Rightarrow> 'w \<Rightarrow> bytes" where
  "filled q n w = written q w @ replicate (n - length (written q w)) 0"

section \<open>The packet header\<close>

record my_quic_header_t =
  hdr_seq_len :: u8
  hdr_seq :: u64

definition GetMinSeqLength :: "('r, 'w) quic \<Rightarrow> u64 \<Rightarrow> nat" where
  "GetMinSeqLength q packet_number =
     (if packet_number < push_bit (len q PACKET_1BYTE_PACKET_NUMBER * 8) 1 then len q PACKET_1BYTE_PACKET_NUMBER
      else if packet_number < push_bit (len q PACKET_2BYTE_PACKET_NUMBER * 8) 1 then len q PACKET_2BYTE_PACKET_NUMBER
      else if packet_number < push_bit (len q PACKET_4BYTE_PACKET_NUMBER * 8) 1 then len q PACKET_4BYTE_PACKET_NUMBER
      else len q PACKET_6BYTE_PACKET_NUMBER)"

definition ReadSequenceNumberLength :: "('r, 'w) quic \<Rightarrow> u8 \<Rightarrow> nat" where
  "ReadSequenceNumberLength q flags =
     (let f = flags AND flag q PACKET_FLAGS_8BYTE_PACKET in
      if f = flag q PACKET_FLAGS_8BYTE_PACKET then len q PACKET_6BYTE_PACKET_NUMBER
      else if f = flag q PACKET_FLAGS_4BYTE_PACKET then len q PACKET_4BYTE_PACKET_NUMBER
      else if f = flag q PACKET_FLAGS_2BYTE_PACKET then len q PACKET_2BYTE_PACKET_NUMBER
      else if f = flag q PACKET_FLAGS_1BYTE_PACKET then len q PACKET_1BYTE_PACKET_NUMBER
      else len q PACKET_6BYTE_PACKET_NUMBER)"

definition GetPacketNumberFlags :: "('r, 'w) quic \<Rightarrow> u8 \<Rightarrow> u8" where
  "GetPacketNumberFlags q n =
     (if unat n = len q PACKET_1BYTE_PACKET_NUMBER then flag q PACKET_FLAGS_1BYTE_PACKET
      else if unat n = len q PACKET_2BYTE_PACKET_NUMBER then flag q PACKET_FLAGS_2BYTE_PACKET
      else if unat n = len q PACKET_4BYTE_PACKET_NUMBER then flag q PACKET_FLAGS_4BYTE_PACKET
      else flag q PACKET_FLAGS_8BYTE_PACKET)"

definition kPublicHeaderSequenceNumberShift :: nat where "kPublicHeaderSequenceNumberShift = 4"

text \<open>
  The lines with which every program starts a packet: the length of the number, the flags with the type of the packet in the low four
  bits, and the number, written to a new buffer of \<open>n\<close> bytes.
\<close>

definition start_packet :: "('r, 'w) quic \<Rightarrow> nat \<Rightarrow> u8 \<Rightarrow> u64 \<Rightarrow> my_quic_header_t \<times> 'w" where
  "start_packet q n type number =
     (let header = \<lparr>hdr_seq_len = of_nat (GetMinSeqLength q number), hdr_seq = number\<rparr>;
          public_flags = push_bit kPublicHeaderSequenceNumberShift (GetPacketNumberFlags q (hdr_seq_len header)) OR type;
          w = write_on (WriteBytes q [public_flags]) (new_writer q n NETWORK_BYTE_ORDER);
          w = write_on (WriteBytesToUInt64 q (unat (hdr_seq_len header)) (hdr_seq header)) w
      in (header, w))"

text \<open>And the lines with which they read it: the flags and the length of the number.\<close>

definition read_flags :: "('r, 'w) quic \<Rightarrow> bytes \<Rightarrow> u8 \<times> u8 \<times> 'r option" where
  "read_flags q dat =
     (case read_byte q (Some (new_reader q dat NETWORK_BYTE_ORDER)) of
        (public_flags, r) \<Rightarrow> (public_flags, of_nat (ReadSequenceNumberLength q (drop_bit kPublicHeaderSequenceNumberShift public_flags)), r))"

section \<open>Frames\<close>

definition QUIC_MAX_VIDEO_SIZE :: nat where "QUIC_MAX_VIDEO_SIZE = 1000"
definition MAX_SPLIT_NUMBER :: nat where "MAX_SPLIT_NUMBER = 1024"

fun fill_splits :: "nat \<Rightarrow> nat \<Rightarrow> u16 list \<Rightarrow> u16 list option" where
  "fill_splits 0 i splits = Some splits"
| "fill_splits (Suc n) i splits =
     (if i < length splits then fill_splits n (i + 1) (splits[i := of_nat QUIC_MAX_VIDEO_SIZE]) else None)"

definition FrameSplit :: "u16 list \<Rightarrow> nat \<Rightarrow> (u16 \<times> u16 list) option" where
  "FrameSplit splits sz =
     (if sz \<le> QUIC_MAX_VIDEO_SIZE
      then (if 0 < length splits then Some (1, splits[0 := of_nat sz]) else None)
      else do {
        let ret = (of_nat (sz div QUIC_MAX_VIDEO_SIZE) :: u16);
        splits \<leftarrow> fill_splits (unat ret) 0 splits;
        let remain_size = (of_nat (sz mod QUIC_MAX_VIDEO_SIZE) :: u16);
        (if remain_size > 0
         then (if unat ret < length splits then Some (ret + 1, splits[unat ret := remain_size]) else None)
         else Some (ret, splits))
      })"

text \<open>The generator: rates in bits per second and the time between frames in milliseconds, all \<open>int64_t\<close>; \<open>fs\<close> is an \<open>int\<close>.\<close>

record FakeVideoGenerator =
  min_rate :: int
  rate :: int
  max_rate :: int
  duration :: int
  next_frame :: QuicTime

definition FakeVideoGenerator_new :: "int \<Rightarrow> int \<Rightarrow> FakeVideoGenerator option" where
  "FakeVideoGenerator_new fs start_rate =
     (if fs = 0 then None
      else Some \<lparr>min_rate = start_rate, rate = start_rate, max_rate = 2000000, duration = 1000 sdiv fs, next_frame = Time_Zero\<rparr>)"

definition UpdataRate :: "int \<Rightarrow> FakeVideoGenerator \<Rightarrow> FakeVideoGenerator" where
  "UpdataRate bps g =
     (let bw = (if bps > max_rate g then max_rate g else bps);
          bw = (if bw < min_rate g then min_rate g else bw)
      in g\<lparr>rate := bw\<rparr>)"

definition GetMaxRate :: "FakeVideoGenerator \<Rightarrow> int" where "GetMaxRate g = max_rate g"

definition GetFrame :: "QuicTime \<Rightarrow> FakeVideoGenerator \<Rightarrow> (int \<times> FakeVideoGenerator) option" where
  "GetFrame now g = do {
     bits \<leftarrow> i64 (rate g * duration g);
     let expect = bits sdiv (1000 * 8);
     (if now > next_frame g
      then do {
        d \<leftarrow> FromMilliseconds (duration g);
        t \<leftarrow> time_plus now d;
        Some (expect, g\<lparr>next_frame := t\<rparr>)
      }
      else Some (0, g))
   }"

section \<open>The alarm of the receiver\<close>

record MyQuicAlarm =
  m_deadline :: QuicTime

definition MyQuicAlarm_new :: MyQuicAlarm where "MyQuicAlarm_new = \<lparr>m_deadline = Time_Zero\<rparr>"

definition Alarm_IsSet :: "MyQuicAlarm \<Rightarrow> bool" where "Alarm_IsSet a \<longleftrightarrow> m_deadline a > Time_Zero"

definition IsExpired :: "QuicTime \<Rightarrow> MyQuicAlarm \<Rightarrow> bool \<times> MyQuicAlarm" where
  "IsExpired now a =
     (if Alarm_IsSet a
      then let ret = (now \<ge> m_deadline a) in (ret, if ret then a\<lparr>m_deadline := Time_Zero\<rparr> else a)
      else (False, a))"

definition Alarm_Update_to :: "QuicTime \<Rightarrow> MyQuicAlarm \<Rightarrow> MyQuicAlarm" where
  "Alarm_Update_to t a = a\<lparr>m_deadline := t\<rparr>"

section \<open>Receiving, files and clocks\<close>

text \<open>The buffer of every \<open>Process\<close>, for \<open>RecvFrom\<close>.\<close>

definition max_len :: nat where "max_len = 1500"

definition RecvFrom :: "(su_addr \<times> bytes) option \<Rightarrow> (int \<times> su_addr option \<times> bytes) option" where
  "RecvFrom incoming = su_udp_recv incoming (replicate max_len 0) max_len"

text \<open>A file that is written: \<open>None\<close> while it is not open. A line is two numbers.\<close>

type_synonym log_file = "(u64 \<times> u64) list option"

definition add_line :: "u64 \<Rightarrow> u64 \<Rightarrow> log_file \<Rightarrow> log_file" where
  "add_line a b = map_option (\<lambda>f. f @ [(a, b)])"

definition ms_since :: "QuicTime \<Rightarrow> int \<Rightarrow> QuicTime \<Rightarrow> int option" where
  "ms_since ref offset now = do { delta \<leftarrow> time_diff now ref; i64 (ToMilliseconds delta + offset) }"

definition later :: "int \<Rightarrow> QuicTime \<Rightarrow> QuicTime option" where
  "later ms now = Option.bind (FromMilliseconds ms) (time_plus now)"

lemma unat_next: "unat i < unat j \<Longrightarrow> unat (i + 1) = unat i + 1" for i j :: u64
  using unsigned_less [of j, where ?'a = nat] by (simp add: unat_word_ariths)

section \<open>Headers are read as they were written\<close>

definition seq_bytes :: "u64 \<Rightarrow> nat" where
  "seq_bytes n = (if n < 2 ^ 8 then 1 else if n < 2 ^ 16 then 2 else if n < 2 ^ 32 then 4 else 6)"

definition seq_flags :: "u64 \<Rightarrow> u8" where
  "seq_flags n = (if n < 2 ^ 8 then 0 else if n < 2 ^ 16 then 1 else if n < 2 ^ 32 then 2 else 3)"

definition header_byte :: "u8 \<Rightarrow> u64 \<Rightarrow> u8" where
  "header_byte type n = push_bit 4 (seq_flags n) OR type"

definition header_bytes :: "('r, 'w) view \<Rightarrow> u8 \<Rightarrow> u64 \<Rightarrow> bytes" where
  "header_bytes V type n = header_byte type n # int_enc V NETWORK_BYTE_ORDER (seq_bytes n) n"

lemma seq_bytes_cases: "seq_bytes n \<in> {1, 2, 4, 6}" "seq_bytes n \<le> 6" "unat (of_nat (seq_bytes n) :: u8) = seq_bytes n"
  by (simp_all add: seq_bytes_def)

lemma seq_truncated: "take_bit (8 * seq_bytes n) n = take_bit 48 n"
proof -
  have *: "take_bit k n = n" if "unat n < 2 ^ k" for k
    using that by (simp add: word_unat_eq_iff unsigned_take_bit_eq take_bit_nat_eq_self)
  show ?thesis using * [of 8] * [of 16] * [of 32] * [of 48] by (auto simp: seq_bytes_def word_less_nat_alt)
qed

lemma GetMinSeqLength_documented: "enums_documented q \<Longrightarrow> GetMinSeqLength q n = seq_bytes n"
  by (simp add: GetMinSeqLength_def seq_bytes_def enums_documented_def push_bit_eq_mult)

lemma GetPacketNumberFlags_documented: "enums_documented q \<Longrightarrow> GetPacketNumberFlags q (of_nat (seq_bytes n)) = seq_flags n"
  by (simp add: GetPacketNumberFlags_def seq_bytes_def seq_flags_def enums_documented_def)

lemma header_byte_type: "type < 16 \<Longrightarrow> header_byte type n AND 15 = type" and header_byte_flags: "type < 16 \<Longrightarrow> drop_bit 4 (header_byte type n) = seq_flags n"
proof -
  assume "type < 16"
  then have "unat type < 16" by (simp add: word_less_nat_alt)
  then obtain k where "type = of_nat k" "k < 16" using that [of "unat type"] by simp
  moreover have "k \<in> {0, 1, 2, 3, 4, 5, 6, 7, 8, 9, 10, 11, 12, 13, 14, 15}" using calculation(2) by (simp add: less_Suc_eq numeral_eq_Suc)
  moreover have "seq_flags n \<in> {0, 1, 2, 3}" by (simp add: seq_flags_def)
  ultimately show "header_byte type n AND 15 = type" "drop_bit 4 (header_byte type n) = seq_flags n" by (auto simp: header_byte_def)
qed

lemma ReadSequenceNumberLength_documented: "enums_documented q \<Longrightarrow> ReadSequenceNumberLength q (seq_flags n) = seq_bytes n"
  by (simp add: ReadSequenceNumberLength_def seq_bytes_def seq_flags_def enums_documented_def)

lemma start_packet_fits:
  assumes q: "documented q V" and cap: "1 + seq_bytes n \<le> cap"
  shows "\<exists>w. start_packet q cap type n = (\<lparr>hdr_seq_len = of_nat (seq_bytes n), hdr_seq = n\<rparr>, w) \<and> written q w = header_bytes V type n \<and>
     capacity q w = cap \<and> worder V w = NETWORK_BYTE_ORDER"
proof -
  let ?e = NETWORK_BYTE_ORDER and ?w = "new_writer q cap NETWORK_BYTE_ORDER"
  from q have e: "enums_documented q" and w: "writer_documented q V" and l: "length (int_enc V ?e (seq_bytes n) n) = seq_bytes n"
    using seq_bytes_cases(2) [of n] by (simp_all add: documented_def encodings_documented_def)
  from w have new: "written q ?w = []" "capacity q ?w = cap" "worder V ?w = ?e"
    and b: "emits q V ?e (WriteBytes q [header_byte type n]) [header_byte type n]"
    and s: "emits q V ?e (WriteBytesToUInt64 q (seq_bytes n) n) (int_enc V ?e (seq_bytes n) n)"
    using seq_bytes_cases(2) [of n] by (simp_all add: writer_documented_def)
  from emits_fit [OF b new(3)] new cap obtain w1 where w1: "WriteBytes q [header_byte type n] ?w = Some w1"
    "written q w1 = [header_byte type n]" "capacity q w1 = cap" "worder V w1 = ?e" by auto
  from emits_fit [OF s w1(4)] w1 cap l seq_bytes_cases(2) [of n] obtain w2 where "WriteBytesToUInt64 q (seq_bytes n) n w1 = Some w2"
    "written q w2 = header_bytes V type n" "capacity q w2 = cap" "worder V w2 = ?e" by (auto simp: header_bytes_def)
  then show ?thesis
    using w1(1) by (simp add: start_packet_def write_on_def GetMinSeqLength_documented [OF e] GetPacketNumberFlags_documented [OF e]
      seq_bytes_cases(3) kPublicHeaderSequenceNumberShift_def flip: header_byte_def)
qed

lemma start_packet_documented:
  "documented q V \<Longrightarrow> 7 \<le> cap \<Longrightarrow> \<exists>w. start_packet q cap type n = (\<lparr>hdr_seq_len = of_nat (seq_bytes n), hdr_seq = n\<rparr>, w) \<and>
     written q w = header_bytes V type n \<and> capacity q w = cap \<and> worder V w = NETWORK_BYTE_ORDER"
  using start_packet_fits [of q V n cap type] seq_bytes_cases(2) [of n] by simp

lemma read_flags_documented:
  assumes q: "documented q V" and t: "type < 16"
  shows "\<exists>r. read_flags q (header_bytes V type n @ left) = (header_byte type n, of_nat (seq_bytes n), Some r) \<and>
     rest V r = int_enc V NETWORK_BYTE_ORDER (seq_bytes n) n @ left \<and> rorder V r = NETWORK_BYTE_ORDER"
proof -
  let ?r = "new_reader q (header_bytes V type n @ left) NETWORK_BYTE_ORDER"
  from q have e: "enums_documented q" and r: "reader_documented q V" by (simp_all add: documented_def)
  from r have r: "rest V ?r = [header_byte type n] @ (int_enc V NETWORK_BYTE_ORDER (seq_bytes n) n @ left)" "rorder V ?r = NETWORK_BYTE_ORDER"
    by (simp_all add: reader_documented_def header_bytes_def)
  from q have b: "parses V NETWORK_BYTE_ORDER (ReadBytes q (length [header_byte type n])) [header_byte type n] [header_byte type n]"
    unfolding documented_def reader_documented_def by blast
  from parsesD [OF b r(2,1)] show ?thesis
    by (auto simp: read_flags_def read_byte_def read_or_def kPublicHeaderSequenceNumberShift_def header_byte_flags [OF t]
      ReadSequenceNumberLength_documented [OF e])
qed

lemma read_number_documented:
  assumes q: "documented q V" and r: "rest V r = int_enc V NETWORK_BYTE_ORDER (seq_bytes n) n @ left" "rorder V r = NETWORK_BYTE_ORDER"
  shows "\<exists>r'. read_or 0 (ReadBytesToUInt64 q (seq_bytes n)) (Some r) = (take_bit 48 n, Some r') \<and> rest V r' = left \<and> rorder V r' = NETWORK_BYTE_ORDER"
proof -
  from q have "parses V NETWORK_BYTE_ORDER (ReadBytesToUInt64 q (seq_bytes n)) (int_enc V NETWORK_BYTE_ORDER (seq_bytes n) n)
     (take_bit (8 * seq_bytes n) n)"
    using seq_bytes_cases(2) [of n] by (simp add: documented_def reader_documented_def)
  from parsesD [OF this r(2,1)] show ?thesis by (auto simp: read_or_def seq_truncated)
qed

text \<open>What the programs read of a packet that starts with a header.\<close>

lemma packet_read:
  assumes "documented q V" and "type < 16"
  shows "\<exists>r. read_flags q (header_bytes V type n @ left) = (header_byte type n, of_nat (seq_bytes n), Some r) \<and>
     fst (read_or 0 (ReadBytesToUInt64 q (unat (of_nat (seq_bytes n) :: u8))) (Some r)) = take_bit 48 n"
  using read_flags_documented [OF assms, of n left] read_number_documented [OF assms(1)] by (fastforce simp: seq_bytes_cases(3))

section \<open>Receiving\<close>

lemma RecvFrom_datagram:
  assumes "bs \<noteq> []" and "length bs \<le> max_len"
  shows "\<exists>buf. RecvFrom (Some (a, bs)) = Some (int (length bs), Some a, buf) \<and> take (length bs) buf = bs"
  using assms by (simp add: RecvFrom_def su_udp_recv_def poke_def max_len_def)

definition clock_ok :: "QuicTime \<Rightarrow> bool" where
  "clock_ok t \<longleftrightarrow> 0 < time_us t \<and> time_us t < 2 ^ 58"

text \<open>The clock of these programs, \<^verbatim>\<open>my_quic_clock.h\<close>, is word for word that of \<^verbatim>\<open>sys_clock.h\<close>; its readings are in range until the year 10680.\<close>

definition MyQuicClock :: "('c \<Rightarrow> (int \<times> int) \<times> 'c) \<Rightarrow> 'c clock_source" where "MyQuicClock = SysClock"

lemma MyQuicClock_reading:
  assumes "gettimeofday c = ((sec, usec), c')" and "0 < sec" "sec < 2 ^ 38 - 1" and "0 \<le> usec" "usec < 1000000"
  shows "\<exists>t. Now (MyQuicClock gettimeofday) c = Some (t, c') \<and> clock_ok t"
proof -
  have u: "0 \<le> usec div 1000" "usec div 1000 < 1000" using assms(4,5) by (simp_all add: pos_imp_zdiv_nonneg_iff)
  have sd: "usec sdiv 1000 = usec div 1000" using assms(4) by (simp add: signed_divide_int_def sgn_if)
  have "iclock64 gettimeofday c = Some (sec * 1000 + usec div 1000, c')"
    using assms u by (simp add: iclock64_def itimeofday_def i64_in sd)
  then show ?thesis using assms(2,3) u
    by (simp add: MyQuicClock_def SysClock_def FromMilliseconds_def time_plus_def i64_in Time_Zero_def clock_ok_def)
qed

lemma ms_since_defined:
  assumes "0 \<le> time_us t" "time_us t < 2 ^ 58" "0 \<le> time_us now" "time_us now < 2 ^ 58" "\<bar>off\<bar> \<le> 2 ^ 62"
  shows "\<exists>ms. ms_since t off now = Some ms"
proof -
  let ?d = "time_us now - time_us t"
  have "?d sdiv 1000 = (if 0 \<le> ?d then ?d div 1000 else - ((- ?d) div 1000))" by (simp add: signed_divide_int_def sgn_if)
  moreover have "0 \<le> a div 1000" "a div 1000 \<le> a" if "0 \<le> a" for a :: int using that by (simp_all add: pos_imp_zdiv_nonneg_iff)
  ultimately have "\<bar>?d sdiv 1000\<bar> \<le> \<bar>?d\<bar>" by (smt (verit, best))
  then have "- (2 ^ 63) \<le> ?d sdiv 1000 + off" "?d sdiv 1000 + off < 2 ^ 63" using assms by simp_all
  moreover have "time_diff now t = Some (Delta ?d)" using assms by (simp add: time_diff_def i64_in)
  ultimately show ?thesis by (simp add: ms_since_def ToMilliseconds_def i64_in)
qed

lemma later_defined: "clock_ok now \<Longrightarrow> 0 \<le> ms \<Longrightarrow> ms < 2 ^ 33 \<Longrightarrow> later ms now = Some (QuicTime (time_us now + ms * 1000))"
  by (simp add: later_def FromMilliseconds_def time_plus_def i64_in clock_ok_def)

text \<open>
  A packet header of \<^verbatim>\<open>my_quic_header\<close> is read back as it was written, whatever follows it: the type of the packet, the length of
  its number, and the number, of which the low 48 bits are sent.
\<close>

theorem header_round_trip:
  assumes "documented q V" and "7 \<le> cap" and "type < 16"
  shows "case start_packet q cap type n of (header, w) \<Rightarrow> case read_flags q (written q w @ left) of (public_flags, sl, r) \<Rightarrow>
     public_flags AND 0x0F = type \<and> sl = hdr_seq_len header \<and> fst (read_or 0 (ReadBytesToUInt64 q (unat sl)) r) = take_bit 48 n \<and>
     length (written q w) = 1 + unat sl"
proof -
  from start_packet_documented [OF assms(1,2)] obtain w where w: "start_packet q cap type n = (\<lparr>hdr_seq_len = of_nat (seq_bytes n), hdr_seq = n\<rparr>, w)"
    "written q w = header_bytes V type n" by blast
  from read_flags_documented [OF assms(1,3)] obtain r where r: "read_flags q (header_bytes V type n @ left) =
     (header_byte type n, of_nat (seq_bytes n), Some r)" "rest V r = int_enc V NETWORK_BYTE_ORDER (seq_bytes n) n @ left"
    "rorder V r = NETWORK_BYTE_ORDER" by blast
  from read_number_documented [OF assms(1) r(2,3)] w r(1) assms(1) show ?thesis
    using seq_bytes_cases [of n]
    by (auto simp: header_byte_type [OF assms(3)] header_bytes_def documented_def encodings_documented_def)
qed

section \<open>The parts of a frame\<close>

lemma fill_splits_all:
  "i + n \<le> length sp \<Longrightarrow> fill_splits n i sp = Some (take i sp @ replicate n (of_nat QUIC_MAX_VIDEO_SIZE) @ drop (i + n) sp)"
proof (induction n arbitrary: i sp)
  case (Suc n)
  then have "take (i + 1) (sp[i := of_nat QUIC_MAX_VIDEO_SIZE]) = take i sp @ [of_nat QUIC_MAX_VIDEO_SIZE]" by (simp add: take_Suc_conv_app_nth)
  with Suc show ?case by simp
qed simp

lemma small_word: "n < 2 ^ 16 \<Longrightarrow> unat (of_nat n :: u16) = n" "n < 2 ^ 16 \<Longrightarrow> uint (of_nat n :: u16) = int n"
proof -
  assume "n < 2 ^ 16"
  then show "unat (of_nat n :: u16) = n" by (simp add: unat_of_nat take_bit_nat_eq_self)
  then show "uint (of_nat n :: u16) = int n" by (metis int_nat_eq of_nat_unat unsigned_greater_eq)
qed

text \<open>A frame goes in parts of \<open>QUIC_MAX_VIDEO_SIZE\<close> bytes and one of what remains.\<close>

definition frame_parts :: "nat \<Rightarrow> int list" where
  "frame_parts n =
     replicate (n div QUIC_MAX_VIDEO_SIZE) (int QUIC_MAX_VIDEO_SIZE) @ (if n mod QUIC_MAX_VIDEO_SIZE = 0 then [] else [int (n mod QUIC_MAX_VIDEO_SIZE)])"

lemma frame_parts_sum: "sum_list (frame_parts n) = int n"
proof -
  have "int n = int QUIC_MAX_VIDEO_SIZE * int (n div QUIC_MAX_VIDEO_SIZE) + int (n mod QUIC_MAX_VIDEO_SIZE)"
    by (metis mult_div_mod_eq of_nat_add of_nat_mult)
  then show ?thesis by (simp add: frame_parts_def sum_list_replicate mult.commute)
qed

lemma frame_parts_size: "x \<in> set (frame_parts n) \<Longrightarrow> 0 \<le> x \<and> x \<le> int QUIC_MAX_VIDEO_SIZE"
proof -
  have "n mod QUIC_MAX_VIDEO_SIZE \<le> QUIC_MAX_VIDEO_SIZE" by (rule less_imp_le, rule mod_less_divisor) (simp add: QUIC_MAX_VIDEO_SIZE_def)
  then show "x \<in> set (frame_parts n) \<Longrightarrow> ?thesis" by (auto simp: frame_parts_def split: if_splits)
qed

lemma FrameSplit_parts:
  assumes n: "0 < n" "n div QUIC_MAX_VIDEO_SIZE < MAX_SPLIT_NUMBER" and len: "length sp = MAX_SPLIT_NUMBER"
  shows "\<exists>total sp'. FrameSplit sp n = Some (total, sp') \<and> 0 < unat total \<and> unat total \<le> length sp' \<and>
     map uint (take (unat total) sp') = frame_parts n"
proof -
  let ?q = "n div QUIC_MAX_VIDEO_SIZE" and ?r = "n mod QUIC_MAX_VIDEO_SIZE"
  have M: "0 < length sp" "length sp < 2 ^ 16 - 1" "QUIC_MAX_VIDEO_SIZE < 2 ^ 16" "0 < QUIC_MAX_VIDEO_SIZE" "?q < length sp"
    using len n by (simp_all add: MAX_SPLIT_NUMBER_def QUIC_MAX_VIDEO_SIZE_def)
  have r: "?r < 2 ^ 16" using mod_less_divisor [OF M(4), of n] M(3) by (rule less_trans)
  have q: "?q < 2 ^ 16" "?q + 1 < 2 ^ 16" using M by simp_all
  show ?thesis
  proof (cases "n \<le> QUIC_MAX_VIDEO_SIZE")
    case True
    then have "n < 2 ^ 16" using M(3) by simp
    moreover obtain x xs where "sp = x # xs" using M(1) by (cases sp) auto
    moreover have "frame_parts n = [int n]"
      using True n(1) by (cases "n = QUIC_MAX_VIDEO_SIZE") (simp_all add: frame_parts_def QUIC_MAX_VIDEO_SIZE_def)
    ultimately show ?thesis using True by (simp add: FrameSplit_def small_word)
  next
    case False
    let ?sp = "replicate ?q (of_nat QUIC_MAX_VIDEO_SIZE) @ drop ?q sp :: u16 list"
    have fs: "fill_splits ?q 0 sp = Some ?sp" using M fill_splits_all [of 0 ?q sp] by simp
    show ?thesis
    proof (cases "?r = 0")
      case True
      have "0 < ?q" using False M(4) by (simp add: div_greater_zero_iff)
      then show ?thesis using False True fs small_word [OF q(1)] M(5) small_word(2) [OF M(3)] by (simp add: FrameSplit_def frame_parts_def)
    next
      case nz: False
      have gt: "(of_nat ?r :: u16) > 0" using nz small_word(1) [OF r] by (simp add: word_less_nat_alt)
      have s1: "unat ((of_nat ?q :: u16) + 1) = ?q + 1" using q small_word(1) [OF q(1)] by (simp add: unat_word_ariths)
      obtain x xs where x: "drop ?q sp = x # xs" using M(5) by (metis Cons_nth_drop_Suc)
      then have "take (?q + 1) (?sp[?q := of_nat ?r]) = replicate ?q (of_nat QUIC_MAX_VIDEO_SIZE) @ [of_nat ?r]" by (simp add: list_update_append)
      moreover have "?q + 1 \<le> length (?sp[?q := of_nat ?r])" "unat (of_nat ?q :: u16) < length ?sp" using M(5) small_word(1) [OF q(1)] by simp_all
      ultimately show ?thesis using False fs gt s1 nz small_word [OF q(1)] small_word(2) [OF r] small_word(2) [OF M(3)]
        by (simp add: FrameSplit_def frame_parts_def)
    qed
  qed
qed

text \<open>The parts of a frame are of at most \<open>QUIC_MAX_VIDEO_SIZE\<close> bytes and add up to it.\<close>

lemma FrameSplit_sum:
  assumes "0 < n" "n div QUIC_MAX_VIDEO_SIZE < MAX_SPLIT_NUMBER" and "length sp = MAX_SPLIT_NUMBER"
  shows "\<exists>total sp'. FrameSplit sp n = Some (total, sp') \<and> 0 < unat total \<and> unat total \<le> length sp' \<and>
     sum_list (map uint (take (unat total) sp')) = int n \<and>
     (\<forall>x \<in> set (take (unat total) sp'). uint x \<le> int QUIC_MAX_VIDEO_SIZE)"
proof -
  from FrameSplit_parts [OF assms] obtain total sp' where p: "FrameSplit sp n = Some (total, sp')" "0 < unat total" "unat total \<le> length sp'"
    "map uint (take (unat total) sp') = frame_parts n" by blast
  moreover have "uint x \<in> set (frame_parts n)" if "x \<in> set (take (unat total) sp')" for x using that p(4) by (metis image_eqI list.set_map)
  ultimately show ?thesis using frame_parts_sum [of n] frame_parts_size [of _ n] by auto
qed

section \<open>The source of video\<close>

text \<open>A source that is asked at some times.\<close>

fun frames_at :: "QuicTime list \<Rightarrow> FakeVideoGenerator \<Rightarrow> (int list \<times> FakeVideoGenerator) option" where
  "frames_at [] g = Some ([], g)"
| "frames_at (t # ts) g = do {
     (n, g) \<leftarrow> GetFrame t g;
     (ns, g) \<leftarrow> frames_at ts g;
     Some (n # ns, g)
   }"

definition source_ok :: "FakeVideoGenerator \<Rightarrow> bool" where
  "source_ok g \<longleftrightarrow> 0 \<le> rate g \<and> rate g < 2 ^ 31 \<and> 0 \<le> duration g \<and> duration g \<le> 1000"

definition frame_size :: "FakeVideoGenerator \<Rightarrow> int" where
  "frame_size g = rate g * duration g div 8000"

lemma sdiv_pos: "0 \<le> a \<Longrightarrow> 0 < b \<Longrightarrow> a sdiv b = a div (b :: int)"
  by (simp add: signed_divide_int_def sgn_if)

lemma rate_times_duration:
  assumes "source_ok g"
  shows "i64 (rate g * duration g) = Some (rate g * duration g)" "0 \<le> rate g * duration g"
proof -
  from assms have "rate g * duration g \<le> 2 ^ 31 * 1000" by (intro mult_mono) (auto simp: source_ok_def)
  moreover from assms show "0 \<le> rate g * duration g" by (simp add: source_ok_def)
  ultimately show "i64 (rate g * duration g) = Some (rate g * duration g)" by (intro i64_in) auto
qed

lemma GetFrame_defined:
  assumes g: "source_ok g" and now: "0 \<le> time_us now" "time_us now < 2 ^ 58"
  shows "GetFrame now g = Some (if now > next_frame g then (frame_size g, g\<lparr>next_frame := QuicTime (time_us now + 1000 * duration g)\<rparr>) else (0, g))"
proof -
  have "FromMilliseconds (duration g) = Some (Delta (1000 * duration g))"
    using g by (simp add: FromMilliseconds_def source_ok_def i64_in mult.commute)
  moreover have "time_plus now (Delta (1000 * duration g)) = Some (QuicTime (time_us now + 1000 * duration g))"
    using g now by (simp add: time_plus_def source_ok_def i64_in)
  ultimately show ?thesis using rate_times_duration [OF g] by (simp add: GetFrame_def frame_size_def sdiv_pos)
qed

text \<open>Between two frames that are not empty lies the time of a frame.\<close>

lemma frames_at_count:
  assumes "source_ok g" and "sorted (map time_us ts)" and "\<forall>t \<in> set ts. 0 \<le> time_us t \<and> time_us t \<le> fin" and "fin < 2 ^ 58"
  shows "\<exists>ns g' m. frames_at ts g = Some (ns, g') \<and> sum_list ns = int m * frame_size g \<and>
     int m * (1000 * duration g) \<le> max 0 (fin - time_us (next_frame g) + 1000 * duration g) \<and> length ns = length ts"
  using assms
proof (induction ts arbitrary: g)
  case Nil
  show ?case by (auto intro: exI [of _ 0])
next
  case (Cons t ts)
  then have t: "0 \<le> time_us t" "time_us t < 2 ^ 58" and le: "time_us t \<le> fin" by auto
  let ?g = "if t > next_frame g then g\<lparr>next_frame := QuicTime (time_us t + 1000 * duration g)\<rparr> else g"
  have "source_ok ?g" using Cons.prems(1) by (simp add: source_ok_def)
  from Cons.IH [OF this] Cons.prems obtain ns g' m where ih: "frames_at ts ?g = Some (ns, g')" "sum_list ns = int m * frame_size ?g"
    "int m * (1000 * duration ?g) \<le> max 0 (fin - time_us (next_frame ?g) + 1000 * duration ?g)" "length ns = length ts" by auto
  show ?case
  proof (cases "t > next_frame g")
    case True
    then have "int (Suc m) * (1000 * duration g) \<le> max 0 (fin - time_us (next_frame g) + 1000 * duration g)"
      using ih(3) le Cons.prems(1) by (auto simp: algebra_simps less_QuicTime_def source_ok_def)
    then show ?thesis using True ih Cons.prems(1) t
      by (intro exI [of _ "frame_size g # ns"] exI [of _ g'] exI [of _ "Suc m"]) (simp add: GetFrame_defined frame_size_def algebra_simps)
  next
    case False
    then show ?thesis using ih Cons.prems(1) t
      by (intro exI [of _ "0 # ns"] exI [of _ g'] exI [of _ m]) (simp add: GetFrame_defined)
  qed
qed

lemma frames_at_bits:
  assumes g: "source_ok g" and ts: "sorted (map time_us (t # ts))" "\<forall>u \<in> set (t # ts). 0 \<le> time_us u \<and> time_us u \<le> fin" "fin < 2 ^ 58"
  shows "\<exists>ns g'. frames_at (t # ts) g = Some (ns, g') \<and> 8000000 * sum_list ns \<le> rate g * (fin - time_us t + 1000 * duration g)"
proof -
  let ?d = "1000 * duration g" and ?g = "if t > next_frame g then g\<lparr>next_frame := QuicTime (time_us t + 1000 * duration g)\<rparr> else g"
  have t: "0 \<le> time_us t" "time_us t < 2 ^ 58" "time_us t \<le> fin" using ts by auto
  have ok: "source_ok ?g" and ts': "sorted (map time_us ts)" "\<forall>u \<in> set ts. 0 \<le> time_us u \<and> time_us u \<le> fin"
    using g ts by (simp_all add: source_ok_def)
  from frames_at_count [OF ok ts' ts(3)] obtain ns g' m where f: "frames_at ts ?g = Some (ns, g')" "sum_list ns = int m * frame_size g"
    "int m * ?d \<le> max 0 (fin - time_us (next_frame ?g) + ?d)" by (auto simp: frame_size_def split: if_splits)
  let ?m = "if t > next_frame g then Suc m else m" and ?n = "if t > next_frame g then frame_size g else 0"
  have "int ?m * ?d \<le> fin - time_us t + ?d" using f(3) t g by (auto simp: algebra_simps less_QuicTime_def source_ok_def split: if_splits)
  then have "rate g * (int ?m * ?d) \<le> rate g * (fin - time_us t + ?d)" by (rule mult_left_mono) (use g in \<open>simp add: source_ok_def\<close>)
  moreover have "8000 * frame_size g \<le> rate g * duration g" by (simp add: frame_size_def)
  then have "int ?m * 1000 * (8000 * frame_size g) \<le> int ?m * 1000 * (rate g * duration g)" by (rule mult_left_mono) simp
  moreover have "frames_at (t # ts) g = Some (?n # ns, g')"
    using f(1) GetFrame_defined [OF g t(1,2)] by (cases "t > next_frame g") simp_all
  moreover have "sum_list (?n # ns) = int ?m * frame_size g" using f(2) by (simp add: algebra_simps)
  ultimately show ?thesis by (intro exI [of _ "?n # ns"] exI [of _ g']) (simp add: algebra_simps)
qed

text \<open>
  C32: a source of at most 1000 frames a second keeps to its rate: whenever it is asked, the frames it gives between two times are
  never more bits than the rate allows for that time and one frame more. The rate it is asked for is never below the first one, and
  not above 2 Mbit/s unless the first one is.
\<close>

theorem source_keeps_rate:
  assumes g: "FakeVideoGenerator_new fs start_rate = Some g0" and fs: "1 \<le> fs" "fs \<le> 1000" and start: "0 \<le> start_rate" "start_rate < 2 ^ 31"
    and g1: "g = UpdataRate bps g0\<lparr>next_frame := nxt\<rparr>"
    and ts: "sorted (map time_us (t # ts))" "0 \<le> time_us t" "time_us (last (t # ts)) < 2 ^ 58"
  shows "start_rate \<le> rate g \<and> rate g \<le> max start_rate 2000000 \<and>
     (\<exists>ns g'. frames_at (t # ts) g = Some (ns, g') \<and>
        8000000 * sum_list ns \<le> rate g * (time_us (last (t # ts)) - time_us t + 1000 * duration g))"
proof -
  let ?fin = "time_us (last (t # ts))"
  from g fs have d: "duration g = 1000 div fs" "min_rate g0 = start_rate" "max_rate g0 = 2000000"
    by (auto simp: FakeVideoGenerator_new_def g1 UpdataRate_def Let_def sdiv_pos split: if_splits)
  have r: "start_rate \<le> rate g \<and> rate g \<le> max start_rate 2000000" using d by (auto simp: g1 UpdataRate_def Let_def)
  moreover have "1000 div fs \<le> 1000" "0 \<le> 1000 div fs" using fs by (simp_all add: div_le_dividend pos_imp_zdiv_nonneg_iff zdiv_mono2 [of 1000 1 fs, simplified])
  ultimately have ok: "source_ok g" using start d(1) by (auto simp: source_ok_def)
  have le: "time_us t \<le> time_us u \<and> time_us u \<le> ?fin" if "u \<in> set (t # ts)" for u
  proof -
    from that obtain i where i: "i < length (t # ts)" "u = (t # ts) ! i" by (metis in_set_conv_nth)
    have "map time_us (t # ts) ! 0 \<le> map time_us (t # ts) ! i" by (rule sorted_nth_mono [OF ts(1)]) (use i in auto)
    moreover have "map time_us (t # ts) ! i \<le> map time_us (t # ts) ! length ts" by (rule sorted_nth_mono [OF ts(1)]) (use i in auto)
    ultimately show ?thesis using i nth_map [of i "t # ts" time_us] nth_map [of "length ts" "t # ts" time_us]
      last_conv_nth [of "t # ts"] by (simp del: list.map last.simps)
  qed
  from frames_at_bits [OF ok ts(1), of ?fin] le ts(2,3) obtain ns g' where "frames_at (t # ts) g = Some (ns, g')"
    "8000000 * sum_list ns \<le> rate g * (?fin - time_us t + 1000 * duration g)" by fastforce
  with r show ?thesis by blast
qed

theorem header_round_trip_witness:
  "case start_packet demo 1400 2 70000 of (header, w) \<Rightarrow> case read_flags demo (written demo w @ [7]) of (public_flags, sl, r) \<Rightarrow>
     public_flags AND 0x0F = 2 \<and> sl = hdr_seq_len header \<and> fst (read_or 0 (ReadBytesToUInt64 demo (unat sl)) r) = take_bit 48 70000 \<and>
     length (written demo w) = 1 + unat sl"
  by (rule header_round_trip [OF demo_documented]) simp_all

definition demo_source :: FakeVideoGenerator where
  "demo_source = \<lparr>min_rate = 500000, rate = 800000, max_rate = 2000000, duration = 40, next_frame = Time_Zero\<rparr>"

theorem source_keeps_rate_witness:
  "500000 \<le> rate demo_source \<and> rate demo_source \<le> max 500000 2000000 \<and>
     (\<exists>ns g'. frames_at [QuicTime 1000, QuicTime 50000] demo_source = Some (ns, g') \<and>
        8000000 * sum_list ns \<le> rate demo_source * (time_us (last [QuicTime 1000, QuicTime 50000]) - time_us (QuicTime 1000) + 1000 * duration demo_source))"
proof (rule source_keeps_rate)
  show "FakeVideoGenerator_new 25 500000 = Some (demo_source\<lparr>rate := 500000\<rparr>)" by (simp add: FakeVideoGenerator_new_def demo_source_def signed_divide_int_def)
  show "demo_source = UpdataRate 800000 (demo_source\<lparr>rate := 500000\<rparr>)\<lparr>next_frame := Time_Zero\<rparr>" by (simp add: demo_source_def UpdataRate_def)
qed simp_all

end
