(* ===== verification/Bbr_Apps.thy ===== *)
theory Bbr_Apps
  imports Quic_Apps Bbr_Sender
begin

text \<open>
  The programs of \<^verbatim>\<open>mybbr/\<close> that run the congestion control over UDP: \<^verbatim>\<open>my_bbr_sender_app\<close> sends packets as fast as the pacing
  allows, \<^verbatim>\<open>my_bbr_video_sender_app\<close> those of a source of video, and \<^verbatim>\<open>my_bbr_receiver_app\<close> acknowledges every one and notes the gaps.
  Each has a method \<open>Process\<close> that is called over and over; its clock readings and the datagram that the socket finds are arguments,
  the datagrams it sends and the lines of its files are lists in its state. \<open>None\<close> is undefined behaviour.
\<close>

section \<open>The protocol\<close>

definition test_proto_stream :: u8 where "test_proto_stream = 0"
definition test_proto_padding :: u8 where "test_proto_padding = 1"
definition test_proto_ack :: u8 where "test_proto_ack = 2"

definition App_MaxPacketSize :: nat where "App_MaxPacketSize = 1400"

section \<open>The receiver\<close>

record bbr_receiver =
  ra_first :: bool
  ra_peer :: "su_addr option"
  ra_base_seq :: u64
  ra_stop :: QuicTime
  ra_duration :: u32
  ra_ref_time :: QuicTime
  ra_next :: QuicTime
  ra_recv_byte :: u64
  ra_offset :: int
  ra_enable_loss_record :: bool
  ra_enable_rate_record :: bool
  ra_loss :: log_file
  ra_rate :: log_file
  ra_sent :: "(su_addr \<times> bytes) list"

definition MyBbrReceiverApp :: bbr_receiver where
  "MyBbrReceiverApp = \<lparr>ra_first = True, ra_peer = None, ra_base_seq = 0, ra_stop = Time_Zero, ra_duration = 0, ra_ref_time = Time_Zero,
     ra_next = Time_Zero, ra_recv_byte = 0, ra_offset = 0, ra_enable_loss_record = False, ra_enable_rate_record = False, ra_loss = None,
     ra_rate = None, ra_sent = []\<rparr>"

definition RA_set_duration :: "u32 \<Rightarrow> bbr_receiver \<Rightarrow> bbr_receiver" where "RA_set_duration ms s = s\<lparr>ra_duration := ms\<rparr>"
definition RA_SetTimeOffset :: "int \<Rightarrow> bbr_receiver \<Rightarrow> bbr_receiver" where "RA_SetTimeOffset offset s = s\<lparr>ra_offset := offset\<rparr>"

text \<open>The files are named after a prefix; the argument tells whether the file could be opened.\<close>

definition RA_EnableRateRecord :: "bool \<Rightarrow> bbr_receiver \<Rightarrow> bbr_receiver" where
  "RA_EnableRateRecord opened s = s\<lparr>ra_enable_rate_record := True, ra_rate := (if opened then Some [] else None)\<rparr>"

definition RA_EnableLossRecord :: "bool \<Rightarrow> bbr_receiver \<Rightarrow> bbr_receiver" where
  "RA_EnableLossRecord opened s = s\<lparr>ra_enable_loss_record := True, ra_loss := (if opened then Some [] else None)\<rparr>"

definition RA_RecordLoss :: "QuicTime \<Rightarrow> u64 \<Rightarrow> bbr_receiver \<Rightarrow> bbr_receiver option" where
  "RA_RecordLoss now seq s =
     (if ra_enable_loss_record s
      then map_option (\<lambda>abs. s\<lparr>ra_loss := add_line (word_of_int abs) seq (ra_loss s)\<rparr>) (ms_since (ra_ref_time s) (ra_offset s) now)
      else Some s)"

definition RA_RecordRate :: "QuicTime \<Rightarrow> bbr_receiver \<Rightarrow> bbr_receiver option" where
  "RA_RecordRate now s =
     (if ra_enable_rate_record s
      then if ra_next s = Time_Zero then map_option (\<lambda>t. s\<lparr>ra_next := t\<rparr>) (later 500 now)
           else if now > ra_next s
           then do {
             let kbps = ra_recv_byte s * 8 div 500;
             t \<leftarrow> later 500 now;
             abs \<leftarrow> ms_since (ra_ref_time s) (ra_offset s) now;
             Some (s\<lparr>ra_next := t, ra_recv_byte := 0, ra_rate := add_line (word_of_int abs) kbps (ra_rate s)\<rparr>)
           }
           else Some s
      else Some s)"

definition RA_SendAck :: "('r, 'w) quic \<Rightarrow> u64 \<Rightarrow> bbr_receiver \<Rightarrow> bbr_receiver option" where
  "RA_SendAck q packet_number s =
     (case start_packet q App_MaxPacketSize test_proto_ack packet_number of
        (header, w) \<Rightarrow>
          let total_len = wlength q w
          in map_option (\<lambda>p. s\<lparr>ra_sent := ra_sent s @ [(p, take total_len (filled q App_MaxPacketSize w))]\<rparr>) (ra_peer s))"

text \<open>The loop over the numbers that are missing; \<open>nows\<close> gives the reading of the clock for each.\<close>

function RA_losses :: "(u64 \<Rightarrow> QuicTime) \<Rightarrow> u64 \<Rightarrow> u64 \<Rightarrow> bbr_receiver \<Rightarrow> bbr_receiver option" where
  "RA_losses nows i seq s = (if i < seq then Option.bind (RA_RecordLoss (nows i) i s) (RA_losses nows (i + 1) seq) else Some s)"
  by auto
termination
proof (relation "measure (\<lambda>(_, i, seq, _). unat (seq - i))")
  fix nows :: "u64 \<Rightarrow> QuicTime" and i seq :: u64 and s x :: bbr_receiver
  assume "i < seq"
  then have "unat i < unat seq" "unat (i + 1) = unat i + 1" by (simp_all add: word_less_nat_alt unat_next)
  then show "((nows, i + 1, seq, x), (nows, i, seq, s)) \<in> measure (\<lambda>(_, i, seq, _). unat (seq - i))"
    by (simp add: unat_sub_if')
qed simp

declare RA_losses.simps [simp del]

definition RA_OnIncomingData :: "('r, 'w) quic \<Rightarrow> (u64 \<Rightarrow> QuicTime) \<Rightarrow> bytes \<Rightarrow> bbr_receiver \<Rightarrow> bbr_receiver option" where
  "RA_OnIncomingData q nows dat s =
     (let s = s\<lparr>ra_recv_byte := ra_recv_byte s + of_nat (length dat)\<rparr> in
      case read_flags q dat of
        (public_flags, sl, r) \<Rightarrow>
          let type = public_flags AND 0x0F in
          if type = test_proto_stream \<or> type = test_proto_padding
          then do {
            let seq = fst (read_or 0 (ReadBytesToUInt64 q (unat sl)) r);
            s \<leftarrow> RA_SendAck q seq s;
            s \<leftarrow> (if seq > ra_base_seq s + 1 then RA_losses nows (ra_base_seq s + 1) seq s else Some s);
            Some (if seq \<ge> ra_base_seq s + 1 then s\<lparr>ra_base_seq := seq\<rparr> else s)
          }
          else Some s)"

definition RA_Process :: "('r, 'w) quic \<Rightarrow> (su_addr \<times> bytes) option \<Rightarrow> QuicTime \<Rightarrow> (u64 \<Rightarrow> QuicTime) \<Rightarrow> bbr_receiver \<Rightarrow> (bool \<times> bbr_receiver) option" where
  "RA_Process q incoming now nows s = do {
     (recv, remote, buf) \<leftarrow> RecvFrom incoming;
     s \<leftarrow> (if recv > 0
           then do {
             let s = (if ra_ref_time s = Time_Zero then s\<lparr>ra_ref_time := now\<rparr> else s);
             s \<leftarrow> (if ra_first s
                   then map_option (\<lambda>t. s\<lparr>ra_peer := remote, ra_first := False, ra_stop := t\<rparr>) (later (uint (ra_duration s)) now)
                   else Some s);
             RA_OnIncomingData q nows (take (nat recv) buf) s
           }
           else Some s);
     let ret = \<not> (\<not> ra_first s \<and> now > ra_stop s);
     s \<leftarrow> RA_RecordRate now s;
     Some (ret, s)
   }"

section \<open>The sender\<close>

text \<open>
  The pacing sender and the congestion control are a pair, as in \<open>Bbr_Sender\<close>. The video sender has the same members and two more, and its
  methods are copies but for the rate that it records.
\<close>

record ('b, 'f, 'r) bbr_app =
  sa_peer :: "su_addr option"
  sa_seq :: u32
  sa_next :: QuicTime
  sa_ref_time :: QuicTime
  sa_stop :: QuicTime
  sa_enable_log :: bool
  sa_rate :: log_file
  sa_offset :: int
  sa_pacing :: "pacing \<times> ('b, 'f, 'r) bbr option"
  sa_sent :: "(su_addr \<times> bytes) list"

definition MyBbrSenderApp :: "('b, 'f, 'r) bbr_lib \<Rightarrow> 'r \<Rightarrow> u64 \<Rightarrow> u64 \<Rightarrow> u64 \<Rightarrow> ('b, 'f, 'r) bbr_app" where
  "MyBbrSenderApp lib rnd min_b start_b max_b =
     \<lparr>sa_peer = None, sa_seq = 1, sa_next = Time_Zero, sa_ref_time = Time_Zero, sa_stop = Time_Zero, sa_enable_log = False, sa_rate = None,
      sa_offset = 0, sa_pacing = (MyPacingSender, Some (MyBbrSender lib rnd min_b start_b max_b)), sa_sent = []\<rparr>"

definition SA_set_peer :: "su_addr \<Rightarrow> ('b, 'f, 'r, 'x) bbr_app_scheme \<Rightarrow> ('b, 'f, 'r, 'x) bbr_app_scheme" where
  "SA_set_peer p s = s\<lparr>sa_peer := Some p\<rparr>"

definition SA_SetTimeOffset :: "int \<Rightarrow> ('b, 'f, 'r, 'x) bbr_app_scheme \<Rightarrow> ('b, 'f, 'r, 'x) bbr_app_scheme" where
  "SA_SetTimeOffset offset s = s\<lparr>sa_offset := offset\<rparr>"

definition SA_set_duration :: "u32 \<Rightarrow> QuicTime \<Rightarrow> ('b, 'f, 'r, 'x) bbr_app_scheme \<Rightarrow> ('b, 'f, 'r, 'x) bbr_app_scheme option" where
  "SA_set_duration ms now s = map_option (\<lambda>t. s\<lparr>sa_stop := t\<rparr>) (later (uint ms) now)"

definition SA_EnableRateRecord :: "bool \<Rightarrow> ('b, 'f, 'r, 'x) bbr_app_scheme \<Rightarrow> ('b, 'f, 'r, 'x) bbr_app_scheme" where
  "SA_EnableRateRecord opened s = s\<lparr>sa_enable_log := True, sa_rate := (if opened then Some [] else None)\<rparr>"

text \<open>
  The three methods that send build the packet in a buffer of \<open>MaxPacketSize\<close> bytes and send the first \<open>kMaxPacketSize\<close> bytes of it,
  which must be in the buffer; \<open>kMaxPacketSize\<close> is the library's.
\<close>

definition send_from_buffer ::
  "('r, 'w) quic \<Rightarrow> ('b, 'f, 'g) bbr_lib \<Rightarrow> u8 \<Rightarrow> QuicTime \<Rightarrow> ('b, 'f, 'g, 'x) bbr_app_scheme \<Rightarrow> ('b, 'f, 'g, 'x) bbr_app_scheme option" where
  "send_from_buffer q lib type now s =
     (case start_packet q App_MaxPacketSize type (ucast (sa_seq s)) of
        (header, w) \<Rightarrow> do {
          let s = s\<lparr>sa_seq := sa_seq s + 1\<rparr>;
          p \<leftarrow> sa_peer s;
          s \<leftarrow> (if len q MaxPacketSize \<le> App_MaxPacketSize
                then Some (s\<lparr>sa_sent := sa_sent s @ [(p, take (len q MaxPacketSize) (filled q App_MaxPacketSize w))]\<rparr>)
                else None);
          let payload = (of_nat App_MaxPacketSize - (1 + ucast (hdr_seq_len header)) :: u16);
          pc \<leftarrow> Pacing_OnPacketSent lib now (hdr_seq header) (ucast payload) (sa_pacing s);
          Some (s\<lparr>sa_pacing := pc\<rparr>)
        })"

definition SA_SendFakePacket ::
  "('r, 'w) quic \<Rightarrow> ('b, 'f, 'g) bbr_lib \<Rightarrow> QuicTime \<Rightarrow> ('b, 'f, 'g, 'x) bbr_app_scheme \<Rightarrow> ('b, 'f, 'g, 'x) bbr_app_scheme option" where
  "SA_SendFakePacket q lib now s = send_from_buffer q lib test_proto_stream now s"

text \<open>The datagram, of up to 1500 bytes, is copied into a buffer of 1400.\<close>

definition SA_ProcessAckFrame ::
  "('r, 'w) quic \<Rightarrow> ('b, 'f, 'g) bbr_lib \<Rightarrow> QuicTime \<Rightarrow> bytes \<Rightarrow> ('b, 'f, 'g, 'x) bbr_app_scheme \<Rightarrow> ('b, 'f, 'g, 'x) bbr_app_scheme option" where
  "SA_ProcessAckFrame q lib now dat s = do {
     buf \<leftarrow> poke (replicate App_MaxPacketSize 0) 0 dat;
     (case read_flags q (take (length dat) buf) of
        (public_flags, sl, r) \<Rightarrow>
          let type = public_flags AND 0x0F in
          if type = test_proto_ack
          then let num = fst (read_or 0 (ReadBytesToUInt64 q (unat sl)) r)
               in map_option (\<lambda>pc. s\<lparr>sa_pacing := pc\<rparr>) (OnCongestionEvent lib now num (sa_pacing s))
          else Some s)
   }"

text \<open>A line of the file of rates, written every 100 ms; \<open>kbits\<close> is what the congestion control reports.\<close>

definition record_rate :: "('b, 'f, 'g) bbr_lib \<Rightarrow> (('b, 'f, 'g) bbr_lib \<Rightarrow> ('b, 'f, 'g) bbr \<Rightarrow> 'b) \<Rightarrow> ('b \<Rightarrow> int) \<Rightarrow> QuicTime \<Rightarrow>
    ('b, 'f, 'g, 'x) bbr_app_scheme \<Rightarrow> ('b, 'f, 'g, 'x) bbr_app_scheme option" where
  "record_rate lib estimate ToKBitsPerSecond now s =
     (if sa_next s = Time_Zero then map_option (\<lambda>t. s\<lparr>sa_next := t\<rparr>) (later 100 now)
      else if now > sa_next s
      then do {
        ms \<leftarrow> ms_since (sa_ref_time s) (sa_offset s) now;
        cc \<leftarrow> snd (sa_pacing s);
        let bw = ToKBitsPerSecond (estimate lib cc);
        t \<leftarrow> later 100 now;
        Some (s\<lparr>sa_rate := add_line (word_of_int ms) (word_of_int bw) (sa_rate s), sa_next := t\<rparr>)
      }
      else Some s)"

definition SA_RecordRate :: "('b, 'f, 'g) bbr_lib \<Rightarrow> ('b \<Rightarrow> int) \<Rightarrow> QuicTime \<Rightarrow> ('b, 'f, 'g, 'x) bbr_app_scheme \<Rightarrow> ('b, 'f, 'g, 'x) bbr_app_scheme option" where
  "SA_RecordRate lib ToKBitsPerSecond now s = record_rate lib GetReferenceRate ToKBitsPerSecond now s"

definition SA_Process :: "('r, 'w) quic \<Rightarrow> ('b, 'f, 'g) bbr_lib \<Rightarrow> ('b \<Rightarrow> int) \<Rightarrow> (su_addr \<times> bytes) option \<Rightarrow> QuicTime \<Rightarrow>
    ('b, 'f, 'g) bbr_app \<Rightarrow> (bool \<times> ('b, 'f, 'g) bbr_app) option" where
  "SA_Process q lib ToKBitsPerSecond incoming now s = do {
     let s = (if sa_ref_time s = Time_Zero then s\<lparr>sa_ref_time := now\<rparr> else s);
     d \<leftarrow> TimeUntilSend now (fst (sa_pacing s));
     s \<leftarrow> (if d = Delta_Zero then SA_SendFakePacket q lib now s else Some s);
     (recv, remote, buf) \<leftarrow> RecvFrom incoming;
     s \<leftarrow> (if recv > 0 then SA_ProcessAckFrame q lib now (take (nat recv) buf) s else Some s);
     let ret = \<not> (sa_stop s \<noteq> Time_Zero \<and> now > sa_stop s);
     s \<leftarrow> SA_RecordRate lib ToKBitsPerSecond now s;
     Some (ret, s)
   }"

section \<open>The video sender\<close>

record ('b, 'f, 'r) bbr_video_app = "('b, 'f, 'r) bbr_app" +
  va_source :: "FakeVideoGenerator option"
  va_pending_queue :: "int list"

definition MyBbrVideoSenderApp :: "('b, 'f, 'r) bbr_lib \<Rightarrow> 'r \<Rightarrow> u64 \<Rightarrow> u64 \<Rightarrow> u64 \<Rightarrow> ('b, 'f, 'r) bbr_video_app" where
  "MyBbrVideoSenderApp lib rnd min_b start_b max_b =
     \<lparr>sa_peer = None, sa_seq = 1, sa_next = Time_Zero, sa_ref_time = Time_Zero, sa_stop = Time_Zero, sa_enable_log = False, sa_rate = None,
      sa_offset = 0, sa_pacing = (MyPacingSender, Some (MyBbrSender lib rnd min_b start_b max_b)), sa_sent = [], va_source = None,
      va_pending_queue = []\<rparr>"

definition SetVideoSource :: "FakeVideoGenerator \<Rightarrow> ('b, 'f, 'r) bbr_video_app \<Rightarrow> ('b, 'f, 'r) bbr_video_app" where
  "SetVideoSource source s = s\<lparr>va_source := Some source\<rparr>"

definition VA_set_duration :: "u32 \<Rightarrow> QuicTime \<Rightarrow> ('b, 'f, 'r) bbr_video_app \<Rightarrow> ('b, 'f, 'r) bbr_video_app option" where
  "VA_set_duration ms now s = map_option (\<lambda>t. s\<lparr>sa_stop := t\<rparr>) (later (uint ms) now)"

definition VA_EnableRateRecord :: "bool \<Rightarrow> ('b, 'f, 'r) bbr_video_app \<Rightarrow> ('b, 'f, 'r) bbr_video_app" where
  "VA_EnableRateRecord opened s = s\<lparr>sa_enable_log := True, sa_rate := (if opened then Some [] else None)\<rparr>"

definition VA_RecordRate :: "('b, 'f, 'r) bbr_lib \<Rightarrow> ('b \<Rightarrow> int) \<Rightarrow> QuicTime \<Rightarrow> ('b, 'f, 'r) bbr_video_app \<Rightarrow> ('b, 'f, 'r) bbr_video_app option" where
  "VA_RecordRate lib ToKBitsPerSecond now s = record_rate lib BandwidthEstimate ToKBitsPerSecond now s"

definition VA_SendFakePacket ::
  "('r, 'w) quic \<Rightarrow> ('b, 'f, 'g) bbr_lib \<Rightarrow> QuicTime \<Rightarrow> ('b, 'f, 'g) bbr_video_app \<Rightarrow> ('b, 'f, 'g) bbr_video_app option" where
  "VA_SendFakePacket q lib now s = send_from_buffer q lib test_proto_stream now s"

definition VA_SendPaddingPacket ::
  "('r, 'w) quic \<Rightarrow> ('b, 'f, 'g) bbr_lib \<Rightarrow> QuicTime \<Rightarrow> ('b, 'f, 'g) bbr_video_app \<Rightarrow> ('b, 'f, 'g) bbr_video_app option" where
  "VA_SendPaddingPacket q lib now s = send_from_buffer q lib test_proto_padding now s"

definition VA_SendDataOrPadding ::
  "('r, 'w) quic \<Rightarrow> ('b, 'f, 'g) bbr_lib \<Rightarrow> QuicTime \<Rightarrow> ('b, 'f, 'g) bbr_video_app \<Rightarrow> ('b, 'f, 'g) bbr_video_app option" where
  "VA_SendDataOrPadding q lib now s =
     (if va_pending_queue s = []
      then do {
        cc \<leftarrow> snd (sa_pacing s);
        (if ShouldSendProbePacket cc then VA_SendPaddingPacket q lib now s else Some s)
      }
      else VA_SendFakePacket q lib now s)"

definition VA_ProcessAckFrame ::
  "('r, 'w) quic \<Rightarrow> ('b, 'f, 'g) bbr_lib \<Rightarrow> QuicTime \<Rightarrow> bytes \<Rightarrow> ('b, 'f, 'g) bbr_video_app \<Rightarrow> ('b, 'f, 'g) bbr_video_app option" where
  "VA_ProcessAckFrame q lib now dat s = SA_ProcessAckFrame q lib now dat s"

text \<open>A frame is asked for and its parts are queued; an assertion that fails ends the program.\<close>

definition VA_queue_frame :: "QuicTime \<Rightarrow> ('b, 'f, 'g) bbr_video_app \<Rightarrow> ('b, 'f, 'g) bbr_video_app option" where
  "VA_queue_frame now s = do {
     source \<leftarrow> va_source s;
     (frame_len, source) \<leftarrow> GetFrame now source;
     let s = s\<lparr>va_source := Some source\<rparr>;
     (if frame_len > 0
      then if frame_len sdiv int QUIC_MAX_VIDEO_SIZE < int MAX_SPLIT_NUMBER
           then do {
             (total, splits) \<leftarrow> FrameSplit (replicate MAX_SPLIT_NUMBER 0) (nat frame_len);
             Some (s\<lparr>va_pending_queue := va_pending_queue s @ map uint (take (unat total) splits)\<rparr>)
           }
           else None
      else Some s)
   }"

definition VA_Process :: "('r, 'w) quic \<Rightarrow> ('b, 'f, 'g) bbr_lib \<Rightarrow> ('b \<Rightarrow> int) \<Rightarrow> (su_addr \<times> bytes) option \<Rightarrow> QuicTime \<Rightarrow>
    ('b, 'f, 'g) bbr_video_app \<Rightarrow> (bool \<times> ('b, 'f, 'g) bbr_video_app) option" where
  "VA_Process q lib ToKBitsPerSecond incoming now s = do {
     let s = (if sa_ref_time s = Time_Zero then s\<lparr>sa_ref_time := now\<rparr> else s);
     s \<leftarrow> VA_queue_frame now s;
     d \<leftarrow> TimeUntilSend now (fst (sa_pacing s));
     s \<leftarrow> (if d = Delta_Zero then VA_SendDataOrPadding q lib now s else Some s);
     (recv, remote, buf) \<leftarrow> RecvFrom incoming;
     s \<leftarrow> (if recv > 0 then VA_ProcessAckFrame q lib now (take (nat recv) buf) s else Some s);
     let ret = \<not> (sa_stop s \<noteq> Time_Zero \<and> now > sa_stop s);
     s \<leftarrow> VA_RecordRate lib ToKBitsPerSecond now s;
     Some (ret, s)
   }"

end
