(* ===== verification/App_Receiver.thy ===== *)
theory App_Receiver
  imports Bbr_Apps
begin

text \<open>
  The receiving program: it acknowledges every packet once, in the order of arrival, and its file of losses is that of an abstract
  receiver that only knows the largest number so far. The second section is about that abstract receiver alone.
\<close>

section \<open>Acknowledgements\<close>

lemma proto_types: "test_proto_stream < 16" "test_proto_padding < 16" "test_proto_ack < 16"
  "test_proto_stream \<noteq> test_proto_ack" "test_proto_padding \<noteq> test_proto_ack"
  by (simp_all add: test_proto_stream_def test_proto_padding_def test_proto_ack_def)

lemma RA_SendAck_documented:
  assumes q: "documented q V" and p: "ra_peer s = Some p"
  shows "RA_SendAck q n s = Some (s\<lparr>ra_sent := ra_sent s @ [(p, header_bytes V test_proto_ack n)]\<rparr>)"
proof -
  have "7 \<le> App_MaxPacketSize" by (simp add: App_MaxPacketSize_def)
  from start_packet_documented [OF q this] obtain w where w: "start_packet q App_MaxPacketSize test_proto_ack n =
     (\<lparr>hdr_seq_len = of_nat (seq_bytes n), hdr_seq = n\<rparr>, w)" "written q w = header_bytes V test_proto_ack n" by blast
  moreover have "wlength q w = length (written q w)" using q by (simp add: documented_def writer_documented_def)
  ultimately show ?thesis using p by (simp add: RA_SendAck_def filled_def)
qed

section \<open>The abstract receiver\<close>

record gaps =
  seen_max :: nat
  lost :: "nat list"
  acked :: "nat list"

definition no_gaps :: gaps where "no_gaps = \<lparr>seen_max = 0, lost = [], acked = []\<rparr>"

definition note_packet :: "nat \<Rightarrow> gaps \<Rightarrow> gaps" where
  "note_packet n g = \<lparr>seen_max = max (seen_max g) n, lost = lost g @ [seen_max g + 1 ..< n], acked = acked g @ [n]\<rparr>"

lemma note_packet_sel:
  "seen_max (note_packet n g) = max (seen_max g) n" "lost (note_packet n g) = lost g @ [seen_max g + 1 ..< n]"
  "acked (note_packet n g) = acked g @ [n]"
  by (simp_all add: note_packet_def)

lemma largest_append: "Max (insert 0 (set (ns @ [n]))) = max (Max (insert 0 (set ns))) n" for n :: nat
proof -
  have "insert 0 (set (ns @ [n])) = insert n (insert 0 (set ns))" by auto
  then show ?thesis by (simp only: Max_insert finite_insert finite_set insert_not_empty max.commute simp_thms)
qed

lemma fold_note_packet:
  "seen_max (fold note_packet ns no_gaps) = Max (insert 0 (set ns)) \<and> acked (fold note_packet ns no_gaps) = ns"
proof (induction ns rule: rev_induct)
  case Nil
  then show ?case by (simp add: no_gaps_def)
next
  case (snoc n ns)
  then show ?case by (simp add: note_packet_sel largest_append del: set_append)
qed

text \<open>A number is lost when it is below the largest one and did not come before all larger ones; it is noted once.\<close>

definition overtaken :: "nat list \<Rightarrow> nat \<Rightarrow> bool" where
  "overtaken ns m \<longleftrightarrow> 0 < m \<and> (\<exists>n \<in> set ns. m < n) \<and> (\<forall>i < length ns. ns ! i = m \<longrightarrow> (\<exists>j < i. m < ns ! j))"

lemma overtaken_append:
  "overtaken (ns @ [n]) m \<longleftrightarrow> overtaken ns m \<or> Max (insert 0 (set ns)) < m \<and> m < n"
proof (cases "\<exists>k \<in> set ns. m < k")
  case True
  then obtain j where j: "j < length ns" "m < ns ! j" by (auto simp: in_set_conv_nth)
  from True have "\<not> Max (insert 0 (set ns)) < m" by (auto simp: not_less Max_ge_iff intro: less_imp_le)
  moreover have "(\<forall>i < length (ns @ [n]). (ns @ [n]) ! i = m \<longrightarrow> (\<exists>j < i. m < (ns @ [n]) ! j)) \<longleftrightarrow>
     (\<forall>i < length ns. ns ! i = m \<longrightarrow> (\<exists>j < i. m < ns ! j))"
    using j by (auto simp: nth_append less_Suc_eq_le le_less)
      (metis less_trans)+
  ultimately show ?thesis using True by (auto simp: overtaken_def)
next
  case False
  then have "\<not> overtaken ns m" by (simp add: overtaken_def)
  moreover have "m \<notin> set ns \<longleftrightarrow> Max (insert 0 (set ns)) < m" if "0 < m"
    using False that by (auto simp: not_less le_less)
  moreover have "(\<exists>i < length ns. ns ! i = m) \<longleftrightarrow> m \<in> set ns" by (auto simp: in_set_conv_nth)
  moreover have "\<not> m < ns ! j" if "j < length ns" for j using False that by (meson nth_mem)
  ultimately show ?thesis by (auto simp: overtaken_def nth_append less_Suc_eq_le split: if_splits)
qed

lemma lost_numbers:
  "distinct (lost (fold note_packet ns no_gaps)) \<and> set (lost (fold note_packet ns no_gaps)) = {m. overtaken ns m}"
proof (induction ns rule: rev_induct)
  case Nil
  then show ?case by (simp add: no_gaps_def overtaken_def)
next
  case (snoc n ns)
  define M where "M = Max (insert 0 (set ns))"
  have "m \<le> M" if "overtaken ns m" for m
    using that by (auto simp: overtaken_def M_def Max_ge_iff intro: less_imp_le)
  moreover have "seen_max (fold note_packet ns no_gaps) = M" using fold_note_packet [of ns] by (simp add: M_def)
  moreover have "overtaken (ns @ [n]) m \<longleftrightarrow> overtaken ns m \<or> M < m \<and> m < n" for m unfolding M_def by (rule overtaken_append)
  ultimately show ?case using snoc by (fastforce simp: note_packet_sel)
qed

section \<open>The receiver refines it\<close>

definition receiver_shows :: "('r, 'w) view \<Rightarrow> su_addr \<Rightarrow> bbr_receiver \<Rightarrow> gaps \<Rightarrow> bool" where
  "receiver_shows V p s g \<longleftrightarrow>
     unat (ra_base_seq s) = seen_max g \<and> seen_max g < 2 ^ 48 \<and> map_option (map (\<lambda>(_, n). unat n)) (ra_loss s) = Some (lost g) \<and>
     ra_sent s = map (\<lambda>n. (p, header_bytes V test_proto_ack (of_nat n))) (acked g)"

definition receiver_ok :: "bbr_receiver \<Rightarrow> bool" where
  "receiver_ok s \<longleftrightarrow> ra_enable_loss_record s \<and> 0 \<le> time_us (ra_ref_time s) \<and> time_us (ra_ref_time s) < 2 ^ 58 \<and> \<bar>ra_offset s\<bar> \<le> 2 ^ 62"

lemma RA_losses_listed:
  assumes "receiver_ok s" and "\<forall>i. clock_ok (nows i)"
  shows "\<exists>L. RA_losses nows i seq s = Some (s\<lparr>ra_loss := L\<rparr>) \<and>
     map_option (map (\<lambda>(_, n). unat n)) L = map_option (\<lambda>l. map (\<lambda>(_, n). unat n) l @ [unat i ..< unat seq]) (ra_loss s)"
  using assms(1)
proof (induction "unat (seq - i)" arbitrary: i s rule: less_induct)
  case less
  show ?case
  proof (cases "i < seq")
    case False
    then have "RA_losses nows i seq s = Some (s\<lparr>ra_loss := ra_loss s\<rparr>)" "[unat i ..< unat seq] = []"
      by (subst RA_losses.simps, simp, simp add: word_less_nat_alt)
    then show ?thesis by (intro exI [of _ "ra_loss s"]) (cases "ra_loss s"; simp)
  next
    case True
    then have i: "unat i < unat seq" "unat (i + 1) = unat i + 1" by (simp_all add: word_less_nat_alt unat_next)
    obtain ms where "ms_since (ra_ref_time s) (ra_offset s) (nows i) = Some ms"
      using ms_since_defined [of "ra_ref_time s" "nows i" "ra_offset s"] less.prems assms(2) [rule_format, of i]
      by (auto simp: receiver_ok_def clock_ok_def)
    then have rec: "RA_RecordLoss (nows i) i s = Some (s\<lparr>ra_loss := add_line (word_of_int ms) i (ra_loss s)\<rparr>)"
      using less.prems by (simp add: RA_RecordLoss_def receiver_ok_def)
    let ?s = "s\<lparr>ra_loss := add_line (word_of_int ms) i (ra_loss s)\<rparr>"
    have lt: "unat (seq - (i + 1)) < unat (seq - i)" using i by (simp add: unat_sub_if')
    have ok: "receiver_ok ?s" using less.prems by (simp add: receiver_ok_def)
    from less.hyps [OF lt ok] obtain L where "RA_losses nows (i + 1) seq ?s = Some (?s\<lparr>ra_loss := L\<rparr>)"
      "map_option (map (\<lambda>(_, n). unat n)) L = map_option (\<lambda>l. map (\<lambda>(_, n). unat n) l @ [unat (i + 1) ..< unat seq]) (ra_loss ?s)"
      by blast
    moreover have "RA_losses nows i seq s = RA_losses nows (i + 1) seq ?s" by (subst RA_losses.simps) (simp add: True rec)
    moreover have "[unat i ..< unat seq] = unat i # [unat (i + 1) ..< unat seq]" using i by (simp add: upt_conv_Cons)
    ultimately show ?thesis by (intro exI [of _ L]) (cases "ra_loss s"; simp add: add_line_def)
  qed
qed

lemma OnIncomingData_notes:
  assumes q: "documented q V" and type: "type = test_proto_stream \<or> type = test_proto_padding" and n: "n < 2 ^ 48"
    and s: "receiver_ok s" "ra_peer s = Some p" and g: "receiver_shows V p s g" and nows: "\<forall>i. clock_ok (nows i)"
  shows "\<exists>s'. RA_OnIncomingData q nows (header_bytes V type (of_nat n) @ left) s = Some s' \<and> receiver_shows V p s' (note_packet n g) \<and>
     receiver_ok s' \<and> ra_peer s' = Some p \<and> ra_first s' = ra_first s \<and> ra_stop s' = ra_stop s \<and> ra_next s' = ra_next s \<and>
     ra_enable_rate_record s' = ra_enable_rate_record s"
proof -
  let ?n = "of_nat n :: u64" and ?dat = "header_bytes V type (of_nat n) @ left"
  define s0 where "s0 = s\<lparr>ra_recv_byte := ra_recv_byte s + of_nat (length ?dat)\<rparr>"
  define s1 where "s1 = s0\<lparr>ra_sent := ra_sent s @ [(p, header_bytes V test_proto_ack ?n)]\<rparr>"
  have un: "unat ?n = n" using n by (simp add: unat_of_nat take_bit_nat_eq_self)
  then have tb: "take_bit 48 ?n = ?n" using n by (simp add: word_unat_eq_iff unsigned_take_bit_eq take_bit_nat_eq_self)
  from type have t16: "type < 16" using proto_types by auto
  have base: "unat (ra_base_seq s) = seen_max g" "unat (ra_base_seq s + 1) = seen_max g + 1"
    using g unat_next [of "ra_base_seq s" "- 1"] by (simp_all add: receiver_shows_def unsigned_minus_1_eq_mask mask_eq_exp_minus_1)
  from packet_read [OF q t16, of ?n left] obtain r where r: "read_flags q ?dat = (header_byte type ?n, of_nat (seq_bytes ?n), Some r)"
    "fst (read_or 0 (ReadBytesToUInt64 q (unat (of_nat (seq_bytes ?n) :: u8))) (Some r)) = ?n" by (auto simp: tb)
  have ack: "RA_SendAck q ?n s0 = Some s1" using RA_SendAck_documented [OF q, of s0 p] s(2) by (simp add: s0_def s1_def)
  have ok: "receiver_ok s1" "ra_base_seq s1 = ra_base_seq s" "ra_loss s1 = ra_loss s" using s(1) by (simp_all add: receiver_ok_def s0_def s1_def)
  obtain L where L: "(if ?n > ra_base_seq s + 1 then RA_losses nows (ra_base_seq s + 1) ?n s1 else Some s1) = Some (s1\<lparr>ra_loss := L\<rparr>)"
    "map_option (map (\<lambda>(_, n). unat n)) L = Some (lost g @ [seen_max g + 1 ..< n])"
  proof (cases "?n > ra_base_seq s + 1")
    case True
    from RA_losses_listed [OF ok(1) nows, of "ra_base_seq s + 1" ?n] obtain L where
      "RA_losses nows (ra_base_seq s + 1) ?n s1 = Some (s1\<lparr>ra_loss := L\<rparr>)"
      "map_option (map (\<lambda>(_, n). unat n)) L = map_option (\<lambda>l. map (\<lambda>(_, n). unat n) l @ [unat (ra_base_seq s + 1) ..< unat ?n]) (ra_loss s)"
      unfolding ok(3) by blast
    then show ?thesis using that [of L] True g base un by (auto simp: receiver_shows_def)
  next
    case False
    then have "n \<le> seen_max g + 1" using base un by (simp add: word_less_nat_alt)
    then show ?thesis using that [of "ra_loss s"] False g ok(3) by (simp add: receiver_shows_def)
  qed
  let ?s2 = "s1\<lparr>ra_loss := L\<rparr>"
  let ?s3 = "if ?n \<ge> ra_base_seq s + 1 then ?s2\<lparr>ra_base_seq := ?n\<rparr> else ?s2"
  have "RA_OnIncomingData q nows ?dat s = Some ?s3"
    unfolding RA_OnIncomingData_def Let_def r(1) prod.case header_byte_type [OF t16] r(2) s0_def [symmetric] ack bind.simps ok(2) L(1)
    using type ok(2) by auto
  moreover have "receiver_shows V p ?s3 (note_packet n g)"
    using L(2) g base un n by (auto simp: receiver_shows_def note_packet_def word_le_nat_alt max_def s1_def s0_def)
  ultimately show ?thesis using ok s(2) by (intro exI [of _ ?s3]) (auto simp: receiver_ok_def s1_def s0_def)
qed

section \<open>Every receiver acknowledges\<close>

text \<open>A receiver in any state, whatever it records, whose times and offset lie in the range of the clock.\<close>

definition in_time :: "bbr_receiver \<Rightarrow> bool" where
  "in_time s \<longleftrightarrow> 0 \<le> time_us (ra_ref_time s) \<and> time_us (ra_ref_time s) < 2 ^ 58 \<and> \<bar>ra_offset s\<bar> \<le> 2 ^ 62"

lemma RA_losses_in_time:
  assumes "in_time s" and "\<forall>i. clock_ok (nows i)"
  shows "\<exists>L. RA_losses nows i seq s = Some (s\<lparr>ra_loss := L\<rparr>)"
  using assms(1)
proof (induction "unat (seq - i)" arbitrary: i s rule: less_induct)
  case less
  show ?case
  proof (cases "i < seq")
    case False
    then have "RA_losses nows i seq s = Some (s\<lparr>ra_loss := ra_loss s\<rparr>)" by (subst RA_losses.simps) simp
    then show ?thesis by blast
  next
    case True
    then have i: "unat i < unat seq" "unat (i + 1) = unat i + 1" by (simp_all add: word_less_nat_alt unat_next)
    obtain ms where "ms_since (ra_ref_time s) (ra_offset s) (nows i) = Some ms"
      using ms_since_defined [of "ra_ref_time s" "nows i" "ra_offset s"] less.prems assms(2) [rule_format, of i]
      by (auto simp: in_time_def clock_ok_def)
    then obtain L where L: "RA_RecordLoss (nows i) i s = Some (s\<lparr>ra_loss := L\<rparr>)"
      by (cases "ra_enable_loss_record s") (auto simp: RA_RecordLoss_def intro: that [of "ra_loss s"])
    have "unat (seq - (i + 1)) < unat (seq - i)" using i by (simp add: unat_sub_if')
    moreover have "in_time (s\<lparr>ra_loss := L\<rparr>)" using less.prems by (simp add: in_time_def)
    ultimately obtain L' where "RA_losses nows (i + 1) seq (s\<lparr>ra_loss := L\<rparr>) = Some (s\<lparr>ra_loss := L\<rparr>\<lparr>ra_loss := L'\<rparr>)" using less.hyps by blast
    moreover have "s\<lparr>ra_loss := L\<rparr>\<lparr>ra_loss := L'\<rparr> = s\<lparr>ra_loss := L'\<rparr>" by simp
    ultimately show ?thesis by (subst RA_losses.simps) (simp only: True L if_True bind.simps, blast)
  qed
qed

lemma RA_RecordRate_in_time:
  assumes "in_time s" and "clock_ok now"
  shows "\<exists>s'. RA_RecordRate now s = Some s' \<and> ra_sent s' = ra_sent s"
proof -
  obtain ms where "ms_since (ra_ref_time s) (ra_offset s) now = Some ms"
    using ms_since_defined [of "ra_ref_time s" now "ra_offset s"] assms by (auto simp: in_time_def clock_ok_def)
  then show ?thesis using later_defined [OF assms(2), of 500] by (simp add: RA_RecordRate_def)
qed

lemma Process_acks:
  assumes q: "documented q V" and type: "type = test_proto_stream \<or> type = test_proto_padding" and n: "n < 2 ^ 48"
    and len: "length (header_bytes V type (of_nat n) @ left) \<le> max_len"
    and s: "in_time s" "ra_first s \<or> ra_peer s \<noteq> None" and now: "clock_ok now" "\<forall>i. clock_ok (nows i)"
  shows "\<exists>ret s'. RA_Process q (Some (a, header_bytes V type (of_nat n) @ left)) now nows s = Some (ret, s') \<and>
     ra_sent s' = ra_sent s @ [(if ra_first s then a else the (ra_peer s), header_bytes V test_proto_ack (of_nat n))]"
proof -
  let ?n = "of_nat n :: u64" and ?dat = "header_bytes V type (of_nat n) @ left"
  let ?s = "if ra_ref_time s = Time_Zero then s\<lparr>ra_ref_time := now\<rparr> else s" and ?p = "if ra_first s then a else the (ra_peer s)"
  obtain t where t: "later (uint (ra_duration s)) now = Some t"
    using later_defined [OF now(1), of "uint (ra_duration s)"] unsigned_less [of "ra_duration s", where ?'a = int] by auto
  define s1 where "s1 = (if ra_first s then ?s\<lparr>ra_peer := Some a, ra_first := False, ra_stop := t\<rparr> else ?s)"
  define s2 where "s2 = s1\<lparr>ra_recv_byte := ra_recv_byte s1 + of_nat (length ?dat)\<rparr>"
  have ne: "?dat \<noteq> []" by (simp add: header_bytes_def)
  from RecvFrom_datagram [OF ne len, of a] obtain buf where buf: "RecvFrom (Some (a, ?dat)) = Some (int (length ?dat), Some a, buf)"
    "take (length ?dat) buf = ?dat" by blast
  have "unat ?n = n" using n by (simp add: unat_of_nat take_bit_nat_eq_self)
  then have tb: "take_bit 48 ?n = ?n" using n by (simp add: word_unat_eq_iff unsigned_take_bit_eq take_bit_nat_eq_self)
  from type have t16: "type < 16" using proto_types by auto
  from packet_read [OF q t16, of ?n left] obtain r where r: "read_flags q ?dat = (header_byte type ?n, of_nat (seq_bytes ?n), Some r)"
    "fst (read_or 0 (ReadBytesToUInt64 q (unat (of_nat (seq_bytes ?n) :: u8))) (Some r)) = ?n" by (auto simp: tb)
  define s3 where "s3 = s2\<lparr>ra_sent := ra_sent s @ [(?p, header_bytes V test_proto_ack ?n)]\<rparr>"
  have "ra_peer s2 = Some ?p" "ra_sent s2 = ra_sent s" using s(2) by (auto simp: s2_def s1_def)
  then have ack: "RA_SendAck q ?n s2 = Some s3" using RA_SendAck_documented [OF q, of s2 ?p] by (simp add: s3_def)
  have it: "in_time s3" using s(1) now(1) by (auto simp: s3_def s2_def s1_def in_time_def clock_ok_def)
  from RA_losses_in_time [OF it now(2)] obtain L where "RA_losses nows (ra_base_seq s3 + 1) ?n s3 = Some (s3\<lparr>ra_loss := L\<rparr>)" by blast
  then have "\<exists>L. (if ?n > ra_base_seq s3 + 1 then RA_losses nows (ra_base_seq s3 + 1) ?n s3 else Some s3) = Some (s3\<lparr>ra_loss := L\<rparr>)"
    by (cases "?n > ra_base_seq s3 + 1") (auto intro: exI [of _ L] exI [of _ "ra_loss s3"])
  then obtain L where L: "(if ?n > ra_base_seq s3 + 1 then RA_losses nows (ra_base_seq s3 + 1) ?n s3 else Some s3) = Some (s3\<lparr>ra_loss := L\<rparr>)" ..
  let ?s4 = "if ?n \<ge> ra_base_seq s3 + 1 then s3\<lparr>ra_loss := L\<rparr>\<lparr>ra_base_seq := ?n\<rparr> else s3\<lparr>ra_loss := L\<rparr>"
  have data: "RA_OnIncomingData q nows ?dat s1 = Some ?s4"
    unfolding RA_OnIncomingData_def Let_def r(1) prod.case header_byte_type [OF t16] r(2) s2_def [symmetric] ack bind.simps L
    using type by auto
  have "in_time ?s4" "ra_sent ?s4 = ra_sent s3" using it by (simp_all add: in_time_def)
  with RA_RecordRate_in_time [OF _ now(1), of ?s4] obtain s' where s': "RA_RecordRate now ?s4 = Some s'" "ra_sent s' = ra_sent s3" by metis
  have "(if ra_first ?s then map_option (\<lambda>t. ?s\<lparr>ra_peer := Some a, ra_first := False, ra_stop := t\<rparr>) (later (uint (ra_duration ?s)) now) else Some ?s) = Some s1"
    using t by (simp add: s1_def)
  then have "RA_Process q (Some (a, ?dat)) now nows s = Some (\<not> (\<not> ra_first ?s4 \<and> now > ra_stop ?s4), s')"
    using buf s'(1) data ne unfolding RA_Process_def Let_def by (simp del: append_is_Nil_conv length_append)
  then show ?thesis using s'(2) by (auto simp: s3_def)
qed

section \<open>Runs\<close>

lemma Process_notes:
  assumes q: "documented q V" and type: "type = test_proto_stream \<or> type = test_proto_padding" and n: "n < 2 ^ 48"
    and len: "length (header_bytes V type (of_nat n) @ left) \<le> max_len"
    and s: "receiver_ok s" "\<not> ra_enable_rate_record s" "if ra_first s then a = p else ra_peer s = Some p"
    and g: "receiver_shows V p s g" and now: "clock_ok now" "\<forall>i. clock_ok (nows i)"
  shows "\<exists>ret s'. RA_Process q (Some (a, header_bytes V type (of_nat n) @ left)) now nows s = Some (ret, s') \<and>
     receiver_shows V p s' (note_packet n g) \<and> receiver_ok s' \<and> ra_peer s' = Some p \<and> \<not> ra_first s' \<and> \<not> ra_enable_rate_record s'"
proof -
  let ?dat = "header_bytes V type (of_nat n) @ left" and ?s = "if ra_ref_time s = Time_Zero then s\<lparr>ra_ref_time := now\<rparr> else s"
  obtain t where t: "later (uint (ra_duration s)) now = Some t"
    using later_defined [OF now(1), of "uint (ra_duration s)"] unsigned_less [of "ra_duration s", where ?'a = int] by auto
  let ?s1 = "if ra_first s then ?s\<lparr>ra_peer := Some a, ra_first := False, ra_stop := t\<rparr> else ?s"
  have ne: "?dat \<noteq> []" by (simp add: header_bytes_def)
  from RecvFrom_datagram [OF ne len, of a] obtain buf where buf: "RecvFrom (Some (a, ?dat)) = Some (int (length ?dat), Some a, buf)"
    "take (length ?dat) buf = ?dat" by blast
  have "receiver_ok ?s1" "ra_peer ?s1 = Some p" "receiver_shows V p ?s1 g" "\<not> ra_first ?s1" "\<not> ra_enable_rate_record ?s1"
    using s g now(1) by (auto simp: receiver_ok_def receiver_shows_def clock_ok_def split: if_splits)
  note s1 = this
  from OnIncomingData_notes [OF q type n s1(1-3) now(2), of left] obtain s2 where s2: "RA_OnIncomingData q nows ?dat ?s1 = Some s2"
    "receiver_shows V p s2 (note_packet n g)" "receiver_ok s2" "ra_peer s2 = Some p" "\<not> ra_first s2" "\<not> ra_enable_rate_record s2"
    using s1(4,5) by blast
  have "(if ra_first ?s then map_option (\<lambda>t. ?s\<lparr>ra_peer := Some a, ra_first := False, ra_stop := t\<rparr>) (later (uint (ra_duration ?s)) now) else Some ?s) = Some ?s1"
    using t by simp
  then have "RA_Process q (Some (a, ?dat)) now nows s = Some (\<not> now > ra_stop s2, s2)"
    using buf s2 ne unfolding RA_Process_def Let_def by (simp add: RA_RecordRate_def del: append_is_Nil_conv length_append)
  with s2 show ?thesis by blast
qed

fun RA_run :: "('r, 'w) quic \<Rightarrow> ((su_addr \<times> bytes) option \<times> QuicTime \<times> (u64 \<Rightarrow> QuicTime)) list \<Rightarrow> bbr_receiver \<Rightarrow> bbr_receiver option" where
  "RA_run q [] s = Some s"
| "RA_run q ((incoming, now, nows) # cs) s = Option.bind (RA_Process q incoming now nows s) (\<lambda>(ret, s). RA_run q cs s)"

record arrival =
  arr_from :: su_addr
  arr_type :: u8
  arr_number :: nat
  arr_left :: bytes
  arr_now :: QuicTime
  arr_nows :: "u64 \<Rightarrow> QuicTime"

definition arrival_ok :: "('r, 'w) view \<Rightarrow> arrival \<Rightarrow> bool" where
  "arrival_ok V e \<longleftrightarrow> (arr_type e = test_proto_stream \<or> arr_type e = test_proto_padding) \<and> arr_number e < 2 ^ 48 \<and>
     length (header_bytes V (arr_type e) (of_nat (arr_number e)) @ arr_left e) \<le> max_len \<and> clock_ok (arr_now e) \<and> (\<forall>i. clock_ok (arr_nows e i))"

definition arrives :: "('r, 'w) view \<Rightarrow> arrival \<Rightarrow> (su_addr \<times> bytes) option \<times> QuicTime \<times> (u64 \<Rightarrow> QuicTime)" where
  "arrives V e = (Some (arr_from e, header_bytes V (arr_type e) (of_nat (arr_number e)) @ arr_left e), arr_now e, arr_nows e)"

lemma RA_run_notes:
  assumes q: "documented q V" and es: "\<forall>e \<in> set es. arrival_ok V e"
    and s: "receiver_ok s" "\<not> ra_enable_rate_record s" "if ra_first s then es \<noteq> [] \<longrightarrow> arr_from (hd es) = p else ra_peer s = Some p"
    and g: "receiver_shows V p s g"
  shows "\<exists>s'. RA_run q (map (arrives V) es) s = Some s' \<and> receiver_shows V p s' (fold note_packet (map arr_number es) g)"
  using es s g
proof (induction es arbitrary: s g)
  case (Cons e es)
  from Cons.prems(1) have e: "arrival_ok V e" by simp
  from e have t: "arr_type e = test_proto_stream \<or> arr_type e = test_proto_padding" "arr_number e < 2 ^ 48"
    "length (header_bytes V (arr_type e) (of_nat (arr_number e)) @ arr_left e) \<le> max_len" "clock_ok (arr_now e)" "\<forall>i. clock_ok (arr_nows e i)"
    by (simp_all add: arrival_ok_def)
  from Cons.prems(4) have "if ra_first s then arr_from e = p else ra_peer s = Some p" by (simp split: if_splits)
  from Process_notes [OF q t(1-3) Cons.prems(2,3) this Cons.prems(5) t(4,5)]
  obtain ret s1 where s1: "RA_Process q (Some (arr_from e, header_bytes V (arr_type e) (of_nat (arr_number e)) @ arr_left e)) (arr_now e) (arr_nows e) s =
     Some (ret, s1)" "receiver_shows V p s1 (note_packet (arr_number e) g)" "receiver_ok s1" "ra_peer s1 = Some p" "\<not> ra_first s1"
     "\<not> ra_enable_rate_record s1" by blast
  from Cons.IH [OF _ s1(3,6) _ s1(2)] Cons.prems(1) s1(4,5) s1(1) show ?case by (auto simp: arrives_def)
qed auto

text \<open>
  C20: the receiving program answers every packet, in the order of arrival, with one acknowledgement of its number, sent to where the first
  packet came from; and the numbers in its file of losses are, each once, exactly those that were overtaken: smaller than the largest
  number that came, and not seen before a larger one. A packet that comes late is thus noted as lost.
\<close>

theorem receiver_acks_and_losses:
  assumes "documented q V" and "\<forall>e \<in> set es. arrival_ok V e" and "es \<noteq> []" and "\<bar>off\<bar> \<le> 2 ^ 62"
  shows "\<exists>s l. RA_run q (map (arrives V) es) (RA_EnableLossRecord True (RA_SetTimeOffset off (RA_set_duration ms MyBbrReceiverApp))) = Some s \<and>
     ra_sent s = map (\<lambda>e. (arr_from (hd es), header_bytes V test_proto_ack (of_nat (arr_number e)))) es \<and>
     ra_loss s = Some l \<and> distinct (map snd l) \<and> (\<forall>m. m \<in> unat ` snd ` set l \<longleftrightarrow> overtaken (map arr_number es) m)"
proof -
  let ?s = "RA_EnableLossRecord True (RA_SetTimeOffset off (RA_set_duration ms MyBbrReceiverApp))" and ?ns = "map arr_number es"
  note defs = RA_EnableLossRecord_def RA_SetTimeOffset_def RA_set_duration_def MyBbrReceiverApp_def
  have s: "receiver_ok ?s" "\<not> ra_enable_rate_record ?s" "ra_first ?s" "receiver_shows V p ?s no_gaps" for p
    using assms(4) by (simp_all add: defs receiver_ok_def receiver_shows_def no_gaps_def Time_Zero_def)
  from RA_run_notes [OF assms(1,2) s(1,2) _ s(4), of "arr_from (hd es)"] s(3) obtain s' where s': "RA_run q (map (arrives V) es) ?s = Some s'"
    "receiver_shows V (arr_from (hd es)) s' (fold note_packet ?ns no_gaps)" by auto
  then obtain l where l: "ra_loss s' = Some l" "map (\<lambda>(_, n). unat n) l = lost (fold note_packet ?ns no_gaps)" by (auto simp: receiver_shows_def)
  have "map unat (map snd l) = lost (fold note_packet ?ns no_gaps)" using l(2) by (simp add: case_prod_beta' comp_def)
  with lost_numbers [of ?ns] have "distinct (map unat (map snd l))" "set (map unat (map snd l)) = {m. overtaken ?ns m}" by (simp_all only:)
  then have "distinct (map snd l)" "unat ` snd ` set l = {m. overtaken ?ns m}"
    by (metis distinct_map, simp add: image_image)
  moreover have "ra_sent s' = map (\<lambda>e. (arr_from (hd es), header_bytes V test_proto_ack (of_nat (arr_number e)))) es"
    using s'(2) fold_note_packet [of ?ns] by (simp add: receiver_shows_def)
  ultimately show ?thesis using s'(1) l(1) by blast
qed

definition demo_arrivals :: "arrival list" where
  "demo_arrivals = map (\<lambda>n. \<lparr>arr_from = \<lparr>sin_addr = 1, sin_port = 2\<rparr>, arr_type = 0, arr_number = n, arr_left = [0, 0], arr_now = QuicTime 1000,
     arr_nows = (\<lambda>_. QuicTime 1000)\<rparr>) [1, 4, 2]"

theorem receiver_acks_and_losses_witness:
  "\<exists>s l. RA_run demo (map (arrives demo_view) demo_arrivals)
       (RA_EnableLossRecord True (RA_SetTimeOffset 0 (RA_set_duration 60000 MyBbrReceiverApp))) = Some s \<and>
     ra_sent s = map (\<lambda>e. (arr_from (hd demo_arrivals), header_bytes demo_view test_proto_ack (of_nat (arr_number e)))) demo_arrivals \<and>
     ra_loss s = Some l \<and> distinct (map snd l) \<and> (\<forall>m. m \<in> unat ` snd ` set l \<longleftrightarrow> overtaken (map arr_number demo_arrivals) m)"
proof (rule receiver_acks_and_losses [OF demo_documented])
  have "length (header_bytes demo_view 0 n) \<le> 7" for n
    using demo_documented seq_bytes_cases(2) [of n] by (simp add: header_bytes_def documented_def encodings_documented_def)
  then have "length (header_bytes demo_view 0 n) + 2 \<le> 1500" for n by (rule order_trans [OF add_right_mono]) simp
  then show "\<forall>e \<in> set demo_arrivals. arrival_ok demo_view e"
    by (simp add: demo_arrivals_def arrival_ok_def clock_ok_def test_proto_stream_def max_len_def)
qed (simp_all add: demo_arrivals_def)

end
