(* ===== verification/App_Senders.thy ===== *)
theory App_Senders
  imports App_Receiver Bbr_Proofs
begin

text \<open>
  The sending programs. The invariant \<open>app_ready\<close> is that of the congestion control with the number of the next packet as the bound of the
  numbers that were sent. The two ways in which the programs leave their buffers are the only ones; the acknowledgements of the receiver
  reach the congestion control; and the queue of the video sender only grows.
\<close>

section \<open>The invariant\<close>

text \<open>What the library documents of transfer times, for a rate of at least a bit per second: no time is negative or above twelve days.\<close>

definition transfer_times_ok :: "('b, 'f, 'g) bbr_lib \<Rightarrow> bool" where
  "transfer_times_ok lib \<longleftrightarrow> (\<forall>b n. n < 2 ^ 16 \<longrightarrow> 0 \<le> time_offset (TransferTime lib b n) \<and> time_offset (TransferTime lib b n) \<le> 2 ^ 40)"

definition app_ready :: "('b, 'f, 'g, 'x) bbr_app_scheme \<Rightarrow> nat \<Rightarrow> bool" where
  "app_ready s k \<longleftrightarrow>
     (\<exists>p c. sa_pacing s = (p, Some c) \<and> ready c (unat (sa_seq s)) (last_ack_seq c) k \<and> alarm_granularity p = Delta 1000 \<and>
        0 \<le> time_us (ideal_next_packet_send_time p) \<and> time_us (ideal_next_packet_send_time p) < 2 ^ 59) \<and>
     sa_peer s \<noteq> None \<and> 0 \<le> time_us (sa_ref_time s) \<and> time_us (sa_ref_time s) < 2 ^ 58 \<and> \<bar>sa_offset s\<bar> \<le> 2 ^ 62"

definition due :: "QuicTime \<Rightarrow> ('b, 'f, 'g, 'x) bbr_app_scheme \<Rightarrow> bool" where
  "due now s \<longleftrightarrow> \<not> time_us (ideal_next_packet_send_time (fst (sa_pacing s))) > time_us now + 1000"

lemma TimeUntilSend_due:
  assumes "app_ready s k" and "clock_ok now"
  shows "\<exists>d. TimeUntilSend now (fst (sa_pacing s)) = Some d \<and> (d = Delta_Zero \<longleftrightarrow> due now s)"
  using assms
  by (auto simp: TimeUntilSend_def app_ready_def clock_ok_def due_def time_plus_def time_diff_def i64_in less_QuicTime_def Delta_Zero_def)

lemma send_overreads: "App_MaxPacketSize < len q MaxPacketSize \<Longrightarrow> send_from_buffer q lib type now s = None"
  by (auto simp: send_from_buffer_def Let_def split: prod.splits option.splits)

lemma ucast16_less: "(ucast (x :: u16) :: u64) < 2 ^ 16"
  using unsigned_less [of x, where ?'a = nat] by (simp add: word_less_nat_alt unsigned_ucast_eq take_bit_nat_eq_self)

lemma send_ready:
  assumes lib: "transfer_times_ok lib" and s: "app_ready s k" and now: "clock_ok now" and d: "due now s" and n: "unat (sa_seq s) + 1 < 2 ^ 32"
    and k: "Suc k < 2 ^ 64" and kmax: "len q MaxPacketSize \<le> App_MaxPacketSize"
  shows "\<exists>s' p pc. send_from_buffer q lib type now s = Some s' \<and> app_ready s' (Suc k) \<and> sa_peer s = Some p \<and>
     s' = s\<lparr>sa_seq := sa_seq s + 1, sa_pacing := pc,
       sa_sent := sa_sent s @ [(p, take (len q MaxPacketSize) (filled q App_MaxPacketSize (snd (start_packet q App_MaxPacketSize type (ucast (sa_seq s))))))]\<rparr>"
proof -
  obtain h w where hw: "start_packet q App_MaxPacketSize type (ucast (sa_seq s)) = (h, w)" by force
  then have h: "hdr_seq h = ucast (sa_seq s)" by (auto simp: start_packet_def Let_def)
  from s obtain p c where pc: "sa_pacing s = (p, Some c)" "ready c (unat (sa_seq s)) (last_ack_seq c) k" "alarm_granularity p = Delta 1000"
    "0 \<le> time_us (ideal_next_packet_send_time p)" "time_us (ideal_next_packet_send_time p) < 2 ^ 59" by (auto simp: app_ready_def)
  from s obtain a where a: "sa_peer s = Some a" by (auto simp: app_ready_def)
  let ?n = "ucast (sa_seq s) :: u64" and ?len = "ucast (of_nat App_MaxPacketSize - (1 + ucast (hdr_seq_len h)) :: u16) :: u64"
  have un: "unat ?n = unat (sa_seq s)" using unsigned_less [of "sa_seq s", where ?'a = nat] by (simp add: unsigned_ucast_eq take_bit_nat_eq_self)
  have "time_ok now" using now by (simp add: clock_ok_def time_ok_def)
  from OnPacketSent_ready [OF pc(2) _ this k, of ?n lib ?len] un obtain c' where
    c': "OnPacketSent lib now ?n ?len c = Some c'" "ready c' (unat (sa_seq s) + 1) (last_ack_seq c') (Suc k)" by auto
  have "?len < 2 ^ 16" by (rule ucast16_less)
  then have t: "0 \<le> time_offset (TransferTime lib (PaceRate c') ?len)" "time_offset (TransferTime lib (PaceRate c') ?len) \<le> 2 ^ 40"
    using lib by (simp_all add: transfer_times_ok_def)
  let ?t = "time_offset (TransferTime lib (PaceRate c') ?len)" and ?i = "time_us (ideal_next_packet_send_time p)"
  let ?p = "p\<lparr>ideal_next_packet_send_time := max (QuicTime (?i + ?t)) (QuicTime (time_us now + ?t))\<rparr>"
  have dd: "?i \<le> time_us now + 1000" using d pc(1) by (simp add: due_def)
  have pace: "Pacing_OnPacketSent lib now ?n ?len (p, Some c) = Some (?p, Some c')"
    using c'(1) t pc(4,5) now unfolding Pacing_OnPacketSent_def Let_def by (simp add: time_plus_def i64_in clock_ok_def)
  obtain pn where pn: "pn = ?p" by blast
  then have p1: "alarm_granularity pn = Delta 1000" "0 \<le> time_us (ideal_next_packet_send_time pn)" "time_us (ideal_next_packet_send_time pn) < 2 ^ 59"
    using pc(3,4) t dd now by (simp_all add: clock_ok_def max_def less_eq_QuicTime_def less_QuicTime_def)
  have sq: "unat (sa_seq s + 1) = unat (sa_seq s) + 1" using n by (simp add: unat_word_ariths)
  let ?s = "s\<lparr>sa_seq := sa_seq s + 1, sa_pacing := (pn, Some c'), sa_sent := sa_sent s @ [(a, take (len q MaxPacketSize) (filled q App_MaxPacketSize w))]\<rparr>"
  have "send_from_buffer q lib type now s = Some ?s"
    using kmax pace a pc(1) unfolding send_from_buffer_def hw Let_def pn [symmetric] by (simp add: h)
  moreover have "app_ready ?s (Suc k)" using s c'(2) p1 a sq by (simp add: app_ready_def)
  ultimately show ?thesis using a hw by (intro exI [of _ ?s] exI [of _ a] exI [of _ "(pn, Some c')"]) simp
qed

section \<open>Acknowledgements\<close>

lemma ack_overflows: "App_MaxPacketSize < length dat \<Longrightarrow> SA_ProcessAckFrame q lib now dat s = None"
  by (simp add: SA_ProcessAckFrame_def poke_def)

lemma ack_copied: "length dat \<le> App_MaxPacketSize \<Longrightarrow> \<exists>buf. poke (replicate App_MaxPacketSize 0) 0 dat = Some buf \<and> take (length dat) buf = dat"
  by (simp add: poke_def)

lemma ack_ready:
  assumes s: "app_ready s k" and now: "clock_ok now" and k: "Suc (Suc k) < 2 ^ 64" and len: "length dat \<le> App_MaxPacketSize"
  shows "\<exists>pc. SA_ProcessAckFrame q lib now dat s = Some (s\<lparr>sa_pacing := pc\<rparr>) \<and> app_ready (s\<lparr>sa_pacing := pc\<rparr>) (Suc (Suc k))"
proof -
  from ack_copied [OF len] obtain buf where buf: "poke (replicate App_MaxPacketSize 0) 0 dat = Some buf" "take (length dat) buf = dat" by blast
  obtain f sl r where r: "read_flags q dat = (f, sl, r)" by (cases "read_flags q dat") auto
  from s obtain p c where pc: "sa_pacing s = (p, Some c)" "ready c (unat (sa_seq s)) (last_ack_seq c) k" by (auto simp: app_ready_def)
  show ?thesis
  proof (cases "f AND 0x0F = test_proto_ack")
    case True
    let ?n = "fst (read_or 0 (ReadBytesToUInt64 q (unat sl)) r)"
    have "time_ok now" "now \<noteq> Time_Zero" using now by (auto simp: clock_ok_def time_ok_def Time_Zero_def)
    from OnAck_ready [OF pc(2) this k, of lib ?n] obtain c' where c': "OnAck lib now ?n c = Some c'"
      "ready c' (unat (sa_seq s)) (last_ack_seq c') (Suc (Suc k))" by blast
    then show ?thesis using s buf r True pc(1)
      by (intro exI [of _ "(p, Some c')"]) (simp add: SA_ProcessAckFrame_def OnCongestionEvent_def app_ready_def)
  next
    case False
    have "ready c (unat (sa_seq s)) (last_ack_seq c) (Suc (Suc k))" using pc(2) by (simp add: ready_def)
    then have "app_ready s (Suc (Suc k))" using s pc(1) by (auto simp: app_ready_def)
    moreover have "SA_ProcessAckFrame q lib now dat s = Some s" using buf r False by (simp add: SA_ProcessAckFrame_def)
    ultimately show ?thesis by (intro exI [of _ "sa_pacing s"]) simp
  qed
qed


section \<open>Files and the clock\<close>

lemma record_rate_ready:
  assumes s: "app_ready s k" and now: "clock_ok now"
  shows "\<exists>f t. record_rate lib est kb now s = Some (s\<lparr>sa_rate := f, sa_next := t\<rparr>)"
proof -
  from s now obtain ms where ms: "ms_since (sa_ref_time s) (sa_offset s) now = Some ms"
    using ms_since_defined [of "sa_ref_time s" now "sa_offset s"] by (auto simp: app_ready_def clock_ok_def)
  from s obtain p c where pc: "sa_pacing s = (p, Some c)" by (auto simp: app_ready_def)
  obtain t where t: "later 100 now = Some t" using later_defined [OF now, of 100] by simp
  consider "sa_next s = Time_Zero" | "sa_next s \<noteq> Time_Zero" "now > sa_next s" | "sa_next s \<noteq> Time_Zero" "\<not> now > sa_next s" by blast
  then show ?thesis
  proof cases
    case 1
    then show ?thesis using t by (intro exI [of _ "sa_rate s"] exI [of _ t]) (simp add: record_rate_def)
  next
    case 2
    then show ?thesis using t ms pc
      by (intro exI [of _ "add_line (word_of_int ms) (word_of_int (kb (est lib c))) (sa_rate s)"] exI [of _ t]) (simp add: record_rate_def)
  next
    case 3
    then show ?thesis by (intro exI [of _ "sa_rate s"] exI [of _ "sa_next s"]) (simp add: record_rate_def)
  qed
qed

section \<open>Every call of Process\<close>

definition too_long :: "(su_addr \<times> bytes) option \<Rightarrow> bool" where
  "too_long incoming \<longleftrightarrow> (\<exists>a bs. incoming = Some (a, bs) \<and> App_MaxPacketSize < length bs)"

text \<open>Receiving and what follows it, in both programs.\<close>

lemma receive_ready:
  assumes s: "app_ready s k" and now: "clock_ok now" and k: "Suc (Suc k) < 2 ^ 64"
  shows "case RecvFrom incoming of None \<Rightarrow> False | Some (recv, remote, buf) \<Rightarrow>
     (if too_long incoming then recv > 0 \<and> SA_ProcessAckFrame q lib now (take (nat recv) buf) s = None
      else \<exists>pc. (if recv > 0 then SA_ProcessAckFrame q lib now (take (nat recv) buf) s else Some s) = Some (s\<lparr>sa_pacing := pc\<rparr>) \<and>
         app_ready (s\<lparr>sa_pacing := pc\<rparr>) (Suc (Suc k)))"
proof -
  have idle: "\<exists>pc. Some s = Some (s\<lparr>sa_pacing := pc\<rparr>) \<and> app_ready (s\<lparr>sa_pacing := pc\<rparr>) (Suc (Suc k))"
    using s by (intro exI [of _ "sa_pacing s"]) (auto simp: app_ready_def ready_def)
  show ?thesis
  proof (cases incoming)
    case None
    with idle show ?thesis by (simp add: RecvFrom_def su_udp_recv_def too_long_def)
  next
    case (Some x)
    obtain a bs where x: "x = (a, bs)" by force
    let ?bs = "take max_len bs"
    obtain buf where "poke (replicate max_len 0) 0 ?bs = Some buf" by (auto simp: poke_def)
    with poke_take [OF this] have buf: "poke (replicate max_len 0) 0 ?bs = Some buf" "take (length ?bs) buf = ?bs" by simp_all
    have rf: "RecvFrom incoming = Some (if ?bs = [] then - 1 else int (length ?bs), Some a, buf)"
      using buf(1) by (simp add: RecvFrom_def su_udp_recv_def Some x)
    show ?thesis
    proof (cases "App_MaxPacketSize < length bs")
      case True
      then have l: "App_MaxPacketSize < length ?bs" by (simp add: App_MaxPacketSize_def max_len_def)
      then have "?bs \<noteq> []" by (cases "?bs") simp_all
      have "too_long incoming" using True by (simp add: too_long_def Some x)
      then show ?thesis using \<open>?bs \<noteq> []\<close> ack_overflows [OF l] buf(2) unfolding rf by (simp del: length_take take_eq_Nil)
    next
      case False
      then have "length ?bs \<le> App_MaxPacketSize" by simp
      note ack = ack_ready [OF s now k this, of q lib]
      have "\<not> too_long incoming" using False by (simp add: too_long_def Some x)
      then show ?thesis using ack idle buf(2) unfolding rf by (cases "?bs = []") (simp_all del: length_take take_eq_Nil)
    qed
  qed
qed

lemma started_ready: "app_ready s k \<Longrightarrow> clock_ok now \<Longrightarrow> app_ready (if sa_ref_time s = Time_Zero then s\<lparr>sa_ref_time := now\<rparr> else s) k"
  by (auto simp: app_ready_def clock_ok_def)

lemma SA_Process_ready:
  assumes lib: "transfer_times_ok lib" and s: "app_ready s k" and now: "clock_ok now" and n: "unat (sa_seq s) + 1 < 2 ^ 32" and k: "k + 3 < 2 ^ 64"
  shows "if due now s \<and> App_MaxPacketSize < len q MaxPacketSize \<or> too_long incoming then SA_Process q lib kb incoming now s = None
     else \<exists>ret s'. SA_Process q lib kb incoming now s = Some (ret, s') \<and> app_ready s' (k + 3) \<and> unat (sa_seq s') \<le> unat (sa_seq s) + 1"
proof -
  define s0 where "s0 = (if sa_ref_time s = Time_Zero then s\<lparr>sa_ref_time := now\<rparr> else s)"
  have s0: "app_ready s0 k" "sa_seq s0 = sa_seq s" "due now s0 = due now s" using started_ready [OF s now] by (simp_all add: s0_def due_def)
  from TimeUntilSend_due [OF s0(1) now] obtain d where d: "TimeUntilSend now (fst (sa_pacing s0)) = Some d" "d = Delta_Zero \<longleftrightarrow> due now s" by (auto simp: s0)
  show ?thesis
  proof (cases "due now s \<and> App_MaxPacketSize < len q MaxPacketSize")
    case True
    then have "SA_Process q lib kb incoming now s = None"
      using d send_overreads [of q lib test_proto_stream now s0] by (simp add: SA_Process_def Let_def SA_SendFakePacket_def flip: s0_def)
    with True show ?thesis by simp
  next
    case False
    obtain s1 where s1: "(if d = Delta_Zero then SA_SendFakePacket q lib now s0 else Some s0) = Some s1" "app_ready s1 (Suc k)"
      "unat (sa_seq s1) \<le> unat (sa_seq s) + 1"
    proof (cases "due now s")
      case True
      with send_ready [OF lib s0(1) now, of q test_proto_stream] s0 n k False obtain s1 p pc where s1: "send_from_buffer q lib test_proto_stream now s0 = Some s1"
        "app_ready s1 (Suc k)" "s1 = s0\<lparr>sa_seq := sa_seq s0 + 1, sa_pacing := pc,
           sa_sent := sa_sent s0 @ [(p, take (len q MaxPacketSize) (filled q App_MaxPacketSize (snd (start_packet q App_MaxPacketSize test_proto_stream (ucast (sa_seq s0))))))]\<rparr>"
        by (auto simp: not_less)
      have "unat (sa_seq s1) = unat (sa_seq s + 1)" using s1(3) s0(2) by simp
      then have "unat (sa_seq s1) \<le> unat (sa_seq s) + 1" using n by (simp add: unat_word_ariths)
      with s1(1,2) True d(2) show ?thesis by (intro that) (simp_all add: SA_SendFakePacket_def)
    next
      case False
      have "app_ready s0 (Suc k)" using s0(1) by (auto simp: app_ready_def ready_def)
      with False d(2) s0(2) show ?thesis by (intro that [of s0]) auto
    qed
    have k': "Suc (Suc (Suc k)) < 2 ^ 64" using k by simp
    obtain recv remote buf where rf: "RecvFrom incoming = Some (recv, remote, buf)"
      using receive_ready [OF s1(2) now k', of incoming q lib] by (auto split: option.splits)
    note rr = receive_ready [OF s1(2) now k', of incoming q lib, unfolded rf option.case prod.case]
    show ?thesis
    proof (cases "too_long incoming")
      case True
      with rr d s1(1) rf show ?thesis by (simp add: SA_Process_def Let_def flip: s0_def)
    next
      case nl: False
      with rr obtain pc where pc: "(if recv > 0 then SA_ProcessAckFrame q lib now (take (nat recv) buf) s1 else Some s1) = Some (s1\<lparr>sa_pacing := pc\<rparr>)"
        "app_ready (s1\<lparr>sa_pacing := pc\<rparr>) (k + 3)" by (auto simp: eval_nat_numeral)
      from record_rate_ready [OF pc(2) now, of lib GetReferenceRate kb] obtain f t where
        "SA_RecordRate lib kb now (s1\<lparr>sa_pacing := pc\<rparr>) = Some (s1\<lparr>sa_pacing := pc, sa_rate := f, sa_next := t\<rparr>)" by (auto simp: SA_RecordRate_def)
      then have "\<exists>ret. SA_Process q lib kb incoming now s = Some (ret, s1\<lparr>sa_pacing := pc, sa_rate := f, sa_next := t\<rparr>)"
        using d s1(1) rf pc(1) by (simp add: SA_Process_def Let_def flip: s0_def)
      moreover have "app_ready (s1\<lparr>sa_pacing := pc, sa_rate := f, sa_next := t\<rparr>) (k + 3)" using pc(2) by (simp add: app_ready_def)
      ultimately show ?thesis using nl False s1(3) by auto
    qed
  qed
qed

section \<open>Runs of the sender\<close>

type_synonym call = "(su_addr \<times> bytes) option \<times> QuicTime"

fun SA_run :: "('r, 'w) quic \<Rightarrow> ('b, 'f, 'g) bbr_lib \<Rightarrow> ('b \<Rightarrow> int) \<Rightarrow> call list \<Rightarrow> ('b, 'f, 'g) bbr_app \<Rightarrow> ('b, 'f, 'g) bbr_app option" where
  "SA_run q lib kb [] s = Some s"
| "SA_run q lib kb ((incoming, now) # cs) s = Option.bind (SA_Process q lib kb incoming now s) (\<lambda>(ret, s). SA_run q lib kb cs s)"

lemma SA_run_defined:
  assumes lib: "transfer_times_ok lib" and kmax: "len q MaxPacketSize \<le> App_MaxPacketSize" and cs: "\<forall>(incoming, now) \<in> set cs. clock_ok now"
    and s: "app_ready s k" and n: "unat (sa_seq s) + length cs < 2 ^ 32" and k: "k + 3 * length cs < 2 ^ 64"
  shows "SA_run q lib kb cs s = None \<longleftrightarrow> (\<exists>(incoming, now) \<in> set cs. too_long incoming)"
  using cs s n k
proof (induction cs arbitrary: s k)
  case (Cons c cs)
  obtain incoming now where c: "c = (incoming, now)" by force
  from Cons.prems c have now: "clock_ok now" and n: "unat (sa_seq s) + 1 < 2 ^ 32" and k: "k + 3 < 2 ^ 64" by auto
  note step = SA_Process_ready [OF lib Cons.prems(2) now n k, of q incoming kb]
  show ?case
  proof (cases "too_long incoming")
    case True
    with step show ?thesis by (auto simp: c)
  next
    case False
    with step kmax obtain ret s1 where s1: "SA_Process q lib kb incoming now s = Some (ret, s1)" "app_ready s1 (k + 3)"
      "unat (sa_seq s1) \<le> unat (sa_seq s) + 1" by (auto simp: not_less)
    then have "SA_run q lib kb cs s1 = None \<longleftrightarrow> (\<exists>(incoming, now) \<in> set cs. too_long incoming)"
      by (intro Cons.IH [OF _ s1(2)]) (use Cons.prems in auto)
    with s1(1) False show ?thesis by (simp add: c)
  qed
qed simp

lemma new_app_ready:
  assumes "\<bar>off\<bar> \<le> 2 ^ 62"
  shows "app_ready (SA_SetTimeOffset off (SA_set_peer p (MyBbrSenderApp lib rnd mn start mx))) 0"
  using assms new_sender_ready
  by (simp add: app_ready_def SA_SetTimeOffset_def SA_set_peer_def MyBbrSenderApp_def MyPacingSender_def Time_Zero_def)

text \<open>
  C23: the sending program has undefined behaviour in exactly two cases, however often it is called and whatever it receives: it reads beyond its
  buffer of 1400 bytes at the first packet if the library's \<open>kMaxPacketSize\<close> is larger, and it writes beyond the buffer when a datagram
  of more than 1400 bytes comes, which anyone can send.
\<close>

theorem sender_faults_exactly:
  assumes "transfer_times_ok lib" and "\<forall>(incoming, now) \<in> set cs. clock_ok now" and "length cs < 2 ^ 31" and "\<bar>off\<bar> \<le> 2 ^ 62"
  shows "SA_run q lib kb cs (SA_SetTimeOffset off (SA_set_peer p (MyBbrSenderApp lib rnd mn start mx))) = None \<longleftrightarrow>
     cs \<noteq> [] \<and> App_MaxPacketSize < len q MaxPacketSize \<or> (\<exists>(incoming, now) \<in> set cs. App_MaxPacketSize < (case incoming of None \<Rightarrow> 0 | Some (a, dat) \<Rightarrow> length dat))"
proof -
  let ?s = "SA_SetTimeOffset off (SA_set_peer p (MyBbrSenderApp lib rnd mn start mx))"
  have tl: "too_long incoming \<longleftrightarrow> App_MaxPacketSize < (case incoming of None \<Rightarrow> 0 | Some (a, dat) \<Rightarrow> length dat)" for incoming
    by (auto simp: too_long_def split: option.splits)
  note s = new_app_ready [OF assms(4), of p lib rnd mn start mx]
  have n: "sa_seq ?s = 1" by (simp add: SA_SetTimeOffset_def SA_set_peer_def MyBbrSenderApp_def)
  show ?thesis
  proof (cases "App_MaxPacketSize < len q MaxPacketSize")
    case False
    then have "len q MaxPacketSize \<le> App_MaxPacketSize" by simp
    from SA_run_defined [OF assms(1) this assms(2) s] assms(3) n False show ?thesis by (simp add: tl)
  next
    case True
    show ?thesis
    proof (cases cs)
      case (Cons c cs')
      obtain incoming now where c: "c = (incoming, now)" by force
      have "clock_ok now" using assms(2) Cons c by simp
      moreover from this have "due now ?s"
        by (simp add: due_def SA_SetTimeOffset_def SA_set_peer_def MyBbrSenderApp_def MyPacingSender_def Time_Zero_def clock_ok_def)
      ultimately have "SA_Process q lib kb incoming now ?s = None" using SA_Process_ready [OF assms(1) s, of now q incoming kb] True n by simp
      then show ?thesis using True Cons c by simp
    qed simp
  qed
qed

section \<open>Examples\<close>




definition demo_peer :: su_addr where "demo_peer = \<lparr>sin_addr = 1, sin_port = 2\<rparr>"



lemma demo_transfer_times: "transfer_times_ok demo_lib"
proof -
  have "unat n * 8000000 div max 1 b \<le> 2 ^ 40" if "n < 2 ^ 16" for n :: u64 and b
  proof -
    have n: "unat n < 65536" using that by (simp add: word_less_nat_alt)
    have "unat n * 8000000 div max 1 b \<le> unat n * 8000000" by (rule div_le_dividend)
    also have "\<dots> \<le> 2 ^ 40" using n by simp
    finally show ?thesis .
  qed
  then have "int (unat n * 8000000 div max 1 b) \<le> 2 ^ 40" if "n < 2 ^ 16" for n :: u64 and b
    using that by (metis of_nat_le_iff of_nat_numeral of_nat_power)
  moreover have "TransferTime demo_lib b n = Delta (int (unat n * 8000000 div max 1 b))" for b n by (simp add: demo_lib_def)
  ultimately show ?thesis unfolding transfer_times_ok_def by (simp only: Delta.sel of_nat_0_le_iff simp_thms) blast
qed

theorem sender_faults_exactly_witness:
  "SA_run demo demo_lib int [(None, QuicTime 1000)] (SA_SetTimeOffset 0 (SA_set_peer demo_peer (MyBbrSenderApp demo_lib 3 100000 300000 500000))) = None \<longleftrightarrow>
     [(None :: (su_addr \<times> bytes) option, QuicTime 1000)] \<noteq> [] \<and> App_MaxPacketSize < len demo MaxPacketSize \<or>
     (\<exists>(incoming, now) \<in> set [(None, QuicTime 1000)]. App_MaxPacketSize < (case incoming of None \<Rightarrow> 0 | Some (a :: su_addr, dat :: bytes) \<Rightarrow> length dat))"
  by (rule sender_faults_exactly [OF demo_transfer_times]) (simp_all add: clock_ok_def)



end
