(* ===== verification/App_Video.thy ===== *)
theory App_Video
  imports App_Senders
begin

text \<open>
  The video sender: it takes every frame of its source apart and queues the parts, but never takes one off the queue. So the queue holds
  all the video there ever was, and from the first frame on every packet is a stream packet.
\<close>

section \<open>One call\<close>








section \<open>Runs\<close>






end
