(* ===== verification/Framer_Base.thy ===== *)
theory Framer_Base
  imports Quic_Io
begin

text \<open>
  The constants, bit-field helpers, size functions and packet-number arithmetic of
  \<^verbatim>\<open>my_quic_framer.cc\<close>. The lemmas show that every length the framer chooses is the least one that
  holds the value, that the packet-number flags survive the trip through the header, and that a
  truncated packet number or timestamp is expanded to the original.
\<close>

section \<open>Constants\<close>

definition kQuicFrameTypeSize :: nat where "kQuicFrameTypeSize = 1"
definition kQuicErrorCodeSize :: nat where "kQuicErrorCodeSize = 4"
definition kQuicErrorDetailsLengthSize :: nat where "kQuicErrorDetailsLengthSize = 2"
definition kQuicMaxStreamIdSize :: nat where "kQuicMaxStreamIdSize = 4"
definition kQuicMaxStreamOffsetSize :: nat where "kQuicMaxStreamOffsetSize = 8"
definition kQuicStreamPayloadLengthSize :: nat where "kQuicStreamPayloadLengthSize = 2"
definition kQuicDeltaTimeLargestObservedSize :: nat where "kQuicDeltaTimeLargestObservedSize = 2"
definition kQuicNumTimestampsSize :: nat where "kQuicNumTimestampsSize = 1"
definition kNumberOfAckBlocksSize :: nat where "kNumberOfAckBlocksSize = 1"
definition kMaxAckBlocks :: nat where "kMaxAckBlocks = 2 ^ (kNumberOfAckBlocksSize * 8) - 1"
definition kIetfAckTimestampShift :: nat where "kIetfAckTimestampShift = 3"
definition kPublicHeaderSequenceNumberShift :: nat where "kPublicHeaderSequenceNumberShift = 4"
definition kQuicFrameTypeSpecialMask :: u8 where "kQuicFrameTypeSpecialMask = 0b11100000"
definition kQuicFrameTypeStreamMask_Pre40 :: u8 where "kQuicFrameTypeStreamMask_Pre40 = 0b10000000"
definition kQuicFrameTypeStreamMask :: u8 where "kQuicFrameTypeStreamMask = 0b11000000"
definition kQuicFrameTypeAckMask_Pre40 :: u8 where "kQuicFrameTypeAckMask_Pre40 = 0b01000000"
definition kQuicFrameTypeAckMask :: u8 where "kQuicFrameTypeAckMask = 0b10100000"
definition kQuicStreamIdShift_Pre40 :: nat where "kQuicStreamIdShift_Pre40 = 2"
definition kQuicStreamIDLengthMask_Pre40 :: u8 where "kQuicStreamIDLengthMask_Pre40 = 0b00000011"
definition kQuicStreamIDLengthShift :: nat where "kQuicStreamIDLengthShift = 3"
definition kQuicStreamIDLengthNumBits :: nat where "kQuicStreamIDLengthNumBits = 2"
definition kQuicStreamShift_Pre40 :: nat where "kQuicStreamShift_Pre40 = 3"
definition kQuicStreamOffsetMask_Pre40 :: u8 where "kQuicStreamOffsetMask_Pre40 = 0b00000111"
definition kQuicStreamOffsetNumBits :: nat where "kQuicStreamOffsetNumBits = 2"
definition kQuicStreamOffsetShift :: nat where "kQuicStreamOffsetShift = 1"
definition kQuicStreamDataLengthShift_Pre40 :: nat where "kQuicStreamDataLengthShift_Pre40 = 1"
definition kQuicStreamDataLengthMask_Pre40 :: u8 where "kQuicStreamDataLengthMask_Pre40 = 0b00000001"
definition kQuicStreamDataLengthShift :: nat where "kQuicStreamDataLengthShift = 0"
definition kQuicStreamFinShift_Pre40 :: u8 where "kQuicStreamFinShift_Pre40 = 1"
definition kQuicStreamFinMask_Pre40 :: u8 where "kQuicStreamFinMask_Pre40 = 0b00000001"
definition kQuicStreamFinShift :: nat where "kQuicStreamFinShift = 5"
definition kQuicSequenceNumberLengthNumBits :: nat where "kQuicSequenceNumberLengthNumBits = 2"
definition kActBlockLengthOffset :: nat where "kActBlockLengthOffset = 0"
definition kLargestAckedOffset :: nat where "kLargestAckedOffset = 2"
definition kQuicHasMultipleAckBlocksOffset_Pre40 :: nat where "kQuicHasMultipleAckBlocksOffset_Pre40 = 5"
definition kQuicHasMultipleAckBlocksOffset :: nat where "kQuicHasMultipleAckBlocksOffset = 4"
definition kMaxErrorStringLength :: nat where "kMaxErrorStringLength = 256"

lemmas framer_consts = kQuicFrameTypeSize_def kQuicErrorCodeSize_def kQuicErrorDetailsLengthSize_def
  kQuicMaxStreamIdSize_def kQuicMaxStreamOffsetSize_def kQuicStreamPayloadLengthSize_def
  kQuicDeltaTimeLargestObservedSize_def kQuicNumTimestampsSize_def kNumberOfAckBlocksSize_def kMaxAckBlocks_def
  kIetfAckTimestampShift_def kPublicHeaderSequenceNumberShift_def kMaxErrorStringLength_def

lemmas stream_consts = kQuicFrameTypeSpecialMask_def kQuicFrameTypeStreamMask_Pre40_def kQuicFrameTypeStreamMask_def
  kQuicFrameTypeAckMask_Pre40_def kQuicFrameTypeAckMask_def kQuicStreamIdShift_Pre40_def
  kQuicStreamIDLengthMask_Pre40_def kQuicStreamIDLengthShift_def kQuicStreamIDLengthNumBits_def
  kQuicStreamShift_Pre40_def kQuicStreamOffsetMask_Pre40_def kQuicStreamOffsetNumBits_def kQuicStreamOffsetShift_def
  kQuicStreamDataLengthShift_Pre40_def kQuicStreamDataLengthMask_Pre40_def kQuicStreamDataLengthShift_def
  kQuicStreamFinShift_Pre40_def kQuicStreamFinMask_Pre40_def kQuicStreamFinShift_def
  kQuicSequenceNumberLengthNumBits_def kActBlockLengthOffset_def kLargestAckedOffset_def
  kQuicHasMultipleAckBlocksOffset_Pre40_def kQuicHasMultipleAckBlocksOffset_def

section \<open>Bit fields\<close>

definition GetMaskFromNumBits :: "nat \<Rightarrow> u8" where
  "GetMaskFromNumBits num_bits = push_bit num_bits 1 - 1"

definition ExtractBits :: "u8 \<Rightarrow> nat \<Rightarrow> nat \<Rightarrow> u8" where
  "ExtractBits flags num_bits offset = drop_bit offset flags AND GetMaskFromNumBits num_bits"

definition ExtractBit :: "u8 \<Rightarrow> nat \<Rightarrow> bool" where
  "ExtractBit flags offset \<longleftrightarrow> drop_bit offset flags AND GetMaskFromNumBits 1 \<noteq> 0"

definition SetBits :: "u8 \<Rightarrow> u8 \<Rightarrow> nat \<Rightarrow> nat \<Rightarrow> u8" where
  "SetBits flags val num_bits offset = flags OR push_bit offset val"

definition SetBit :: "u8 \<Rightarrow> bool \<Rightarrow> nat \<Rightarrow> u8" where
  "SetBit flags val offset = SetBits flags (if val then 1 else 0) 1 offset"

section \<open>Closest packet number\<close>

definition Delta :: "u64 \<Rightarrow> u64 \<Rightarrow> u64" where
  "Delta a b = (if a < b then b - a else a - b)"

definition ClosestTo :: "u64 \<Rightarrow> u64 \<Rightarrow> u64 \<Rightarrow> u64" where
  "ClosestTo target a b = (if Delta target a < Delta target b then a else b)"

text \<open>The shift by \<open>8 * packet_number_length\<close> is defined in C++ for lengths below 8, which are the only ones passed.\<close>

definition CalculatePacketNumberFromWire :: "nat \<Rightarrow> u64 \<Rightarrow> u64 \<Rightarrow> u64" where
  "CalculatePacketNumberFromWire packet_number_length base_packet_number packet_number =
     (let epoch_delta = push_bit (8 * packet_number_length) 1;
          next_packet_number = base_packet_number + 1;
          epoch = base_packet_number AND NOT (epoch_delta - 1);
          prev_epoch = epoch - epoch_delta;
          next_epoch = epoch + epoch_delta
      in ClosestTo next_packet_number (epoch + packet_number)
           (ClosestTo next_packet_number (prev_epoch + packet_number) (next_epoch + packet_number)))"

definition CalculateTimestampFromWire :: "u64 \<Rightarrow> u32 \<Rightarrow> u64" where
  "CalculateTimestampFromWire last_timestamp time_delta_us =
     (let epoch_delta = push_bit 32 1;
          epoch = last_timestamp AND NOT (epoch_delta - 1);
          prev_epoch = epoch - epoch_delta;
          next_epoch = epoch + epoch_delta
      in ClosestTo last_timestamp (epoch + ucast time_delta_us)
           (ClosestTo last_timestamp (prev_epoch + ucast time_delta_us) (next_epoch + ucast time_delta_us)))"

section \<open>Packet number lengths and their flags\<close>

definition ReadSequenceNumberLength :: "('r, 'w) quic \<Rightarrow> u8 \<Rightarrow> nat" where
  "ReadSequenceNumberLength q flags =
     (let x = flags AND flag q PACKET_FLAGS_8BYTE_PACKET in
      if x = flag q PACKET_FLAGS_8BYTE_PACKET then len q PACKET_6BYTE_PACKET_NUMBER
      else if x = flag q PACKET_FLAGS_4BYTE_PACKET then len q PACKET_4BYTE_PACKET_NUMBER
      else if x = flag q PACKET_FLAGS_2BYTE_PACKET then len q PACKET_2BYTE_PACKET_NUMBER
      else if x = flag q PACKET_FLAGS_1BYTE_PACKET then len q PACKET_1BYTE_PACKET_NUMBER
      else len q PACKET_6BYTE_PACKET_NUMBER)"

definition ReadAckPacketNumberLength :: "('r, 'w) quic \<Rightarrow> nat \<Rightarrow> u8 \<Rightarrow> nat" where
  "ReadAckPacketNumberLength q version flags =
     (let x = flags AND flag q PACKET_FLAGS_8BYTE_PACKET in
      if x = flag q PACKET_FLAGS_8BYTE_PACKET
      then (if version \<noteq> ver q QUIC_VERSION_41 then len q PACKET_6BYTE_PACKET_NUMBER else len q PACKET_8BYTE_PACKET_NUMBER)
      else if x = flag q PACKET_FLAGS_4BYTE_PACKET then len q PACKET_4BYTE_PACKET_NUMBER
      else if x = flag q PACKET_FLAGS_2BYTE_PACKET then len q PACKET_2BYTE_PACKET_NUMBER
      else if x = flag q PACKET_FLAGS_1BYTE_PACKET then len q PACKET_1BYTE_PACKET_NUMBER
      else len q PACKET_6BYTE_PACKET_NUMBER)"

definition PacketNumberLengthToShortHeaderType :: "('r, 'w) quic \<Rightarrow> nat \<Rightarrow> u8" where
  "PacketNumberLengthToShortHeaderType q packet_number_length =
     (if packet_number_length = len q PACKET_1BYTE_PACKET_NUMBER then flag q SHORT_HEADER_1_BYTE_PACKET_NUMBER
      else if packet_number_length = len q PACKET_2BYTE_PACKET_NUMBER then flag q SHORT_HEADER_2_BYTE_PACKET_NUMBER
      else if packet_number_length = len q PACKET_4BYTE_PACKET_NUMBER then flag q SHORT_HEADER_4_BYTE_PACKET_NUMBER
      else flag q SHORT_HEADER_1_BYTE_PACKET_NUMBER)"

definition GetMinPacketNumberLength :: "('r, 'w) quic \<Rightarrow> nat \<Rightarrow> u64 \<Rightarrow> nat" where
  "GetMinPacketNumberLength q version packet_number =
     (if packet_number < push_bit (len q PACKET_1BYTE_PACKET_NUMBER * 8) 1 then len q PACKET_1BYTE_PACKET_NUMBER
      else if packet_number < push_bit (len q PACKET_2BYTE_PACKET_NUMBER * 8) 1 then len q PACKET_2BYTE_PACKET_NUMBER
      else if packet_number < push_bit (len q PACKET_4BYTE_PACKET_NUMBER * 8) 1 then len q PACKET_4BYTE_PACKET_NUMBER
      else if version \<noteq> ver q QUIC_VERSION_41 then len q PACKET_6BYTE_PACKET_NUMBER
      else len q PACKET_8BYTE_PACKET_NUMBER)"

definition GetPacketNumberFlags :: "('r, 'w) quic \<Rightarrow> nat \<Rightarrow> u8" where
  "GetPacketNumberFlags q packet_number_length =
     (if packet_number_length = len q PACKET_1BYTE_PACKET_NUMBER then flag q PACKET_FLAGS_1BYTE_PACKET
      else if packet_number_length = len q PACKET_2BYTE_PACKET_NUMBER then flag q PACKET_FLAGS_2BYTE_PACKET
      else if packet_number_length = len q PACKET_4BYTE_PACKET_NUMBER then flag q PACKET_FLAGS_4BYTE_PACKET
      else if packet_number_length = len q PACKET_6BYTE_PACKET_NUMBER \<or>
              packet_number_length = len q PACKET_8BYTE_PACKET_NUMBER then flag q PACKET_FLAGS_8BYTE_PACKET
      else flag q PACKET_FLAGS_8BYTE_PACKET)"

section \<open>Sizes\<close>

text \<open>
  The loops shift the value right by a byte per round and return the round in which it becomes 0:
  \<open>k\<close> rounds left, \<open>i\<close> the loop variable, \<open>otherwise\<close> what follows the loop.
\<close>

fun byte_size_loop :: "nat \<Rightarrow> nat \<Rightarrow> nat \<Rightarrow> 'a::len word \<Rightarrow> nat" where
  "byte_size_loop otherwise 0 i v = otherwise"
| "byte_size_loop otherwise (Suc k) i v =
     (if drop_bit 8 v = 0 then i else byte_size_loop otherwise k (i + 1) (drop_bit 8 v))"

definition GetStreamIdSize :: "u32 \<Rightarrow> nat" where
  "GetStreamIdSize stream_id = byte_size_loop 4 4 1 stream_id"

definition GetStreamOffsetSize :: "('r, 'w) quic \<Rightarrow> nat \<Rightarrow> u64 \<Rightarrow> nat" where
  "GetStreamOffsetSize q version offset =
     (if version \<noteq> ver q QUIC_VERSION_41
      then if offset = 0 then 0 else byte_size_loop 8 7 2 (drop_bit 8 offset)
      else if drop_bit (8 * 0) offset = 0 then 0
      else if drop_bit (8 * 2) offset = 0 then 2
      else if drop_bit (8 * 4) offset = 0 then 4
      else 8)"

definition GetMinStreamFrameSize :: "('r, 'w) quic \<Rightarrow> nat \<Rightarrow> u32 \<Rightarrow> u64 \<Rightarrow> bool \<Rightarrow> nat" where
  "GetMinStreamFrameSize q version stream_id offset last_frame_in_packet =
     kQuicFrameTypeSize + GetStreamIdSize stream_id + GetStreamOffsetSize q version offset +
     (if last_frame_in_packet then 0 else kQuicStreamPayloadLengthSize)"

definition GetMinAckFrameSize :: "nat \<Rightarrow> nat \<Rightarrow> nat" where
  "GetMinAckFrameSize version largest_observed_length =
     kQuicFrameTypeSize + largest_observed_length + kQuicDeltaTimeLargestObservedSize + kQuicNumTimestampsSize"

definition GetStopWaitingFrameSize :: "nat \<Rightarrow> nat \<Rightarrow> nat" where
  "GetStopWaitingFrameSize version packet_number_length = kQuicFrameTypeSize + packet_number_length"

definition GetRstStreamFrameSize :: nat where
  "GetRstStreamFrameSize = kQuicFrameTypeSize + kQuicMaxStreamIdSize + kQuicMaxStreamOffsetSize + kQuicErrorCodeSize"

definition GetMinConnectionCloseFrameSize :: nat where
  "GetMinConnectionCloseFrameSize = kQuicFrameTypeSize + kQuicErrorCodeSize + kQuicErrorDetailsLengthSize"

definition GetMinGoAwayFrameSize :: nat where
  "GetMinGoAwayFrameSize =
     kQuicFrameTypeSize + kQuicErrorCodeSize + kQuicErrorDetailsLengthSize + kQuicMaxStreamIdSize"

definition GetWindowUpdateFrameSize :: nat where
  "GetWindowUpdateFrameSize = kQuicFrameTypeSize + kQuicMaxStreamIdSize + kQuicMaxStreamOffsetSize"

definition GetBlockedFrameSize :: nat where
  "GetBlockedFrameSize = kQuicFrameTypeSize + kQuicMaxStreamIdSize"

definition GetVersionNegotiationPacketSize :: "('r, 'w) quic \<Rightarrow> nat \<Rightarrow> nat" where
  "GetVersionNegotiationPacketSize q number_versions =
     len q PublicFlagsSize + len q PACKET_8BYTE_CONNECTION_ID + number_versions * len q QuicVersionSize"

definition TruncateErrorString :: "bytes \<Rightarrow> bytes" where
  "TruncateErrorString err = (if length err \<le> kMaxErrorStringLength then err else take kMaxErrorStringLength err)"

definition endianness :: "('r, 'w) quic \<Rightarrow> nat \<Rightarrow> Endianness" where
  "endianness q transport_version =
     (if transport_version > ver q QUIC_VERSION_38 then NETWORK_BYTE_ORDER else HOST_BYTE_ORDER)"

section \<open>Chosen lengths are sufficient and least\<close>

lemma unat_drop_bit_div: "unat (drop_bit n w) = unat w div 2 ^ n" for w :: "'a::len word"
  unfolding unat_drop_bit_eq by (rule drop_bit_eq_div)

lemma drop_bit_eq_0_iff: "drop_bit n w = 0 \<longleftrightarrow> unat w < 2 ^ n" for w :: "'a::len word"
proof -
  have "drop_bit n w = 0 \<longleftrightarrow> unat (drop_bit n w) = 0" by (simp only: unat_eq_0)
  then show ?thesis by (simp only: unat_drop_bit_div div_eq_0_iff) simp
qed

text \<open>The loop returns the number of bytes of the value, counted from \<open>i\<close>.\<close>

lemma byte_size_loop_spec:
  "byte_size_loop d k i v = n \<Longrightarrow> unat v < 256 ^ k \<Longrightarrow> 0 < k \<Longrightarrow>
     i \<le> n \<and> n < i + k \<and> unat v < 256 ^ (n + 1 - i) \<and> (n = i \<or> 256 ^ (n - i) \<le> unat v)"
proof (induction k arbitrary: i v)
  case 0
  then show ?case by simp
next
  case (Suc k)
  show ?case
  proof (cases "drop_bit 8 v = 0")
    case True
    with Suc.prems have "n = i" "unat v < 256" by (simp_all only: drop_bit_eq_0_iff byte_size_loop.simps) auto
    then show ?thesis by simp
  next
    case False
    then have ge: "256 \<le> unat v" by (simp only: drop_bit_eq_0_iff) simp
    have d: "unat (drop_bit 8 v) = unat v div 256" by (simp only: unat_drop_bit_div) simp
    have k: "0 < k"
    proof (rule ccontr)
      assume "\<not> 0 < k"
      with Suc.prems ge show False by simp
    qed
    have small: "unat (drop_bit 8 v) < 256 ^ k"
      unfolding d using Suc.prems(2) by (simp add: less_mult_imp_div_less mult.commute)
    from False Suc.prems(1) have "byte_size_loop d k (i + 1) (drop_bit 8 v) = n"
      by (simp only: byte_size_loop.simps if_False)
    from Suc.IH [OF this small k]
    have r: "i + 1 \<le> n" "n < i + 1 + k" "unat v div 256 < 256 ^ (n + 1 - (i + 1))"
      "n = i + 1 \<or> 256 ^ (n - (i + 1)) \<le> unat v div 256" unfolding d by blast+
    have "unat v < 256 ^ (n - i) * 256" using r(3) by (simp add: div_less_iff_less_mult)
    then have hi: "unat v < 256 ^ (n + 1 - i)" using r(1) by (simp add: Suc_diff_le mult.commute)
    have "256 ^ (n - i) \<le> unat v"
    proof (cases "n = i + 1")
      case True
      with ge show ?thesis by simp
    next
      case False
      with r have "256 ^ (n - (i + 1)) * 256 \<le> unat v" by (simp add: less_eq_div_iff_mult_less_eq)
      moreover have "n - i = Suc (n - (i + 1))" using r(1) by simp
      ultimately show ?thesis by (simp add: mult.commute)
    qed
    with r hi show ?thesis by simp
  qed
qed

lemma stream_id_size_bounds:
  "1 \<le> GetStreamIdSize v" "GetStreamIdSize v \<le> 4" "unat v < 256 ^ GetStreamIdSize v"
  "GetStreamIdSize v = 1 \<or> 256 ^ (GetStreamIdSize v - 1) \<le> unat v"
proof -
  have "unat v < 256 ^ 4" using unsigned_less [of v, where ?'a = nat] by simp
  from byte_size_loop_spec [where d = 4 and i = 1, OF refl this]
  show "1 \<le> GetStreamIdSize v" "GetStreamIdSize v \<le> 4" "unat v < 256 ^ GetStreamIdSize v"
    "GetStreamIdSize v = 1 \<or> 256 ^ (GetStreamIdSize v - 1) \<le> unat v"
    by (auto simp: GetStreamIdSize_def)
qed

lemma offset_size_pre40:
  assumes "version \<noteq> ver q QUIC_VERSION_41" and "v \<noteq> 0"
  defines "n \<equiv> GetStreamOffsetSize q version v"
  shows "2 \<le> n" "n \<le> 8" "unat v < 256 ^ n" "n = 2 \<or> 256 ^ (n - 1) \<le> unat v"
proof -
  have n: "n = byte_size_loop 8 7 2 (drop_bit 8 v)" using assms by (simp add: GetStreamOffsetSize_def)
  have d: "unat (drop_bit 8 v) = unat v div 256" by (simp only: unat_drop_bit_div) simp
  have "unat v < 256 ^ 8" using unsigned_less [of v, where ?'a = nat] by simp
  then have "unat (drop_bit 8 v) < 256 ^ 7" unfolding d by (simp add: less_mult_imp_div_less)
  from byte_size_loop_spec [OF n [symmetric] this]
  have r: "2 \<le> n" "n < 9" "unat v div 256 < 256 ^ (n - 1)" "n = 2 \<or> 256 ^ (n - 2) \<le> unat v div 256"
    unfolding d by auto
  then show "2 \<le> n" "n \<le> 8" by simp_all
  have p: "256 ^ n = 256 ^ (n - 1) * (256 :: nat)" using r(1) by (cases n) simp_all
  show "unat v < 256 ^ n" unfolding p using r(3) by (simp add: div_less_iff_less_mult)
  have "n - 1 = Suc (n - 2)" using r(1) by simp
  then have "256 ^ (n - 1) = 256 ^ (n - 2) * (256 :: nat)" by (simp only: power_Suc mult.commute)
  with r(4) show "n = 2 \<or> 256 ^ (n - 1) \<le> unat v" by (metis less_eq_div_iff_mult_less_eq zero_less_numeral)
qed

lemma offset_size_41:
  fixes v :: u64
  assumes "version = ver q QUIC_VERSION_41"
  defines "n \<equiv> GetStreamOffsetSize q version v"
  shows "n \<in> {0, 2, 4, 8}" "unat v < 256 ^ n" "m \<in> {0, 2, 4, 8} \<Longrightarrow> unat v < 256 ^ m \<Longrightarrow> n \<le> m"
proof -
  have iff: "drop_bit (8 * 0) v = 0 \<longleftrightarrow> unat v < 256 ^ 0" "drop_bit (8 * 2) v = 0 \<longleftrightarrow> unat v < 256 ^ 2"
    "drop_bit (8 * 4) v = 0 \<longleftrightarrow> unat v < 256 ^ 4"
    by (simp_all only: drop_bit_eq_0_iff) simp_all
  have top: "unat v < 256 ^ 8" using unsigned_less [of v, where ?'a = nat] by simp
  have n: "n = (if unat v < 256 ^ 0 then 0 else if unat v < 256 ^ 2 then 2 else if unat v < 256 ^ 4 then 4 else 8)"
    unfolding n_def GetStreamOffsetSize_def iff using assms(1) by simp
  then show "n \<in> {0, 2, 4, 8}" "unat v < 256 ^ n" using top by auto
  show "n \<le> m" if "m \<in> {0, 2, 4, 8}" "unat v < 256 ^ m"
    using that by (auto simp: n)
qed

text \<open>Packet number lengths: what is chosen, that it holds the number, and that the flags bring it back.\<close>

lemma min_packet_number_length:
  assumes "documented q V"
  shows "GetMinPacketNumberLength q version p =
     (if unat p < 2 ^ 8 then 1 else if unat p < 2 ^ 16 then 2 else if unat p < 2 ^ 32 then 4
      else if version \<noteq> 41 then 6 else 8)"
  by (simp add: GetMinPacketNumberLength_def documented_enums [OF assms] word_less_nat_alt)

lemma min_packet_number_length_fits:
  assumes "documented q V" and "version = 41 \<or> unat p < 2 ^ 48"
  shows "unat p < 2 ^ (8 * GetMinPacketNumberLength q version p)"
  using assms(2) unsigned_less [of p, where ?'a = nat]
  by (auto simp: min_packet_number_length [OF assms(1)])

lemma min_packet_number_length_range:
  assumes "documented q V"
  shows "GetMinPacketNumberLength q version p \<in> {1, 2, 4, 6, 8}" "GetMinPacketNumberLength q version p \<le> 8"
  by (simp_all add: min_packet_number_length [OF assms])

lemma ack_length_flags:
  assumes "documented q V"
  shows "ReadAckPacketNumberLength q version (GetPacketNumberFlags q (GetMinPacketNumberLength q version p)) =
           GetMinPacketNumberLength q version p"
  by (simp add: ReadAckPacketNumberLength_def GetPacketNumberFlags_def min_packet_number_length [OF assms]
      documented_enums [OF assms])

lemma header_length_flags:
  assumes "documented q V" and "n \<in> {1, 2, 4, 6}"
  shows "ReadSequenceNumberLength q (GetPacketNumberFlags q n) = n"
  using assms(2) by (auto simp: ReadSequenceNumberLength_def GetPacketNumberFlags_def documented_enums [OF assms(1)])

section \<open>Expanding a truncated number\<close>

definition gap :: "nat \<Rightarrow> nat \<Rightarrow> nat" where
  "gap a b = (if a < b then b - a else a - b)"

lemma unat_minus_le: "b \<le> a \<Longrightarrow> unat (a - b) = unat a - unat b" for a b :: "'a::len word"
  by (simp add: unat_sub)

lemma unat_Delta: "unat (Delta a b) = gap (unat a) (unat b)"
  by (simp add: Delta_def gap_def word_less_nat_alt unat_minus_le word_le_nat_alt)

lemma ClosestTo_gap: "ClosestTo t a b = (if gap (unat t) (unat a) < gap (unat t) (unat b) then a else b)"
  by (simp add: ClosestTo_def word_less_nat_alt unat_Delta)

lemma unat_epoch: "unat (b AND NOT (push_bit s 1 - 1)) = unat b div 2 ^ s * 2 ^ s" if "s < 64" for b :: u64
proof -
  have m: "push_bit s 1 - 1 = (mask s :: u64)" by (simp add: mask_eq_exp_minus_1 push_bit_eq_mult)
  have "b AND NOT (push_bit s 1 - 1) = push_bit s (drop_bit s b)"
    unfolding m using that by (intro bit_word_eqI) (auto simp: bit_simps)
  moreover have "unat (push_bit s (drop_bit s b)) = unat b div 2 ^ s * 2 ^ s"
  proof -
    have "unat b div 2 ^ s * 2 ^ s \<le> unat b" by simp
    also have "\<dots> < 2 ^ 64" using unsigned_less [of b, where ?'a = nat] by simp
    finally show ?thesis
      unfolding unsigned_push_bit_eq unat_drop_bit_div by (simp add: push_bit_eq_mult take_bit_nat_eq_self)
  qed
  ultimately show ?thesis by simp
qed

text \<open>
  The candidate in the epoch of \<open>b\<close>, the one before and the one after: the closest to the target is the
  number that was truncated, if that number is less than half an epoch away from the target.
\<close>

lemma closest_epoch:
  fixes b t x :: u64 and s :: nat
  defines "d \<equiv> (push_bit s 1 :: u64)" and "e \<equiv> b AND NOT (push_bit s 1 - 1)" and "w \<equiv> take_bit s x"
  assumes s: "0 < s" "s \<le> 48" and small: "unat b < 2 ^ 62" "unat x < 2 ^ 62"
    and t: "unat t = unat b \<or> unat t = unat b + 1"
    and near: "2 * unat x < 2 * unat t + 2 ^ s" "2 * unat t < 2 * unat x + 2 ^ s"
  shows "ClosestTo t (e + w) (ClosestTo t (e - d + w) (e + d + w)) = x"
proof -
  define B T X D E W where "B = unat b" and "T = unat t" and "X = unat x" and "D = (2 :: nat) ^ s"
    and "E = B div D * D" and "W = X mod D"
  have dvals: "0 < D" "D \<le> 2 ^ 48" using s power_increasing [of s 48 "2 :: nat"] by (simp_all add: D_def)
  have uD: "unat d = D"
    unfolding d_def unsigned_push_bit_eq using dvals s by (simp add: D_def push_bit_eq_mult take_bit_nat_eq_self)
  have uE: "unat e = E" using unat_epoch [of s b] s by (simp add: e_def E_def B_def D_def)
  have uW: "unat w = W"
    unfolding w_def W_def X_def D_def unsigned_take_bit_eq by (rule take_bit_eq_mod)
  have EB: "E \<le> B" "B < E + D"
    using dvals dividend_less_div_times [of D B] by (simp_all add: E_def div_times_less_eq_dividend add.commute)
  have WD: "W < D" "W \<le> X" using dvals by (simp_all add: W_def)
  have a0: "unat (e + w) = E + W"
    using EB WD dvals small by (simp add: unat_word_ariths uE uW B_def)
  have a2: "unat (e + d + w) = E + D + W"
    using EB WD dvals small by (simp add: unat_word_ariths uE uW uD B_def)
  have prev: "if D \<le> E then unat (e - d + w) + D = E + W else 2 ^ 63 \<le> unat (e - d + w) \<and> E = 0"
  proof (cases "D \<le> E")
    case True
    then have "unat (e - d) = E - D" by (simp add: unat_minus_le word_le_nat_alt uE uD)
    then show ?thesis using True EB WD dvals small by (simp add: unat_word_ariths uW B_def)
  next
    case False
    then have "E = 0" using dvals by (auto simp: E_def)
    then have "unat (e - d) = 2 ^ 64 - D" using uE uD dvals by (simp add: unat_sub_if_size word_size)
    then show ?thesis using False \<open>E = 0\<close> WD dvals by (simp add: unat_word_ariths uW)
  qed
  define P where "P = unat (e - d + w)"
  have prev': "P + D = E + W \<or> 2 ^ 63 \<le> P \<and> E = 0" using prev by (simp add: P_def split: if_splits)
  have sm: "T \<le> 2 ^ 62" "X < 2 ^ 62" using small t by (auto simp: X_def T_def)
  obtain j where j: "X = j * D + W" by (metis W_def div_mult_mod_eq)
  obtain k where k: "E = k * D" unfolding E_def by blast
  have near': "2 * X < 2 * T + D" "2 * T < 2 * X + D" "T = B \<or> T = B + 1"
    using near t by (simp_all add: X_def T_def D_def B_def)
  consider "j = k" | "j = k + 1" | "k = j + 1"
  proof -
    have "j < k + 2"
    proof (rule ccontr)
      assume "\<not> j < k + 2"
      then have "(k + 2) * D \<le> j * D" by (intro mult_le_mono1) simp
      with j k near' EB WD show False by (simp add: algebra_simps)
    qed
    moreover have "k < j + 2"
    proof (rule ccontr)
      assume "\<not> k < j + 2"
      then have "(j + 2) * D \<le> k * D" by (intro mult_le_mono1) simp
      with j k near' EB WD show False by (simp add: algebra_simps)
    qed
    ultimately show ?thesis using that by linarith
  qed
  then show ?thesis
  proof cases
    case 1
    then have X: "E + W = X" using j k by simp
    then have "x = e + w" using a0 by (simp add: word_unat_eq_iff X_def)
    moreover have "gap T X < gap T (E + D + W)" using near' X by (auto simp: gap_def)
    moreover have "gap T X < gap T P" using near'(1,2) prev' X dvals sm unfolding gap_def by (elim disjE) auto
    ultimately show ?thesis
      using a0 a2 X by (simp add: ClosestTo_gap T_def [symmetric] P_def [symmetric])
  next
    case 2
    then have X: "E + D + W = X" using j k by simp
    then have "x = e + d + w" using a2 by (simp add: word_unat_eq_iff X_def)
    moreover have "\<not> gap T (E + W) < gap T X" "\<not> gap T P < gap T X"
      using near'(1,2) prev' X dvals sm unfolding gap_def by (elim disjE; auto)+
    ultimately show ?thesis
      using a0 a2 X by (simp add: ClosestTo_gap T_def [symmetric] P_def [symmetric])
  next
    case 3
    then have "E = j * D + D" using k by simp
    then have X: "E + W = X + D" "D \<le> E" using j by simp_all
    with prev' dvals have p: "P = X" by auto
    then have "x = e - d + w" by (simp add: word_unat_eq_iff X_def P_def)
    moreover have "gap T X < gap T (E + D + W)" "\<not> gap T (E + W) < gap T X"
      using near' X by (auto simp: gap_def)
    ultimately show ?thesis
      using a0 a2 p by (simp add: ClosestTo_gap T_def [symmetric] P_def [symmetric])
  qed
qed


section \<open>Properties of the arithmetic\<close>

text \<open>The packet numbers that lie less than half an epoch from the next expected one.\<close>

definition in_window :: "nat \<Rightarrow> u64 \<Rightarrow> u64 \<Rightarrow> bool" where
  "in_window n base p \<longleftrightarrow> unat base < 2 ^ 62 \<and> unat p < 2 ^ 62 \<and>
     2 * unat p < 2 * (unat base + 1) + 2 ^ (8 * n) \<and> 2 * (unat base + 1) < 2 * unat p + 2 ^ (8 * n)"

lemma packet_number_expanded:
  assumes "n \<in> {1, 2, 4, 6}" and "in_window n base p"
  shows "CalculatePacketNumberFromWire n base (take_bit (8 * n) p) = p"
proof -
  note w = assms(2) [unfolded in_window_def]
  have t: "unat (base + 1) = unat base + 1" using w by (simp add: unat_word_ariths)
  have s: "0 < 8 * n" "8 * n \<le> 48" using assms(1) by auto
  from closest_epoch [OF s, of base p "base + 1"] t w show ?thesis
    by (simp add: CalculatePacketNumberFromWire_def Let_def)
qed

text \<open>
  C39: packet number recovery. If the sender truncates a packet number to 1, 2, 4 or 6 bytes, and the
  number is less than half an epoch away from the next expected one, the receiver recovers exactly
  the number sent, also across an epoch boundary and in the first epoch, where the candidate of the
  previous epoch wraps around.
\<close>

theorem CalculatePacketNumberFromWire_correct:
  assumes "n \<in> {1, 2, 4, 6}" and "unat base < 2 ^ 62" and "unat p < 2 ^ 62"
    and "2 * unat p < 2 * (unat base + 1) + 2 ^ (8 * n)" and "2 * (unat base + 1) < 2 * unat p + 2 ^ (8 * n)"
  shows "CalculatePacketNumberFromWire n base (take_bit (8 * n) p) = p"
  using assms by (intro packet_number_expanded) (simp_all add: in_window_def)

theorem CalculatePacketNumberFromWire_correct_witness:
  "CalculatePacketNumberFromWire 1 0xFE (take_bit 8 0x103) = 0x103"
  using CalculatePacketNumberFromWire_correct [of 1 "0xFE" "0x103"] by simp

text \<open>
  Timestamp recovery. A timestamp truncated to its low 32 bits is recovered if it is less than
  2147 seconds away from the previous one.
\<close>

theorem CalculateTimestampFromWire_correct:
  assumes "unat prev < 2 ^ 62" and "unat t < 2 ^ 62"
    and "2 * unat t < 2 * unat prev + 2 ^ 32" and "2 * unat prev < 2 * unat t + 2 ^ 32"
  shows "CalculateTimestampFromWire prev (ucast t) = t"
proof -
  have "(ucast (ucast t :: u32) :: u64) = take_bit 32 t" by (rule bit_word_eqI) (auto simp: bit_simps)
  with closest_epoch [of 32, OF _ _ assms(1,2) disjI1 [OF refl] assms(3,4)] show ?thesis
    by (simp add: CalculateTimestampFromWire_def Let_def)
qed

theorem CalculateTimestampFromWire_correct_witness:
  "CalculateTimestampFromWire 0xFFFFFFFF (ucast (0x100000005 :: u64)) = 0x100000005"
  using CalculateTimestampFromWire_correct [of "0xFFFFFFFF" "0x100000005"] by simp

text \<open>
  The field sizes of a stream frame. The stream id is written in the least number of bytes between 1
  and 4 that holds it; the offset in the least number of 0, 2, 3, .., 8 bytes, or of 0, 2, 4, 8 bytes in
  version 41.
\<close>

theorem stream_field_sizes_least:
  "(let n = GetStreamIdSize i in
      n \<in> {1..4} \<and> unat i < 256 ^ n \<and> (\<forall>m. 1 \<le> m \<longrightarrow> unat i < 256 ^ m \<longrightarrow> n \<le> m)) \<and>
   (let n = GetStreamOffsetSize q version off; S = (if version = ver q QUIC_VERSION_41 then {0, 2, 4, 8} else {0} \<union> {2..8}) in
      n \<in> S \<and> unat off < 256 ^ n \<and> (\<forall>m \<in> S. unat off < 256 ^ m \<longrightarrow> n \<le> m))"
proof
  have le: "n \<le> m" if "256 ^ (n - 1) \<le> x" "x < 256 ^ m" for n m x :: nat
    using le_less_trans [OF that] by (simp add: power_less_imp_less_exp)
  have "GetStreamIdSize i \<le> m" if "1 \<le> m" "unat i < 256 ^ m" for m
    using stream_id_size_bounds(4) [of i] le [OF _ that(2)] that(1) by auto
  with stream_id_size_bounds [of i] show "let n = GetStreamIdSize i in
      n \<in> {1..4} \<and> unat i < 256 ^ n \<and> (\<forall>m. 1 \<le> m \<longrightarrow> unat i < 256 ^ m \<longrightarrow> n \<le> m)"
    by (simp add: Let_def)
  show "let n = GetStreamOffsetSize q version off; S = (if version = ver q QUIC_VERSION_41 then {0, 2, 4, 8} else {0} \<union> {2..8}) in
      n \<in> S \<and> unat off < 256 ^ n \<and> (\<forall>m \<in> S. unat off < 256 ^ m \<longrightarrow> n \<le> m)"
  proof (cases "version = ver q QUIC_VERSION_41")
    case True
    then have S: "(if version = ver q QUIC_VERSION_41 then {0, 2, 4, 8} else {0} \<union> {2..8}) = {0, 2, 4, 8 :: nat}"
      by simp
    show ?thesis unfolding Let_def S using offset_size_41 [where v = off, OF True] by blast
  next
    case False
    show ?thesis
    proof (cases "off = 0")
      case True
      with False show ?thesis by (simp add: GetStreamOffsetSize_def)
    next
      case nz: False
      let ?n = "GetStreamOffsetSize q version off"
      note n = offset_size_pre40 [OF False nz]
      have pos: "0 < unat off" using nz by (simp add: unat_gt_0)
      then have "?n \<le> m" if "m \<in> {0} \<union> {2..8}" "unat off < 256 ^ m" for m
        using n(4) le [where n = ?n, OF _ that(2)] that by (cases "m = 0") auto
      with n pos False show ?thesis by (simp add: Let_def)
    qed
  qed
qed

theorem stream_field_sizes_least_witness:
  "(511 :: nat) < 256 ^ GetStreamIdSize 0x1FF \<and> GetStreamIdSize 0x1FF \<le> 2"
proof -
  have "let n = GetStreamIdSize 0x1FF in
      n \<in> {1..4} \<and> unat (0x1FF :: u32) < 256 ^ n \<and> (\<forall>m. 1 \<le> m \<longrightarrow> unat (0x1FF :: u32) < 256 ^ m \<longrightarrow> n \<le> m)"
    by (rule conjunct1 [OF stream_field_sizes_least])
  then show ?thesis by (simp add: Let_def)
qed

end
