(* ===== verification/Framer_Frames.thy ===== *)
theory Framer_Frames
  imports Framer_Base Quic_Demo
begin

text \<open>
  The frames of \<^verbatim>\<open>my_quic_framer.cc\<close> with a fixed layout (reset, close, go-away, window update, blocked,
  stop-waiting, padding) and the stream frame with its packed type byte: for each the \<open>Append\<close> function,
  the \<open>Process\<close> function and the lemma that the second inverts the first. The \<open>Append\<close> functions return
  \<open>None\<close> where the source returns false; the \<open>Process\<close> functions return the message they leave in
  \<open>detailed_error_\<close> where the source returns false. The frame structs belong to the QUIC library;
  the records hold the fields the framer uses.
\<close>

section \<open>Frames\<close>

record QuicRstStreamFrame =
  rst_stream_id :: u32
  rst_error_code :: u32
  rst_byte_offset :: u64

record QuicConnectionCloseFrame =
  cc_error_code :: u32
  cc_error_details :: bytes

record QuicGoAwayFrame =
  ga_error_code :: u32
  ga_last_good_stream_id :: u32
  ga_reason_phrase :: bytes

record QuicWindowUpdateFrame =
  wu_stream_id :: u32
  wu_byte_offset :: u64

record QuicBlockedFrame =
  bl_stream_id :: u32

record QuicStopWaitingFrame =
  sw_least_unacked :: u64

record QuicPaddingFrame =
  num_padding_bytes :: int

record QuicStreamFrame =
  sf_stream_id :: u32
  sf_fin :: bool
  sf_offset :: u64
  sf_data_length :: nat
  sf_data_buffer :: bytes

section \<open>Frames with a fixed layout\<close>

definition AppendPacketNumber :: "('r, 'w) quic \<Rightarrow> nat \<Rightarrow> u64 \<Rightarrow> 'w \<Rightarrow> 'w option" where
  "AppendPacketNumber q packet_number_length packet_number w =
     (if packet_number_length \<noteq> 1 \<and> packet_number_length \<noteq> 2 \<and> packet_number_length \<noteq> 4 \<and>
         packet_number_length \<noteq> 6 \<and> packet_number_length \<noteq> 8
      then None
      else WriteBytesToUInt64 q packet_number_length packet_number w)"

definition AppendRstStreamFrame :: "('r, 'w) quic \<Rightarrow> nat \<Rightarrow> QuicRstStreamFrame \<Rightarrow> 'w \<Rightarrow> 'w option" where
  "AppendRstStreamFrame q version frame w = do {
     w \<leftarrow> WriteUInt32 q (rst_stream_id frame) w;
     w \<leftarrow> (if version \<noteq> ver q QUIC_VERSION_41 then WriteUInt64 q (rst_byte_offset frame) w else Some w);
     w \<leftarrow> WriteUInt32 q (rst_error_code frame) w;
     (if version = ver q QUIC_VERSION_41 then WriteUInt64 q (rst_byte_offset frame) w else Some w)
   }"

definition ProcessRstStreamFrame :: "('r, 'w) quic \<Rightarrow> nat \<Rightarrow> 'r \<Rightarrow> string + QuicRstStreamFrame \<times> 'r" where
  "ProcessRstStreamFrame q version r =
     rd ''Unable to read stream_id.'' (ReadUInt32 q r) (\<lambda>sid r.
     if version \<noteq> ver q QUIC_VERSION_41
     then rd ''Unable to read rst stream sent byte offset.'' (ReadUInt64 q r) (\<lambda>off r.
          rd ''Unable to read rst stream error code.'' (ReadUInt32 q r) (\<lambda>code r.
          Inr (\<lparr>rst_stream_id = sid, rst_error_code = (if code \<ge> errc q QUIC_STREAM_LAST_ERROR
                then errc q QUIC_STREAM_LAST_ERROR else code), rst_byte_offset = off\<rparr>, r)))
     else rd ''Unable to read rst stream error code.'' (ReadUInt32 q r) (\<lambda>code r.
          rd ''Unable to read rst stream sent byte offset.'' (ReadUInt64 q r) (\<lambda>off r.
          Inr (\<lparr>rst_stream_id = sid, rst_error_code = (if code \<ge> errc q QUIC_STREAM_LAST_ERROR
                then errc q QUIC_STREAM_LAST_ERROR else code), rst_byte_offset = off\<rparr>, r))))"

definition AppendConnectionCloseFrame :: "('r, 'w) quic \<Rightarrow> QuicConnectionCloseFrame \<Rightarrow> 'w \<Rightarrow> 'w option" where
  "AppendConnectionCloseFrame q frame w = do {
     w \<leftarrow> WriteUInt32 q (cc_error_code frame) w;
     WriteStringPiece16 q (TruncateErrorString (cc_error_details frame)) w
   }"

definition ProcessConnectionCloseFrame :: "('r, 'w) quic \<Rightarrow> 'r \<Rightarrow> string + QuicConnectionCloseFrame \<times> 'r" where
  "ProcessConnectionCloseFrame q r =
     rd ''Unable to read connection close error code.'' (ReadUInt32 q r) (\<lambda>code r.
     rd ''Unable to read connection close error details.'' (ReadStringPiece16 q r) (\<lambda>details r.
     Inr (\<lparr>cc_error_code = (if code \<ge> errc q QUIC_LAST_ERROR then errc q QUIC_LAST_ERROR else code),
           cc_error_details = details\<rparr>, r)))"

definition AppendGoAwayFrame :: "('r, 'w) quic \<Rightarrow> QuicGoAwayFrame \<Rightarrow> 'w \<Rightarrow> 'w option" where
  "AppendGoAwayFrame q frame w = do {
     w \<leftarrow> WriteUInt32 q (ga_error_code frame) w;
     w \<leftarrow> WriteUInt32 q (ga_last_good_stream_id frame) w;
     WriteStringPiece16 q (TruncateErrorString (ga_reason_phrase frame)) w
   }"

definition ProcessGoAwayFrame :: "('r, 'w) quic \<Rightarrow> 'r \<Rightarrow> string + QuicGoAwayFrame \<times> 'r" where
  "ProcessGoAwayFrame q r =
     rd ''Unable to read go away error code.'' (ReadUInt32 q r) (\<lambda>code r.
     rd ''Unable to read last good stream id.'' (ReadUInt32 q r) (\<lambda>sid r.
     rd ''Unable to read goaway reason.'' (ReadStringPiece16 q r) (\<lambda>reason r.
     Inr (\<lparr>ga_error_code = (if code \<ge> errc q QUIC_LAST_ERROR then errc q QUIC_LAST_ERROR else code),
           ga_last_good_stream_id = sid, ga_reason_phrase = reason\<rparr>, r))))"

definition AppendWindowUpdateFrame :: "('r, 'w) quic \<Rightarrow> QuicWindowUpdateFrame \<Rightarrow> 'w \<Rightarrow> 'w option" where
  "AppendWindowUpdateFrame q frame w = do {
     w \<leftarrow> WriteUInt32 q (wu_stream_id frame) w;
     WriteUInt64 q (wu_byte_offset frame) w
   }"

definition ProcessWindowUpdateFrame :: "('r, 'w) quic \<Rightarrow> 'r \<Rightarrow> string + QuicWindowUpdateFrame \<times> 'r" where
  "ProcessWindowUpdateFrame q r =
     rd ''Unable to read stream_id.'' (ReadUInt32 q r) (\<lambda>sid r.
     rd ''Unable to read window byte_offset.'' (ReadUInt64 q r) (\<lambda>off r.
     Inr (\<lparr>wu_stream_id = sid, wu_byte_offset = off\<rparr>, r)))"

definition AppendBlockedFrame :: "('r, 'w) quic \<Rightarrow> QuicBlockedFrame \<Rightarrow> 'w \<Rightarrow> 'w option" where
  "AppendBlockedFrame q frame w = WriteUInt32 q (bl_stream_id frame) w"

definition ProcessBlockedFrame :: "('r, 'w) quic \<Rightarrow> 'r \<Rightarrow> string + QuicBlockedFrame \<times> 'r" where
  "ProcessBlockedFrame q r = rd ''Unable to read stream_id.'' (ReadUInt32 q r) (\<lambda>sid r. Inr (\<lparr>bl_stream_id = sid\<rparr>, r))"

text \<open>Stop-waiting frames carry the distance from the packet's own number, in the packet number's width.\<close>

definition AppendStopWaitingFrame ::
  "('r, 'w) quic \<Rightarrow> u64 \<Rightarrow> nat \<Rightarrow> QuicStopWaitingFrame \<Rightarrow> 'w \<Rightarrow> 'w option" where
  "AppendStopWaitingFrame q packet_number packet_number_length frame w =
     (let least_unacked_delta = packet_number - sw_least_unacked frame;
          length_shift = packet_number_length * 8
      in if drop_bit length_shift least_unacked_delta > 0 then None
         else AppendPacketNumber q packet_number_length least_unacked_delta w)"

definition ProcessStopWaitingFrame ::
  "('r, 'w) quic \<Rightarrow> u64 \<Rightarrow> nat \<Rightarrow> 'r \<Rightarrow> string + QuicStopWaitingFrame \<times> 'r" where
  "ProcessStopWaitingFrame q packet_number packet_number_length r =
     rd ''Unable to read least unacked delta.'' (ReadBytesToUInt64 q packet_number_length r) (\<lambda>least_unacked_delta r.
     if packet_number < least_unacked_delta then Inl ''Invalid unacked delta.''
     else Inr (\<lparr>sw_least_unacked = packet_number - least_unacked_delta\<rparr>, r))"

section \<open>Padding\<close>

definition AppendPaddingFrame :: "('r, 'w) quic \<Rightarrow> nat \<Rightarrow> QuicPaddingFrame \<Rightarrow> 'w \<Rightarrow> 'w option" where
  "AppendPaddingFrame q version frame w =
     (if version \<le> ver q QUIC_VERSION_37 then Some (WritePadding q w)
      else if num_padding_bytes frame = 0 then None
      else if num_padding_bytes frame < 0 then Some (WritePadding q w)
      else WritePaddingBytes q (nat (num_padding_bytes frame - 1)) w)"

text \<open>
  The loop that takes one zero byte per round. The bound on the number of rounds is the number of bytes
  that remain, which is enough because every round takes one (\<open>padding_loop_all\<close> below).
\<close>

fun padding_loop :: "('r, 'w) quic \<Rightarrow> nat \<Rightarrow> int \<Rightarrow> 'r \<Rightarrow> int \<times> 'r" where
  "padding_loop q 0 n r = (n, r)"
| "padding_loop q (Suc k) n r =
     (if \<not> IsDoneReading q r \<and> PeekByte q r = 0
      then (case ReadBytes q 1 r of None \<Rightarrow> (n, r) | Some (_, r') \<Rightarrow> padding_loop q k (n + 1) r')
      else (n, r))"

definition ProcessPaddingFrame :: "('r, 'w) quic \<Rightarrow> nat \<Rightarrow> 'r \<Rightarrow> QuicPaddingFrame \<times> 'r" where
  "ProcessPaddingFrame q version r =
     (if version \<le> ver q QUIC_VERSION_37
      then (\<lparr>num_padding_bytes = int (BytesRemaining q r) + 1\<rparr>, snd (ReadRemainingPayload q r))
      else case padding_loop q (BytesRemaining q r) 1 r of (n, r') \<Rightarrow> (\<lparr>num_padding_bytes = n\<rparr>, r'))"

section \<open>Stream frames\<close>

definition stream_type_byte :: "('r, 'w) quic \<Rightarrow> nat \<Rightarrow> QuicStreamFrame \<Rightarrow> bool \<Rightarrow> u8" where
  "stream_type_byte q version frame no_stream_frame_length =
     (if version \<noteq> ver q QUIC_VERSION_41
      then
        let type_byte = (if sf_fin frame then kQuicStreamFinMask_Pre40 else 0);
            type_byte = push_bit kQuicStreamDataLengthShift_Pre40 type_byte;
            type_byte = type_byte OR (if no_stream_frame_length then 0 else kQuicStreamDataLengthMask_Pre40);
            type_byte = push_bit kQuicStreamShift_Pre40 type_byte;
            offset_len = GetStreamOffsetSize q version (sf_offset frame);
            type_byte = (if offset_len > 0 then type_byte OR of_nat (offset_len - 1) else type_byte);
            type_byte = push_bit kQuicStreamIdShift_Pre40 type_byte;
            type_byte = type_byte OR of_nat (GetStreamIdSize (sf_stream_id frame) - 1)
        in type_byte OR kQuicFrameTypeStreamMask_Pre40
      else
        let type_byte = SetBit 0 (sf_fin frame) kQuicStreamFinShift;
            type_byte = SetBit type_byte (\<not> no_stream_frame_length) kQuicStreamDataLengthShift;
            offset_size = GetStreamOffsetSize q version (sf_offset frame);
            offset_len_encode = (if offset_size = 0 then 0 else if offset_size = 2 then 1 else if offset_size = 4 then 2
                                 else if offset_size = 8 then 3 else 3);
            type_byte = SetBits type_byte offset_len_encode kQuicStreamOffsetNumBits kQuicStreamOffsetShift;
            type_byte = SetBits type_byte (of_nat (GetStreamIdSize (sf_stream_id frame) - 1))
                          kQuicStreamIDLengthNumBits kQuicStreamIDLengthShift
        in type_byte OR kQuicFrameTypeStreamMask)"

definition AppendStreamId :: "('r, 'w) quic \<Rightarrow> nat \<Rightarrow> u32 \<Rightarrow> 'w \<Rightarrow> 'w option" where
  "AppendStreamId q stream_id_length stream_id w =
     (if stream_id_length = 0 \<or> stream_id_length > 4 then None
      else WriteBytesToUInt64 q stream_id_length (ucast stream_id) w)"

definition AppendStreamOffset :: "('r, 'w) quic \<Rightarrow> nat \<Rightarrow> u64 \<Rightarrow> 'w \<Rightarrow> 'w option" where
  "AppendStreamOffset q offset_length offset w =
     (if offset_length = 1 \<or> offset_length > 8 then None
      else WriteBytesToUInt64 q offset_length offset w)"

text \<open>
  The data producer is the library's \<open>QuicStreamFrameDataProducer::WriteStreamData\<close>. Without one, the
  frame's buffer must hold at least \<open>data_length\<close> bytes; reading past it is \<open>None\<close>.
\<close>

type_synonym 'w data_producer = "u32 \<Rightarrow> u64 \<Rightarrow> nat \<Rightarrow> 'w \<Rightarrow> 'w option"

definition AppendStreamFrame ::
  "('r, 'w) quic \<Rightarrow> nat \<Rightarrow> 'w data_producer option \<Rightarrow> QuicStreamFrame \<Rightarrow> bool \<Rightarrow> 'w \<Rightarrow> 'w option" where
  "AppendStreamFrame q version data_producer frame no_stream_frame_length w = do {
     w \<leftarrow> AppendStreamId q (GetStreamIdSize (sf_stream_id frame)) (sf_stream_id frame) w;
     w \<leftarrow> AppendStreamOffset q (GetStreamOffsetSize q version (sf_offset frame)) (sf_offset frame) w;
     w \<leftarrow> (if \<not> no_stream_frame_length
           then if sf_data_length frame > 65535 then None else WriteUInt16 q (of_nat (sf_data_length frame)) w
           else Some w);
     (case data_producer of
        Some WriteStreamData \<Rightarrow>
          if sf_data_length frame = 0 then Some w
          else WriteStreamData (sf_stream_id frame) (sf_offset frame) (sf_data_length frame) w
      | None \<Rightarrow> do { bs \<leftarrow> peek (sf_data_buffer frame) 0 (sf_data_length frame); WriteBytes q bs w })
   }"

record stream_flags =
  fl_stream_id_length :: nat
  fl_offset_length :: nat
  fl_has_data_length :: bool
  fl_fin :: bool

definition stream_flags_pre40 :: "u8 \<Rightarrow> stream_flags" where
  "stream_flags_pre40 frame_type =
     (let stream_flags = frame_type AND NOT kQuicFrameTypeStreamMask_Pre40;
          stream_id_length = unat (stream_flags AND kQuicStreamIDLengthMask_Pre40) + 1;
          stream_flags = drop_bit kQuicStreamIdShift_Pre40 stream_flags;
          offset_length = unat (stream_flags AND kQuicStreamOffsetMask_Pre40);
          offset_length = (if offset_length > 0 then offset_length + 1 else offset_length);
          stream_flags = drop_bit kQuicStreamShift_Pre40 stream_flags;
          has_data_length = (stream_flags AND kQuicStreamDataLengthMask_Pre40 = kQuicStreamDataLengthMask_Pre40);
          stream_flags = drop_bit kQuicStreamDataLengthShift_Pre40 stream_flags
      in \<lparr>fl_stream_id_length = stream_id_length, fl_offset_length = offset_length,
          fl_has_data_length = has_data_length,
          fl_fin = (stream_flags AND kQuicStreamFinMask_Pre40 = kQuicStreamFinShift_Pre40)\<rparr>)"

definition stream_flags_41 :: "u8 \<Rightarrow> stream_flags" where
  "stream_flags_41 frame_type =
     (let stream_flags = frame_type AND NOT kQuicFrameTypeStreamMask;
          stream_id_length = 1 + unat (ExtractBits stream_flags kQuicStreamIDLengthNumBits kQuicStreamIDLengthShift);
          offset_length = 2 ^ unat (ExtractBits stream_flags kQuicStreamOffsetNumBits kQuicStreamOffsetShift)
      in \<lparr>fl_stream_id_length = stream_id_length,
          fl_offset_length = (if offset_length = 1 then 0 else offset_length),
          fl_has_data_length = ExtractBit stream_flags kQuicStreamDataLengthShift,
          fl_fin = ExtractBit stream_flags kQuicStreamFinShift\<rparr>)"

definition stream_flags_of :: "('r, 'w) quic \<Rightarrow> nat \<Rightarrow> u8 \<Rightarrow> stream_flags" where
  "stream_flags_of q version frame_type =
     (if version \<noteq> ver q QUIC_VERSION_41 then stream_flags_pre40 frame_type else stream_flags_41 frame_type)"

definition ProcessStreamFrame :: "('r, 'w) quic \<Rightarrow> nat \<Rightarrow> u8 \<Rightarrow> 'r \<Rightarrow> string + QuicStreamFrame \<times> 'r" where
  "ProcessStreamFrame q version frame_type r =
     (let fl = stream_flags_of q version frame_type in
      rd ''Unable to read stream_id.'' (ReadBytesToUInt64 q (fl_stream_id_length fl) r) (\<lambda>stream_id r.
      rd ''Unable to read offset.'' (ReadBytesToUInt64 q (fl_offset_length fl) r) (\<lambda>offset r.
      rd ''Unable to read frame data.''
         (if fl_has_data_length fl then ReadStringPiece16 q r else ReadStringPiece q (BytesRemaining q r) r) (\<lambda>data r.
      Inr (\<lparr>sf_stream_id = ucast stream_id, sf_fin = fl_fin fl, sf_offset = offset,
            sf_data_length = length data mod 2 ^ 16, sf_data_buffer = data\<rparr>, r)))))"

section \<open>Layouts\<close>

text \<open>The bytes of each frame after its type byte, and what a receiver makes of it.\<close>

abbreviation word32 :: "('r, 'w) view \<Rightarrow> Endianness \<Rightarrow> u32 \<Rightarrow> bytes" where
  "word32 V e v \<equiv> int_enc V e 4 (ucast v)"

definition rst_bytes :: "('r, 'w) view \<Rightarrow> Endianness \<Rightarrow> nat \<Rightarrow> QuicRstStreamFrame \<Rightarrow> bytes" where
  "rst_bytes V e version f =
     (if version \<noteq> 41
      then word32 V e (rst_stream_id f) @ int_enc V e 8 (rst_byte_offset f) @ word32 V e (rst_error_code f) @ []
      else word32 V e (rst_stream_id f) @ word32 V e (rst_error_code f) @ int_enc V e 8 (rst_byte_offset f) @ [])"

definition string16_bytes :: "('r, 'w) view \<Rightarrow> Endianness \<Rightarrow> bytes \<Rightarrow> bytes" where
  "string16_bytes V e bs = int_enc V e 2 (of_nat (length bs)) @ bs"

definition close_bytes :: "('r, 'w) view \<Rightarrow> Endianness \<Rightarrow> QuicConnectionCloseFrame \<Rightarrow> bytes" where
  "close_bytes V e f = word32 V e (cc_error_code f) @ string16_bytes V e (TruncateErrorString (cc_error_details f)) @ []"

definition goaway_bytes :: "('r, 'w) view \<Rightarrow> Endianness \<Rightarrow> QuicGoAwayFrame \<Rightarrow> bytes" where
  "goaway_bytes V e f =
     word32 V e (ga_error_code f) @ word32 V e (ga_last_good_stream_id f) @
     string16_bytes V e (TruncateErrorString (ga_reason_phrase f)) @ []"

definition window_update_bytes :: "('r, 'w) view \<Rightarrow> Endianness \<Rightarrow> QuicWindowUpdateFrame \<Rightarrow> bytes" where
  "window_update_bytes V e f = word32 V e (wu_stream_id f) @ int_enc V e 8 (wu_byte_offset f) @ []"

definition blocked_bytes :: "('r, 'w) view \<Rightarrow> Endianness \<Rightarrow> QuicBlockedFrame \<Rightarrow> bytes" where
  "blocked_bytes V e f = word32 V e (bl_stream_id f) @ []"

definition clamp :: "u32 \<Rightarrow> u32 \<Rightarrow> u32" where
  "clamp limit code = (if code \<ge> limit then limit else code)"

lemma truncated_length: "length (TruncateErrorString bs) = min (length bs) 256" "length (TruncateErrorString bs) < 2 ^ 16"
  by (simp_all add: TruncateErrorString_def kMaxErrorStringLength_def)

lemma emits_last: "emits q V e f xs \<Longrightarrow> emits q V e f (xs @ [])"
  by simp

lemma string16_io:
  assumes "documented q V" and "length bs < 2 ^ 16"
  shows "emits q V e (WriteStringPiece16 q bs) (string16_bytes V e bs)" "parses V e (ReadStringPiece16 q) (string16_bytes V e bs) bs"
  using documented_writer(12) [OF assms(1)] documented_reader(11) [OF assms(1)] assms(2)
  by (simp_all add: string16_bytes_def)

lemmas documented_decodes = documented_reader [THEN decodes_rd]
lemmas string16_decodes = string16_io(2) [THEN decodes_rd]

lemma rst_emits:
  assumes d: "documented q V"
  shows "emits q V e (AppendRstStreamFrame q version f) (rst_bytes V e version f)"
proof (cases "version = 41")
  case True
  have "emits q V e (\<lambda>w. Option.bind (WriteUInt32 q (rst_stream_id f) w) (\<lambda>w. Option.bind
      (WriteUInt32 q (rst_error_code f) w) (WriteUInt64 q (rst_byte_offset f)))) (rst_bytes V e version f)"
    unfolding rst_bytes_def using True
    by (simp del: append_Nil2) (intro emits_bind emits_last documented_writer [OF d])
  with True show ?thesis by (simp add: AppendRstStreamFrame_def [abs_def] documented_enums [OF d])
next
  case False
  have "emits q V e (\<lambda>w. Option.bind (WriteUInt32 q (rst_stream_id f) w) (\<lambda>w. Option.bind
      (WriteUInt64 q (rst_byte_offset f) w) (WriteUInt32 q (rst_error_code f)))) (rst_bytes V e version f)"
    unfolding rst_bytes_def using False
    by (simp del: append_Nil2) (intro emits_bind emits_last documented_writer [OF d])
  with False show ?thesis by (simp add: AppendRstStreamFrame_def [abs_def] documented_enums [OF d])
qed

lemma rst_decodes:
  assumes d: "documented q V"
  shows "decodes V e (ProcessRstStreamFrame q version) (rst_bytes V e version f)
           (f\<lparr>rst_error_code := clamp (errc q QUIC_STREAM_LAST_ERROR) (rst_error_code f)\<rparr>)"
proof (cases "version = 41")
  case True
  then show ?thesis
    unfolding ProcessRstStreamFrame_def [abs_def] rst_bytes_def documented_enums [OF d]
    by (simp del: append_Nil2)
      (intro documented_decodes [OF d] decodes_done; simp add: clamp_def)
next
  case False
  then show ?thesis
    unfolding ProcessRstStreamFrame_def [abs_def] rst_bytes_def documented_enums [OF d]
    by (simp del: append_Nil2)
      (intro documented_decodes [OF d] decodes_done; simp add: clamp_def)
qed

lemma close_emits:
  assumes d: "documented q V"
  shows "emits q V e (AppendConnectionCloseFrame q f) (close_bytes V e f)"
  unfolding AppendConnectionCloseFrame_def [abs_def] close_bytes_def
  by (intro emits_bind emits_last documented_writer [OF d] string16_io [OF d] truncated_length)

lemma close_decodes:
  assumes d: "documented q V"
  shows "decodes V e (ProcessConnectionCloseFrame q) (close_bytes V e f)
           \<lparr>cc_error_code = clamp (errc q QUIC_LAST_ERROR) (cc_error_code f),
            cc_error_details = TruncateErrorString (cc_error_details f)\<rparr>"
  unfolding ProcessConnectionCloseFrame_def [abs_def] close_bytes_def
  by (intro documented_decodes [OF d] string16_decodes [OF d] decodes_done truncated_length) (simp add: clamp_def)

lemma goaway_emits:
  assumes d: "documented q V"
  shows "emits q V e (AppendGoAwayFrame q f) (goaway_bytes V e f)"
  unfolding AppendGoAwayFrame_def [abs_def] goaway_bytes_def
  by (intro emits_bind emits_last documented_writer [OF d] string16_io [OF d] truncated_length)

lemma goaway_decodes:
  assumes d: "documented q V"
  shows "decodes V e (ProcessGoAwayFrame q) (goaway_bytes V e f)
           (f\<lparr>ga_error_code := clamp (errc q QUIC_LAST_ERROR) (ga_error_code f),
              ga_reason_phrase := TruncateErrorString (ga_reason_phrase f)\<rparr>)"
  unfolding ProcessGoAwayFrame_def [abs_def] goaway_bytes_def
  by (intro documented_decodes [OF d] string16_decodes [OF d] decodes_done truncated_length) (simp add: clamp_def)

lemma window_update_emits:
  assumes d: "documented q V"
  shows "emits q V e (AppendWindowUpdateFrame q f) (window_update_bytes V e f)"
  unfolding AppendWindowUpdateFrame_def [abs_def] window_update_bytes_def
  by (intro emits_bind emits_last documented_writer [OF d])

lemma window_update_decodes:
  assumes d: "documented q V"
  shows "decodes V e (ProcessWindowUpdateFrame q) (window_update_bytes V e f) f"
  unfolding ProcessWindowUpdateFrame_def [abs_def] window_update_bytes_def
  by (intro documented_decodes [OF d] decodes_done) simp

lemma blocked_emits:
  assumes d: "documented q V"
  shows "emits q V e (AppendBlockedFrame q f) (blocked_bytes V e f)"
  unfolding AppendBlockedFrame_def [abs_def] blocked_bytes_def
  by (intro emits_last documented_writer [OF d])

lemma blocked_decodes:
  assumes d: "documented q V"
  shows "decodes V e (ProcessBlockedFrame q) (blocked_bytes V e f) f"
  unfolding ProcessBlockedFrame_def [abs_def] blocked_bytes_def
  by (intro documented_decodes [OF d] decodes_done) simp

text \<open>Packet numbers and stop-waiting frames.\<close>

lemma packet_number_emits:
  assumes "documented q V" and "n \<in> {1, 2, 4, 6, 8}"
  shows "emits q V e (AppendPacketNumber q n p) (int_enc V e n p)"
  using assms(2) documented_writer(10) [OF assms(1), of n e p] by (auto simp: AppendPacketNumber_def [abs_def])

lemma number_parses:
  assumes "documented q V" and "n \<le> 8" and "unat p < 2 ^ (8 * n)"
  shows "parses V e (ReadBytesToUInt64 q n) (int_enc V e n p) p"
proof -
  have "take_bit (8 * n) p = p"
    using assms(3) by (simp add: word_unat_eq_iff unsigned_take_bit_eq take_bit_nat_eq_self)
  with documented_reader(10) [OF assms(1,2), of e p] show ?thesis by simp
qed

lemma stop_waiting_emits:
  assumes d: "documented q V" and n: "n \<in> {1, 2, 4, 6, 8}" and le: "unat (p - sw_least_unacked f) < 2 ^ (8 * n)"
  shows "emits q V e (AppendStopWaitingFrame q p n f) (int_enc V e n (p - sw_least_unacked f))"
proof -
  have "drop_bit (n * 8) (p - sw_least_unacked f) = 0"
    using le by (simp only: drop_bit_eq_0_iff mult.commute)
  then have "AppendStopWaitingFrame q p n f = AppendPacketNumber q n (p - sw_least_unacked f)"
    by (simp add: AppendStopWaitingFrame_def [abs_def] Let_def)
  with packet_number_emits [OF d n] show ?thesis by simp
qed

lemma stop_waiting_decodes:
  assumes d: "documented q V" and n: "n \<le> 8" and le: "sw_least_unacked f \<le> p"
    and fits: "unat (p - sw_least_unacked f) < 2 ^ (8 * n)"
  shows "decodes V e (ProcessStopWaitingFrame q p n) (int_enc V e n (p - sw_least_unacked f) @ []) f"
proof -
  have "\<not> p < p - sw_least_unacked f" using le by (simp add: not_less word_le_nat_alt unat_minus_le)
  then show ?thesis
    unfolding ProcessStopWaitingFrame_def [abs_def]
    by (intro decodes_rd [OF number_parses [OF d n fits]] decodes_if(2)) (simp_all add: decodes_done)
qed

text \<open>Padding: the loop takes exactly the zero bytes in front.\<close>

lemma padding_loop_all:
  assumes d: "documented q V"
  shows "rest V r = replicate k 0 @ left \<Longrightarrow> left = [] \<or> hd left \<noteq> 0 \<Longrightarrow> k \<le> fuel \<Longrightarrow>
     fst (padding_loop q fuel n r) = n + int k \<and> rest V (snd (padding_loop q fuel n r)) = left \<and>
     rorder V (snd (padding_loop q fuel n r)) = rorder V r"
proof (induction fuel arbitrary: k n r)
  case 0
  then show ?case by simp
next
  case (Suc fuel)
  show ?case
  proof (cases k)
    case 0
    with Suc.prems show ?thesis by (auto simp: documented_state [OF d])
  next
    case (Suc k')
    with Suc.prems have rest: "rest V r = [0] @ (replicate k' 0 @ left)" by simp
    then have "\<not> IsDoneReading q r" "PeekByte q r = 0" by (simp_all add: documented_state [OF d])
    moreover from parsesD [OF documented_reader(13) [OF d, of "[0]" 1 "rorder V r"] refl rest]
    obtain r' where "ReadBytes q 1 r = Some ([0], r')" "rest V r' = replicate k' 0 @ left" "rorder V r' = rorder V r" by auto
    ultimately show ?thesis using Suc.IH [of r' k' "n + 1"] Suc.prems Suc by simp
  qed
qed

section \<open>The type byte of a stream frame\<close>

lemma id_size_cases: "GetStreamIdSize i \<in> {1, 2, 3, 4}"
  using stream_id_size_bounds(1,2) [of i] by auto

lemma offset_size_cases:
  "version \<noteq> ver q QUIC_VERSION_41 \<Longrightarrow> GetStreamOffsetSize q version v \<in> {0, 2, 3, 4, 5, 6, 7, 8}"
  "version = ver q QUIC_VERSION_41 \<Longrightarrow> GetStreamOffsetSize q version v \<in> {0, 2, 4, 8}"
proof -
  show "GetStreamOffsetSize q version v \<in> {0, 2, 3, 4, 5, 6, 7, 8}" if v: "version \<noteq> ver q QUIC_VERSION_41"
  proof (cases "v = 0")
    case True
    with v show ?thesis by (simp add: GetStreamOffsetSize_def)
  next
    case False
    from offset_size_pre40(1,2) [OF v False] show ?thesis by auto
  qed
qed (fact offset_size_41(1))

lemma offset_size_fits: "unat v < 256 ^ GetStreamOffsetSize q version v"
proof (cases "version = ver q QUIC_VERSION_41")
  case True
  then show ?thesis by (rule offset_size_41(2))
next
  case v: False
  show ?thesis
  proof (cases "v = 0")
    case True
    with v show ?thesis by (simp add: GetStreamOffsetSize_def)
  next
    case False
    with v show ?thesis by (intro offset_size_pre40(3))
  qed
qed

text \<open>Fields packed into a byte, lowest first, come out again by masking and shifting.\<close>

lemma narrow_bit: "take_bit k y = y \<Longrightarrow> bit y n \<Longrightarrow> n < k" for y :: "'a::len word"
  by (metis bit_take_bit_iff)

lemma narrow_mono: "take_bit j x = x \<Longrightarrow> j \<le> k \<Longrightarrow> take_bit k x = x" for x :: "'a::len word"
  by (metis min.absorb2 take_bit_take_bit)

lemma pack_bits:
  fixes x y :: u8
  assumes "take_bit k y = y" and "take_bit j x = x" and "j + k \<le> 8"
  shows "(push_bit k x OR y) AND mask k = y" "drop_bit k (push_bit k x OR y) = x"
    "take_bit (j + k) (push_bit k x OR y) = push_bit k x OR y"
proof -
  note y = narrow_bit [OF assms(1)] and x = narrow_bit [OF assms(2)]
  show "(push_bit k x OR y) AND mask k = y" by (rule bit_word_eqI) (auto simp: bit_simps dest: y)
  show "drop_bit k (push_bit k x OR y) = x"
  proof (rule bit_word_eqI)
    fix n
    have "bit x n \<Longrightarrow> n + k < LENGTH(8)" using x [of n] assms(3) by simp
    then show "bit (drop_bit k (push_bit k x OR y)) n = bit x n"
      using y [of "n + k"] by (auto simp: bit_drop_bit_eq bit_or_iff bit_push_bit_iff add.commute)
  qed
  show "take_bit (j + k) (push_bit k x OR y) = push_bit k x OR y"
    by (rule bit_word_eqI) (auto simp: bit_simps dest: x y)
qed

lemma tag_bits:
  fixes x :: u8
  shows "take_bit 7 x = x \<Longrightarrow> (x OR 0x80) AND NOT 0x80 = x" "take_bit 6 x = x \<Longrightarrow> (x OR 0xC0) AND NOT 0xC0 = x"
proof -
  have "(x OR push_bit k w) AND NOT (push_bit k w) = x" if "take_bit k x = x" for k and w :: u8
    by (rule bit_word_eqI) (auto simp: bit_and_iff bit_or_iff bit_not_iff bit_push_bit_iff dest: narrow_bit [OF that])
  from this [of 7 1] this [of 6 3]
  show "take_bit 7 x = x \<Longrightarrow> (x OR 0x80) AND NOT 0x80 = x" "take_bit 6 x = x \<Longrightarrow> (x OR 0xC0) AND NOT 0xC0 = x"
    by simp_all
qed

lemma pre40_fields:
  fixes i p l g :: u8
  assumes "take_bit 2 i = i" and "take_bit 3 p = p" and "take_bit 1 l = l" and "take_bit 1 g = g"
  shows "stream_flags_pre40 ((push_bit 2 (push_bit 3 (push_bit 1 g OR l) OR p) OR i) OR 0x80) =
     \<lparr>fl_stream_id_length = unat i + 1, fl_offset_length = (if unat p > 0 then unat p + 1 else unat p),
      fl_has_data_length = (l = 1), fl_fin = (g AND 1 = 1)\<rparr>"
proof -
  define t where "t = push_bit 1 g OR l"
  define u where "u = push_bit 3 t OR p"
  have t: "t AND mask 1 = l" "drop_bit 1 t = g" "take_bit (1 + 1) t = t"
    unfolding t_def by (rule pack_bits [OF assms(3,4)], simp)+
  have u: "u AND mask 3 = p" "drop_bit 3 u = t" "take_bit (1 + 1 + 3) u = u"
    unfolding u_def by (rule pack_bits [OF assms(2) t(3)], simp)+
  have v: "(push_bit 2 u OR i) AND mask 2 = i" "drop_bit 2 (push_bit 2 u OR i) = u"
    "take_bit (1 + 1 + 3 + 2) (push_bit 2 u OR i) = push_bit 2 u OR i"
    by (rule pack_bits [OF assms(1) u(3)], simp)+
  then have tag: "((push_bit 2 u OR i) OR 0x80) AND NOT 0x80 = push_bit 2 u OR i" by (intro tag_bits) simp
  have masks: "0b00000011 = (mask 2 :: u8)" "0b00000111 = (mask 3 :: u8)" "0b00000001 = (mask 1 :: u8)"
    by (simp_all add: mask_eq_exp_minus_1)
  show ?thesis
    unfolding stream_flags_pre40_def Let_def kQuicFrameTypeStreamMask_Pre40_def kQuicStreamIDLengthMask_Pre40_def
      kQuicStreamIdShift_Pre40_def kQuicStreamOffsetMask_Pre40_def kQuicStreamShift_Pre40_def
      kQuicStreamDataLengthMask_Pre40_def kQuicStreamDataLengthShift_Pre40_def kQuicStreamFinMask_Pre40_def
      kQuicStreamFinShift_Pre40_def t_def [symmetric] u_def [symmetric]
    unfolding masks tag v u t by simp
qed

lemma v41_fields:
  fixes i p l g :: u8
  assumes "take_bit 2 i = i" and "take_bit 2 p = p" and "take_bit 1 l = l" and "take_bit 1 g = g"
  shows "stream_flags_41 ((((push_bit 5 g OR l) OR push_bit 1 p) OR push_bit 3 i) OR 0xC0) =
     \<lparr>fl_stream_id_length = 1 + unat i, fl_offset_length = (if 2 ^ unat p = (1 :: nat) then 0 else 2 ^ unat p),
      fl_has_data_length = (l \<noteq> 0), fl_fin = (g \<noteq> 0)\<rparr>"
proof -
  let ?x = "((push_bit 5 g OR l) OR push_bit 1 p) OR push_bit 3 i"
  note n = narrow_bit [OF assms(1)] narrow_bit [OF assms(2)] narrow_bit [OF assms(3)] narrow_bit [OF assms(4)]
  have "take_bit 6 ?x = ?x"
    by (rule bit_word_eqI) (auto simp: bit_take_bit_iff bit_or_iff bit_push_bit_iff simp del: One_nat_def dest: n)
  then have tag: "(?x OR 0xC0) AND NOT 0xC0 = ?x" by (rule tag_bits)
  have f: "drop_bit 3 ?x AND mask 2 = i" "drop_bit 1 ?x AND mask 2 = p" "drop_bit 0 ?x AND mask 1 = l" "drop_bit 5 ?x AND mask 1 = g"
    by (rule bit_word_eqI;
        auto simp: bit_and_iff bit_mask_iff bit_drop_bit_eq bit_or_iff bit_push_bit_iff simp del: One_nat_def dest: n)+
  have m: "GetMaskFromNumBits k = mask k" for k by (simp add: GetMaskFromNumBits_def mask_eq_exp_minus_1 push_bit_eq_mult)
  show ?thesis
    unfolding stream_flags_41_def Let_def kQuicFrameTypeStreamMask_def tag ExtractBits_def ExtractBit_def m
      kQuicStreamIDLengthNumBits_def kQuicStreamIDLengthShift_def kQuicStreamOffsetNumBits_def
      kQuicStreamOffsetShift_def kQuicStreamDataLengthShift_def kQuicStreamFinShift_def f by simp
qed

text \<open>Reading the type byte back gives the lengths and flags it was made of.\<close>

lemma stream_type_byte_pre40:
  assumes "version \<noteq> ver q QUIC_VERSION_41"
  shows "stream_type_byte q version f nolen =
     (push_bit 2 (push_bit 3 (push_bit 1 (if sf_fin f then 1 else 0) OR (if nolen then 0 else 1)) OR
        (if GetStreamOffsetSize q version (sf_offset f) > 0 then of_nat (GetStreamOffsetSize q version (sf_offset f) - 1) else 0))
      OR of_nat (GetStreamIdSize (sf_stream_id f) - 1)) OR 0x80"
  using assms by (simp add: stream_type_byte_def Let_def stream_consts del: One_nat_def)

lemma stream_type_byte_41:
  assumes "version = ver q QUIC_VERSION_41"
  shows "stream_type_byte q version f nolen =
     (((push_bit 5 (if sf_fin f then 1 else 0) OR (if nolen then 0 else 1)) OR
       push_bit 1 (let n = GetStreamOffsetSize q version (sf_offset f) in if n = 0 then 0 else if n = 2 then 1 else if n = 4 then 2 else 3))
       OR push_bit 3 (of_nat (GetStreamIdSize (sf_stream_id f) - 1))) OR 0xC0"
  using assms by (simp add: stream_type_byte_def Let_def stream_consts SetBit_def SetBits_def del: One_nat_def)

lemma stream_flags_round_trip:
  "stream_flags_of q version (stream_type_byte q version f nolen) =
     \<lparr>fl_stream_id_length = GetStreamIdSize (sf_stream_id f),
      fl_offset_length = GetStreamOffsetSize q version (sf_offset f),
      fl_has_data_length = (\<not> nolen), fl_fin = sf_fin f\<rparr>"
proof -
  let ?i = "of_nat (GetStreamIdSize (sf_stream_id f) - 1) :: u8" and ?n = "GetStreamOffsetSize q version (sf_offset f)"
  have i: "take_bit 2 ?i = ?i" "unat ?i + 1 = GetStreamIdSize (sf_stream_id f)"
    using id_size_cases [of "sf_stream_id f"] by auto
  have b: "take_bit 1 (if c then 1 else 0) = (if c then 1 else 0 :: u8)" "take_bit 1 (if c then 0 else 1) = (if c then 0 else 1 :: u8)" for c
    by simp_all
  show ?thesis
  proof (cases "version = ver q QUIC_VERSION_41")
    case True
    let ?p = "let n = ?n in if n = 0 then 0 else if n = 2 then 1 else if n = 4 then 2 else 3 :: u8"
    have p: "take_bit 2 ?p = ?p" "(if 2 ^ unat ?p = (1 :: nat) then 0 else 2 ^ unat ?p) = ?n"
      using offset_size_cases(2) [OF True, of "sf_offset f"] by (auto simp: Let_def)
    show ?thesis
      unfolding stream_flags_of_def stream_type_byte_41 [OF True] v41_fields [OF i(1) p(1) b(2) b(1)] p(2)
      using True i(2) by (simp del: of_nat_diff)
  next
    case False
    let ?p = "if ?n > 0 then of_nat (?n - 1) else 0 :: u8"
    have p: "take_bit 3 ?p = ?p" "(if unat ?p > 0 then unat ?p + 1 else unat ?p) = ?n"
      using offset_size_cases(1) [OF False, of "sf_offset f"] by auto
    show ?thesis
      unfolding stream_flags_of_def stream_type_byte_pre40 [OF False] pre40_fields [OF i(1) p(1) b(2) b(1)] p(2)
      using False i(2) by (simp del: of_nat_diff)
  qed
qed

text \<open>How the frame loop recognises the byte.\<close>

lemma or_and_absorb: "(x OR c) AND c = c" for x c :: u8
  by (rule bit_word_eqI) (auto simp: bit_and_iff bit_or_iff)

lemma stream_byte_class:
  "version \<noteq> ver q QUIC_VERSION_41 \<Longrightarrow> stream_type_byte q version f nolen AND kQuicFrameTypeStreamMask_Pre40 \<noteq> 0"
  "version = ver q QUIC_VERSION_41 \<Longrightarrow>
     stream_type_byte q version f nolen AND kQuicFrameTypeStreamMask = kQuicFrameTypeStreamMask"
  "stream_type_byte q version f nolen AND kQuicFrameTypeSpecialMask \<noteq> 0"
proof -
  show "stream_type_byte q version f nolen AND kQuicFrameTypeStreamMask_Pre40 \<noteq> 0" if "version \<noteq> ver q QUIC_VERSION_41"
    unfolding stream_type_byte_pre40 [OF that] kQuicFrameTypeStreamMask_Pre40_def
    by (simp only: or_and_absorb) simp
  show "stream_type_byte q version f nolen AND kQuicFrameTypeStreamMask = kQuicFrameTypeStreamMask"
    if "version = ver q QUIC_VERSION_41"
    unfolding stream_type_byte_41 [OF that] kQuicFrameTypeStreamMask_def by (simp only: or_and_absorb)
  have "stream_type_byte q version f nolen AND 0x80 \<noteq> 0"
  proof (cases "version = ver q QUIC_VERSION_41")
    case True
    have "(x OR 0xC0) AND 0x80 = 0x80" for x :: u8 using or_and_absorb [of "x OR 0x40" "0x80"] by (simp add: or.assoc)
    then show ?thesis unfolding stream_type_byte_41 [OF True] by (simp only:) simp
  next
    case False
    then show ?thesis unfolding stream_type_byte_pre40 [OF False] by (simp only: or_and_absorb) simp
  qed
  moreover have "x AND 0x80 = (x AND 0xE0) AND 0x80" for x :: u8 by (simp add: and.assoc)
  ultimately show "stream_type_byte q version f nolen AND kQuicFrameTypeSpecialMask \<noteq> 0"
    unfolding kQuicFrameTypeSpecialMask_def by (metis and_zero_eq and.commute)
qed

section \<open>Stream frames round trip\<close>

definition stream_bytes :: "('r, 'w) quic \<Rightarrow> ('r, 'w) view \<Rightarrow> Endianness \<Rightarrow> nat \<Rightarrow> QuicStreamFrame \<Rightarrow> bool \<Rightarrow> bytes" where
  "stream_bytes q V e version f nolen =
     int_enc V e (GetStreamIdSize (sf_stream_id f)) (ucast (sf_stream_id f)) @
     int_enc V e (GetStreamOffsetSize q version (sf_offset f)) (sf_offset f) @
     (if nolen then sf_data_buffer f else string16_bytes V e (sf_data_buffer f)) @ []"

text \<open>A frame that carries its own data, as long as it says, and short enough for its length field.\<close>

definition wf_stream :: "QuicStreamFrame \<Rightarrow> bool" where
  "wf_stream f \<longleftrightarrow> sf_data_length f = length (sf_data_buffer f) \<and> length (sf_data_buffer f) < 2 ^ 16"

lemma offset_size_le: "GetStreamOffsetSize q version v \<le> 8" "GetStreamOffsetSize q version v \<noteq> 1"
proof -
  have "GetStreamOffsetSize q version v \<in> {0, 2, 3, 4, 5, 6, 7, 8}"
    using offset_size_cases [of version q v] by (cases "version = ver q QUIC_VERSION_41") auto
  then show "GetStreamOffsetSize q version v \<le> 8" "GetStreamOffsetSize q version v \<noteq> 1" by auto
qed

lemma stream_emits:
  assumes d: "documented q V" and f: "wf_stream f"
  shows "emits q V e (AppendStreamFrame q version None f nolen) (stream_bytes q V e version f nolen)"
proof -
  let ?n = "GetStreamIdSize (sf_stream_id f)" and ?o = "GetStreamOffsetSize q version (sf_offset f)"
  let ?data = "\<lambda>w. Option.bind (if \<not> nolen then if sf_data_length f > 65535 then None
      else WriteUInt16 q (of_nat (sf_data_length f)) w else Some w)
      (\<lambda>w. Option.bind (peek (sf_data_buffer f) 0 (sf_data_length f)) (\<lambda>bs. WriteBytes q bs w))"
  have id: "emits q V e (AppendStreamId q ?n (sf_stream_id f)) (int_enc V e ?n (ucast (sf_stream_id f)))"
    using id_size_cases [of "sf_stream_id f"] documented_writer(10) [OF d, of ?n e "ucast (sf_stream_id f)"]
    by (auto simp: AppendStreamId_def [abs_def])
  have off: "emits q V e (AppendStreamOffset q ?o (sf_offset f)) (int_enc V e ?o (sf_offset f))"
    using offset_size_le [of q version "sf_offset f"] documented_writer(10) [OF d, of ?o e "sf_offset f"]
    by (auto simp: AppendStreamOffset_def [abs_def])
  have bytes: "(\<lambda>w. Option.bind (peek (sf_data_buffer f) 0 (sf_data_length f)) (\<lambda>bs. WriteBytes q bs w)) = WriteBytes q (sf_data_buffer f)"
    using f by (simp add: peek_def wf_stream_def)
  have data: "emits q V e ?data (if nolen then sf_data_buffer f else string16_bytes V e (sf_data_buffer f))"
  proof (cases nolen)
    case True
    then show ?thesis using documented_writer(8) [OF d] by (simp add: bytes)
  next
    case False
    have "ucast (of_nat (length (sf_data_buffer f)) :: u16) = (of_nat (length (sf_data_buffer f)) :: u64)"
      using f by (simp add: wf_stream_def word_unat_eq_iff unat_of_nat unsigned_ucast_eq take_bit_nat_eq_self)
    with False f emits_bind [OF documented_writer(2) [OF d] documented_writer(8) [OF d]] show ?thesis
      unfolding bytes by (simp add: wf_stream_def string16_bytes_def) (metis (no_types))
  qed
  have "AppendStreamFrame q version None f nolen = (\<lambda>w. Option.bind (AppendStreamId q ?n (sf_stream_id f) w)
      (\<lambda>w. Option.bind (AppendStreamOffset q ?o (sf_offset f) w) ?data))"
    by (simp add: AppendStreamFrame_def [abs_def])
  then show ?thesis unfolding stream_bytes_def by (simp only: append_Nil2) (intro emits_bind id off data)
qed

lemma stream_fields_parse:
  assumes d: "documented q V"
  shows "parses V e (ReadBytesToUInt64 q (GetStreamIdSize i)) (int_enc V e (GetStreamIdSize i) (ucast i)) (ucast i)"
    and "parses V e (ReadBytesToUInt64 q (GetStreamOffsetSize q version v)) (int_enc V e (GetStreamOffsetSize q version v) v) v"
proof -
  have p: "256 ^ n = (2 :: nat) ^ (8 * n)" for n by (simp add: power_mult)
  have "unat (ucast i :: u64) = unat i" by (simp add: unsigned_ucast_eq take_bit_nat_eq_self_iff unsigned_less less_trans [OF unsigned_less])
  then show "parses V e (ReadBytesToUInt64 q (GetStreamIdSize i)) (int_enc V e (GetStreamIdSize i) (ucast i)) (ucast i)"
    using stream_id_size_bounds [of i] by (intro number_parses [OF d]) (simp_all add: p)
  show "parses V e (ReadBytesToUInt64 q (GetStreamOffsetSize q version v)) (int_enc V e (GetStreamOffsetSize q version v) v) v"
    using offset_size_fits [of v q version] offset_size_le(1) [of q version v] by (intro number_parses [OF d]) (simp_all add: p)
qed

lemma ucast_back: "ucast (ucast (i :: u32) :: u64) = i"
  by (rule bit_word_eqI) (auto simp: bit_simps)

lemma stream_decodes:
  assumes d: "documented q V" and f: "wf_stream f"
  shows "decodes V e (ProcessStreamFrame q version (stream_type_byte q version f False)) (stream_bytes q V e version f False) f"
proof -
  have "length (sf_data_buffer f) < 2 ^ 16" "sf_data_length f = length (sf_data_buffer f)" using f by (simp_all add: wf_stream_def)
  then show ?thesis
    unfolding ProcessStreamFrame_def [abs_def] stream_flags_round_trip stream_bytes_def Let_def
    by (simp del: append_Nil2 append_assoc)
      (intro stream_fields_parse [OF d, THEN decodes_rd] string16_decodes [OF d] decodes_done; simp add: ucast_back)
qed

text \<open>Without the length field the data is the rest of the packet, so the frame has to be the last one.\<close>

lemma stream_decodes_last:
  assumes d: "documented q V" and f: "wf_stream f" and r: "rest V r = stream_bytes q V e version f True" "rorder V r = e"
  shows "\<exists>r'. ProcessStreamFrame q version (stream_type_byte q version f True) r = Inr (f, r') \<and> rest V r' = [] \<and> rorder V r' = e"
proof -
  let ?i = "int_enc V e (GetStreamIdSize (sf_stream_id f)) (ucast (sf_stream_id f))"
  let ?o = "int_enc V e (GetStreamOffsetSize q version (sf_offset f)) (sf_offset f)"
  from parsesD [OF stream_fields_parse(1) [OF d] r(2), of _ "?o @ sf_data_buffer f"] r(1)
  obtain r1 where 1: "ReadBytesToUInt64 q (GetStreamIdSize (sf_stream_id f)) r = Some (ucast (sf_stream_id f), r1)"
    "rest V r1 = ?o @ sf_data_buffer f" "rorder V r1 = e" by (auto simp: stream_bytes_def)
  from parsesD [OF stream_fields_parse(2) [OF d] 1(3,2)]
  obtain r2 where 2: "ReadBytesToUInt64 q (GetStreamOffsetSize q version (sf_offset f)) r1 = Some (sf_offset f, r2)"
    "rest V r2 = sf_data_buffer f @ []" "rorder V r2 = e" by auto
  from parsesD [OF documented_reader(12) [OF d refl] 2(3,2)]
  obtain r3 where 3: "ReadStringPiece q (length (sf_data_buffer f)) r2 = Some (sf_data_buffer f, r3)"
    "rest V r3 = []" "rorder V r3 = e" by auto
  show ?thesis
    using 1 2 3 f unfolding ProcessStreamFrame_def stream_flags_round_trip Let_def
    by (simp add: rd_def documented_state [OF d] wf_stream_def ucast_back)
qed

section \<open>Properties of the frames\<close>

text \<open>
  The type byte of a stream frame. Whatever the frame and the version, the lengths and flags that
  \<open>ProcessStreamFrame\<close> extracts from the type byte are those with which the frame was written, and
  both frame-type tests of the frame loop recognise the byte.
\<close>

theorem stream_type_byte_round_trip:
  "stream_flags_of q version (stream_type_byte q version f nolen) =
     \<lparr>fl_stream_id_length = GetStreamIdSize (sf_stream_id f),
      fl_offset_length = GetStreamOffsetSize q version (sf_offset f),
      fl_has_data_length = (\<not> nolen), fl_fin = sf_fin f\<rparr> \<and>
   stream_type_byte q version f nolen AND kQuicFrameTypeSpecialMask \<noteq> 0"
  using stream_flags_round_trip stream_byte_class(3) by blast

text \<open>
  Stop-waiting frames. If the least unacknowledged packet is not above the packet itself and the
  distance fits in the packet number's width, the frame is written and read back; if the distance
  does not fit, nothing is written.
\<close>

theorem stop_waiting_round_trip:
  assumes "documented q V" and "n \<in> {1, 2, 4, 6}" and "sw_least_unacked f \<le> p"
  shows "if unat (p - sw_least_unacked f) < 2 ^ (8 * n)
     then emits q V e (AppendStopWaitingFrame q p n f) (int_enc V e n (p - sw_least_unacked f)) \<and>
          decodes V e (ProcessStopWaitingFrame q p n) (int_enc V e n (p - sw_least_unacked f)) f
     else AppendStopWaitingFrame q p n f w = None"
proof (cases "unat (p - sw_least_unacked f) < 2 ^ (8 * n)")
  case True
  have "n \<in> {1, 2, 4, 6, 8}" "n \<le> 8" using assms(2) by auto
  with True stop_waiting_emits [OF assms(1)] stop_waiting_decodes [OF assms(1)] assms(3) show ?thesis by simp
next
  case False
  then have "drop_bit (n * 8) (p - sw_least_unacked f) \<noteq> 0" by (simp only: drop_bit_eq_0_iff mult.commute) simp
  with False show ?thesis by (simp add: AppendStopWaitingFrame_def Let_def word_gt_0)
qed

theorem stop_waiting_round_trip_witness:
  "emits demo demo_view NETWORK_BYTE_ORDER (AppendStopWaitingFrame demo 10 1 \<lparr>sw_least_unacked = 7\<rparr>) [3] \<and>
   decodes demo_view NETWORK_BYTE_ORDER (ProcessStopWaitingFrame demo 10 1) [3] \<lparr>sw_least_unacked = 7\<rparr>"
proof -
  have "int_enc demo_view NETWORK_BYTE_ORDER 1 3 = [3]"
    by (simp add: demo_view_def demo_int_def)
  then show ?thesis
    using stop_waiting_round_trip [OF demo_documented, of 1 "\<lparr>sw_least_unacked = 7\<rparr>" 10 NETWORK_BYTE_ORDER] by simp
qed

end
