(* ===== verification/Framer_Ack.thy ===== *)
theory Framer_Ack
  imports Framer_Frames
begin

text \<open>
  The ack frames of \<^verbatim>\<open>my_quic_framer.cc\<close>, in the QUIC and in the IETF format. An ack frame holds the
  acknowledged packets as half-open intervals, from the highest down; the QUIC format writes them
  as blocks of a one-byte gap and a length, with empty blocks for gaps above 255, and cuts the list when the
  packet is full. Times and time deltas are 64-bit microsecond counts. Reading changes the visitor
  (incremental processing) and \<open>last_timestamp_\<close> also when it fails later, so both are threaded.
\<close>

section \<open>State and messages\<close>

record QuicAckFrame =
  ack_largest_acked :: u64
  ack_delay_time :: u64
  ack_packets :: "(u64 \<times> u64) list"
  ack_received_packet_times :: "(u64 \<times> u64) list"

definition Infinite :: u64 where "Infinite = 0x7FFFFFFFFFFFFFFF"

record 'v ack_visitor =
  OnAckFrameStart :: "u64 \<Rightarrow> u64 \<Rightarrow> 'v \<Rightarrow> bool \<times> 'v"
  OnAckRange :: "u64 \<Rightarrow> u64 \<Rightarrow> bool \<Rightarrow> 'v \<Rightarrow> bool \<times> 'v"

text \<open>Reads in a function that also changes a state: the visitor and \<open>last_timestamp_\<close>.\<close>

type_synonym 'v ack_state = "'v \<times> u64"

definition rds :: "string \<Rightarrow> ('a \<times> 'r) option \<Rightarrow> ('a \<Rightarrow> 'r \<Rightarrow> 's \<Rightarrow> (string + 'b) \<times> 's) \<Rightarrow> 's \<Rightarrow> (string + 'b) \<times> 's" where
  "rds msg x k s = (case x of None \<Rightarrow> (Inl msg, s) | Some (v, r) \<Rightarrow> k v r s)"

text \<open>Decimal numerals, for the messages that contain numbers.\<close>

fun dec_digits :: "nat \<Rightarrow> nat \<Rightarrow> string" where
  "dec_digits 0 n = []"
| "dec_digits (Suc k) n = (if n < 10 then [char_of (48 + n)] else dec_digits k (n div 10) @ [char_of (48 + n mod 10)])"

definition dec :: "u64 \<Rightarrow> string" where
  "dec n = dec_digits 20 (unat n)"

section \<open>What an ack frame needs\<close>

record AckFrameInfo =
  max_block_length :: u64
  first_block_length :: u64
  num_ack_blocks :: nat

definition num_encoded_gaps :: "u64 \<Rightarrow> u64" where
  "num_encoded_gaps total_gap = (total_gap + 255 - 1) div 255"

fun ack_info_loop :: "u64 \<Rightarrow> (u64 \<times> u64) list \<Rightarrow> AckFrameInfo \<Rightarrow> AckFrameInfo" where
  "ack_info_loop previous_start [] info = info"
| "ack_info_loop previous_start ((lo, hi) # itr) info =
     (if num_ack_blocks info < 255
      then ack_info_loop lo itr (info\<lparr>num_ack_blocks := num_ack_blocks info + unat (num_encoded_gaps (previous_start - hi)),
             max_block_length := max (max_block_length info) (hi - lo)\<rparr>)
      else info)"

definition GetAckFrameInfo :: "QuicAckFrame \<Rightarrow> AckFrameInfo" where
  "GetAckFrameInfo frame =
     (case ack_packets frame of
        [] \<Rightarrow> \<lparr>max_block_length = 0, first_block_length = 0, num_ack_blocks = 0\<rparr>
      | (lo, hi) # itr \<Rightarrow> ack_info_loop lo itr \<lparr>max_block_length = hi - lo, first_block_length = hi - lo, num_ack_blocks = 0\<rparr>)"

definition GetAckFrameTimeStampSize :: "QuicAckFrame \<Rightarrow> nat" where
  "GetAckFrameTimeStampSize ack =
     (if ack_received_packet_times ack = [] then 0 else 5 + 3 * (length (ack_received_packet_times ack) - 1))"

definition LargestAcked :: "('r, 'w) quic \<Rightarrow> QuicAckFrame \<Rightarrow> u64" where
  "LargestAcked q frame = LargestAckedOf q (ack_largest_acked frame) (ack_packets frame)"

definition GetAckFrameSize :: "('r, 'w) quic \<Rightarrow> nat \<Rightarrow> bool \<Rightarrow> QuicAckFrame \<Rightarrow> nat" where
  "GetAckFrameSize q version use_incremental_ack_processing ack =
     (let ack_info = GetAckFrameInfo ack;
          largest_acked_length = GetMinPacketNumberLength q version (LargestAcked q ack);
          ack_block_length = GetMinPacketNumberLength q version (max_block_length ack_info);
          ack_size = GetMinAckFrameSize version largest_acked_length;
          ack_size = ack_size + ack_block_length;
          ack_size = (if num_ack_blocks ack_info \<noteq> 0
            then ack_size + kNumberOfAckBlocksSize + min (num_ack_blocks ack_info) kMaxAckBlocks *
                   (ack_block_length + len q PACKET_1BYTE_PACKET_NUMBER)
            else ack_size)
      in if \<not> use_incremental_ack_processing then ack_size + GetAckFrameTimeStampSize ack else ack_size)"

section \<open>Writing an ack frame\<close>

definition AppendAckBlock :: "('r, 'w) quic \<Rightarrow> u8 \<Rightarrow> nat \<Rightarrow> u64 \<Rightarrow> 'w \<Rightarrow> 'w option" where
  "AppendAckBlock q gap_byte length_length block_length w =
     Option.bind (WriteUInt8 q gap_byte w) (AppendPacketNumber q length_length block_length)"

text \<open>
  The empty blocks of a long gap: the loop from \<open>i\<close> to \<open>num_encoded_gaps\<close>, here by the number of rounds
  left; the result has the number of blocks written so far.
\<close>

fun append_empty_blocks :: "('r, 'w) quic \<Rightarrow> nat \<Rightarrow> nat \<Rightarrow> nat \<Rightarrow> nat \<Rightarrow> 'w \<Rightarrow> (nat \<times> 'w) option" where
  "append_empty_blocks q ack_block_length num 0 num_written w = Some (num_written, w)"
| "append_empty_blocks q ack_block_length num (Suc k) num_written w =
     (if num_written < num
      then Option.bind (AppendAckBlock q 255 ack_block_length 0 w) (append_empty_blocks q ack_block_length num k (num_written + 1))
      else Some (num_written, w))"

fun append_ack_blocks :: "('r, 'w) quic \<Rightarrow> nat \<Rightarrow> nat \<Rightarrow> u64 \<Rightarrow> (u64 \<times> u64) list \<Rightarrow> nat \<Rightarrow> 'w \<Rightarrow> 'w option" where
  "append_ack_blocks q ack_block_length num previous_start [] num_written w = Some w"
| "append_ack_blocks q ack_block_length num previous_start ((lo, hi) # itr) num_written w =
     (if num_written < num
      then let total_gap = previous_start - hi in
        Option.bind (append_empty_blocks q ack_block_length num (unat (num_encoded_gaps total_gap) - 1) num_written w)
          (\<lambda>(num_written, w).
             if num_written \<ge> num then Some w
             else Option.bind
                    (AppendAckBlock q (ucast (total_gap - (num_encoded_gaps total_gap - 1) * 255)) ack_block_length (hi - lo) w)
                    (append_ack_blocks q ack_block_length num lo itr (num_written + 1)))
      else Some w)"

fun append_timestamps :: "('r, 'w) quic \<Rightarrow> QuicAckFrame \<Rightarrow> u64 \<Rightarrow> (u64 \<times> u64) list \<Rightarrow> 'w \<Rightarrow> 'w option" where
  "append_timestamps q frame prev_time [] w = Some w"
| "append_timestamps q frame prev_time ((packet_number, time) # it) w =
     (let delta_from_largest_observed = LargestAcked q frame - packet_number in
      if delta_from_largest_observed > 255 then None
      else do {
        w \<leftarrow> WriteUInt8 q (ucast delta_from_largest_observed) w;
        w \<leftarrow> WriteUFloat16 q (time - prev_time) w;
        append_timestamps q frame time it w
      })"

definition AppendTimestampsToAckFrame ::
  "('r, 'w) quic \<Rightarrow> nat \<Rightarrow> u64 \<Rightarrow> QuicAckFrame \<Rightarrow> nat \<Rightarrow> 'w \<Rightarrow> 'w option" where
  "AppendTimestampsToAckFrame q version creation_time frame num_timestamps_offset w =
     (if length (ack_received_packet_times frame) > 255 then None
      else let num_received_packets = (of_nat (length (ack_received_packet_times frame)) :: u8) in
        Option.bind
          (if version \<noteq> ver q QUIC_VERSION_41 then WriteBytes q [num_received_packets] w
           else WriteUInt8AtOffset q num_received_packets num_timestamps_offset w)
          (\<lambda>w. case ack_received_packet_times frame of
             [] \<Rightarrow> Some w
           | (packet_number, time) # it \<Rightarrow>
               let delta_from_largest_observed = LargestAcked q frame - packet_number in
               if delta_from_largest_observed > 255 then None
               else do {
                 w \<leftarrow> WriteUInt8 q (ucast delta_from_largest_observed) w;
                 w \<leftarrow> WriteUInt32 q (ucast ((time - creation_time) AND (push_bit 32 1 - 1))) w;
                 append_timestamps q frame time it w
               }))"

text \<open>The room for blocks: \<open>size_t\<close> arithmetic, stored in an \<open>int32_t\<close> and divided as an \<open>int\<close>, back to \<open>size_t\<close>.\<close>

definition int_div :: "int \<Rightarrow> int \<Rightarrow> int" where
  "int_div a b = (if a < 0 then - (- a div b) else a div b)"

definition available_bytes :: "('r, 'w) quic \<Rightarrow> nat \<Rightarrow> nat \<Rightarrow> nat \<Rightarrow> nat \<Rightarrow> 'w \<Rightarrow> int" where
  "available_bytes q version largest_acked_length ack_block_length blocks w =
     signed_take_bit 31 (int (capacity q w) - int (wlength q w) - int ack_block_length -
       int (GetMinAckFrameSize version largest_acked_length) - int (if blocks \<noteq> 0 then kNumberOfAckBlocksSize else 0))"

definition ack_type_byte :: "('r, 'w) quic \<Rightarrow> nat \<Rightarrow> bool \<Rightarrow> nat \<Rightarrow> nat \<Rightarrow> u8" where
  "ack_type_byte q version multiple largest_acked_length ack_block_length =
     (let type_byte = SetBit 0 multiple (if version \<noteq> ver q QUIC_VERSION_41 then kQuicHasMultipleAckBlocksOffset_Pre40
                                          else kQuicHasMultipleAckBlocksOffset);
          type_byte = SetBits type_byte (GetPacketNumberFlags q largest_acked_length) kQuicSequenceNumberLengthNumBits kLargestAckedOffset;
          type_byte = SetBits type_byte (GetPacketNumberFlags q ack_block_length) kQuicSequenceNumberLengthNumBits kActBlockLengthOffset
      in if version \<noteq> ver q QUIC_VERSION_41 then type_byte OR kQuicFrameTypeAckMask_Pre40 else type_byte OR kQuicFrameTypeAckMask)"

definition num_blocks_to_write :: "('r, 'w) quic \<Rightarrow> nat \<Rightarrow> nat \<Rightarrow> nat \<Rightarrow> nat \<Rightarrow> 'w \<Rightarrow> nat" where
  "num_blocks_to_write q version largest_acked_length ack_block_length blocks w =
     (let max_num_ack_blocks = nat (int_div (available_bytes q version largest_acked_length ack_block_length blocks w)
                                      (int (ack_block_length + len q PACKET_1BYTE_PACKET_NUMBER)) mod 2 ^ 64);
          n = min blocks max_num_ack_blocks
      in if n > 255 then 255 else n)"

text \<open>The writes, once the number of blocks is known.\<close>

definition append_ack_body ::
  "('r, 'w) quic \<Rightarrow> nat \<Rightarrow> bool \<Rightarrow> u64 \<Rightarrow> QuicAckFrame \<Rightarrow> nat \<Rightarrow> 'w \<Rightarrow> 'w option" where
  "append_ack_body q version use_incremental_ack_processing creation_time frame n w =
     (let new_ack_info = GetAckFrameInfo frame;
          largest_acked = LargestAcked q frame;
          largest_acked_length = GetMinPacketNumberLength q version largest_acked;
          ack_block_length = GetMinPacketNumberLength q version (max_block_length new_ack_info)
      in do {
        w \<leftarrow> WriteUInt8 q (ack_type_byte q version (num_ack_blocks new_ack_info \<noteq> 0) largest_acked_length ack_block_length) w;
        (num_timestamps_offset, w) \<leftarrow>
          (if version = ver q QUIC_VERSION_41
           then do {
             w \<leftarrow> (if n > 0 then WriteBytes q [of_nat n] w else Some w);
             w' \<leftarrow> WriteUInt8 q 0 w;
             Some (wlength q w, w')
           }
           else Some (0, w));
        w \<leftarrow> AppendPacketNumber q largest_acked_length largest_acked w;
        w \<leftarrow> WriteUFloat16 q (if ack_delay_time frame = Infinite then kUFloat16MaxValue q else ack_delay_time frame) w;
        w \<leftarrow> (if version \<noteq> ver q QUIC_VERSION_41 \<and> n > 0 then WriteBytes q [of_nat n] w else Some w);
        w \<leftarrow> AppendPacketNumber q ack_block_length (first_block_length new_ack_info) w;
        w \<leftarrow> (if n > 0
             then (case ack_packets frame of [] \<Rightarrow> None
                   | (lo, hi) # itr \<Rightarrow> append_ack_blocks q ack_block_length n lo itr 0 w)
             else Some w);
        (if \<not> use_incremental_ack_processing \<and> capacity q w - wlength q w \<ge> GetAckFrameTimeStampSize frame
         then AppendTimestampsToAckFrame q version creation_time frame num_timestamps_offset w
         else if version \<noteq> ver q QUIC_VERSION_41 then WriteBytes q [0] w
         else Some w)
      })"

definition AppendAckFrameAndTypeByte ::
  "('r, 'w) quic \<Rightarrow> nat \<Rightarrow> bool \<Rightarrow> u64 \<Rightarrow> QuicAckFrame \<Rightarrow> 'w \<Rightarrow> 'w option" where
  "AppendAckFrameAndTypeByte q version use_incremental_ack_processing creation_time frame w =
     (let new_ack_info = GetAckFrameInfo frame;
          largest_acked_length = GetMinPacketNumberLength q version (LargestAcked q frame);
          ack_block_length = GetMinPacketNumberLength q version (max_block_length new_ack_info)
      in append_ack_body q version use_incremental_ack_processing creation_time frame
           (num_blocks_to_write q version largest_acked_length ack_block_length (num_ack_blocks new_ack_info) w) w)"

section \<open>Reading an ack frame\<close>

fun process_timestamps ::
  "('r, 'w) quic \<Rightarrow> u64 \<Rightarrow> nat \<Rightarrow> QuicAckFrame \<Rightarrow> 'r \<Rightarrow> 'v ack_state \<Rightarrow> (string + QuicAckFrame \<times> 'r) \<times> 'v ack_state" where
  "process_timestamps q creation_time 0 ack r s = (Inr (ack, r), s)"
| "process_timestamps q creation_time (Suc k) ack r s =
     rds ''Unable to read sequence delta in received packets.'' (ReadUInt8 q r) (\<lambda>delta r.
     rds ''Unable to read incremental time delta in received packets.'' (ReadUFloat16 q r) (\<lambda>incremental r (v, last_timestamp).
     let last_timestamp = last_timestamp + incremental in
     process_timestamps q creation_time k
       (ack\<lparr>ack_received_packet_times := ack_received_packet_times ack @
              [(LargestAcked q ack - ucast delta, creation_time + last_timestamp)]\<rparr>) r (v, last_timestamp))) s"

definition ProcessTimestampsInAckFrame ::
  "('r, 'w) quic \<Rightarrow> u64 \<Rightarrow> u8 \<Rightarrow> QuicAckFrame \<Rightarrow> 'r \<Rightarrow> 'v ack_state \<Rightarrow> (string + QuicAckFrame \<times> 'r) \<times> 'v ack_state" where
  "ProcessTimestampsInAckFrame q creation_time num_received_packets ack r s =
     (if num_received_packets > 0
      then rds ''Unable to read sequence delta in received packets.'' (ReadUInt8 q r) (\<lambda>delta r.
           rds ''Unable to read time delta in received packets.'' (ReadUInt32 q r) (\<lambda>time_delta_us r (v, last_timestamp).
           let last_timestamp = CalculateTimestampFromWire last_timestamp time_delta_us in
           process_timestamps q creation_time (unat num_received_packets - 1)
             (ack\<lparr>ack_received_packet_times := ack_received_packet_times ack @
                    [(LargestAcked q ack - ucast delta, creation_time + last_timestamp)]\<rparr>) r (v, last_timestamp))) s
      else (Inr (ack, r), s))"

text \<open>One acknowledged range goes to the visitor or into the frame.\<close>

definition add_ack_range ::
  "('r, 'w) quic \<Rightarrow> 'v ack_visitor \<Rightarrow> bool \<Rightarrow> u64 \<Rightarrow> u64 \<Rightarrow> bool \<Rightarrow> QuicAckFrame \<Rightarrow>
   (QuicAckFrame \<Rightarrow> 'v ack_state \<Rightarrow> (string + 'b) \<times> 'v ack_state) \<Rightarrow> 'v ack_state \<Rightarrow> (string + 'b) \<times> 'v ack_state" where
  "add_ack_range q visitor incremental lo hi last_range ack k s =
     (if incremental
      then (case OnAckRange visitor lo hi last_range (fst s) of
              (ok, v) \<Rightarrow> if ok then k ack (v, snd s) else (Inl ''Visitor suppresses further processing of ack frame.'', (v, snd s)))
      else k (ack\<lparr>ack_packets := AddRange q lo hi (ack_packets ack)\<rparr>) s)"

fun process_ack_blocks ::
  "('r, 'w) quic \<Rightarrow> 'v ack_visitor \<Rightarrow> bool \<Rightarrow> nat \<Rightarrow> nat \<Rightarrow> u64 \<Rightarrow> QuicAckFrame \<Rightarrow> 'r \<Rightarrow> 'v ack_state \<Rightarrow>
   (string + QuicAckFrame \<times> 'r) \<times> 'v ack_state" where
  "process_ack_blocks q visitor incremental ack_block_length 0 first_received ack r s = (Inr (ack, r), s)"
| "process_ack_blocks q visitor incremental ack_block_length (Suc k) first_received ack r s =
     rds ''Unable to read gap to next ack block.'' (ReadUInt8 q r) (\<lambda>gap r.
     rds ''Unable to ack block length.'' (ReadBytesToUInt64 q ack_block_length r) (\<lambda>current_block_length r s.
     if first_received < ucast gap + current_block_length
     then (Inl (''Underflow with ack block length '' @ dec current_block_length @ '', end of block is '' @
                dec (first_received - ucast gap) @ ''.''), s)
     else let first_received = first_received - (ucast gap + current_block_length) in
       if current_block_length > 0
       then add_ack_range q visitor incremental first_received (first_received + current_block_length) (k = 0) ack
              (\<lambda>ack. process_ack_blocks q visitor incremental ack_block_length k first_received ack r) s
       else process_ack_blocks q visitor incremental ack_block_length k first_received ack r s)) s"

text \<open>What follows the first block length: its checks, the first range, the blocks, the timestamps.\<close>

definition process_ack_ranges ::
  "('r, 'w) quic \<Rightarrow> 'v ack_visitor \<Rightarrow> bool \<Rightarrow> u64 \<Rightarrow> bool \<Rightarrow> bool \<Rightarrow> nat \<Rightarrow> u8 \<Rightarrow> u64 \<Rightarrow> u8 \<Rightarrow> QuicAckFrame \<Rightarrow> u64 \<Rightarrow> 'r \<Rightarrow>
   'v ack_state \<Rightarrow> (string + QuicAckFrame \<times> 'r) \<times> 'v ack_state" where
  "process_ack_ranges q visitor incremental creation_time is_41 has_ack_blocks ack_block_length received_41 largest_acked blocks
       ack_frame first_block r s =
     (if first_block = 0 \<and> (largest_acked \<noteq> 0 \<or> blocks \<noteq> 0)
      then (Inl (''First block length is zero but ACK is not empty. largest acked is '' @ dec largest_acked @
                 '', num ack blocks is '' @ dec (ucast blocks) @ ''.''), s)
      else if first_block > largest_acked + 1
      then (Inl (''Underflow with first ack block length '' @ dec first_block @ '' largest acked is '' @ dec largest_acked @ ''.''), s)
      else
      let first_received = largest_acked + 1 - first_block;
          ack_frame = (if incremental then ack_frame else ack_frame\<lparr>ack_largest_acked := largest_acked\<rparr>)
      in add_ack_range q visitor incremental first_received (largest_acked + 1) (\<not> has_ack_blocks) ack_frame (\<lambda>ack_frame s.
         case process_ack_blocks q visitor incremental ack_block_length (unat blocks) first_received ack_frame r s of
           (Inl msg, s) \<Rightarrow> (Inl msg, s)
         | (Inr (ack_frame, r), s) \<Rightarrow>
             rds ''Unable to read num received packets.'' (if \<not> is_41 then ReadUInt8 q r else Some (received_41, r)) (\<lambda>received r.
             ProcessTimestampsInAckFrame q creation_time received ack_frame r) s) s)"

definition ProcessAckFrame ::
  "('r, 'w) quic \<Rightarrow> nat \<Rightarrow> 'v ack_visitor \<Rightarrow> bool \<Rightarrow> u64 \<Rightarrow> u8 \<Rightarrow> QuicAckFrame \<Rightarrow> 'r \<Rightarrow> 'v ack_state \<Rightarrow>
   (string + QuicAckFrame \<times> 'r) \<times> 'v ack_state" where
  "ProcessAckFrame q version visitor incremental creation_time frame_type ack_frame r s =
     (let has_ack_blocks = ExtractBit frame_type (if version \<noteq> ver q QUIC_VERSION_41
            then kQuicHasMultipleAckBlocksOffset_Pre40 else kQuicHasMultipleAckBlocksOffset);
          ack_block_length = ReadAckPacketNumberLength q version
            (ExtractBits frame_type kQuicSequenceNumberLengthNumBits kActBlockLengthOffset);
          largest_acked_length = ReadAckPacketNumberLength q version
            (ExtractBits frame_type kQuicSequenceNumberLengthNumBits kLargestAckedOffset);
          is_41 = (version = ver q QUIC_VERSION_41)
      in
      rds ''Unable to read num of ack blocks.'' (if is_41 \<and> has_ack_blocks then ReadUInt8 q r else Some (0, r)) (\<lambda>blocks_41 r.
      rds ''Unable to read num received packets.'' (if is_41 then ReadUInt8 q r else Some (0, r)) (\<lambda>received_41 r.
      rds ''Unable to read largest acked.'' (ReadBytesToUInt64 q largest_acked_length r) (\<lambda>largest_acked r.
      rds ''Unable to read ack delay time.'' (ReadUFloat16 q r) (\<lambda>ack_delay_time_us r s.
      let delay = (if ack_delay_time_us = kUFloat16MaxValue q then Infinite else ack_delay_time_us);
          ack_frame = (if \<not> incremental then ack_frame\<lparr>ack_delay_time := delay\<rparr> else ack_frame);
          (go_on, v) = (if incremental then OnAckFrameStart visitor largest_acked delay (fst s) else (True, fst s));
          s = (v, snd s)
      in if \<not> go_on then (Inl ''Visitor suppresses further processing of ack frame.'', s)
      else
      rds ''Unable to read num of ack blocks.'' (if has_ack_blocks \<and> \<not> is_41 then ReadUInt8 q r else Some (blocks_41, r)) (\<lambda>blocks r.
      rds ''Unable to read first ack block length.'' (ReadBytesToUInt64 q ack_block_length r)
        (process_ack_ranges q visitor incremental creation_time is_41 has_ack_blocks ack_block_length received_41
           largest_acked blocks ack_frame)) s)))) s)"

section \<open>The IETF format\<close>

text \<open>Where the source only logs a bug before it returns false, \<open>detailed_error_\<close> stays as it was; the message is empty.\<close>

fun append_ietf_blocks :: "('r, 'w) quic \<Rightarrow> u64 \<Rightarrow> (u64 \<times> u64) list \<Rightarrow> 'w \<Rightarrow> string + 'w" where
  "append_ietf_blocks q previous_ack_end [] w = Inr w"
| "append_ietf_blocks q previous_ack_end ((lo, hi) # itr) w =
     wr ''No room for gap block in ack frame'' (WriteVarInt62 q (previous_ack_end - hi - 1) w) (\<lambda>w.
     let block_length = hi - lo in
     if block_length = 0 then Inl []
     else wr ''No room for nth ack block in ack frame'' (WriteVarInt62 q (block_length - 1) w) (append_ietf_blocks q lo itr))"

definition AppendIetfAckFrame :: "('r, 'w) quic \<Rightarrow> QuicAckFrame \<Rightarrow> 'w \<Rightarrow> string + 'w" where
  "AppendIetfAckFrame q frame w =
     wr ''No room for frame-type'' (WriteUInt8 q (ietf q IETF_ACK) w) (\<lambda>w.
     wr ''No room for largest-acked in ack frame'' (WriteVarInt62 q (LargestAcked q frame) w) (\<lambda>w.
     if ack_delay_time frame = Infinite then Inl []
     else wr ''No room for ack-delay in ack frame'' (WriteVarInt62 q (drop_bit kIetfAckTimestampShift (ack_delay_time frame)) w) (\<lambda>w.
     case ack_packets frame of
       [] \<Rightarrow> Inl []
     | (lo, hi) # itr \<Rightarrow>
         wr ''No room for ack block count in ack frame'' (WriteVarInt62 q (of_nat (length itr)) w) (\<lambda>w.
         let block_length = hi - lo in
         if block_length = 0 then Inl []
         else wr ''No room for first ack block in ack frame'' (WriteVarInt62 q (block_length - 1) w) (append_ietf_blocks q lo itr)))))"

text \<open>
  The loop runs \<open>ack_block_count\<close> times, a number the packet chooses; every round reads two integers,
  so the bytes that remain bound the rounds and the recursion is on the count.
\<close>

fun process_ietf_blocks :: "('r, 'w) quic \<Rightarrow> nat \<Rightarrow> u64 \<Rightarrow> u64 \<Rightarrow> (u64 \<times> u64) list \<Rightarrow> 'r \<Rightarrow> string + (u64 \<times> u64) list \<times> 'r" where
  "process_ietf_blocks q 0 block_low block_high packets r = Inr (packets, r)"
| "process_ietf_blocks q (Suc k) block_low block_high packets r =
     rd ''Unable to read gap block value.'' (ReadVarInt62 q r) (\<lambda>gap_block_value r.
     rd ''Unable to read gap block value.'' (ReadVarInt62 q r) (\<lambda>ack_block_value r.
     let block_high = block_high - (ack_block_value + gap_block_value + 2);
         block_low = block_low - (ack_block_value + gap_block_value + 2)
     in process_ietf_blocks q k block_low block_high (AddRange q block_low block_high packets) r))"

definition ProcessIetfAckFrame :: "('r, 'w) quic \<Rightarrow> u8 \<Rightarrow> QuicAckFrame \<Rightarrow> 'r \<Rightarrow> string + QuicAckFrame \<times> 'r" where
  "ProcessIetfAckFrame q frame_type ack_frame r =
     rd ''Unable to read largest acked.'' (ReadVarInt62 q r) (\<lambda>largest_acked r.
     rd ''Unable to read ack-delay-time.'' (ReadVarInt62 q r) (\<lambda>delay r.
     let delay = push_bit kIetfAckTimestampShift delay;
         delay = (if delay = 0x3ffffffffff8 then Infinite else delay) in
     rd ''Unable to ack block count.'' (ReadVarInt62 q r) (\<lambda>ack_block_count r.
     rd ''Unable to read first ack block value.'' (ReadVarInt62 q r) (\<lambda>ack_block_value r.
     let block_high = largest_acked + 1;
         block_low = largest_acked - ack_block_value
     in case process_ietf_blocks q (unat ack_block_count) block_low block_high
               (AddRange q block_low block_high (ack_packets ack_frame)) r of
          Inl msg \<Rightarrow> Inl msg
        | Inr (packets, r) \<Rightarrow>
            Inr (ack_frame\<lparr>ack_largest_acked := largest_acked, ack_delay_time := delay, ack_packets := packets\<rparr>, r)))))"

end
