(* ===== verification/Framer_Packet.thy ===== *)
theory Framer_Packet
  imports Framer_Ack
begin

text \<open>
  The packet level of \<^verbatim>\<open>my_quic_framer.cc\<close>, first half: the framer's state, the length of frames and
  building packets. The visitor is a parameter that
  gets the call and the framer and returns an answer and the framer, because a visitor may call
  back into the framer (install a decrypter, change the version); its own state is a field of the
  framer. Encrypters, decrypters, handshake messages, socket addresses and version labels belong
  to the QUIC library and are parameters as well, gathered in \<open>lib\<close>.
\<close>

section \<open>State\<close>

record ParsedQuicVersion =
  handshake_protocol :: nat
  transport_version :: nat

record QuicPacketHeader =
  hd_connection_id :: u64
  hd_connection_id_length :: nat
  hd_reset_flag :: bool
  hd_version_flag :: bool
  hd_packet_number_length :: nat
  hd_version :: ParsedQuicVersion
  hd_nonce :: "bytes option"
  hd_packet_number :: u64

record 'a QuicPublicResetPacket =
  pr_connection_id :: u64
  pr_nonce_proof :: u64
  pr_client_address :: 'a

text \<open>The frame to send, by its type; the pointers of the union are not null.\<close>

datatype QuicFrame =
    PaddingFrame QuicPaddingFrame
  | RstStreamFrame QuicRstStreamFrame
  | ConnectionCloseFrame QuicConnectionCloseFrame
  | GoAwayFrame QuicGoAwayFrame
  | WindowUpdateFrame QuicWindowUpdateFrame
  | BlockedFrame QuicBlockedFrame
  | StopWaitingFrame QuicStopWaitingFrame
  | PingFrame
  | StreamFrame QuicStreamFrame
  | AckFrame QuicAckFrame
  | MtuDiscoveryFrame
  | OtherFrame u8

text \<open>The visitor's methods.\<close>

datatype 'a call =
    OnError
  | OnProtocolVersionMismatch ParsedQuicVersion
  | OnPacket
  | OnPublicResetPacket "'a QuicPublicResetPacket"
  | OnVersionNegotiationPacket u64 "ParsedQuicVersion list"
  | OnUnauthenticatedPublicHeader QuicPacketHeader
  | OnUnauthenticatedHeader QuicPacketHeader
  | OnDecryptedPacket nat
  | OnPacketHeader QuicPacketHeader
  | OnStreamFrame QuicStreamFrame
  | OnAckFrame QuicAckFrame
  | OnAckFrameStartCall u64 u64
  | OnAckRangeCall u64 u64 bool
  | OnStopWaitingFrame QuicStopWaitingFrame
  | OnPaddingFrame QuicPaddingFrame
  | OnPingFrame
  | OnRstStreamFrame QuicRstStreamFrame
  | OnConnectionCloseFrame QuicConnectionCloseFrame
  | OnGoAwayFrame QuicGoAwayFrame
  | OnWindowUpdateFrame QuicWindowUpdateFrame
  | OnBlockedFrame QuicBlockedFrame
  | OnPacketComplete

record ('w, 'd, 'e, 'v) framer =
  f_detailed_error :: string
  f_error :: error_enum
  f_largest_packet_number :: u64
  f_last_serialized_connection_id :: u64
  f_last_version_label :: u32
  f_last_packet_is_ietf_quic :: bool
  f_version :: ParsedQuicVersion
  f_supported_versions :: "ParsedQuicVersion list"
  f_decrypter :: "'d option"
  f_alternative_decrypter :: "'d option"
  f_decrypter_level :: nat
  f_alternative_decrypter_level :: nat
  f_alternative_decrypter_latch :: bool
  f_encrypter :: "nat \<Rightarrow> 'e option"
  f_perspective :: Perspective
  f_validate_flags :: bool
  f_creation_time :: u64
  f_last_timestamp :: u64
  f_data_producer :: "'w data_producer option"
  f_use_incremental_ack_processing :: bool
  f_last_nonce :: bytes
  f_visitor :: 'v

type_synonym ('w, 'd, 'e, 'v, 'a) visit = "'a call \<Rightarrow> ('w, 'd, 'e, 'v) framer \<Rightarrow> bool \<times> ('w, 'd, 'e, 'v) framer"

text \<open>What else the framer uses of the library.\<close>

record ('d, 'e, 'm, 'a, 'p) lib =
  new_NullDecrypter :: "Perspective \<Rightarrow> 'd"
  new_NullEncrypter :: "Perspective \<Rightarrow> 'e"
  default_header :: QuicPacketHeader
  default_ack_frame :: QuicAckFrame
  DecryptPacket :: "nat \<Rightarrow> u64 \<Rightarrow> bytes \<Rightarrow> bytes \<Rightarrow> nat \<Rightarrow> 'd \<Rightarrow> bytes option \<times> 'd"
  SetDiversificationNonce :: "bytes \<Rightarrow> 'd \<Rightarrow> 'd"
  EncryptPacket :: "nat \<Rightarrow> u64 \<Rightarrow> bytes \<Rightarrow> bytes \<Rightarrow> nat \<Rightarrow> 'e \<Rightarrow> bytes option \<times> 'e"
  MaxPlaintextSize :: "nat \<Rightarrow> 'e \<Rightarrow> nat"
  AssociatedData :: "nat \<Rightarrow> 'p \<Rightarrow> bytes"
  Plaintext :: "nat \<Rightarrow> 'p \<Rightarrow> bytes"
  GetStartOfEncryptedData :: "nat \<Rightarrow> nat \<Rightarrow> bool \<Rightarrow> bool \<Rightarrow> nat \<Rightarrow> nat"
  CreateQuicVersionLabel :: "ParsedQuicVersion \<Rightarrow> u32"
  ParseQuicVersionLabel :: "u32 \<Rightarrow> ParsedQuicVersion"
  kPRST :: u32
  kRNON :: u32
  kCADR :: u32
  kCHLO :: bytes
  reset_message :: 'm
  set_tag :: "u32 \<Rightarrow> 'm \<Rightarrow> 'm"
  SetValue :: "u32 \<Rightarrow> u64 \<Rightarrow> 'm \<Rightarrow> 'm"
  SetStringPiece :: "u32 \<Rightarrow> bytes \<Rightarrow> 'm \<Rightarrow> 'm"
  GetSerialized :: "Perspective \<Rightarrow> 'm \<Rightarrow> bytes"
  ParseMessage :: "bytes \<Rightarrow> Perspective \<Rightarrow> 'm option"
  tag_of :: "'m \<Rightarrow> u32"
  GetUint64 :: "u32 \<Rightarrow> 'm \<Rightarrow> u64 option"
  GetStringPiece :: "u32 \<Rightarrow> 'm \<Rightarrow> bytes option"
  unspecified :: "'a \<Rightarrow> bool"
  no_address :: 'a
  EncodeAddress :: "'a \<Rightarrow> bytes"
  DecodeAddress :: "bytes \<Rightarrow> 'a option"

text \<open>
  The constructor, with the visitor that \<open>set_visitor\<close> installs. An empty vector of versions is not
  defined. The nonce buffer starts uninitialised; it is written before it is read.
\<close>

definition MyQuicFramer ::
  "('r, 'w) quic \<Rightarrow> ('d, 'e, 'm, 'a, 'p) lib \<Rightarrow> ParsedQuicVersion list \<Rightarrow> u64 \<Rightarrow> Perspective \<Rightarrow> 'v \<Rightarrow> ('w, 'd, 'e, 'v) framer option" where
  "MyQuicFramer q lib supported_versions creation_time perspective visitor =
     (case supported_versions of
        [] \<Rightarrow> None
      | first # _ \<Rightarrow> Some \<lparr>
          f_detailed_error = [], f_error = QUIC_NO_ERROR, f_largest_packet_number = 0, f_last_serialized_connection_id = 0,
          f_last_version_label = 0, f_last_packet_is_ietf_quic = False, f_version = first,
          f_supported_versions = supported_versions, f_decrypter = Some (new_NullDecrypter lib perspective),
          f_alternative_decrypter = None, f_decrypter_level = level q ENCRYPTION_NONE,
          f_alternative_decrypter_level = level q ENCRYPTION_NONE, f_alternative_decrypter_latch = False,
          f_encrypter = (\<lambda>i. if i = level q ENCRYPTION_NONE then Some (new_NullEncrypter lib perspective) else None),
          f_perspective = perspective, f_validate_flags = True, f_creation_time = creation_time, f_last_timestamp = 0,
          f_data_producer = None, f_use_incremental_ack_processing = True, f_last_nonce = replicate (len q DiversificationNonceSize) 0,
          f_visitor = visitor\<rparr>)"

definition set_detailed_error :: "string \<Rightarrow> ('w, 'd, 'e, 'v) framer \<Rightarrow> ('w, 'd, 'e, 'v) framer" where
  "set_detailed_error err f = f\<lparr>f_detailed_error := err\<rparr>"

definition set_error :: "error_enum \<Rightarrow> ('w, 'd, 'e, 'v) framer \<Rightarrow> ('w, 'd, 'e, 'v) framer" where
  "set_error err f = f\<lparr>f_error := err\<rparr>"

definition set_version :: "ParsedQuicVersion \<Rightarrow> ('w, 'd, 'e, 'v) framer \<Rightarrow> ('w, 'd, 'e, 'v) framer" where
  "set_version v f = f\<lparr>f_version := v\<rparr>"

definition set_version_for_tests :: "ParsedQuicVersion \<Rightarrow> ('w, 'd, 'e, 'v) framer \<Rightarrow> ('w, 'd, 'e, 'v) framer" where
  "set_version_for_tests v f = f\<lparr>f_version := v\<rparr>"

definition SetSupportedVersions :: "ParsedQuicVersion list \<Rightarrow> ('w, 'd, 'e, 'v) framer \<Rightarrow> ('w, 'd, 'e, 'v) framer option" where
  "SetSupportedVersions versions f =
     (case versions of [] \<Rightarrow> None | first # _ \<Rightarrow> Some (f\<lparr>f_supported_versions := versions, f_version := first\<rparr>))"

definition set_validate_flags :: "bool \<Rightarrow> ('w, 'd, 'e, 'v) framer \<Rightarrow> ('w, 'd, 'e, 'v) framer" where
  "set_validate_flags val f = f\<lparr>f_validate_flags := val\<rparr>"

definition set_data_producer :: "'w data_producer option \<Rightarrow> ('w, 'd, 'e, 'v) framer \<Rightarrow> ('w, 'd, 'e, 'v) framer" where
  "set_data_producer producer f = f\<lparr>f_data_producer := producer\<rparr>"

definition RaiseError :: "('w, 'd, 'e, 'v, 'a) visit \<Rightarrow> error_enum \<Rightarrow> ('w, 'd, 'e, 'v) framer \<Rightarrow> bool \<times> ('w, 'd, 'e, 'v) framer" where
  "RaiseError visit err f = (False, snd (visit OnError (set_error err f)))"

abbreviation tversion :: "('w, 'd, 'e, 'v) framer \<Rightarrow> nat" where
  "tversion f \<equiv> transport_version (f_version f)"

definition IsSupportedTransportVersion :: "nat \<Rightarrow> ('w, 'd, 'e, 'v) framer \<Rightarrow> bool" where
  "IsSupportedTransportVersion v f = list_ex (\<lambda>supported_version. v = transport_version supported_version) (f_supported_versions f)"

definition IsSupportedVersion :: "ParsedQuicVersion \<Rightarrow> ('w, 'd, 'e, 'v) framer \<Rightarrow> bool" where
  "IsSupportedVersion v f = list_ex (\<lambda>supported_version. v = supported_version) (f_supported_versions f)"

section \<open>Frame lengths\<close>

definition ComputeFrameLength :: "('r, 'w) quic \<Rightarrow> QuicFrame \<Rightarrow> bool \<Rightarrow> nat \<Rightarrow> ('w, 'd, 'e, 'v) framer \<Rightarrow> nat" where
  "ComputeFrameLength q frame last_frame_in_packet packet_number_length f =
     (case frame of
        StreamFrame s \<Rightarrow> GetMinStreamFrameSize q (tversion f) (sf_stream_id s) (sf_offset s) last_frame_in_packet + sf_data_length s
      | AckFrame a \<Rightarrow> GetAckFrameSize q (tversion f) (f_use_incremental_ack_processing f) a
      | StopWaitingFrame s \<Rightarrow> GetStopWaitingFrameSize (tversion f) packet_number_length
      | MtuDiscoveryFrame \<Rightarrow> kQuicFrameTypeSize
      | PingFrame \<Rightarrow> kQuicFrameTypeSize
      | RstStreamFrame s \<Rightarrow> GetRstStreamFrameSize
      | ConnectionCloseFrame c \<Rightarrow> GetMinConnectionCloseFrameSize + length (TruncateErrorString (cc_error_details c))
      | GoAwayFrame g \<Rightarrow> GetMinGoAwayFrameSize + length (TruncateErrorString (ga_reason_phrase g))
      | WindowUpdateFrame u \<Rightarrow> GetWindowUpdateFrameSize
      | BlockedFrame b \<Rightarrow> GetBlockedFrameSize
      | PaddingFrame p \<Rightarrow> 0
      | OtherFrame t \<Rightarrow> 0)"

text \<open>\<open>null_frame\<close>: the frame's pointer is null. \<open>size_t\<close> of a negative padding count is its value modulo \<open>2 ^ 64\<close>.\<close>

definition GetSerializedFrameLength ::
  "('r, 'w) quic \<Rightarrow> ('w, 'd, 'e, 'v, 'a) visit \<Rightarrow> bool \<Rightarrow> QuicFrame \<Rightarrow> nat \<Rightarrow> bool \<Rightarrow> bool \<Rightarrow> nat \<Rightarrow>
   ('w, 'd, 'e, 'v) framer \<Rightarrow> nat \<times> ('w, 'd, 'e, 'v) framer" where
  "GetSerializedFrameLength q visit null_frame frame free_bytes first_frame last_frame packet_number_length f =
     (let is_stream = (case frame of StreamFrame _ \<Rightarrow> True | _ \<Rightarrow> False);
          is_ack = (case frame of AckFrame _ \<Rightarrow> True | _ \<Rightarrow> False)
      in if (is_stream \<or> is_ack) \<and> null_frame
      then (0, snd (visit OnError (set_error QUIC_INTERNAL_ERROR f)))
      else case frame of
        PaddingFrame p \<Rightarrow>
          (if num_padding_bytes p = -1 then (free_bytes, f)
           else (if free_bytes < nat (num_padding_bytes p mod 2 ^ 64) then free_bytes else nat (num_padding_bytes p mod 2 ^ 64), f))
      | _ \<Rightarrow>
          (let frame_len = ComputeFrameLength q frame last_frame packet_number_length f in
           if frame_len \<le> free_bytes then (frame_len, f)
           else if \<not> first_frame then (0, f)
           else if is_ack \<and> free_bytes \<ge> GetMinAckFrameSize (tversion f) (len q PACKET_6BYTE_PACKET_NUMBER) then (free_bytes, f)
           else (0, f)))"

section \<open>Building packets\<close>

definition public_flags_of :: "('r, 'w) quic \<Rightarrow> QuicPacketHeader \<Rightarrow> u8" where
  "public_flags_of q header =
     (let public_flags = 0;
          public_flags = (if hd_reset_flag header then public_flags OR flag q PACKET_PUBLIC_FLAGS_RST else public_flags);
          public_flags = (if hd_version_flag header then public_flags OR flag q PACKET_PUBLIC_FLAGS_VERSION else public_flags);
          public_flags = public_flags OR push_bit kPublicHeaderSequenceNumberShift (GetPacketNumberFlags q (hd_packet_number_length header))
      in if hd_nonce header \<noteq> None then public_flags OR flag q PACKET_PUBLIC_FLAGS_NONCE else public_flags)"

definition AppendPacketHeader ::
  "('r, 'w) quic \<Rightarrow> ('d, 'e, 'm, 'a, 'p) lib \<Rightarrow> QuicPacketHeader \<Rightarrow> 'w \<Rightarrow> ('w, 'd, 'e, 'v) framer \<Rightarrow>
   'w option \<times> ('w, 'd, 'e, 'v) framer" where
  "AppendPacketHeader q lib header w f =
     (let public_flags = public_flags_of q header;
          id_written =
            (if hd_connection_id_length header = len q PACKET_0BYTE_CONNECTION_ID
             then WriteUInt8 q (public_flags OR flag q PACKET_PUBLIC_FLAGS_0BYTE_CONNECTION_ID) w
             else if hd_connection_id_length header = len q PACKET_8BYTE_CONNECTION_ID
             then let public_flags = public_flags OR flag q PACKET_PUBLIC_FLAGS_8BYTE_CONNECTION_ID;
                      public_flags = (if f_perspective f = IS_CLIENT
                        then public_flags OR flag q PACKET_PUBLIC_FLAGS_8BYTE_CONNECTION_ID_OLD else public_flags)
                  in Option.bind (WriteUInt8 q public_flags w) (WriteConnectionId q (hd_connection_id header))
             else Some w)
      in case id_written of
           None \<Rightarrow> (None, f)
         | Some w \<Rightarrow>
             (do {
                w \<leftarrow> (if hd_version_flag header
                     then WriteTag q (NetToHost32 q (CreateQuicVersionLabel lib (f_version f))) w else Some w);
                w \<leftarrow> (case hd_nonce header of None \<Rightarrow> Some w
                     | Some n \<Rightarrow> Option.bind (peek n 0 (len q DiversificationNonceSize)) (\<lambda>bs. WriteBytes q bs w));
                AppendPacketNumber q (hd_packet_number_length header) (hd_packet_number header) w
              },
              f\<lparr>f_last_serialized_connection_id := hd_connection_id header\<rparr>))"

definition frame_type_byte :: "('r, 'w) quic \<Rightarrow> QuicFrame \<Rightarrow> u8" where
  "frame_type_byte q frame =
     (case frame of
        PaddingFrame _ \<Rightarrow> ftype q PADDING_FRAME
      | RstStreamFrame _ \<Rightarrow> ftype q RST_STREAM_FRAME
      | ConnectionCloseFrame _ \<Rightarrow> ftype q CONNECTION_CLOSE_FRAME
      | GoAwayFrame _ \<Rightarrow> ftype q GOAWAY_FRAME
      | WindowUpdateFrame _ \<Rightarrow> ftype q WINDOW_UPDATE_FRAME
      | BlockedFrame _ \<Rightarrow> ftype q BLOCKED_FRAME
      | StopWaitingFrame _ \<Rightarrow> ftype q STOP_WAITING_FRAME
      | OtherFrame t \<Rightarrow> t
      | _ \<Rightarrow> ftype q PING_FRAME)"

definition AppendTypeByte :: "('r, 'w) quic \<Rightarrow> nat \<Rightarrow> QuicFrame \<Rightarrow> bool \<Rightarrow> 'w \<Rightarrow> 'w option" where
  "AppendTypeByte q v frame no_stream_frame_length w =
     (case frame of
        StreamFrame s \<Rightarrow> WriteUInt8 q (stream_type_byte q v s no_stream_frame_length) w
      | AckFrame _ \<Rightarrow> Some w
      | _ \<Rightarrow> WriteUInt8 q (frame_type_byte q frame) w)"

text \<open>One round of the loop over the frames: the type byte and the frame; \<open>OtherFrame\<close> is the default case.\<close>

definition append_frame ::
  "('r, 'w) quic \<Rightarrow> QuicPacketHeader \<Rightarrow> ('w, 'd, 'e, 'v) framer \<Rightarrow> QuicFrame \<Rightarrow> bool \<Rightarrow> 'w \<Rightarrow> 'w option" where
  "append_frame q header f frame no_stream_frame_length w =
     Option.bind (AppendTypeByte q (tversion f) frame no_stream_frame_length w) (\<lambda>w.
       case frame of
         PaddingFrame p \<Rightarrow> AppendPaddingFrame q (tversion f) p w
       | StreamFrame s \<Rightarrow> AppendStreamFrame q (tversion f) (f_data_producer f) s no_stream_frame_length w
       | AckFrame a \<Rightarrow> AppendAckFrameAndTypeByte q (tversion f) (f_use_incremental_ack_processing f) (f_creation_time f) a w
       | StopWaitingFrame s \<Rightarrow> AppendStopWaitingFrame q (hd_packet_number header) (hd_packet_number_length header) s w
       | MtuDiscoveryFrame \<Rightarrow> Some w
       | PingFrame \<Rightarrow> Some w
       | RstStreamFrame s \<Rightarrow> AppendRstStreamFrame q (tversion f) s w
       | ConnectionCloseFrame c \<Rightarrow> AppendConnectionCloseFrame q c w
       | GoAwayFrame g \<Rightarrow> AppendGoAwayFrame q g w
       | WindowUpdateFrame u \<Rightarrow> AppendWindowUpdateFrame q u w
       | BlockedFrame b \<Rightarrow> AppendBlockedFrame q b w
       | OtherFrame _ \<Rightarrow> None)"

fun append_frames ::
  "('r, 'w) quic \<Rightarrow> ('w, 'd, 'e, 'v, 'a) visit \<Rightarrow> QuicPacketHeader \<Rightarrow> QuicFrame list \<Rightarrow> 'w \<Rightarrow> ('w, 'd, 'e, 'v) framer \<Rightarrow>
   'w option \<times> ('w, 'd, 'e, 'v) framer" where
  "append_frames q visit header [] w f = (Some w, f)"
| "append_frames q visit header (frame # frames) w f =
     (case append_frame q header f frame (frames = []) w of
        Some w \<Rightarrow> append_frames q visit header frames w f
      | None \<Rightarrow>
          (None, case (frame, AppendTypeByte q (tversion f) frame (frames = []) w) of
                   (OtherFrame _, Some _) \<Rightarrow> snd (RaiseError visit QUIC_INVALID_FRAME_DATA f)
                 | _ \<Rightarrow> f))"

text \<open>The result is the number of bytes written, 0 on failure, and these bytes.\<close>

definition BuildDataPacket ::
  "('r, 'w) quic \<Rightarrow> ('d, 'e, 'm, 'a, 'p) lib \<Rightarrow> ('w, 'd, 'e, 'v, 'a) visit \<Rightarrow> QuicPacketHeader \<Rightarrow> QuicFrame list \<Rightarrow> nat \<Rightarrow>
   ('w, 'd, 'e, 'v) framer \<Rightarrow> (nat \<times> bytes) \<times> ('w, 'd, 'e, 'v) framer" where
  "BuildDataPacket q lib visit header frames packet_length f =
     (case AppendPacketHeader q lib header (new_writer q packet_length (endianness q (tversion f))) f of
        (None, f) \<Rightarrow> ((0, []), f)
      | (Some w, f) \<Rightarrow>
          (case append_frames q visit header frames w f of
             (None, f) \<Rightarrow> ((0, []), f)
           | (Some w, f) \<Rightarrow> ((wlength q w, written q w), f)))"

definition BuildConnectivityProbingPacket ::
  "('r, 'w) quic \<Rightarrow> ('d, 'e, 'm, 'a, 'p) lib \<Rightarrow> QuicPacketHeader \<Rightarrow> nat \<Rightarrow> ('w, 'd, 'e, 'v) framer \<Rightarrow>
   (nat \<times> bytes) \<times> ('w, 'd, 'e, 'v) framer" where
  "BuildConnectivityProbingPacket q lib header packet_length f =
     (case AppendPacketHeader q lib header (new_writer q packet_length (endianness q (tversion f))) f of
        (None, f) \<Rightarrow> ((0, []), f)
      | (Some w, f) \<Rightarrow>
          (let padding_frame = \<lparr>num_padding_bytes = -1\<rparr> in
           case (do {
                   w \<leftarrow> AppendTypeByte q (tversion f) PingFrame False w;
                   w \<leftarrow> AppendTypeByte q (tversion f) (PaddingFrame padding_frame) True w;
                   AppendPaddingFrame q (tversion f) padding_frame w
                 }) of
             None \<Rightarrow> ((0, []), f)
           | Some w \<Rightarrow> ((wlength q w, written q w), f)))"

definition BuildPublicResetPacket :: "('r, 'w) quic \<Rightarrow> ('d, 'e, 'm, 'a, 'p) lib \<Rightarrow> 'a QuicPublicResetPacket \<Rightarrow> bytes option" where
  "BuildPublicResetPacket q lib packet =
     (let reset = SetValue lib (kRNON lib) (pr_nonce_proof packet) (set_tag lib (kPRST lib) (reset_message lib));
          serialized_address = EncodeAddress lib (pr_client_address packet)
      in if \<not> unspecified lib (pr_client_address packet) \<and> serialized_address = [] then None
      else
        let reset = (if \<not> unspecified lib (pr_client_address packet)
                     then SetStringPiece lib (kCADR lib) serialized_address reset else reset);
            reset_serialized = GetSerialized lib IS_SERVER reset;
            n = len q PublicFlagsSize + len q PACKET_8BYTE_CONNECTION_ID + length reset_serialized;
            flags = (flag q PACKET_PUBLIC_FLAGS_RST OR flag q PACKET_PUBLIC_FLAGS_8BYTE_CONNECTION_ID) OR
                    flag q PACKET_PUBLIC_FLAGS_8BYTE_CONNECTION_ID_OLD
        in map_option (written q) (do {
             w \<leftarrow> WriteUInt8 q flags (new_writer q n NETWORK_BYTE_ORDER);
             w \<leftarrow> WriteConnectionId q (pr_connection_id packet) w;
             WriteBytes q reset_serialized w
           }))"

text \<open>The stateless reset token is the 16 bytes of a \<open>uint128\<close> as they are in memory.\<close>

definition BuildIetfStatelessResetPacket :: "('r, 'w) quic \<Rightarrow> u64 \<Rightarrow> bytes \<Rightarrow> bytes option" where
  "BuildIetfStatelessResetPacket q cid stateless_reset_token =
     (let n = len q PacketHeaderTypeSize + len q PACKET_8BYTE_CONNECTION_ID + length stateless_reset_token
      in map_option (written q) (do {
           w \<leftarrow> WriteUInt8 q (PacketNumberLengthToShortHeaderType q (len q PACKET_1BYTE_PACKET_NUMBER))
                 (new_writer q n NETWORK_BYTE_ORDER);
           w \<leftarrow> WriteConnectionId q cid w;
           WriteBytes q stateless_reset_token w
         }))"

fun write_versions :: "('r, 'w) quic \<Rightarrow> ('d, 'e, 'm, 'a, 'p) lib \<Rightarrow> ParsedQuicVersion list \<Rightarrow> 'w \<Rightarrow> 'w option" where
  "write_versions q lib [] w = Some w"
| "write_versions q lib (v # vs) w =
     Option.bind (WriteTag q (HostToNet32 q (CreateQuicVersionLabel lib v)) w) (write_versions q lib vs)"

definition BuildIetfVersionNegotiationPacket ::
  "('r, 'w) quic \<Rightarrow> ('d, 'e, 'm, 'a, 'p) lib \<Rightarrow> u64 \<Rightarrow> ParsedQuicVersion list \<Rightarrow> bytes option" where
  "BuildIetfVersionNegotiationPacket q lib cid versions =
     (let n = len q PacketHeaderTypeSize + len q PACKET_8BYTE_CONNECTION_ID + (length versions + 1) * len q QuicVersionSize
      in map_option (written q) (do {
           w \<leftarrow> WriteUInt8 q (flag q FLAGS_LONG_HEADER OR flag q VERSION_NEGOTIATION) (new_writer q n NETWORK_BYTE_ORDER);
           w \<leftarrow> WriteConnectionId q cid w;
           w \<leftarrow> WriteUInt32 q 0 w;
           write_versions q lib versions w
         }))"

definition BuildVersionNegotiationPacket ::
  "('r, 'w) quic \<Rightarrow> ('d, 'e, 'm, 'a, 'p) lib \<Rightarrow> u64 \<Rightarrow> bool \<Rightarrow> ParsedQuicVersion list \<Rightarrow> bytes option" where
  "BuildVersionNegotiationPacket q lib cid ietf_quic versions =
     (if ietf_quic then BuildIetfVersionNegotiationPacket q lib cid versions
      else
        let n = GetVersionNegotiationPacketSize q (length versions);
            flags = (flag q PACKET_PUBLIC_FLAGS_VERSION OR flag q PACKET_PUBLIC_FLAGS_8BYTE_CONNECTION_ID) OR
                    flag q PACKET_PUBLIC_FLAGS_8BYTE_CONNECTION_ID_OLD
        in map_option (written q) (do {
             w \<leftarrow> WriteUInt8 q flags (new_writer q n NETWORK_BYTE_ORDER);
             w \<leftarrow> WriteConnectionId q cid w;
             write_versions q lib versions w
           }))"

end
