(* ===== verification/Framer_Process.thy ===== *)
theory Framer_Process
  imports Framer_Packet
begin

text \<open>
  Processing a received packet in \<^verbatim>\<open>my_quic_framer.cc\<close>: the public header, the packet number,
  decryption with the primary and the alternative decrypter, the loop over the frames, version
  negotiation and public resets; and encryption of an outgoing packet. The result \<open>None\<close> stands for a
  run that has no defined result: a null decrypter is used, memory outside a buffer is read, or a
  loop exceeds its bound. The header's nonce pointer is modelled by the nonce it points to, and a
  visitor may change the framer in every call but not its version in the middle of one ack frame.
\<close>

type_synonym ('w, 'd, 'e, 'v) outcome = "(bool \<times> ('w, 'd, 'e, 'v) framer) option"

text \<open>\<open>reader->ReadBytes(&b, 1)\<close>\<close>

definition ReadByte :: "('r, 'w) quic \<Rightarrow> 'r \<Rightarrow> (u8 \<times> 'r) option" where
  "ReadByte q r = map_option (\<lambda>(bs, r). (hd bs, r)) (ReadBytes q 1 r)"

section \<open>Headers\<close>

definition header_connection_id ::
  "('r, 'w) quic \<Rightarrow> u8 \<Rightarrow> QuicPacketHeader \<Rightarrow> 'r \<Rightarrow> ('w, 'd, 'e, 'v) framer \<Rightarrow> (QuicPacketHeader \<times> 'r) option" where
  "header_connection_id q public_flags header r f =
     (let x = public_flags AND flag q PACKET_PUBLIC_FLAGS_8BYTE_CONNECTION_ID in
      if x = flag q PACKET_PUBLIC_FLAGS_8BYTE_CONNECTION_ID
      then map_option (\<lambda>(cid, r). (header\<lparr>hd_connection_id := cid, hd_connection_id_length := len q PACKET_8BYTE_CONNECTION_ID\<rparr>, r))
             (ReadConnectionId q r)
      else if x = flag q PACKET_PUBLIC_FLAGS_0BYTE_CONNECTION_ID
      then Some (header\<lparr>hd_connection_id_length := len q PACKET_0BYTE_CONNECTION_ID,
                        hd_connection_id := f_last_serialized_connection_id f\<rparr>, r)
      else Some (header, r))"

definition header_nonce ::
  "('r, 'w) quic \<Rightarrow> u8 \<Rightarrow> QuicPacketHeader \<Rightarrow> 'r \<Rightarrow> ('w, 'd, 'e, 'v) framer \<Rightarrow>
   (QuicPacketHeader \<times> 'r) option \<times> ('w, 'd, 'e, 'v) framer" where
  "header_nonce q public_flags header r f =
     (if public_flags AND flag q PACKET_PUBLIC_FLAGS_NONCE \<noteq> 0 \<and> public_flags AND flag q PACKET_PUBLIC_FLAGS_VERSION = 0 \<and>
         public_flags AND flag q PACKET_PUBLIC_FLAGS_RST = 0 \<and> f_perspective f = IS_CLIENT
      then (case ReadBytes q (length (f_last_nonce f)) r of
              None \<Rightarrow> (None, set_detailed_error ''Unable to read nonce.'' f)
            | Some (n, r) \<Rightarrow> (Some (header\<lparr>hd_nonce := Some n\<rparr>, r), f\<lparr>f_last_nonce := n\<rparr>))
      else (Some (header\<lparr>hd_nonce := None\<rparr>, r), f))"

definition header_version ::
  "('r, 'w) quic \<Rightarrow> ('d, 'e, 'm, 'a, 'p) lib \<Rightarrow> u8 \<Rightarrow> QuicPacketHeader \<Rightarrow> 'r \<Rightarrow> ('w, 'd, 'e, 'v) framer \<Rightarrow>
   (QuicPacketHeader \<times> 'r) option \<times> ('w, 'd, 'e, 'v) framer" where
  "header_version q lib public_flags header r f =
     (if hd_version_flag header \<and> f_perspective f = IS_SERVER
      then (case ReadTag q r of
              None \<Rightarrow> (None, set_detailed_error ''Unable to read protocol version.'' f)
            | Some (version_label, r) \<Rightarrow>
                (let version_label = NetToHost32 q version_label;
                     f = f\<lparr>f_last_version_label := version_label\<rparr>;
                     version = ParseQuicVersionLabel lib version_label
                 in if version = f_version f \<and> public_flags > flag q PACKET_PUBLIC_FLAGS_MAX
                    then (None, set_detailed_error ''Illegal public flags value.'' f)
                    else (Some (header\<lparr>hd_version := version\<rparr>, r), f)))
      else (Some (header, r), f))"

definition ProcessPublicHeader ::
  "('r, 'w) quic \<Rightarrow> ('d, 'e, 'm, 'a, 'p) lib \<Rightarrow> 'r \<Rightarrow> ('w, 'd, 'e, 'v) framer \<Rightarrow>
   (QuicPacketHeader \<times> 'r) option \<times> ('w, 'd, 'e, 'v) framer" where
  "ProcessPublicHeader q lib r f =
     (case ReadByte q r of
        None \<Rightarrow> (None, set_detailed_error ''Unable to read public flags.'' f)
      | Some (public_flags, r) \<Rightarrow>
          (let header = (default_header lib)\<lparr>
                 hd_reset_flag := (public_flags AND flag q PACKET_PUBLIC_FLAGS_RST \<noteq> 0),
                 hd_version_flag := (public_flags AND flag q PACKET_PUBLIC_FLAGS_VERSION \<noteq> 0)\<rparr>
           in if f_validate_flags f \<and> \<not> hd_version_flag header \<and> public_flags > flag q PACKET_PUBLIC_FLAGS_MAX
           then (None, set_detailed_error ''Illegal public flags value.'' f)
           else if hd_reset_flag header \<and> hd_version_flag header
           then (None, set_detailed_error ''Got version flag in reset packet'' f)
           else case header_connection_id q public_flags header r f of
             None \<Rightarrow> (None, set_detailed_error ''Unable to read ConnectionId.'' f)
           | Some (header, r) \<Rightarrow>
               (let header = header\<lparr>hd_packet_number_length :=
                      ReadSequenceNumberLength q (drop_bit kPublicHeaderSequenceNumberShift public_flags)\<rparr>
                in case header_version q lib public_flags header r f of
                     (None, f) \<Rightarrow> (None, f)
                   | (Some (header, r), f) \<Rightarrow> header_nonce q public_flags header r f)))"

definition ProcessAndCalculatePacketNumber :: "('r, 'w) quic \<Rightarrow> nat \<Rightarrow> u64 \<Rightarrow> 'r \<Rightarrow> (u64 \<times> 'r) option" where
  "ProcessAndCalculatePacketNumber q packet_number_length base_packet_number r =
     map_option (\<lambda>(wire_packet_number, r).
        (CalculatePacketNumberFromWire packet_number_length base_packet_number wire_packet_number, r))
       (ReadBytesToUInt64 q packet_number_length r)"

definition ProcessUnauthenticatedHeader ::
  "('r, 'w) quic \<Rightarrow> ('w, 'd, 'e, 'v, 'a) visit \<Rightarrow> QuicPacketHeader \<Rightarrow> 'r \<Rightarrow> ('w, 'd, 'e, 'v) framer \<Rightarrow>
   (QuicPacketHeader \<times> 'r) option \<times> ('w, 'd, 'e, 'v) framer" where
  "ProcessUnauthenticatedHeader q visit header r f =
     (let base_packet_number = f_largest_packet_number f in
      case ProcessAndCalculatePacketNumber q (hd_packet_number_length header) base_packet_number r of
        None \<Rightarrow> (None, snd (RaiseError visit QUIC_INVALID_PACKET_HEADER (set_detailed_error ''Unable to read packet number.'' f)))
      | Some (n, r) \<Rightarrow>
          (if n = 0 then (None, snd (RaiseError visit QUIC_INVALID_PACKET_HEADER (set_detailed_error ''packet numbers cannot be 0.'' f)))
           else let header = header\<lparr>hd_packet_number := n\<rparr> in
             case visit (OnUnauthenticatedHeader header) f of
               (go_on, f) \<Rightarrow>
                 if go_on then (Some (header, r), f)
                 else (None, set_detailed_error ''Visitor asked to stop processing of unauthenticated header.'' f)))"

section \<open>Encrypters and decrypters\<close>

definition GetAssociatedDataFromEncryptedPacket ::
  "('d, 'e, 'm, 'a, 'p) lib \<Rightarrow> nat \<Rightarrow> bytes \<Rightarrow> nat \<Rightarrow> bool \<Rightarrow> bool \<Rightarrow> nat \<Rightarrow> bytes option" where
  "GetAssociatedDataFromEncryptedPacket lib version encrypted connection_id_length includes_version
       includes_diversification_nonce packet_number_length =
     peek encrypted 0
       (GetStartOfEncryptedData lib version connection_id_length includes_version includes_diversification_nonce packet_number_length)"

definition SetDecrypter :: "nat \<Rightarrow> 'd option \<Rightarrow> ('w, 'd, 'e, 'v) framer \<Rightarrow> ('w, 'd, 'e, 'v) framer" where
  "SetDecrypter lvl d f = f\<lparr>f_decrypter := d, f_decrypter_level := lvl\<rparr>"

definition SetAlternativeDecrypter :: "nat \<Rightarrow> 'd option \<Rightarrow> bool \<Rightarrow> ('w, 'd, 'e, 'v) framer \<Rightarrow> ('w, 'd, 'e, 'v) framer" where
  "SetAlternativeDecrypter lvl d latch_once_used f =
     f\<lparr>f_alternative_decrypter := d, f_alternative_decrypter_level := lvl, f_alternative_decrypter_latch := latch_once_used\<rparr>"

definition SetEncrypter :: "nat \<Rightarrow> 'e option \<Rightarrow> ('w, 'd, 'e, 'v) framer \<Rightarrow> ('w, 'd, 'e, 'v) framer" where
  "SetEncrypter lvl e f = f\<lparr>f_encrypter := (f_encrypter f)(lvl := e)\<rparr>"

text \<open>\<open>buffer\<close> is the caller's memory; the result has the number of bytes of the packet and the new memory.\<close>

definition EncryptInPlace ::
  "('d, 'e, 'm, 'a, 'p) lib \<Rightarrow> ('w, 'd, 'e, 'v, 'a) visit \<Rightarrow> nat \<Rightarrow> u64 \<Rightarrow> nat \<Rightarrow> nat \<Rightarrow> nat \<Rightarrow> bytes \<Rightarrow>
   ('w, 'd, 'e, 'v) framer \<Rightarrow> ((nat \<times> bytes) \<times> ('w, 'd, 'e, 'v) framer) option" where
  "EncryptInPlace lib visit lvl packet_number ad_len total_len buffer_len buffer f = do {
     e \<leftarrow> f_encrypter f lvl;
     associated_data \<leftarrow> peek buffer 0 ad_len;
     plaintext \<leftarrow> peek buffer ad_len (size_sub total_len ad_len);
     (case EncryptPacket lib (tversion f) packet_number associated_data plaintext (size_sub buffer_len ad_len) e of
        (None, e) \<Rightarrow> Some ((0, buffer), snd (RaiseError visit QUIC_ENCRYPTION_FAILURE (SetEncrypter lvl (Some e) f)))
      | (Some out, e) \<Rightarrow>
          map_option (\<lambda>buffer. ((size_add ad_len (length out), buffer), SetEncrypter lvl (Some e) f)) (poke buffer ad_len out))
   }"

definition EncryptPayload ::
  "('d, 'e, 'm, 'a, 'p) lib \<Rightarrow> ('w, 'd, 'e, 'v, 'a) visit \<Rightarrow> nat \<Rightarrow> u64 \<Rightarrow> 'p \<Rightarrow> bytes \<Rightarrow> nat \<Rightarrow>
   ('w, 'd, 'e, 'v) framer \<Rightarrow> ((nat \<times> bytes) \<times> ('w, 'd, 'e, 'v) framer) option" where
  "EncryptPayload lib visit lvl packet_number packet buffer buffer_len f =
     (let associated_data = AssociatedData lib (tversion f) packet; ad_len = length associated_data in do {
        buffer \<leftarrow> poke buffer 0 associated_data;
        e \<leftarrow> f_encrypter f lvl;
        (case EncryptPacket lib (tversion f) packet_number associated_data (Plaintext lib (tversion f) packet)
                (size_sub buffer_len ad_len) e of
           (None, e) \<Rightarrow> Some ((0, buffer), snd (RaiseError visit QUIC_ENCRYPTION_FAILURE (SetEncrypter lvl (Some e) f)))
         | (Some out, e) \<Rightarrow>
             map_option (\<lambda>buffer. ((size_add ad_len (length out), buffer), SetEncrypter lvl (Some e) f)) (poke buffer ad_len out))
      })"

definition GetMaxPlaintextSize :: "('r, 'w) quic \<Rightarrow> ('d, 'e, 'm, 'a, 'p) lib \<Rightarrow> nat \<Rightarrow> ('w, 'd, 'e, 'v) framer \<Rightarrow> nat" where
  "GetMaxPlaintextSize q lib ciphertext_size f =
     fold (\<lambda>i min_plaintext_size.
        case f_encrypter f i of
          None \<Rightarrow> min_plaintext_size
        | Some e \<Rightarrow>
            (let sz = MaxPlaintextSize lib ciphertext_size e in
             if sz < min_plaintext_size then sz else min_plaintext_size))
       [level q ENCRYPTION_NONE ..< level q NUM_ENCRYPTION_LEVELS] ciphertext_size"

definition latch_decrypter :: "('r, 'w) quic \<Rightarrow> ('w, 'd, 'e, 'v) framer \<Rightarrow> ('w, 'd, 'e, 'v) framer" where
  "latch_decrypter q f =
     f\<lparr>f_decrypter := f_alternative_decrypter f, f_alternative_decrypter := None,
       f_decrypter_level := f_alternative_decrypter_level f, f_alternative_decrypter_level := level q ENCRYPTION_NONE\<rparr>"

definition swap_decrypters :: "('w, 'd, 'e, 'v) framer \<Rightarrow> ('w, 'd, 'e, 'v) framer" where
  "swap_decrypters f =
     f\<lparr>f_decrypter := f_alternative_decrypter f, f_alternative_decrypter := f_decrypter f,
       f_alternative_decrypter_level := f_decrypter_level f, f_decrypter_level := f_alternative_decrypter_level f\<rparr>"

definition try_alternative ::
  "('r, 'w) quic \<Rightarrow> ('d, 'e, 'm, 'a, 'p) lib \<Rightarrow> ('w, 'd, 'e, 'v, 'a) visit \<Rightarrow> QuicPacketHeader \<Rightarrow> bytes \<Rightarrow> bytes \<Rightarrow> nat \<Rightarrow> 'd \<Rightarrow>
   ('w, 'd, 'e, 'v) framer \<Rightarrow> bytes option \<times> ('w, 'd, 'e, 'v) framer" where
  "try_alternative q lib visit header associated_data encrypted buffer_length alternative f =
     (let alternative = (case hd_nonce header of None \<Rightarrow> alternative | Some n \<Rightarrow> SetDiversificationNonce lib n alternative);
          try_alternative_decryption =
            (\<not> (f_alternative_decrypter_level f = level q ENCRYPTION_INITIAL \<and> f_perspective f = IS_CLIENT \<and> hd_nonce header = None));
          (out, alternative) =
            (if try_alternative_decryption
             then DecryptPacket lib (tversion f) (hd_packet_number header) associated_data encrypted buffer_length alternative
             else (None, alternative));
          f = f\<lparr>f_alternative_decrypter := Some alternative\<rparr>
      in case out of
           None \<Rightarrow> (None, f)
         | Some plain \<Rightarrow>
             (let f = snd (visit (OnDecryptedPacket (f_alternative_decrypter_level f)) f)
              in (Some plain, if f_alternative_decrypter_latch f then latch_decrypter q f else swap_decrypters f)))"

definition DecryptPayload ::
  "('r, 'w) quic \<Rightarrow> ('d, 'e, 'm, 'a, 'p) lib \<Rightarrow> ('w, 'd, 'e, 'v, 'a) visit \<Rightarrow> QuicPacketHeader \<Rightarrow> bytes \<Rightarrow> nat \<Rightarrow> 'r \<Rightarrow>
   ('w, 'd, 'e, 'v) framer \<Rightarrow> (bytes option \<times> ('w, 'd, 'e, 'v) framer) option" where
  "DecryptPayload q lib visit header packet buffer_length r f =
     (let encrypted = fst (ReadRemainingPayload q r) in do {
        associated_data \<leftarrow> GetAssociatedDataFromEncryptedPacket lib (tversion f) packet (hd_connection_id_length header)
          (hd_version_flag header) (hd_nonce header \<noteq> None) (hd_packet_number_length header);
        d \<leftarrow> f_decrypter f;
        (case DecryptPacket lib (tversion f) (hd_packet_number header) associated_data encrypted buffer_length d of
           (Some plain, d) \<Rightarrow> Some (Some plain, snd (visit (OnDecryptedPacket (f_decrypter_level f)) (f\<lparr>f_decrypter := Some d\<rparr>)))
         | (None, d) \<Rightarrow>
             Some (case f_alternative_decrypter f of
                     None \<Rightarrow> (None, f\<lparr>f_decrypter := Some d\<rparr>)
                   | Some alternative \<Rightarrow>
                       try_alternative q lib visit header associated_data encrypted buffer_length alternative (f\<lparr>f_decrypter := Some d\<rparr>)))
      })"

section \<open>The frame loop\<close>

text \<open>A round goes on with the rest of the payload or returns from \<open>ProcessFrameData\<close>.\<close>

datatype 'r step = Next 'r | Return bool

definition tell :: "bool \<times> ('w, 'd, 'e, 'v) framer \<Rightarrow> 'r \<Rightarrow> 'r step \<times> ('w, 'd, 'e, 'v) framer" where
  "tell answer r = (if fst answer then Next r else Return True, snd answer)"

definition raise_error :: "('w, 'd, 'e, 'v, 'a) visit \<Rightarrow> error_enum \<Rightarrow> string \<Rightarrow> ('w, 'd, 'e, 'v) framer \<Rightarrow> 'r step \<times> ('w, 'd, 'e, 'v) framer" where
  "raise_error visit err msg f = (Return False, snd (RaiseError visit err (set_detailed_error msg f)))"

definition pass_frame ::
  "('w, 'd, 'e, 'v, 'a) visit \<Rightarrow> error_enum \<Rightarrow> (string + 'x \<times> 'r) \<Rightarrow> ('x \<Rightarrow> 'a call) \<Rightarrow> ('w, 'd, 'e, 'v) framer \<Rightarrow>
   'r step \<times> ('w, 'd, 'e, 'v) framer" where
  "pass_frame visit err result call f =
     (case result of Inl msg \<Rightarrow> raise_error visit err msg f | Inr (frame, r) \<Rightarrow> tell (visit (call frame) f) r)"

definition framer_ack_visitor :: "('w, 'd, 'e, 'v, 'a) visit \<Rightarrow> ('w, 'd, 'e, 'v) framer ack_visitor" where
  "framer_ack_visitor visit =
     \<lparr>OnAckFrameStart = (\<lambda>largest_acked delay. visit (OnAckFrameStartCall largest_acked delay)),
      OnAckRange = (\<lambda>start end last_range. visit (OnAckRangeCall start end last_range))\<rparr>"

definition process_ack ::
  "('r, 'w) quic \<Rightarrow> ('d, 'e, 'm, 'a, 'p) lib \<Rightarrow> ('w, 'd, 'e, 'v, 'a) visit \<Rightarrow> u8 \<Rightarrow> 'r \<Rightarrow> ('w, 'd, 'e, 'v) framer \<Rightarrow>
   'r step \<times> ('w, 'd, 'e, 'v) framer" where
  "process_ack q lib visit frame_type r f =
     (case ProcessAckFrame q (tversion f) (framer_ack_visitor visit) (f_use_incremental_ack_processing f) (f_creation_time f)
             frame_type (default_ack_frame lib) r (f, f_last_timestamp f) of
        (Inl msg, (f, last_timestamp)) \<Rightarrow> raise_error visit QUIC_INVALID_ACK_DATA msg (f\<lparr>f_last_timestamp := last_timestamp\<rparr>)
      | (Inr (frame, r), (f, last_timestamp)) \<Rightarrow>
          (let f = f\<lparr>f_last_timestamp := last_timestamp\<rparr> in
           if \<not> f_use_incremental_ack_processing f then tell (visit (OnAckFrame frame) f) r else (Next r, f)))"

definition is_stream_type :: "('r, 'w) quic \<Rightarrow> nat \<Rightarrow> u8 \<Rightarrow> bool" where
  "is_stream_type q version frame_type \<longleftrightarrow>
     (version \<noteq> ver q QUIC_VERSION_41 \<and> frame_type AND kQuicFrameTypeStreamMask_Pre40 \<noteq> 0) \<or>
     (version \<ge> ver q QUIC_VERSION_41 \<and> frame_type AND kQuicFrameTypeStreamMask = kQuicFrameTypeStreamMask)"

definition is_ack_type :: "('r, 'w) quic \<Rightarrow> nat \<Rightarrow> u8 \<Rightarrow> bool" where
  "is_ack_type q version frame_type \<longleftrightarrow>
     (version \<noteq> ver q QUIC_VERSION_41 \<and> frame_type AND kQuicFrameTypeAckMask_Pre40 \<noteq> 0) \<or>
     (version \<ge> ver q QUIC_VERSION_41 \<and> frame_type AND kQuicFrameTypeSpecialMask = kQuicFrameTypeAckMask)"

definition process_frame ::
  "('r, 'w) quic \<Rightarrow> ('d, 'e, 'm, 'a, 'p) lib \<Rightarrow> ('w, 'd, 'e, 'v, 'a) visit \<Rightarrow> QuicPacketHeader \<Rightarrow> u8 \<Rightarrow> 'r \<Rightarrow>
   ('w, 'd, 'e, 'v) framer \<Rightarrow> 'r step \<times> ('w, 'd, 'e, 'v) framer" where
  "process_frame q lib visit header frame_type r f =
     (if frame_type AND kQuicFrameTypeSpecialMask \<noteq> 0
      then if is_stream_type q (tversion f) frame_type
        then pass_frame visit QUIC_INVALID_STREAM_DATA (ProcessStreamFrame q (tversion f) frame_type r) OnStreamFrame f
        else if is_ack_type q (tversion f) frame_type then process_ack q lib visit frame_type r f
        else raise_error visit QUIC_INVALID_FRAME_DATA ''Illegal frame type.'' f
      else if frame_type = ftype q PADDING_FRAME
      then (case ProcessPaddingFrame q (tversion f) r of (frame, r) \<Rightarrow> tell (visit (OnPaddingFrame frame) f) r)
      else if frame_type = ftype q RST_STREAM_FRAME
      then pass_frame visit QUIC_INVALID_RST_STREAM_DATA (ProcessRstStreamFrame q (tversion f) r) OnRstStreamFrame f
      else if frame_type = ftype q CONNECTION_CLOSE_FRAME
      then pass_frame visit QUIC_INVALID_CONNECTION_CLOSE_DATA (ProcessConnectionCloseFrame q r) OnConnectionCloseFrame f
      else if frame_type = ftype q GOAWAY_FRAME
      then pass_frame visit QUIC_INVALID_GOAWAY_DATA (ProcessGoAwayFrame q r) OnGoAwayFrame f
      else if frame_type = ftype q WINDOW_UPDATE_FRAME
      then pass_frame visit QUIC_INVALID_WINDOW_UPDATE_DATA (ProcessWindowUpdateFrame q r) OnWindowUpdateFrame f
      else if frame_type = ftype q BLOCKED_FRAME
      then pass_frame visit QUIC_INVALID_BLOCKED_DATA (ProcessBlockedFrame q r) OnBlockedFrame f
      else if frame_type = ftype q STOP_WAITING_FRAME
      then pass_frame visit QUIC_INVALID_STOP_WAITING_DATA
             (ProcessStopWaitingFrame q (hd_packet_number header) (hd_packet_number_length header) r) OnStopWaitingFrame f
      else if frame_type = ftype q PING_FRAME then tell (visit OnPingFrame f) r
      else raise_error visit QUIC_INVALID_FRAME_DATA ''Illegal frame type.'' f)"

text \<open>
  The loop with a bound on its rounds; \<open>ProcessFrameData\<close> passes the number of unread bytes, which is
  enough because every round takes at least the type byte (\<open>process_frames_total\<close>).
\<close>

fun process_frames ::
  "('r, 'w) quic \<Rightarrow> ('d, 'e, 'm, 'a, 'p) lib \<Rightarrow> ('w, 'd, 'e, 'v, 'a) visit \<Rightarrow> QuicPacketHeader \<Rightarrow> nat \<Rightarrow> 'r \<Rightarrow>
   ('w, 'd, 'e, 'v) framer \<Rightarrow> ('w, 'd, 'e, 'v) outcome" where
  "process_frames q lib visit header k r f =
     (if IsDoneReading q r then Some (True, f)
      else case k of
        0 \<Rightarrow> None
      | Suc k \<Rightarrow>
          (case ReadByte q r of
             None \<Rightarrow> Some (RaiseError visit QUIC_INVALID_FRAME_DATA (set_detailed_error ''Unable to read frame type.'' f))
           | Some (frame_type, r) \<Rightarrow>
               (case process_frame q lib visit header frame_type r f of
                  (Next r, f) \<Rightarrow> process_frames q lib visit header k r f
                | (Return ok, f) \<Rightarrow> Some (ok, f))))"

declare process_frames.simps [simp del]

definition ProcessFrameData ::
  "('r, 'w) quic \<Rightarrow> ('d, 'e, 'm, 'a, 'p) lib \<Rightarrow> ('w, 'd, 'e, 'v, 'a) visit \<Rightarrow> QuicPacketHeader \<Rightarrow> 'r \<Rightarrow>
   ('w, 'd, 'e, 'v) framer \<Rightarrow> ('w, 'd, 'e, 'v) outcome" where
  "ProcessFrameData q lib visit header r f =
     (if IsDoneReading q r
      then Some (RaiseError visit QUIC_MISSING_PAYLOAD (set_detailed_error ''Packet has no frames.'' f))
      else process_frames q lib visit header (BytesRemaining q r) r f)"

section \<open>Packets\<close>

definition ProcessDataPacket ::
  "('r, 'w) quic \<Rightarrow> ('d, 'e, 'm, 'a, 'p) lib \<Rightarrow> ('w, 'd, 'e, 'v, 'a) visit \<Rightarrow> QuicPacketHeader \<Rightarrow> bytes \<Rightarrow> nat \<Rightarrow> 'r \<Rightarrow>
   ('w, 'd, 'e, 'v) framer \<Rightarrow> ('w, 'd, 'e, 'v) outcome" where
  "ProcessDataPacket q lib visit header packet buffer_length r f =
     (case ProcessUnauthenticatedHeader q visit header r f of
        (None, f) \<Rightarrow> Some (False, f)
      | (Some (header, r), f) \<Rightarrow>
          (case DecryptPayload q lib visit header packet buffer_length r f of
             None \<Rightarrow> None
           | Some (None, f) \<Rightarrow>
               Some (RaiseError visit QUIC_DECRYPTION_FAILURE (set_detailed_error ''Unable to decrypt payload.'' f))
           | Some (Some plain, f) \<Rightarrow>
               (let r = new_reader q plain (endianness q (tversion f));
                    f = f\<lparr>f_largest_packet_number := max (hd_packet_number header) (f_largest_packet_number f)\<rparr>
                in case visit (OnPacketHeader header) f of
                     (go_on, f) \<Rightarrow>
                       if \<not> go_on then Some (True, f)
                       else if length packet > len q MaxPacketSize then Some (RaiseError visit QUIC_PACKET_TOO_LARGE f)
                       else case ProcessFrameData q lib visit header r f of
                         None \<Rightarrow> None
                       | Some (ok, f) \<Rightarrow> if ok then Some (True, snd (visit OnPacketComplete f)) else Some (False, f))))"

text \<open>The \<open>do ... while\<close> over the version labels with a bound on its rounds; every round reads four bytes.\<close>

fun read_versions :: "('r, 'w) quic \<Rightarrow> ('d, 'e, 'm, 'a, 'p) lib \<Rightarrow> nat \<Rightarrow> ParsedQuicVersion list \<Rightarrow> 'r \<Rightarrow> ParsedQuicVersion list option option" where
  "read_versions q lib 0 versions r = None"
| "read_versions q lib (Suc k) versions r =
     (case ReadTag q r of
        None \<Rightarrow> Some None
      | Some (version_label, r) \<Rightarrow>
          (let versions = versions @ [ParseQuicVersionLabel lib (NetToHost32 q version_label)]
           in if \<not> IsDoneReading q r then read_versions q lib k versions r else Some (Some versions)))"

definition ProcessVersionNegotiationPacket ::
  "('r, 'w) quic \<Rightarrow> ('d, 'e, 'm, 'a, 'p) lib \<Rightarrow> ('w, 'd, 'e, 'v, 'a) visit \<Rightarrow> QuicPacketHeader \<Rightarrow> 'r \<Rightarrow>
   ('w, 'd, 'e, 'v) framer \<Rightarrow> ('w, 'd, 'e, 'v) outcome" where
  "ProcessVersionNegotiationPacket q lib visit header r f =
     (case read_versions q lib (BytesRemaining q r + 1) [] r of
        None \<Rightarrow> None
      | Some None \<Rightarrow>
          Some (RaiseError visit QUIC_INVALID_VERSION_NEGOTIATION_PACKET
            (set_detailed_error ''Unable to read supported version in negotiation.'' f))
      | Some (Some versions) \<Rightarrow> Some (True, snd (visit (OnVersionNegotiationPacket (hd_connection_id header) versions) f)))"

definition ProcessPublicResetPacket ::
  "('r, 'w) quic \<Rightarrow> ('d, 'e, 'm, 'a, 'p) lib \<Rightarrow> ('w, 'd, 'e, 'v, 'a) visit \<Rightarrow> QuicPacketHeader \<Rightarrow> 'r \<Rightarrow>
   ('w, 'd, 'e, 'v) framer \<Rightarrow> bool \<times> ('w, 'd, 'e, 'v) framer" where
  "ProcessPublicResetPacket q lib visit header r f =
     (let fail = (\<lambda>msg. RaiseError visit QUIC_INVALID_PUBLIC_RST_PACKET (set_detailed_error msg f)) in
      case ParseMessage lib (fst (ReadRemainingPayload q r)) (f_perspective f) of
        None \<Rightarrow> fail ''Unable to read reset message.''
      | Some reset \<Rightarrow>
          if tag_of lib reset \<noteq> kPRST lib then fail ''Incorrect message tag.''
          else case GetUint64 lib (kRNON lib) reset of
            None \<Rightarrow> fail ''Unable to read nonce proof.''
          | Some nonce_proof \<Rightarrow>
              (let client_address =
                     (case GetStringPiece lib (kCADR lib) reset of
                        None \<Rightarrow> no_address lib
                      | Some address \<Rightarrow> (case DecodeAddress lib address of None \<Rightarrow> no_address lib | Some a \<Rightarrow> a))
               in (True, snd (visit (OnPublicResetPacket
                     \<lparr>pr_connection_id = hd_connection_id header, pr_nonce_proof = nonce_proof, pr_client_address = client_address\<rparr>) f))))"

definition dispatch_packet ::
  "('r, 'w) quic \<Rightarrow> ('d, 'e, 'm, 'a, 'p) lib \<Rightarrow> ('w, 'd, 'e, 'v, 'a) visit \<Rightarrow> QuicPacketHeader \<Rightarrow> bytes \<Rightarrow> 'r \<Rightarrow>
   ('w, 'd, 'e, 'v) framer \<Rightarrow> ('w, 'd, 'e, 'v) outcome" where
  "dispatch_packet q lib visit header packet r f =
     (if f_perspective f = IS_CLIENT \<and> hd_version_flag header then ProcessVersionNegotiationPacket q lib visit header r f
      else if hd_reset_flag header then Some (ProcessPublicResetPacket q lib visit header r f)
      else if length packet \<le> len q MaxPacketSize
      then ProcessDataPacket q lib visit header packet (len q MaxPacketSize) r f
      else ProcessDataPacket q lib visit header packet (length packet) r f)"

definition ProcessPacket ::
  "('r, 'w) quic \<Rightarrow> ('d, 'e, 'm, 'a, 'p) lib \<Rightarrow> ('w, 'd, 'e, 'v, 'a) visit \<Rightarrow> bytes \<Rightarrow> ('w, 'd, 'e, 'v) framer \<Rightarrow>
   ('w, 'd, 'e, 'v) outcome" where
  "ProcessPacket q lib visit packet f =
     (let r = new_reader q packet (endianness q (tversion f));
          f = snd (visit OnPacket (f\<lparr>f_last_packet_is_ietf_quic := False\<rparr>))
      in case ProcessPublicHeader q lib r f of
           (None, f) \<Rightarrow> Some (RaiseError visit QUIC_INVALID_PACKET_HEADER f)
         | (Some (header, r), f) \<Rightarrow>
             (case visit (OnUnauthenticatedPublicHeader header) f of
                (go_on, f) \<Rightarrow>
                  if \<not> go_on then Some (True, f)
                  else
                  (case (if f_perspective f = IS_SERVER \<and> hd_version_flag header \<and> hd_version header \<noteq> f_version f
                         then visit (OnProtocolVersionMismatch (hd_version header)) f else (True, f)) of
                     (go_on, f) \<Rightarrow>
                       if \<not> go_on then Some (True, f)
                       else dispatch_packet q lib visit header packet (set_endianness q (endianness q (tversion f)) r) f)))"

text \<open>\<open>strncmp\<close> compares up to the first null byte.\<close>

definition strncmp_eq :: "nat \<Rightarrow> bytes \<Rightarrow> bytes \<Rightarrow> bool" where
  "strncmp_eq n a b \<longleftrightarrow> takeWhile (\<lambda>c. c \<noteq> 0) (take n a) = takeWhile (\<lambda>c. c \<noteq> 0) (take n b)"

definition StartsWithChlo :: "('r, 'w) quic \<Rightarrow> ('d, 'e, 'm, 'a, 'p) lib \<Rightarrow> u32 \<Rightarrow> u64 \<Rightarrow> ('w, 'd, 'e, 'v) framer \<Rightarrow> bool" where
  "StartsWithChlo q lib sid offset f =
     (case f_data_producer f of
        None \<Rightarrow> False
      | Some WriteStreamData \<Rightarrow>
          (case WriteStreamData sid offset (length (kCHLO lib)) (new_writer q (length (kCHLO lib)) (endianness q (tversion f))) of
             None \<Rightarrow> False
           | Some w \<Rightarrow> strncmp_eq (length (kCHLO lib)) (written q w) (kCHLO lib)))"

section \<open>The visitors of the repository\<close>

text \<open>
  \<^verbatim>\<open>quic_framer_visitor.h\<close>: the base class answers true everywhere and does nothing; the
  \<open>AckFrameVisitor\<close> stores a complete ack frame and stops there. What it prints is not modelled.
\<close>

definition AbstractQuicFramerVisitor :: "('w, 'd, 'e, 'v, 'a) visit" where
  "AbstractQuicFramerVisitor c f = (True, f)"

definition AckFrameVisitor :: "('w, 'd, 'e, QuicAckFrame, 'a) visit" where
  "AckFrameVisitor c f =
     (case c of
        OnAckFrame frame \<Rightarrow> (False, f\<lparr>f_visitor := frame\<rparr>)
      | OnAckFrameStartCall largest_acked delay \<Rightarrow> (True, f)
      | OnAckRangeCall start end last_range \<Rightarrow> (True, f)
      | _ \<Rightarrow> AbstractQuicFramerVisitor c f)"

end
