(* ===== verification/Quic_Peers.thy ===== *)
theory Quic_Peers
  imports Framer_Process Quic_Apps Std_Map
begin

text \<open>
  The programs of \<^verbatim>\<open>myquic/\<close> that run the framer over UDP: \<^verbatim>\<open>my_quic_receiver\<close>, \<^verbatim>\<open>my_quic_sender\<close> and \<^verbatim>\<open>my_quic_video_sender\<close>. The senders
  are visitors of the framer that reads their acknowledgements. The library's managers of sent and of received packets are parameters,
  functions on a state of their own that nothing is assumed of; \<open>None\<close> is undefined behaviour or a loop that does not end.
\<close>

section \<open>The library's managers\<close>

text \<open>What \<open>SerializedPacket\<close> is built from; of the frames only their number matters.\<close>

record serialized =
  sp_number :: u64
  sp_number_length :: u8
  sp_encrypted_length :: u16
  sp_frames :: nat

datatype transmission = NOT_RETRANSMISSION | LOSS_RETRANSMISSION

record ('m, 'n) managers =
  STREAM_FRAME :: u8
  version_43 :: ParsedQuicVersion
  new_sent :: "Perspective \<Rightarrow> 'm"
  SetHandshakeConfirmed :: "'m \<Rightarrow> 'm"
  SetPacing :: "'m \<Rightarrow> 'm"
  TimeUntilSend :: "QuicTime \<Rightarrow> 'm \<Rightarrow> Delta \<times> 'm"
  sm_OnPacketSent :: "serialized \<Rightarrow> u64 \<Rightarrow> QuicTime \<Rightarrow> transmission \<Rightarrow> bool \<Rightarrow> 'm \<Rightarrow> 'm"
  HasPendingRetransmissions :: "'m \<Rightarrow> bool"
  NextPendingRetransmission :: "'m \<Rightarrow> (u64 \<times> nat) \<times> 'm"
  sm_OnAckFrameStart :: "u64 \<Rightarrow> u64 \<Rightarrow> QuicTime \<Rightarrow> 'm \<Rightarrow> 'm"
  sm_OnAckRange :: "u64 \<Rightarrow> u64 \<Rightarrow> 'm \<Rightarrow> 'm"
  OnAckFrameEnd :: "QuicTime \<Rightarrow> 'm \<Rightarrow> bool \<times> 'm"
  sm_GetLeastUnacked :: "'m \<Rightarrow> u64"
  BandwidthKBits :: "'m \<Rightarrow> int"
  ShouldSendProbingPacket :: "'m \<Rightarrow> bool"
  new_received :: 'n
  RecordPacketReceived :: "u64 \<Rightarrow> QuicTime \<Rightarrow> 'n \<Rightarrow> 'n"
  ack_frame_updated :: "'n \<Rightarrow> bool"
  GetUpdatedAckFrame :: "QuicTime \<Rightarrow> 'n \<Rightarrow> QuicAckFrame \<times> 'n"
  DontWaitForPacketsBefore :: "u64 \<Rightarrow> 'n \<Rightarrow> 'n"

definition ms_of :: "QuicTime \<Rightarrow> u32 option" where
  "ms_of now = map_option (\<lambda>delta. word_of_int (ToMilliseconds delta)) (time_diff now Time_Zero)"

section \<open>The receiver\<close>

text \<open>Every reading of the clock in a call of \<open>Process\<close>.\<close>

datatype reading = Processing | Incoming | LossOf u64 | DelayedAck | AckSent | AlarmCheck | AlarmAck

definition mMinReceivedBeforeAckDecimation :: u64 where "mMinReceivedBeforeAckDecimation = 100"
definition mMaxRetransmittablePacketsBeforeAck :: u64 where "mMaxRetransmittablePacketsBeforeAck = 10"
definition mMaxDelayedAckTimeMs :: int where "mMaxDelayedAckTimeMs = 25"
definition mMinRetransmissionTimeMs :: int where "mMinRetransmissionTimeMs = 200"

record 'n quic_receiver =
  qr_first :: bool
  qr_peer :: "su_addr option"
  qr_manager :: 'n
  qr_ack_sent :: bool
  qr_seq :: u64
  qr_base_seq :: u64
  qr_stop :: QuicTime
  qr_duration :: u32
  qr_ack_alarm :: MyQuicAlarm
  qr_received :: u64
  qr_since_last_ack :: u64
  qr_offset :: int
  qr_ref_time :: QuicTime
  qr_next_output :: QuicTime
  qr_recv_byte :: u64
  qr_loss :: log_file
  qr_rate :: log_file
  qr_owd :: log_file
  qr_sent :: "(su_addr \<times> bytes) list"

definition MyQuicReceiver :: "('m, 'n) managers \<Rightarrow> 'n quic_receiver" where
  "MyQuicReceiver lm = \<lparr>qr_first = True, qr_peer = None, qr_manager = new_received lm, qr_ack_sent = False, qr_seq = 1, qr_base_seq = 0,
     qr_stop = Time_Zero, qr_duration = 0, qr_ack_alarm = MyQuicAlarm_new, qr_received = 0, qr_since_last_ack = 0, qr_offset = 0,
     qr_ref_time = Time_Zero, qr_next_output = Time_Zero, qr_recv_byte = 0, qr_loss = None, qr_rate = None, qr_owd = None, qr_sent = []\<rparr>"

definition QR_set_duration :: "u32 \<Rightarrow> 'n quic_receiver \<Rightarrow> 'n quic_receiver" where "QR_set_duration ms s = s\<lparr>qr_duration := ms\<rparr>"
definition QR_SetTimeOffset :: "int \<Rightarrow> 'n quic_receiver \<Rightarrow> 'n quic_receiver" where "QR_SetTimeOffset offset s = s\<lparr>qr_offset := offset\<rparr>"

text \<open>The argument tells whether the file could be opened.\<close>

definition QR_EnableRateRecord :: "bool \<Rightarrow> 'n quic_receiver \<Rightarrow> 'n quic_receiver" where
  "QR_EnableRateRecord opened s = s\<lparr>qr_rate := (if opened then Some [] else None)\<rparr>"

definition QR_EnableLossRecord :: "bool \<Rightarrow> 'n quic_receiver \<Rightarrow> 'n quic_receiver" where
  "QR_EnableLossRecord opened s = s\<lparr>qr_loss := (if opened then Some [] else None)\<rparr>"

definition QR_EnableOwdRecord :: "bool \<Rightarrow> 'n quic_receiver \<Rightarrow> 'n quic_receiver" where
  "QR_EnableOwdRecord opened s = s\<lparr>qr_owd := (if opened then Some [] else None)\<rparr>"

definition QR_RecordLoss :: "QuicTime \<Rightarrow> u64 \<Rightarrow> 'n quic_receiver \<Rightarrow> 'n quic_receiver option" where
  "QR_RecordLoss now seq s =
     (if qr_loss s \<noteq> None
      then map_option (\<lambda>abs. s\<lparr>qr_loss := add_line (word_of_int abs) seq (qr_loss s)\<rparr>) (ms_since (qr_ref_time s) (qr_offset s) now)
      else Some s)"

text \<open>The rate is cut to 32 bits, and so are the milliseconds, which the line shows as seconds.\<close>

definition QR_RecordRate :: "QuicTime \<Rightarrow> 'n quic_receiver \<Rightarrow> 'n quic_receiver option" where
  "QR_RecordRate now s =
     (if qr_rate s \<noteq> None
      then if qr_next_output s = Time_Zero then map_option (\<lambda>t. s\<lparr>qr_next_output := t\<rparr>) (later 500 now)
           else if now > qr_next_output s
           then do {
             let kbps = (ucast (qr_recv_byte s * 8 div 500) :: u32);
             t \<leftarrow> later 500 now;
             ms \<leftarrow> ms_since (qr_ref_time s) (qr_offset s) now;
             let abs = (word_of_int ms :: u32);
             Some (s\<lparr>qr_next_output := t, qr_recv_byte := 0, qr_rate := add_line (ucast abs) (ucast kbps) (qr_rate s)\<rparr>)
           }
           else Some s
      else Some s)"

definition QR_RecordOnewayDelay :: "u64 \<Rightarrow> u32 \<Rightarrow> 'n quic_receiver \<Rightarrow> 'n quic_receiver" where
  "QR_RecordOnewayDelay seq owd s = (if qr_owd s \<noteq> None then s\<lparr>qr_owd := add_line seq (ucast owd) (qr_owd s)\<rparr> else s)"

text \<open>
  The acknowledgement: a header in a writer of its own, and behind it an ack frame that a new framer writes. The framer is the
  constructor's, so it reads ack frames range by range. What a failed write of the frame leaves in the buffer is not modelled; \<open>None\<close>.
\<close>

definition QR_SendAck :: "('r, 'w) quic \<Rightarrow> ('m, 'n) managers \<Rightarrow> QuicTime \<Rightarrow> 'n quic_receiver \<Rightarrow> 'n quic_receiver option" where
  "QR_SendAck q lm approx s =
     (case GetUpdatedAckFrame lm approx (qr_manager s) of
        (ackframe, manager) \<Rightarrow> do {
          let s = s\<lparr>qr_manager := manager\<rparr>;
          let header_len = 1 + GetMinSeqLength q (qr_seq s);
          let (header, hw) = start_packet q header_len 0 (qr_seq s);
          let packet_length = unat (of_nat (len q MaxPacketSize) - of_nat header_len :: u32);
          w \<leftarrow> AppendAckFrameAndTypeByte q (transport_version (version_43 lm)) True (word_of_int (time_us approx)) ackframe
                 (new_writer q packet_length NETWORK_BYTE_ORDER);
          p \<leftarrow> qr_peer s;
          Some (s\<lparr>qr_sent := qr_sent s @ [(p, filled q header_len hw @ written q w)], qr_ack_sent := True, qr_since_last_ack := 0\<rparr>)
        })"

definition QR_MaybeSendAck :: "('r, 'w) quic \<Rightarrow> ('m, 'n) managers \<Rightarrow> (reading \<Rightarrow> QuicTime) \<Rightarrow> 'n quic_receiver \<Rightarrow> 'n quic_receiver option" where
  "QR_MaybeSendAck q lm clk s =
     (if qr_received s < mMinReceivedBeforeAckDecimation then QR_SendAck q lm (clk AckSent) s
      else if qr_since_last_ack s \<ge> mMaxRetransmittablePacketsBeforeAck then QR_SendAck q lm (clk AckSent) s
      else if \<not> Alarm_IsSet (qr_ack_alarm s)
      then let ack_delay = min mMaxDelayedAckTimeMs (mMinRetransmissionTimeMs div 2)
           in map_option (\<lambda>next. s\<lparr>qr_ack_alarm := Alarm_Update_to next (qr_ack_alarm s)\<rparr>) (later ack_delay (clk DelayedAck))
      else Some s)"

function QR_losses :: "(reading \<Rightarrow> QuicTime) \<Rightarrow> u64 \<Rightarrow> u64 \<Rightarrow> 'n quic_receiver \<Rightarrow> 'n quic_receiver option" where
  "QR_losses clk i seq s = (if i < seq then Option.bind (QR_RecordLoss (clk (LossOf i)) i s) (QR_losses clk (i + 1) seq) else Some s)"
  by auto
termination
proof (relation "measure (\<lambda>(_, i, seq, _). unat (seq - i))")
  fix clk :: "reading \<Rightarrow> QuicTime" and i seq :: u64 and s x :: "'n quic_receiver"
  assume "i < seq"
  then have "unat i < unat seq" "unat (i + 1) = unat i + 1" by (simp_all add: word_less_nat_alt unat_next)
  then show "((clk, i + 1, seq, x), (clk, i, seq, s)) \<in> measure (\<lambda>(_, i, seq, _). unat (seq - i))"
    by (simp add: unat_sub_if')
qed simp

declare QR_losses.simps [simp del]

definition QR_note_number :: "(reading \<Rightarrow> QuicTime) \<Rightarrow> u64 \<Rightarrow> 'n quic_receiver \<Rightarrow> 'n quic_receiver option" where
  "QR_note_number clk seq s = do {
     s \<leftarrow> (if seq \<ge> qr_base_seq s + 1 then QR_losses clk (qr_base_seq s + 1) seq s else Some s);
     Some (if seq \<ge> qr_base_seq s + 1 then s\<lparr>qr_base_seq := seq\<rparr> else s)
   }"

definition QR_OnIncomingData :: "('r, 'w) quic \<Rightarrow> ('m, 'n) managers \<Rightarrow> (reading \<Rightarrow> QuicTime) \<Rightarrow> bytes \<Rightarrow> 'n quic_receiver \<Rightarrow> 'n quic_receiver option" where
  "QR_OnIncomingData q lm clk dat s =
     (case read_flags q dat of (public_flags, sl, r) \<Rightarrow>
      case read_or 0 (ReadBytesToUInt64 q (unat sl)) r of (seq, r) \<Rightarrow>
      case read_byte q r of (type, r) \<Rightarrow> do {
        (s, r) \<leftarrow>
          (if type = STREAM_FRAME lm
           then do {
             let now = clk Incoming;
             recv_ts \<leftarrow> ms_of now;
             let (sent_ts, r) = read_or 0 (ReadUInt32 q) r;
             let owd = recv_ts - sent_ts;
             let s = QR_RecordOnewayDelay seq owd s;
             let s = s\<lparr>qr_manager := RecordPacketReceived lm seq now (qr_manager s)\<rparr>;
             s \<leftarrow> QR_note_number clk seq s;
             let s = s\<lparr>qr_since_last_ack := qr_since_last_ack s + 1, qr_received := qr_received s + 1,
                       qr_recv_byte := qr_recv_byte s + of_nat (length dat)\<rparr>;
             s \<leftarrow> QR_RecordRate now s;
             s \<leftarrow> (if ack_frame_updated lm (qr_manager s) then QR_MaybeSendAck q lm clk s else Some s);
             Some (s, r)
           }
           else Some (s, r));
        (if type = ftype q STOP_WAITING_FRAME
         then do {
           r \<leftarrow> r;
           (least_unack, r) \<leftarrow> ReadBytesToUInt64 q (unat sl) r;
           Some (s\<lparr>qr_manager := DontWaitForPacketsBefore lm least_unack (qr_manager s)\<rparr>)
         }
         else Some s)
      })"

definition QR_Process :: "('r, 'w) quic \<Rightarrow> ('m, 'n) managers \<Rightarrow> (su_addr \<times> bytes) option \<Rightarrow> (reading \<Rightarrow> QuicTime) \<Rightarrow> 'n quic_receiver \<Rightarrow>
    (bool \<times> 'n quic_receiver) option" where
  "QR_Process q lm incoming clk s = do {
     (recv, remote, buf) \<leftarrow> RecvFrom incoming;
     let now = clk Processing;
     s \<leftarrow> (if recv > 0
           then do {
             let s = (if qr_ref_time s = Time_Zero then s\<lparr>qr_ref_time := now\<rparr> else s);
             s \<leftarrow> (if qr_first s
                   then map_option (\<lambda>t. s\<lparr>qr_peer := remote, qr_first := False, qr_stop := t\<rparr>) (later (uint (qr_duration s)) now)
                   else Some s);
             QR_OnIncomingData q lm clk (take (nat recv) buf) s
           }
           else Some s);
     let ret = \<not> (\<not> qr_first s \<and> now > qr_stop s);
     let (expired, alarm) = IsExpired (clk AlarmCheck) (qr_ack_alarm s);
     let s = s\<lparr>qr_ack_alarm := alarm\<rparr>;
     s \<leftarrow> (if expired then QR_SendAck q lm (clk AlarmAck) s else Some s);
     Some (ret, s)
   }"

text \<open>The destructor notes the largest number as one more loss, and closes the files.\<close>

definition MyQuicReceiver_delete :: "QuicTime \<Rightarrow> 'n quic_receiver \<Rightarrow> 'n quic_receiver option" where
  "MyQuicReceiver_delete now s = (if qr_loss s \<noteq> None then QR_RecordLoss now (qr_base_seq s) s else Some s)"

section \<open>The sender\<close>

text \<open>The state that both senders have.\<close>

record 'm quic_base =
  qs_perspective :: Perspective
  qs_manager :: 'm
  qs_last_received :: QuicTime
  qs_peer :: "su_addr option"
  qs_stop :: QuicTime
  qs_stop_waiting_count :: int
  qs_largest_acked :: u64
  qs_last_output :: QuicTime
  qs_ref_time :: QuicTime
  qs_enable_log :: bool
  qs_rate :: log_file
  qs_sent :: "(su_addr \<times> bytes) list"

record 'm quic_sender = "'m quic_base" +
  qs_seq :: u32
  qs_counter :: u32
  qs_offset :: int

definition MyQuicSender :: "('m, 'n) managers \<Rightarrow> Perspective \<Rightarrow> QuicTime \<Rightarrow> 'm quic_sender" where
  "MyQuicSender lm perspective now = \<lparr>qs_perspective = perspective, qs_manager = SetHandshakeConfirmed lm (new_sent lm perspective),
     qs_last_received = now, qs_peer = None, qs_stop = Time_Zero, qs_stop_waiting_count = 0, qs_largest_acked = 1,
     qs_last_output = Time_Zero, qs_ref_time = Time_Zero, qs_enable_log = False, qs_rate = None, qs_sent = [], qs_seq = 1, qs_counter = 0,
     qs_offset = 0\<rparr>"

definition QS_set_peer :: "su_addr \<Rightarrow> ('m, 'x) quic_base_scheme \<Rightarrow> ('m, 'x) quic_base_scheme" where "QS_set_peer p s = s\<lparr>qs_peer := Some p\<rparr>"
definition QS_SetTimeOffset :: "int \<Rightarrow> 'm quic_sender \<Rightarrow> 'm quic_sender" where "QS_SetTimeOffset offset s = s\<lparr>qs_offset := offset\<rparr>"

definition QS_EnableRateRecord :: "bool \<Rightarrow> ('m, 'x) quic_base_scheme \<Rightarrow> ('m, 'x) quic_base_scheme" where
  "QS_EnableRateRecord opened s = s\<lparr>qs_enable_log := True, qs_rate := (if opened then Some [] else None)\<rparr>"

definition QS_set_duration :: "u32 \<Rightarrow> QuicTime \<Rightarrow> ('m, 'x) quic_base_scheme \<Rightarrow> ('m, 'x) quic_base_scheme option" where
  "QS_set_duration ms now s = map_option (\<lambda>t. s\<lparr>qs_stop := t\<rparr>) (later (uint ms) now)"

text \<open>A line shows the milliseconds as the integer \<open>shown\<close> makes of them, and the bandwidth.\<close>

definition log_rate :: "('m, 'n) managers \<Rightarrow> (int \<Rightarrow> u64) \<Rightarrow> int \<Rightarrow> QuicTime \<Rightarrow> ('m, 'x) quic_base_scheme \<Rightarrow> ('m, 'x) quic_base_scheme option" where
  "log_rate lm shown offset now s =
     (if \<not> qs_enable_log s then Some s
      else if qs_last_output s = Time_Zero then map_option (\<lambda>t. s\<lparr>qs_ref_time := now, qs_last_output := t\<rparr>) (later 100 now)
      else if now > qs_last_output s
      then do {
        ms \<leftarrow> ms_since (qs_ref_time s) offset now;
        let bw = BandwidthKBits lm (qs_manager s);
        t \<leftarrow> later 100 now;
        Some (s\<lparr>qs_rate := add_line (shown ms) (word_of_int bw) (qs_rate s), qs_last_output := t\<rparr>)
      }
      else Some s)"

text \<open>This sender has them in an \<open>int32_t\<close>.\<close>

definition QS_RecordRate :: "('m, 'n) managers \<Rightarrow> QuicTime \<Rightarrow> 'm quic_sender \<Rightarrow> 'm quic_sender option" where
  "QS_RecordRate lm now s = log_rate lm (\<lambda>ms. scast (word_of_int ms :: u32)) (qs_offset s) now s"

text \<open>The sender as a visitor. The count is reset by \<open>Process\<close> whenever it is above two.\<close>

definition QS_GetLeastUnacked :: "('m, 'n) managers \<Rightarrow> ('m, 'x) quic_base_scheme \<Rightarrow> u64" where
  "QS_GetLeastUnacked lm s = sm_GetLeastUnacked lm (qs_manager s)"

definition QS_PostProcessAfterAckFrame :: "bool \<Rightarrow> bool \<Rightarrow> ('m, 'x) quic_base_scheme \<Rightarrow> ('m, 'x) quic_base_scheme" where
  "QS_PostProcessAfterAckFrame send_stop_waiting acked_new_packet s =
     s\<lparr>qs_stop_waiting_count := (if send_stop_waiting then qs_stop_waiting_count s + 1 else 0)\<rparr>"

definition QS_OnAckFrame :: "QuicAckFrame \<Rightarrow> ('m, 'x) quic_base_scheme \<Rightarrow> bool \<times> ('m, 'x) quic_base_scheme" where
  "QS_OnAckFrame frame s = (False, s)"

definition QS_OnAckFrameStart :: "('m, 'n) managers \<Rightarrow> u64 \<Rightarrow> u64 \<Rightarrow> ('m, 'x) quic_base_scheme \<Rightarrow> bool \<times> ('m, 'x) quic_base_scheme" where
  "QS_OnAckFrameStart lm largest_acked delay s =
     (let s = s\<lparr>qs_manager := sm_OnAckFrameStart lm largest_acked delay (qs_last_received s) (qs_manager s)\<rparr>
      in (True, if largest_acked \<ge> qs_largest_acked s then s\<lparr>qs_largest_acked := largest_acked\<rparr> else s))"

definition QS_OnAckRange :: "('m, 'n) managers \<Rightarrow> u64 \<Rightarrow> u64 \<Rightarrow> bool \<Rightarrow> ('m, 'x) quic_base_scheme \<Rightarrow> bool \<times> ('m, 'x) quic_base_scheme" where
  "QS_OnAckRange lm start finish last_range s =
     (let s = s\<lparr>qs_manager := sm_OnAckRange lm start finish (qs_manager s)\<rparr> in
      if \<not> last_range then (True, s)
      else case OnAckFrameEnd lm (qs_last_received s) (qs_manager s) of
        (acked_new_packet, manager) \<Rightarrow>
          let s = s\<lparr>qs_manager := manager\<rparr> in (True, QS_PostProcessAfterAckFrame (QS_GetLeastUnacked lm s > start) acked_new_packet s))"

text \<open>A method of the visitor as a function on the framer whose visitor it is.\<close>

definition on_visitor :: "('v \<Rightarrow> bool \<times> 'v) \<Rightarrow> ('w, 'd, 'e, 'v) framer \<Rightarrow> bool \<times> ('w, 'd, 'e, 'v) framer" where
  "on_visitor g f = (case g (f_visitor f) of (go_on, v) \<Rightarrow> (go_on, f\<lparr>f_visitor := v\<rparr>))"

definition QS_visit :: "('m, 'n) managers \<Rightarrow> ('w, 'd, 'e, 'm quic_sender, 'a) visit" where
  "QS_visit lm c f =
     (case c of
        OnAckFrame frame \<Rightarrow> on_visitor (QS_OnAckFrame frame) f
      | OnAckFrameStartCall largest_acked delay \<Rightarrow> on_visitor (QS_OnAckFrameStart lm largest_acked delay) f
      | OnAckRangeCall start finish last_range \<Rightarrow> on_visitor (QS_OnAckRange lm start finish last_range) f
      | _ \<Rightarrow> AbstractQuicFramerVisitor c f)"

text \<open>
  The lines with which both senders read a datagram: it is copied into a buffer of \<open>kMaxPacketSize\<close> bytes, and a new framer reads what is behind the header. For a
  datagram shorter than its header \<open>remain\<close> wraps around to almost \<open>2 ^ 32\<close>, more than the buffer holds.
\<close>

definition read_frames :: "('r, 'w) quic \<Rightarrow> ('d, 'e, 'k, 'a, 'p) lib \<Rightarrow> ('m, 'n) managers \<Rightarrow> ('w, 'd, 'e, 'v, 'a) visit \<Rightarrow> QuicTime \<Rightarrow> Perspective \<Rightarrow> bytes \<Rightarrow>
    'v \<Rightarrow> 'v option" where
  "read_frames q lib lm visit now perspective dat v = do {
     buf \<leftarrow> poke (replicate (len q MaxPacketSize) 0) 0 dat;
     let (public_flags, sl, _) = read_flags q (take (length dat) buf);
     let header_len = 1 + unat sl;
     let remain = unat (of_nat (length dat) - of_nat header_len :: u32);
     payload \<leftarrow> peek buf header_len remain;
     framer \<leftarrow> MyQuicFramer q lib [version_43 lm] (word_of_int (time_us now)) perspective v;
     (ok, framer) \<leftarrow> ProcessFrameData q lib visit (default_header lib) (new_reader q payload NETWORK_BYTE_ORDER) framer;
     Some (f_visitor framer)
   }"

definition QS_OnIncomingData :: "('r, 'w) quic \<Rightarrow> ('d, 'e, 'k, 'a, 'p) lib \<Rightarrow> ('m, 'n) managers \<Rightarrow> QuicTime \<Rightarrow> bytes \<Rightarrow> 'm quic_sender \<Rightarrow> 'm quic_sender option" where
  "QS_OnIncomingData q lib lm now dat s = read_frames q lib lm (QS_visit lm) now (qs_perspective s) dat (s\<lparr>qs_last_received := now\<rparr>)"

text \<open>Packets of the sender: the header, the type \<open>STREAM_FRAME\<close> and the time, and zeros up to \<open>kMaxPacketSize\<close>.\<close>

definition stream_packet :: "('r, 'w) quic \<Rightarrow> ('m, 'n) managers \<Rightarrow> u64 \<Rightarrow> u32 \<Rightarrow> my_quic_header_t \<times> 'w" where
  "stream_packet q lm number ts =
     (case start_packet q (len q MaxPacketSize) 0 number of
        (header, w) \<Rightarrow> (header, write_on (WriteUInt32 q ts) (write_on (WriteBytes q [STREAM_FRAME lm]) w)))"

text \<open>A packet that carries data has one frame, for which the manager can ask again.\<close>

definition note_sent :: "('m, 'n) managers \<Rightarrow> bool \<Rightarrow> QuicTime \<Rightarrow> u64 \<Rightarrow> u8 \<Rightarrow> u16 \<Rightarrow> ('m, 'x) quic_base_scheme \<Rightarrow> ('m, 'x) quic_base_scheme" where
  "note_sent lm has_retransmittable_data now packet_number packet_number_length encrypted_length s =
     (let info = \<lparr>sp_number = packet_number, sp_number_length = packet_number_length, sp_encrypted_length = encrypted_length,
                 sp_frames = (if has_retransmittable_data then 1 else 0)\<rparr>
      in s\<lparr>qs_manager := sm_OnPacketSent lm info 0 now NOT_RETRANSMISSION has_retransmittable_data (qs_manager s)\<rparr>)"

definition QS_OnPacketSent :: "('m, 'n) managers \<Rightarrow> QuicTime \<Rightarrow> u64 \<Rightarrow> u8 \<Rightarrow> u16 \<Rightarrow> 'm quic_sender \<Rightarrow> 'm quic_sender" where
  "QS_OnPacketSent lm now packet_number packet_number_length encrypted_length s =
     note_sent lm True now packet_number packet_number_length encrypted_length s"

text \<open>The readings of the clock: for the call, for the packet in \<open>SendFakePacket\<close> and in \<open>OnPacketSent\<close>, for a datagram, and for retransmissions.\<close>

datatype sender_reading = Call | Stamp | Sent_At | Datagram | Resend | ResendOf u64

definition QS_SendFakePacket :: "('r, 'w) quic \<Rightarrow> ('m, 'n) managers \<Rightarrow> (sender_reading \<Rightarrow> QuicTime) \<Rightarrow> 'm quic_sender \<Rightarrow> 'm quic_sender option" where
  "QS_SendFakePacket q lm clk s = do {
     ts \<leftarrow> ms_of (clk Stamp);
     let (header, w) = stream_packet q lm (ucast (qs_seq s)) ts;
     p \<leftarrow> qs_peer s;
     let s = s\<lparr>qs_sent := qs_sent s @ [(p, filled q (len q MaxPacketSize) w)]\<rparr>;
     let payload = (of_nat (len q MaxPacketSize) - (1 + ucast (hdr_seq_len header) + 1) :: u16);
     let s = QS_OnPacketSent lm (clk Sent_At) (hdr_seq header) (hdr_seq_len header) payload s;
     Some (s\<lparr>qs_seq := qs_seq s + 1\<rparr>)
   }"

definition QS_OnRetransPacket :: "('r, 'w) quic \<Rightarrow> ('m, 'n) managers \<Rightarrow> (sender_reading \<Rightarrow> QuicTime) \<Rightarrow> u64 \<times> nat \<Rightarrow> 'm quic_sender \<Rightarrow> 'm quic_sender option" where
  "QS_OnRetransPacket q lm clk pending s = do {
     let now = clk (ResendOf (ucast (qs_seq s)));
     ts \<leftarrow> ms_of now;
     let (header, w) = stream_packet q lm (ucast (qs_seq s)) ts;
     p \<leftarrow> qs_peer s;
     let s = s\<lparr>qs_sent := qs_sent s @ [(p, filled q (len q MaxPacketSize) w)]\<rparr>;
     let payload = (of_nat (len q MaxPacketSize) - (1 + ucast (hdr_seq_len header) + 1) :: u16);
     let info = \<lparr>sp_number = hdr_seq header, sp_number_length = hdr_seq_len header, sp_encrypted_length = payload, sp_frames = snd pending\<rparr>;
     let old_seq = fst pending;
     Some (s\<lparr>qs_manager := sm_OnPacketSent lm info old_seq now LOSS_RETRANSMISSION True (qs_manager s), qs_seq := qs_seq s + 1\<rparr>)
   }"

partial_function (option) QS_retransmit :: "('r, 'w) quic \<Rightarrow> ('m, 'n) managers \<Rightarrow> (sender_reading \<Rightarrow> QuicTime) \<Rightarrow> 'm quic_sender \<Rightarrow> 'm quic_sender option" where
  "QS_retransmit q lm clk s =
     (case TimeUntilSend lm (clk Resend) (qs_manager s) of
        (d, m) \<Rightarrow>
          if d = Delta_Zero
          then if HasPendingRetransmissions lm m
               then case NextPendingRetransmission lm m of
                      (pending, m) \<Rightarrow> Option.bind (QS_OnRetransPacket q lm clk pending (s\<lparr>qs_manager := m\<rparr>)) (QS_retransmit q lm clk)
               else Some (s\<lparr>qs_manager := m\<rparr>)
          else Some (s\<lparr>qs_manager := m\<rparr>))"

declare QS_retransmit.simps [code]

definition QS_SendRetransmission :: "('r, 'w) quic \<Rightarrow> ('m, 'n) managers \<Rightarrow> (sender_reading \<Rightarrow> QuicTime) \<Rightarrow> 'm quic_sender \<Rightarrow> 'm quic_sender option" where
  "QS_SendRetransmission q lm clk s = QS_retransmit q lm clk s"

definition stop_waiting_packet :: "('r, 'w) quic \<Rightarrow> u64 \<Rightarrow> u64 \<Rightarrow> bytes" where
  "stop_waiting_packet q number unack_seq =
     (case start_packet q (len q MaxPacketSize) 0 number of
        (header, w) \<Rightarrow>
          let w = write_on (WriteBytes q [ftype q STOP_WAITING_FRAME]) w;
              w = write_on (WriteBytesToUInt64 q (unat (hdr_seq_len header)) unack_seq) w
          in take (wlength q w) (filled q (len q MaxPacketSize) w))"

definition QS_SendStopWaitingFrame :: "('r, 'w) quic \<Rightarrow> ('m, 'n) managers \<Rightarrow> 'm quic_sender \<Rightarrow> 'm quic_sender option" where
  "QS_SendStopWaitingFrame q lm s = do {
     let s = s\<lparr>qs_stop_waiting_count := 0\<rparr>;
     let unack_seq = QS_GetLeastUnacked lm s;
     p \<leftarrow> qs_peer s;
     Some (s\<lparr>qs_sent := qs_sent s @ [(p, stop_waiting_packet q (ucast (qs_seq s)) unack_seq)]\<rparr>)
   }"

definition QS_Process :: "('r, 'w) quic \<Rightarrow> ('d, 'e, 'k, 'a, 'p) lib \<Rightarrow> ('m, 'n) managers \<Rightarrow> (su_addr \<times> bytes) option \<Rightarrow> (sender_reading \<Rightarrow> QuicTime) \<Rightarrow>
    'm quic_sender \<Rightarrow> (bool \<times> 'm quic_sender) option" where
  "QS_Process q lib lm incoming clk s = do {
     let now = clk Call;
     let (d, m) = TimeUntilSend lm now (qs_manager s);
     let s = s\<lparr>qs_manager := m\<rparr>;
     s \<leftarrow> (if d = Delta_Zero then map_option (\<lambda>s. s\<lparr>qs_counter := qs_counter s + 1\<rparr>) (QS_SendFakePacket q lm clk s) else Some s);
     (recv, remote, buf) \<leftarrow> RecvFrom incoming;
     s \<leftarrow> (if recv > 0 then QS_OnIncomingData q lib lm (clk Datagram) (take (nat recv) buf) s else Some s);
     let ret = \<not> (qs_stop s \<noteq> Time_Zero \<and> now > qs_stop s);
     s \<leftarrow> QS_SendRetransmission q lm clk s;
     s \<leftarrow> (if qs_stop_waiting_count s > 2 then QS_SendStopWaitingFrame q lm s else Some s);
     s \<leftarrow> QS_RecordRate lm now s;
     Some (ret, s)
   }"

end
