(* ===== verification/Quic_Video.thy ===== *)
theory Quic_Video
  imports Quic_Peers
begin

text \<open>
  \<^verbatim>\<open>myquic/my_quic_video_sender.{h,cc}\<close>: the sender whose packets carry the frames of a video source. It keeps the parts of frames that wait to be
  sent, and of each packet that is not acknowledged the length, so as to send it once more. Many of its methods are copies of those of \<open>MyQuicSender\<close>.
\<close>

record 'm quic_video = "'m quic_base" +
  vs_seq :: u64
  vs_source :: "FakeVideoGenerator option"
  vs_pending_queue :: "int list"
  vs_sent_queue :: "(u64 \<times> int) list"
  vs_next_rate_update :: QuicTime
  vs_rate_updata_gap :: int

definition MyQuicVideoSender :: "('m, 'n) managers \<Rightarrow> Perspective \<Rightarrow> QuicTime \<Rightarrow> 'm quic_video" where
  "MyQuicVideoSender lm perspective now =
     \<lparr>qs_perspective = perspective, qs_manager = SetPacing lm (SetHandshakeConfirmed lm (new_sent lm perspective)),
      qs_last_received = now, qs_peer = None, qs_stop = Time_Zero, qs_stop_waiting_count = 0, qs_largest_acked = 1,
      qs_last_output = Time_Zero, qs_ref_time = Time_Zero, qs_enable_log = False, qs_rate = None, qs_sent = [], vs_seq = 1, vs_source = None,
      vs_pending_queue = [], vs_sent_queue = [], vs_next_rate_update = Time_Zero, vs_rate_updata_gap = 200\<rparr>"

definition VS_set_peer :: "su_addr \<Rightarrow> 'm quic_video \<Rightarrow> 'm quic_video" where "VS_set_peer = QS_set_peer"
definition VS_SetVideoSource :: "FakeVideoGenerator \<Rightarrow> 'm quic_video \<Rightarrow> 'm quic_video" where
  "VS_SetVideoSource source s = s\<lparr>vs_source := Some source\<rparr>"

definition VS_set_duration :: "u32 \<Rightarrow> QuicTime \<Rightarrow> 'm quic_video \<Rightarrow> 'm quic_video option" where "VS_set_duration = QS_set_duration"
definition VS_EnableRateRecord :: "bool \<Rightarrow> 'm quic_video \<Rightarrow> 'm quic_video" where "VS_EnableRateRecord = QS_EnableRateRecord"

definition VS_RecordRate :: "('m, 'n) managers \<Rightarrow> QuicTime \<Rightarrow> 'm quic_video \<Rightarrow> 'm quic_video option" where
  "VS_RecordRate lm now s = log_rate lm word_of_int 0 now s"

section \<open>Acknowledgements\<close>

definition VS_RemoveAckedPacket :: "u64 \<Rightarrow> 'm quic_video \<Rightarrow> 'm quic_video" where
  "VS_RemoveAckedPacket number s =
     (case map_of (vs_sent_queue s) number of None \<Rightarrow> s | Some _ \<Rightarrow> s\<lparr>vs_sent_queue := map_erase number (vs_sent_queue s)\<rparr>)"

function remove_acked :: "u64 \<Rightarrow> u64 \<Rightarrow> 'm quic_video \<Rightarrow> 'm quic_video" where
  "remove_acked i finish s = (if i < finish then remove_acked (i + 1) finish (VS_RemoveAckedPacket i s) else s)"
  by auto
termination
proof (relation "measure (\<lambda>(i, finish, _). unat (finish - i))")
  fix i finish :: u64 and s :: "'m quic_video"
  assume "i < finish"
  then have "unat i < unat finish" "unat (i + 1) = unat i + 1" by (simp_all add: word_less_nat_alt unat_next)
  then show "((i + 1, finish, VS_RemoveAckedPacket i s), (i, finish, s)) \<in> measure (\<lambda>(i, finish, _). unat (finish - i))"
    by (simp add: unat_sub_if')
qed simp

declare remove_acked.simps [simp del]

definition VS_GetLeastUnacked :: "('m, 'n) managers \<Rightarrow> 'm quic_video \<Rightarrow> u64" where "VS_GetLeastUnacked = QS_GetLeastUnacked"

definition VS_PostProcessAfterAckFrame :: "bool \<Rightarrow> bool \<Rightarrow> 'm quic_video \<Rightarrow> 'm quic_video" where
  "VS_PostProcessAfterAckFrame = QS_PostProcessAfterAckFrame"

definition VS_OnAckFrame :: "QuicAckFrame \<Rightarrow> 'm quic_video \<Rightarrow> bool \<times> 'm quic_video" where "VS_OnAckFrame = QS_OnAckFrame"

definition VS_OnAckFrameStart :: "('m, 'n) managers \<Rightarrow> u64 \<Rightarrow> u64 \<Rightarrow> 'm quic_video \<Rightarrow> bool \<times> 'm quic_video" where
  "VS_OnAckFrameStart = QS_OnAckFrameStart"

definition VS_OnAckRange :: "('m, 'n) managers \<Rightarrow> u64 \<Rightarrow> u64 \<Rightarrow> bool \<Rightarrow> 'm quic_video \<Rightarrow> bool \<times> 'm quic_video" where
  "VS_OnAckRange lm start finish last_range s =
     (let s = s\<lparr>qs_manager := sm_OnAckRange lm start finish (qs_manager s)\<rparr>;
          s = remove_acked start finish s in
      if \<not> last_range then (True, s)
      else case OnAckFrameEnd lm (qs_last_received s) (qs_manager s) of
        (acked_new_packet, manager) \<Rightarrow>
          let s = s\<lparr>qs_manager := manager\<rparr> in (True, VS_PostProcessAfterAckFrame (VS_GetLeastUnacked lm s > start) acked_new_packet s))"

definition VS_visit :: "('m, 'n) managers \<Rightarrow> ('w, 'd, 'e, 'm quic_video, 'a) visit" where
  "VS_visit lm c f =
     (case c of
        OnAckFrame frame \<Rightarrow> on_visitor (VS_OnAckFrame frame) f
      | OnAckFrameStartCall largest_acked delay \<Rightarrow> on_visitor (VS_OnAckFrameStart lm largest_acked delay) f
      | OnAckRangeCall start finish last_range \<Rightarrow> on_visitor (VS_OnAckRange lm start finish last_range) f
      | _ \<Rightarrow> AbstractQuicFramerVisitor c f)"

definition VS_OnIncomingData :: "('r, 'w) quic \<Rightarrow> ('d, 'e, 'k, 'a, 'p) lib \<Rightarrow> ('m, 'n) managers \<Rightarrow> QuicTime \<Rightarrow> bytes \<Rightarrow> 'm quic_video \<Rightarrow> 'm quic_video option" where
  "VS_OnIncomingData q lib lm now dat s = read_frames q lib lm (VS_visit lm) now (qs_perspective s) dat (s\<lparr>qs_last_received := now\<rparr>)"

section \<open>Sending\<close>

text \<open>The header and the type \<open>STREAM_FRAME\<close>, and how many bytes they are.\<close>

definition video_packet :: "('r, 'w) quic \<Rightarrow> ('m, 'n) managers \<Rightarrow> u64 \<Rightarrow> my_quic_header_t \<times> nat \<times> 'w" where
  "video_packet q lm number =
     (case start_packet q (len q MaxPacketSize) 0 number of
        (header, w) \<Rightarrow> (header, 1 + unat (hdr_seq_len header) + 1, write_on (WriteBytes q [STREAM_FRAME lm]) w))"

definition VS_OnPacketSent :: "('m, 'n) managers \<Rightarrow> bool \<Rightarrow> QuicTime \<Rightarrow> u64 \<Rightarrow> u8 \<Rightarrow> u16 \<Rightarrow> 'm quic_video \<Rightarrow> 'm quic_video" where
  "VS_OnPacketSent = note_sent"

text \<open>A part is sent as that many bytes behind the header, out of a buffer of \<open>kMaxPacketSize\<close> bytes.\<close>

definition VS_SendFakePacket :: "('r, 'w) quic \<Rightarrow> ('m, 'n) managers \<Rightarrow> (sender_reading \<Rightarrow> QuicTime) \<Rightarrow> 'm quic_video \<Rightarrow> 'm quic_video option" where
  "VS_SendFakePacket q lm clk s =
     (case vs_pending_queue s of
        [] \<Rightarrow> Some s
      | part # queue \<Rightarrow> do {
          let s = s\<lparr>vs_pending_queue := queue\<rparr>;
          let (header, n_used, w) = video_packet q lm (vs_seq s);
          buf \<leftarrow> peek (filled q (len q MaxPacketSize) w) 0 (nat (int n_used + part));
          p \<leftarrow> qs_peer s;
          let s = s\<lparr>qs_sent := qs_sent s @ [(p, buf)]\<rparr>;
          let s = VS_OnPacketSent lm True (clk Sent_At) (hdr_seq header) (hdr_seq_len header) (word_of_int part) s;
          Some (s\<lparr>vs_sent_queue := map_insert (vs_seq s) part (vs_sent_queue s), vs_seq := vs_seq s + 1\<rparr>)
        })"

text \<open>A packet of padding is \<open>QUIC_MAX_VIDEO_SIZE\<close> bytes in all.\<close>

definition VS_SendPaddingData :: "('r, 'w) quic \<Rightarrow> ('m, 'n) managers \<Rightarrow> (sender_reading \<Rightarrow> QuicTime) \<Rightarrow> 'm quic_video \<Rightarrow> 'm quic_video option" where
  "VS_SendPaddingData q lm clk s =
     (case video_packet q lm (vs_seq s) of
        (header, n_used, w) \<Rightarrow> do {
          p \<leftarrow> qs_peer s;
          let s = s\<lparr>qs_sent := qs_sent s @ [(p, filled q QUIC_MAX_VIDEO_SIZE w)]\<rparr>;
          let payload = (of_nat QUIC_MAX_VIDEO_SIZE - of_nat n_used :: u16);
          let s = VS_OnPacketSent lm False (clk Sent_At) (hdr_seq header) (hdr_seq_len header) payload s;
          Some (s\<lparr>vs_seq := vs_seq s + 1\<rparr>)
        })"

text \<open>The bandwidth in bits per second, an \<open>int64_t\<close>.\<close>

definition estimated_bps :: "('m, 'n) managers \<Rightarrow> 'm quic_video \<Rightarrow> int option" where
  "estimated_bps lm s = i64 (BandwidthKBits lm (qs_manager s) * 1000)"

definition VS_SendDataOrPadding :: "('r, 'w) quic \<Rightarrow> ('m, 'n) managers \<Rightarrow> (sender_reading \<Rightarrow> QuicTime) \<Rightarrow> 'm quic_video \<Rightarrow> 'm quic_video option" where
  "VS_SendDataOrPadding q lm clk s =
     (if vs_pending_queue s = []
      then do {
        bw \<leftarrow> estimated_bps lm s;
        encoder_rate \<leftarrow> map_option GetMaxRate (vs_source s);
        (if ShouldSendProbingPacket lm (qs_manager s) then VS_SendPaddingData q lm clk s else Some s)
      }
      else VS_SendFakePacket q lm clk s)"

text \<open>Only what is still in the queue is sent again, under a new number.\<close>

definition VS_OnRetransPacket :: "('r, 'w) quic \<Rightarrow> ('m, 'n) managers \<Rightarrow> (sender_reading \<Rightarrow> QuicTime) \<Rightarrow> u64 \<times> nat \<Rightarrow> 'm quic_video \<Rightarrow> 'm quic_video option" where
  "VS_OnRetransPacket q lm clk pending s =
     (let old_seq = fst pending in
      case map_of (vs_sent_queue s) old_seq of
        None \<Rightarrow> Some s
      | Some part \<Rightarrow> do {
          let s = s\<lparr>vs_sent_queue := map_erase old_seq (vs_sent_queue s)\<rparr>;
          let (header, n_used, w) = video_packet q lm (vs_seq s);
          buf \<leftarrow> peek (filled q (len q MaxPacketSize) w) 0 (nat (int n_used + part));
          p \<leftarrow> qs_peer s;
          let s = s\<lparr>qs_sent := qs_sent s @ [(p, buf)]\<rparr>;
          let now = clk (ResendOf (vs_seq s));
          let info = \<lparr>sp_number = hdr_seq header, sp_number_length = hdr_seq_len header, sp_encrypted_length = word_of_int part,
                      sp_frames = snd pending\<rparr>;
          let s = s\<lparr>qs_manager := sm_OnPacketSent lm info old_seq now LOSS_RETRANSMISSION True (qs_manager s)\<rparr>;
          Some (s\<lparr>vs_sent_queue := map_insert (vs_seq s) part (vs_sent_queue s), vs_seq := vs_seq s + 1\<rparr>)
        })"

partial_function (option) VS_retransmit :: "('r, 'w) quic \<Rightarrow> ('m, 'n) managers \<Rightarrow> (sender_reading \<Rightarrow> QuicTime) \<Rightarrow> 'm quic_video \<Rightarrow> 'm quic_video option" where
  "VS_retransmit q lm clk s =
     (case TimeUntilSend lm (clk Resend) (qs_manager s) of
        (d, m) \<Rightarrow>
          if d = Delta_Zero
          then if HasPendingRetransmissions lm m
               then case NextPendingRetransmission lm m of
                      (pending, m) \<Rightarrow> Option.bind (VS_OnRetransPacket q lm clk pending (s\<lparr>qs_manager := m\<rparr>)) (VS_retransmit q lm clk)
               else Some (s\<lparr>qs_manager := m\<rparr>)
          else Some (s\<lparr>qs_manager := m\<rparr>))"

declare VS_retransmit.simps [code]

definition VS_SendRetransmission :: "('r, 'w) quic \<Rightarrow> ('m, 'n) managers \<Rightarrow> (sender_reading \<Rightarrow> QuicTime) \<Rightarrow> 'm quic_video \<Rightarrow> 'm quic_video option" where
  "VS_SendRetransmission q lm clk s = VS_retransmit q lm clk s"

definition VS_SendStopWaitingFrame :: "('r, 'w) quic \<Rightarrow> ('m, 'n) managers \<Rightarrow> 'm quic_video \<Rightarrow> 'm quic_video option" where
  "VS_SendStopWaitingFrame q lm s = do {
     let s = s\<lparr>qs_stop_waiting_count := 0\<rparr>;
     let unack_seq = VS_GetLeastUnacked lm s;
     p \<leftarrow> qs_peer s;
     Some (s\<lparr>qs_sent := qs_sent s @ [(p, stop_waiting_packet q (vs_seq s) unack_seq)]\<rparr>)
   }"

section \<open>The round\<close>

definition VS_UpdateSourceRate :: "('m, 'n) managers \<Rightarrow> QuicTime \<Rightarrow> 'm quic_video \<Rightarrow> 'm quic_video option" where
  "VS_UpdateSourceRate lm now s =
     (if vs_next_rate_update s = Time_Zero
      then map_option (\<lambda>t. s\<lparr>vs_next_rate_update := t\<rparr>) (later (vs_rate_updata_gap s) now)
      else if now > vs_next_rate_update s
      then do {
        bw \<leftarrow> estimated_bps lm s;
        source \<leftarrow> vs_source s;
        t \<leftarrow> later (vs_rate_updata_gap s) now;
        Some (s\<lparr>vs_source := Some (UpdataRate bw source), vs_next_rate_update := t\<rparr>)
      }
      else Some s)"

text \<open>A frame is asked for and its parts are queued; an assertion that fails ends the program.\<close>

definition VS_queue_frame :: "QuicTime \<Rightarrow> 'm quic_video \<Rightarrow> 'm quic_video option" where
  "VS_queue_frame now s = do {
     source \<leftarrow> vs_source s;
     (frame_len, source) \<leftarrow> GetFrame now source;
     let s = s\<lparr>vs_source := Some source\<rparr>;
     (if frame_len > 0
      then if frame_len sdiv int QUIC_MAX_VIDEO_SIZE < int MAX_SPLIT_NUMBER
           then do {
             (total, splits) \<leftarrow> FrameSplit (replicate MAX_SPLIT_NUMBER 0) (nat frame_len);
             Some (s\<lparr>vs_pending_queue := vs_pending_queue s @ map uint (take (unat total) splits)\<rparr>)
           }
           else None
      else Some s)
   }"

definition VS_Process :: "('r, 'w) quic \<Rightarrow> ('d, 'e, 'k, 'a, 'p) lib \<Rightarrow> ('m, 'n) managers \<Rightarrow> (su_addr \<times> bytes) option \<Rightarrow> (sender_reading \<Rightarrow> QuicTime) \<Rightarrow>
    'm quic_video \<Rightarrow> (bool \<times> 'm quic_video) option" where
  "VS_Process q lib lm incoming clk s = do {
     let now = clk Call;
     s \<leftarrow> VS_queue_frame now s;
     let (d, m) = TimeUntilSend lm now (qs_manager s);
     let s = s\<lparr>qs_manager := m\<rparr>;
     s \<leftarrow> (if d = Delta_Zero then VS_SendDataOrPadding q lm clk s else Some s);
     (recv, remote, buf) \<leftarrow> RecvFrom incoming;
     s \<leftarrow> (if recv > 0 then VS_OnIncomingData q lib lm (clk Datagram) (take (nat recv) buf) s else Some s);
     let ret = \<not> (qs_stop s \<noteq> Time_Zero \<and> now > qs_stop s);
     s \<leftarrow> (if qs_stop_waiting_count s > 2 then VS_SendStopWaitingFrame q lm s else Some s);
     s \<leftarrow> VS_SendRetransmission q lm clk s;
     s \<leftarrow> VS_UpdateSourceRate lm now s;
     s \<leftarrow> VS_RecordRate lm now s;
     Some (ret, s)
   }"

end
