(* ===== verification/Framer_Ietf.thy ===== *)
theory Framer_Ietf
  imports Framer_Frames
begin

text \<open>
  The frames of the IETF format in \<^verbatim>\<open>my_quic_framer.cc\<close> except the ack frame: for each the \<open>AppendIetf\<close>
  function, the \<open>ProcessIetf\<close> function and the lemmas that the first writes a fixed layout and the
  second inverts it. Both sides leave a message in \<open>detailed_error_\<close> where they return false; the
  left result is that message. The process functions start after the type byte.
\<close>

section \<open>Frames\<close>

record QuicPathFrame =
  pf_data_buffer :: bytes

record QuicStopSendingFrame =
  ss_stream_id :: u32
  ss_application_error_code :: u16

record QuicIetfMaxStreamIdFrame =
  ms_max_stream_id :: u32

record QuicIetfBlockedFrame =
  ib_offset :: u64

record QuicIetfStreamIdBlockedFrame =
  sb_stream_id :: u32

section \<open>Stream frames\<close>

definition ietf_stream_type :: "('r, 'w) quic \<Rightarrow> QuicStreamFrame \<Rightarrow> bool \<Rightarrow> u8" where
  "ietf_stream_type q frame last_frame_in_packet =
     (let frame_type = ietf q IETF_STREAM;
          frame_type = (if sf_fin frame then frame_type OR ietf q IETF_STREAM_FRAME_FIN_BIT else frame_type);
          frame_type = (if sf_offset frame \<noteq> 0 then frame_type OR ietf q IETF_STREAM_FRAME_OFF_BIT else frame_type)
      in if \<not> last_frame_in_packet then frame_type OR ietf q IETF_STREAM_FRAME_LEN_BIT else frame_type)"

definition AppendIetfStreamFrame ::
  "('r, 'w) quic \<Rightarrow> 'w data_producer option \<Rightarrow> QuicStreamFrame \<Rightarrow> bool \<Rightarrow> 'w \<Rightarrow> string + 'w" where
  "AppendIetfStreamFrame q data_producer frame last_frame_in_packet w =
     (let frame_type = ietf_stream_type q frame last_frame_in_packet in
      wr ''Unable to write frame-type.'' (WriteUInt8 q frame_type w) (\<lambda>w.
      wr ''Writing stream id failed.'' (WriteVarInt62 q (ucast (sf_stream_id frame)) w) (\<lambda>w.
      wr ''Writing data offset failed.''
         (if frame_type AND ietf q IETF_STREAM_FRAME_OFF_BIT \<noteq> 0 then WriteVarInt62 q (sf_offset frame) w else Some w) (\<lambda>w.
      wr ''Writing data length failed.''
         (if frame_type AND ietf q IETF_STREAM_FRAME_LEN_BIT \<noteq> 0
          then WriteVarInt62 q (of_nat (sf_data_length frame)) w else Some w) (\<lambda>w.
      wr ''Writing frame data failed.''
         (case data_producer of
            None \<Rightarrow> Option.bind (peek (sf_data_buffer frame) 0 (sf_data_length frame)) (\<lambda>bs. WriteBytes q bs w)
          | Some WriteStreamData \<Rightarrow> WriteStreamData (sf_stream_id frame) (sf_offset frame) (sf_data_length frame) w) Inr)))))"

text \<open>The data length is a 16-bit field of the frame, also when it is taken from the bytes that remain.\<close>

definition ProcessIetfStreamFrame :: "('r, 'w) quic \<Rightarrow> u8 \<Rightarrow> 'r \<Rightarrow> string + QuicStreamFrame \<times> 'r" where
  "ProcessIetfStreamFrame q frame_type r =
     (let fin = (frame_type AND ietf q IETF_STREAM_FRAME_FIN_BIT \<noteq> 0);
          data = (\<lambda>stream_id offset n r. rd ''Unable to read frame data.'' (ReadStringPiece q n r) (\<lambda>data r.
            Inr (\<lparr>sf_stream_id = stream_id, sf_fin = fin, sf_offset = offset,
                  sf_data_length = length data mod 2 ^ 16, sf_data_buffer = data\<rparr>, r)));
          sized = (\<lambda>stream_id offset r.
            if frame_type AND ietf q IETF_STREAM_FRAME_LEN_BIT \<noteq> 0
            then rd ''Unable to read stream data length.'' (ReadVarInt62 q r) (\<lambda>n r.
                 if n > 0xffff then Inl ''Stream data length is too large.''
                 else data stream_id offset (unat n) r)
            else data stream_id offset (BytesRemaining q r mod 2 ^ 16) r)
      in rd ''Unable to read stream_id.'' (ReadVarIntStreamId q r) (\<lambda>stream_id r.
         if frame_type AND ietf q IETF_STREAM_FRAME_OFF_BIT \<noteq> 0
         then rd ''Unable to read stream data offset.'' (ReadVarInt62 q r) (\<lambda>offset r. sized stream_id offset r)
         else sized stream_id 0 r))"

section \<open>Close frames\<close>

definition AppendIetfCloseFrame :: "('r, 'w) quic \<Rightarrow> u8 \<Rightarrow> u16 \<Rightarrow> bytes \<Rightarrow> 'w \<Rightarrow> string + 'w" where
  "AppendIetfCloseFrame q type code phrase w =
     wr ''Can not write close frame type byte'' (WriteUInt8 q type w) (\<lambda>w.
     wr ''Can not write close frame code'' (WriteUInt16 q code w) (\<lambda>w.
     wr ''Can not write phrase-length'' (WriteVarInt62 q (of_nat (length phrase)) w) (\<lambda>w.
     wr ''Can not write phrase'' (if phrase \<noteq> [] then WriteBytes q phrase w else Some w) Inr)))"

definition AppendIetfConnectionCloseFrame :: "('r, 'w) quic \<Rightarrow> QuicConnectionCloseFrame \<Rightarrow> 'w \<Rightarrow> string + 'w" where
  "AppendIetfConnectionCloseFrame q frame w =
     AppendIetfCloseFrame q (ietf q IETF_CONNECTION_CLOSE) (ucast (cc_error_code frame)) (cc_error_details frame) w"

definition AppendIetfApplicationCloseFrame :: "('r, 'w) quic \<Rightarrow> QuicConnectionCloseFrame \<Rightarrow> 'w \<Rightarrow> string + 'w" where
  "AppendIetfApplicationCloseFrame q frame w =
     AppendIetfCloseFrame q (ietf q IETF_APPLICATION_CLOSE) (ucast (cc_error_code frame)) (cc_error_details frame) w"

definition ProcessIetfCloseFrame :: "('r, 'w) quic \<Rightarrow> u8 \<Rightarrow> 'r \<Rightarrow> string + QuicConnectionCloseFrame \<times> 'r" where
  "ProcessIetfCloseFrame q frame_type r =
     rd ''Unable to read close frame code.'' (ReadUInt16 q r) (\<lambda>code r.
     rd ''Unable to read phrase length'' (ReadVarInt62 q r) (\<lambda>phrase_length r.
     rd ''Can not read extended close information phrase'' (ReadStringPiece q (unat phrase_length) r) (\<lambda>phrase r.
     Inr (\<lparr>cc_error_code = ucast code, cc_error_details = phrase\<rparr>, r))))"

definition ProcessIetfConnectionCloseFrame :: "('r, 'w) quic \<Rightarrow> u8 \<Rightarrow> 'r \<Rightarrow> string + QuicConnectionCloseFrame \<times> 'r" where
  "ProcessIetfConnectionCloseFrame q frame_type r = ProcessIetfCloseFrame q frame_type r"

definition ProcessIetfApplicationCloseFrame :: "('r, 'w) quic \<Rightarrow> u8 \<Rightarrow> 'r \<Rightarrow> string + QuicConnectionCloseFrame \<times> 'r" where
  "ProcessIetfApplicationCloseFrame q frame_type r = ProcessIetfCloseFrame q frame_type r"

section \<open>Padding and path frames\<close>

text \<open>A failing \<open>AppendPaddingFrame\<close> leaves the detailed error as it was; the message here is empty.\<close>

definition AppendIetfPaddingFrame :: "('r, 'w) quic \<Rightarrow> nat \<Rightarrow> QuicPaddingFrame \<Rightarrow> 'w \<Rightarrow> string + 'w" where
  "AppendIetfPaddingFrame q version frame w =
     wr ''Can not write close frame type byte'' (WriteUInt8 q 0 w) (\<lambda>w.
     wr [] (AppendPaddingFrame q version frame w) Inr)"

definition ProcessIetfPaddingFrame :: "('r, 'w) quic \<Rightarrow> nat \<Rightarrow> 'r \<Rightarrow> QuicPaddingFrame \<times> 'r" where
  "ProcessIetfPaddingFrame q version r = ProcessPaddingFrame q version r"

definition ProcessIetfPathChallengeFrame :: "('r, 'w) quic \<Rightarrow> 'r \<Rightarrow> string + QuicPathFrame \<times> 'r" where
  "ProcessIetfPathChallengeFrame q r =
     rd ''Can not read path Challenge data'' (ReadBytes q (len q QuicPathFrameBufferSize) r) (\<lambda>bs r.
     Inr (\<lparr>pf_data_buffer = bs\<rparr>, r))"

definition ProcessIetfPathResponseFrame :: "('r, 'w) quic \<Rightarrow> 'r \<Rightarrow> string + QuicPathFrame \<times> 'r" where
  "ProcessIetfPathResponseFrame q r =
     rd ''Can not read path Response data'' (ReadBytes q (len q QuicPathFrameBufferSize) r) (\<lambda>bs r.
     Inr (\<lparr>pf_data_buffer = bs\<rparr>, r))"

definition AppendIetfPathChallengeFrame :: "('r, 'w) quic \<Rightarrow> QuicPathFrame \<Rightarrow> 'w \<Rightarrow> string + 'w" where
  "AppendIetfPathChallengeFrame q frame w =
     wr ''Can not write Path Challenge frame type byte'' (WriteUInt8 q (ietf q IETF_PATH_CHALLENGE) w) (\<lambda>w.
     wr ''Writing Path Challenge data failed.''
        (Option.bind (peek (pf_data_buffer frame) 0 (len q QuicPathFrameBufferSize)) (\<lambda>bs. WriteBytes q bs w)) Inr)"

definition AppendIetfPathResponseFrame :: "('r, 'w) quic \<Rightarrow> QuicPathFrame \<Rightarrow> 'w \<Rightarrow> string + 'w" where
  "AppendIetfPathResponseFrame q frame w =
     wr ''Can not write Path Response frame type byte'' (WriteUInt8 q (ietf q IETF_PATH_RESPONSE) w) (\<lambda>w.
     wr ''Writing Path Response data failed.''
        (Option.bind (peek (pf_data_buffer frame) 0 (len q QuicPathFrameBufferSize)) (\<lambda>bs. WriteBytes q bs w)) Inr)"

section \<open>Stream control frames\<close>

definition AppendIetfResetStreamFrame :: "('r, 'w) quic \<Rightarrow> QuicRstStreamFrame \<Rightarrow> 'w \<Rightarrow> string + 'w" where
  "AppendIetfResetStreamFrame q frame w =
     wr ''Unable to write reset-stream frame-type.'' (WriteUInt8 q (ietf q IETF_RST_STREAM) w) (\<lambda>w.
     wr ''Writing reset-stream stream id failed.'' (WriteVarInt62 q (ucast (rst_stream_id frame)) w) (\<lambda>w.
     wr ''Writing reset-stream error code failed.'' (WriteUInt16 q (ucast (rst_error_code frame)) w) (\<lambda>w.
     wr ''Writing reset-stream final-offset failed.'' (WriteVarInt62 q (rst_byte_offset frame) w) Inr)))"

definition ProcessIetfResetStreamFrame :: "('r, 'w) quic \<Rightarrow> 'r \<Rightarrow> string + QuicRstStreamFrame \<times> 'r" where
  "ProcessIetfResetStreamFrame q r =
     rd ''Reading reset-stream stream id failed.'' (ReadVarIntStreamId q r) (\<lambda>stream_id r.
     rd ''Reading reset-stream error code failed.'' (ReadUInt16 q r) (\<lambda>temp_uint16 r.
     rd ''Reading reset-stream final-offset failed.'' (ReadVarInt62 q r) (\<lambda>byte_offset r.
     Inr (\<lparr>rst_stream_id = stream_id, rst_error_code = ucast temp_uint16, rst_byte_offset = byte_offset\<rparr>, r))))"

definition ProcessIetfStopSendingFrame :: "('r, 'w) quic \<Rightarrow> 'r \<Rightarrow> string + QuicStopSendingFrame \<times> 'r" where
  "ProcessIetfStopSendingFrame q r =
     rd ''Unable to read stream id'' (ReadVarIntStreamId q r) (\<lambda>stream_id r.
     rd ''Unable to read application error code.'' (ReadUInt16 q r) (\<lambda>code r.
     Inr (\<lparr>ss_stream_id = stream_id, ss_application_error_code = code\<rparr>, r)))"

definition AppendIetfStopSendingFrame :: "('r, 'w) quic \<Rightarrow> QuicStopSendingFrame \<Rightarrow> 'w \<Rightarrow> string + 'w" where
  "AppendIetfStopSendingFrame q frame w =
     wr ''Can not write stop sending frame type byte'' (WriteUInt8 q (ietf q IETF_STOP_SENDING) w) (\<lambda>w.
     wr ''Can not write stop sending stream id'' (WriteVarInt62 q (ucast (ss_stream_id frame)) w) (\<lambda>w.
     wr ''Can not write application error code'' (WriteUInt16 q (ss_application_error_code frame) w) Inr))"

section \<open>Flow control frames\<close>

definition AppendIetfMaxDataFrame :: "('r, 'w) quic \<Rightarrow> QuicWindowUpdateFrame \<Rightarrow> 'w \<Rightarrow> string + 'w" where
  "AppendIetfMaxDataFrame q frame w =
     wr ''Can not write IETF_MAX_DATA frame type byte'' (WriteUInt8 q (ietf q IETF_MAX_DATA) w) (\<lambda>w.
     wr ''Can not write IETF_MAX_DATA byte-offset'' (WriteVarInt62 q (wu_byte_offset frame) w) Inr)"

definition ProcessIetfMaxDataFrame :: "('r, 'w) quic \<Rightarrow> 'r \<Rightarrow> string + QuicWindowUpdateFrame \<times> 'r" where
  "ProcessIetfMaxDataFrame q r =
     rd ''Can not read IETF_MAX_DATA byte-offset'' (ReadVarInt62 q r) (\<lambda>byte_offset r.
     Inr (\<lparr>wu_stream_id = 0, wu_byte_offset = byte_offset\<rparr>, r))"

definition AppendIetfMaxStreamDataFrame :: "('r, 'w) quic \<Rightarrow> QuicWindowUpdateFrame \<Rightarrow> 'w \<Rightarrow> string + 'w" where
  "AppendIetfMaxStreamDataFrame q frame w =
     wr ''Can not write IETF_MAX_STREAM_DATA frame type byte'' (WriteUInt8 q (ietf q IETF_MAX_STREAM_DATA) w) (\<lambda>w.
     wr ''Can not write IETF_MAX_STREAM_DATA stream id'' (WriteVarInt62 q (ucast (wu_stream_id frame)) w) (\<lambda>w.
     wr ''Can not write IETF_MAX_STREAM_DATA byte-offset'' (WriteVarInt62 q (wu_byte_offset frame) w) Inr))"

definition ProcessIetfMaxStreamDataFrame :: "('r, 'w) quic \<Rightarrow> 'r \<Rightarrow> string + QuicWindowUpdateFrame \<times> 'r" where
  "ProcessIetfMaxStreamDataFrame q r =
     rd ''Can not read IETF_MAX_STREAM_DATA stream id'' (ReadVarIntStreamId q r) (\<lambda>stream_id r.
     rd ''Can not read IETF_MAX_STREAM_DATA byte-count'' (ReadVarInt62 q r) (\<lambda>byte_offset r.
     Inr (\<lparr>wu_stream_id = stream_id, wu_byte_offset = byte_offset\<rparr>, r)))"

definition AppendIetfMaxStreamIdFrame :: "('r, 'w) quic \<Rightarrow> QuicIetfMaxStreamIdFrame \<Rightarrow> 'w \<Rightarrow> string + 'w" where
  "AppendIetfMaxStreamIdFrame q frame w =
     wr ''Can not write IETF_MAX_STREAM_ID frame type byte'' (WriteUInt8 q (ietf q IETF_MAX_STREAM_ID) w) (\<lambda>w.
     wr ''Can not write IETF_MAX_STREAM_ID stream id'' (WriteVarInt62 q (ucast (ms_max_stream_id frame)) w) Inr)"

definition ProcessIetfMaxStreamIdFrame :: "('r, 'w) quic \<Rightarrow> 'r \<Rightarrow> string + QuicIetfMaxStreamIdFrame \<times> 'r" where
  "ProcessIetfMaxStreamIdFrame q r =
     rd ''Can not read IETF_MAX_STREAM_ID stream id'' (ReadVarIntStreamId q r) (\<lambda>max_stream_id r.
     Inr (\<lparr>ms_max_stream_id = max_stream_id\<rparr>, r))"

definition AppendIetfBlockedFrame :: "('r, 'w) quic \<Rightarrow> QuicIetfBlockedFrame \<Rightarrow> 'w \<Rightarrow> string + 'w" where
  "AppendIetfBlockedFrame q frame w =
     wr ''Can not write IETF_BLOCKED frame type byte'' (WriteUInt8 q (ietf q IETF_BLOCKED) w) (\<lambda>w.
     wr ''Can not write IETF_BLOCKED offset'' (WriteVarInt62 q (ib_offset frame) w) Inr)"

definition ProcessIetfBlockedFrame :: "('r, 'w) quic \<Rightarrow> 'r \<Rightarrow> string + QuicIetfBlockedFrame \<times> 'r" where
  "ProcessIetfBlockedFrame q r =
     rd ''Can not read IETF_BLOCKED offset'' (ReadVarInt62 q r) (\<lambda>offset r. Inr (\<lparr>ib_offset = offset\<rparr>, r))"

definition AppendIetfStreamBlockedFrame :: "('r, 'w) quic \<Rightarrow> QuicWindowUpdateFrame \<Rightarrow> 'w \<Rightarrow> string + 'w" where
  "AppendIetfStreamBlockedFrame q frame w =
     wr ''Can not write IETF_STREAM_BLOCKED frame type byte'' (WriteUInt8 q (ietf q IETF_STREAM_BLOCKED) w) (\<lambda>w.
     wr ''Can not write IETF_STREAM_BLOCKED stream id'' (WriteVarInt62 q (ucast (wu_stream_id frame)) w) (\<lambda>w.
     wr ''Can not write IETF_STREAM_BLOCKED offset'' (WriteVarInt62 q (wu_byte_offset frame) w) Inr))"

definition ProcessIetfStreamBlockedFrame :: "('r, 'w) quic \<Rightarrow> 'r \<Rightarrow> string + QuicWindowUpdateFrame \<times> 'r" where
  "ProcessIetfStreamBlockedFrame q r =
     rd ''Can not read IETF_STREAM_BLOCKED stream id'' (ReadVarIntStreamId q r) (\<lambda>stream_id r.
     rd ''Can not read IETF_STREAM_BLOCKED offset'' (ReadVarInt62 q r) (\<lambda>byte_offset r.
     Inr (\<lparr>wu_stream_id = stream_id, wu_byte_offset = byte_offset\<rparr>, r)))"

definition AppendIetfStreamIdBlockedFrame :: "('r, 'w) quic \<Rightarrow> QuicIetfStreamIdBlockedFrame \<Rightarrow> 'w \<Rightarrow> string + 'w" where
  "AppendIetfStreamIdBlockedFrame q frame w =
     wr ''Can not write IETF_STREAM_ID_BLOCKED frame type byte'' (WriteUInt8 q (ietf q IETF_STREAM_ID_BLOCKED) w) (\<lambda>w.
     wr ''Can not write IETF_STREAM_ID_BLOCKED stream id'' (WriteVarInt62 q (ucast (sb_stream_id frame)) w) Inr)"

definition ProcessIetfStreamIdBlockedFrame :: "('r, 'w) quic \<Rightarrow> 'r \<Rightarrow> string + QuicIetfStreamIdBlockedFrame \<times> 'r" where
  "ProcessIetfStreamIdBlockedFrame q r =
     rd ''Can not read IETF_STREAM_ID_BLOCKED stream id'' (ReadVarIntStreamId q r) (\<lambda>stream_id r.
     Inr (\<lparr>sb_stream_id = stream_id\<rparr>, r))"

section \<open>Layouts\<close>

lemmas documented_encodes = documented_writer [THEN encodes_wr]

lemma stream_id_varint: "ucast (i :: u32) < (2 ^ 62 :: u64)"
proof -
  have i: "unat i < 2 ^ 32" by (rule order_less_le_trans [OF unsigned_less]) simp
  then have "unat (ucast i :: u64) < 2 ^ 32" by (simp add: unsigned_ucast_eq take_bit_nat_eq_self)
  also have "(2 :: nat) ^ 32 < 2 ^ 62" by simp
  finally show ?thesis by (simp add: word_less_nat_alt)
qed

lemma length_varint:
  assumes "n < 2 ^ 62"
  shows "of_nat n < (2 ^ 62 :: u64)" "unat (of_nat n :: u64) = n"
proof -
  have "n < 2 ^ LENGTH(64)" using assms by (simp add: less_trans)
  then show "unat (of_nat n :: u64) = n" by (simp add: unat_of_nat take_bit_nat_eq_self)
  with assms show "of_nat n < (2 ^ 62 :: u64)" by (simp add: word_less_nat_alt)
qed

definition ietf_close_bytes :: "('r, 'w) view \<Rightarrow> Endianness \<Rightarrow> u8 \<Rightarrow> QuicConnectionCloseFrame \<Rightarrow> bytes" where
  "ietf_close_bytes V e type f =
     [type] @ int_enc V e 2 (ucast (ucast (cc_error_code f) :: u16)) @ var_enc V (of_nat (length (cc_error_details f))) @
     cc_error_details f @ []"

lemma ietf_close_encodes:
  assumes d: "documented q V" and n: "length (cc_error_details f) < 2 ^ 62"
  shows "encodes q V e (AppendIetfCloseFrame q type (ucast (cc_error_code f)) (cc_error_details f)) (ietf_close_bytes V e type f)"
proof -
  have "emits q V e (\<lambda>w. if cc_error_details f \<noteq> [] then WriteBytes q (cc_error_details f) w else Some w) (cc_error_details f)"
    using documented_writer(8) [OF d] emits_nothing [of q, OF documented_state(2) [OF d]] by (cases "cc_error_details f") auto
  from encodes_wr [OF this encodes_done [OF documented_state(2) [OF d]]] show ?thesis
    unfolding AppendIetfCloseFrame_def [abs_def] ietf_close_bytes_def
    by (intro documented_encodes [OF d] length_varint [OF n])
qed

lemma ietf_close_decodes:
  assumes d: "documented q V" and n: "length (cc_error_details f) < 2 ^ 62"
  shows "decodes V e (ProcessIetfCloseFrame q type) (tl (ietf_close_bytes V e type f))
     (f\<lparr>cc_error_code := cc_error_code f AND 0xFFFF\<rparr>)"
proof -
  have "ucast (ucast (cc_error_code f) :: u16) = cc_error_code f AND mask 16"
    by (rule bit_word_eqI) (auto simp: bit_simps)
  then have c: "ucast (ucast (cc_error_code f) :: u16) = cc_error_code f AND 0xFFFF" by (simp add: mask_eq_exp_minus_1)
  show ?thesis
    unfolding ProcessIetfCloseFrame_def [abs_def] ietf_close_bytes_def
    by (simp del: append_Nil2)
      (intro documented_decodes [OF d] decodes_done length_varint [OF n]; simp add: length_varint [OF n] c)
qed

definition ietf_rst_bytes :: "('r, 'w) view \<Rightarrow> Endianness \<Rightarrow> u8 \<Rightarrow> QuicRstStreamFrame \<Rightarrow> bytes" where
  "ietf_rst_bytes V e type f =
     [type] @ var_enc V (ucast (rst_stream_id f)) @ int_enc V e 2 (ucast (ucast (rst_error_code f) :: u16)) @
     var_enc V (rst_byte_offset f) @ []"

lemma ietf_rst_io:
  assumes d: "documented q V" and n: "rst_byte_offset f < 2 ^ 62"
  shows "encodes q V e (AppendIetfResetStreamFrame q f) (ietf_rst_bytes V e (ietf q IETF_RST_STREAM) f)"
    "decodes V e (ProcessIetfResetStreamFrame q) (tl (ietf_rst_bytes V e type f)) (f\<lparr>rst_error_code := rst_error_code f AND 0xFFFF\<rparr>)"
proof -
  show "encodes q V e (AppendIetfResetStreamFrame q f) (ietf_rst_bytes V e (ietf q IETF_RST_STREAM) f)"
    unfolding AppendIetfResetStreamFrame_def [abs_def] ietf_rst_bytes_def
    by (intro documented_encodes [OF d] encodes_done documented_state [OF d] stream_id_varint n)
  have "ucast (ucast (rst_error_code f) :: u16) = rst_error_code f AND mask 16"
    by (rule bit_word_eqI) (auto simp: bit_simps)
  then show "decodes V e (ProcessIetfResetStreamFrame q) (tl (ietf_rst_bytes V e type f)) (f\<lparr>rst_error_code := rst_error_code f AND 0xFFFF\<rparr>)"
    unfolding ProcessIetfResetStreamFrame_def [abs_def] ietf_rst_bytes_def
    by (simp del: append_Nil2) (intro documented_decodes [OF d] decodes_done n; simp add: mask_eq_exp_minus_1)
qed

text \<open>Frames that are a sequence of one or two variable-length integers, path frames, stop-sending.\<close>

definition id_offset_bytes :: "('r, 'w) view \<Rightarrow> u8 \<Rightarrow> QuicWindowUpdateFrame \<Rightarrow> bytes" where
  "id_offset_bytes V type f = [type] @ var_enc V (ucast (wu_stream_id f)) @ var_enc V (wu_byte_offset f) @ []"

definition varint_bytes :: "('r, 'w) view \<Rightarrow> u8 \<Rightarrow> u64 \<Rightarrow> bytes" where
  "varint_bytes V type v = [type] @ var_enc V v @ []"

definition path_bytes :: "u8 \<Rightarrow> QuicPathFrame \<Rightarrow> bytes" where
  "path_bytes type f = [type] @ pf_data_buffer f @ []"

definition stop_sending_bytes :: "('r, 'w) view \<Rightarrow> Endianness \<Rightarrow> u8 \<Rightarrow> QuicStopSendingFrame \<Rightarrow> bytes" where
  "stop_sending_bytes V e type f =
     [type] @ var_enc V (ucast (ss_stream_id f)) @ int_enc V e 2 (ucast (ss_application_error_code f)) @ []"

lemmas ietf_layouts = id_offset_bytes_def varint_bytes_def path_bytes_def stop_sending_bytes_def

lemma id_offset_io:
  assumes d: "documented q V" and n: "wu_byte_offset f < 2 ^ 62"
  shows "encodes q V e (AppendIetfMaxStreamDataFrame q f) (id_offset_bytes V (ietf q IETF_MAX_STREAM_DATA) f)"
    "encodes q V e (AppendIetfStreamBlockedFrame q f) (id_offset_bytes V (ietf q IETF_STREAM_BLOCKED) f)"
    "decodes V e (ProcessIetfMaxStreamDataFrame q) (tl (id_offset_bytes V type f)) f"
    "decodes V e (ProcessIetfStreamBlockedFrame q) (tl (id_offset_bytes V type f)) f"
  unfolding AppendIetfMaxStreamDataFrame_def [abs_def] AppendIetfStreamBlockedFrame_def [abs_def] ietf_layouts
    ProcessIetfMaxStreamDataFrame_def [abs_def] ProcessIetfStreamBlockedFrame_def [abs_def] append_Cons append_Nil list.sel
  by (intro documented_encodes [OF d, unfolded append_Cons append_Nil] encodes_done documented_state [OF d]
      documented_decodes [OF d] decodes_done stream_id_varint n; simp)+

lemma max_data_io:
  assumes d: "documented q V" and n: "wu_byte_offset f < 2 ^ 62"
  shows "encodes q V e (AppendIetfMaxDataFrame q f) (varint_bytes V (ietf q IETF_MAX_DATA) (wu_byte_offset f))"
    "decodes V e (ProcessIetfMaxDataFrame q) (tl (varint_bytes V type (wu_byte_offset f))) (f\<lparr>wu_stream_id := 0\<rparr>)"
  unfolding AppendIetfMaxDataFrame_def [abs_def] ProcessIetfMaxDataFrame_def [abs_def] ietf_layouts append_Cons append_Nil list.sel
  by (intro documented_encodes [OF d, unfolded append_Cons append_Nil] encodes_done documented_state [OF d]
      documented_decodes [OF d] decodes_done n; simp)+

lemma max_stream_id_io:
  assumes d: "documented q V"
  shows "encodes q V e (AppendIetfMaxStreamIdFrame q f) (varint_bytes V (ietf q IETF_MAX_STREAM_ID) (ucast (ms_max_stream_id f)))"
    "decodes V e (ProcessIetfMaxStreamIdFrame q) (tl (varint_bytes V type (ucast (ms_max_stream_id f)))) f"
  unfolding AppendIetfMaxStreamIdFrame_def [abs_def] ProcessIetfMaxStreamIdFrame_def [abs_def] ietf_layouts append_Cons append_Nil list.sel
  by (intro documented_encodes [OF d, unfolded append_Cons append_Nil] encodes_done documented_state [OF d]
      documented_decodes [OF d] decodes_done stream_id_varint; simp)+

lemma stream_id_blocked_io:
  assumes d: "documented q V"
  shows "encodes q V e (AppendIetfStreamIdBlockedFrame q f) (varint_bytes V (ietf q IETF_STREAM_ID_BLOCKED) (ucast (sb_stream_id f)))"
    "decodes V e (ProcessIetfStreamIdBlockedFrame q) (tl (varint_bytes V type (ucast (sb_stream_id f)))) f"
  unfolding AppendIetfStreamIdBlockedFrame_def [abs_def] ProcessIetfStreamIdBlockedFrame_def [abs_def] ietf_layouts append_Cons append_Nil list.sel
  by (intro documented_encodes [OF d, unfolded append_Cons append_Nil] encodes_done documented_state [OF d]
      documented_decodes [OF d] decodes_done stream_id_varint; simp)+

lemma ietf_blocked_io:
  assumes d: "documented q V" and n: "ib_offset f < 2 ^ 62"
  shows "encodes q V e (AppendIetfBlockedFrame q f) (varint_bytes V (ietf q IETF_BLOCKED) (ib_offset f))"
    "decodes V e (ProcessIetfBlockedFrame q) (tl (varint_bytes V type (ib_offset f))) f"
  unfolding AppendIetfBlockedFrame_def [abs_def] ProcessIetfBlockedFrame_def [abs_def] ietf_layouts append_Cons append_Nil list.sel
  by (intro documented_encodes [OF d, unfolded append_Cons append_Nil] encodes_done documented_state [OF d]
      documented_decodes [OF d] decodes_done n; simp)+

lemma stop_sending_io:
  assumes d: "documented q V"
  shows "encodes q V e (AppendIetfStopSendingFrame q f) (stop_sending_bytes V e (ietf q IETF_STOP_SENDING) f)"
    "decodes V e (ProcessIetfStopSendingFrame q) (tl (stop_sending_bytes V e type f)) f"
  unfolding AppendIetfStopSendingFrame_def [abs_def] ProcessIetfStopSendingFrame_def [abs_def] ietf_layouts append_Cons append_Nil list.sel
  by (intro documented_encodes [OF d, unfolded append_Cons append_Nil] encodes_done documented_state [OF d]
      documented_decodes [OF d] decodes_done stream_id_varint; simp)+

lemma path_io:
  assumes d: "documented q V" and n: "length (pf_data_buffer f) = 8"
  shows "encodes q V e (AppendIetfPathChallengeFrame q f) (path_bytes (ietf q IETF_PATH_CHALLENGE) f)"
    "encodes q V e (AppendIetfPathResponseFrame q f) (path_bytes (ietf q IETF_PATH_RESPONSE) f)"
    "decodes V e (ProcessIetfPathChallengeFrame q) (tl (path_bytes type f)) f"
    "decodes V e (ProcessIetfPathResponseFrame q) (tl (path_bytes type f)) f"
proof -
  have p: "peek (pf_data_buffer f) 0 (len q QuicPathFrameBufferSize) = Some (pf_data_buffer f)"
    using n by (simp add: peek_def documented_enums [OF d])
  have l: "length (pf_data_buffer f) = len q QuicPathFrameBufferSize" using n by (simp add: documented_enums [OF d])
  show "encodes q V e (AppendIetfPathChallengeFrame q f) (path_bytes (ietf q IETF_PATH_CHALLENGE) f)"
    "encodes q V e (AppendIetfPathResponseFrame q f) (path_bytes (ietf q IETF_PATH_RESPONSE) f)"
    unfolding AppendIetfPathChallengeFrame_def [abs_def] AppendIetfPathResponseFrame_def [abs_def] p Option.bind.simps ietf_layouts
    by (intro documented_encodes [OF d] encodes_done documented_state [OF d])+
  show "decodes V e (ProcessIetfPathChallengeFrame q) (tl (path_bytes type f)) f"
    "decodes V e (ProcessIetfPathResponseFrame q) (tl (path_bytes type f)) f"
    unfolding ProcessIetfPathChallengeFrame_def [abs_def] ProcessIetfPathResponseFrame_def [abs_def] ietf_layouts append_Cons append_Nil list.sel
    by (intro documented_decodes [OF d] decodes_done l; simp)+
qed

section \<open>Stream frames round trip\<close>

definition ietf_stream_bytes :: "('r, 'w) quic \<Rightarrow> ('r, 'w) view \<Rightarrow> QuicStreamFrame \<Rightarrow> bool \<Rightarrow> bytes" where
  "ietf_stream_bytes q V f nolen =
     [ietf_stream_type q f nolen] @ var_enc V (ucast (sf_stream_id f)) @
     (if sf_offset f \<noteq> 0 then var_enc V (sf_offset f) else []) @
     (if nolen then [] else var_enc V (of_nat (length (sf_data_buffer f)))) @ sf_data_buffer f @ []"

lemma ietf_stream_type_bits:
  assumes "documented q V"
  shows "ietf_stream_type q f nolen AND ietf q IETF_STREAM_FRAME_OFF_BIT \<noteq> 0 \<longleftrightarrow> sf_offset f \<noteq> 0"
    "ietf_stream_type q f nolen AND ietf q IETF_STREAM_FRAME_LEN_BIT \<noteq> 0 \<longleftrightarrow> \<not> nolen"
    "ietf_stream_type q f nolen AND ietf q IETF_STREAM_FRAME_FIN_BIT \<noteq> 0 \<longleftrightarrow> sf_fin f"
  unfolding ietf_stream_type_def Let_def documented_enums [OF assms]
  by (cases "sf_fin f"; cases "sf_offset f = 0"; cases nolen; simp)+

lemma wf_stream_facts:
  assumes "wf_stream f"
  shows "sf_data_length f = length (sf_data_buffer f)" "length (sf_data_buffer f) mod 2 ^ 16 = length (sf_data_buffer f)"
    "length (sf_data_buffer f) < 2 ^ 62" "\<not> of_nat (length (sf_data_buffer f)) > (0xffff :: u64)"
    "unat (of_nat (length (sf_data_buffer f)) :: u64) = length (sf_data_buffer f)"
    "peek (sf_data_buffer f) 0 (sf_data_length f) = Some (sf_data_buffer f)"
proof -
  from assms have l: "length (sf_data_buffer f) < 2 ^ 16" and eq: "sf_data_length f = length (sf_data_buffer f)"
    by (simp_all add: wf_stream_def)
  show "sf_data_length f = length (sf_data_buffer f)" by (fact eq)
  show "length (sf_data_buffer f) mod 2 ^ 16 = length (sf_data_buffer f)" using l by simp
  show l62: "length (sf_data_buffer f) < 2 ^ 62" using l by (rule less_trans) simp
  show "unat (of_nat (length (sf_data_buffer f)) :: u64) = length (sf_data_buffer f)" by (rule length_varint [OF l62])
  with l show "\<not> of_nat (length (sf_data_buffer f)) > (0xffff :: u64)" by (simp add: word_less_nat_alt)
  show "peek (sf_data_buffer f) 0 (sf_data_length f) = Some (sf_data_buffer f)" by (simp add: peek_def eq)
qed

lemma ietf_stream_encodes:
  assumes d: "documented q V" and f: "wf_stream f" and off: "sf_offset f < 2 ^ 62"
  shows "encodes q V e (AppendIetfStreamFrame q None f nolen) (ietf_stream_bytes q V f nolen)"
proof -
  note wf = wf_stream_facts [OF f]
  have s: "emits q V e Some []" using documented_state(2) [OF d] by (rule emits_nothing)
  have o: "emits q V e (\<lambda>w. if sf_offset f \<noteq> 0 then WriteVarInt62 q (sf_offset f) w else Some w)
      (if sf_offset f \<noteq> 0 then var_enc V (sf_offset f) else [])"
    by (rule emits_if [OF documented_writer(11) [OF d off] s])
  have l: "emits q V e (\<lambda>w. if \<not> nolen then WriteVarInt62 q (of_nat (length (sf_data_buffer f))) w else Some w)
      (if nolen then [] else var_enc V (of_nat (length (sf_data_buffer f))))"
    using documented_writer(11) [OF d length_varint(1) [OF wf(3)]] s by simp
  show ?thesis
    unfolding AppendIetfStreamFrame_def [abs_def] ietf_stream_bytes_def Let_def ietf_stream_type_bits [OF d] wf(1)
      wf(6) [unfolded wf(1)] option.case Option.bind.simps
    by (intro documented_encodes(1,8) [OF d] documented_encodes(11) [OF d stream_id_varint] encodes_wr [OF o]
        encodes_wr [OF l] encodes_done documented_state [OF d])
qed

lemma ietf_stream_decodes:
  assumes d: "documented q V" and f: "wf_stream f" and off: "sf_offset f < 2 ^ 62"
  shows "decodes V e (ProcessIetfStreamFrame q (ietf_stream_type q f False)) (tl (ietf_stream_bytes q V f False)) f"
proof -
  note wf = wf_stream_facts [OF f]
  have data: "decodes V e (\<lambda>r. rd m1 (ReadVarInt62 q r) (\<lambda>n r. if n > 0xffff then Inl m2
        else rd m3 (ReadStringPiece q (unat n) r) (\<lambda>data r. Inr (\<lparr>sf_stream_id = sf_stream_id f, sf_fin = sf_fin f,
          sf_offset = v, sf_data_length = length data mod 2 ^ 16, sf_data_buffer = data\<rparr>, r))))
      (var_enc V (of_nat (length (sf_data_buffer f))) @ sf_data_buffer f @ []) f" if "sf_offset f = v" for v m1 m2 m3
    by (intro documented_decodes(9) [OF d length_varint(1) [OF wf(3)]] decodes_if(2) documented_decodes(12) [OF d] decodes_done)
      (use wf that in simp_all)
  show ?thesis
  proof (cases "sf_offset f = 0")
    case True
    then show ?thesis
      unfolding ProcessIetfStreamFrame_def [abs_def] ietf_stream_bytes_def ietf_stream_type_bits [OF d] Let_def
      by (simp del: append_Nil2) (rule documented_decodes(6) [OF d], rule data)
  next
    case False
    then show ?thesis
      unfolding ProcessIetfStreamFrame_def [abs_def] ietf_stream_bytes_def ietf_stream_type_bits [OF d] Let_def
      by (simp del: append_Nil2) (rule documented_decodes(6) [OF d], rule documented_decodes(9) [OF d off], rule data [OF refl])
  qed
qed

lemma ietf_stream_decodes_last:
  assumes d: "documented q V" and f: "wf_stream f" and off: "sf_offset f < 2 ^ 62"
    and r: "rest V r = tl (ietf_stream_bytes q V f True)" "rorder V r = e"
  shows "\<exists>r'. ProcessIetfStreamFrame q (ietf_stream_type q f True) r = Inr (f, r') \<and> rest V r' = [] \<and> rorder V r' = e"
proof -
  note wf = wf_stream_facts [OF f]
  let ?o = "if sf_offset f \<noteq> 0 then var_enc V (sf_offset f) else []"
  from parsesD [OF documented_reader(6) [OF d] r(2), of "sf_stream_id f" "?o @ sf_data_buffer f"] r(1)
  obtain r1 where 1: "ReadVarIntStreamId q r = Some (sf_stream_id f, r1)" "rest V r1 = ?o @ sf_data_buffer f" "rorder V r1 = e"
    by (auto simp: ietf_stream_bytes_def)
  have data: "\<exists>r'. ReadStringPiece q (BytesRemaining q r2 mod 2 ^ 16) r2 = Some (sf_data_buffer f, r') \<and> rest V r' = [] \<and> rorder V r' = e"
    if "rest V r2 = sf_data_buffer f" "rorder V r2 = e" for r2
    using parsesD [OF documented_reader(12) [OF d refl] that(2), of "sf_data_buffer f" "[]"] that(1) wf(2)
    by (simp add: documented_state [OF d])
  show ?thesis
  proof (cases "sf_offset f = 0")
    case True
    with data [of r1] 1 wf show ?thesis
      by (auto simp: ProcessIetfStreamFrame_def Let_def ietf_stream_type_bits [OF d] rd_def)
  next
    case False
    with parsesD [OF documented_reader(9) [OF d off] 1(3), of "sf_data_buffer f"] 1(2)
    obtain r2 where "ReadVarInt62 q r1 = Some (sf_offset f, r2)" "rest V r2 = sf_data_buffer f" "rorder V r2 = e" by auto
    with data [of r2] 1 wf False show ?thesis
      by (auto simp: ProcessIetfStreamFrame_def Let_def ietf_stream_type_bits [OF d] rd_def)
  qed
qed

section \<open>Properties of the IETF frames\<close>

text \<open>
  C40: IETF stream frames. A frame that carries its data (up to 65535 bytes, offset below \<open>2 ^ 62\<close>) is
  written when it fits in the packet and refused otherwise; given the type byte, the reader gets the
  same frame back and stops at its end, and without a length field it does so when the frame is the
  last one of the packet.
\<close>

theorem ietf_stream_frame_round_trip:
  assumes "documented q V" and "wf_stream f" and "sf_offset f < 2 ^ 62"
  shows "encodes q V e (AppendIetfStreamFrame q None f nolen) (ietf_stream_bytes q V f nolen) \<and>
     hd (ietf_stream_bytes q V f nolen) = ietf_stream_type q f nolen \<and>
     decodes V e (ProcessIetfStreamFrame q (ietf_stream_type q f False)) (tl (ietf_stream_bytes q V f False)) f \<and>
     (rest V r = tl (ietf_stream_bytes q V f True) \<and> rorder V r = e \<longrightarrow>
        (\<exists>r'. ProcessIetfStreamFrame q (ietf_stream_type q f True) r = Inr (f, r') \<and> rest V r' = [] \<and> rorder V r' = e))"
  using ietf_stream_encodes [OF assms] ietf_stream_decodes [OF assms] ietf_stream_decodes_last [OF assms]
  by (simp add: ietf_stream_bytes_def)

theorem ietf_stream_frame_round_trip_witness:
  "let f = \<lparr>sf_stream_id = 5, sf_fin = True, sf_offset = 3, sf_data_length = 2, sf_data_buffer = [7, 8]\<rparr>;
       r = (tl (ietf_stream_bytes demo demo_view f True), NETWORK_BYTE_ORDER)
   in \<exists>r'. ProcessIetfStreamFrame demo (ietf_stream_type demo f True) r = Inr (f, r') \<and> rest demo_view r' = []"
  using ietf_stream_frame_round_trip [OF demo_documented,
      of "\<lparr>sf_stream_id = 5, sf_fin = True, sf_offset = 3, sf_data_length = 2, sf_data_buffer = [7, 8]\<rparr>"
      NETWORK_BYTE_ORDER True "(tl (ietf_stream_bytes demo demo_view
        \<lparr>sf_stream_id = 5, sf_fin = True, sf_offset = 3, sf_data_length = 2, sf_data_buffer = [7, 8]\<rparr> True), NETWORK_BYTE_ORDER)"]
  by (auto simp: wf_stream_def Let_def demo_view_def)

text \<open>
  IETF close frames. Both kinds are written with their own type byte and read back, the error
  code cut to its 16-bit field and the phrase of any length intact.
\<close>

theorem ietf_close_frame_round_trip:
  assumes "documented q V" and "length (cc_error_details f) < 2 ^ 62"
  shows "encodes q V e (AppendIetfConnectionCloseFrame q f) (ietf_close_bytes V e (ietf q IETF_CONNECTION_CLOSE) f) \<and>
     encodes q V e (AppendIetfApplicationCloseFrame q f) (ietf_close_bytes V e (ietf q IETF_APPLICATION_CLOSE) f) \<and>
     decodes V e (ProcessIetfConnectionCloseFrame q type) (tl (ietf_close_bytes V e type f))
       (f\<lparr>cc_error_code := cc_error_code f AND 0xFFFF\<rparr>) \<and>
     decodes V e (ProcessIetfApplicationCloseFrame q type) (tl (ietf_close_bytes V e type f))
       (f\<lparr>cc_error_code := cc_error_code f AND 0xFFFF\<rparr>)"
  using ietf_close_encodes [OF assms] ietf_close_decodes [OF assms]
  by (simp add: AppendIetfConnectionCloseFrame_def [abs_def] AppendIetfApplicationCloseFrame_def [abs_def]
      ProcessIetfConnectionCloseFrame_def [abs_def] ProcessIetfApplicationCloseFrame_def [abs_def])

theorem ietf_close_frame_round_trip_witness:
  "decodes demo_view NETWORK_BYTE_ORDER (ProcessIetfConnectionCloseFrame demo 2)
     (tl (ietf_close_bytes demo_view NETWORK_BYTE_ORDER 2 \<lparr>cc_error_code = 0x10005, cc_error_details = [1, 2]\<rparr>))
     \<lparr>cc_error_code = 5, cc_error_details = [1, 2]\<rparr>"
  using ietf_close_frame_round_trip [OF demo_documented, of "\<lparr>cc_error_code = 0x10005, cc_error_details = [1, 2]\<rparr>"]
  by simp

text \<open>
  The other IETF frames. Reset, stop-sending, max-data, max-stream-data, max-stream-id, blocked,
  stream-blocked, stream-id-blocked and the two path frames are each written with their type byte in
  front of the layout that their process function reads back, offsets below \<open>2 ^ 62\<close> exactly and the
  reset's error code cut to 16 bits.
\<close>

theorem ietf_control_frames_round_trip:
  assumes "documented q V" and "rst_byte_offset rst < 2 ^ 62" and "wu_byte_offset wu < 2 ^ 62"
    and "ib_offset bl < 2 ^ 62" and "length (pf_data_buffer pf) = 8"
  shows "(encodes q V e (AppendIetfResetStreamFrame q rst) (ietf_rst_bytes V e (ietf q IETF_RST_STREAM) rst) \<and>
      decodes V e (ProcessIetfResetStreamFrame q) (tl (ietf_rst_bytes V e type rst))
        (rst\<lparr>rst_error_code := rst_error_code rst AND 0xFFFF\<rparr>)) \<and>
     (encodes q V e (AppendIetfStopSendingFrame q ss) (stop_sending_bytes V e (ietf q IETF_STOP_SENDING) ss) \<and>
      decodes V e (ProcessIetfStopSendingFrame q) (tl (stop_sending_bytes V e type ss)) ss) \<and>
     (encodes q V e (AppendIetfMaxDataFrame q wu) (varint_bytes V (ietf q IETF_MAX_DATA) (wu_byte_offset wu)) \<and>
      decodes V e (ProcessIetfMaxDataFrame q) (tl (varint_bytes V type (wu_byte_offset wu))) (wu\<lparr>wu_stream_id := 0\<rparr>)) \<and>
     (encodes q V e (AppendIetfMaxStreamDataFrame q wu) (id_offset_bytes V (ietf q IETF_MAX_STREAM_DATA) wu) \<and>
      decodes V e (ProcessIetfMaxStreamDataFrame q) (tl (id_offset_bytes V type wu)) wu) \<and>
     (encodes q V e (AppendIetfStreamBlockedFrame q wu) (id_offset_bytes V (ietf q IETF_STREAM_BLOCKED) wu) \<and>
      decodes V e (ProcessIetfStreamBlockedFrame q) (tl (id_offset_bytes V type wu)) wu) \<and>
     (encodes q V e (AppendIetfMaxStreamIdFrame q ms) (varint_bytes V (ietf q IETF_MAX_STREAM_ID) (ucast (ms_max_stream_id ms))) \<and>
      decodes V e (ProcessIetfMaxStreamIdFrame q) (tl (varint_bytes V type (ucast (ms_max_stream_id ms)))) ms) \<and>
     (encodes q V e (AppendIetfBlockedFrame q bl) (varint_bytes V (ietf q IETF_BLOCKED) (ib_offset bl)) \<and>
      decodes V e (ProcessIetfBlockedFrame q) (tl (varint_bytes V type (ib_offset bl))) bl) \<and>
     (encodes q V e (AppendIetfStreamIdBlockedFrame q sb) (varint_bytes V (ietf q IETF_STREAM_ID_BLOCKED) (ucast (sb_stream_id sb))) \<and>
      decodes V e (ProcessIetfStreamIdBlockedFrame q) (tl (varint_bytes V type (ucast (sb_stream_id sb)))) sb) \<and>
     (encodes q V e (AppendIetfPathChallengeFrame q pf) (path_bytes (ietf q IETF_PATH_CHALLENGE) pf) \<and>
      decodes V e (ProcessIetfPathChallengeFrame q) (tl (path_bytes type pf)) pf) \<and>
     (encodes q V e (AppendIetfPathResponseFrame q pf) (path_bytes (ietf q IETF_PATH_RESPONSE) pf) \<and>
      decodes V e (ProcessIetfPathResponseFrame q) (tl (path_bytes type pf)) pf)"
  by (intro conjI ietf_rst_io stop_sending_io max_data_io id_offset_io max_stream_id_io ietf_blocked_io
      stream_id_blocked_io path_io assms)

theorem ietf_control_frames_round_trip_witness:
  "decodes demo_view NETWORK_BYTE_ORDER (ProcessIetfMaxStreamDataFrame demo)
     (tl (id_offset_bytes demo_view 1 \<lparr>wu_stream_id = 5, wu_byte_offset = 9\<rparr>)) \<lparr>wu_stream_id = 5, wu_byte_offset = 9\<rparr>"
  using ietf_control_frames_round_trip [OF demo_documented,
      of "\<lparr>rst_stream_id = 1, rst_error_code = 2, rst_byte_offset = 3\<rparr>" "\<lparr>wu_stream_id = 5, wu_byte_offset = 9\<rparr>"
      "\<lparr>ib_offset = 4\<rparr>" "\<lparr>pf_data_buffer = [1, 2, 3, 4, 5, 6, 7, 8]\<rparr>" NETWORK_BYTE_ORDER 1]
  by (simp add: word_less_nat_alt)

end
