(* ===== verification/Ack_Proofs.thy ===== *)
theory Ack_Proofs
  imports Framer_Ack Framer_Ietf
begin

text \<open>
  Correctness of ack frames. The writer's loops are shown equal to a list of (gap, length) blocks, the
  reader's loop to the ranges those blocks stand for, and the two compositions to be inverse; the buffer
  arithmetic shows how many blocks are written. The properties state what a receiver gets from a
  written frame in both processing modes and both formats.
\<close>

section \<open>Blocks\<close>

text \<open>The blocks of a descending list of intervals below \<open>previous_start\<close>, and their bytes.\<close>

fun block_list :: "u64 \<Rightarrow> (u64 \<times> u64) list \<Rightarrow> (u8 \<times> u64) list" where
  "block_list previous_start [] = []"
| "block_list previous_start ((lo, hi) # itr) =
     replicate (unat (num_encoded_gaps (previous_start - hi)) - 1) (255, 0) @
     (ucast (previous_start - hi - (num_encoded_gaps (previous_start - hi) - 1) * 255), hi - lo) # block_list lo itr"

definition block_bytes :: "('r, 'w) view \<Rightarrow> Endianness \<Rightarrow> nat \<Rightarrow> u8 \<times> u64 \<Rightarrow> bytes" where
  "block_bytes V e n b = [fst b] @ int_enc V e n (snd b)"

fun write_blocks :: "('r, 'w) quic \<Rightarrow> nat \<Rightarrow> (u8 \<times> u64) list \<Rightarrow> 'w \<Rightarrow> 'w option" where
  "write_blocks q n [] w = Some w"
| "write_blocks q n (b # bs) w = Option.bind (AppendAckBlock q (fst b) n (snd b) w) (write_blocks q n bs)"

lemma write_blocks_append: "write_blocks q n (xs @ ys) w = Option.bind (write_blocks q n xs w) (write_blocks q n ys)"
proof (induction xs arbitrary: w)
  case (Cons b xs)
  then show ?case by (cases "AppendAckBlock q (fst b) n (snd b) w") simp_all
qed simp

lemma write_blocks_emits:
  assumes d: "documented q V" and n: "n \<in> {1, 2, 4, 6, 8}"
  shows "emits q V e (write_blocks q n bs) (concat (map (block_bytes V e n) bs))"
proof (induction bs)
  case Nil
  have "write_blocks q n [] = Some" by (rule ext) simp
  then show ?case using emits_nothing [of q, OF documented_state(2) [OF d]] by simp
next
  case (Cons b bs)
  have "emits q V e (AppendAckBlock q (fst b) n (snd b)) (block_bytes V e n b)"
    unfolding AppendAckBlock_def [abs_def] block_bytes_def
    by (intro emits_bind documented_writer [OF d] packet_number_emits [OF d n])
  moreover have "write_blocks q n (b # bs) = (\<lambda>w. Option.bind (AppendAckBlock q (fst b) n (snd b) w) (write_blocks q n bs))"
    by (rule ext) simp
  ultimately show ?case using emits_bind Cons.IH by fastforce
qed

lemma append_empty_blocks_eq:
  "append_empty_blocks q n num k written_so_far w =
     map_option (Pair (written_so_far + min k (num - written_so_far)))
       (write_blocks q n (replicate (min k (num - written_so_far)) (255, 0)) w)"
proof (induction k arbitrary: written_so_far w)
  case 0
  then show ?case by simp
next
  case (Suc k)
  show ?case
  proof (cases "written_so_far < num")
    case True
    then have "min (Suc k) (num - written_so_far) = Suc (min k (num - (written_so_far + 1)))" by auto
    with True Suc show ?thesis by (cases "AppendAckBlock q 255 n 0 w") simp_all
  qed simp
qed

lemma append_ack_blocks_eq:
  "append_ack_blocks q n num previous_start itr k w = write_blocks q n (take (num - k) (block_list previous_start itr)) w"
proof (induction itr arbitrary: previous_start k w)
  case Nil
  then show ?case by simp
next
  case (Cons i itr)
  obtain lo hi where i: "i = (lo, hi)" by force
  let ?m = "unat (num_encoded_gaps (previous_start - hi)) - 1"
  show ?case
  proof (cases "num - k \<le> ?m")
    case True
    then have m: "min ?m (num - k) = num - k" by simp
    show ?thesis using True
      by (cases "k < num"; cases "write_blocks q n (replicate (num - k) (255, 0)) w")
        (simp_all add: i Let_def append_empty_blocks_eq m take_Cons' min_def)
  next
    case False
    then have m: "min ?m (num - k) = ?m" by simp
    show ?thesis using False
      by (auto simp: i Let_def append_empty_blocks_eq m take_Cons' Cons.IH write_blocks_append min_def not_le
          split: option.splits bind_splits)
  qed
qed

section \<open>Ranges\<close>

text \<open>What a reader makes of blocks below \<open>first_received\<close>: the ranges, each with the flag \<open>last_range\<close>.\<close>

fun ranges_of :: "u64 \<Rightarrow> (u8 \<times> u64) list \<Rightarrow> (u64 \<times> u64 \<times> bool) list" where
  "ranges_of first_received [] = []"
| "ranges_of first_received ((g, n) # bs) =
     (let first_received = first_received - (ucast g + n) in
      (if n > 0 then [(first_received, first_received + n, bs = [])] else []) @ ranges_of first_received bs)"

fun blocks_ok :: "u64 \<Rightarrow> (u8 \<times> u64) list \<Rightarrow> bool" where
  "blocks_ok first_received [] = True"
| "blocks_ok first_received ((g, n) # bs) \<longleftrightarrow>
     ucast g + n \<le> first_received \<and> blocks_ok (first_received - (ucast g + n)) bs"

text \<open>Non-empty intervals, separated, from the highest down, all below \<open>previous_start\<close>.\<close>

fun descending :: "u64 \<Rightarrow> (u64 \<times> u64) list \<Rightarrow> bool" where
  "descending previous_start [] = True"
| "descending previous_start ((lo, hi) # itr) \<longleftrightarrow> lo < hi \<and> hi < previous_start \<and> descending lo itr"

lemma gap_split:
  fixes g :: u64
  assumes "g > 0" and "unat g < 2 ^ 63"
  defines "n \<equiv> (unat g + 254) div 255"
  shows "unat (num_encoded_gaps g) = n" "0 < n" "unat (g - (num_encoded_gaps g - 1) * 255) = unat g - (n - 1) * 255"
    "unat g - (n - 1) * 255 < 256" "255 * (n - 1) < unat g"
proof -
  have g0: "0 < unat g" using assms(1) by (simp add: word_less_nat_alt)
  have 1: "unat (g + 255 - 1) = unat g + 254"
    using assms(2) by (simp add: unat_word_ariths unat_sub_if_size word_size)
  then show n: "unat (num_encoded_gaps g) = n" by (simp add: num_encoded_gaps_def n_def unat_div)
  show n0: "0 < n" using g0 by (simp add: n_def)
  have le: "255 * (n - 1) < unat g" "unat g \<le> 255 * n" using g0 unfolding n_def by linarith+
  then show "255 * (n - 1) < unat g" by simp
  show "unat g - (n - 1) * 255 < 256" using le by simp
  define m where "m = num_encoded_gaps g - 1"
  have "unat m = n - 1" using n n0 by (simp add: m_def unat_sub_if_size word_size)
  with le(1) assms(2) have "unat (m * 255) = (n - 1) * 255" by (simp add: unat_word_ariths)
  with le(1) show "unat (g - (num_encoded_gaps g - 1) * 255) = unat g - (n - 1) * 255"
    unfolding m_def [symmetric] by (simp add: unat_sub_if_size word_size)
qed

lemma byte_back:
  fixes x :: u64
  assumes "unat x < 256"
  shows "ucast (ucast x :: u8) = x"
proof -
  have "ucast (ucast x :: u8) = take_bit 8 x" by (rule bit_word_eqI) (auto simp: bit_simps)
  also have "\<dots> = x" using assms by (simp add: word_unat_eq_iff unsigned_take_bit_eq take_bit_nat_eq_self)
  finally show ?thesis .
qed

lemma ranges_of_empty:
  "255 * k \<le> unat p \<Longrightarrow>
   \<exists>p'. unat p' = unat p - 255 * k \<and> ranges_of p (replicate k (255, 0) @ bs) = ranges_of p' bs \<and>
        (blocks_ok p (replicate k (255, 0) @ bs) \<longleftrightarrow> blocks_ok p' bs)"
proof (induction k arbitrary: p)
  case 0
  show ?case by (rule exI [of _ p]) simp
next
  case (Suc k)
  have u: "unat (p - 255) = unat p - 255" using Suc.prems by (simp add: unat_sub_if_size word_size)
  with Suc.prems have "255 * k \<le> unat (p - 255)" by simp
  from Suc.IH [OF this] obtain p' where
    "unat p' = unat (p - 255) - 255 * k" "ranges_of (p - 255) (replicate k (255, 0) @ bs) = ranges_of p' bs"
    "blocks_ok (p - 255) (replicate k (255, 0) @ bs) \<longleftrightarrow> blocks_ok p' bs" by auto
  moreover have "255 \<le> p" using Suc.prems by (simp add: word_le_nat_alt)
  ultimately show ?case using u by (intro exI [of _ p']) simp
qed

text \<open>The blocks of one interval lead from the start of the previous one to its own start.\<close>

lemma interval_blocks:
  fixes rs :: "(u8 \<times> u64) list" and lo hi p :: u64
  assumes "lo < hi" and "hi < p" and "unat p < 2 ^ 63"
  defines "bs \<equiv> (ucast (p - hi - (num_encoded_gaps (p - hi) - 1) * 255), hi - lo) # rs"
    and "k \<equiv> unat (num_encoded_gaps (p - hi)) - 1"
  shows "ranges_of p (replicate k (255, 0) @ bs) = (lo, hi, rs = []) # ranges_of lo rs"
    "blocks_ok p (replicate k (255, 0) @ bs) \<longleftrightarrow> blocks_ok lo rs"
    "m \<le> k \<Longrightarrow> ranges_of p (replicate m (255, 0)) = [] \<and> blocks_ok p (replicate m (255, 0))"
proof -
  let ?g = "p - hi"
  have u: "unat ?g = unat p - unat hi" "unat lo < unat hi" "unat hi < unat p"
    using assms(1,2) by (simp_all add: unat_minus_le word_less_nat_alt word_le_nat_alt)
  have g: "?g > 0" "unat ?g < 2 ^ 63" using u assms(3) by (simp_all add: word_less_nat_alt)
  note s = gap_split [OF g]
  have k: "k = (unat ?g + 254) div 255 - 1" unfolding k_def s(1) ..
  have le: "255 * k \<le> unat p" "255 * k < unat ?g" using s(5) u unfolding k by auto
  define l where "l = ?g - (num_encoded_gaps ?g - 1) * 255"
  define n where "n = hi - lo"
  have l: "unat l = unat ?g - 255 * k" "unat l < 256" using s(3,4) unfolding k l_def by (simp_all add: mult.commute)
  have n: "unat n = unat hi - unat lo" "n > 0" using u(2) by (simp_all add: n_def unat_minus_le word_le_nat_alt word_less_nat_alt)
  have bs: "bs = (ucast l, n) # rs" by (simp only: bs_def l_def n_def)
  have c: "ucast (ucast l :: u8) = l" by (rule byte_back [OF l(2)])
  from ranges_of_empty [OF le(1), of bs] obtain p' where p': "unat p' = unat p - 255 * k"
    "ranges_of p (replicate k (255, 0) @ bs) = ranges_of p' bs" "blocks_ok p (replicate k (255, 0) @ bs) \<longleftrightarrow> blocks_ok p' bs" by auto
  have "unat l + unat n = unat p' - unat lo" using l(1) p'(1) u le(2) n(1) by linarith
  moreover have "unat l + unat n < 2 ^ 64" using l(2) n(1) u assms(3) by simp
  ultimately have "unat (l + n) = unat p' - unat lo" by (simp add: unat_word_ariths)
  moreover have "unat lo \<le> unat p'" using p'(1) u le by linarith
  ultimately have first: "p' - (l + n) = lo" "l + n \<le> p'"
    by (simp_all add: word_unat_eq_iff unat_minus_le word_le_nat_alt)
  have "lo + n = hi" by (simp add: n_def)
  then show "ranges_of p (replicate k (255, 0) @ bs) = (lo, hi, rs = []) # ranges_of lo rs"
    unfolding p' by (simp add: bs c first n(2) Let_def)
  show "blocks_ok p (replicate k (255, 0) @ bs) \<longleftrightarrow> blocks_ok lo rs"
    unfolding p' by (simp add: bs c first)
  show "m \<le> k \<Longrightarrow> ranges_of p (replicate m (255, 0)) = [] \<and> blocks_ok p (replicate m (255, 0))"
    using ranges_of_empty [of m p "[]"] le(1) by auto
qed

text \<open>Any number of leading blocks is read as a list of leading intervals; all of them as all intervals.\<close>

fun with_last_flag :: "(u64 \<times> u64) list \<Rightarrow> (u64 \<times> u64 \<times> bool) list" where
  "with_last_flag [] = []"
| "with_last_flag ((lo, hi) # ps) = (lo, hi, ps = []) # with_last_flag ps"

lemma ranges_of_block_list:
  "descending p ps \<Longrightarrow> unat p < 2 ^ 63 \<Longrightarrow> ranges_of p (block_list p ps) = with_last_flag ps \<and> blocks_ok p (block_list p ps)"
proof (induction ps arbitrary: p)
  case (Cons i ps)
  obtain lo hi where i: "i = (lo, hi)" by force
  have b: "block_list lo ps = [] \<longleftrightarrow> ps = []" by (cases ps) auto
  from Cons.prems i have *: "lo < hi" "hi < p" "unat p < 2 ^ 63" "descending lo ps" by auto
  then have "unat lo < 2 ^ 63" by (simp add: word_less_nat_alt)
  with Cons.IH [of lo] * interval_blocks(1,2) [OF *(1,2,3), of "block_list lo ps"] show ?case by (simp add: i b)
qed simp

lemma ranges_of_take:
  "descending p ps \<Longrightarrow> unat p < 2 ^ 63 \<Longrightarrow>
   \<exists>m \<le> length ps. map (\<lambda>(lo, hi, b). (lo, hi)) (ranges_of p (take n (block_list p ps))) = take m ps \<and> blocks_ok p (take n (block_list p ps))"
proof (induction ps arbitrary: p n)
  case (Cons i ps)
  obtain lo hi where i: "i = (lo, hi)" by force
  let ?k = "unat (num_encoded_gaps (p - hi)) - 1"
  from Cons.prems i have *: "lo < hi" "hi < p" "unat p < 2 ^ 63" "descending lo ps" by auto
  then have lo: "unat lo < 2 ^ 63" by (simp add: word_less_nat_alt)
  show ?case
  proof (cases "n \<le> ?k")
    case True
    then have "take n (block_list p (i # ps)) = replicate n (255, 0)" by (simp add: i min_def)
    with interval_blocks(3) [OF *(1,2,3) True] show ?thesis by (intro exI [of _ 0]) simp
  next
    case False
    from Cons.IH [OF *(4) lo, of "n - ?k - 1"] obtain m where m: "m \<le> length ps"
      "map (\<lambda>(lo, hi, b). (lo, hi)) (ranges_of lo (take (n - ?k - 1) (block_list lo ps))) = take m ps"
      "blocks_ok lo (take (n - ?k - 1) (block_list lo ps))" by auto
    have "take n (block_list p (i # ps)) = replicate ?k (255, 0) @
        (ucast (p - hi - (num_encoded_gaps (p - hi) - 1) * 255), hi - lo) # take (n - ?k - 1) (block_list lo ps)"
      using False by (simp add: i take_Cons')
    with interval_blocks(1,2) [OF *(1,2,3), of "take (n - ?k - 1) (block_list lo ps)"] m show ?thesis
      by (intro exI [of _ "Suc m"]) (simp add: i)
  qed
qed simp

section \<open>The number of blocks and the length of a block\<close>

lemma ack_info_loop_first [simp]: "first_block_length (ack_info_loop p ps info) = first_block_length info"
  by (induction p ps info rule: ack_info_loop.induct) simp_all

lemma ack_info_loop_blocks:
  assumes "descending p ps" and "unat p < 2 ^ 63"
  shows "num_ack_blocks info \<le> num_ack_blocks (ack_info_loop p ps info) \<and>
     num_ack_blocks (ack_info_loop p ps info) \<le> num_ack_blocks info + length (block_list p ps) \<and>
     (num_ack_blocks (ack_info_loop p ps info) = num_ack_blocks info + length (block_list p ps) \<or>
      255 \<le> num_ack_blocks (ack_info_loop p ps info)) \<and>
     max_block_length info \<le> max_block_length (ack_info_loop p ps info) \<and>
     (\<forall>b \<in> set (take (255 - num_ack_blocks info) (block_list p ps)). snd b \<le> max_block_length (ack_info_loop p ps info))"
  using assms
proof (induction p ps info rule: ack_info_loop.induct)
  case (2 p lo hi itr info)
  let ?n = "unat (num_encoded_gaps (p - hi))"
  let ?info = "info\<lparr>num_ack_blocks := num_ack_blocks info + ?n, max_block_length := max (max_block_length info) (hi - lo)\<rparr>"
  from 2(2,3) have *: "lo < hi" "hi < p" "descending lo itr" "unat p < 2 ^ 63" by auto
  then have lo: "unat lo < 2 ^ 63" by (simp add: word_less_nat_alt)
  have "p - hi > 0" "unat (p - hi) < 2 ^ 63"
    using * by (simp_all add: word_less_nat_alt unat_minus_le word_le_nat_alt)
  from gap_split(1,2) [OF this] have n: "0 < ?n" by simp
  then have len: "length (block_list p ((lo, hi) # itr)) = ?n + length (block_list lo itr)" by simp
  have sub: "set (take k (block_list p ((lo, hi) # itr))) \<subseteq>
      {(255, 0), (ucast (p - hi - (num_encoded_gaps (p - hi) - 1) * 255), hi - lo)} \<union> set (take (k - ?n) (block_list lo itr))" for k
    using n by (auto simp: take_Cons' split: if_splits)
  show ?case
  proof (cases "num_ack_blocks info < 255")
    case True
    note IH = 2(1) [OF True *(3) lo]
    from True have eq: "ack_info_loop p ((lo, hi) # itr) info = ack_info_loop lo itr ?info" by simp
    from IH sub [of "255 - num_ack_blocks info"] show ?thesis
      unfolding eq len by (auto simp: max_def split: if_splits)
  next
    case False
    then show ?thesis by simp
  qed
qed simp

section \<open>Reading the blocks\<close>

definition reads ::
  "('r, 'w) view \<Rightarrow> Endianness \<Rightarrow> ('r \<Rightarrow> 's \<Rightarrow> (string + 'a \<times> 'r) \<times> 's) \<Rightarrow> bytes \<Rightarrow> 's \<Rightarrow> 'a \<Rightarrow> 's \<Rightarrow> bool" where
  "reads V e g bs s v s' \<longleftrightarrow>
     (\<forall>r left. rorder V r = e \<longrightarrow> rest V r = bs @ left \<longrightarrow>
        (\<exists>r'. g r s = (Inr (v, r'), s') \<and> rest V r' = left \<and> rorder V r' = e))"

lemma reads_rds:
  assumes "parses V e g xs v" and "reads V e (k v) ys s w s'"
  shows "reads V e (\<lambda>r. rds msg (g r) k) (xs @ ys) s w s'"
  unfolding reads_def
proof (intro allI impI)
  fix r left
  assume r: "rorder V r = e" "rest V r = (xs @ ys) @ left"
  then obtain r1 where 1: "g r = Some (v, r1)" "rest V r1 = ys @ left" "rorder V r1 = e"
    using parsesD [OF assms(1), of r "ys @ left"] by auto
  with assms(2) show "\<exists>r'. rds msg (g r) k s = (Inr (w, r'), s') \<and> rest V r' = left \<and> rorder V r' = e"
    by (auto simp: rds_def reads_def)
qed

lemma reads_skip:
  assumes "reads V e (k v) ys s w s'"
  shows "reads V e (\<lambda>r. rds msg (Some (v, r)) k) ys s w s'"
  using assms by (simp add: rds_def reads_def)

lemma reads_done: "v = w \<Longrightarrow> s = s' \<Longrightarrow> reads V e (\<lambda>r s. (Inr (v, r), s)) [] s w s'"
  by (simp add: reads_def)

lemma reads_then:
  assumes "reads V e f xs s v s1" and "reads V e (g v) ys s1 w s'"
  shows "reads V e (\<lambda>r s. case f r s of (Inl msg, s) \<Rightarrow> (Inl msg, s) | (Inr (v, r), s) \<Rightarrow> g v r s) (xs @ ys) s w s'"
  unfolding reads_def
proof (intro allI impI)
  fix r left
  assume r: "rorder V r = e" "rest V r = (xs @ ys) @ left"
  with assms(1) obtain r1 where "f r s = (Inr (v, r1), s1)" "rest V r1 = ys @ left" "rorder V r1 = e"
    unfolding reads_def by (metis append.assoc)
  with assms(2) show "\<exists>r'. (case f r s of (Inl msg, s) \<Rightarrow> (Inl msg, s) | (Inr (v, r), s) \<Rightarrow> g v r s) = (Inr (w, r'), s') \<and>
      rest V r' = left \<and> rorder V r' = e"
    by (auto simp: reads_def)
qed

text \<open>The ranges go to an accepting visitor or into the frame.\<close>

definition accepting :: "'v ack_visitor \<Rightarrow> bool" where
  "accepting visitor \<longleftrightarrow> (\<forall>lo hi b v. fst (OnAckRange visitor lo hi b v)) \<and> (\<forall>l d v. fst (OnAckFrameStart visitor l d v))"

fun deliver ::
  "('r, 'w) quic \<Rightarrow> 'v ack_visitor \<Rightarrow> bool \<Rightarrow> (u64 \<times> u64 \<times> bool) list \<Rightarrow> QuicAckFrame \<times> 'v ack_state \<Rightarrow> QuicAckFrame \<times> 'v ack_state" where
  "deliver q visitor incremental [] x = x"
| "deliver q visitor incremental ((lo, hi, b) # rs) (ack, s) =
     deliver q visitor incremental rs
       (if incremental then (ack, (snd (OnAckRange visitor lo hi b (fst s)), snd s))
        else (ack\<lparr>ack_packets := AddRange q lo hi (ack_packets ack)\<rparr>, s))"

lemma add_ack_range_accepted:
  assumes "incremental \<longrightarrow> accepting visitor"
  shows "add_ack_range q visitor incremental lo hi b ack k s =
     (case deliver q visitor incremental [(lo, hi, b)] (ack, s) of (ack', s') \<Rightarrow> k ack' s')"
proof (cases incremental)
  case True
  with assms have "fst (OnAckRange visitor lo hi b (fst s))" by (simp add: accepting_def)
  with True show ?thesis by (auto simp: add_ack_range_def split: prod.splits)
qed (simp add: add_ack_range_def)

lemma process_ack_blocks_reads:
  assumes d: "documented q V" and n: "n \<le> 8" and v: "incremental \<longrightarrow> accepting visitor"
  shows "blocks_ok first bs \<Longrightarrow> \<forall>b \<in> set bs. unat (snd b) < 2 ^ (8 * n) \<Longrightarrow>
     deliver q visitor incremental (ranges_of first bs) (ack, s) = (ack', s') \<Longrightarrow>
     reads V e (process_ack_blocks q visitor incremental n (length bs) first ack) (concat (map (block_bytes V e n) bs)) s ack' s'"
proof (induction bs arbitrary: first ack s)
  case Nil
  then show ?case by (simp add: reads_def)
next
  case (Cons b bs)
  obtain g m where b: "b = (g, m)" by force
  let ?first = "first - (ucast g + m)"
  from Cons.prems b have ok: "ucast g + m \<le> first" "blocks_ok ?first bs" and m: "unat m < 2 ^ (8 * n)"
    and bs: "\<forall>b \<in> set bs. unat (snd b) < 2 ^ (8 * n)" by auto
  have step: "reads V e (\<lambda>r s. if first < ucast g + m then (Inl (msg m), s)
      else let first_received = ?first in
        if m > 0
        then add_ack_range q visitor incremental first_received (first_received + m) (length bs = 0) ack
              (\<lambda>ack. process_ack_blocks q visitor incremental n (length bs) first_received ack r) s
        else process_ack_blocks q visitor incremental n (length bs) first_received ack r s)
      (concat (map (block_bytes V e n) bs)) s ack' s'" for msg
  proof (cases "m > 0")
    case True
    let ?d = "deliver q visitor incremental [(?first, ?first + m, bs = [])] (ack, s)"
    from True Cons.prems(3) b have "deliver q visitor incremental (ranges_of ?first bs) (fst ?d, snd ?d) = (ack', s')"
      by (simp add: Let_def)
    from Cons.IH [OF ok(2) bs this] True ok show ?thesis
      by (auto simp: reads_def add_ack_range_accepted [OF v] split_beta Let_def)
  next
    case False
    with Cons.prems(3) b have "deliver q visitor incremental (ranges_of ?first bs) (ack, s) = (ack', s')"
      by (simp add: Let_def)
    from Cons.IH [OF ok(2) bs this] False leD [OF ok(1)] show ?thesis by (simp add: reads_def Let_def)
  qed
  have "process_ack_blocks q visitor incremental n (length (b # bs)) first ack =
      (\<lambda>r. rds ''Unable to read gap to next ack block.'' (ReadUInt8 q r) (\<lambda>gap r.
           rds ''Unable to ack block length.'' (ReadBytesToUInt64 q n r) (\<lambda>current_block_length r s.
           if first < ucast gap + current_block_length
           then (Inl (''Underflow with ack block length '' @ dec current_block_length @ '', end of block is '' @
                      dec (first - ucast gap) @ ''.''), s)
           else let first_received = first - (ucast gap + current_block_length) in
             if current_block_length > 0
             then add_ack_range q visitor incremental first_received (first_received + current_block_length) (length bs = 0) ack
                    (\<lambda>ack. process_ack_blocks q visitor incremental n (length bs) first_received ack r) s
             else process_ack_blocks q visitor incremental n (length bs) first_received ack r s)))"
    by (intro ext) simp
  moreover have "concat (map (block_bytes V e n) (b # bs)) = [g] @ int_enc V e n m @ concat (map (block_bytes V e n) bs)"
    by (simp add: b block_bytes_def)
  ultimately show ?case
    by (simp only:) (intro reads_rds [OF documented_reader(1) [OF d]] reads_rds [OF number_parses [OF d n m]] step)
qed

lemma process_ack_ranges_reads:
  assumes d: "documented q V" and n: "B \<le> 8" and v: "incremental \<longrightarrow> accepting visitor"
    and bs: "length bs < 256" "blocks_ok lo bs" "\<forall>b \<in> set bs. unat (snd b) < 2 ^ (8 * B)"
    and lo: "lo \<le> largest" "largest + 1 \<noteq> 0"
    and del: "deliver q visitor incremental ((lo, largest + 1, \<not> has_blocks) # ranges_of lo bs)
      (if incremental then ack else ack\<lparr>ack_largest_acked := largest\<rparr>, s) = (ack', s')"
  shows "reads V e (process_ack_ranges q visitor incremental creation_time is_41 has_blocks B 0 largest (of_nat (length bs)) ack
       (largest + 1 - lo)) (concat (map (block_bytes V e B) bs) @ (if is_41 then [] else [0])) s ack' s'"
proof -
  let ?ack = "if incremental then ack else ack\<lparr>ack_largest_acked := largest\<rparr>"
  let ?d = "deliver q visitor incremental [(lo, largest + 1, \<not> has_blocks)] (?ack, s)"
  from del have "deliver q visitor incremental (ranges_of lo bs) (fst ?d, snd ?d) = (ack', s')" by simp
  note blocks = process_ack_blocks_reads [OF d n v bs(2,3) this]
  have stamps: "ProcessTimestampsInAckFrame q creation_time 0 ack' = (\<lambda>r s. (Inr (ack', r), s))"
    by (simp add: ProcessTimestampsInAckFrame_def fun_eq_iff)
  have tail: "reads V e (\<lambda>r. rds msg (if \<not> is_41 then ReadUInt8 q r else Some (0, r)) (\<lambda>received r.
      ProcessTimestampsInAckFrame q creation_time received ack' r)) (if is_41 then [] else [0]) s' ack' s'" for msg
  proof (cases is_41)
    case False
    have "reads V e (\<lambda>r. rds msg (ReadUInt8 q r) (\<lambda>received r. ProcessTimestampsInAckFrame q creation_time received ack' r))
        ([0] @ []) s' ack' s'"
      by (rule reads_rds [OF documented_reader(1) [OF d]]) (simp add: stamps reads_def)
    with False show ?thesis by simp
  qed (simp add: reads_def rds_def stamps)
  have len: "unat (of_nat (length bs) :: u8) = length bs" using bs(1) by (simp add: unat_of_nat take_bit_nat_eq_self)
  have gt: "\<not> largest + 1 - lo > largest + 1" "largest + 1 - lo \<noteq> 0" "largest + 1 - (largest + 1 - lo) = lo"
  proof -
    have u: "unat (largest + 1) = unat largest + 1"
      using lo(2) by (metis Suc_eq_plus1 add.commute unatSuc)
    then have "unat (largest + 1 - lo) = unat largest + 1 - unat lo"
      using lo(1) by (simp add: unat_sub_if_size word_size word_le_nat_alt)
    then show "\<not> largest + 1 - lo > largest + 1" "largest + 1 - lo \<noteq> 0"
      using lo(1) u by (auto simp: word_less_nat_alt word_le_nat_alt word_unat_eq_iff)
  qed simp
  have "process_ack_ranges q visitor incremental creation_time is_41 has_blocks B 0 largest (of_nat (length bs)) ack
       (largest + 1 - lo) r s =
     (case process_ack_blocks q visitor incremental B (length bs) lo (fst ?d) r (snd ?d) of
        (Inl msg, s) \<Rightarrow> (Inl msg, s)
      | (Inr (ack_frame, r), s) \<Rightarrow>
          rds ''Unable to read num received packets.'' (if \<not> is_41 then ReadUInt8 q r else Some (0, r)) (\<lambda>received r.
          ProcessTimestampsInAckFrame q creation_time received ack_frame r) s)" for r
    unfolding process_ack_ranges_def gt(3) len Let_def add_ack_range_accepted [OF v]
    using gt(1,2) by (cases ?d) (simp only: if_False simp_thms prod.case fst_conv snd_conv)
  with reads_then [OF blocks, where g = "\<lambda>ack_frame r. rds ''Unable to read num received packets.''
      (if \<not> is_41 then ReadUInt8 q r else Some (0, r)) (\<lambda>received r. ProcessTimestampsInAckFrame q creation_time received ack_frame r)", OF tail]
  show ?thesis unfolding reads_def by (simp only:)
qed

section \<open>The whole frame\<close>

lemma packet_number_flags_cases:
  assumes "documented q V"
  shows "GetPacketNumberFlags q n \<in> {0, 1, 2, 3}"
  by (simp add: GetPacketNumberFlags_def documented_enums [OF assms])

text \<open>The upper half of the type byte holds the frame class and the flag, the lower half the two lengths.\<close>

definition ack_class :: "bool \<Rightarrow> bool \<Rightarrow> u8" where
  "ack_class pre m = (if pre then if m then 6 else 4 else if m then 11 else 10)"

lemma ack_type_byte_eq:
  "ack_type_byte q version m L B = push_bit 2 (push_bit 2 (ack_class (version \<noteq> ver q QUIC_VERSION_41) m) OR
     GetPacketNumberFlags q L) OR GetPacketNumberFlags q B"
proof -
  have p: "push_bit 2 (x OR y) = push_bit 2 x OR push_bit 2 y" for x y :: u8
    by (rule bit_word_eqI) (auto simp: bit_simps)
  have c: "push_bit 2 (push_bit 2 (ack_class pre m)) = push_bit (if pre then 5 else 4) (if m then 1 else 0) OR (if pre then 0x40 else 0xA0)" for pre
    by (cases pre; cases m; simp add: ack_class_def)
  show ?thesis
    unfolding p c by (simp add: ack_type_byte_def Let_def SetBits_def SetBit_def stream_consts or.assoc or.commute or.left_commute)
qed

lemma and_push_bit: "x AND push_bit k c = push_bit k (drop_bit k x AND c)" for x c :: u8
  by (rule bit_word_eqI) (auto simp: bit_simps)

lemma ack_type_byte_fields:
  fixes version :: nat
  assumes d: "documented q V"
  defines "x m L B \<equiv> ack_type_byte q version m L B" and "pre \<equiv> version \<noteq> ver q QUIC_VERSION_41"
  shows "x m L B AND mask 2 = GetPacketNumberFlags q B" "drop_bit 2 (x m L B) AND mask 2 = GetPacketNumberFlags q L"
    "drop_bit 4 (x m L B) = ack_class pre m"
proof -
  have n: "take_bit 2 (GetPacketNumberFlags q k) = GetPacketNumberFlags q k" for k
    using packet_number_flags_cases [OF d, of k] by auto
  have t: "take_bit 4 (ack_class pre m) = ack_class pre m" by (simp add: ack_class_def)
  have i: "push_bit 2 (ack_class pre m) OR GetPacketNumberFlags q L =
      take_bit 6 (push_bit 2 (ack_class pre m) OR GetPacketNumberFlags q L)"
    using pack_bits(3) [OF n t, of L] by simp
  have four: "drop_bit 4 y = drop_bit 2 (drop_bit 2 y)" for y :: u8 by simp
  note 1 = pack_bits [OF n t, of L] and 2 = pack_bits [OF n i [symmetric], of B]
  show "x m L B AND mask 2 = GetPacketNumberFlags q B" "drop_bit 2 (x m L B) AND mask 2 = GetPacketNumberFlags q L"
    "drop_bit 4 (x m L B) = ack_class pre m"
    unfolding x_def ack_type_byte_eq pre_def [symmetric] four by (simp_all only: 1(1,2) 2(1,2))
qed

lemma ack_type_byte_lengths:
  assumes d: "documented q V"
  shows "ReadAckPacketNumberLength q version (ExtractBits (ack_type_byte q version m (GetMinPacketNumberLength q version a)
      (GetMinPacketNumberLength q version b)) kQuicSequenceNumberLengthNumBits kActBlockLengthOffset) = GetMinPacketNumberLength q version b"
    "ReadAckPacketNumberLength q version (ExtractBits (ack_type_byte q version m (GetMinPacketNumberLength q version a)
      (GetMinPacketNumberLength q version b)) kQuicSequenceNumberLengthNumBits kLargestAckedOffset) = GetMinPacketNumberLength q version a"
proof -
  have m: "GetMaskFromNumBits 2 = mask 2" by (simp add: GetMaskFromNumBits_def mask_eq_exp_minus_1 push_bit_eq_mult)
  show "ReadAckPacketNumberLength q version (ExtractBits (ack_type_byte q version m (GetMinPacketNumberLength q version a)
      (GetMinPacketNumberLength q version b)) kQuicSequenceNumberLengthNumBits kActBlockLengthOffset) = GetMinPacketNumberLength q version b"
    "ReadAckPacketNumberLength q version (ExtractBits (ack_type_byte q version m (GetMinPacketNumberLength q version a)
      (GetMinPacketNumberLength q version b)) kQuicSequenceNumberLengthNumBits kLargestAckedOffset) = GetMinPacketNumberLength q version a"
    unfolding ExtractBits_def kQuicSequenceNumberLengthNumBits_def kActBlockLengthOffset_def kLargestAckedOffset_def m drop_bit_0 id_apply
      ack_type_byte_fields [OF d] by (rule ack_length_flags [OF d])+
qed

lemma ack_type_byte_class:
  fixes version :: nat
  assumes d: "documented q V"
  defines "x m L B \<equiv> ack_type_byte q version m L B"
  shows "ExtractBit (x m L B) (if version \<noteq> ver q QUIC_VERSION_41
            then kQuicHasMultipleAckBlocksOffset_Pre40 else kQuicHasMultipleAckBlocksOffset) = m"
    "version \<noteq> ver q QUIC_VERSION_41 \<Longrightarrow> x m L B AND kQuicFrameTypeStreamMask_Pre40 = 0 \<and> x m L B AND kQuicFrameTypeAckMask_Pre40 \<noteq> 0"
    "version = ver q QUIC_VERSION_41 \<Longrightarrow> x m L B AND kQuicFrameTypeStreamMask \<noteq> kQuicFrameTypeStreamMask \<and>
       x m L B AND kQuicFrameTypeSpecialMask = kQuicFrameTypeAckMask"
    "x m L B AND kQuicFrameTypeSpecialMask \<noteq> 0"
proof -
  note t = ack_type_byte_fields(3) [OF d, of version m L B, folded x_def]
  have d5: "drop_bit 5 (x m L B) = drop_bit 1 (drop_bit 4 (x m L B))" by simp
  have m: "kQuicFrameTypeStreamMask_Pre40 = push_bit 4 8" "kQuicFrameTypeAckMask_Pre40 = push_bit 4 4"
    "kQuicFrameTypeStreamMask = push_bit 4 12" "kQuicFrameTypeSpecialMask = push_bit 4 14" "kQuicFrameTypeAckMask = push_bit 4 10"
    by (simp_all add: stream_consts)
  show "ExtractBit (x m L B) (if version \<noteq> ver q QUIC_VERSION_41
            then kQuicHasMultipleAckBlocksOffset_Pre40 else kQuicHasMultipleAckBlocksOffset) = m"
    unfolding ExtractBit_def GetMaskFromNumBits_def kQuicHasMultipleAckBlocksOffset_Pre40_def kQuicHasMultipleAckBlocksOffset_def
    by (simp only: if_distrib [of "\<lambda>k. drop_bit k (x m L B)"] d5 t) (simp add: ack_class_def)
  show "version \<noteq> ver q QUIC_VERSION_41 \<Longrightarrow> x m L B AND kQuicFrameTypeStreamMask_Pre40 = 0 \<and> x m L B AND kQuicFrameTypeAckMask_Pre40 \<noteq> 0"
    "version = ver q QUIC_VERSION_41 \<Longrightarrow> x m L B AND kQuicFrameTypeStreamMask \<noteq> kQuicFrameTypeStreamMask \<and>
       x m L B AND kQuicFrameTypeSpecialMask = kQuicFrameTypeAckMask"
    "x m L B AND kQuicFrameTypeSpecialMask \<noteq> 0"
    unfolding m and_push_bit t by (cases m; simp add: ack_class_def)+
qed

lemma reads_rds_if:
  assumes "c \<Longrightarrow> parses V e g xs v" and "\<not> c \<Longrightarrow> v = otherwise \<and> xs = []" and "reads V e (k v) ys s w s'"
  shows "reads V e (\<lambda>r. rds msg (if c then g r else Some (otherwise, r)) k) (xs @ ys) s w s'"
proof (cases c)
  case True
  with reads_rds [where k = k, OF assms(1,3)] show ?thesis by simp
next
  case False
  with assms(2,3) show ?thesis by (simp add: reads_def rds_def)
qed

text \<open>The bytes after the type byte.\<close>

definition ack_payload ::
  "('r, 'w) view \<Rightarrow> Endianness \<Rightarrow> bool \<Rightarrow> nat \<Rightarrow> nat \<Rightarrow> u64 \<Rightarrow> u64 \<Rightarrow> u64 \<Rightarrow> (u8 \<times> u64) list \<Rightarrow> bytes" where
  "ack_payload V e is_41 L B largest delay first bs =
     (if is_41 \<and> bs \<noteq> [] then [of_nat (length bs)] else []) @ (if is_41 then [0] else []) @
     int_enc V e L largest @ ufloat_enc V e delay @ (if bs \<noteq> [] \<and> \<not> is_41 then [of_nat (length bs)] else []) @
     int_enc V e B first @ (concat (map (block_bytes V e B) bs) @ (if is_41 then [] else [0]))"

definition delay_read :: "('r, 'w) quic \<Rightarrow> ('r, 'w) view \<Rightarrow> u64 \<Rightarrow> u64" where
  "delay_read q V delay = (if ufloat_trip V delay = kUFloat16MaxValue q then Infinite else ufloat_trip V delay)"

lemma ack_frame_reads:
  fixes q :: "('r, 'w) quic" and version :: nat and b largest lo :: u64
  defines "L \<equiv> GetMinPacketNumberLength q version largest" and "B \<equiv> GetMinPacketNumberLength q version b"
  assumes d: "documented q V" and v: "incremental \<longrightarrow> accepting visitor"
    and bs: "length bs < 256" "blocks_ok lo bs" "\<forall>b \<in> set bs. unat (snd b) < 2 ^ (8 * B)"
    and lo: "lo \<le> largest" "largest + 1 \<noteq> 0"
    and fits: "unat largest < 2 ^ (8 * L)" "unat (largest + 1 - lo) < 2 ^ (8 * B)"
    and del: "deliver q visitor incremental ((lo, largest + 1, bs = []) # ranges_of lo bs)
      (if incremental then (ack, (snd (OnAckFrameStart visitor largest (delay_read q V delay) (fst s)), snd s))
       else (ack\<lparr>ack_delay_time := delay_read q V delay, ack_largest_acked := largest\<rparr>, s)) = (ack', s')"
  shows "reads V e (ProcessAckFrame q version visitor incremental creation_time (ack_type_byte q version (bs \<noteq> []) L B) ack)
     (ack_payload V e (version = 41) L B largest delay (largest + 1 - lo) bs) s ack' s'"
proof -
  let ?is_41 = "version = 41" and ?n = "of_nat (length bs) :: u8"
  let ?ack = "if \<not> incremental then ack\<lparr>ack_delay_time := delay_read q V delay\<rparr> else ack"
  let ?s = "if incremental then (snd (OnAckFrameStart visitor largest (delay_read q V delay) (fst s)), snd s) else s"
  have n: "L \<le> 8" "B \<le> 8" unfolding L_def B_def by (rule min_packet_number_length_range [OF d])+
  have "deliver q visitor incremental ((lo, largest + 1, \<not> bs \<noteq> []) # ranges_of lo bs)
      (if incremental then ?ack else ?ack\<lparr>ack_largest_acked := largest\<rparr>, ?s) = (ack', s')"
    using del by (cases incremental) simp_all
  note ranges = process_ack_ranges_reads [OF d n(2) v bs lo this]
  let ?go = "if incremental then OnAckFrameStart visitor largest (delay_read q V delay) (fst s) else (True, fst s)"
  have go: "fst ?go" "(snd ?go, snd s) = ?s" using v by (auto simp: accepting_def)
  let ?b = "if ?is_41 \<and> bs \<noteq> [] then ?n else 0"
  have "reads V e (\<lambda>r. rds m1 (if bs \<noteq> [] \<and> \<not> ?is_41 then ReadUInt8 q r else Some (?b, r)) (\<lambda>blocks r.
      rds m2 (ReadBytesToUInt64 q B r) (process_ack_ranges q visitor incremental creation_time ?is_41 (bs \<noteq> []) B 0 largest blocks ?ack)))
      ((if bs \<noteq> [] \<and> \<not> ?is_41 then [?n] else []) @ int_enc V e B (largest + 1 - lo) @
       (concat (map (block_bytes V e B) bs) @ (if ?is_41 then [] else [0]))) ?s ack' s'" for m1 m2
    apply (rule reads_rds_if [where v = ?n])
    apply (simp add: documented_reader(1) [OF d])
    apply (auto)[1]
    apply (rule reads_rds [OF number_parses [OF d n(2) fits(2)]])
    apply (rule ranges)
    done
  note rest = this [unfolded reads_def, rule_format]
  show ?thesis
    unfolding ProcessAckFrame_def [abs_def] ack_type_byte_lengths [OF d, of version "bs \<noteq> []" largest b, folded L_def B_def]
      documented_enums(3) [OF d] ack_type_byte_class(1) [OF d, unfolded documented_enums(3) [OF d]] Let_def ack_payload_def
    apply (rule reads_rds_if [where v = ?b], use documented_reader(1) [OF d] in simp, simp)
    apply (rule reads_rds_if [where v = 0], use documented_reader(1) [OF d] in simp, simp)
    apply (rule reads_rds [OF number_parses [OF d n(1) fits(1)]])
    apply (rule reads_rds [OF documented_reader(5) [OF d]])
    apply (unfold reads_def delay_read_def [symmetric])
    using rest go
    apply (simp add: split_beta)
    done
qed

section \<open>Writing the whole frame\<close>

lemma documented_at_offset:
  assumes "documented q V" and "i < length (written q w)"
  shows "\<exists>w'. WriteUInt8AtOffset q v i w = Some w' \<and> written q w' = (written q w)[i := v] \<and> capacity q w' = capacity q w \<and> worder V w' = worder V w"
  using assms unfolding documented_def writer_documented_def by blast

definition delay_sent :: "('r, 'w) quic \<Rightarrow> QuicAckFrame \<Rightarrow> u64" where
  "delay_sent q f = (if ack_delay_time f = Infinite then kUFloat16MaxValue q else ack_delay_time f)"

lemma ack_core_emits:
  assumes d: "documented q V" and n: "L \<in> {1, 2, 4, 6, 8}" "B \<in> {1, 2, 4, 6, 8}" and p: "ack_packets f = (lo, hi) # ps"
    and k: "k \<le> length (block_list lo ps)"
  shows "emits q V e (\<lambda>w. Option.bind (AppendPacketNumber q L largest w) (\<lambda>w. Option.bind (WriteUFloat16 q (delay_sent q f) w) (\<lambda>w.
      Option.bind (if c \<and> k > 0 then WriteBytes q [of_nat k] w else Some w) (\<lambda>w. Option.bind (AppendPacketNumber q B first w) (\<lambda>w.
        if k > 0 then (case ack_packets f of [] \<Rightarrow> None | (lo, hi) # itr \<Rightarrow> append_ack_blocks q B k lo itr 0 w) else Some w)))))
    (int_enc V e L largest @ ufloat_enc V e (delay_sent q f) @ (if take k (block_list lo ps) \<noteq> [] \<and> c then [of_nat k] else []) @
      int_enc V e B first @ concat (map (block_bytes V e B) (take k (block_list lo ps))))"
proof -
  have s: "emits q V e Some []" using documented_state(2) [OF d] by (rule emits_nothing)
  have t: "take k (block_list lo ps) \<noteq> [] \<longleftrightarrow> k > 0" using k by auto
  have 1: "emits q V e (\<lambda>w. if c \<and> k > 0 then WriteBytes q [of_nat k] w else Some w)
      (if take k (block_list lo ps) \<noteq> [] \<and> c then [of_nat k] else [])"
    unfolding t using documented_writer(8) [OF d] s by (cases "c \<and> k > 0") auto
  have "(\<lambda>w. if k > 0 then (case ack_packets f of [] \<Rightarrow> None | (lo, hi) # itr \<Rightarrow> append_ack_blocks q B k lo itr 0 w) else Some w) =
      write_blocks q B (take k (block_list lo ps))"
    by (auto simp: p append_ack_blocks_eq fun_eq_iff)
  then have 2: "emits q V e (\<lambda>w. if k > 0 then (case ack_packets f of [] \<Rightarrow> None | (lo, hi) # itr \<Rightarrow> append_ack_blocks q B k lo itr 0 w) else Some w)
      (concat (map (block_bytes V e B) (take k (block_list lo ps))))"
    using write_blocks_emits [OF d n(2)] by simp
  show ?thesis
    by (intro emits_bind packet_number_emits [OF d] n documented_writer [OF d] 1 2)
qed

lemma ack_body_writes:
  fixes q :: "('r, 'w) quic" and version :: nat and f :: QuicAckFrame
  defines "L \<equiv> GetMinPacketNumberLength q version (ack_largest_acked f)"
    and "B \<equiv> GetMinPacketNumberLength q version (max_block_length (GetAckFrameInfo f))"
  assumes d: "documented q V" and p: "ack_packets f = (lo, hi) # ps" "ack_received_packet_times f = []"
    and k: "k \<le> length (block_list lo ps)"
    and bs: "bs = ack_type_byte q version (num_ack_blocks (GetAckFrameInfo f) \<noteq> 0) L B #
      ack_payload V e (version = 41) L B (ack_largest_acked f) (delay_sent q f) (first_block_length (GetAckFrameInfo f)) (take k (block_list lo ps))"
    and w: "worder V w = e" "length (written q w) + length bs \<le> capacity q w"
  shows "\<exists>w'. append_ack_body q version incremental creation_time f k w = Some w' \<and> written q w' = written q w @ bs \<and>
     capacity q w' = capacity q w \<and> worder V w' = e"
proof -
  have nL: "L \<in> {1, 2, 4, 6, 8}" and nB: "B \<in> {1, 2, 4, 6, 8}"
    unfolding L_def B_def by (rule min_packet_number_length_range [OF d])+
  have la: "LargestAcked q f = ack_largest_acked f" by (simp add: LargestAcked_def documented_state [OF d])
  have ts: "GetAckFrameTimeStampSize f = 0" by (simp add: GetAckFrameTimeStampSize_def p)
  let ?t = "ack_type_byte q version (num_ack_blocks (GetAckFrameInfo f) \<noteq> 0) L B"
  let ?core = "\<lambda>c w. Option.bind (AppendPacketNumber q L (ack_largest_acked f) w) (\<lambda>w. Option.bind (WriteUFloat16 q (delay_sent q f) w) (\<lambda>w.
      Option.bind (if c \<and> k > 0 then WriteBytes q [of_nat k] w else Some w) (\<lambda>w.
      Option.bind (AppendPacketNumber q B (first_block_length (GetAckFrameInfo f)) w) (\<lambda>w.
        if k > 0 then (case ack_packets f of [] \<Rightarrow> None | (lo, hi) # itr \<Rightarrow> append_ack_blocks q B k lo itr 0 w) else Some w))))"
  note core = ack_core_emits [OF d nL nB p(1) k]
  have lk: "length (take k (block_list lo ps)) = k" using k by simp
  show ?thesis
  proof (cases "version = 41")
    case False
    have fin: "(if \<not> incremental \<and> capacity q w - wlength q w \<ge> GetAckFrameTimeStampSize f
        then AppendTimestampsToAckFrame q version creation_time f i w
        else if version \<noteq> ver q QUIC_VERSION_41 then WriteBytes q [0] w else Some w) = WriteBytes q [0] w" for w i
      using False by (cases incremental; cases "WriteBytes q [0] w")
        (simp_all add: ts AppendTimestampsToAckFrame_def p(2) documented_enums [OF d])
    have eq: "append_ack_body q version incremental creation_time f k =
        (\<lambda>w. Option.bind (WriteUInt8 q ?t w) (\<lambda>w. Option.bind (?core True w) (WriteBytes q [0])))"
      unfolding append_ack_body_def [abs_def] Let_def la fin L_def B_def delay_sent_def
      using False by (simp add: documented_enums(3) [OF d] bind_assoc)
    have "bs = [?t] @ ((int_enc V e L (ack_largest_acked f) @ ufloat_enc V e (delay_sent q f) @
          (if take k (block_list lo ps) \<noteq> [] \<and> True then [of_nat k] else []) @ int_enc V e B (first_block_length (GetAckFrameInfo f)) @
          concat (map (block_bytes V e B) (take k (block_list lo ps)))) @ [0])"
      unfolding bs ack_payload_def lk using False by simp
    moreover have "emits q V e (append_ack_body q version incremental creation_time f k)
       ([?t] @ ((int_enc V e L (ack_largest_acked f) @ ufloat_enc V e (delay_sent q f) @
          (if take k (block_list lo ps) \<noteq> [] \<and> True then [of_nat k] else []) @ int_enc V e B (first_block_length (GetAckFrameInfo f)) @
          concat (map (block_bytes V e B) (take k (block_list lo ps)))) @ [0]))"
      unfolding eq by (intro emits_bind documented_writer [OF d] core)
    ultimately show ?thesis using emits_fit w by metis
  next
    case True
    let ?pre = "\<lambda>w. Option.bind (WriteUInt8 q ?t w) (\<lambda>w. if k > 0 then WriteBytes q [of_nat k] w else Some w)"
    let ?pb = "[?t] @ (if k > 0 then [of_nat k] else [])"
    let ?mid = "\<lambda>w. Option.bind (WriteUInt8 q 0 w) (?core False)"
    let ?mb = "[0] @ (int_enc V e L (ack_largest_acked f) @ ufloat_enc V e (delay_sent q f) @
          (if take k (block_list lo ps) \<noteq> [] \<and> False then [of_nat k] else []) @ int_enc V e B (first_block_length (GetAckFrameInfo f)) @
          concat (map (block_bytes V e B) (take k (block_list lo ps))))"
    let ?fin = "\<lambda>i w. if \<not> incremental then WriteUInt8AtOffset q 0 i w else Some w"
    have fin: "(if \<not> incremental \<and> capacity q w - wlength q w \<ge> GetAckFrameTimeStampSize f
        then AppendTimestampsToAckFrame q version creation_time f i w
        else if version \<noteq> ver q QUIC_VERSION_41 then WriteBytes q [0] w else Some w) = ?fin i w" for w i
      using True by (cases incremental; cases "WriteUInt8AtOffset q 0 i w")
        (simp_all add: ts AppendTimestampsToAckFrame_def p(2) documented_enums [OF d])
    have eq: "append_ack_body q version incremental creation_time f k w =
        Option.bind (?pre w) (\<lambda>w. Option.bind (?mid w) (?fin (wlength q w)))" for w
      unfolding append_ack_body_def [abs_def] Let_def la fin L_def B_def delay_sent_def
      using True by (simp add: documented_enums(3) [OF d] bind_assoc)
    have "emits q V e ?pre ?pb"
      by (intro emits_bind emits_if documented_writer [OF d] emits_nothing documented_state [OF d])
    moreover have bs': "bs = ?pb @ ?mb" unfolding bs ack_payload_def lk using True k by auto
    ultimately obtain w1 where w1: "?pre w = Some w1" "written q w1 = written q w @ ?pb" "capacity q w1 = capacity q w" "worder V w1 = e"
      using emits_fit [of q V e ?pre ?pb w] w by auto
    have "emits q V e ?mid ?mb" by (intro emits_bind documented_writer [OF d] core)
    with emits_fit [of q V e ?mid ?mb w1] w1 w bs' obtain w2 where w2: "?mid w1 = Some w2" "written q w2 = written q w1 @ ?mb"
      "capacity q w2 = capacity q w1" "worder V w2 = e" by auto
    have "\<exists>w'. ?fin (wlength q w1) w2 = Some w' \<and> written q w' = written q w2 \<and> capacity q w' = capacity q w2 \<and> worder V w' = e"
    proof (cases incremental)
      case False
      have "wlength q w1 < length (written q w2)" by (simp add: w2(2) documented_state [OF d])
      from documented_at_offset [OF d this, of 0] obtain w3 where w3: "WriteUInt8AtOffset q 0 (wlength q w1) w2 = Some w3"
        "written q w3 = (written q w2)[wlength q w1 := 0]" "capacity q w3 = capacity q w2" "worder V w3 = worder V w2" by blast
      have "(written q w2)[wlength q w1 := 0] = written q w2" by (simp add: w2(2) documented_state [OF d])
      with False w3 w2(4) show ?thesis by simp
    qed (use w2(4) in simp)
    then obtain w3 where w3: "?fin (wlength q w1) w2 = Some w3" "written q w3 = written q w2" "capacity q w3 = capacity q w2"
      "worder V w3 = e" by blast
    have "append_ack_body q version incremental creation_time f k w = Some w3"
      unfolding eq w1(1) Option.bind.simps w2(1) by (rule w3(1))
    moreover have "written q w3 = written q w @ bs" unfolding w3(2) w2(2) w1(2) bs' by (simp only: append_assoc)
    ultimately show ?thesis using w1(3) w2(3) w3(3,4) by simp
  qed
qed

text \<open>How many blocks are written, in a buffer below 2 GB with room for the fixed part.\<close>

lemma num_blocks_to_write_bounds:
  fixes q :: "('r, 'w) quic" and version L B blocks :: nat
  defines "fixed \<equiv> GetMinAckFrameSize version L + B + (if blocks \<noteq> 0 then 1 else 0)"
    and "n w \<equiv> num_blocks_to_write q version L B blocks w"
  assumes d: "documented q V" and cap: "capacity q w < 2 ^ 31" and room: "length (written q w) + fixed \<le> capacity q w"
  shows "n w \<le> blocks" "n w \<le> 255" "length (written q w) + fixed + n w * (B + 1) \<le> capacity q w"
    "length (written q w) + fixed + k * (B + 1) \<le> capacity q w \<Longrightarrow> k \<le> blocks \<Longrightarrow> k \<le> 255 \<Longrightarrow> k \<le> n w"
proof -
  define a where "a = capacity q w - (length (written q w) + fixed)"
  have "int (capacity q w) - int (wlength q w) - int B - int (GetMinAckFrameSize version L) -
      int (if blocks \<noteq> 0 then kNumberOfAckBlocksSize else 0) = int a"
    using room by (auto simp: a_def fixed_def documented_state [OF d] kNumberOfAckBlocksSize_def)
  moreover have a: "int a < 2 ^ 31"
  proof -
    have "a < 2 ^ 31" using cap by (simp add: a_def)
    then show ?thesis by simp
  qed
  ultimately have av: "available_bytes q version L B blocks w = int a"
    unfolding available_bytes_def by (simp add: signed_take_bit_int_eq_self)
  have "int (a div (B + 1)) \<le> int a" by (simp only: of_nat_le_iff div_le_dividend)
  moreover have "(2 :: int) ^ 31 < 2 ^ 64" by simp
  ultimately have "int (a div (B + 1)) < 2 ^ 64" using a by linarith
  moreover have "int_div (int a) (int (B + 1)) = int (a div (B + 1))" by (simp only: int_div_def zdiv_int) simp
  ultimately have "nat (int_div (int a) (int (B + 1)) mod 2 ^ 64) = a div (B + 1)" by simp
  then have n: "n w = (if min blocks (a div (B + 1)) > 255 then 255 else min blocks (a div (B + 1)))"
    unfolding n_def num_blocks_to_write_def Let_def av documented_enums [OF d] by simp
  then show "n w \<le> blocks" "n w \<le> 255" by auto
  have "n w * (B + 1) \<le> a div (B + 1) * (B + 1)" by (rule mult_right_mono) (auto simp: n)
  also have "\<dots> \<le> a" by (rule div_times_less_eq_dividend)
  finally show "length (written q w) + fixed + n w * (B + 1) \<le> capacity q w" using room by (simp add: a_def)
  assume "length (written q w) + fixed + k * (B + 1) \<le> capacity q w" "k \<le> blocks" "k \<le> 255"
  moreover from this(1) have "k * (B + 1) \<le> a" by (simp add: a_def)
  then have "k \<le> a div (B + 1)" by (simp add: less_eq_div_iff_mult_less_eq)
  ultimately show "k \<le> n w" by (auto simp: n)
qed

lemma ack_payload_length:
  assumes d: "documented q V" and "L \<le> 8" "B \<le> 8"
  shows "length (ack_payload V e is_41 L B largest delay first bs) =
     L + 3 + B + (if bs \<noteq> [] then 1 else 0) + length bs * (B + 1)"
proof -
  have "length (concat (map (block_bytes V e B) bs)) = length bs * (B + 1)"
    using documented_lengths [OF d] assms(3) by (induction bs) (simp_all add: block_bytes_def)
  then show ?thesis using assms documented_lengths [OF d] by (simp add: ack_payload_def)
qed

text \<open>Ack frames that a receiver builds: the highest interval ends at the largest acked packet.\<close>

definition wf_ack :: "nat \<Rightarrow> QuicAckFrame \<Rightarrow> bool" where
  "wf_ack version f \<longleftrightarrow>
     (case ack_packets f of [] \<Rightarrow> False
      | (lo, hi) # ps \<Rightarrow> hi = ack_largest_acked f + 1 \<and> lo \<le> ack_largest_acked f \<and> descending lo ps) \<and>
     unat (ack_largest_acked f) + 1 < (if version = 41 then 2 ^ 62 else 2 ^ 48) \<and> ack_received_packet_times f = []"

definition largest_length :: "('r, 'w) quic \<Rightarrow> nat \<Rightarrow> QuicAckFrame \<Rightarrow> nat" where
  "largest_length q version f = GetMinPacketNumberLength q version (ack_largest_acked f)"

definition block_length :: "('r, 'w) quic \<Rightarrow> nat \<Rightarrow> QuicAckFrame \<Rightarrow> nat" where
  "block_length q version f = GetMinPacketNumberLength q version (max_block_length (GetAckFrameInfo f))"

text \<open>Room for the fixed part and, if there are further blocks, for one of them.\<close>

definition ack_room :: "('r, 'w) quic \<Rightarrow> nat \<Rightarrow> QuicAckFrame \<Rightarrow> 'w \<Rightarrow> bool" where
  "ack_room q version f w \<longleftrightarrow> capacity q w < 2 ^ 31 \<and>
     length (written q w) + GetMinAckFrameSize version (largest_length q version f) + block_length q version f +
     (if num_ack_blocks (GetAckFrameInfo f) \<noteq> 0 then 2 + block_length q version f else 0) \<le> capacity q w"

definition ack_bytes :: "('r, 'w) quic \<Rightarrow> ('r, 'w) view \<Rightarrow> Endianness \<Rightarrow> nat \<Rightarrow> QuicAckFrame \<Rightarrow> (u8 \<times> u64) list \<Rightarrow> bytes" where
  "ack_bytes q V e version f bs =
     ack_type_byte q version (bs \<noteq> []) (largest_length q version f) (block_length q version f) #
     ack_payload V e (version = 41) (largest_length q version f) (block_length q version f) (ack_largest_acked f)
       (delay_sent q f) (first_block_length (GetAckFrameInfo f)) bs"

lemma max_block_length_le:
  "descending p ps \<Longrightarrow> p \<le> M \<Longrightarrow> max_block_length info \<le> M \<Longrightarrow> max_block_length (ack_info_loop p ps info) \<le> M"
proof (induction p ps info rule: ack_info_loop.induct)
  case (2 p lo hi itr info)
  then have "lo < hi" "hi < p" "descending lo itr" by auto
  moreover from this have "hi - lo \<le> M" "lo \<le> M"
    using 2(3) by (auto simp: word_le_nat_alt word_less_nat_alt unat_minus_le)
  ultimately show ?case using 2 by simp
qed simp

lemma wf_ack_info:
  assumes d: "documented q V" and wf: "wf_ack version f" and p: "ack_packets f = (lo, hi) # ps"
  defines "info \<equiv> GetAckFrameInfo f" and "bl \<equiv> block_list lo ps"
  shows "hi = ack_largest_acked f + 1" "lo \<le> ack_largest_acked f" "descending lo ps" "ack_largest_acked f + 1 \<noteq> 0"
    "unat lo < 2 ^ 63" "ack_received_packet_times f = []"
    "first_block_length info = ack_largest_acked f + 1 - lo"
    "num_ack_blocks info \<le> length bl" "num_ack_blocks info = length bl \<or> 255 \<le> num_ack_blocks info"
    "\<forall>b \<in> set (take 255 bl). unat (snd b) < 2 ^ (8 * block_length q version f)"
    "unat (ack_largest_acked f) < 2 ^ (8 * largest_length q version f)"
    "unat (ack_largest_acked f + 1 - lo) < 2 ^ (8 * block_length q version f)"
proof -
  from wf p have hi: "hi = ack_largest_acked f + 1" and lo: "lo \<le> ack_largest_acked f" and desc: "descending lo ps"
    and big: "unat (ack_largest_acked f) + 1 < (if version = 41 then 2 ^ 62 else 2 ^ 48)" and t: "ack_received_packet_times f = []"
    by (auto simp: wf_ack_def)
  have b62: "unat (ack_largest_acked f) + 1 < 2 ^ 62"
  proof -
    have "(2 :: nat) ^ 48 < 2 ^ 62" by simp
    with big show ?thesis by (auto split: if_splits)
  qed
  have s: "unat (ack_largest_acked f + 1) = unat (ack_largest_acked f) + 1" using b62 by (simp add: unat_word_ariths)
  show ne: "ack_largest_acked f + 1 \<noteq> 0" using s by auto
  have l: "unat lo < 2 ^ 63" using lo b62 by (simp add: word_le_nat_alt)
  let ?i = "\<lparr>max_block_length = hi - lo, first_block_length = hi - lo, num_ack_blocks = 0\<rparr>"
  have info: "info = ack_info_loop lo ps ?i" by (simp add: info_def GetAckFrameInfo_def p)
  note loop = ack_info_loop_blocks [OF desc l, of ?i, folded info bl_def]
  have "hi - lo \<le> hi" "lo \<le> hi" using lo s unfolding hi by (simp_all add: word_le_nat_alt unat_minus_le)
  then have "max_block_length info \<le> hi" unfolding info by (intro max_block_length_le [OF desc]) simp_all
  then have "unat (max_block_length info) < (if version = 41 then 2 ^ 62 else 2 ^ 48)"
    using big s unfolding hi by (simp add: word_le_nat_alt)
  then have m: "unat (max_block_length info) < 2 ^ (8 * block_length q version f)"
    unfolding block_length_def info_def [symmetric] by (intro min_packet_number_length_fits [OF d]) (simp split: if_splits)
  then show "\<forall>b \<in> set (take 255 bl). unat (snd b) < 2 ^ (8 * block_length q version f)"
    using loop by (auto simp: word_le_nat_alt intro: le_less_trans)
  have "hi - lo \<le> max_block_length info" using loop by simp
  with m show "unat (ack_largest_acked f + 1 - lo) < 2 ^ (8 * block_length q version f)"
    unfolding hi by (auto simp: word_le_nat_alt)
  show "unat (ack_largest_acked f) < 2 ^ (8 * largest_length q version f)"
    unfolding largest_length_def using big by (intro min_packet_number_length_fits [OF d]) (auto split: if_splits)
  show "first_block_length info = ack_largest_acked f + 1 - lo" by (simp add: info hi)
  show "num_ack_blocks info \<le> length bl" "num_ack_blocks info = length bl \<or> 255 \<le> num_ack_blocks info" using loop by auto
  show "hi = ack_largest_acked f + 1" "lo \<le> ack_largest_acked f" "descending lo ps" "unat lo < 2 ^ 63"
    "ack_received_packet_times f = []" by (fact hi lo desc l t)+
qed

lemma ack_frame_written:
  assumes d: "documented q V" and wf: "wf_ack version f" and room: "ack_room q version f w" and w: "worder V w = e"
    and p: "ack_packets f = (lo, hi) # ps"
  defines "n \<equiv> num_blocks_to_write q version (largest_length q version f) (block_length q version f)
      (num_ack_blocks (GetAckFrameInfo f)) w"
  shows "\<exists>w'. AppendAckFrameAndTypeByte q version incremental creation_time f w = Some w' \<and>
      written q w' = written q w @ ack_bytes q V e version f (take n (block_list lo ps)) \<and> capacity q w' = capacity q w \<and> worder V w' = e"
    "n \<le> length (block_list lo ps)" "n \<le> 255" "n = 0 \<longleftrightarrow> ps = []"
    "length (written q w) + GetAckFrameSize q version True f \<le> capacity q w \<Longrightarrow> length (block_list lo ps) \<le> 255 \<Longrightarrow>
     n = length (block_list lo ps)"
proof -
  let ?L = "largest_length q version f" and ?B = "block_length q version f" and ?bl = "block_list lo ps"
  let ?k = "num_ack_blocks (GetAckFrameInfo f)"
  note i = wf_ack_info [OF d wf p]
  have LB: "?L \<le> 8" "?B \<le> 8" unfolding largest_length_def block_length_def by (rule min_packet_number_length_range [OF d])+
  from room have "capacity q w < 2 ^ 31"
    "length (written q w) + (GetMinAckFrameSize version ?L + ?B + (if ?k \<noteq> 0 then 1 else 0)) \<le> capacity q w"
    by (auto simp: ack_room_def split: if_splits)
  note n = num_blocks_to_write_bounds [OF d this, folded n_def]
  show le: "n \<le> length ?bl" "n \<le> 255" using n(1,2) i(8) by auto
  have la: "LargestAcked q f = ack_largest_acked f" by (simp add: LargestAcked_def documented_state [OF d])
  have ps: "?bl = [] \<longleftrightarrow> ps = []" by (cases ps) auto
  have k0: "?k = 0 \<longleftrightarrow> ps = []" using i(8,9) ps by (cases "?bl = []") auto
  have n1: "n > 0" if "?k \<noteq> 0" using n(4) [of 1] that room by (simp add: ack_room_def)
  with n(1) show n0: "n = 0 \<longleftrightarrow> ps = []" using k0 by auto
  then have t: "?k \<noteq> 0 \<longleftrightarrow> take n ?bl \<noteq> []" using k0 ps by auto
  have "length (ack_bytes q V e version f (take n ?bl)) = GetMinAckFrameSize version ?L + ?B + (if ?k \<noteq> 0 then 1 else 0) + n * (?B + 1)"
    using le(1) unfolding t by (simp add: ack_bytes_def ack_payload_length [OF d LB] GetMinAckFrameSize_def framer_consts)
  with n(3) have fits: "length (written q w) + length (ack_bytes q V e version f (take n ?bl)) \<le> capacity q w" by simp
  have bs: "ack_bytes q V e version f (take n ?bl) = ack_type_byte q version (?k \<noteq> 0) ?L ?B #
      ack_payload V e (version = 41) ?L ?B (ack_largest_acked f) (delay_sent q f) (first_block_length (GetAckFrameInfo f)) (take n ?bl)"
    unfolding t by (simp add: ack_bytes_def)
  have eq: "AppendAckFrameAndTypeByte q version incremental creation_time f w = append_ack_body q version incremental creation_time f n w"
    by (simp add: AppendAckFrameAndTypeByte_def Let_def la n_def largest_length_def block_length_def)
  show "\<exists>w'. AppendAckFrameAndTypeByte q version incremental creation_time f w = Some w' \<and>
      written q w' = written q w @ ack_bytes q V e version f (take n ?bl) \<and> capacity q w' = capacity q w \<and> worder V w' = e"
    unfolding eq by (rule ack_body_writes [OF d p i(6) le(1) bs [unfolded largest_length_def block_length_def] w fits])
  assume full: "length (written q w) + GetAckFrameSize q version True f \<le> capacity q w" and small: "length ?bl \<le> 255"
  have k: "?k = length ?bl" using i(8,9) small by auto
  have "GetAckFrameSize q version True f = GetMinAckFrameSize version ?L + ?B + (if ?k \<noteq> 0 then 1 + length ?bl * (?B + 1) else 0)"
    using small k by (simp add: GetAckFrameSize_def Let_def la largest_length_def block_length_def framer_consts documented_enums [OF d])
  with full n(4) [of "length ?bl"] small k have "length ?bl \<le> n" by (cases "?k = 0") auto
  with le show "n = length ?bl" by simp
qed

section \<open>Properties of ack frames\<close>

text \<open>\<open>PacketNumberQueue::AddRange\<close>: a non-empty range below all others becomes the lowest interval.\<close>

definition queue_documented :: "('r, 'w) quic \<Rightarrow> bool" where
  "queue_documented q \<longleftrightarrow>
     (\<forall>lo hi ps. lo < hi \<and> (ps = [] \<or> hi < fst (last ps)) \<longrightarrow> AddRange q lo hi ps = ps @ [(lo, hi)])"

lemma deliver_frame:
  assumes q: "queue_documented q"
  shows "descending p ps \<Longrightarrow> map (\<lambda>(lo, hi, b). (lo, hi)) rs = ps \<Longrightarrow> fst (last (ack_packets ack)) = p \<Longrightarrow> ack_packets ack \<noteq> [] \<Longrightarrow>
     deliver q visitor False rs (ack, s) = (ack\<lparr>ack_packets := ack_packets ack @ ps\<rparr>, s)"
proof (induction rs arbitrary: p ps ack)
  case (Cons r rs)
  obtain lo hi b where r: "r = (lo, hi, b)" by (cases r) auto
  from Cons.prems(2) r obtain ps' where ps: "ps = (lo, hi) # ps'" "map (\<lambda>(lo, hi, b). (lo, hi)) rs = ps'" by auto
  from Cons.prems(1) ps have *: "lo < hi" "hi < p" "descending lo ps'" by auto
  then have "AddRange q lo hi (ack_packets ack) = ack_packets ack @ [(lo, hi)]"
    using q Cons.prems(3,4) by (simp add: queue_documented_def)
  with Cons.IH [OF *(3) ps(2), of "ack\<lparr>ack_packets := ack_packets ack @ [(lo, hi)]\<rparr>"] show ?case by (simp add: r ps)
qed simp

definition empty_ack :: QuicAckFrame where
  "empty_ack = \<lparr>ack_largest_acked = 0, ack_delay_time = 0, ack_packets = [], ack_received_packet_times = []\<rparr>"

lemma descending_take: "descending p ps \<Longrightarrow> descending p (take m ps)"
  by (induction p ps arbitrary: m rule: descending.induct) (auto simp: take_Cons' split: if_splits)

lemma ack_bytes_read:
  assumes d: "documented q V" and wf: "wf_ack version f" and p: "ack_packets f = (lo, hi) # ps"
    and v: "incremental \<longrightarrow> accepting visitor" and n: "n \<le> 255"
    and bs: "bs = take n (block_list lo ps)"
    and del: "deliver q visitor incremental ((lo, hi, bs = []) # ranges_of lo bs)
      (if incremental then (ack, (snd (OnAckFrameStart visitor (ack_largest_acked f) (delay_read q V (delay_sent q f)) (fst s)), snd s))
       else (ack\<lparr>ack_delay_time := delay_read q V (delay_sent q f), ack_largest_acked := ack_largest_acked f\<rparr>, s)) = (ack', s')"
  shows "reads V e (ProcessAckFrame q version visitor incremental creation_time (hd (ack_bytes q V e version f bs)) ack)
     (tl (ack_bytes q V e version f bs)) s ack' s'"
proof -
  note i = wf_ack_info [OF d wf p]
  from ranges_of_take [OF i(3,5), of n] have ok: "blocks_ok lo bs" unfolding bs by auto
  have "take n (block_list lo ps) = take n (take 255 (block_list lo ps))" using n by (simp add: min_def)
  with i(10) have fit: "\<forall>b \<in> set bs. unat (snd b) < 2 ^ (8 * block_length q version f)" unfolding bs by (metis in_set_takeD)
  have "length bs < 256" using n by (simp add: bs)
  from ack_frame_reads [OF d v this ok fit [unfolded block_length_def] i(2,4) i(11) [unfolded largest_length_def]
      i(12) [unfolded block_length_def] del [unfolded i(1)], folded largest_length_def block_length_def]
  show ?thesis unfolding ack_bytes_def list.sel i(7) .
qed

lemma demo_queue: "queue_documented demo"
  by (simp add: queue_documented_def demo_sel)

definition two_ranges :: QuicAckFrame where
  "two_ranges = \<lparr>ack_largest_acked = 10, ack_delay_time = 16, ack_packets = [(10, 11), (7, 9)], ack_received_packet_times = []\<rparr>"

definition logging :: "(u64 \<times> u64 \<times> bool) list ack_visitor" where
  "logging = \<lparr>OnAckFrameStart = (\<lambda>l d v. (True, v)), OnAckRange = (\<lambda>lo hi b v. (True, v @ [(lo, hi, b)]))\<rparr>"

lemma two_ranges_sel:
  "ack_largest_acked two_ranges = 10" "ack_delay_time two_ranges = 16" "ack_packets two_ranges = [(10, 11), (7, 9)]"
  by (simp_all add: two_ranges_def)

lemma two_ranges_info: "GetAckFrameInfo two_ranges = \<lparr>max_block_length = 2, first_block_length = 1, num_ack_blocks = 1\<rparr>"
  by code_simp

lemma two_ranges_sizes:
  "largest_length demo 41 two_ranges = 1" "block_length demo 41 two_ranges = 1" "GetAckFrameSize demo 41 True two_ranges = 9"
  "block_list 10 [(7, 9)] = [(1, 2)]"
  by code_simp+

text \<open>
  C6: ack frames. A well-formed ack frame is written into any buffer that has room for the fixed part
  and for one further block if there is one. The reader gets the same largest acked packet, the
  delay as its 16-bit float allows, and the highest \<open>m\<close> of the acknowledged intervals, never a packet that was not
  acknowledged; it gets all of them when \<open>GetAckFrameSize\<close> bytes are left and at most 255 blocks are needed.
\<close>

theorem ack_frame_round_trip:
  assumes "documented q V" and "queue_documented q" and "wf_ack version f" and "ack_room q version f w" and "worder V w = e"
    and "ack_packets f = p # ps"
  shows "\<exists>w' bs m. AppendAckFrameAndTypeByte q version incremental creation_time f w = Some w' \<and>
     written q w' = written q w @ bs \<and> bs \<noteq> [] \<and> m \<le> length ps \<and>
     (length (written q w) + GetAckFrameSize q version True f \<le> capacity q w \<and> length (block_list (fst p) ps) \<le> 255 \<longrightarrow> m = length ps) \<and>
     reads V e (ProcessAckFrame q version visitor False creation_time (hd bs) empty_ack) (tl bs) s
       \<lparr>ack_largest_acked = ack_largest_acked f, ack_delay_time = delay_read q V (delay_sent q f),
        ack_packets = p # take m ps, ack_received_packet_times = []\<rparr> s"
proof -
  obtain lo hi where p: "p = (lo, hi)" by force
  note d = assms(1)
  note i = wf_ack_info [OF d assms(3) assms(6) [unfolded p]] and w = ack_frame_written [OF d assms(3-5) assms(6) [unfolded p]]
  let ?n = "num_blocks_to_write q version (largest_length q version f) (block_length q version f) (num_ack_blocks (GetAckFrameInfo f)) w"
  let ?bs = "take ?n (block_list lo ps)"
  from ranges_of_take [OF i(3,5), of ?n] obtain m where m: "m \<le> length ps"
    "map (\<lambda>(lo, hi, b). (lo, hi)) (ranges_of lo ?bs) = take m ps" by auto
  have full: "take m ps = ps" if "?n = length (block_list lo ps)"
  proof -
    have "map (\<lambda>(lo, hi, b). (lo, hi)) (with_last_flag xs) = xs" for xs by (induction xs rule: with_last_flag.induct) simp_all
    with m(2) that ranges_of_block_list [OF i(3,5)] show ?thesis by simp
  qed
  let ?ack = "\<lparr>ack_largest_acked = ack_largest_acked f, ack_delay_time = delay_read q V (delay_sent q f),
        ack_packets = [(lo, hi)], ack_received_packet_times = []\<rparr>"
  have "lo < hi" using i(1,2,4) by (simp add: word_le_nat_alt word_less_nat_alt unatSuc add.commute)
  then have first: "AddRange q lo hi [] = [(lo, hi)]" using assms(2) by (simp add: queue_documented_def)
  have "deliver q visitor False ((lo, hi, ?bs = []) # ranges_of lo ?bs)
      (empty_ack\<lparr>ack_delay_time := delay_read q V (delay_sent q f), ack_largest_acked := ack_largest_acked f\<rparr>, s) =
      (?ack\<lparr>ack_packets := (lo, hi) # take m ps\<rparr>, s)"
    using deliver_frame [OF assms(2) descending_take [OF i(3)] m(2), of ?ack visitor s] by (simp add: empty_ack_def first)
  with ack_bytes_read [OF d assms(3) assms(6) [unfolded p], of False visitor ?n ?bs empty_ack s] w(3)
  have "reads V e (ProcessAckFrame q version visitor False creation_time (hd (ack_bytes q V e version f ?bs)) empty_ack)
     (tl (ack_bytes q V e version f ?bs)) s (?ack\<lparr>ack_packets := (lo, hi) # take m ps\<rparr>) s" by simp
  moreover have "m = length ps" if "length (written q w) + GetAckFrameSize q version True f \<le> capacity q w"
      "length (block_list (fst p) ps) \<le> 255"
    using full [OF w(5)] that m(1) by (simp add: p)
  ultimately show ?thesis using w(1) [of incremental creation_time] m(1)
    by (elim exE, intro exI [of _ "ack_bytes q V e version f ?bs"] exI [of _ m] exI) (auto simp: p ack_bytes_def)
qed

theorem ack_frame_round_trip_witness:
  "\<exists>w' bs. AppendAckFrameAndTypeByte demo 41 False 0 two_ranges ([], 20, NETWORK_BYTE_ORDER) = Some w' \<and> fst w' = bs \<and>
     reads demo_view NETWORK_BYTE_ORDER (ProcessAckFrame demo 41 logging False 0 (hd bs) empty_ack) (tl bs) ([], 0)
       \<lparr>ack_largest_acked = 10, ack_delay_time = 16, ack_packets = [(10, 11), (7, 9)], ack_received_packet_times = []\<rparr> ([], 0)"
proof -
  have "wf_ack 41 two_ranges" by (simp add: wf_ack_def two_ranges_def)
  moreover have "ack_room demo 41 two_ranges ([], 20, NETWORK_BYTE_ORDER)"
    by (simp add: ack_room_def two_ranges_info two_ranges_sizes demo_sel GetMinAckFrameSize_def framer_consts)
  moreover have "delay_read demo demo_view (delay_sent demo two_ranges) = 16"
    by (simp add: delay_read_def delay_sent_def two_ranges_def demo_view_def demo_sel Infinite_def)
  ultimately show ?thesis
    using ack_frame_round_trip [OF demo_documented demo_queue, of 41 two_ranges "([], 20, NETWORK_BYTE_ORDER)" NETWORK_BYTE_ORDER
        "(10, 11)" "[(7, 9)]" False 0 logging "([], 0)"]
    by (auto simp: two_ranges_sizes two_ranges_sel demo_sel demo_view_def simp del: block_list.simps)
qed

lemma full_room:
  assumes d: "documented q V" and "capacity q w < 2 ^ 31"
    and "length (written q w) + GetAckFrameSize q version True f \<le> capacity q w"
  shows "ack_room q version f w"
proof -
  define k where "k = num_ack_blocks (GetAckFrameInfo f)"
  define B where "B = block_length q version f"
  define M where "M = GetMinAckFrameSize version (largest_length q version f)"
  have size: "GetAckFrameSize q version True f = M + B + (if k \<noteq> 0 then 1 + min k 255 * (B + 1) else 0)"
    by (simp add: GetAckFrameSize_def Let_def LargestAcked_def documented_state [OF d] framer_consts documented_enums [OF d]
        largest_length_def block_length_def k_def B_def M_def)
  have "2 + B \<le> 1 + min k 255 * (B + 1)" if "k \<noteq> 0"
    using mult_le_mono1 [of 1 "min k 255" "B + 1"] that by simp
  with assms(2,3) show ?thesis unfolding size ack_room_def k_def [symmetric] B_def [symmetric] M_def [symmetric]
    by (cases "k = 0") auto
qed

lemma deliver_visitor:
  "deliver q visitor True rs (ack, (v, t)) = (ack, (fold (\<lambda>(lo, hi, b). snd \<circ> OnAckRange visitor lo hi b) rs v, t))"
  by (induction rs arbitrary: v) auto

text \<open>A frame that fits as a whole: what is written and what an accepting visitor hears of it.\<close>

lemma ack_whole_written:
  assumes d: "documented q V" and wf: "wf_ack version f" and w: "worder V w = e" and p: "ack_packets f = p # ps"
    and cap: "capacity q w < 2 ^ 31" and fits: "length (written q w) + GetAckFrameSize q version True f \<le> capacity q w"
    and blocks: "length (block_list (fst p) ps) \<le> 255"
  shows "\<exists>w'. AppendAckFrameAndTypeByte q version True creation_time f w = Some w' \<and>
     written q w' = written q w @ ack_bytes q V e version f (block_list (fst p) ps) \<and> capacity q w' = capacity q w \<and> worder V w' = e"
proof -
  obtain lo hi where p': "p = (lo, hi)" by force
  note io = ack_frame_written [OF d wf full_room [OF d cap fits] w p [unfolded p']]
  have "num_blocks_to_write q version (largest_length q version f) (block_length q version f) (num_ack_blocks (GetAckFrameInfo f)) w =
      length (block_list lo ps)" using io(5) fits blocks by (simp add: p')
  with io(1) [of True creation_time] show ?thesis by (simp add: p')
qed

lemma ack_whole_read:
  fixes e :: Endianness
  assumes d: "documented q V" and wf: "wf_ack version f" and acc: "accepting visitor" and p: "ack_packets f = p # ps"
    and blocks: "length (block_list (fst p) ps) \<le> 255"
  defines "bs \<equiv> ack_bytes q V e version f (block_list (fst p) ps)"
  shows "reads V e (ProcessAckFrame q version visitor True creation_time (hd bs) ack) (tl bs) (v, t) ack
     (fold (\<lambda>(lo, hi, b). snd \<circ> OnAckRange visitor lo hi b) (with_last_flag (p # ps))
        (snd (OnAckFrameStart visitor (ack_largest_acked f) (delay_read q V (delay_sent q f)) v)), t)"
proof -
  obtain lo hi where p': "p = (lo, hi)" by force
  note i = wf_ack_info [OF d wf p [unfolded p']]
  have ps: "block_list lo ps = [] \<longleftrightarrow> ps = []" by (cases ps) auto
  show ?thesis
    unfolding bs_def p' fst_conv using acc blocks ranges_of_block_list [OF i(3,5)]
    by (intro ack_bytes_read [OF d wf p [unfolded p'], where n = 255]) (simp_all add: p' ps deliver_visitor)
qed

text \<open>
  Incremental ack processing. When the whole frame fits, an accepting visitor is told the start of the
  frame and then every acknowledged interval once, from the highest down, with \<open>last_range\<close> set on
  the last one only; the framer's own ack frame stays untouched.
\<close>

theorem ack_frame_incremental:
  assumes "documented q V" and "wf_ack version f" and "accepting visitor" and "worder V w = e" and "ack_packets f = p # ps"
    and "capacity q w < 2 ^ 31" and "length (written q w) + GetAckFrameSize q version True f \<le> capacity q w"
    and "length (block_list (fst p) ps) \<le> 255"
  shows "\<exists>w' bs. AppendAckFrameAndTypeByte q version True creation_time f w = Some w' \<and> written q w' = written q w @ bs \<and> bs \<noteq> [] \<and>
     reads V e (ProcessAckFrame q version visitor True creation_time (hd bs) ack) (tl bs) (v, t) ack
       (fold (\<lambda>(lo, hi, b). snd \<circ> OnAckRange visitor lo hi b) (with_last_flag (p # ps))
          (snd (OnAckFrameStart visitor (ack_largest_acked f) (delay_read q V (delay_sent q f)) v)), t)"
  using ack_whole_written [OF assms(1,2,4-8), of creation_time]
    ack_whole_read [OF assms(1-3,5,8), of e creation_time ack v t]
  by (auto simp: ack_bytes_def)

theorem ack_frame_incremental_witness:
  "\<exists>w' bs. AppendAckFrameAndTypeByte demo 41 True 0 two_ranges ([], 20, NETWORK_BYTE_ORDER) = Some w' \<and> fst w' = bs \<and>
     reads demo_view NETWORK_BYTE_ORDER (ProcessAckFrame demo 41 logging True 0 (hd bs) empty_ack) (tl bs) ([], 0) empty_ack
       ([(10, 11, False), (7, 9, True)], 0)"
proof -
  have "wf_ack 41 two_ranges" by (simp add: wf_ack_def two_ranges_def)
  moreover have "accepting logging" by (simp add: accepting_def logging_def)
  ultimately show ?thesis
    using ack_frame_incremental [OF demo_documented, of 41 two_ranges logging "([], 20, NETWORK_BYTE_ORDER)" NETWORK_BYTE_ORDER
        "(10, 11)" "[(7, 9)]" 0 empty_ack "[]" 0]
    by (auto simp: two_ranges_sizes two_ranges_sel demo_sel demo_view_def logging_def simp del: block_list.simps)
qed

section \<open>The IETF format\<close>

fun ietf_block_bytes :: "('r, 'w) view \<Rightarrow> u64 \<Rightarrow> (u64 \<times> u64) list \<Rightarrow> bytes" where
  "ietf_block_bytes V previous_ack_end [] = []"
| "ietf_block_bytes V previous_ack_end ((lo, hi) # itr) =
     var_enc V (previous_ack_end - hi - 1) @ var_enc V (hi - lo - 1) @ ietf_block_bytes V lo itr"

definition ietf_ack_bytes :: "('r, 'w) quic \<Rightarrow> ('r, 'w) view \<Rightarrow> QuicAckFrame \<Rightarrow> u64 \<times> u64 \<Rightarrow> (u64 \<times> u64) list \<Rightarrow> bytes" where
  "ietf_ack_bytes q V f p ps =
     [ietf q IETF_ACK] @ var_enc V (ack_largest_acked f) @ var_enc V (drop_bit 3 (ack_delay_time f)) @
     var_enc V (of_nat (length ps)) @ var_enc V (snd p - fst p - 1) @ ietf_block_bytes V (fst p) ps"

text \<open>The reader gives every block the length of the first one.\<close>

definition ietf_ranges :: "('r, 'w) quic \<Rightarrow> u64 \<Rightarrow> (u64 \<times> u64) list \<Rightarrow> (u64 \<times> u64) list \<Rightarrow> (u64 \<times> u64) list" where
  "ietf_ranges q n ps packets = fold (\<lambda>(lo, hi). AddRange q lo (lo + n)) ps packets"

lemma below_varint:
  fixes a b p :: u64
  assumes "a < b" and "unat b \<le> unat p" and "unat p < 2 ^ 62"
  shows "b - a - 1 < 2 ^ 62" "b - a \<noteq> 0"
proof -
  have "unat (b - a) = unat b - unat a" "unat a < unat b" using assms(1) by (simp_all add: unat_minus_le word_less_nat_alt word_le_nat_alt)
  then have u: "unat (b - a) = unat b - unat a" "0 < unat (b - a)" by simp_all
  then show nz: "b - a \<noteq> 0" by auto
  have "unat (b - a - 1) = unat (b - a) - 1" by (rule unat_minus_one [OF nz])
  then show "b - a - 1 < 2 ^ 62" using u assms(2,3) by (simp add: word_less_nat_alt)
qed

lemma descending_below:
  assumes "descending p ((lo, hi) # itr)" and "unat p < 2 ^ 62"
  shows "p - hi - 1 < 2 ^ 62" "hi - lo - 1 < 2 ^ 62" "hi - lo \<noteq> 0" "descending lo itr" "unat lo < 2 ^ 62"
proof -
  from assms have *: "lo < hi" "hi < p" "descending lo itr" by auto
  from * assms(2) show "p - hi - 1 < 2 ^ 62" "hi - lo - 1 < 2 ^ 62" "hi - lo \<noteq> 0" "descending lo itr" "unat lo < 2 ^ 62"
    using below_varint [of hi p p] below_varint [of lo hi p] by (simp_all add: word_less_nat_alt)
qed

lemma ietf_blocks_encodes:
  assumes d: "documented q V"
  shows "descending p ps \<Longrightarrow> unat p < 2 ^ 62 \<Longrightarrow> encodes q V e (append_ietf_blocks q p ps) (ietf_block_bytes V p ps)"
proof (induction p ps rule: descending.induct)
  case (1 p)
  have "append_ietf_blocks q p [] = Inr" by (rule ext) simp
  then show ?case using encodes_done [of q, OF documented_state(2) [OF d]] by simp
next
  case (2 p lo hi itr)
  note b = descending_below [OF 2(2,3)]
  have "append_ietf_blocks q p ((lo, hi) # itr) = (\<lambda>w. wr ''No room for gap block in ack frame'' (WriteVarInt62 q (p - hi - 1) w)
      (\<lambda>w. wr ''No room for nth ack block in ack frame'' (WriteVarInt62 q (hi - lo - 1) w) (append_ietf_blocks q lo itr)))"
    using b(3) by (intro ext) (simp add: Let_def)
  then show ?case unfolding ietf_block_bytes.simps
    by (simp only:) (intro documented_encodes(11) [OF d] b(1,2) 2(1) [OF b(4,5)])
qed

lemma ietf_blocks_decodes:
  assumes d: "documented q V"
  shows "descending p ps \<Longrightarrow> unat p < 2 ^ 62 \<Longrightarrow> high = p + n \<Longrightarrow>
     decodes V e (process_ietf_blocks q (length ps) p high packets) (ietf_block_bytes V p ps) (ietf_ranges q n ps packets)"
proof (induction p ps arbitrary: high packets rule: descending.induct)
  case (1 p)
  then show ?case by (simp add: decodes_def ietf_ranges_def)
next
  case (2 p lo hi itr)
  note b = descending_below [OF 2(2,3)]
  have low: "p - (hi - lo - 1 + (p - hi - 1) + 2) = lo" "high - (hi - lo - 1 + (p - hi - 1) + 2) = lo + n"
    unfolding 2(4) by (simp_all add: algebra_simps)
  have "decodes V e (process_ietf_blocks q (length itr) lo (lo + n) (AddRange q lo (lo + n) packets)) (ietf_block_bytes V lo itr)
      (ietf_ranges q n ((lo, hi) # itr) packets)"
    using 2(1) [OF b(4,5) refl] by (simp add: ietf_ranges_def)
  then have step: "decodes V e (\<lambda>r. let block_high = high - (hi - lo - 1 + (p - hi - 1) + 2); block_low = p - (hi - lo - 1 + (p - hi - 1) + 2)
      in process_ietf_blocks q (length itr) block_low block_high (AddRange q block_low block_high packets) r)
      (ietf_block_bytes V lo itr) (ietf_ranges q n ((lo, hi) # itr) packets)"
    unfolding low Let_def .
  have "process_ietf_blocks q (length ((lo, hi) # itr)) p high packets = (\<lambda>r.
      rd ''Unable to read gap block value.'' (ReadVarInt62 q r) (\<lambda>gap_block_value r.
      rd ''Unable to read gap block value.'' (ReadVarInt62 q r) (\<lambda>ack_block_value r.
      let block_high = high - (ack_block_value + gap_block_value + 2); block_low = p - (ack_block_value + gap_block_value + 2)
      in process_ietf_blocks q (length itr) block_low block_high (AddRange q block_low block_high packets) r)))"
    by (intro ext) simp
  then show ?case unfolding ietf_block_bytes.simps
    by (simp only:) (rule documented_decodes(9) [OF d b(1)], rule documented_decodes(9) [OF d b(2)], rule step)
qed

definition ietf_delay_read :: "u64 \<Rightarrow> u64" where
  "ietf_delay_read delay = (let d = push_bit 3 (drop_bit 3 delay) in if d = 0x3ffffffffff8 then Infinite else d)"

lemma decodes_map:
  assumes "decodes V e g bs v"
  shows "decodes V e (\<lambda>r. case g r of Inl msg \<Rightarrow> Inl msg | Inr (x, r) \<Rightarrow> Inr (h x, r)) bs (h v)"
  unfolding decodes_def
proof (intro allI impI)
  fix r left
  assume "rorder V r = e" "rest V r = bs @ left"
  from decodesD [OF assms this]
  show "\<exists>r'. (case g r of Inl msg \<Rightarrow> Inl msg | Inr (x, r) \<Rightarrow> Inr (h x, r)) = Inr (h v, r') \<and> rest V r' = left \<and> rorder V r' = e"
    by auto
qed

lemma ietf_ack_io:
  assumes d: "documented q V" and wf: "wf_ack 41 f" and p: "ack_packets f = p # ps" and n: "length ps < 2 ^ 62"
    and fin: "ack_delay_time f \<noteq> Infinite"
  shows "encodes q V e (AppendIetfAckFrame q f) (ietf_ack_bytes q V f p ps)"
    "decodes V e (ProcessIetfAckFrame q type ack) (tl (ietf_ack_bytes q V f p ps))
       (ack\<lparr>ack_largest_acked := ack_largest_acked f, ack_delay_time := ietf_delay_read (ack_delay_time f),
            ack_packets := ietf_ranges q (snd p - fst p) (p # ps) (ack_packets ack)\<rparr>)"
proof -
  obtain lo hi where lh: "p = (lo, hi)" by force
  note i = wf_ack_info [OF d wf p [unfolded lh]]
  from wf p lh have big: "unat (ack_largest_acked f) + 1 < 2 ^ 62" by (simp add: wf_ack_def)
  then have s: "unat hi = unat (ack_largest_acked f) + 1" using i(1) by (simp add: unat_word_ariths)
  have l: "unat lo < 2 ^ 62" "lo < hi" "unat hi < 2 ^ 62" using i(2) s big by (simp_all add: word_le_nat_alt word_less_nat_alt)
  note b = below_varint [OF l(2) le_refl l(3)]
  have v: "ack_largest_acked f < 2 ^ 62" "drop_bit 3 (ack_delay_time f) < 2 ^ 62"
  proof -
    show "ack_largest_acked f < 2 ^ 62" using big by (simp add: word_less_nat_alt)
    have "unat (ack_delay_time f) < 2 ^ 64" by (rule order_less_le_trans [OF unsigned_less]) simp
    then have "unat (ack_delay_time f) div 2 ^ 3 < 2 ^ 62" by (simp add: less_mult_imp_div_less)
    then show "drop_bit 3 (ack_delay_time f) < 2 ^ 62" by (simp only: word_less_nat_alt unat_drop_bit_div) simp
  qed
  have la: "LargestAcked q f = ack_largest_acked f" by (simp add: LargestAcked_def documented_state [OF d])
  show "encodes q V e (AppendIetfAckFrame q f) (ietf_ack_bytes q V f p ps)"
    unfolding AppendIetfAckFrame_def [abs_def] ietf_ack_bytes_def la p lh list.case prod.case Let_def kIetfAckTimestampShift_def
      fst_conv snd_conv
    using fin b(2) by (simp only: if_False)
      (intro documented_encodes [OF d] v length_varint [OF n] b(1) ietf_blocks_encodes [OF d i(3) l(1)])
  have blocks: "decodes V e (\<lambda>r. case process_ietf_blocks q (length ps) lo (lo + (hi - lo)) (AddRange q lo (lo + (hi - lo)) (ack_packets ack)) r of
          Inl msg \<Rightarrow> Inl msg
        | Inr (packets, r) \<Rightarrow> Inr (ack\<lparr>ack_largest_acked := ack_largest_acked f,
            ack_delay_time := ietf_delay_read (ack_delay_time f), ack_packets := packets\<rparr>, r))
      (ietf_block_bytes V lo ps)
      (ack\<lparr>ack_largest_acked := ack_largest_acked f, ack_delay_time := ietf_delay_read (ack_delay_time f),
            ack_packets := ietf_ranges q (hi - lo) ((lo, hi) # ps) (ack_packets ack)\<rparr>)"
    using decodes_map [OF ietf_blocks_decodes [OF d i(3) l(1) refl, where n = "hi - lo" and packets = "AddRange q lo (lo + (hi - lo)) (ack_packets ack)" and e = e],
        where h = "\<lambda>packets. ack\<lparr>ack_largest_acked := ack_largest_acked f, ack_delay_time := ietf_delay_read (ack_delay_time f), ack_packets := packets\<rparr>"]
    by (simp only: ietf_ranges_def fold_simps prod.case)
  have low: "ack_largest_acked f - (hi - lo - 1) = lo" "ack_largest_acked f + 1 = lo + (hi - lo)" using i(1) by simp_all
  show "decodes V e (ProcessIetfAckFrame q type ack) (tl (ietf_ack_bytes q V f p ps))
       (ack\<lparr>ack_largest_acked := ack_largest_acked f, ack_delay_time := ietf_delay_read (ack_delay_time f),
            ack_packets := ietf_ranges q (snd p - fst p) (p # ps) (ack_packets ack)\<rparr>)"
    unfolding ProcessIetfAckFrame_def [abs_def] ietf_ack_bytes_def lh append_Cons append_Nil list.sel Let_def fst_conv snd_conv
      kIetfAckTimestampShift_def
    by (rule documented_decodes(9) [OF d v(1)], rule documented_decodes(9) [OF d v(2)],
        rule documented_decodes(9) [OF d length_varint(1) [OF n]], rule documented_decodes(9) [OF d b(1)])
      (unfold length_varint(2) [OF n] low ietf_delay_read_def Let_def, rule blocks [unfolded ietf_delay_read_def Let_def])
qed

lemma ietf_ranges_equal:
  assumes q: "queue_documented q"
  shows "descending p ps \<Longrightarrow> \<forall>(lo, hi) \<in> set ps. hi - lo = n \<Longrightarrow> packets \<noteq> [] \<Longrightarrow> fst (last packets) = p \<Longrightarrow>
     ietf_ranges q n ps packets = packets @ ps"
proof (induction ps arbitrary: p packets)
  case (Cons i ps)
  obtain lo hi where i: "i = (lo, hi)" by force
  from Cons.prems i have *: "lo < hi" "hi < p" "descending lo ps" "lo + n = hi" by auto
  then have "AddRange q lo hi packets = packets @ [i]"
    using q Cons.prems(3,4) by (simp add: queue_documented_def i)
  with Cons.IH [OF *(3), of "packets @ [i]"] Cons.prems(2) * show ?case by (simp add: ietf_ranges_def i)
qed (simp add: ietf_ranges_def)

text \<open>
  IETF ack frames as they are. The frame is written whole or not at all; the reader gets the largest
  acked packet, the delay without its low three bits, and for every interval the right start but the
  length of the first interval, so it gets the sender's intervals when all have the same length.
\<close>

theorem ietf_ack_frame_read:
  assumes "documented q V" and "queue_documented q" and "wf_ack 41 f" and "ack_packets f = p # ps" and "length ps < 2 ^ 62"
    and "ack_delay_time f \<noteq> Infinite"
  shows "encodes q V e (AppendIetfAckFrame q f) (ietf_ack_bytes q V f p ps) \<and>
     decodes V e (ProcessIetfAckFrame q type empty_ack) (tl (ietf_ack_bytes q V f p ps))
       \<lparr>ack_largest_acked = ack_largest_acked f, ack_delay_time = ietf_delay_read (ack_delay_time f),
        ack_packets = ietf_ranges q (snd p - fst p) (p # ps) [], ack_received_packet_times = []\<rparr> \<and>
     ((\<forall>(lo, hi) \<in> set ps. hi - lo = snd p - fst p) \<longrightarrow> ietf_ranges q (snd p - fst p) (p # ps) [] = ack_packets f)"
proof -
  obtain lo hi where p: "p = (lo, hi)" by force
  note i = wf_ack_info [OF assms(1,3) assms(4) [unfolded p]]
  have "lo < hi" using i(1,2,4) by (simp add: word_le_nat_alt word_less_nat_alt unatSuc add.commute)
  then have "AddRange q lo hi [] = [(lo, hi)]" using assms(2) by (simp add: queue_documented_def)
  then have "ietf_ranges q (snd p - fst p) (p # ps) [] = ietf_ranges q (snd p - fst p) ps [(lo, hi)]" by (simp add: ietf_ranges_def p)
  with ietf_ranges_equal [OF assms(2) i(3), of "snd p - fst p" "[(lo, hi)]"]
  have "(\<forall>(lo, hi) \<in> set ps. hi - lo = snd p - fst p) \<longrightarrow> ietf_ranges q (snd p - fst p) (p # ps) [] = ack_packets f"
    using assms(4) by (simp add: p)
  moreover have "empty_ack\<lparr>ack_largest_acked := ack_largest_acked f, ack_delay_time := ietf_delay_read (ack_delay_time f),
      ack_packets := ietf_ranges q (snd p - fst p) (p # ps) (ack_packets empty_ack)\<rparr> =
      \<lparr>ack_largest_acked = ack_largest_acked f, ack_delay_time = ietf_delay_read (ack_delay_time f),
       ack_packets = ietf_ranges q (snd p - fst p) (p # ps) [], ack_received_packet_times = []\<rparr>"
    by (simp add: empty_ack_def)
  ultimately show ?thesis using ietf_ack_io [OF assms(1,3-6), of e] by metis
qed

theorem ietf_ack_frame_read_witness:
  "decodes demo_view NETWORK_BYTE_ORDER (ProcessIetfAckFrame demo 13 empty_ack) (tl (ietf_ack_bytes demo demo_view two_ranges (10, 11) [(7, 9)]))
     \<lparr>ack_largest_acked = 10, ack_delay_time = 16, ack_packets = [(10, 11), (7, 8)], ack_received_packet_times = []\<rparr>"
  using ietf_ack_frame_read [OF demo_documented demo_queue, of two_ranges "(10, 11)" "[(7, 9)]" NETWORK_BYTE_ORDER 13]
  by (simp add: two_ranges_def wf_ack_def Infinite_def ietf_delay_read_def ietf_ranges_def demo_sel)

text \<open>
  A lost acknowledgement. Packets 10, 8 and 7 are acknowledged; what \<open>AppendIetfAckFrame\<close> writes is read by
  \<open>ProcessIetfAckFrame\<close> as packets 10 and 7.
\<close>

theorem ietf_ack_loses_packet:
  "(case AppendIetfAckFrame demo two_ranges ([], 100, NETWORK_BYTE_ORDER) of
      Inl msg \<Rightarrow> None
    | Inr (bs, room) \<Rightarrow>
        (case ProcessIetfAckFrame demo (hd bs) empty_ack (tl bs, NETWORK_BYTE_ORDER) of
           Inl msg \<Rightarrow> None | Inr (f, r) \<Rightarrow> Some (ack_packets f))) = Some [(10, 11), (7, 8)]"
  by code_simp

text \<open>
  A full packet. With room for the fixed part only, the type byte announces further blocks but no block
  count is written; the reader cannot parse the frame.
\<close>

theorem ack_flag_without_blocks:
  "(case AppendAckFrameAndTypeByte demo 41 False 0 two_ranges ([], 7, NETWORK_BYTE_ORDER) of
      None \<Rightarrow> None
    | Some (bs, room) \<Rightarrow> Some (fst (ProcessAckFrame demo 41 logging False 0 (hd bs) empty_ack (tl bs, NETWORK_BYTE_ORDER) ([], 0)))) =
   Some (Inl ''Unable to read first ack block length.'')"
  by code_simp

text \<open>
  A cut gap. When the buffer ends inside a gap of more than 255 packets, the frame ends with an empty
  block and an incremental reader reports no last range.
\<close>

theorem ack_last_range_missing:
  "(case AppendAckFrameAndTypeByte demo 41 True 0
        \<lparr>ack_largest_acked = 1000, ack_delay_time = 5, ack_packets = [(1000, 1001), (7, 9)], ack_received_packet_times = []\<rparr>
        ([], 12, NETWORK_BYTE_ORDER) of
      None \<Rightarrow> None
    | Some (bs, room) \<Rightarrow> Some (fst (snd (ProcessAckFrame demo 41 logging True 0 (hd bs) empty_ack (tl bs, NETWORK_BYTE_ORDER) ([], 0))))) =
   Some [(1000, 1001, False)]"
  by code_simp

end
