(* ===== verification/Packet_Proofs.thy ===== *)
theory Packet_Proofs
  imports Framer_Process Ack_Proofs
begin

text \<open>
  The library behind the packet-level properties. Every reader of a frame is shown to leave no more
  bytes than it was given, so that the bound of the frame loop is never reached; three interfaces
  follow: what one frame keeps gives what the frame loop keeps (\<open>frame_invariant\<close>), what the steps of
  a packet keep gives what \<open>ProcessPacket\<close> keeps (\<open>packet_invariant\<close>), and the contract of a visitor
  under which every packet is processed to the end (\<open>framer_visitor\<close>).
\<close>

section \<open>Every reader moves forward\<close>

text \<open>
  A decoder with state that never hands back more than it was given and keeps a property of the
  first part of the state, the visitor.
\<close>

definition shrinks_s :: "('r, 'w) view \<Rightarrow> ('v \<Rightarrow> bool) \<Rightarrow> ('r \<Rightarrow> 'v ack_state \<Rightarrow> (string + 'a \<times> 'r) \<times> 'v ack_state) \<Rightarrow> bool" where
  "shrinks_s V P g \<longleftrightarrow> (\<forall>r s. P (fst s) \<longrightarrow> P (fst (snd (g r s))) \<and>
     (\<forall>v r'. fst (g r s) = Inr (v, r') \<longrightarrow> length (rest V r') \<le> length (rest V r)))"

definition keeps_visitor :: "('v \<Rightarrow> bool) \<Rightarrow> 'v ack_visitor \<Rightarrow> bool" where
  "keeps_visitor P visitor \<longleftrightarrow> (\<forall>l d v. P v \<longrightarrow> P (snd (OnAckFrameStart visitor l d v))) \<and>
     (\<forall>lo hi b v. P v \<longrightarrow> P (snd (OnAckRange visitor lo hi b v)))"

definition no_growth :: "('r, 'w) view \<Rightarrow> ('r \<Rightarrow> ('a \<times> 'r) option) \<Rightarrow> bool" where
  "no_growth V g \<longleftrightarrow> (\<forall>r v r'. g r = Some (v, r') \<longrightarrow> length (rest V r') \<le> length (rest V r) \<and> rorder V r' = rorder V r)"

lemma shrinks_rd': "no_growth V g \<Longrightarrow> (\<And>v. shrinks V (k v)) \<Longrightarrow> shrinks V (\<lambda>r. rd msg (g r) k)"
  unfolding no_growth_def by (rule shrinks_rd) auto

lemma no_growth_consumes: "consumes V g n \<Longrightarrow> no_growth V g"
  unfolding no_growth_def by (auto dest: consumes_step)

lemma no_growth_advances: "advances V g \<Longrightarrow> no_growth V g"
  unfolding no_growth_def by (auto dest!: advances_step)

lemma no_growth_if: "no_growth V f \<Longrightarrow> no_growth V g \<Longrightarrow> no_growth V (\<lambda>r. if c then f r else g r)"
  by (cases c) simp_all

lemma no_growth_Some: "no_growth V (\<lambda>r. Some (v, r))"
  by (simp add: no_growth_def)

lemma documented_no_growth:
  assumes d: "documented q V"
  shows "no_growth V (ReadUInt8 q)" "no_growth V (ReadUInt16 q)" "no_growth V (ReadUInt32 q)" "no_growth V (ReadUInt64 q)"
    "no_growth V (ReadUFloat16 q)" "no_growth V (ReadConnectionId q)" "no_growth V (ReadTag q)" "no_growth V (ReadStringPiece q n)"
    "no_growth V (ReadBytes q n)" "n \<le> 8 \<Longrightarrow> no_growth V (ReadBytesToUInt64 q n)" "no_growth V (ReadStringPiece16 q)"
  using documented_consumes [OF d] by (auto intro: no_growth_consumes no_growth_advances)

text \<open>The widths in which packet numbers, stream ids and offsets are read.\<close>

lemma ack_number_length_le: "documented q V \<Longrightarrow> ReadAckPacketNumberLength q version b \<le> 8"
  by (simp add: ReadAckPacketNumberLength_def Let_def documented_enums)

lemma sequence_number_length_le:
  assumes "documented q V"
  shows "ReadSequenceNumberLength q b \<in> {1, 2, 4, 6}"
  using documented_enums [OF assms] by (simp add: ReadSequenceNumberLength_def Let_def)

lemma u8_and_mask_le: "unat (x AND c) \<le> unat c" for x c :: u8
  by (metis word_and_le1 word_le_nat_alt)

lemma stream_flag_widths: "fl_stream_id_length (stream_flags_of q version b) \<le> 8" "fl_offset_length (stream_flags_of q version b) \<le> 8"
proof -
  have m: "unat (x AND 3) \<le> 3" "unat (x AND 7) \<le> 7" for x :: u8 using u8_and_mask_le [of x 3] u8_and_mask_le [of x 7] by simp_all
  have p: "2 ^ unat (x AND 3) \<le> (8 :: nat)" for x :: u8
    using power_increasing [OF m(1) [of x], of "2 :: nat"] by simp
  show "fl_stream_id_length (stream_flags_of q version b) \<le> 8"
    using m(1) [of "b AND NOT 128"] m(1) [of "drop_bit 3 (b AND NOT 192)"]
    by (simp add: stream_flags_of_def stream_flags_pre40_def stream_flags_41_def Let_def stream_consts ExtractBits_def GetMaskFromNumBits_def)
  show "fl_offset_length (stream_flags_of q version b) \<le> 8"
    using m(2) [of "drop_bit 2 (b AND NOT 128)"] p [of "drop_bit 1 (b AND NOT 192)"]
    by (simp add: stream_flags_of_def stream_flags_pre40_def stream_flags_41_def Let_def stream_consts ExtractBits_def GetMaskFromNumBits_def)
qed

lemma stream_shrinks:
  assumes d: "documented q V"
  shows "shrinks V (ProcessStreamFrame q version b)"
proof -
  have data: "no_growth V (\<lambda>r. if c then ReadStringPiece16 q r else ReadStringPiece q (BytesRemaining q r) r)" for c
    using documented_no_growth(8,11) [OF d] by (simp add: no_growth_def)
  show ?thesis
    unfolding ProcessStreamFrame_def [abs_def] Let_def
    by (intro shrinks_rd' shrinks_done data documented_no_growth(10) [OF d] stream_flag_widths)
qed

lemma rst_shrinks: "documented q V \<Longrightarrow> shrinks V (ProcessRstStreamFrame q version)"
  unfolding ProcessRstStreamFrame_def [abs_def]
  by (intro shrinks_rd' shrinks_if shrinks_done documented_no_growth) assumption+

lemma close_shrinks: "documented q V \<Longrightarrow> shrinks V (ProcessConnectionCloseFrame q)"
  unfolding ProcessConnectionCloseFrame_def [abs_def]
  by (intro shrinks_rd' shrinks_if shrinks_done documented_no_growth) assumption+

lemma goaway_shrinks: "documented q V \<Longrightarrow> shrinks V (ProcessGoAwayFrame q)"
  unfolding ProcessGoAwayFrame_def [abs_def]
  by (intro shrinks_rd' shrinks_if shrinks_done documented_no_growth) assumption+

lemma window_update_shrinks: "documented q V \<Longrightarrow> shrinks V (ProcessWindowUpdateFrame q)"
  unfolding ProcessWindowUpdateFrame_def [abs_def]
  by (intro shrinks_rd' shrinks_if shrinks_done documented_no_growth) assumption+

lemma blocked_shrinks: "documented q V \<Longrightarrow> shrinks V (ProcessBlockedFrame q)"
  unfolding ProcessBlockedFrame_def [abs_def]
  by (intro shrinks_rd' shrinks_if shrinks_done documented_no_growth) assumption+

lemma stop_waiting_shrinks: "documented q V \<Longrightarrow> n \<le> 8 \<Longrightarrow> shrinks V (ProcessStopWaitingFrame q p n)"
  unfolding ProcessStopWaitingFrame_def [abs_def]
  by (intro shrinks_rd' shrinks_if shrinks_done shrinks_fail documented_no_growth) assumption+

lemma padding_loop_shrinks:
  assumes d: "documented q V"
  shows "length (rest V (snd (padding_loop q k n r))) \<le> length (rest V r)"
proof (induction k arbitrary: n r)
  case (Suc k)
  show ?case
    using documented_no_growth(9) [OF d, of 1] Suc.IH
    by (fastforce simp: no_growth_def split: option.splits intro: le_trans)
qed simp

lemma padding_shrinks: "documented q V \<Longrightarrow> length (rest V (snd (ProcessPaddingFrame q version r))) \<le> length (rest V r)"
  using padding_loop_shrinks [of q V "BytesRemaining q r" 1 r] documented_state(14) [of q V r]
  by (auto simp: ProcessPaddingFrame_def split: prod.splits)

text \<open>The same for the ack frame, whatever the visitor answers.\<close>

lemma shrinks_sI:
  "(\<And>r s. P (fst s) \<Longrightarrow> P (fst (snd (g r s))) \<and> (\<forall>v r'. fst (g r s) = Inr (v, r') \<longrightarrow> length (rest V r') \<le> length (rest V r))) \<Longrightarrow>
     shrinks_s V P g"
  and shrinks_sD:
  "shrinks_s V P g \<Longrightarrow> P (fst s) \<Longrightarrow> P (fst (snd (g r s)))"
  "shrinks_s V P g \<Longrightarrow> P (fst s) \<Longrightarrow> fst (g r s) = Inr (v, r') \<Longrightarrow> length (rest V r') \<le> length (rest V r)"
  unfolding shrinks_s_def by blast+

lemma shrinks_s_rds_at:
  assumes g: "no_growth V g" and k: "\<And>v. shrinks_s V P (k v)" and h: "\<And>s. P (fst s) \<Longrightarrow> P (fst (h s))"
  shows "shrinks_s V P (\<lambda>r s. rds msg (g r) k (h s))"
proof (rule shrinks_sI)
  fix r and s :: "_ \<times> u64"
  assume P: "P (fst s)"
  show "P (fst (snd (rds msg (g r) k (h s)))) \<and>
     (\<forall>v r'. fst (rds msg (g r) k (h s)) = Inr (v, r') \<longrightarrow> length (rest V r') \<le> length (rest V r))"
  proof (cases "g r")
    case None
    with h [OF P] show ?thesis by (simp add: rds_def)
  next
    case (Some a)
    then obtain v r1 where 1: "g r = Some (v, r1)" by (cases a) simp
    with g have "length (rest V r1) \<le> length (rest V r)" by (simp add: no_growth_def)
    with 1 shrinks_sD(1) [OF k h [OF P]] shrinks_sD(2) [OF k h [OF P], THEN order_trans] show ?thesis
      by (auto simp: rds_def)
  qed
qed

lemma shrinks_s_rds: "no_growth V g \<Longrightarrow> (\<And>v. shrinks_s V P (k v)) \<Longrightarrow> shrinks_s V P (\<lambda>r. rds msg (g r) k)"
  by (rule shrinks_s_rds_at [where h = "\<lambda>s. s"])

lemma shrinks_s_done: "shrinks_s V P (\<lambda>r s. (Inr (v, r), s))"
  by (simp add: shrinks_s_def)

lemma shrinks_s_fail: "(\<And>s. P (fst s) \<Longrightarrow> P (fst (h s))) \<Longrightarrow> shrinks_s V P (\<lambda>r s. (Inl (msg r s), h s))"
  by (simp add: shrinks_s_def)

lemma shrinks_s_if: "shrinks_s V P f \<Longrightarrow> shrinks_s V P g \<Longrightarrow> shrinks_s V P (\<lambda>r s. if c r s then f r s else g r s)"
  by (rule shrinks_sI) (simp add: shrinks_sD)

lemma shrinks_s_range:
  assumes v: "keeps_visitor P visitor" and k: "\<And>ack. shrinks_s V P (k ack)"
  shows "shrinks_s V P (\<lambda>r. add_ack_range q visitor incremental lo hi last_range ack (\<lambda>ack. k ack r))"
proof (rule shrinks_sI)
  fix r and s :: "_ \<times> u64"
  assume P: "P (fst s)"
  let ?x = "OnAckRange visitor lo hi last_range (fst s)"
  have "P (fst (snd ?x, snd s))" using v P by (simp add: keeps_visitor_def)
  from this shrinks_sD [OF k this] shrinks_sD [OF k P]
  show "P (fst (snd (add_ack_range q visitor incremental lo hi last_range ack (\<lambda>ack. k ack r) s))) \<and>
     (\<forall>v r'. fst (add_ack_range q visitor incremental lo hi last_range ack (\<lambda>ack. k ack r) s) = Inr (v, r') \<longrightarrow>
        length (rest V r') \<le> length (rest V r))"
    by (simp add: add_ack_range_def split_beta)
qed

lemma shrinks_s_then:
  assumes f: "shrinks_s V P f" and g: "\<And>v. shrinks_s V P (g v)"
  shows "shrinks_s V P (\<lambda>r s. case f r s of (Inl msg, s) \<Rightarrow> (Inl msg, s) | (Inr (v, r), s) \<Rightarrow> g v r s)"
proof (rule shrinks_sI)
  fix r and s :: "_ \<times> u64"
  assume P: "P (fst s)"
  obtain res s1 where 1: "f r s = (res, s1)" by (rule prod.exhaust)
  with shrinks_sD [OF f P, of r] have "P (fst s1)" "\<And>v r'. res = Inr (v, r') \<Longrightarrow> length (rest V r') \<le> length (rest V r)"
    by auto
  with 1 shrinks_sD(1) [OF g this(1)] shrinks_sD(2) [OF g this(1), THEN order_trans]
  show "P (fst (snd (case f r s of (Inl msg, s) \<Rightarrow> (Inl msg, s) | (Inr (v, r), s) \<Rightarrow> g v r s))) \<and>
     (\<forall>v r'. fst (case f r s of (Inl msg, s) \<Rightarrow> (Inl msg, s) | (Inr (v, r), s) \<Rightarrow> g v r s) = Inr (v, r') \<longrightarrow>
        length (rest V r') \<le> length (rest V r))"
    by (auto split: sum.splits intro: order_trans)
qed

lemma shrinks_s_at:
  "(\<And>x. shrinks_s V P (f x)) \<Longrightarrow> (\<And>s. P (fst s) \<Longrightarrow> P (fst (h s))) \<Longrightarrow> shrinks_s V P (\<lambda>r s. f (x s) r (h s))"
  by (rule shrinks_sI) (blast intro: shrinks_sD)

lemma ack_blocks_shrink:
  assumes d: "documented q V" and n: "n \<le> 8" and v: "keeps_visitor P visitor"
  shows "shrinks_s V P (process_ack_blocks q visitor incremental n k first_received ack)"
proof (induction k arbitrary: first_received ack)
  case 0
  then show ?case by (simp add: shrinks_s_def)
next
  case (Suc k)
  show ?case
    unfolding process_ack_blocks.simps [abs_def] Let_def
    by (intro shrinks_s_rds shrinks_s_if shrinks_s_fail shrinks_s_range v documented_no_growth [OF d] n Suc.IH)
qed

lemma timestamps_shrink:
  assumes d: "documented q V"
  shows "shrinks_s V (P :: 'v \<Rightarrow> bool) (process_timestamps q creation_time k ack)"
proof (induction k arbitrary: ack)
  case 0
  then show ?case by (simp add: shrinks_s_def)
next
  case (Suc k)
  have "shrinks_s V P (\<lambda>r p. process_timestamps q creation_time k (a p) r (fst p, b p))" for a and b :: "'v ack_state \<Rightarrow> u64"
    by (rule shrinks_s_at [where f = "process_timestamps q creation_time k"]) (simp_all add: Suc.IH)
  then show ?case
    unfolding process_timestamps.simps [abs_def] Let_def case_prod_beta by (intro shrinks_s_rds documented_no_growth [OF d])
qed

lemma ack_timestamps_shrink:
  assumes d: "documented q V"
  shows "shrinks_s V P (ProcessTimestampsInAckFrame q creation_time n ack)"
proof -
  have "shrinks_s V P (\<lambda>r p. process_timestamps q creation_time (unat n - 1) (a p) r (fst p, b p))" for a b
    by (rule shrinks_s_at [where f = "process_timestamps q creation_time (unat n - 1)"]) (simp_all add: timestamps_shrink [OF d])
  then show ?thesis
    unfolding ProcessTimestampsInAckFrame_def [abs_def] Let_def case_prod_beta
    by (intro shrinks_s_if shrinks_s_done shrinks_s_rds_at shrinks_s_rds documented_no_growth [OF d])
qed

lemma ack_ranges_shrink:
  assumes d: "documented q V" and n: "n \<le> 8" and v: "keeps_visitor P visitor"
  shows "shrinks_s V P (process_ack_ranges q visitor incremental creation_time is_41 has n received_41 largest blocks ack_frame first_block)"
  unfolding process_ack_ranges_def [abs_def] Let_def
  by (intro shrinks_s_if shrinks_s_fail shrinks_s_range v shrinks_s_then ack_blocks_shrink [OF d n] shrinks_s_rds no_growth_if
      no_growth_Some documented_no_growth(1) [OF d] ack_timestamps_shrink [OF d])

lemma ack_shrinks:
  assumes d: "documented q V" and v: "keeps_visitor P visitor"
  shows "shrinks_s V P (ProcessAckFrame q version visitor incremental creation_time frame_type ack)"
proof -
  have start: "P (fst s) \<Longrightarrow> P (fst (snd (if incremental then OnAckFrameStart visitor l dl (fst s) else (True, fst s)), snd s))" for l dl s
    using v by (simp add: keeps_visitor_def)
  show ?thesis
    unfolding ProcessAckFrame_def [abs_def] Let_def case_prod_beta
    by (intro shrinks_s_rds documented_no_growth [OF d] no_growth_if no_growth_Some ack_number_length_le [OF d] shrinks_s_if
      shrinks_s_fail shrinks_s_rds_at ack_ranges_shrink [OF d _ v] start)
qed

section \<open>The frame loop ends\<close>

lemma tell_Next: "tell a r = (Next r', f') \<longleftrightarrow> r' = r \<and> a = (True, f')"
  by (cases a) (auto simp: tell_def)

lemma raise_error_no_Next [simp]: "raise_error visit err msg f \<noteq> (Next r', f')"
  by (simp add: raise_error_def)

lemma pass_frame_shrinks:
  "shrinks V g \<Longrightarrow> pass_frame visit err (g r) call f = (Next r', f') \<Longrightarrow> length (rest V r') \<le> length (rest V r)"
  by (auto simp: pass_frame_def tell_Next shrinks_def split: sum.splits prod.splits)

lemma process_ack_shrinks:
  assumes d: "documented q V" and p: "process_ack q lib visit frame_type r f = (Next r', f')"
  shows "length (rest V r') \<le> length (rest V r)"
proof -
  have "keeps_visitor (\<lambda>_. True) (framer_ack_visitor visit)" by (simp add: keeps_visitor_def)
  note a = shrinks_sD(2) [OF ack_shrinks [OF d this], where s = "(f, f_last_timestamp f)", OF TrueI]
  from p show ?thesis
    unfolding process_ack_def
    by (auto simp: Let_def tell_Next split: prod.splits sum.splits if_splits dest: arg_cong [where f = fst, THEN trans, THEN a])
qed

lemma process_frame_shrinks:
  assumes d: "documented q V" and n: "hd_packet_number_length header \<le> 8"
    and p: "process_frame q lib visit header frame_type r f = (Next r', f')"
  shows "length (rest V r') \<le> length (rest V r)"
  using p unfolding process_frame_def
  by (auto simp: tell_Next split: if_splits prod.splits
      dest: process_ack_shrinks [OF d] pass_frame_shrinks [OF stream_shrinks [OF d]] pass_frame_shrinks [OF rst_shrinks [OF d]]
        pass_frame_shrinks [OF close_shrinks [OF d]] pass_frame_shrinks [OF goaway_shrinks [OF d]]
        pass_frame_shrinks [OF window_update_shrinks [OF d]] pass_frame_shrinks [OF blocked_shrinks [OF d]]
        pass_frame_shrinks [OF stop_waiting_shrinks [OF d n]]
      intro: padding_shrinks [OF d, of "tversion f" r, THEN order_trans [rotated]])

lemma read_byte:
  assumes d: "documented q V"
  shows "parses V e (ReadByte q) [b] b" "consumes V (ReadByte q) 1"
proof -
  show "parses V e (ReadByte q) [b] b"
    using documented_reader(13) [OF d, of "[b]" 1 e] by (fastforce simp: parses_def ReadByte_def)
  show "consumes V (ReadByte q) 1"
    using documented_consumes(9) [OF d, of 1] by (fastforce simp: consumes_def ReadByte_def split: if_splits)
qed

lemma process_frames_total:
  assumes d: "documented q V" and n: "hd_packet_number_length header \<le> 8"
  shows "length (rest V r) \<le> k \<Longrightarrow> process_frames q lib visit header k r f \<noteq> None"
proof (induction k arbitrary: r f)
  case 0
  then show ?case by (simp add: process_frames.simps documented_state [OF d])
next
  case (Suc k)
  have "process_frames q lib visit header k r2 f2 \<noteq> None"
    if "ReadByte q r = Some (b, r1)" "process_frame q lib visit header b r1 f = (Next r2, f2)" for b r1 r2 f2
    using consumes_step [OF read_byte(2) [OF d] that(1)] process_frame_shrinks [OF d n that(2)] Suc
    by (intro Suc.IH) simp
  then show ?case
    by (subst process_frames.simps) (auto split: option.splits prod.splits step.splits)
qed

section \<open>Every packet is processed to an end\<close>

text \<open>
  What the framer keeps true and needs: a primary decrypter, and the nonce buffer of its fixed size.
  \<open>GetStartOfEncryptedData\<close> of the library is the size of the public header.
\<close>

definition framer_ok :: "('r, 'w) quic \<Rightarrow> ('w, 'd, 'e, 'v) framer \<Rightarrow> bool" where
  "framer_ok q f \<longleftrightarrow> f_decrypter f \<noteq> None \<and> length (f_last_nonce f) = len q DiversificationNonceSize"

definition header_size_documented :: "('d, 'e, 'm, 'a, 'p) lib \<Rightarrow> bool" where
  "header_size_documented lib \<longleftrightarrow>
     (\<forall>v c has_version has_nonce n. GetStartOfEncryptedData lib v c has_version has_nonce n =
        1 + c + (if has_version then 4 else 0) + (if has_nonce then 32 else 0) + n)"

text \<open>The part of the framer that reading a header leaves alone.\<close>

definition same_keys :: "('w, 'd, 'e, 'v) framer \<Rightarrow> ('w, 'd, 'e, 'v) framer \<Rightarrow> bool" where
  "same_keys f f' \<longleftrightarrow> f_decrypter f' = f_decrypter f \<and> f_alternative_decrypter f' = f_alternative_decrypter f \<and>
     f_decrypter_level f' = f_decrypter_level f \<and> f_alternative_decrypter_level f' = f_alternative_decrypter_level f \<and>
     f_alternative_decrypter_latch f' = f_alternative_decrypter_latch f \<and> f_perspective f' = f_perspective f \<and>
     f_largest_packet_number f' = f_largest_packet_number f \<and> f_visitor f' = f_visitor f \<and> f_version f' = f_version f"

lemma same_keys_simps [simp]:
  "same_keys f f" "same_keys f (set_detailed_error msg f)" "same_keys f (set_error err f)"
  by (simp_all add: same_keys_def set_detailed_error_def set_error_def)

lemma header_nonce_same: "header_nonce q b header r f = (res, f') \<Longrightarrow> same_keys f f'"
  by (auto simp: header_nonce_def same_keys_def set_detailed_error_def split: if_splits option.splits)

lemma header_version_same: "header_version q lib b header r f = (res, f') \<Longrightarrow> same_keys f f' \<and> f_last_nonce f' = f_last_nonce f"
  by (auto simp: header_version_def same_keys_def set_detailed_error_def Let_def split: if_splits option.splits)

lemma same_keys_trans: "same_keys f g \<Longrightarrow> same_keys g h \<Longrightarrow> same_keys f h"
  by (simp add: same_keys_def)

lemma ProcessPublicHeader_same: "ProcessPublicHeader q lib r f = (res, f') \<Longrightarrow> same_keys f f'"
  unfolding ProcessPublicHeader_def Let_def
  by (auto split: option.splits prod.splits if_splits dest!: header_version_same header_nonce_same intro: same_keys_trans)

text \<open>How much of the packet the header takes.\<close>

definition header_size :: "Perspective \<Rightarrow> QuicPacketHeader \<Rightarrow> nat" where
  "header_size p header = 1 + hd_connection_id_length header + (if hd_version_flag header \<and> p = IS_SERVER then 4 else 0) +
     (if hd_nonce header \<noteq> None then 32 else 0)"

lemma header_connection_id_size:
  assumes d: "documented q V" and h: "header_connection_id q b header r f = Some (header', r')"
  shows "rest V r' = drop (hd_connection_id_length header') (rest V r)" "hd_connection_id_length header' \<le> length (rest V r)"
    "hd_version_flag header' = hd_version_flag header" "hd_reset_flag header' = hd_reset_flag header" "rorder V r' = rorder V r"
proof -
  have "b AND 8 = 8 \<or> b AND 8 = 0"
  proof (cases "bit b 3")
    case True
    then have "b AND 8 = 8" by (intro bit_word_eqI) (auto simp: bit_simps bit_numeral_rec numeral_eq_Suc less_Suc_eq nth_Cons')
    then show ?thesis ..
  next
    case False
    then have "b AND 8 = 0" by (intro bit_word_eqI) (auto simp: bit_simps bit_numeral_rec numeral_eq_Suc less_Suc_eq nth_Cons')
    then show ?thesis ..
  qed
  then show "rest V r' = drop (hd_connection_id_length header') (rest V r)" "hd_connection_id_length header' \<le> length (rest V r)"
    "hd_version_flag header' = hd_version_flag header" "hd_reset_flag header' = hd_reset_flag header" "rorder V r' = rorder V r"
    using h consumes_step [OF documented_consumes(6) [OF d], of r]
    by (auto simp: header_connection_id_def Let_def documented_enums [OF d] split: if_splits)
qed

lemma header_version_size:
  assumes d: "documented q V" and h: "header_version q lib b header r f = (Some (header', r'), f')"
  defines "n \<equiv> if hd_version_flag header \<and> f_perspective f = IS_SERVER then 4 else 0"
  shows "rest V r' = drop n (rest V r) \<and> n \<le> length (rest V r) \<and> rorder V r' = rorder V r \<and>
     hd_connection_id_length header' = hd_connection_id_length header \<and> hd_version_flag header' = hd_version_flag header \<and>
     hd_reset_flag header' = hd_reset_flag header \<and> hd_packet_number_length header' = hd_packet_number_length header"
  using h consumes_step [OF documented_consumes(7) [OF d], of r]
  by (auto simp: n_def header_version_def Let_def split: if_splits option.splits)

lemma header_nonce_size:
  assumes d: "documented q V" and h: "header_nonce q b header r f = (Some (header', r'), f')" and n: "length (f_last_nonce f) = 32"
  shows "rest V r' = drop (if hd_nonce header' \<noteq> None then 32 else 0) (rest V r) \<and>
     (hd_nonce header' \<noteq> None \<longrightarrow> 32 \<le> length (rest V r)) \<and> rorder V r' = rorder V r \<and> length (f_last_nonce f') = 32 \<and>
     hd_connection_id_length header' = hd_connection_id_length header \<and> hd_version_flag header' = hd_version_flag header \<and>
     hd_reset_flag header' = hd_reset_flag header \<and> hd_packet_number_length header' = hd_packet_number_length header"
proof -
  have "length bs = 32" if "ReadBytes q 32 r = Some (bs, r2)" for bs r2
  proof -
    have c: "32 \<le> length (rest V r)" using consumes_step [OF documented_consumes(9) [OF d] that] by simp
    from parsesD [OF documented_reader(13) [OF d, of "take 32 (rest V r)" 32 "rorder V r"] refl, of "drop 32 (rest V r)"] c
    have "\<exists>r'. ReadBytes q 32 r = Some (take 32 (rest V r), r')" by auto
    with that c show ?thesis by auto
  qed
  then show ?thesis
    using h n consumes_step [OF documented_consumes(9) [OF d, of 32], of r]
    by (auto simp: header_nonce_def Let_def split: if_splits option.splits)
qed

lemma ProcessPublicHeader_size:
  assumes d: "documented q V" and h: "ProcessPublicHeader q lib r f = (Some (header, r'), f')"
    and n: "length (f_last_nonce f) = 32"
  shows "rest V r' = drop (header_size (f_perspective f) header) (rest V r)"
    "header_size (f_perspective f) header \<le> length (rest V r)" "rorder V r' = rorder V r"
    "length (f_last_nonce f') = 32" "hd_packet_number_length header \<in> {1, 2, 4, 6}"
proof -
  from h obtain b r0 h0 where 0: "ReadByte q r = Some (b, r0)"
    and h0: "h0 = (default_header lib)\<lparr>hd_reset_flag := (b AND flag q PACKET_PUBLIC_FLAGS_RST \<noteq> 0),
       hd_version_flag := (b AND flag q PACKET_PUBLIC_FLAGS_VERSION \<noteq> 0)\<rparr>"
    by (auto simp: ProcessPublicHeader_def split: option.splits)
  from h 0 obtain h1 r1 h2 r2 f2 where 1: "header_connection_id q b h0 r0 f = Some (h1, r1)"
    and 2: "header_version q lib b (h1\<lparr>hd_packet_number_length :=
       ReadSequenceNumberLength q (drop_bit kPublicHeaderSequenceNumberShift b)\<rparr>) r1 f = (Some (h2, r2), f2)"
    and 3: "header_nonce q b h2 r2 f2 = (Some (header, r'), f')"
    unfolding ProcessPublicHeader_def Let_def h0 by (auto split: option.splits prod.splits if_splits)
  note s0 = consumes_step [OF read_byte(2) [OF d] 0] and s1 = header_connection_id_size [OF d 1]
    and s2 = header_version_size [OF d 2] and same = header_version_same [OF 2]
  have n2: "length (f_last_nonce f2) = 32" using same n by simp
  note s3 = header_nonce_size [OF d 3 n2]
  show "rest V r' = drop (header_size (f_perspective f) header) (rest V r)"
    "header_size (f_perspective f) header \<le> length (rest V r)"
    using s0 s1 s2 s3 by (auto simp: header_size_def drop_drop add.commute add.assoc)
  show "rorder V r' = rorder V r" "length (f_last_nonce f') = 32" using s0 s1 s2 s3 by auto
  show "hd_packet_number_length header \<in> {1, 2, 4, 6}"
    using s2 s3 sequence_number_length_le [OF d] by simp
qed

section \<open>Invariants of the frame loop\<close>

text \<open>A property of the framer that the visitor keeps and that does not look at the error fields and the last timestamp.\<close>

locale frame_invariant =
  fixes visit :: "('w, 'd, 'e, 'v, 'a) visit" and P :: "('w, 'd, 'e, 'v) framer \<Rightarrow> bool"
  assumes visit_P: "P f \<Longrightarrow> P (snd (visit c f))"
    and error_P: "P f \<Longrightarrow> P (set_error err f)" "P f \<Longrightarrow> P (set_detailed_error msg f)"
    and timestamp_P: "P f \<Longrightarrow> P (f\<lparr>f_last_timestamp := t\<rparr>)"
begin

lemma RaiseError_P: "P f \<Longrightarrow> P (snd (RaiseError visit err f))"
  by (simp add: RaiseError_def visit_P error_P)

lemma RaiseError_res_P: "RaiseError visit err f = (ok, f') \<Longrightarrow> P f \<Longrightarrow> P f'"
  by (metis RaiseError_P snd_conv)

lemma raise_error_P: "P f \<Longrightarrow> P (snd (raise_error visit err msg f))"
  by (simp add: raise_error_def RaiseError_P error_P)

lemma tell_P: "P f \<Longrightarrow> P (snd (tell (visit c f) r))"
  by (simp add: tell_def visit_P)

lemma pass_frame_P: "P f \<Longrightarrow> P (snd (pass_frame visit err res call f))"
  by (simp add: pass_frame_def raise_error_P tell_P split: sum.splits prod.splits)

lemma process_ack_P:
  assumes d: "documented q V" and P: "P f"
  shows "P (snd (process_ack q lib visit frame_type r f))"
proof -
  have v: "keeps_visitor P (framer_ack_visitor visit)" by (simp add: keeps_visitor_def framer_ack_visitor_def visit_P)
  obtain res f1 t where 1: "ProcessAckFrame q (tversion f) (framer_ack_visitor visit) (f_use_incremental_ack_processing f)
      (f_creation_time f) frame_type (default_ack_frame lib) r (f, f_last_timestamp f) = (res, f1, t)" by (metis prod.exhaust)
  with shrinks_sD(1) [OF ack_shrinks [OF d v], where s = "(f, f_last_timestamp f)"] P have "P f1" by (metis fst_conv snd_conv)
  with 1 show ?thesis
    by (simp add: process_ack_def Let_def raise_error_P timestamp_P tell_P split: sum.splits prod.splits)
qed

lemma process_frame_P: "documented q V \<Longrightarrow> P f \<Longrightarrow> P (snd (process_frame q lib visit header frame_type r f))"
  by (simp add: process_frame_def pass_frame_P process_ack_P raise_error_P tell_P split: prod.splits)

lemma process_frames_P:
  assumes d: "documented q V"
  shows "P f \<Longrightarrow> process_frames q lib visit header k r f = Some (ok, f') \<Longrightarrow> P f'"
proof (induction k arbitrary: r f)
  case 0
  then show ?case by (simp add: process_frames.simps split: if_splits)
next
  case (Suc k)
  show ?case
  proof (cases "IsDoneReading q r \<or> ReadByte q r = None")
    case True
    with Suc.prems error_P(2) show ?thesis
      by (subst (asm) process_frames.simps) (auto split: if_splits dest: RaiseError_res_P)
  next
    case False
    then obtain b r1 where b: "ReadByte q r = Some (b, r1)" by force
    obtain st f1 where f: "process_frame q lib visit header b r1 f = (st, f1)" by force
    with process_frame_P [OF d Suc.prems(1), of lib header b r1] have "P f1" by simp
    with Suc.IH Suc.prems(2) False b f show ?thesis
      by (subst (asm) process_frames.simps) (auto split: step.splits)
  qed
qed

lemma ProcessFrameData_P:
  assumes "documented q V" and "P f" and "ProcessFrameData q lib visit header r f = Some (ok, f')"
  shows "P f'"
  using assms error_P(2) by (auto simp: ProcessFrameData_def process_frames_P split: if_splits dest: RaiseError_res_P)

end

text \<open>
  Properties that survive a whole packet: they also ignore the other fields that reading a header
  changes, and hold again after decryption, with the largest packet number brought up to date.
\<close>

locale packet_invariant = frame_invariant visit P
  for visit :: "('w, 'd, 'e, 'v, 'a) visit" and P :: "('w, 'd, 'e, 'v) framer \<Rightarrow> bool" +
  fixes q :: "('r, 'w) quic" and lib :: "('d, 'e, 'm, 'a, 'p) lib"
  assumes ietf_P: "P f \<Longrightarrow> P (f\<lparr>f_last_packet_is_ietf_quic := False\<rparr>)"
    and label_P: "P f \<Longrightarrow> P (f\<lparr>f_last_version_label := l\<rparr>)"
    and nonce_P: "P f \<Longrightarrow> length bs = length (f_last_nonce f) \<Longrightarrow> P (f\<lparr>f_last_nonce := bs\<rparr>)"
    and decrypt_P: "P f \<Longrightarrow> DecryptPayload q lib visit header packet n r f = Some (None, f') \<Longrightarrow> P f'"
      "P f \<Longrightarrow> DecryptPayload q lib visit header packet n r f = Some (Some plain, f') \<Longrightarrow>
       P (f'\<lparr>f_largest_packet_number := max (hd_packet_number header) (f_largest_packet_number f')\<rparr>)"
begin

lemma visit_res_P: "visit c f = (go_on, f') \<Longrightarrow> P f \<Longrightarrow> P f'"
  by (metis visit_P snd_conv)

lemma header_nonce_P:
  assumes d: "documented q V" and "P f" and "header_nonce q b header r f = (res, f')"
  shows "P f'"
proof -
  have "length bs = n" if "ReadBytes q n r = Some (bs, r2)" for bs r2 n
  proof -
    have c: "n \<le> length (rest V r)" using consumes_step [OF documented_consumes(9) [OF d] that] by simp
    from parsesD [OF documented_reader(13) [OF d, of "take n (rest V r)" n "rorder V r"] refl, of "drop n (rest V r)"] c
    have "\<exists>r'. ReadBytes q n r = Some (take n (rest V r), r')" by auto
    with that c show ?thesis by auto
  qed
  with assms show ?thesis by (auto simp: header_nonce_def nonce_P error_P split: if_splits option.splits)
qed

lemma ProcessPublicHeader_P:
  assumes d: "documented q V" and P: "P f" and h: "ProcessPublicHeader q lib r f = (res, f')"
  shows "P f'"
proof -
  have "P f2" if "header_version q lib b header r1 f = (res2, f2)" for b header r1 res2 f2
    using that P by (auto simp: header_version_def Let_def error_P label_P split: if_splits option.splits)
  with h P show ?thesis
    by (auto simp: ProcessPublicHeader_def Let_def error_P split: option.splits prod.splits if_splits dest!: header_nonce_P [OF d, rotated])
qed

lemma ProcessUnauthenticatedHeader_P:
  "P f \<Longrightarrow> ProcessUnauthenticatedHeader q visit header r f = (res, f') \<Longrightarrow> P f'"
  by (auto simp: ProcessUnauthenticatedHeader_def Let_def RaiseError_P error_P split: option.splits prod.splits if_splits dest: visit_res_P)

lemma ProcessDataPacket_P:
  assumes d: "documented q V" and P: "P f" and p: "ProcessDataPacket q lib visit header packet n r f = Some (ok, f')"
  shows "P f'"
proof -
  obtain res f1 where 1: "ProcessUnauthenticatedHeader q visit header r f = (res, f1)" by force
  note P1 = ProcessUnauthenticatedHeader_P [OF P 1]
  show ?thesis
  proof (cases res)
    case None
    with p 1 P1 show ?thesis by (simp add: ProcessDataPacket_def)
  next
    case (Some a)
    then obtain header1 r1 where a: "res = Some (header1, r1)" by (cases a) simp
    obtain plain f2 where 2: "DecryptPayload q lib visit header1 packet n r1 f1 = Some (plain, f2)"
      using p 1 a by (auto simp: ProcessDataPacket_def split: option.splits)
    show ?thesis
    proof (cases plain)
      case None
      with p 1 2 a decrypt_P(1) [OF P1] show ?thesis by (auto simp: ProcessDataPacket_def error_P dest: RaiseError_res_P)
    next
      case (Some bs)
      let ?f = "f2\<lparr>f_largest_packet_number := max (hd_packet_number header1) (f_largest_packet_number f2)\<rparr>"
      have "P ?f" using decrypt_P(2) [OF P1] 2 Some by simp
      with p 1 2 a Some show ?thesis
        by (auto simp: ProcessDataPacket_def Let_def visit_P split: prod.splits if_splits option.splits
            dest: RaiseError_res_P visit_res_P ProcessFrameData_P [OF d, rotated])
    qed
  qed
qed

lemma dispatch_packet_P:
  "documented q V \<Longrightarrow> P f \<Longrightarrow> dispatch_packet q lib visit header packet r f = Some (ok, f') \<Longrightarrow> P f'"
  by (auto simp: dispatch_packet_def ProcessVersionNegotiationPacket_def ProcessPublicResetPacket_def Let_def error_P visit_P
      split: if_splits option.splits dest: RaiseError_res_P ProcessDataPacket_P)

lemma ProcessPacket_P:
  assumes d: "documented q V" and P: "P f" and p: "ProcessPacket q lib visit packet f = Some (ok, f')"
  shows "P f'"
proof -
  let ?f = "snd (visit OnPacket (f\<lparr>f_last_packet_is_ietf_quic := False\<rparr>))"
  obtain res f1 where 1: "ProcessPublicHeader q lib (new_reader q packet (endianness q (tversion f))) ?f = (res, f1)" by force
  have "P f1" using ProcessPublicHeader_P [OF d _ 1] P by (simp add: visit_P ietf_P)
  with p 1 show ?thesis
    by (auto simp: ProcessPacket_def Let_def split: option.splits prod.splits if_splits
        dest: RaiseError_res_P visit_res_P dispatch_packet_P [OF d, rotated])
qed

end

section \<open>The visitor's contract\<close>

text \<open>
  What the framer needs of its visitor: it never takes the primary decrypter away, does not withdraw
  the alternative decrypter while it is told that it was used, and cannot change the perspective.
\<close>

locale framer_visitor =
  fixes q :: "('r, 'w) quic" and lib :: "('d, 'e, 'm, 'a, 'p) lib" and visit :: "('w, 'd, 'e, 'v, 'a) visit"
  assumes keeps_ok: "framer_ok q f \<Longrightarrow> framer_ok q (snd (visit c f))"
    and keeps_alternative: "f_alternative_decrypter f \<noteq> None \<Longrightarrow> f_alternative_decrypter (snd (visit (OnDecryptedPacket l) f)) \<noteq> None"
    and keeps_perspective: "f_perspective (snd (visit c f)) = f_perspective f"
begin

lemma switched_ok:
  assumes "framer_ok q f"
  defines "g \<equiv> \<lambda>l a. snd (visit (OnDecryptedPacket l) (f\<lparr>f_alternative_decrypter := Some a\<rparr>))"
  shows "framer_ok q (latch_decrypter q (g l a))" "framer_ok q (swap_decrypters (g l a))"
  using keeps_alternative [of "f\<lparr>f_alternative_decrypter := Some a\<rparr>" l] keeps_ok [of "f\<lparr>f_alternative_decrypter := Some a\<rparr>"] assms(1)
  by (simp_all add: g_def framer_ok_def latch_decrypter_def swap_decrypters_def)

lemma try_alternative_ok:
  assumes ok: "framer_ok q f" and t: "try_alternative q lib visit header ad enc n d f = (res, f')"
  shows "framer_ok q f'"
proof -
  have "framer_ok q (f\<lparr>f_alternative_decrypter := Some a\<rparr>)" for a using ok by (simp add: framer_ok_def)
  with t switched_ok [OF ok] show ?thesis
    by (auto simp: try_alternative_def Let_def split: option.splits prod.splits if_splits)
qed

lemma DecryptPayload_ok:
  "framer_ok q f \<Longrightarrow> DecryptPayload q lib visit header packet n r f = Some (res, f') \<Longrightarrow> framer_ok q f'"
  using keeps_ok [of "f\<lparr>f_decrypter := Some d\<rparr>" for d] try_alternative_ok [of "f\<lparr>f_decrypter := Some d\<rparr>" for d]
  by (auto simp: DecryptPayload_def Let_def framer_ok_def split: prod.splits option.splits bind_splits)

end

sublocale framer_visitor \<subseteq> packet_invariant visit "framer_ok q" q lib
proof
  fix f :: "('w, 'd, 'e, 'v) framer"
  assume ok: "framer_ok q f"
  then show "framer_ok q (snd (visit c f))" for c by (rule keeps_ok)
  show "framer_ok q (set_error err f)" "framer_ok q (set_detailed_error msg f)" "framer_ok q (f\<lparr>f_last_timestamp := t\<rparr>)"
    "framer_ok q (f\<lparr>f_last_packet_is_ietf_quic := False\<rparr>)" "framer_ok q (f\<lparr>f_last_version_label := l\<rparr>)" for err msg t l
    using ok by (simp_all add: framer_ok_def set_error_def set_detailed_error_def)
  show "length bs = length (f_last_nonce f) \<Longrightarrow> framer_ok q (f\<lparr>f_last_nonce := bs\<rparr>)" for bs
    using ok by (simp add: framer_ok_def)
  show "DecryptPayload q lib visit header packet n r f = Some (None, f') \<Longrightarrow> framer_ok q f'" for header packet n r f'
    using DecryptPayload_ok [OF ok] .
  show "DecryptPayload q lib visit header packet n r f = Some (Some plain, f') \<Longrightarrow>
     framer_ok q (f'\<lparr>f_largest_packet_number := max (hd_packet_number header) (f_largest_packet_number f')\<rparr>)"
    for header packet n r f' plain
    using DecryptPayload_ok [OF ok, of header packet n r "Some plain" f'] by (simp add: framer_ok_def)
qed

lemma read_versions_total:
  assumes d: "documented q V"
  shows "length (rest V r) < k \<Longrightarrow> read_versions q lib k versions r \<noteq> None"
proof (induction k arbitrary: versions r)
  case (Suc k)
  have "read_versions q lib k vs r1 \<noteq> None" if "ReadTag q r = Some (l, r1)" "\<not> IsDoneReading q r1" for l r1 vs
    using consumes_step [OF documented_consumes(7) [OF d] that(1)] Suc.prems by (intro Suc.IH) (simp, linarith)
  then show ?case by (auto simp: Let_def split: option.splits)
qed simp

context framer_visitor
begin

lemma DecryptPayload_total:
  assumes "framer_ok q f" and "header_size_documented lib"
    and "1 + hd_connection_id_length header + (if hd_version_flag header then 4 else 0) + (if hd_nonce header \<noteq> None then 32 else 0) +
      hd_packet_number_length header \<le> length packet"
  shows "DecryptPayload q lib visit header packet n r f \<noteq> None"
  using assms
  by (auto simp: DecryptPayload_def GetAssociatedDataFromEncryptedPacket_def header_size_documented_def peek_def framer_ok_def Let_def
      split: prod.splits option.splits)

lemma ProcessUnauthenticatedHeader_read:
  assumes d: "documented q V" and n: "hd_packet_number_length header \<le> 8"
    and u: "ProcessUnauthenticatedHeader q visit header r f = (Some (header', r'), f')"
  shows "\<exists>k. header' = header\<lparr>hd_packet_number := k\<rparr>" "hd_packet_number_length header \<le> length (rest V r)"
proof -
  from u obtain k w where r: "ReadBytesToUInt64 q (hd_packet_number_length header) r = Some (w, r')" and k: "header' = header\<lparr>hd_packet_number := k\<rparr>"
    by (auto simp: ProcessUnauthenticatedHeader_def ProcessAndCalculatePacketNumber_def Let_def split: option.splits prod.splits if_splits)
  from k show "\<exists>k. header' = header\<lparr>hd_packet_number := k\<rparr>" by blast
  show "hd_packet_number_length header \<le> length (rest V r)"
    using consumes_step [OF documented_consumes(10) [OF d n] r] by simp
qed

lemma ProcessDataPacket_total:
  assumes d: "documented q V" and lib: "header_size_documented lib" and ok: "framer_ok q f"
    and n: "hd_packet_number_length header \<in> {1, 2, 4, 6}"
    and fits: "header_size IS_SERVER header + length (rest V r) \<le> length packet"
  shows "ProcessDataPacket q lib visit header packet m r f \<noteq> None"
proof -
  obtain res f1 where 1: "ProcessUnauthenticatedHeader q visit header r f = (res, f1)" by force
  show ?thesis
  proof (cases res)
    case None
    with 1 show ?thesis by (simp add: ProcessDataPacket_def)
  next
    case (Some a)
    then obtain h r1 where a: "res = Some (h, r1)" by (cases a) simp
    have n8: "hd_packet_number_length header \<le> 8" using n by auto
    note u = ProcessUnauthenticatedHeader_read [OF d n8 1 [unfolded a]]
    from u(1) obtain k where h: "h = header\<lparr>hd_packet_number := k\<rparr>" ..
    have "DecryptPayload q lib visit h packet m r1 f1 \<noteq> None"
      using u(2) fits by (intro DecryptPayload_total lib ProcessUnauthenticatedHeader_P [OF ok 1]) (simp add: h header_size_def)
    moreover have "ProcessFrameData q lib visit h (new_reader q bs e) f2 \<noteq> None" for bs e f2
      using process_frames_total [OF d, of h "new_reader q bs e" "length bs" lib visit f2] n8
      by (auto simp: ProcessFrameData_def documented_state [OF d] h)
    ultimately show ?thesis
      using 1 a by (auto simp: ProcessDataPacket_def Let_def simp del: not_None_eq split: option.splits prod.splits)
  qed
qed

lemma dispatch_packet_total:
  assumes d: "documented q V" and lib: "header_size_documented lib" and ok: "framer_ok q f"
    and n: "hd_packet_number_length header \<in> {1, 2, 4, 6}"
    and fits: "header_size (f_perspective f) header + length (rest V r) \<le> length packet"
  shows "dispatch_packet q lib visit header packet r f \<noteq> None"
proof (cases "f_perspective f = IS_CLIENT \<and> hd_version_flag header")
  case True
  then show ?thesis
    using read_versions_total [OF d, of r "BytesRemaining q r + 1" lib "[]"]
    by (auto simp: dispatch_packet_def ProcessVersionNegotiationPacket_def documented_state [OF d] split: option.splits)
next
  case False
  then have "header_size IS_SERVER header + length (rest V r) \<le> length packet"
    using fits by (cases "f_perspective f") (auto simp: header_size_def)
  with False ProcessDataPacket_total [OF d lib ok n] show ?thesis by (auto simp: dispatch_packet_def)
qed

lemma ProcessPacket_total:
  assumes d: "documented q V" and lib: "header_size_documented lib" and ok: "framer_ok q f"
  shows "\<exists>success f'. ProcessPacket q lib visit packet f = Some (success, f') \<and> framer_ok q f'"
proof -
  let ?r = "new_reader q packet (endianness q (tversion f))"
  define f0 where "f0 = snd (visit OnPacket (f\<lparr>f_last_packet_is_ietf_quic := False\<rparr>))"
  have ok0: "framer_ok q f0" unfolding f0_def using ok by (simp add: visit_P ietf_P)
  then have n0: "length (f_last_nonce f0) = 32" by (simp add: framer_ok_def documented_enums [OF d])
  obtain res f1 where 1: "ProcessPublicHeader q lib ?r f0 = (res, f1)" by force
  note ok1 = ProcessPublicHeader_P [OF d ok0 1]
  have "ProcessPacket q lib visit packet f \<noteq> None"
  proof (cases res)
    case None
    with 1 show ?thesis by (simp add: ProcessPacket_def Let_def f0_def)
  next
    case (Some a)
    then obtain h r1 where a: "res = Some (h, r1)" by (cases a) simp
    note s = ProcessPublicHeader_size [OF d 1 [unfolded a] n0]
    have persp: "f_perspective f1 = f_perspective f0" using ProcessPublicHeader_same [OF 1] by (simp add: same_keys_def)
    have "dispatch_packet q lib visit h packet (set_endianness q e r1) g \<noteq> None"
      if "framer_ok q g" "f_perspective g = f_perspective f1" for g e
      using s(1,2,5) that persp
      by (intro dispatch_packet_total [OF d lib]) (simp_all add: documented_state [OF d])
    moreover have "framer_ok q (snd (visit c g)) \<and> f_perspective (snd (visit c g)) = f_perspective f1"
      if "framer_ok q g" "f_perspective g = f_perspective f1" for c g using that by (simp add: keeps_ok keeps_perspective)
    ultimately show ?thesis
      using 1 a ok1 by (simp add: ProcessPacket_def Let_def f0_def [symmetric] split_beta del: not_None_eq)
  qed
  then show ?thesis using ProcessPacket_P [OF d ok] by fastforce
qed

end

end
