(* ===== verification/Packet_Safety.thy ===== *)
theory Packet_Safety
  imports Packet_Proofs
begin

text \<open>
  What holds of the framer whatever the network sends: it processes every sequence of datagrams to
  the end, packet numbers advance only on packets that a decrypter accepted, the two decrypters
  change only by the steps of a small state machine in which a latched key is final, and false is
  returned only after an error was raised. The visitor's contract is a locale; the two visitor
  classes of the repository satisfy it.
\<close>

section \<open>The visitors of the repository\<close>

interpretation abstract_visitor: framer_visitor q lib AbstractQuicFramerVisitor for q lib
  by unfold_locales (simp_all add: AbstractQuicFramerVisitor_def)

interpretation ack_visitor: framer_visitor q lib AckFrameVisitor for q lib
  by unfold_locales (simp_all add: AckFrameVisitor_def AbstractQuicFramerVisitor_def framer_ok_def split: call.splits)

section \<open>Sequences of packets\<close>

inductive receives ::
  "('r, 'w) quic \<Rightarrow> ('d, 'e, 'm, 'a, 'p) lib \<Rightarrow> ('w, 'd, 'e, 'v, 'a) visit \<Rightarrow> ('w, 'd, 'e, 'v) framer \<Rightarrow> bytes list \<Rightarrow>
   ('w, 'd, 'e, 'v) framer \<Rightarrow> bool"
  for q lib visit where
  receives_Nil: "receives q lib visit f [] f"
| receives_Cons: "ProcessPacket q lib visit packet f = Some (success, f1) \<Longrightarrow> receives q lib visit f1 packets f2 \<Longrightarrow>
    receives q lib visit f (packet # packets) f2"

inductive_cases receives_NilE: "receives q lib visit f [] f'"
inductive_cases receives_ConsE: "receives q lib visit f (packet # packets) f'"

context packet_invariant
begin

lemma receives_P: "receives q lib visit f packets f' \<Longrightarrow> documented q V \<Longrightarrow> P f \<Longrightarrow> P f'"
  by (induction rule: receives.induct) (auto intro: ProcessPacket_P)

end

context framer_visitor
begin

lemma receives_total:
  assumes "documented q V" and "header_size_documented lib"
  shows "framer_ok q f \<Longrightarrow> \<exists>f'. receives q lib visit f packets f' \<and> framer_ok q f'"
proof (induction packets arbitrary: f)
  case Nil
  then show ?case by (blast intro: receives_Nil)
next
  case (Cons packet packets)
  with ProcessPacket_total [OF assms Cons.prems, of packet] show ?case by (blast intro: receives_Cons)
qed

end

lemma new_framer_ok: "MyQuicFramer q lib versions creation_time perspective visitor = Some f \<Longrightarrow> framer_ok q f"
  by (auto simp: MyQuicFramer_def framer_ok_def split: list.splits)

section \<open>A concrete library\<close>

text \<open>
  The instance for concrete runs: keys are bytes, encryption appends the key if there is room and
  decryption checks and removes it; handshake messages are association lists with a trivial encoding.
\<close>

definition demo_lib :: "(u8, u8, (u32 \<times> bytes) list, bytes, bytes) lib" where
  "demo_lib = \<lparr>
     new_NullDecrypter = (\<lambda>_. 0), new_NullEncrypter = (\<lambda>_. 0),
     default_header = \<lparr>hd_connection_id = 0, hd_connection_id_length = 8, hd_reset_flag = False, hd_version_flag = False,
       hd_packet_number_length = 6, hd_version = \<lparr>handshake_protocol = 0, transport_version = 0\<rparr>, hd_nonce = None, hd_packet_number = 0\<rparr>,
     default_ack_frame = empty_ack,
     DecryptPacket = (\<lambda>_ _ _ bs _ d. (if bs \<noteq> [] \<and> last bs = d then Some (butlast bs) else None, d)),
     SetDiversificationNonce = (\<lambda>_ d. d),
     EncryptPacket = (\<lambda>_ _ _ bs n e. (if length bs < n then Some (bs @ [e]) else None, e)),
     MaxPlaintextSize = (\<lambda>n _. n - 1),
     AssociatedData = (\<lambda>_. take 11), Plaintext = (\<lambda>_. drop 11),
     GetStartOfEncryptedData = (\<lambda>_ c v n p. 1 + c + (if v then 4 else 0) + (if n then 32 else 0) + p),
     CreateQuicVersionLabel = (\<lambda>v. of_nat (transport_version v)),
     ParseQuicVersionLabel = (\<lambda>l. \<lparr>handshake_protocol = 0, transport_version = unat l\<rparr>),
     kPRST = 1, kRNON = 2, kCADR = 3, kCHLO = [67, 72, 76, 79],
     reset_message = [], set_tag = (\<lambda>t m. (0, be_bytes 4 t) # m), SetValue = (\<lambda>t v m. (t, be_bytes 8 v) # m),
     SetStringPiece = (\<lambda>t bs m. (t, bs) # m), GetSerialized = (\<lambda>_ m. concat (map snd m)), ParseMessage = (\<lambda>_ _. None),
     tag_of = (\<lambda>_. 0), GetUint64 = (\<lambda>_ _. None), GetStringPiece = (\<lambda>_ _. None),
     unspecified = (\<lambda>a. a = []), no_address = [], EncodeAddress = id, DecodeAddress = Some\<rparr>"

definition demo_framer :: "nat \<Rightarrow> Perspective \<Rightarrow> 'v \<Rightarrow> (bytes \<times> nat \<times> Endianness, u8, u8, 'v) framer" where
  "demo_framer v p visitor = the (MyQuicFramer demo demo_lib [\<lparr>handshake_protocol = 0, transport_version = v\<rparr>] 0 p visitor)"

lemma demo_framer_new: "MyQuicFramer demo demo_lib [\<lparr>handshake_protocol = 0, transport_version = v\<rparr>] 0 p visitor = Some (demo_framer v p visitor)"
  by (simp add: demo_framer_def MyQuicFramer_def)

lemma demo_header_size: "header_size_documented demo_lib"
  by (simp add: header_size_documented_def demo_lib_def)

text \<open>A packet with one ping frame, sealed with a key.\<close>

definition ping_packet :: "u8 \<Rightarrow> bytes" where
  "ping_packet key = [8, 0, 0, 0, 0, 0, 0, 0, 9, 1, 7, key]"

lemma ping_run:
  "map_option (\<lambda>(success, f). (success, f_largest_packet_number f)) (ProcessPacket demo demo_lib AbstractQuicFramerVisitor (ping_packet 0)
     (demo_framer 41 IS_SERVER ())) = Some (True, 1)"
  "map_option (\<lambda>(success, f). (success, f_decrypter_level f)) (ProcessPacket demo demo_lib AbstractQuicFramerVisitor (ping_packet 5)
     (SetAlternativeDecrypter 2 (Some 5) True (demo_framer 41 IS_SERVER ()))) = Some (True, 2)"
  by code_simp+

lemma ping_received:
  "\<exists>f'. ProcessPacket demo demo_lib AbstractQuicFramerVisitor (ping_packet 0) (demo_framer 41 IS_SERVER ()) = Some (True, f') \<and>
     f_largest_packet_number f' = 1"
  "\<exists>f'. ProcessPacket demo demo_lib AbstractQuicFramerVisitor (ping_packet 5)
     (SetAlternativeDecrypter 2 (Some 5) True (demo_framer 41 IS_SERVER ())) = Some (True, f') \<and> f_decrypter_level f' = 2"
  using ping_run by (auto simp: map_option_eq_Some)

section \<open>Termination\<close>

text \<open>
  C2: a framer made by its constructor processes every sequence of datagrams, however malformed, to the
  end: no loop runs on, no byte outside a datagram is read and no null decrypter is used. Required are
  the documented behaviour of the library's readers and header size, and a visitor that keeps the
  contract.
\<close>

theorem framer_processes_everything:
  assumes "documented q V" and "header_size_documented lib" and "framer_visitor q visit"
    and "MyQuicFramer q lib versions creation_time perspective visitor = Some f"
  shows "\<exists>f'. receives q lib visit f packets f' \<and> f_decrypter f' \<noteq> None"
  using framer_visitor.receives_total [OF assms(3,1,2) new_framer_ok [OF assms(4)], of packets] by (auto simp: framer_ok_def)

theorem framer_processes_everything_witness:
  "\<exists>f'. receives demo demo_lib AckFrameVisitor (demo_framer 41 IS_SERVER empty_ack) [[], [8, 1], replicate 20 255] f' \<and> f_decrypter f' \<noteq> None"
  by (rule framer_processes_everything [OF demo_documented demo_header_size _ demo_framer_new]) (rule ack_visitor.framer_visitor_axioms)

section \<open>Packet numbers are authenticated\<close>

definition accepts :: "('d, 'e, 'm, 'a, 'p) lib \<Rightarrow> u64 \<Rightarrow> bool" where
  "accepts lib n \<longleftrightarrow> (\<exists>v ad enc len d plain d'. DecryptPacket lib v n ad enc len d = (Some plain, d'))"

lemma acceptsI: "DecryptPacket lib v n ad enc m d = (Some plain, d') \<Longrightarrow> accepts lib n"
  unfolding accepts_def by (intro exI)

text \<open>The outcomes of a decryption: primary accepted, refused by all, alternative accepted.\<close>

definition switched :: "('r, 'w) quic \<Rightarrow> ('w, 'd, 'e, 'v) framer \<Rightarrow> ('w, 'd, 'e, 'v) framer" where
  "switched q g = (if f_alternative_decrypter_latch g then latch_decrypter q g else swap_decrypters g)"

lemma try_alternative_cases:
  assumes "try_alternative q lib visit header ad enc n a f = (res, f')"
  obtains b where "res = None" "f' = f\<lparr>f_alternative_decrypter := Some b\<rparr>"
  | plain b where "res = Some plain" "accepts lib (hd_packet_number header)"
      "f' = switched q (snd (visit (OnDecryptedPacket (f_alternative_decrypter_level f)) (f\<lparr>f_alternative_decrypter := Some b\<rparr>)))"
proof -
  obtain out b where ob: "(if \<not> (f_alternative_decrypter_level f = level q ENCRYPTION_INITIAL \<and> f_perspective f = IS_CLIENT \<and> hd_nonce header = None)
      then DecryptPacket lib (tversion f) (hd_packet_number header) ad enc n
        (case hd_nonce header of None \<Rightarrow> a | Some x \<Rightarrow> SetDiversificationNonce lib x a)
      else (None, case hd_nonce header of None \<Rightarrow> a | Some x \<Rightarrow> SetDiversificationNonce lib x a)) = (out, b)"
    (is "?x = _") by force
  show thesis
  proof (cases out)
    case None
    with ob assms that(1) show thesis by (auto simp: try_alternative_def Let_def)
  next
    case (Some plain)
    then have "accepts lib (hd_packet_number header)" using ob by (auto split: if_splits intro: acceptsI)
    with Some ob assms that(2) [of plain b] show thesis by (auto simp: try_alternative_def Let_def switched_def)
  qed
qed

lemma DecryptPayload_cases:
  assumes "DecryptPayload q lib visit header packet n r f = Some (res, f')"
  obtains d plain where "res = Some plain" "accepts lib (hd_packet_number header)"
      "f' = snd (visit (OnDecryptedPacket (f_decrypter_level f)) (f\<lparr>f_decrypter := Some d\<rparr>))"
  | d where "res = None" "f' = f\<lparr>f_decrypter := Some d\<rparr>"
  | d b where "res = None" "f_alternative_decrypter f \<noteq> None" "f' = f\<lparr>f_decrypter := Some d, f_alternative_decrypter := Some b\<rparr>"
  | d b plain where "res = Some plain" "accepts lib (hd_packet_number header)" "f_alternative_decrypter f \<noteq> None"
      "f' = switched q (snd (visit (OnDecryptedPacket (f_alternative_decrypter_level f))
         (f\<lparr>f_decrypter := Some d, f_alternative_decrypter := Some b\<rparr>)))"
proof -
  from assms obtain ad d0 where ad: "GetAssociatedDataFromEncryptedPacket lib (tversion f) packet (hd_connection_id_length header)
      (hd_version_flag header) (hd_nonce header \<noteq> None) (hd_packet_number_length header) = Some ad" and d0: "f_decrypter f = Some d0"
    by (auto simp: DecryptPayload_def Let_def simp del: not_None_eq split: bind_splits)
  obtain out d where out: "DecryptPacket lib (tversion f) (hd_packet_number header) ad (fst (ReadRemainingPayload q r)) n d0 = (out, d)"
    by (rule prod.exhaust)
  show thesis
  proof (cases out)
    case (Some plain)
    then have "accepts lib (hd_packet_number header)" using out by (blast intro: acceptsI)
    with Some assms ad d0 out that(1) [of plain d] show thesis by (auto simp: DecryptPayload_def Let_def)
  next
    case None
    show thesis
    proof (cases "f_alternative_decrypter f")
      case None
      with assms ad d0 out \<open>out = None\<close> that(2) [of d] show thesis by (auto simp: DecryptPayload_def Let_def)
    next
      case (Some a)
      with assms ad d0 out None
      have "try_alternative q lib visit header ad (fst (ReadRemainingPayload q r)) n a (f\<lparr>f_decrypter := Some d\<rparr>) = (res, f')"
        by (auto simp: DecryptPayload_def Let_def)
      from this show thesis
      proof (rule try_alternative_cases)
        fix b
        assume "res = None" "f' = f\<lparr>f_decrypter := Some d, f_alternative_decrypter := Some b\<rparr>"
        with Some show thesis by (intro that(3)) simp_all
      next
        fix plain b
        assume "res = Some plain" "accepts lib (hd_packet_number header)"
          "f' = switched q (snd (visit (OnDecryptedPacket (f_alternative_decrypter_level (f\<lparr>f_decrypter := Some d\<rparr>)))
             (f\<lparr>f_decrypter := Some d, f_alternative_decrypter := Some b\<rparr>)))"
        with Some show thesis by (intro that(4)) simp_all
      qed
    qed
  qed
qed

lemma DecryptPayload_largest:
  assumes v: "\<And>c f. f_largest_packet_number (snd (visit c f)) = f_largest_packet_number f"
    and p: "DecryptPayload q lib visit header packet n r f = Some (res, f')"
  shows "f_largest_packet_number f' = f_largest_packet_number f"
  using p by (rule DecryptPayload_cases) (simp_all add: v switched_def latch_decrypter_def swap_decrypters_def)

text \<open>The largest number so far is the starting one or the number of an accepted packet.\<close>

definition authentic :: "('d, 'e, 'm, 'a, 'p) lib \<Rightarrow> u64 \<Rightarrow> u64 \<Rightarrow> bool" where
  "authentic lib start n \<longleftrightarrow> n = start \<or> start < n \<and> accepts lib n"

lemma largest_invariant:
  assumes v: "\<And>c f. f_largest_packet_number (snd (visit c f)) = f_largest_packet_number f"
  shows "packet_invariant visit (\<lambda>f. authentic lib start (f_largest_packet_number f)) q lib"
proof
  fix f :: "('b, 'c, 'd, 'e) framer" and header packet n r f' plain
  assume a: "authentic lib start (f_largest_packet_number f)"
    and p: "DecryptPayload q lib visit header packet n r f = Some (Some plain, f')"
  from p have "accepts lib (hd_packet_number header)" by (rule DecryptPayload_cases) simp_all
  with DecryptPayload_largest [OF v p] a
  show "authentic lib start (f_largest_packet_number
      (f'\<lparr>f_largest_packet_number := max (hd_packet_number header) (f_largest_packet_number f')\<rparr>))"
    by (auto simp: authentic_def max_def)
qed (auto simp: v set_error_def set_detailed_error_def dest: DecryptPayload_largest [OF v])

text \<open>
  C9: the largest packet number never decreases, and it is the number of a packet that one of the
  decrypters accepted unless it is still the starting one; so an attacker who cannot produce an
  acceptable packet cannot move the window in which truncated packet numbers are expanded.
\<close>

theorem largest_packet_number_authentic:
  assumes "documented q V" and "receives q lib visit f packets f'"
    and "\<forall>c f. f_largest_packet_number (snd (visit c f)) = f_largest_packet_number f"
  shows "f_largest_packet_number f' = f_largest_packet_number f \<or>
     f_largest_packet_number f < f_largest_packet_number f' \<and>
     (\<exists>v ad enc n d plain d'. DecryptPacket lib v (f_largest_packet_number f') ad enc n d = (Some plain, d'))"
proof -
  have "authentic lib (f_largest_packet_number f) (f_largest_packet_number f')"
    using assms(3) by (intro packet_invariant.receives_P [OF largest_invariant assms(2,1)]) (auto simp: authentic_def)
  then show ?thesis unfolding authentic_def accepts_def .
qed

theorem largest_packet_number_authentic_witness:
  "\<exists>f'. receives demo demo_lib AbstractQuicFramerVisitor (demo_framer 41 IS_SERVER ()) [ping_packet 0] f' \<and>
     f_largest_packet_number f' = 1 \<and> (\<exists>v ad enc n d plain d'. DecryptPacket demo_lib v 1 ad enc n d = (Some plain, d'))"
proof -
  obtain f' where r: "receives demo demo_lib AbstractQuicFramerVisitor (demo_framer 41 IS_SERVER ()) [ping_packet 0] f'"
    and l: "f_largest_packet_number f' = 1"
    using ping_received by (auto intro: receives.intros)
  have "f_largest_packet_number (demo_framer 41 IS_SERVER ()) = 0" by (simp add: demo_framer_def MyQuicFramer_def)
  with largest_packet_number_authentic [OF demo_documented r] l show ?thesis
    using r by (auto simp: AbstractQuicFramerVisitor_def)
qed

section \<open>The decrypters as a state machine\<close>

text \<open>
  The abstract state: the level of the primary decrypter, the level of the alternative one if there
  is one, and whether the alternative latches. A latched key has no way back.
\<close>

type_synonym key_state = "nat \<times> nat option \<times> bool"

definition key_state_of :: "('w, 'd, 'e, 'v) framer \<Rightarrow> key_state" where
  "key_state_of f = (f_decrypter_level f,
     (if f_alternative_decrypter f = None then None else Some (f_alternative_decrypter_level f)), f_alternative_decrypter_latch f)"

inductive key_step :: "key_state \<Rightarrow> key_state \<Rightarrow> bool" where
  key_latch: "key_step (p, Some a, True) (a, None, True)"
| key_swap: "key_step (p, Some a, False) (a, Some p, False)"

inductive_cases key_stepE: "key_step (p, Some a, l) k"
inductive_simps key_step_final: "key_step (p, None, l) k"

lemma key_steps_final: "key_step\<^sup>*\<^sup>* (p, None, l) k \<Longrightarrow> k = (p, None, l)"
  by (induction rule: rtranclp_induct) (auto simp: key_step_final)

lemma DecryptPayload_key_step:
  assumes v: "\<And>c f. key_state_of (snd (visit c f)) = key_state_of f"
    and ok: "\<And>c f. f_decrypter f \<noteq> None \<Longrightarrow> f_decrypter (snd (visit c f)) \<noteq> None"
    and p: "DecryptPayload q lib visit header packet n r f = Some (res, f')"
  shows "key_state_of f' = key_state_of f \<or> key_step (key_state_of f) (key_state_of f')"
  using p
proof (rule DecryptPayload_cases)
  fix d b
  assume alt: "f_alternative_decrypter f \<noteq> None"
  define g where "g = snd (visit (OnDecryptedPacket (f_alternative_decrypter_level f))
     (f\<lparr>f_decrypter := Some d, f_alternative_decrypter := Some b\<rparr>))"
  assume f': "f' = switched q (snd (visit (OnDecryptedPacket (f_alternative_decrypter_level f))
     (f\<lparr>f_decrypter := Some d, f_alternative_decrypter := Some b\<rparr>)))"
  have "key_state_of g = key_state_of f" unfolding g_def v using alt by (simp add: key_state_of_def)
  moreover have "f_decrypter g \<noteq> None" unfolding g_def by (rule ok) simp
  ultimately show ?thesis
    unfolding f' g_def [symmetric] using alt
    by (auto simp: key_state_of_def switched_def latch_decrypter_def swap_decrypters_def key_step.simps split: if_splits)
qed (use v in \<open>auto simp: key_state_of_def\<close>)

lemma key_state_of_updates [simp]:
  "key_state_of (set_error err f) = key_state_of f" "key_state_of (set_detailed_error msg f) = key_state_of f"
  "key_state_of (f\<lparr>f_last_timestamp := t\<rparr>) = key_state_of f" "key_state_of (f\<lparr>f_last_packet_is_ietf_quic := b\<rparr>) = key_state_of f"
  "key_state_of (f\<lparr>f_last_version_label := l\<rparr>) = key_state_of f" "key_state_of (f\<lparr>f_last_nonce := bs\<rparr>) = key_state_of f"
  "key_state_of (f\<lparr>f_largest_packet_number := m\<rparr>) = key_state_of f"
  by (simp_all add: key_state_of_def set_error_def set_detailed_error_def)

lemma key_invariant:
  assumes v: "\<And>c f. key_state_of (snd (visit c f)) = key_state_of f"
    and ok: "\<And>c f. f_decrypter f \<noteq> None \<Longrightarrow> f_decrypter (snd (visit c f)) \<noteq> None"
  shows "packet_invariant visit (\<lambda>f. key_step\<^sup>*\<^sup>* k (key_state_of f)) q lib"
proof
  fix f :: "('b, 'c, 'd, 'e) framer" and header packet n r f' plain
  assume a: "key_step\<^sup>*\<^sup>* k (key_state_of f)"
  have step: "key_step\<^sup>*\<^sup>* k (key_state_of f')" if "DecryptPayload q lib visit header packet n r f = Some (res, f')" for res
    using DecryptPayload_key_step [OF v ok that] a by (auto intro: rtranclp.rtrancl_into_rtrancl)
  then show "DecryptPayload q lib visit header packet n r f = Some (None, f') \<Longrightarrow> key_step\<^sup>*\<^sup>* k (key_state_of f')" .
  from step show "DecryptPayload q lib visit header packet n r f = Some (Some plain, f') \<Longrightarrow>
     key_step\<^sup>*\<^sup>* k (key_state_of (f'\<lparr>f_largest_packet_number := max (hd_packet_number header) (f_largest_packet_number f')\<rparr>))"
    by simp
qed (simp_all add: v)

text \<open>
  C4: the framer's two decrypters refine the key machine: under a visitor that installs no keys, any
  sequence of packets moves the abstract key state only by \<open>key_latch\<close> and \<open>key_swap\<close>. In particular a
  framer without an alternative decrypter, as after a latch, keeps the level of its primary one for good.
\<close>

theorem decrypters_refine_key_machine:
  assumes "documented q V" and "receives q lib visit f packets f'"
    and "\<forall>c f. key_state_of (snd (visit c f)) = key_state_of f"
    and "\<forall>c f. f_decrypter f \<noteq> None \<longrightarrow> f_decrypter (snd (visit c f)) \<noteq> None"
  shows "key_step\<^sup>*\<^sup>* (key_state_of f) (key_state_of f') \<and>
     (f_alternative_decrypter f = None \<longrightarrow> f_alternative_decrypter f' = None \<and> f_decrypter_level f' = f_decrypter_level f)"
proof -
  have "key_step\<^sup>*\<^sup>* (key_state_of f) (key_state_of f')"
    using assms(3,4) by (intro packet_invariant.receives_P [OF key_invariant assms(2,1)]) auto
  then show ?thesis using key_steps_final by (fastforce simp: key_state_of_def split: if_splits)
qed

theorem decrypters_refine_key_machine_witness:
  "\<exists>f'. receives demo demo_lib AbstractQuicFramerVisitor (SetAlternativeDecrypter 2 (Some 5) True (demo_framer 41 IS_SERVER ())) [ping_packet 5] f' \<and>
     f_decrypter_level f' = 2 \<and> key_step\<^sup>*\<^sup>* (0, Some 2, True) (key_state_of f')"
proof -
  let ?f = "SetAlternativeDecrypter 2 (Some 5) True (demo_framer 41 IS_SERVER ())"
  obtain f' where r: "receives demo demo_lib AbstractQuicFramerVisitor ?f [ping_packet 5] f'" and l: "f_decrypter_level f' = 2"
    using ping_received(2) by (auto intro: receives.intros)
  have "key_state_of ?f = (0, Some 2, True)"
    by (simp add: key_state_of_def SetAlternativeDecrypter_def demo_framer_def MyQuicFramer_def demo_sel)
  with decrypters_refine_key_machine [OF demo_documented r] r l show ?thesis
    by (auto simp: AbstractQuicFramerVisitor_def)
qed

section \<open>Errors\<close>

text \<open>How processing can end in false: an error other than \<open>QUIC_NO_ERROR\<close> was raised, or the visitor refused the header.\<close>

definition raised :: "('w, 'd, 'e, 'v, 'a) visit \<Rightarrow> ('w, 'd, 'e, 'v) framer \<Rightarrow> bool" where
  "raised visit f' \<longleftrightarrow> (\<exists>err g. err \<noteq> QUIC_NO_ERROR \<and> f' = snd (visit OnError (g\<lparr>f_error := err\<rparr>)))"

lemma raisedI: "err \<noteq> QUIC_NO_ERROR \<Longrightarrow> RaiseError visit err f = (ok, f') \<Longrightarrow> raised visit f' \<and> \<not> ok"
  by (auto simp: raised_def RaiseError_def set_error_def)

lemma RaiseError_raised [simp]: "err \<noteq> QUIC_NO_ERROR \<Longrightarrow> raised visit (snd (RaiseError visit err f))"
  using raisedI [of err visit f "fst (RaiseError visit err f)" "snd (RaiseError visit err f)"] by simp

lemma step_raised:
  "raise_error visit err msg f = (Return False, f') \<Longrightarrow> err \<noteq> QUIC_NO_ERROR \<Longrightarrow> raised visit f'"
  "tell a r \<noteq> (Return False, f')"
  "pass_frame visit err res call f = (Return False, f') \<Longrightarrow> err \<noteq> QUIC_NO_ERROR \<Longrightarrow> raised visit f'"
  by (auto simp: raise_error_def tell_def pass_frame_def split: sum.splits prod.splits if_splits)

lemma process_frame_raised: "process_frame q lib visit header b r f = (Return False, f') \<Longrightarrow> raised visit f'"
  by (auto simp: process_frame_def process_ack_def Let_def step_raised split: if_splits prod.splits sum.splits
      dest: step_raised(1) step_raised(3))

lemma process_frames_raised: "process_frames q lib visit header k r f = Some (False, f') \<Longrightarrow> raised visit f'"
proof (induction k arbitrary: r f)
  case 0
  then show ?case by (simp add: process_frames.simps split: if_splits)
next
  case (Suc k)
  then show ?case
    by (subst (asm) (2) process_frames.simps)
      (auto split: if_splits option.splits prod.splits step.splits dest: raisedI [rotated] process_frame_raised)
qed

lemma ProcessFrameData_raised: "ProcessFrameData q lib visit header r f = Some (False, f') \<Longrightarrow> raised visit f'"
  by (auto simp: ProcessFrameData_def split: if_splits dest: raisedI [rotated] process_frames_raised)

definition refused :: "('w, 'd, 'e, 'v, 'a) visit \<Rightarrow> ('w, 'd, 'e, 'v) framer \<Rightarrow> bool" where
  "refused visit f' \<longleftrightarrow> (\<exists>header g. \<not> fst (visit (OnUnauthenticatedHeader header) g) \<and>
     f' = (snd (visit (OnUnauthenticatedHeader header) g))
       \<lparr>f_detailed_error := ''Visitor asked to stop processing of unauthenticated header.''\<rparr>)"

lemma ProcessUnauthenticatedHeader_stops:
  "ProcessUnauthenticatedHeader q visit h r f = (None, f') \<Longrightarrow> raised visit f' \<or> refused visit f'"
  unfolding refused_def
  by (auto simp: ProcessUnauthenticatedHeader_def Let_def set_detailed_error_def split: option.splits prod.splits if_splits)
    (metis fst_conv snd_conv)

lemma ProcessDataPacket_stops:
  assumes p: "ProcessDataPacket q lib visit h packet n r f = Some (False, f')"
  shows "raised visit f' \<or> refused visit f'"
proof (cases "ProcessUnauthenticatedHeader q visit h r f")
  case (Pair res f1)
  show ?thesis
  proof (cases res)
    case None
    with p Pair show ?thesis by (auto simp: ProcessDataPacket_def dest: ProcessUnauthenticatedHeader_stops)
  next
    case (Some a)
    with p Pair have "raised visit f'"
      by (auto simp: ProcessDataPacket_def Let_def split: option.splits prod.splits if_splits
          dest: raisedI [rotated] ProcessFrameData_raised)
    then show ?thesis ..
  qed
qed

lemma dispatch_packet_stops:
  "dispatch_packet q lib visit h packet r f = Some (False, f') \<Longrightarrow> raised visit f' \<or> refused visit f'"
  by (auto simp: dispatch_packet_def ProcessVersionNegotiationPacket_def ProcessPublicResetPacket_def Let_def
      split: if_splits option.splits dest: raisedI [rotated] ProcessDataPacket_stops)

text \<open>
  C37: when \<open>ProcessPacket\<close> returns false, the last thing it did was to store an error other than
  \<open>QUIC_NO_ERROR\<close> and call the visitor's \<open>OnError\<close>, unless the visitor itself had refused the
  unauthenticated header: then no error is raised and only the detailed error says so.
\<close>

theorem ProcessPacket_false_raises:
  assumes "ProcessPacket q lib visit packet f = Some (False, f')"
  shows "(\<exists>err g. err \<noteq> QUIC_NO_ERROR \<and> f' = snd (visit OnError (g\<lparr>f_error := err\<rparr>))) \<or>
     (\<exists>header g. \<not> fst (visit (OnUnauthenticatedHeader header) g) \<and>
        f' = (snd (visit (OnUnauthenticatedHeader header) g))
          \<lparr>f_detailed_error := ''Visitor asked to stop processing of unauthenticated header.''\<rparr>)"
proof -
  obtain res f1 where 1: "ProcessPublicHeader q lib (new_reader q packet (endianness q (tversion f)))
      (snd (visit OnPacket (f\<lparr>f_last_packet_is_ietf_quic := False\<rparr>))) = (res, f1)" by force
  have "raised visit f' \<or> refused visit f'"
  proof (cases res)
    case None
    with assms 1 show ?thesis by (auto simp: ProcessPacket_def Let_def dest: raisedI [rotated])
  next
    case (Some a)
    with assms 1 show ?thesis
      by (auto simp: ProcessPacket_def Let_def split_beta simp del: split_paired_All split_paired_Ex split: if_splits dest: dispatch_packet_stops)
  qed
  then show ?thesis unfolding raised_def refused_def .
qed

theorem ProcessPacket_false_raises_witness:
  "\<exists>f'. ProcessPacket demo demo_lib AbstractQuicFramerVisitor [] (demo_framer 41 IS_SERVER ()) = Some (False, f') \<and>
     (\<exists>err g. err \<noteq> QUIC_NO_ERROR \<and> f' = snd (AbstractQuicFramerVisitor OnError (g\<lparr>f_error := err\<rparr>)))"
proof -
  have "map_option fst (ProcessPacket demo demo_lib AbstractQuicFramerVisitor [] (demo_framer 41 IS_SERVER ())) = Some False"
    by code_simp
  then obtain f' where "ProcessPacket demo demo_lib AbstractQuicFramerVisitor [] (demo_framer 41 IS_SERVER ()) = Some (False, f')"
    by (auto simp: map_option_eq_Some)
  with ProcessPacket_false_raises [OF this] show ?thesis by (auto simp: AbstractQuicFramerVisitor_def)
qed

section \<open>Plaintext size\<close>

lemma fold_least:
  fixes g :: "'a \<Rightarrow> nat option"
  defines "step \<equiv> \<lambda>i m. case g i of None \<Rightarrow> m | Some sz \<Rightarrow> if sz < m then sz else m"
  shows "fold step xs n \<le> n" "i \<in> set xs \<Longrightarrow> g i = Some sz \<Longrightarrow> fold step xs n \<le> sz"
    "fold step xs n = n \<or> (\<exists>i \<in> set xs. g i = Some (fold step xs n))"
proof -
  have le: "fold step xs n \<le> n" for xs n
  proof (induction xs arbitrary: n)
    case (Cons x xs)
    have "step x n \<le> n" by (auto simp: step_def split: option.splits)
    with Cons.IH [of "step x n"] show ?case by simp
  qed simp
  then show "fold step xs n \<le> n" .
  show "i \<in> set xs \<Longrightarrow> g i = Some sz \<Longrightarrow> fold step xs n \<le> sz"
  proof (induction xs arbitrary: n)
    case (Cons x xs)
    have "step i n \<le> sz" using Cons.prems by (simp add: step_def)
    with Cons le [of xs "step i n"] show ?case by auto
  qed simp
  show "fold step xs n = n \<or> (\<exists>i \<in> set xs. g i = Some (fold step xs n))"
  proof (induction xs arbitrary: n)
    case (Cons x xs)
    from Cons.IH [of "step x n"] show ?case by (auto simp: step_def split: option.splits if_splits)
  qed simp
qed

text \<open>
  CX: \<open>GetMaxPlaintextSize\<close> is the least of the ciphertext size and of what each installed encrypter
  allows for it, so that a plaintext of this size fits whichever level is used.
\<close>

theorem max_plaintext_size_least:
  "GetMaxPlaintextSize q lib n f \<le> n \<and>
     (\<forall>i \<in> {level q ENCRYPTION_NONE ..< level q NUM_ENCRYPTION_LEVELS}. \<forall>e. f_encrypter f i = Some e \<longrightarrow> GetMaxPlaintextSize q lib n f \<le> MaxPlaintextSize lib n e) \<and>
     (GetMaxPlaintextSize q lib n f = n \<or>
      (\<exists>i \<in> {level q ENCRYPTION_NONE ..< level q NUM_ENCRYPTION_LEVELS}. \<exists>e. f_encrypter f i = Some e \<and> GetMaxPlaintextSize q lib n f = MaxPlaintextSize lib n e))"
proof -
  let ?g = "\<lambda>i. map_option (MaxPlaintextSize lib n) (f_encrypter f i)"
  have eq: "GetMaxPlaintextSize q lib n f = fold (\<lambda>i m. case ?g i of None \<Rightarrow> m | Some sz \<Rightarrow> if sz < m then sz else m)
      [level q ENCRYPTION_NONE ..< level q NUM_ENCRYPTION_LEVELS] n"
    unfolding GetMaxPlaintextSize_def Let_def by (intro fold_cong) (auto split: option.splits)
  note least = fold_least [where g = ?g and xs = "[level q ENCRYPTION_NONE ..< level q NUM_ENCRYPTION_LEVELS]" and n = n,
      folded eq, unfolded set_upt]
  have "GetMaxPlaintextSize q lib n f \<le> MaxPlaintextSize lib n e" if "i \<in> {level q ENCRYPTION_NONE ..< level q NUM_ENCRYPTION_LEVELS}" "f_encrypter f i = Some e" for i e
    using least(2) [OF that(1), of "MaxPlaintextSize lib n e"] that(2) by simp
  with least(1,3) show ?thesis by (fastforce simp: map_option_eq_Some)
qed

theorem max_plaintext_size_least_witness:
  "GetMaxPlaintextSize demo demo_lib 10 (demo_framer 41 IS_SERVER ()) = 9 \<and>
   GetMaxPlaintextSize demo demo_lib 10 (demo_framer 41 IS_SERVER ()) \<le> MaxPlaintextSize demo_lib 10 0"
proof -
  have "f_encrypter (demo_framer 41 IS_SERVER ()) 0 = Some 0" by (simp add: demo_framer_def MyQuicFramer_def demo_sel demo_lib_def)
  moreover have "0 \<in> {level demo ENCRYPTION_NONE ..< level demo NUM_ENCRYPTION_LEVELS}" by (simp add: demo_sel)
  ultimately have "GetMaxPlaintextSize demo demo_lib 10 (demo_framer 41 IS_SERVER ()) \<le> MaxPlaintextSize demo_lib 10 0"
    by (rule max_plaintext_size_least [THEN conjunct2, THEN conjunct1, rule_format, rotated])
  moreover have "GetMaxPlaintextSize demo demo_lib 10 (demo_framer 41 IS_SERVER ()) = 9" by code_simp
  ultimately show ?thesis by simp
qed

end
