(* ===== verification/Header_Proofs.thy ===== *)
theory Header_Proofs
  imports Packet_Safety
begin

text \<open>
  The public header: the bytes \<open>AppendPacketHeader\<close> writes and what \<open>ProcessPublicHeader\<close> and
  \<open>ProcessUnauthenticatedHeader\<close> make of them on the other side, and the version negotiation packet.
\<close>

section \<open>A visitor that takes note\<close>

definition recording :: "('a call \<Rightarrow> 'v \<Rightarrow> 'v) \<Rightarrow> ('w, 'd, 'e, 'v, 'a) visit" where
  "recording note c f = (True, f\<lparr>f_visitor := note c (f_visitor f)\<rparr>)"

lemma abstract_visitor_recording: "AbstractQuicFramerVisitor = recording (\<lambda>_ v. v)"
  by (intro ext) (simp add: AbstractQuicFramerVisitor_def recording_def)

abbreviation noted :: "('a call \<Rightarrow> 'v \<Rightarrow> 'v) \<Rightarrow> 'a call list \<Rightarrow> ('w, 'd, 'e, 'v) framer \<Rightarrow> ('w, 'd, 'e, 'v) framer" where
  "noted note calls f \<equiv> f\<lparr>f_visitor := fold note calls (f_visitor f)\<rparr>"

section \<open>The flags byte\<close>

text \<open>
  Headers of data packets: no reset flag, a known connection-id length and packet-number width, a
  version only from the client and a nonce of 32 bytes only from the server.
\<close>

definition wf_header :: "Perspective \<Rightarrow> QuicPacketHeader \<Rightarrow> bool" where
  "wf_header sender header \<longleftrightarrow> \<not> hd_reset_flag header \<and> hd_connection_id_length header \<in> {0, 8} \<and>
     hd_packet_number_length header \<in> {1, 2, 4, 6} \<and> (hd_version_flag header \<longrightarrow> sender = IS_CLIENT) \<and>
     (\<forall>n. hd_nonce header = Some n \<longrightarrow> sender = IS_SERVER \<and> length n = 32)"

definition flags_byte :: "('r, 'w) quic \<Rightarrow> Perspective \<Rightarrow> QuicPacketHeader \<Rightarrow> u8" where
  "flags_byte q sender header =
     (if hd_connection_id_length header = 0 then public_flags_of q header OR flag q PACKET_PUBLIC_FLAGS_0BYTE_CONNECTION_ID
      else if sender = IS_CLIENT
      then (public_flags_of q header OR flag q PACKET_PUBLIC_FLAGS_8BYTE_CONNECTION_ID) OR flag q PACKET_PUBLIC_FLAGS_8BYTE_CONNECTION_ID_OLD
      else public_flags_of q header OR flag q PACKET_PUBLIC_FLAGS_8BYTE_CONNECTION_ID)"

lemma flags_byte_fields:
  assumes d: "documented q V" and wf: "wf_header sender header"
  shows "flags_byte q sender header AND 2 = 0" "flags_byte q sender header AND 1 \<noteq> 0 \<longleftrightarrow> hd_version_flag header"
    "flags_byte q sender header AND 8 = (if hd_connection_id_length header = 0 then 0 else 8)"
    "ReadSequenceNumberLength q (drop_bit 4 (flags_byte q sender header)) = hd_packet_number_length header"
    "flags_byte q sender header \<le> 63"
    "flags_byte q sender header AND 4 \<noteq> 0 \<longleftrightarrow> hd_nonce header \<noteq> None \<or> sender = IS_CLIENT \<and> hd_connection_id_length header = 8"
  using wf
  by (cases "hd_version_flag header"; cases "hd_nonce header"; cases sender;
      auto simp: wf_header_def flags_byte_def public_flags_of_def Let_def documented_enums [OF d] GetPacketNumberFlags_def
        ReadSequenceNumberLength_def kPublicHeaderSequenceNumberShift_def)+

section \<open>Writing a header\<close>

definition public_bytes ::
  "('r, 'w) quic \<Rightarrow> ('r, 'w) view \<Rightarrow> ('d, 'e, 'm, 'a, 'p) lib \<Rightarrow> Perspective \<Rightarrow> ParsedQuicVersion \<Rightarrow> QuicPacketHeader \<Rightarrow> bytes" where
  "public_bytes q V lib sender version header =
     [flags_byte q sender header] @
     (if hd_connection_id_length header = 0 then [] else cid_enc V (hd_connection_id header)) @
     (if hd_version_flag header then tag_enc V (NetToHost32 q (CreateQuicVersionLabel lib version)) else []) @
     (case hd_nonce header of None \<Rightarrow> [] | Some n \<Rightarrow> n)"

definition header_bytes ::
  "('r, 'w) quic \<Rightarrow> ('r, 'w) view \<Rightarrow> ('d, 'e, 'm, 'a, 'p) lib \<Rightarrow> Endianness \<Rightarrow> Perspective \<Rightarrow> ParsedQuicVersion \<Rightarrow> QuicPacketHeader \<Rightarrow> bytes" where
  "header_bytes q V lib e sender version header =
     public_bytes q V lib sender version header @ int_enc V e (hd_packet_number_length header) (hd_packet_number header)"

lemma header_bytes_length:
  assumes d: "documented q V" and wf: "wf_header sender header"
  shows "length (public_bytes q V lib sender version header) =
      1 + hd_connection_id_length header + (if hd_version_flag header then 4 else 0) + (if hd_nonce header \<noteq> None then 32 else 0)"
    "length (header_bytes q V lib e sender version header) =
      length (public_bytes q V lib sender version header) + hd_packet_number_length header"
proof -
  have "hd_packet_number_length header \<le> 8" using wf by (auto simp: wf_header_def)
  then show "length (header_bytes q V lib e sender version header) =
      length (public_bytes q V lib sender version header) + hd_packet_number_length header"
    by (simp add: header_bytes_def documented_lengths [OF d])
  show "length (public_bytes q V lib sender version header) =
      1 + hd_connection_id_length header + (if hd_version_flag header then 4 else 0) + (if hd_nonce header \<noteq> None then 32 else 0)"
    using wf by (auto simp: public_bytes_def wf_header_def documented_lengths [OF d] split: option.splits)
qed

lemma fst_case_bind: "fst (case x of None \<Rightarrow> (None, f) | Some w \<Rightarrow> (k w, g)) = Option.bind x k"
  by (cases x) simp_all

lemma header_emits:
  assumes d: "documented q V" and wf: "wf_header (f_perspective f) header"
  shows "emits q V e (\<lambda>w. fst (AppendPacketHeader q lib header w f)) (header_bytes q V lib e (f_perspective f) (f_version f) header)"
    and "AppendPacketHeader q lib header w f = (Some w', f') \<Longrightarrow> f' = f\<lparr>f_last_serialized_connection_id := hd_connection_id header\<rparr>"
proof -
  have none: "emits q V e Some []" by (rule emits_nothing) (simp add: documented_state [OF d])
  have n: "hd_packet_number_length header \<in> {1, 2, 4, 6, 8}" using wf by (auto simp: wf_header_def)
  let ?b = "flags_byte q (f_perspective f) header"
  have id: "emits q V e (\<lambda>w. Option.bind (WriteUInt8 q ?b w) (if hd_connection_id_length header = 0 then Some
      else WriteConnectionId q (hd_connection_id header)))
     ([?b] @ (if hd_connection_id_length header = 0 then [] else cid_enc V (hd_connection_id header)))"
    using none documented_writer [OF d] by (intro emits_bind) simp_all
  have tag: "emits q V e (\<lambda>w. if hd_version_flag header then WriteTag q (NetToHost32 q (CreateQuicVersionLabel lib (f_version f))) w else Some w)
     (if hd_version_flag header then tag_enc V (NetToHost32 q (CreateQuicVersionLabel lib (f_version f))) else [])"
    using none documented_writer [OF d] by (intro emits_if)
  have nonce: "emits q V e (\<lambda>w. case hd_nonce header of None \<Rightarrow> Some w
      | Some n \<Rightarrow> Option.bind (peek n 0 (len q DiversificationNonceSize)) (\<lambda>bs. WriteBytes q bs w)) (case hd_nonce header of None \<Rightarrow> [] | Some n \<Rightarrow> n)"
    using none documented_writer(8) [OF d] wf
    by (auto simp: wf_header_def peek_def documented_enums [OF d] split: option.splits)
  have eq: "fst (AppendPacketHeader q lib header w f) = Option.bind (Option.bind (WriteUInt8 q ?b w)
      (if hd_connection_id_length header = 0 then Some else WriteConnectionId q (hd_connection_id header))) (\<lambda>w.
      Option.bind (if hd_version_flag header then WriteTag q (NetToHost32 q (CreateQuicVersionLabel lib (f_version f))) w else Some w) (\<lambda>w.
      Option.bind (case hd_nonce header of None \<Rightarrow> Some w
        | Some n \<Rightarrow> Option.bind (peek n 0 (len q DiversificationNonceSize)) (\<lambda>bs. WriteBytes q bs w))
      (AppendPacketNumber q (hd_packet_number_length header) (hd_packet_number header))))" for w
  proof -
    have "hd_connection_id_length header = 0 \<or> hd_connection_id_length header = 8" using wf by (simp add: wf_header_def)
    then have "(if hd_connection_id_length header = len q PACKET_0BYTE_CONNECTION_ID
         then WriteUInt8 q (public_flags_of q header OR flag q PACKET_PUBLIC_FLAGS_0BYTE_CONNECTION_ID) w
         else if hd_connection_id_length header = len q PACKET_8BYTE_CONNECTION_ID
         then let public_flags = public_flags_of q header OR flag q PACKET_PUBLIC_FLAGS_8BYTE_CONNECTION_ID;
                  public_flags = (if f_perspective f = IS_CLIENT
                    then public_flags OR flag q PACKET_PUBLIC_FLAGS_8BYTE_CONNECTION_ID_OLD else public_flags)
              in Option.bind (WriteUInt8 q public_flags w) (WriteConnectionId q (hd_connection_id header))
         else Some w) = Option.bind (WriteUInt8 q ?b w) (if hd_connection_id_length header = 0 then Some else WriteConnectionId q (hd_connection_id header))"
      unfolding documented_enums(4,5) [OF d] flags_byte_def Let_def by auto
    then show ?thesis unfolding AppendPacketHeader_def Let_def fst_case_bind by (simp only:)
  qed
  show "emits q V e (\<lambda>w. fst (AppendPacketHeader q lib header w f)) (header_bytes q V lib e (f_perspective f) (f_version f) header)"
    unfolding eq header_bytes_def public_bytes_def
    using emits_bind [OF id emits_bind [OF tag emits_bind [OF nonce packet_number_emits [OF d n]]]] by simp
  show "AppendPacketHeader q lib header w f = (Some w', f') \<Longrightarrow> f' = f\<lparr>f_last_serialized_connection_id := hd_connection_id header\<rparr>"
    by (auto simp: AppendPacketHeader_def Let_def split: option.splits if_splits)
qed

section \<open>Reading it\<close>

definition public_header ::
  "('d, 'e, 'm, 'a, 'p) lib \<Rightarrow> ParsedQuicVersion \<Rightarrow> QuicPacketHeader \<Rightarrow> ('w, 'd, 'e, 'v) framer \<Rightarrow> QuicPacketHeader" where
  "public_header lib version header f = (default_header lib)\<lparr>
     hd_reset_flag := False, hd_version_flag := hd_version_flag header,
     hd_connection_id_length := hd_connection_id_length header,
     hd_connection_id := (if hd_connection_id_length header = 0 then f_last_serialized_connection_id f else hd_connection_id header),
     hd_packet_number_length := hd_packet_number_length header,
     hd_version := (if hd_version_flag header then version else hd_version (default_header lib)),
     hd_nonce := hd_nonce header\<rparr>"

definition after_public_header ::
  "('d, 'e, 'm, 'a, 'p) lib \<Rightarrow> ParsedQuicVersion \<Rightarrow> QuicPacketHeader \<Rightarrow> ('w, 'd, 'e, 'v) framer \<Rightarrow> ('w, 'd, 'e, 'v) framer" where
  "after_public_header lib version header f =
     (let f = (if hd_version_flag header then f\<lparr>f_last_version_label := CreateQuicVersionLabel lib version\<rparr> else f)
      in case hd_nonce header of None \<Rightarrow> f | Some n \<Rightarrow> f\<lparr>f_last_nonce := n\<rparr>)"

lemma public_header_read:
  assumes d: "documented q V" and wf: "wf_header sender header" and persp: "f_perspective f \<noteq> sender"
    and label: "ParseQuicVersionLabel lib (CreateQuicVersionLabel lib version) = version" and nonce: "length (f_last_nonce f) = 32"
    and r: "rorder V r = e" "rest V r = public_bytes q V lib sender version header @ left"
  shows "\<exists>r'. ProcessPublicHeader q lib r f = (Some (public_header lib version header f, r'), after_public_header lib version header f) \<and>
     rest V r' = left \<and> rorder V r' = e"
proof -
  let ?b = "flags_byte q sender header"
  note b = flags_byte_fields [OF d wf]
  let ?cid = "if hd_connection_id_length header = 0 then [] else cid_enc V (hd_connection_id header)"
  let ?tag = "if hd_version_flag header then tag_enc V (NetToHost32 q (CreateQuicVersionLabel lib version)) else []"
  let ?nonce = "case hd_nonce header of None \<Rightarrow> [] | Some n \<Rightarrow> n"
  from parsesD [OF read_byte(1) [OF d] r(1), of ?b "?cid @ ?tag @ ?nonce @ left"] r(2)
  obtain r1 where 1: "ReadByte q r = Some (?b, r1)" "rest V r1 = ?cid @ ?tag @ ?nonce @ left" "rorder V r1 = e"
    by (auto simp: public_bytes_def)
  define h1 where "h1 = (default_header lib)\<lparr>hd_reset_flag := False, hd_version_flag := hd_version_flag header\<rparr>"
  define h2 where "h2 = h1\<lparr>hd_connection_id_length := hd_connection_id_length header,
     hd_connection_id := (if hd_connection_id_length header = 0 then f_last_serialized_connection_id f else hd_connection_id header)\<rparr>"
  have "\<exists>r2. header_connection_id q ?b h1 r1 f = Some (h2, r2) \<and> rest V r2 = ?tag @ ?nonce @ left \<and> rorder V r2 = e"
  proof (cases "hd_connection_id_length header = 0")
    case True
    with 1 b(3) show ?thesis by (simp add: header_connection_id_def documented_enums [OF d] h2_def)
  next
    case False
    then have "hd_connection_id_length header = 8" using wf by (auto simp: wf_header_def)
    with False 1 b(3) parsesD [OF documented_reader(7) [OF d] 1(3), of "hd_connection_id header" "?tag @ ?nonce @ left"] show ?thesis
      by (auto simp: header_connection_id_def documented_enums [OF d] h2_def)
  qed
  then obtain r2 where 2: "header_connection_id q ?b h1 r1 f = Some (h2, r2)" "rest V r2 = ?tag @ ?nonce @ left" "rorder V r2 = e" by blast
  define h3 where "h3 = h2\<lparr>hd_packet_number_length := hd_packet_number_length header\<rparr>"
  define h4 where "h4 = h3\<lparr>hd_version := (if hd_version_flag header then version else hd_version (default_header lib))\<rparr>"
  define f1 where "f1 = (if hd_version_flag header then f\<lparr>f_last_version_label := CreateQuicVersionLabel lib version\<rparr> else f)"
  have "\<exists>r3. header_version q lib ?b h3 r2 f = (Some (h4, r3), f1) \<and> rest V r3 = ?nonce @ left \<and> rorder V r3 = e"
  proof (cases "hd_version_flag header")
    case True
    then have "f_perspective f = IS_SERVER" using wf persp by (cases "f_perspective f") (auto simp: wf_header_def)
    with True 2 b(5) label parsesD [OF documented_reader(8) [OF d] 2(3), of "NetToHost32 q (CreateQuicVersionLabel lib version)" "?nonce @ left"]
    show ?thesis
      by (auto simp: header_version_def Let_def h4_def h3_def h2_def h1_def f1_def documented_state [OF d] documented_enums [OF d] not_less)
  next
    case False
    with 2 show ?thesis by (simp add: header_version_def h4_def h3_def h2_def h1_def f1_def)
  qed
  then obtain r3 where 3: "header_version q lib ?b h3 r2 f = (Some (h4, r3), f1)" "rest V r3 = ?nonce @ left" "rorder V r3 = e" by blast
  have f1: "f_perspective f1 = f_perspective f" "length (f_last_nonce f1) = 32" using nonce by (simp_all add: f1_def)
  have "\<exists>r4. header_nonce q ?b h4 r3 f1 = (Some (h4\<lparr>hd_nonce := hd_nonce header\<rparr>, r4), after_public_header lib version header f) \<and>
     rest V r4 = left \<and> rorder V r4 = e"
  proof (cases "hd_nonce header")
    case None
    then have "\<not> (?b AND 4 \<noteq> 0 \<and> f_perspective f1 = IS_CLIENT)" using b(6) persp f1 by auto
    then have "header_nonce q ?b h4 r3 f1 = (Some (h4\<lparr>hd_nonce := None\<rparr>, r3), f1)"
      by (auto simp: header_nonce_def documented_enums [OF d])
    with None 3 show ?thesis by (simp add: after_public_header_def f1_def Let_def)
  next
    case (Some n)
    with wf have n: "sender = IS_SERVER" "length n = 32" "\<not> hd_version_flag header" by (auto simp: wf_header_def)
    have p: "f_perspective f1 = IS_CLIENT" using persp f1 n by (cases "f_perspective f") auto
    from parsesD [OF documented_reader(13) [OF d n(2)] 3(3), of left] 3(2) Some
    obtain r4 where 4: "ReadBytes q 32 r3 = Some (n, r4)" "rest V r4 = left" "rorder V r4 = e" by auto
    have "?b AND 1 = 0" using b(2) n(3) by simp
    with Some p f1 4 b(1,6) have "header_nonce q ?b h4 r3 f1 = (Some (h4\<lparr>hd_nonce := Some n\<rparr>, r4), f1\<lparr>f_last_nonce := n\<rparr>)"
      by (simp add: header_nonce_def documented_enums [OF d])
    with Some 4 show ?thesis by (simp add: after_public_header_def f1_def Let_def)
  qed
  then obtain r4 where 4: "header_nonce q ?b h4 r3 f1 = (Some (h4\<lparr>hd_nonce := hd_nonce header\<rparr>, r4), after_public_header lib version header f)"
    "rest V r4 = left" "rorder V r4 = e" by blast
  have h: "h4\<lparr>hd_nonce := hd_nonce header\<rparr> = public_header lib version header f"
    by (simp add: public_header_def h4_def h3_def h2_def h1_def)
  have r1: "\<not> hd_reset_flag h1" by (simp add: h1_def)
  have "ProcessPublicHeader q lib r f = (Some (public_header lib version header f, r4), after_public_header lib version header f)"
    using 1 2 3 4 b h r1 by (simp add: ProcessPublicHeader_def Let_def documented_enums [OF d] kPublicHeaderSequenceNumberShift_def
        not_less h1_def [symmetric] h3_def [symmetric])
  with 4 show ?thesis by blast
qed

lemma unauthenticated_header_read:
  assumes d: "documented q V" and n: "hd_packet_number_length header \<in> {1, 2, 4, 6}"
    and win: "in_window (hd_packet_number_length header) (f_largest_packet_number f) p" and p: "p \<noteq> 0"
    and r: "rorder V r = e" "rest V r = int_enc V e (hd_packet_number_length header) p @ left"
  shows "\<exists>r'. ProcessUnauthenticatedHeader q (recording note) header r f =
     (Some (header\<lparr>hd_packet_number := p\<rparr>, r'), noted note [OnUnauthenticatedHeader (header\<lparr>hd_packet_number := p\<rparr>)] f) \<and>
     rest V r' = left \<and> rorder V r' = e"
proof -
  have "hd_packet_number_length header \<le> 8" using n by auto
  from parsesD [OF documented_reader(10) [OF d this] r] packet_number_expanded [OF n win] p show ?thesis
    by (auto simp: ProcessUnauthenticatedHeader_def ProcessAndCalculatePacketNumber_def Let_def recording_def)
qed

section \<open>Version negotiation\<close>

definition versions_bytes :: "('r, 'w) quic \<Rightarrow> ('r, 'w) view \<Rightarrow> ('d, 'e, 'm, 'a, 'p) lib \<Rightarrow> ParsedQuicVersion list \<Rightarrow> bytes" where
  "versions_bytes q V lib versions = concat (map (\<lambda>v. tag_enc V (HostToNet32 q (CreateQuicVersionLabel lib v))) versions)"

lemma versions_bytes_length: "documented q V \<Longrightarrow> length (versions_bytes q V lib versions) = 4 * length versions"
  by (induction versions) (simp_all add: versions_bytes_def documented_lengths)

lemma write_versions_emits:
  assumes d: "documented q V"
  shows "emits q V e (write_versions q lib versions) (versions_bytes q V lib versions)"
proof (induction versions)
  case Nil
  have "write_versions q lib [] = Some" by (rule ext) simp
  then show ?case by (simp add: versions_bytes_def emits_nothing documented_state [OF d])
next
  case (Cons v versions)
  have "write_versions q lib (v # versions) = (\<lambda>w. Option.bind (WriteTag q (HostToNet32 q (CreateQuicVersionLabel lib v)) w) (write_versions q lib versions))"
    by (rule ext) simp
  with emits_bind [OF documented_writer(7) [OF d] Cons.IH] show ?case by (simp add: versions_bytes_def)
qed

lemma read_versions_all:
  assumes d: "documented q V"
  shows "versions \<noteq> [] \<Longrightarrow> \<forall>v \<in> set versions. ParseQuicVersionLabel lib (CreateQuicVersionLabel lib v) = v \<Longrightarrow>
     rest V r = versions_bytes q V lib versions \<Longrightarrow> length versions \<le> k \<Longrightarrow>
     read_versions q lib k before r = Some (Some (before @ versions))"
proof (induction versions arbitrary: k before r)
  case (Cons v versions)
  have "rest V r = tag_enc V (HostToNet32 q (CreateQuicVersionLabel lib v)) @ versions_bytes q V lib versions"
    using Cons.prems(3) by (simp add: versions_bytes_def)
  from parsesD [OF documented_reader(8) [OF d] refl this] obtain r1 where 1:
    "ReadTag q r = Some (HostToNet32 q (CreateQuicVersionLabel lib v), r1)" "rest V r1 = versions_bytes q V lib versions" by auto
  obtain k' where k: "k = Suc k'" using Cons.prems(4) by (cases k) auto
  have v: "ParseQuicVersionLabel lib (NetToHost32 q (HostToNet32 q (CreateQuicVersionLabel lib v))) = v"
    using Cons.prems(2) by (simp add: documented_state [OF d])
  show ?case
  proof (cases "versions = []")
    case True
    with 1 k v show ?thesis by (simp add: documented_state [OF d] versions_bytes_def)
  next
    case False
    then have "rest V r1 \<noteq> []" using 1(2) versions_bytes_length [OF d, of lib versions] by (cases versions) auto
    with 1 k v False Cons.IH [of r1 k' "before @ [v]"] Cons.prems show ?thesis by (simp add: documented_state [OF d])
  qed
qed simp

lemma version_negotiation_header:
  fixes lib :: "('d, 'e, 'm, 'a, 'p) lib"
  assumes d: "documented q V" and c: "f_perspective f = IS_CLIENT" and r: "rest V r = 13 # cid_enc V cid @ left"
  defines "h \<equiv> (default_header lib)\<lparr>hd_reset_flag := False, hd_version_flag := True, hd_connection_id := cid,
     hd_connection_id_length := 8, hd_packet_number_length := 1, hd_nonce := None\<rparr>"
  shows "\<exists>r'. ProcessPublicHeader q lib r f = (Some (h, r'), f) \<and> rest V r' = left"
proof -
  from r have "rest V r = [13] @ (cid_enc V cid @ left)" by simp
  from parsesD [OF read_byte(1) [OF d] refl this] obtain r1 where 1:
    "ReadByte q r = Some (13, r1)" "rest V r1 = cid_enc V cid @ left" by auto
  from parsesD [OF documented_reader(7) [OF d] refl 1(2)] obtain r2 where 2: "ReadConnectionId q r1 = Some (cid, r2)" "rest V r2 = left"
    by auto
  from 1 2 c show ?thesis
    by (simp add: ProcessPublicHeader_def header_connection_id_def header_version_def header_nonce_def documented_enums [OF d]
        ReadSequenceNumberLength_def kPublicHeaderSequenceNumberShift_def Let_def h_def)
qed

text \<open>
  C29: version negotiation. The packet a server builds for any non-empty list of versions has the size
  the framer announces, and a client that processes it is told exactly these versions, in their
  order, for the same connection.
\<close>

theorem version_negotiation_round_trip:
  assumes "documented q V" and "versions \<noteq> []" and "f_perspective f = IS_CLIENT"
    and "\<forall>v \<in> set versions. ParseQuicVersionLabel lib (CreateQuicVersionLabel lib v) = v"
  shows "\<exists>packet header f'. BuildVersionNegotiationPacket q lib cid False versions = Some packet \<and>
     length packet = GetVersionNegotiationPacketSize q (length versions) \<and>
     ProcessPacket q lib (recording note) packet f = Some (True, f') \<and>
     f_visitor f' = fold note [OnPacket, OnUnauthenticatedPublicHeader header, OnVersionNegotiationPacket cid versions] (f_visitor f)"
proof -
  note d = assms(1)
  define packet where "packet = 13 # cid_enc V cid @ versions_bytes q V lib versions"
  have size: "length packet = GetVersionNegotiationPacketSize q (length versions)"
    by (simp add: packet_def GetVersionNegotiationPacketSize_def documented_enums [OF d] documented_lengths [OF d]
        versions_bytes_length [OF d])
  have "emits q V NETWORK_BYTE_ORDER (\<lambda>w. Option.bind (WriteUInt8 q 13 w) (\<lambda>w. Option.bind (WriteConnectionId q cid w)
      (write_versions q lib versions))) ([13] @ cid_enc V cid @ versions_bytes q V lib versions)"
    by (intro emits_bind documented_writer [OF d] write_versions_emits [OF d])
  from emits_fit [OF this, of "new_writer q (length packet) NETWORK_BYTE_ORDER"] obtain w where
    "Option.bind (WriteUInt8 q 13 (new_writer q (length packet) NETWORK_BYTE_ORDER)) (\<lambda>w. Option.bind (WriteConnectionId q cid w)
      (write_versions q lib versions)) = Some w" "written q w = packet"
    by (auto simp: documented_state [OF d] packet_def)
  then have built: "BuildVersionNegotiationPacket q lib cid False versions = Some packet"
    by (simp add: BuildVersionNegotiationPacket_def documented_enums [OF d] size)
  let ?r = "new_reader q packet (endianness q (tversion f))" and ?f = "noted note [OnPacket] (f\<lparr>f_last_packet_is_ietf_quic := False\<rparr>)"
  obtain h r1 where 1: "ProcessPublicHeader q lib ?r ?f = (Some (h, r1), ?f)" "rest V r1 = versions_bytes q V lib versions"
    "hd_version_flag h" "hd_connection_id h = cid"
    using version_negotiation_header [OF d, of ?f ?r cid "versions_bytes q V lib versions" lib] assms(3)
    by (auto simp: documented_state [OF d] packet_def)
  have rv: "read_versions q lib k [] (set_endianness q e r1) = Some (Some versions)" if "length versions \<le> k" for k e
    using read_versions_all [OF d assms(2,4), of "set_endianness q e r1" k "[]"] that 1(2) by (simp add: documented_state [OF d])
  have k: "length versions \<le> BytesRemaining q (set_endianness q e r1) + 1" for e
    using 1(2) versions_bytes_length [OF d, of lib versions] by (simp add: documented_state [OF d])
  have "\<exists>f'. ProcessPacket q lib (recording note) packet f = Some (True, f') \<and>
     f_visitor f' = fold note [OnPacket, OnUnauthenticatedPublicHeader h, OnVersionNegotiationPacket cid versions] (f_visitor f)"
    using 1 assms(3) rv [OF k]
    by (simp add: ProcessPacket_def recording_def dispatch_packet_def ProcessVersionNegotiationPacket_def)
  with built size show ?thesis by blast
qed

lemma demo_labels:
  "CreateQuicVersionLabel demo_lib v = of_nat (transport_version v)"
  "ParseQuicVersionLabel demo_lib l = \<lparr>handshake_protocol = 0, transport_version = unat l\<rparr>"
  by (simp_all add: demo_lib_def)

lemma demo_framer_sel:
  "f_perspective (demo_framer v p x) = p" "f_visitor (demo_framer v p x) = x" "f_largest_packet_number (demo_framer v p x) = 0"
  "f_version (demo_framer v p x) = \<lparr>handshake_protocol = 0, transport_version = v\<rparr>" "f_data_producer (demo_framer v p x) = None"
  "f_use_incremental_ack_processing (demo_framer v p x)" "f_decrypter (demo_framer v p x) = Some 0"
  "f_last_nonce (demo_framer v p x) = replicate 32 0" "f_encrypter (demo_framer v p x) 0 = Some 0" "f_decrypter_level (demo_framer v p x) = 0"
  by (simp_all add: demo_framer_def MyQuicFramer_def demo_sel demo_lib_def demo_len_def)

theorem version_negotiation_round_trip_witness:
  "\<exists>packet header f'. BuildVersionNegotiationPacket demo demo_lib 9 False
       [\<lparr>handshake_protocol = 0, transport_version = 41\<rparr>, \<lparr>handshake_protocol = 0, transport_version = 39\<rparr>] = Some packet \<and>
     ProcessPacket demo demo_lib (recording (\<lambda>c log. log @ [c])) packet (demo_framer 41 IS_CLIENT []) = Some (True, f') \<and>
     f_visitor f' = [OnPacket, OnUnauthenticatedPublicHeader header, OnVersionNegotiationPacket 9
       [\<lparr>handshake_protocol = 0, transport_version = 41\<rparr>, \<lparr>handshake_protocol = 0, transport_version = 39\<rparr>]]"
  using version_negotiation_round_trip [OF demo_documented, of "[\<lparr>handshake_protocol = 0, transport_version = 41\<rparr>, \<lparr>handshake_protocol = 0, transport_version = 39\<rparr>]"
      "demo_framer 41 IS_CLIENT []" demo_lib 9 "\<lambda>c log. log @ [c]"]
  by (auto simp: demo_framer_sel demo_labels)

end
