(* ===== verification/Packet_Round_Trip.thy ===== *)
theory Packet_Round_Trip
  imports Header_Proofs
begin

text \<open>
  Building a packet and processing it again. The first part gives every frame its bytes and shows
  that \<open>append_frame\<close> writes them, that there are as many as \<open>ComputeFrameLength\<close> says, and that the
  frame loop hands the frame to the visitor; the second does the same for the header; the last joins
  them, with encryption in between.
\<close>

section \<open>The bytes of a frame and what the receiver hears of it\<close>

definition frame_payload :: "('r, 'w) quic \<Rightarrow> ('r, 'w) view \<Rightarrow> Endianness \<Rightarrow> nat \<Rightarrow> QuicPacketHeader \<Rightarrow> QuicFrame \<Rightarrow> bool \<Rightarrow> bytes" where
  "frame_payload q V e v header frame nolen =
     (case frame of
        PaddingFrame p \<Rightarrow> replicate (nat (num_padding_bytes p - 1)) 0
      | RstStreamFrame s \<Rightarrow> rst_bytes V e v s
      | ConnectionCloseFrame c \<Rightarrow> close_bytes V e c
      | GoAwayFrame g \<Rightarrow> goaway_bytes V e g
      | WindowUpdateFrame u \<Rightarrow> window_update_bytes V e u
      | BlockedFrame b \<Rightarrow> blocked_bytes V e b
      | StopWaitingFrame s \<Rightarrow> int_enc V e (hd_packet_number_length header) (hd_packet_number header - sw_least_unacked s)
      | StreamFrame s \<Rightarrow> stream_bytes q V e v s nolen
      | AckFrame a \<Rightarrow> tl (ack_bytes q V e v a (block_list (fst (hd (ack_packets a))) (tl (ack_packets a))))
      | _ \<Rightarrow> [])"

definition frame_first_byte :: "('r, 'w) quic \<Rightarrow> ('r, 'w) view \<Rightarrow> Endianness \<Rightarrow> nat \<Rightarrow> QuicFrame \<Rightarrow> bool \<Rightarrow> u8" where
  "frame_first_byte q V e v frame nolen =
     (case frame of
        StreamFrame s \<Rightarrow> stream_type_byte q v s nolen
      | AckFrame a \<Rightarrow> hd (ack_bytes q V e v a (block_list (fst (hd (ack_packets a))) (tl (ack_packets a))))
      | _ \<Rightarrow> frame_type_byte q frame)"

definition frame_bytes :: "('r, 'w) quic \<Rightarrow> ('r, 'w) view \<Rightarrow> Endianness \<Rightarrow> nat \<Rightarrow> QuicPacketHeader \<Rightarrow> QuicFrame \<Rightarrow> bool \<Rightarrow> bytes" where
  "frame_bytes q V e v header frame nolen = frame_first_byte q V e v frame nolen # frame_payload q V e v header frame nolen"

text \<open>
  Frames that can be sent: counted padding, which exists above version 37; stream frames with their own
  data; stop-waiting deltas that fit; ack frames of at most 255 blocks.
\<close>

definition wf_frame :: "nat \<Rightarrow> QuicPacketHeader \<Rightarrow> QuicFrame \<Rightarrow> bool" where
  "wf_frame v header frame \<longleftrightarrow>
     (case frame of
        PaddingFrame p \<Rightarrow> 37 < v \<and> 0 < num_padding_bytes p
      | StreamFrame s \<Rightarrow> wf_stream s
      | StopWaitingFrame s \<Rightarrow> sw_least_unacked s \<le> hd_packet_number header \<and>
          unat (hd_packet_number header - sw_least_unacked s) < 2 ^ (8 * hd_packet_number_length header)
      | AckFrame a \<Rightarrow> wf_ack v a \<and> length (block_list (fst (hd (ack_packets a))) (tl (ack_packets a))) \<le> 255
      | OtherFrame _ \<Rightarrow> False
      | _ \<Rightarrow> True)"

text \<open>Error codes are clamped and texts cut to 256 bytes; an MTU probe arrives as a ping.\<close>

definition frame_calls :: "('r, 'w) quic \<Rightarrow> ('r, 'w) view \<Rightarrow> QuicFrame \<Rightarrow> 'a call list" where
  "frame_calls q V frame =
     (case frame of
        PaddingFrame p \<Rightarrow> [OnPaddingFrame p]
      | RstStreamFrame s \<Rightarrow> [OnRstStreamFrame (s\<lparr>rst_error_code := clamp (errc q QUIC_STREAM_LAST_ERROR) (rst_error_code s)\<rparr>)]
      | ConnectionCloseFrame c \<Rightarrow> [OnConnectionCloseFrame
          \<lparr>cc_error_code = clamp (errc q QUIC_LAST_ERROR) (cc_error_code c), cc_error_details = TruncateErrorString (cc_error_details c)\<rparr>]
      | GoAwayFrame g \<Rightarrow> [OnGoAwayFrame (g\<lparr>ga_error_code := clamp (errc q QUIC_LAST_ERROR) (ga_error_code g),
          ga_reason_phrase := TruncateErrorString (ga_reason_phrase g)\<rparr>)]
      | WindowUpdateFrame u \<Rightarrow> [OnWindowUpdateFrame u]
      | BlockedFrame b \<Rightarrow> [OnBlockedFrame b]
      | StopWaitingFrame s \<Rightarrow> [OnStopWaitingFrame s]
      | StreamFrame s \<Rightarrow> [OnStreamFrame s]
      | AckFrame a \<Rightarrow> OnAckFrameStartCall (ack_largest_acked a) (delay_read q V (delay_sent q a)) #
          map (\<lambda>(lo, hi, b). OnAckRangeCall lo hi b) (with_last_flag (ack_packets a))
      | _ \<Rightarrow> [OnPingFrame])"

section \<open>Writing\<close>

lemma ack_wf_packets: "wf_ack v a \<Longrightarrow> \<exists>p ps. ack_packets a = p # ps"
  by (auto simp: wf_ack_def split: list.splits)

text \<open>All frames but ack frames: the type byte and the payload.\<close>

lemma plain_frame_emits:
  assumes d: "documented q V" and wf: "wf_frame (tversion f) header frame" and n: "hd_packet_number_length header \<in> {1, 2, 4, 6}"
    and prod: "f_data_producer f = None" and no_ack: "\<And>a. frame \<noteq> AckFrame a"
  shows "emits q V e (append_frame q header f frame nolen) (frame_bytes q V e (tversion f) header frame nolen)"
proof -
  have t: "emits q V e (AppendTypeByte q (tversion f) frame nolen) [frame_first_byte q V e (tversion f) frame nolen]"
    using documented_writer(1) [OF d] no_ack
    by (cases frame) (auto simp: AppendTypeByte_def [abs_def] frame_first_byte_def)
  have no_bytes: "emits q V e Some []" by (rule emits_nothing) (simp add: documented_state [OF d])
  have pad: "emits q V e (AppendPaddingFrame q (tversion f) p) (replicate (nat (num_padding_bytes p - 1)) 0)"
    if "frame = PaddingFrame p" for p
    using wf that documented_writer(9) [OF d]
    by (simp add: wf_frame_def AppendPaddingFrame_def [abs_def] documented_enums [OF d])
  have "emits q V e (\<lambda>w. case frame of
         PaddingFrame p \<Rightarrow> AppendPaddingFrame q (tversion f) p w
       | StreamFrame s \<Rightarrow> AppendStreamFrame q (tversion f) (f_data_producer f) s nolen w
       | AckFrame a \<Rightarrow> AppendAckFrameAndTypeByte q (tversion f) (f_use_incremental_ack_processing f) (f_creation_time f) a w
       | StopWaitingFrame s \<Rightarrow> AppendStopWaitingFrame q (hd_packet_number header) (hd_packet_number_length header) s w
       | MtuDiscoveryFrame \<Rightarrow> Some w
       | PingFrame \<Rightarrow> Some w
       | RstStreamFrame s \<Rightarrow> AppendRstStreamFrame q (tversion f) s w
       | ConnectionCloseFrame c \<Rightarrow> AppendConnectionCloseFrame q c w
       | GoAwayFrame g \<Rightarrow> AppendGoAwayFrame q g w
       | WindowUpdateFrame u \<Rightarrow> AppendWindowUpdateFrame q u w
       | BlockedFrame b \<Rightarrow> AppendBlockedFrame q b w
       | OtherFrame _ \<Rightarrow> None) (frame_payload q V e (tversion f) header frame nolen)"
  proof (cases frame)
    case PingFrame
    with no_bytes show ?thesis by (simp add: frame_payload_def)
  next
    case MtuDiscoveryFrame
    with no_bytes show ?thesis by (simp add: frame_payload_def)
  qed (use wf n no_ack pad prod in \<open>auto simp: wf_frame_def frame_payload_def intro: stream_emits [OF d] stop_waiting_emits [OF d]
        rst_emits [OF d] close_emits [OF d] goaway_emits [OF d] window_update_emits [OF d] blocked_emits [OF d]\<close>)
  from emits_bind [OF t this] show ?thesis by (simp add: append_frame_def [abs_def] frame_bytes_def)
qed

lemma ack_bytes_length:
  assumes d: "documented q V" and wf: "wf_ack version f" and p: "ack_packets f = p # ps"
    and blocks: "length (block_list (fst p) ps) \<le> 255"
  shows "length (ack_bytes q V e version f (block_list (fst p) ps)) = GetAckFrameSize q version True f"
proof -
  obtain lo hi where p': "p = (lo, hi)" by force
  define B where "B = block_length q version f"
  define L where "L = largest_length q version f"
  have LB: "L \<le> 8" "B \<le> 8" unfolding L_def B_def largest_length_def block_length_def by (rule min_packet_number_length_range [OF d])+
  note i = wf_ack_info [OF d wf p [unfolded p']]
  have k: "num_ack_blocks (GetAckFrameInfo f) = length (block_list lo ps)" using i(8,9) blocks by (auto simp: p')
  have "GetAckFrameSize q version True f = GetMinAckFrameSize version L + B +
      (if block_list lo ps \<noteq> [] then 1 + length (block_list lo ps) * (B + 1) else 0)"
    using blocks
    by (simp add: GetAckFrameSize_def Let_def LargestAcked_def documented_state [OF d] framer_consts documented_enums [OF d]
        largest_length_def block_length_def B_def L_def k p' min_def)
  then show ?thesis
    by (simp add: ack_bytes_def ack_payload_length [OF d LB, unfolded L_def B_def] p' GetMinAckFrameSize_def framer_consts B_def L_def)
qed


lemma append_frame_writes:
  assumes d: "documented q V" and wf: "wf_frame (tversion f) header frame" and n: "hd_packet_number_length header \<in> {1, 2, 4, 6}"
    and prod: "f_data_producer f = None" and inc: "f_use_incremental_ack_processing f" and w: "worder V w = e" "capacity q w < 2 ^ 31"
    and fits: "length (written q w) + length (frame_bytes q V e (tversion f) header frame nolen) \<le> capacity q w"
  shows "\<exists>w'. append_frame q header f frame nolen w = Some w' \<and>
     written q w' = written q w @ frame_bytes q V e (tversion f) header frame nolen \<and> capacity q w' = capacity q w \<and> worder V w' = e"
proof (cases "\<exists>a. frame = AckFrame a")
  case True
  then obtain a where a: "frame = AckFrame a" ..
  with wf obtain p ps where p: "wf_ack (tversion f) a" "ack_packets a = p # ps" "length (block_list (fst p) ps) \<le> 255"
    using ack_wf_packets by (fastforce simp: wf_frame_def)
  have bs: "frame_bytes q V e (tversion f) header frame nolen = ack_bytes q V e (tversion f) a (block_list (fst p) ps)"
    by (simp add: a p frame_bytes_def frame_first_byte_def frame_payload_def ack_bytes_def)
  from ack_whole_written [OF d p(1) w(1) p(2) w(2) _ p(3), of "f_creation_time f"] fits inc
  show ?thesis unfolding bs ack_bytes_length [OF d p] by (simp add: a append_frame_def AppendTypeByte_def)
next
  case False
  with emits_fit [OF plain_frame_emits [OF d wf n prod] w(1) fits] show ?thesis by blast
qed

section \<open>Reading\<close>

lemma pass_frame_recording:
  assumes "decodes V e g bs v" and "rorder V r = e" and "rest V r = bs @ left"
  shows "\<exists>r'. pass_frame (recording note) err (g r) call f = (Next r', noted note [call v] f) \<and> rest V r' = left \<and> rorder V r' = e"
  using decodesD [OF assms] by (auto simp: pass_frame_def tell_def recording_def)

text \<open>The dispatch on the type byte.\<close>

lemma process_frame_types:
  assumes d: "documented q V"
  shows "process_frame q lib visit header (stream_type_byte q (tversion f) s nolen) r f =
      pass_frame visit QUIC_INVALID_STREAM_DATA (ProcessStreamFrame q (tversion f) (stream_type_byte q (tversion f) s nolen) r) OnStreamFrame f"
    "process_frame q lib visit header (ack_type_byte q (tversion f) multiple L B) r f =
      process_ack q lib visit (ack_type_byte q (tversion f) multiple L B) r f"
proof -
  have "is_stream_type q (tversion f) (stream_type_byte q (tversion f) s nolen)"
    using stream_byte_class(1,2) [of "tversion f" q s nolen] by (cases "tversion f = ver q QUIC_VERSION_41") (auto simp: is_stream_type_def)
  with stream_byte_class(3) [of q "tversion f" s nolen]
  show "process_frame q lib visit header (stream_type_byte q (tversion f) s nolen) r f =
      pass_frame visit QUIC_INVALID_STREAM_DATA (ProcessStreamFrame q (tversion f) (stream_type_byte q (tversion f) s nolen) r) OnStreamFrame f"
    by (simp add: process_frame_def)
  let ?b = "ack_type_byte q (tversion f) multiple L B"
  note c = ack_type_byte_class(2-4) [OF d, where version = "tversion f" and m = multiple and L = L and B = B]
  have low: "?b AND kQuicFrameTypeStreamMask \<noteq> kQuicFrameTypeStreamMask" if "?b AND kQuicFrameTypeStreamMask_Pre40 = 0"
  proof
    assume "?b AND kQuicFrameTypeStreamMask = kQuicFrameTypeStreamMask"
    then have "(?b AND kQuicFrameTypeStreamMask) AND 0x80 = 0x80" by (simp add: kQuicFrameTypeStreamMask_def)
    with that show False by (simp add: kQuicFrameTypeStreamMask_def kQuicFrameTypeStreamMask_Pre40_def and.assoc)
  qed
  have "\<not> is_stream_type q (tversion f) ?b \<and> is_ack_type q (tversion f) ?b"
    using c(1,2) low by (cases "tversion f = ver q QUIC_VERSION_41") (auto simp: is_stream_type_def is_ack_type_def)
  with c(3) show "process_frame q lib visit header ?b r f = process_ack q lib visit ?b r f"
    by (simp add: process_frame_def)
qed

lemma process_frame_plain:
  assumes d: "documented q V"
  shows "process_frame q lib visit header 1 r f =
      pass_frame visit QUIC_INVALID_RST_STREAM_DATA (ProcessRstStreamFrame q (tversion f) r) OnRstStreamFrame f"
    "process_frame q lib visit header 2 r f =
      pass_frame visit QUIC_INVALID_CONNECTION_CLOSE_DATA (ProcessConnectionCloseFrame q r) OnConnectionCloseFrame f"
    "process_frame q lib visit header 3 r f = pass_frame visit QUIC_INVALID_GOAWAY_DATA (ProcessGoAwayFrame q r) OnGoAwayFrame f"
    "process_frame q lib visit header 4 r f =
      pass_frame visit QUIC_INVALID_WINDOW_UPDATE_DATA (ProcessWindowUpdateFrame q r) OnWindowUpdateFrame f"
    "process_frame q lib visit header 5 r f = pass_frame visit QUIC_INVALID_BLOCKED_DATA (ProcessBlockedFrame q r) OnBlockedFrame f"
    "process_frame q lib visit header 6 r f = pass_frame visit QUIC_INVALID_STOP_WAITING_DATA
      (ProcessStopWaitingFrame q (hd_packet_number header) (hd_packet_number_length header) r) OnStopWaitingFrame f"
    "process_frame q lib visit header 7 r f = tell (visit OnPingFrame f) r"
    "process_frame q lib visit header 0 r f =
      (case ProcessPaddingFrame q (tversion f) r of (frame, r) \<Rightarrow> tell (visit (OnPaddingFrame frame) f) r)"
  unfolding process_frame_def documented_enums [OF d] kQuicFrameTypeSpecialMask_def by simp_all

lemma process_ack_recording:
  assumes d: "documented q V" and wf: "wf_ack (tversion f) a" and inc: "f_use_incremental_ack_processing f"
    and p: "ack_packets a = p # ps" and blocks: "length (block_list (fst p) ps) \<le> 255"
    and r: "rorder V r = e" "rest V r = tl (ack_bytes q V e (tversion f) a (block_list (fst p) ps)) @ left"
  shows "\<exists>r'. process_ack q lib (recording note) (hd (ack_bytes q V e (tversion f) a (block_list (fst p) ps))) r f =
     (Next r', noted note (frame_calls q V (AckFrame a)) f) \<and> rest V r' = left \<and> rorder V r' = e"
proof -
  let ?visitor = "framer_ack_visitor (recording note)"
  have acc: "accepting ?visitor" by (simp add: accepting_def framer_ack_visitor_def recording_def)
  have fold: "fold (\<lambda>(lo, hi, b). snd \<circ> OnAckRange ?visitor lo hi b) rs g = noted note (map (\<lambda>(lo, hi, b). OnAckRangeCall lo hi b) rs) g" for rs g
    by (induction rs arbitrary: g) (auto simp: framer_ack_visitor_def recording_def)
  have start: "snd (OnAckFrameStart ?visitor l dl g) = noted note [OnAckFrameStartCall l dl] g" for l dl g
    by (simp add: framer_ack_visitor_def recording_def)
  from ack_whole_read [OF d wf acc p blocks, of e "f_creation_time f" "default_ack_frame lib" f "f_last_timestamp f"] r
  obtain r' where "ProcessAckFrame q (tversion f) ?visitor True (f_creation_time f)
      (hd (ack_bytes q V e (tversion f) a (block_list (fst p) ps))) (default_ack_frame lib) r (f, f_last_timestamp f) =
    (Inr (default_ack_frame lib, r'), noted note (frame_calls q V (AckFrame a)) f, f_last_timestamp f)"
    "rest V r' = left" "rorder V r' = e"
    unfolding reads_def fold start by (force simp: frame_calls_def p)
  then show ?thesis using inc by (simp add: process_ack_def)
qed

definition is_padding :: "QuicFrame \<Rightarrow> bool" where
  "is_padding frame \<longleftrightarrow> (case frame of PaddingFrame _ \<Rightarrow> True | _ \<Rightarrow> False)"

lemma padding_read:
  assumes d: "documented q V" and v: "37 < v" and n: "0 < num_padding_bytes p"
    and r: "rorder V r = e" "rest V r = replicate (nat (num_padding_bytes p - 1)) 0 @ left" and left: "left = [] \<or> hd left \<noteq> 0"
  shows "\<exists>r'. ProcessPaddingFrame q v r = (p, r') \<and> rest V r' = left \<and> rorder V r' = e"
proof -
  obtain k r' where k: "padding_loop q (BytesRemaining q r) 1 r = (k, r')" by force
  from padding_loop_all [OF d r(2) left, of "BytesRemaining q r" 1] r n k
  have "k = num_padding_bytes p" "rest V r' = left" "rorder V r' = e" by (auto simp: documented_state [OF d])
  with v k show ?thesis by (auto simp: ProcessPaddingFrame_def documented_enums [OF d])
qed

lemma process_frame_reads:
  assumes d: "documented q V" and wf: "wf_frame (tversion f) header frame" and n: "hd_packet_number_length header \<in> {1, 2, 4, 6}"
    and inc: "f_use_incremental_ack_processing f"
    and r: "rorder V r = e" "rest V r = frame_payload q V e (tversion f) header frame nolen @ left"
    and last: "nolen \<Longrightarrow> left = []" and pad: "is_padding frame \<Longrightarrow> left = [] \<or> hd left \<noteq> 0"
  shows "\<exists>r'. process_frame q lib (recording note) header (frame_first_byte q V e (tversion f) frame nolen) r f =
     (Next r', noted note (frame_calls q V frame) f) \<and> rest V r' = left \<and> rorder V r' = e"
proof (cases frame)
  case (PaddingFrame p)
  with padding_read [OF d, of "tversion f" p r e left] wf r pad show ?thesis
    by (auto simp: wf_frame_def frame_payload_def frame_first_byte_def frame_type_byte_def frame_calls_def is_padding_def
        documented_enums [OF d] process_frame_plain [OF d] tell_def recording_def)
next
  case (StreamFrame s)
  show ?thesis
  proof (cases nolen)
    case True
    with StreamFrame wf r last stream_decodes_last [OF d, of s r e "tversion f"] show ?thesis
      by (auto simp: wf_frame_def frame_payload_def frame_first_byte_def frame_calls_def process_frame_types(1) [OF d]
          pass_frame_def tell_def recording_def)
  next
    case False
    with StreamFrame wf r pass_frame_recording [OF stream_decodes [OF d, of s e "tversion f"]] show ?thesis
      by (simp add: wf_frame_def frame_payload_def frame_first_byte_def frame_calls_def process_frame_types(1) [OF d])
  qed
next
  case (AckFrame a)
  with wf obtain p ps where p: "wf_ack (tversion f) a" "ack_packets a = p # ps" "length (block_list (fst p) ps) \<le> 255"
    using ack_wf_packets by (fastforce simp: wf_frame_def)
  from process_ack_recording [OF d p(1) inc p(2,3) r(1), of left lib "note"] r(2) show ?thesis
    by (simp add: AckFrame p frame_payload_def frame_first_byte_def) (simp add: ack_bytes_def process_frame_types(2) [OF d])
next
  case (StopWaitingFrame s)
  have "hd_packet_number_length header \<le> 8" using n by auto
  with StopWaitingFrame wf r pass_frame_recording [OF stop_waiting_decodes [OF d], of "hd_packet_number_length header" s "hd_packet_number header" r e left]
  show ?thesis
    by (simp add: wf_frame_def frame_payload_def frame_first_byte_def frame_type_byte_def frame_calls_def documented_enums [OF d]
        process_frame_plain [OF d])
next
  case (RstStreamFrame s)
  with r pass_frame_recording [OF rst_decodes [OF d], of r e "tversion f" s left] show ?thesis
    by (simp add: frame_payload_def frame_first_byte_def frame_type_byte_def frame_calls_def documented_enums [OF d] process_frame_plain [OF d])
next
  case (ConnectionCloseFrame c)
  with r pass_frame_recording [OF close_decodes [OF d], of r e c left] show ?thesis
    by (simp add: frame_payload_def frame_first_byte_def frame_type_byte_def frame_calls_def documented_enums [OF d] process_frame_plain [OF d])
next
  case (GoAwayFrame g)
  with r pass_frame_recording [OF goaway_decodes [OF d], of r e g left] show ?thesis
    by (simp add: frame_payload_def frame_first_byte_def frame_type_byte_def frame_calls_def documented_enums [OF d] process_frame_plain [OF d])
next
  case (WindowUpdateFrame u)
  with r pass_frame_recording [OF window_update_decodes [OF d], of r e u left] show ?thesis
    by (simp add: frame_payload_def frame_first_byte_def frame_type_byte_def frame_calls_def documented_enums [OF d] process_frame_plain [OF d])
next
  case (BlockedFrame b)
  with r pass_frame_recording [OF blocked_decodes [OF d], of r e b left] show ?thesis
    by (simp add: frame_payload_def frame_first_byte_def frame_type_byte_def frame_calls_def documented_enums [OF d] process_frame_plain [OF d])
qed (use wf r in \<open>auto simp: wf_frame_def frame_payload_def frame_first_byte_def frame_type_byte_def frame_calls_def documented_enums [OF d]
      process_frame_plain [OF d] tell_def recording_def\<close>)

section \<open>All frames of a packet\<close>

fun frames_bytes :: "('r, 'w) quic \<Rightarrow> ('r, 'w) view \<Rightarrow> Endianness \<Rightarrow> nat \<Rightarrow> QuicPacketHeader \<Rightarrow> QuicFrame list \<Rightarrow> bytes" where
  "frames_bytes q V e v header [] = []"
| "frames_bytes q V e v header (frame # frames) =
     frame_bytes q V e v header frame (frames = []) @ frames_bytes q V e v header frames"

text \<open>Adjacent padding frames would be read as one.\<close>

fun wf_frames :: "nat \<Rightarrow> QuicPacketHeader \<Rightarrow> QuicFrame list \<Rightarrow> bool" where
  "wf_frames v header [] = True"
| "wf_frames v header (frame # frames) \<longleftrightarrow>
     wf_frame v header frame \<and> (is_padding frame \<longrightarrow> frames = [] \<or> \<not> is_padding (hd frames)) \<and> wf_frames v header frames"

definition packet_calls :: "('r, 'w) quic \<Rightarrow> ('r, 'w) view \<Rightarrow> QuicFrame list \<Rightarrow> 'a call list" where
  "packet_calls q V frames = concat (map (frame_calls q V) frames)"

lemma first_byte_nonzero:
  assumes d: "documented q V" and "wf_frame v header frame" and "\<not> is_padding frame"
  shows "frame_first_byte q V e v frame nolen \<noteq> 0"
proof (cases "\<exists>s. frame = StreamFrame s \<or> (\<exists>a. frame = AckFrame a)")
  case True
  then have "frame_first_byte q V e v frame nolen AND kQuicFrameTypeSpecialMask \<noteq> 0"
    using stream_byte_class(3) [of q v] ack_type_byte_class(4) [OF d, of v] by (auto simp: frame_first_byte_def ack_bytes_def)
  then show ?thesis by auto
next
  case False
  with assms(2,3) show ?thesis
    by (cases frame) (auto simp: wf_frame_def is_padding_def frame_first_byte_def frame_type_byte_def documented_enums [OF d])
qed

lemma append_frames_writes:
  assumes d: "documented q V" and n: "hd_packet_number_length header \<in> {1, 2, 4, 6}"
    and prod: "f_data_producer f = None" and inc: "f_use_incremental_ack_processing f"
  shows "wf_frames (tversion f) header frames \<Longrightarrow> worder V w = e \<Longrightarrow> capacity q w < 2 ^ 31 \<Longrightarrow>
     length (written q w) + length (frames_bytes q V e (tversion f) header frames) \<le> capacity q w \<Longrightarrow>
     \<exists>w'. append_frames q visit header frames w f = (Some w', f) \<and>
       written q w' = written q w @ frames_bytes q V e (tversion f) header frames"
proof (induction frames arbitrary: w)
  case (Cons frame frames)
  from append_frame_writes [OF d _ n prod inc Cons.prems(2,3), of frame "frames = []"] Cons.prems(1,4)
  obtain w1 where 1: "append_frame q header f frame (frames = []) w = Some w1"
    "written q w1 = written q w @ frame_bytes q V e (tversion f) header frame (frames = [])" "capacity q w1 = capacity q w" "worder V w1 = e"
    by auto
  with Cons.IH [of w1] Cons.prems show ?case by auto
qed simp

lemma process_frames_reads:
  assumes d: "documented q V" and n: "hd_packet_number_length header \<in> {1, 2, 4, 6}"
  shows "wf_frames (tversion f) header frames \<Longrightarrow> f_use_incremental_ack_processing f \<Longrightarrow> rorder V r = e \<Longrightarrow>
     rest V r = frames_bytes q V e (tversion f) header frames \<Longrightarrow> length (rest V r) \<le> k \<Longrightarrow>
     process_frames q lib (recording note) header k r f = Some (True, noted note (packet_calls q V frames) f)"
proof (induction frames arbitrary: k r f)
  case Nil
  then show ?case by (simp add: process_frames.simps documented_state [OF d] packet_calls_def)
next
  case (Cons frame frames)
  let ?v = "tversion f" and ?left = "frames_bytes q V e (tversion f) header frames"
  have rest: "rest V r = [frame_first_byte q V e ?v frame (frames = [])] @ (frame_payload q V e ?v header frame (frames = []) @ ?left)"
    using Cons.prems(4) by (simp add: frame_bytes_def)
  from parsesD [OF read_byte(1) [OF d] Cons.prems(3) rest] obtain r1 where 1:
    "ReadByte q r = Some (frame_first_byte q V e ?v frame (frames = []), r1)"
    "rest V r1 = frame_payload q V e ?v header frame (frames = []) @ ?left" "rorder V r1 = e" by auto
  have pad: "is_padding frame \<Longrightarrow> ?left = [] \<or> hd ?left \<noteq> 0"
    using Cons.prems(1) first_byte_nonzero [OF d] by (cases frames) (auto simp: frame_bytes_def)
  from process_frame_reads [OF d _ n Cons.prems(2) 1(3,2) _ pad, of lib "note"] Cons.prems(1)
  obtain r2 where 2: "process_frame q lib (recording note) header (frame_first_byte q V e ?v frame (frames = [])) r1 f =
     (Next r2, noted note (frame_calls q V frame) f)" "rest V r2 = ?left" "rorder V r2 = e" by auto
  obtain k' where k: "k = Suc k'" using Cons.prems(5) rest by (cases k) auto
  have "\<not> IsDoneReading q r" using rest by (simp add: documented_state [OF d])
  moreover have "length (rest V r2) \<le> k'" using Cons.prems(5) rest 2(2) k by simp
  ultimately show ?case
    using Cons.IH [of "noted note (frame_calls q V frame) f" r2 k'] Cons.prems(1,2) 1(1) 2 k
    by (subst process_frames.simps) (simp add: packet_calls_def)
qed

section \<open>Building, sealing, opening\<close>

lemma built_packet:
  fixes lib :: "('d, 'e, 'm, 'a, 'p) lib" and q :: "('r, 'w) quic"
  assumes d: "documented q V" and h: "wf_header (f_perspective s) header" and wf: "wf_frames (tversion s) header frames"
    and prod: "f_data_producer s = None" and inc: "f_use_incremental_ack_processing s" and cap: "packet_length < 2 ^ 31"
  defines "hb \<equiv> header_bytes q V lib (endianness q (tversion s)) (f_perspective s) (f_version s) header"
    and "fb \<equiv> frames_bytes q V (endianness q (tversion s)) (tversion s) header frames"
  assumes fits: "length hb + length fb \<le> packet_length"
  shows "BuildDataPacket q lib visit header frames packet_length s =
     ((length (hb @ fb), hb @ fb), s\<lparr>f_last_serialized_connection_id := hd_connection_id header\<rparr>)"
proof -
  let ?e = "endianness q (tversion s)" and ?s = "s\<lparr>f_last_serialized_connection_id := hd_connection_id header\<rparr>"
  let ?w = "new_writer q packet_length ?e"
  have n: "hd_packet_number_length header \<in> {1, 2, 4, 6}" using h by (simp add: wf_header_def)
  from emits_fit [OF header_emits(1) [OF d h, of ?e lib], of ?w] fits obtain w1 where
    w1: "fst (AppendPacketHeader q lib header ?w s) = Some w1" "written q w1 = hb" "capacity q w1 = packet_length" "worder V w1 = ?e"
    by (auto simp: documented_state [OF d] hb_def)
  then have a: "AppendPacketHeader q lib header ?w s = (Some w1, ?s)"
    using header_emits(2) [OF d h] by (metis prod.collapse)
  from append_frames_writes [OF d n, of ?s frames w1 ?e visit] w1 wf prod inc cap fits obtain w2 where
    "append_frames q visit header frames w1 ?s = (Some w2, ?s)" "written q w2 = hb @ fb" by (auto simp: fb_def)
  with a show ?thesis by (simp add: BuildDataPacket_def documented_state [OF d])
qed

lemma sealed_packet:
  assumes key: "f_encrypter s lvl = Some key" and len: "length (hb @ fb @ slack) < size_max"
    and seal: "EncryptPacket lib (tversion s) p hb fb (length (fb @ slack)) key = (Some enc, key')" and room: "length enc \<le> length (fb @ slack)"
  shows "\<exists>buffer. EncryptInPlace lib visit lvl p (length hb) (length (hb @ fb)) (length (hb @ fb @ slack)) (hb @ fb @ slack) s =
     Some ((length (hb @ enc), buffer), SetEncrypter lvl (Some key') s) \<and> take (length (hb @ enc)) buffer = hb @ enc"
proof -
  have "peek (hb @ fb @ slack) 0 (length hb) = Some hb" "peek (hb @ fb @ slack) (length hb) (length fb) = Some fb"
    by (simp_all add: peek_def)
  moreover have "size_sub (length (hb @ fb)) (length hb) = length fb" "size_sub (length (hb @ fb @ slack)) (length hb) = length (fb @ slack)"
    using len by (simp_all add: size_sub_id)
  moreover have "size_add (length hb) (length enc) = length (hb @ enc)" using len room by (simp add: size_add_def)
  moreover have "poke (hb @ fb @ slack) (length hb) enc = Some (hb @ enc @ drop (length enc) (fb @ slack))"
    using room by (simp add: poke_def)
  ultimately show ?thesis using key seal by (simp add: EncryptInPlace_def)
qed

lemma frames_bytes_header:
  assumes "hd_packet_number h = hd_packet_number header" "hd_packet_number_length h = hd_packet_number_length header"
  shows "frames_bytes q V e v h frames = frames_bytes q V e v header frames" "wf_frames v h frames = wf_frames v header frames"
proof -
  have "frame_bytes q V e v h frame nolen = frame_bytes q V e v header frame nolen" "wf_frame v h frame = wf_frame v header frame" for frame nolen
    using assms by (simp_all add: frame_bytes_def frame_payload_def wf_frame_def cong: QuicFrame.case_cong)
  then show "frames_bytes q V e v h frames = frames_bytes q V e v header frames" "wf_frames v h frames = wf_frames v header frames"
    by (induction frames) auto
qed

lemma after_public_header_sel [simp]:
  "f_visitor (after_public_header lib v h f) = f_visitor f" "f_version (after_public_header lib v h f) = f_version f"
  "f_perspective (after_public_header lib v h f) = f_perspective f" "f_decrypter (after_public_header lib v h f) = f_decrypter f"
  "f_decrypter_level (after_public_header lib v h f) = f_decrypter_level f"
  "f_largest_packet_number (after_public_header lib v h f) = f_largest_packet_number f"
  "f_use_incremental_ack_processing (after_public_header lib v h f) = f_use_incremental_ack_processing f"
  by (simp_all add: after_public_header_def Let_def split: option.splits)

text \<open>What the receiver's visitor is told of a data packet.\<close>

definition data_packet_calls ::
  "('r, 'w) quic \<Rightarrow> ('r, 'w) view \<Rightarrow> nat \<Rightarrow> QuicPacketHeader \<Rightarrow> u64 \<Rightarrow> QuicFrame list \<Rightarrow> 'a call list" where
  "data_packet_calls q V lvl h p frames =
     [OnPacket, OnUnauthenticatedPublicHeader h, OnUnauthenticatedHeader (h\<lparr>hd_packet_number := p\<rparr>), OnDecryptedPacket lvl,
      OnPacketHeader (h\<lparr>hd_packet_number := p\<rparr>)] @ packet_calls q V frames @ [OnPacketComplete]"

lemma opened_packet:
  assumes d: "documented q V" and lib: "header_size_documented lib" and h: "wf_header sender header"
    and wf: "wf_frames (transport_version version) header frames" and frames: "frames \<noteq> []"
    and persp: "f_perspective f \<noteq> sender" and ver: "f_version f = version" and inc: "f_use_incremental_ack_processing f"
    and label: "ParseQuicVersionLabel lib (CreateQuicVersionLabel lib version) = version" and nonce: "length (f_last_nonce f) = 32"
    and key: "f_decrypter f = Some dk" and p: "hd_packet_number header \<noteq> 0"
    and win: "in_window (hd_packet_number_length header) (f_largest_packet_number f) (hd_packet_number header)"
  defines "e \<equiv> endianness q (transport_version version)"
  defines "hb \<equiv> header_bytes q V lib e sender version header" and "fb \<equiv> frames_bytes q V e (transport_version version) header frames"
  assumes opn: "DecryptPacket lib (transport_version version) (hd_packet_number header) hb enc (len q MaxPacketSize) dk = (Some fb, dk')"
    and small: "length hb + length enc \<le> len q MaxPacketSize"
  shows "\<exists>f'. ProcessPacket q lib (recording note) (hb @ enc) f = Some (True, f') \<and>
     f_visitor f' = fold note (data_packet_calls q V (f_decrypter_level f) (public_header lib version header f) (hd_packet_number header) frames)
       (f_visitor f) \<and>
     f_largest_packet_number f' = max (hd_packet_number header) (f_largest_packet_number f)"
proof -
  let ?n = "hd_packet_number_length header" and ?p = "hd_packet_number header" and ?r = "new_reader q (hb @ enc) e"
  define f0 where "f0 = noted note [OnPacket] (f\<lparr>f_last_packet_is_ietf_quic := False\<rparr>)"
  define H where "H = public_header lib version header f"
  define f1 where "f1 = noted note [OnUnauthenticatedPublicHeader H] (after_public_header lib version header f0)"
  define H' where "H' = H\<lparr>hd_packet_number := ?p\<rparr>"
  define f2 where "f2 = noted note [OnUnauthenticatedHeader H'] f1"
  define f3 where "f3 = noted note [OnDecryptedPacket (f_decrypter_level f)] (f2\<lparr>f_decrypter := Some dk'\<rparr>)"
  define f4 where "f4 = noted note [OnPacketHeader H'] (f3\<lparr>f_largest_packet_number := max ?p (f_largest_packet_number f)\<rparr>)"
  have n: "?n \<in> {1, 2, 4, 6}" using h by (simp add: wf_header_def)
  have H_eq: "public_header lib version header f0 = H" by (simp add: H_def public_header_def f0_def)
  have H_sel: "hd_version_flag H = hd_version_flag header" "hd_nonce H = hd_nonce header" "hd_packet_number_length H = ?n"
    "hd_connection_id_length H = hd_connection_id_length header" "\<not> hd_reset_flag H" "hd_version_flag header \<Longrightarrow> hd_version H = version"
    by (simp_all add: H_def public_header_def)
  have H'_sel: "hd_packet_number H' = ?p" "hd_packet_number_length H' = ?n" by (simp_all add: H'_def H_sel)
  have f_sel: "f_version f1 = version" "f_perspective f1 = f_perspective f" "f_largest_packet_number f1 = f_largest_packet_number f"
    "f_decrypter f2 = Some dk" "f_decrypter_level f2 = f_decrypter_level f" "f_version f2 = version" "f_version f3 = version" "f_version f4 = version"
    "f_largest_packet_number f3 = f_largest_packet_number f" "f_use_incremental_ack_processing f4"
    using ver key inc by (simp_all add: f4_def f3_def f2_def f1_def f0_def)
  have "rest V ?r = public_bytes q V lib sender version header @ (int_enc V e ?n ?p @ enc)"
    by (simp add: documented_state [OF d] hb_def header_bytes_def)
  moreover have "f_perspective f0 \<noteq> sender" "length (f_last_nonce f0) = 32" using persp nonce by (simp_all add: f0_def)
  ultimately obtain r1 where 1: "ProcessPublicHeader q lib ?r f0 = (Some (H, r1), after_public_header lib version header f0)"
    "rest V r1 = int_enc V e ?n ?p @ enc"
    using public_header_read [OF d h _ label, of f0 ?r e "int_enc V e ?n ?p @ enc"] by (auto simp: documented_state [OF d] H_eq)
  from unauthenticated_header_read [OF d, of H f1 ?p "set_endianness q e r1" e enc "note"] n win p 1(2) obtain r2 where
    2: "ProcessUnauthenticatedHeader q (recording note) H (set_endianness q e r1) f1 = (Some (H', r2), f2)" "rest V r2 = enc"
    by (auto simp: H_sel f_sel H'_def f2_def documented_state [OF d])
  have ad: "GetAssociatedDataFromEncryptedPacket lib (tversion f2) (hb @ enc) (hd_connection_id_length H') (hd_version_flag H')
      (hd_nonce H' \<noteq> None) (hd_packet_number_length H') = Some hb"
    using lib header_bytes_length(1) [OF d h, where lib = lib and version = version] header_bytes_length(2) [OF d h, where lib = lib and e = e and version = version]
    by (simp add: GetAssociatedDataFromEncryptedPacket_def header_size_documented_def peek_def H'_def H_sel hb_def)
  have 3: "DecryptPayload q lib (recording note) H' (hb @ enc) (len q MaxPacketSize) r2 f2 = Some (Some fb, f3)"
    using ad opn 2(2) by (simp add: DecryptPayload_def documented_state [OF d] f_sel H'_def recording_def f3_def)
  have wf': "wf_frames (tversion f4) H' frames" "fb = frames_bytes q V e (tversion f4) H' frames"
    using wf by (simp_all add: frames_bytes_header [of H' header] f_sel fb_def H'_sel)
  have "fb \<noteq> []" using frames by (cases frames) (simp_all add: fb_def frame_bytes_def)
  with process_frames_reads [OF d, of H' f4 frames "new_reader q fb e" e "length fb" lib "note"] n wf'
  have 4: "ProcessFrameData q lib (recording note) H' (new_reader q fb e) f4 = Some (True, noted note (packet_calls q V frames) f4)"
    by (simp add: ProcessFrameData_def documented_state [OF d] H'_def H_sel f_sel)
  have data: "ProcessDataPacket q lib (recording note) H (hb @ enc) (len q MaxPacketSize) (set_endianness q e r1) f1 =
      Some (True, noted note (packet_calls q V frames @ [OnPacketComplete]) f4)"
    using 2(1) 3 4 small
    by (simp add: ProcessDataPacket_def Let_def f_sel e_def [symmetric] recording_def f4_def H'_def)
  have "\<not> (f_perspective f = IS_CLIENT \<and> hd_version_flag header)" using h persp by (auto simp: wf_header_def)
  with data small H_sel f_sel have disp: "dispatch_packet q lib (recording note) H (hb @ enc) (set_endianness q e r1) f1 =
      Some (True, noted note (packet_calls q V frames @ [OnPacketComplete]) f4)" by (auto simp: dispatch_packet_def)
  have visit: "recording note (OnUnauthenticatedPublicHeader H) (after_public_header lib version header f0) = (True, f1)"
    "snd (recording note OnPacket (f\<lparr>f_last_packet_is_ietf_quic := False\<rparr>)) = f0" by (simp_all add: recording_def f1_def f0_def)
  have "ProcessPacket q lib (recording note) (hb @ enc) f = Some (True, noted note (packet_calls q V frames @ [OnPacketComplete]) f4)"
    unfolding ProcessPacket_def Let_def ver e_def [symmetric] visit(2) 1(1)
    using visit(1) disp H_sel(1,6) f_sel(1) by (auto simp: e_def [symmetric])
  then show ?thesis
    by (simp add: f4_def f3_def f2_def f1_def f0_def data_packet_calls_def H_def H'_def)
qed

text \<open>
  The promise of the cryptographic library: a sealed packet fits in the room it is given, and the other
  side's key opens it to the same bytes.
\<close>

definition keys_match :: "('d, 'e, 'm, 'a, 'p) lib \<Rightarrow> nat \<Rightarrow> 'e \<Rightarrow> 'd \<Rightarrow> bool" where
  "keys_match lib v ek dk \<longleftrightarrow>
     (\<forall>p ad plain room enc. fst (EncryptPacket lib v p ad plain room ek) = Some enc \<longrightarrow>
        length enc \<le> room \<and> (\<forall>n \<ge> length plain. fst (DecryptPacket lib v p ad enc n dk) = Some plain))"

text \<open>
  C1: the whole way of a data packet. The sender builds it from a header and frames, seals it in place in
  a buffer, and the receiver processes the sealed bytes: the packet is accepted, the visitor hears of
  the header with the full packet number and of every frame, in order and with its contents, and the
  largest packet number advances. The two framers have the same version, opposite sides and matching
  keys, and the packet number is within the window of its wire length.
\<close>

theorem data_packet_round_trip:
  fixes lib :: "('d, 'e, 'm, 'a, 'p) lib" and q :: "('r, 'w) quic"
  assumes d: "documented q V" and lib: "header_size_documented lib"
    and h: "wf_header (f_perspective s) header" and wf: "wf_frames (tversion s) header frames" and frames: "frames \<noteq> []"
    and sender: "f_data_producer s = None" "f_use_incremental_ack_processing s" "f_encrypter s lvl = Some ek"
    and receiver: "f_perspective r \<noteq> f_perspective s" "f_version r = f_version s" "f_use_incremental_ack_processing r"
      "length (f_last_nonce r) = 32" "f_decrypter r = Some dk"
    and label: "ParseQuicVersionLabel lib (CreateQuicVersionLabel lib (f_version s)) = f_version s"
    and p: "hd_packet_number header \<noteq> 0" "in_window (hd_packet_number_length header) (f_largest_packet_number r) (hd_packet_number header)"
    and keys: "keys_match lib (tversion s) ek dk"
  defines "hb \<equiv> header_bytes q V lib (endianness q (tversion s)) (f_perspective s) (f_version s) header"
    and "fb \<equiv> frames_bytes q V (endianness q (tversion s)) (tversion s) header frames"
  assumes fits: "length hb + length fb \<le> packet_length" "packet_length < 2 ^ 31"
    and buffer: "length hb + length fb + length slack \<le> len q MaxPacketSize" "length hb + length fb + length slack < size_max"
    and sealing: "fst (EncryptPacket lib (tversion s) (hd_packet_number header) hb fb (length fb + length slack) ek) \<noteq> None"
  shows "\<exists>packet s' n buffer s'' r'.
     BuildDataPacket q lib visit header frames packet_length s = ((length packet, packet), s') \<and>
     EncryptInPlace lib visit lvl (hd_packet_number header)
       (GetStartOfEncryptedData lib (tversion s) (hd_connection_id_length header) (hd_version_flag header) (hd_nonce header \<noteq> None)
          (hd_packet_number_length header))
       (length packet) (length (packet @ slack)) (packet @ slack) s' = Some ((n, buffer), s'') \<and>
     ProcessPacket q lib (recording hear) (take n buffer) r = Some (True, r') \<and>
     f_visitor r' = fold hear
       (data_packet_calls q V (f_decrypter_level r) (public_header lib (f_version s) header r) (hd_packet_number header) frames) (f_visitor r) \<and>
     f_largest_packet_number r' = max (hd_packet_number header) (f_largest_packet_number r)"
proof -
  let ?p = "hd_packet_number header" and ?s = "s\<lparr>f_last_serialized_connection_id := hd_connection_id header\<rparr>"
  have built: "BuildDataPacket q lib visit header frames packet_length s = ((length (hb @ fb), hb @ fb), ?s)"
    using built_packet [OF d h wf sender(1,2) fits(2)] fits(1) by (simp add: hb_def fb_def)
  obtain enc ek' where enc: "EncryptPacket lib (tversion s) ?p hb fb (length fb + length slack) ek = (Some enc, ek')"
    using sealing by (metis not_None_eq prod.collapse)
  have small: "length fb \<le> len q MaxPacketSize" using buffer(1) by simp
  with keys enc have room: "length enc \<le> length fb + length slack"
    and "fst (DecryptPacket lib (tversion s) ?p hb enc (len q MaxPacketSize) dk) = Some fb"
    unfolding keys_match_def by (metis fst_conv)+
  then obtain dk' where opn: "DecryptPacket lib (tversion s) ?p hb enc (len q MaxPacketSize) dk = (Some fb, dk')" by (metis prod.collapse)
  have ad: "GetStartOfEncryptedData lib (tversion s) (hd_connection_id_length header) (hd_version_flag header) (hd_nonce header \<noteq> None)
      (hd_packet_number_length header) = length hb"
    using lib header_bytes_length(1) [OF d h, where lib = lib and version = "f_version s"]
      header_bytes_length(2) [OF d h, where lib = lib and e = "endianness q (tversion s)" and version = "f_version s"]
    by (simp add: header_size_documented_def hb_def)
  from sealed_packet [of ?s lvl ek hb fb slack lib ?p enc ek' visit] sender(3) buffer(2) enc room obtain buffer where
    sealed: "EncryptInPlace lib visit lvl ?p (length hb) (length (hb @ fb)) (length ((hb @ fb) @ slack)) ((hb @ fb) @ slack) ?s =
      Some ((length (hb @ enc), buffer), SetEncrypter lvl (Some ek') ?s)" "take (length (hb @ enc)) buffer = hb @ enc" by auto
  from opened_packet [OF d lib h wf frames receiver(1,2,3) label receiver(4,5) p, folded hb_def fb_def, OF opn, of hear] buffer(1) room
  obtain r' where "ProcessPacket q lib (recording hear) (hb @ enc) r = Some (True, r')"
    "f_visitor r' = fold hear
       (data_packet_calls q V (f_decrypter_level r) (public_header lib (f_version s) header r) ?p frames) (f_visitor r)"
    "f_largest_packet_number r' = max ?p (f_largest_packet_number r)" by auto
  with built sealed show ?thesis unfolding ad by metis
qed

definition ping_header :: QuicPacketHeader where
  "ping_header = (default_header demo_lib)\<lparr>hd_connection_id := 9, hd_packet_number_length := 1, hd_packet_number := 1\<rparr>"

lemma ping_header_sel:
  "hd_connection_id ping_header = 9" "hd_connection_id_length ping_header = 8" "hd_packet_number_length ping_header = 1"
  "hd_packet_number ping_header = 1" "\<not> hd_version_flag ping_header" "hd_nonce ping_header = None" "wf_header IS_CLIENT ping_header"
  by (simp_all add: ping_header_def demo_lib_def wf_header_def)

lemma demo_keys_match: "keys_match demo_lib v k k"
  by (auto simp: keys_match_def demo_lib_def split: if_splits)

lemma ping_bytes:
  "length (header_bytes demo demo_view demo_lib (endianness demo v) IS_CLIENT version ping_header) = 10"
  "length (frames_bytes demo demo_view (endianness demo v) v ping_header [PingFrame, WindowUpdateFrame u]) = 14"
  by (simp_all add: header_bytes_length [OF demo_documented ping_header_sel(7)] ping_header_sel frame_bytes_def frame_payload_def window_update_bytes_def documented_lengths [OF demo_documented])

theorem data_packet_round_trip_witness:
  "\<exists>packet s' n buffer s'' r'.
     BuildDataPacket demo demo_lib AbstractQuicFramerVisitor ping_header [PingFrame, WindowUpdateFrame \<lparr>wu_stream_id = 5, wu_byte_offset = 9\<rparr>] 100
       (demo_framer 41 IS_CLIENT ()) = ((length packet, packet), s') \<and>
     EncryptInPlace demo_lib AbstractQuicFramerVisitor 0 1 10 (length packet) (length (packet @ [0])) (packet @ [0]) s' = Some ((n, buffer), s'') \<and>
     ProcessPacket demo demo_lib (recording (\<lambda>c log. log @ [c])) (take n buffer) (demo_framer 41 IS_SERVER []) = Some (True, r') \<and>
     drop 5 (f_visitor r') = [OnPingFrame, OnWindowUpdateFrame \<lparr>wu_stream_id = 5, wu_byte_offset = 9\<rparr>, OnPacketComplete] \<and>
     f_largest_packet_number r' = 1"
proof -
  let ?fs = "[PingFrame, WindowUpdateFrame \<lparr>wu_stream_id = 5, wu_byte_offset = 9\<rparr>]"
  have "in_window 1 0 1" "GetStartOfEncryptedData demo_lib v 8 False False 1 = 10"
    "fst (EncryptPacket demo_lib v 1 ad bs n k) = (if length bs < n then Some (bs @ [k]) else None)" for v ad bs n k
    by (simp_all add: in_window_def demo_lib_def)
  moreover have "drop 5 (fold (\<lambda>c log. log @ [c]) (data_packet_calls demo demo_view l h p ?fs) []) =
      [OnPingFrame, OnWindowUpdateFrame \<lparr>wu_stream_id = 5, wu_byte_offset = 9\<rparr>, OnPacketComplete]" for l h p
    by (simp add: data_packet_calls_def packet_calls_def frame_calls_def)
  ultimately show ?thesis
    using data_packet_round_trip [OF demo_documented demo_header_size, where s = "demo_framer 41 IS_CLIENT ()" and header = ping_header and frames = ?fs and lvl = 0 and ek = 0
        and r = "demo_framer 41 IS_SERVER []" and dk = 0 and packet_length = 100 and slack = "[0]" and visit = AbstractQuicFramerVisitor
        and hear = "\<lambda>c log. log @ [c]"]
    by (auto simp: ping_bytes is_padding_def size_max_def demo_framer_sel demo_labels ping_header_sel demo_keys_match wf_frame_def demo_sel demo_len_def max_def simp del: frames_bytes.simps)
qed

section \<open>Lengths promised and bytes written\<close>





end
