(* ===== verification/Quic_Exchange.thy ===== *)
theory Quic_Exchange
  imports Quic_Video Packet_Round_Trip
begin

text \<open>
  How the QUIC receiver and the two QUIC senders fit together. Both senders answer the framer's calls by the same contract, a locale;
  under it the acknowledgement that the receiver sends is heard range by range. Then, on which datagrams a sender has undefined behaviour.
\<close>

text \<open>Runs are taken apart into their steps.\<close>

section \<open>Listening to acknowledgements\<close>

locale ack_listener =
  fixes visit :: "('w, 'd, 'e, 'v, 'a) visit" and start :: "u64 \<Rightarrow> u64 \<Rightarrow> 'v \<Rightarrow> bool \<times> 'v" and range :: "u64 \<Rightarrow> u64 \<Rightarrow> bool \<Rightarrow> 'v \<Rightarrow> bool \<times> 'v"
  assumes on_start: "visit (OnAckFrameStartCall largest delay) f = on_visitor (start largest delay) f"
    and on_range: "visit (OnAckRangeCall lo hi b) f = on_visitor (range lo hi b) f"
    and accepts: "fst (start largest delay v)" "fst (range lo hi b v)"
begin

definition heard :: "u64 \<Rightarrow> u64 \<Rightarrow> (u64 \<times> u64) list \<Rightarrow> 'v \<Rightarrow> 'v" where
  "heard largest delay ranges v = fold (\<lambda>(lo, hi, b). snd \<circ> range lo hi b) (with_last_flag ranges) (snd (start largest delay v))"

lemma fold_on_visitor:
  "fold (\<lambda>(lo, hi, b). snd \<circ> OnAckRange (framer_ack_visitor visit) lo hi b) rs f =
   f\<lparr>f_visitor := fold (\<lambda>(lo, hi, b). snd \<circ> range lo hi b) rs (f_visitor f)\<rparr>"
  by (induction rs arbitrary: f) (auto simp: framer_ack_visitor_def on_range on_visitor_def split: prod.splits)

lemma begin_heard: "snd (OnAckFrameStart (framer_ack_visitor visit) largest delay f) = f\<lparr>f_visitor := snd (start largest delay (f_visitor f))\<rparr>"
  by (simp add: framer_ack_visitor_def on_start on_visitor_def split: prod.splits)

lemma frame_heard:
  assumes d: "documented q V" and wf: "wf_ack (tversion f) a" and inc: "f_use_incremental_ack_processing f"
    and p: "ack_packets a = p # ps" and blocks: "length (block_list (fst p) ps) \<le> 255"
    and r: "rorder V r = e" "rest V r = ack_bytes q V e (tversion f) a (block_list (fst p) ps)"
  shows "\<exists>f'. process_frames q lib visit header (length (rest V r)) r f = Some (True, f') \<and>
     f_visitor f' = heard (ack_largest_acked a) (delay_read q V (delay_sent q a)) (ack_packets a) (f_visitor f)"
proof -
  let ?v = "framer_ack_visitor visit" and ?bs = "ack_bytes q V e (tversion f) a (block_list (fst p) ps)"
  have acc: "accepting ?v" by (simp add: accepting_def framer_ack_visitor_def on_start on_range on_visitor_def accepts split: prod.splits)
      (metis accepts fst_conv)
  obtain b bs where b: "?bs = b # bs" "b = ack_type_byte q (tversion f) (block_list (fst p) ps \<noteq> []) (largest_length q (tversion f) a) (block_length q (tversion f) a)"
    by (simp add: ack_bytes_def)
  from parsesD [OF read_byte(1) [OF d] r(1), of b bs] r(2) b(1) obtain r1 where
    r1: "ReadByte q r = Some (b, r1)" "rest V r1 = bs @ []" "rorder V r1 = e" by auto
  let ?f1 = "fold (\<lambda>(lo, hi, b). snd \<circ> OnAckRange ?v lo hi b) (with_last_flag (p # ps))
     (snd (OnAckFrameStart ?v (ack_largest_acked a) (delay_read q V (delay_sent q a)) f))"
  from ack_whole_read [OF d wf acc p blocks, of e "f_creation_time f" "default_ack_frame lib" f "f_last_timestamp f"] r1 b(1)
  obtain r2 where r2: "ProcessAckFrame q (tversion f) ?v True (f_creation_time f) b (default_ack_frame lib) r1 (f, f_last_timestamp f) =
     (Inr (default_ack_frame lib, r2), ?f1, f_last_timestamp f)" "rest V r2 = []"
    unfolding reads_def by force
  have f1: "?f1 = f\<lparr>f_visitor := heard (ack_largest_acked a) (delay_read q V (delay_sent q a)) (p # ps) (f_visitor f)\<rparr>"
    unfolding fold_on_visitor begin_heard heard_def by simp
  have "process_frame q lib visit header b r1 f = (Next r2, ?f1\<lparr>f_last_timestamp := f_last_timestamp f\<rparr>)"
    unfolding b(2) process_frame_types(2) [OF d] unfolding b(2) [symmetric] using r2(1) inc
    by (simp add: process_ack_def f1)
  then have "process_frames q lib visit header (length (rest V r)) r f = Some (True, ?f1\<lparr>f_last_timestamp := f_last_timestamp f\<rparr>)"
    using r1(1) r(2) b(1) r2(2) by (subst process_frames.simps) (simp add: documented_state [OF d] process_frames.simps)
  then show ?thesis by (simp add: f1 p)
qed

text \<open>A datagram that is a header and an ack frame.\<close>

lemma datagram_heard:
  assumes d: "documented q V" and wf: "wf_ack (transport_version (version_43 lm)) a" and p: "ack_packets a = p # ps"
    and blocks: "length (block_list (fst p) ps) \<le> 255"
    and dat: "dat = Quic_Apps.header_bytes V 0 n @ ack_bytes q V NETWORK_BYTE_ORDER (transport_version (version_43 lm)) a (block_list (fst p) ps)"
    and size: "length dat \<le> len q MaxPacketSize" "len q MaxPacketSize < 2 ^ 31"
  shows "read_frames q lib lm visit now perspective dat v =
     Some (heard (ack_largest_acked a) (delay_read q V (delay_sent q a)) (ack_packets a) v)"
proof -
  let ?bs = "ack_bytes q V NETWORK_BYTE_ORDER (transport_version (version_43 lm)) a (block_list (fst p) ps)"
  obtain buf where buf: "poke (replicate (len q MaxPacketSize) 0) 0 dat = Some buf" "take (length dat) buf = dat" "length buf = len q MaxPacketSize"
    using size(1) by (simp add: poke_def)
  have h: "length (Quic_Apps.header_bytes V 0 n) = 1 + seq_bytes n" using documented_lengths(1) [OF d] seq_bytes_cases(2) [of n] by (simp add: Quic_Apps.header_bytes_def)
  obtain r where flags: "read_flags q dat = (header_byte 0 n, of_nat (seq_bytes n), Some r)"
    using read_flags_documented [OF d, of 0 n ?bs] unfolding dat by auto
  have "unat (of_nat (length dat) - of_nat (1 + seq_bytes n) :: u32) = length ?bs"
  proof -
    have "(of_nat (length dat) :: u32) - of_nat (1 + seq_bytes n) = of_nat (length ?bs)" by (simp add: dat h)
    moreover have "length ?bs < 2 ^ 32" using size by (simp add: dat)
    ultimately show ?thesis by (simp only: unat_of_nat) (simp add: take_bit_nat_eq_self)
  qed
  moreover have "peek buf (1 + seq_bytes n) (length ?bs) = Some ?bs"
  proof -
    have "take (length ?bs) (drop (1 + seq_bytes n) buf) = drop (1 + seq_bytes n) (take (length dat) buf)" by (simp add: dat h drop_take)
    then show ?thesis using buf size(1) by (simp add: peek_def dat h)
  qed
  moreover obtain f where f: "MyQuicFramer q lib [version_43 lm] (word_of_int (time_us now)) perspective v = Some f"
    "f_visitor f = v" "f_use_incremental_ack_processing f" "tversion f = transport_version (version_43 lm)"
    by (auto simp: MyQuicFramer_def)
  let ?r = "new_reader q ?bs NETWORK_BYTE_ORDER"
  have r: "rest V ?r = ?bs" "rorder V ?r = NETWORK_BYTE_ORDER" by (simp_all add: documented_state [OF d])
  from frame_heard [OF d _ f(3) p blocks r(2), of lib "default_header lib"] r(1) wf f(4) obtain f' where
    f': "process_frames q lib visit (default_header lib) (length ?bs) ?r f = Some (True, f')"
    "f_visitor f' = heard (ack_largest_acked a) (delay_read q V (delay_sent q a)) (ack_packets a) v" by (auto simp: f(2))
  have "ProcessFrameData q lib visit (default_header lib) ?r f = Some (True, f')"
    using f'(1) r by (simp add: ProcessFrameData_def documented_state [OF d]) (simp add: ack_bytes_def)
  ultimately show ?thesis
    unfolding read_frames_def Let_def buf(1,2) bind.simps flags prod.case seq_bytes_cases(3) using f'(2) f(1) by (simp del: of_nat_add)
qed

end

interpretation qs: ack_listener "QS_visit lm" "QS_OnAckFrameStart lm" "QS_OnAckRange lm" for lm
  by unfold_locales (simp_all add: QS_visit_def QS_OnAckFrameStart_def QS_OnAckRange_def Let_def split: prod.splits)

interpretation vs: ack_listener "VS_visit lm" "VS_OnAckFrameStart lm" "VS_OnAckRange lm" for lm
  by unfold_locales (simp_all add: VS_visit_def VS_OnAckFrameStart_def QS_OnAckFrameStart_def VS_OnAckRange_def Let_def split: prod.splits)

section \<open>What the senders make of an acknowledgement\<close>

text \<open>The calls that the manager of sent packets gets for an ack frame that arrives at \<open>now\<close>, and the count of packets to give up.\<close>

definition acked_to :: "('m, 'n) managers \<Rightarrow> QuicTime \<Rightarrow> u64 \<Rightarrow> u64 \<Rightarrow> (u64 \<times> u64) list \<Rightarrow> 'm \<Rightarrow> 'm" where
  "acked_to lm now largest delay ranges m =
     snd (OnAckFrameEnd lm now (fold (\<lambda>(lo, hi). sm_OnAckRange lm lo hi) ranges (sm_OnAckFrameStart lm largest delay now m)))"

definition give_up_count :: "('m, 'n) managers \<Rightarrow> (u64 \<times> u64) list \<Rightarrow> 'm \<Rightarrow> int \<Rightarrow> int" where
  "give_up_count lm ranges m n = (if sm_GetLeastUnacked lm m > fst (last ranges) then n + 1 else 0)"

lemma QS_ranges:
  "ranges \<noteq> [] \<Longrightarrow> fold (\<lambda>(lo, hi, b). snd \<circ> QS_OnAckRange lm lo hi b) (with_last_flag ranges) s =
     (let m = snd (OnAckFrameEnd lm (qs_last_received s) (fold (\<lambda>(lo, hi). sm_OnAckRange lm lo hi) ranges (qs_manager s))) in
      s\<lparr>qs_manager := m, qs_stop_waiting_count := give_up_count lm ranges m (qs_stop_waiting_count s)\<rparr>)"
proof (induction ranges arbitrary: s)
  case (Cons r ranges)
  obtain lo hi where r: "r = (lo, hi)" by force
  show ?case
  proof (cases "ranges = []")
    case True
    then show ?thesis
      by (simp add: r QS_OnAckRange_def Let_def QS_PostProcessAfterAckFrame_def QS_GetLeastUnacked_def give_up_count_def split: prod.splits)
  next
    case False
    then have "snd (QS_OnAckRange lm lo hi (ranges = []) s) = s\<lparr>qs_manager := sm_OnAckRange lm lo hi (qs_manager s)\<rparr>"
      by (simp add: QS_OnAckRange_def Let_def)
    with Cons.IH [OF False, of "s\<lparr>qs_manager := sm_OnAckRange lm lo hi (qs_manager s)\<rparr>"] False show ?thesis
      by (simp add: r Let_def give_up_count_def)
  qed
qed simp

lemma map_erase_absent: "map_of m k = None \<Longrightarrow> map_erase k m = m"
  by (auto simp: map_erase_def map_of_eq_None_iff image_iff intro!: filter_True)

lemma remove_acked_filter:
  "remove_acked i finish s = s\<lparr>vs_sent_queue := filter (\<lambda>(k, _). \<not> (i \<le> k \<and> k < finish)) (vs_sent_queue s)\<rparr>"
proof (induction i finish s rule: remove_acked.induct)
  case (1 i finish s)
  show ?case
  proof (cases "i < finish")
    case True
    have "VS_RemoveAckedPacket i s = s\<lparr>vs_sent_queue := map_erase i (vs_sent_queue s)\<rparr>"
      using map_erase_absent [of "vs_sent_queue s" i] by (simp add: VS_RemoveAckedPacket_def split: option.splits)
    moreover have "\<not> (i + 1 \<le> k \<and> k < finish) \<and> k \<noteq> i \<longleftrightarrow> \<not> (i \<le> k \<and> k < finish)" for k
    proof -
      have "unat (i + 1) = unat i + 1" using True by (intro unat_next) (simp add: word_less_nat_alt)
      then show ?thesis using True by (auto simp: word_less_nat_alt word_le_nat_alt word_unat_eq_iff)
    qed
    then have "filter (\<lambda>(k, _). \<not> (i + 1 \<le> k \<and> k < finish)) (map_erase i (vs_sent_queue s)) =
       filter (\<lambda>(k, _). \<not> (i \<le> k \<and> k < finish)) (vs_sent_queue s)"
      unfolding map_erase_def filter_filter by (intro filter_cong) auto
    ultimately show ?thesis using 1 [OF True] True by (subst remove_acked.simps) simp
  next
    case False
    then have "\<not> (i \<le> k \<and> k < finish)" for k by auto
    then show ?thesis using False by (subst remove_acked.simps) (simp add: case_prod_beta)
  qed
qed

lemma VS_range:
  "snd (VS_OnAckRange lm lo hi False s) =
     s\<lparr>qs_manager := sm_OnAckRange lm lo hi (qs_manager s), vs_sent_queue := filter (\<lambda>(k, _). \<not> (lo \<le> k \<and> k < hi)) (vs_sent_queue s)\<rparr>"
  by (simp add: VS_OnAckRange_def Let_def remove_acked_filter)

lemma VS_ranges:
  "ranges \<noteq> [] \<Longrightarrow> fold (\<lambda>(lo, hi, b). snd \<circ> VS_OnAckRange lm lo hi b) (with_last_flag ranges) s =
     (let m = snd (OnAckFrameEnd lm (qs_last_received s) (fold (\<lambda>(lo, hi). sm_OnAckRange lm lo hi) ranges (qs_manager s))) in
      s\<lparr>qs_manager := m, qs_stop_waiting_count := give_up_count lm ranges m (qs_stop_waiting_count s),
        vs_sent_queue := filter (\<lambda>(k, _). \<forall>(lo, hi) \<in> set ranges. \<not> (lo \<le> k \<and> k < hi)) (vs_sent_queue s)\<rparr>)"
proof (induction ranges arbitrary: s)
  case (Cons r ranges)
  obtain lo hi where r: "r = (lo, hi)" by force
  show ?case
  proof (cases "ranges = []")
    case True
    then show ?thesis
      by (simp add: r VS_OnAckRange_def Let_def VS_PostProcessAfterAckFrame_def QS_PostProcessAfterAckFrame_def VS_GetLeastUnacked_def
          QS_GetLeastUnacked_def give_up_count_def remove_acked_filter split: prod.splits)
  next
    case False
    let ?s = "snd (VS_OnAckRange lm lo hi False s)"
    have "filter (\<lambda>(k, _). \<forall>(lo, hi) \<in> set ranges. \<not> (lo \<le> k \<and> k < hi)) (filter (\<lambda>(k, _). \<not> (lo \<le> k \<and> k < hi)) (vs_sent_queue s)) =
       filter (\<lambda>(k, _). \<forall>(lo, hi) \<in> set (r # ranges). \<not> (lo \<le> k \<and> k < hi)) (vs_sent_queue s)"
      by (auto simp: r intro!: filter_cong)
    with Cons.IH [OF False, of ?s] False show ?thesis
      by (simp add: r Let_def give_up_count_def VS_range)
  qed
qed simp

section \<open>The exchange\<close>

text \<open>An ack frame that goes into one datagram behind a header.\<close>

definition sendable :: "('r, 'w) quic \<Rightarrow> nat \<Rightarrow> QuicAckFrame \<Rightarrow> bool" where
  "sendable q version a \<longleftrightarrow> wf_ack version a \<and> length (block_list (fst (hd (ack_packets a))) (tl (ack_packets a))) \<le> 255 \<and>
     7 + GetAckFrameSize q version True a \<le> len q MaxPacketSize \<and> len q MaxPacketSize < 2 ^ 31"

definition ack_datagram :: "('r, 'w) quic \<Rightarrow> ('r, 'w) view \<Rightarrow> nat \<Rightarrow> u64 \<Rightarrow> QuicAckFrame \<Rightarrow> bytes" where
  "ack_datagram q V version n a =
     Quic_Apps.header_bytes V 0 n @ ack_bytes q V NETWORK_BYTE_ORDER version a (block_list (fst (hd (ack_packets a))) (tl (ack_packets a)))"

lemma ack_datagram_length:
  assumes d: "documented q V" and a: "sendable q version a"
  shows "length (ack_datagram q V version n a) \<le> len q MaxPacketSize"
proof -
  from a obtain p ps where p: "ack_packets a = p # ps" using ack_wf_packets [of version a] unfolding sendable_def by blast
  with ack_bytes_length [OF d _ p, of version NETWORK_BYTE_ORDER] a show ?thesis
    using documented_lengths(1) [OF d] seq_bytes_cases(2) [of n] by (simp add: ack_datagram_def sendable_def Quic_Apps.header_bytes_def)
qed

lemma QR_SendAck_documented:
  assumes d: "documented q V" and a: "GetUpdatedAckFrame lm approx (qr_manager r) = (a, m)" and ok: "sendable q (transport_version (version_43 lm)) a"
    and peer: "qr_peer r = Some addr"
  shows "QR_SendAck q lm approx r = Some (r\<lparr>qr_manager := m, qr_ack_sent := True, qr_since_last_ack := 0,
     qr_sent := qr_sent r @ [(addr, ack_datagram q V (transport_version (version_43 lm)) (qr_seq r) a)]\<rparr>)"
proof -
  let ?ver = "transport_version (version_43 lm)" and ?n = "qr_seq r"
  from d have e: "enums_documented q" by (simp add: documented_def)
  from ok obtain p ps where p: "ack_packets a = p # ps" "wf_ack ?ver a" "length (block_list (fst p) ps) \<le> 255"
    using ack_wf_packets by (fastforce simp: sendable_def)
  from start_packet_fits [OF d, of ?n "1 + seq_bytes ?n" 0] obtain hw where
    hw: "start_packet q (1 + seq_bytes ?n) 0 ?n = (\<lparr>hdr_seq_len = of_nat (seq_bytes ?n), hdr_seq = ?n\<rparr>, hw)"
    "written q hw = Quic_Apps.header_bytes V 0 ?n" by auto
  have h: "length (Quic_Apps.header_bytes V 0 ?n) = 1 + seq_bytes ?n"
    using documented_lengths(1) [OF d] seq_bytes_cases(2) [of ?n] by (simp add: Quic_Apps.header_bytes_def)
  let ?cap = "unat (of_nat (len q MaxPacketSize) - of_nat (1 + seq_bytes ?n) :: u32)"
  have cap: "?cap = len q MaxPacketSize - (1 + seq_bytes ?n)"
  proof -
    have le: "1 + seq_bytes ?n \<le> len q MaxPacketSize" "len q MaxPacketSize < 2 ^ 31"
      using ok seq_bytes_cases(2) [of ?n] by (simp_all add: sendable_def)
    then have "(of_nat (len q MaxPacketSize) - of_nat (1 + seq_bytes ?n) :: u32) = of_nat (len q MaxPacketSize - (1 + seq_bytes ?n))" by simp
    with le show ?thesis by (simp only: unat_of_nat) (simp add: take_bit_nat_eq_self)
  qed
  let ?w = "new_writer q ?cap NETWORK_BYTE_ORDER"
  have w: "worder V ?w = NETWORK_BYTE_ORDER" "written q ?w = []" "capacity q ?w = ?cap" by (simp_all add: documented_state [OF d])
  have "capacity q ?w < 2 ^ 31" "length (written q ?w) + GetAckFrameSize q ?ver True a \<le> capacity q ?w"
    unfolding w unfolding cap using ok seq_bytes_cases(2) [of ?n] by (auto simp: sendable_def)
  from ack_whole_written [OF d p(2) w(1) p(1) this p(3), of "word_of_int (time_us approx)"] obtain w' where
    w': "AppendAckFrameAndTypeByte q ?ver True (word_of_int (time_us approx)) a ?w = Some w'"
    "written q w' = ack_bytes q V NETWORK_BYTE_ORDER ?ver a (block_list (fst p) ps)" unfolding w append_Nil by blast
  have sel: "qr_seq (r\<lparr>qr_manager := m\<rparr>) = ?n" "qr_peer (r\<lparr>qr_manager := m\<rparr>) = Some addr" using peer by simp_all
  show ?thesis
    unfolding QR_SendAck_def a prod.case Let_def sel GetMinSeqLength_documented [OF e] hw(1) w'(1) bind.simps
    by (simp add: filled_def hw(2) h w'(2) ack_datagram_def p(1))
qed

text \<open>
  C13: acknowledgements reach both QUIC senders. Whatever ack frame the receiver's manager hands out, if it goes into one packet the receiver
  sends one datagram, and a sender that gets it reports exactly the frame's largest number and its ranges, in order, to its own manager, counts
  it for the packets to give up, and the video sender forgets exactly the packets of these ranges; nothing else of the senders changes.
\<close>

theorem quic_acks_exchanged:
  assumes "documented q V" and "GetUpdatedAckFrame lm approx (qr_manager r) = (a, m)" and "sendable q (transport_version (version_43 lm)) a"
    and "qr_peer r = Some addr"
  shows "\<exists>r' dat. QR_SendAck q lm approx r = Some r' \<and> qr_sent r' = qr_sent r @ [(addr, dat)] \<and> length dat \<le> len q MaxPacketSize \<and>
     (let m' = acked_to lm now (ack_largest_acked a) (delay_read q V (delay_sent q a)) (ack_packets a) in
      QS_OnIncomingData q lib lm now dat s = Some (s\<lparr>qs_last_received := now, qs_manager := m' (qs_manager s),
        qs_largest_acked := max (ack_largest_acked a) (qs_largest_acked s),
        qs_stop_waiting_count := give_up_count lm (ack_packets a) (m' (qs_manager s)) (qs_stop_waiting_count s)\<rparr>) \<and>
      VS_OnIncomingData q lib lm now dat v = Some (v\<lparr>qs_last_received := now, qs_manager := m' (qs_manager v),
        qs_largest_acked := max (ack_largest_acked a) (qs_largest_acked v),
        qs_stop_waiting_count := give_up_count lm (ack_packets a) (m' (qs_manager v)) (qs_stop_waiting_count v),
        vs_sent_queue := filter (\<lambda>(k, _). \<forall>(lo, hi) \<in> set (ack_packets a). \<not> (lo \<le> k \<and> k < hi)) (vs_sent_queue v)\<rparr>))"
proof -
  let ?ver = "transport_version (version_43 lm)"
  let ?dat = "ack_datagram q V ?ver (qr_seq r) a"
  from assms(3) obtain p ps where p: "ack_packets a = p # ps" "wf_ack ?ver a" "length (block_list (fst p) ps) \<le> 255" "len q MaxPacketSize < 2 ^ 31"
    using ack_wf_packets by (fastforce simp: sendable_def)
  have dat: "?dat = Quic_Apps.header_bytes V 0 (qr_seq r) @ ack_bytes q V NETWORK_BYTE_ORDER ?ver a (block_list (fst p) ps)"
    by (simp add: ack_datagram_def p(1))
  note size = ack_datagram_length [OF assms(1,3), of "qr_seq r"]
  note q = qs.datagram_heard [OF assms(1) p(2,1,3) dat size p(4), of lib lm now]
  note v = vs.datagram_heard [OF assms(1) p(2,1,3) dat size p(4), of lib lm now]
  have nil: "ack_packets a \<noteq> []" by (simp add: p(1))
  have max: "max l k = (if k \<le> l then l else k)" for k l :: u64 by (auto simp: max_def)
  let ?m = "acked_to lm now (ack_largest_acked a) (delay_read q V (delay_sent q a)) (ack_packets a)"
  have "QS_OnIncomingData q lib lm now ?dat s = Some (s\<lparr>qs_last_received := now, qs_manager := ?m (qs_manager s),
      qs_largest_acked := max (ack_largest_acked a) (qs_largest_acked s),
      qs_stop_waiting_count := give_up_count lm (ack_packets a) (?m (qs_manager s)) (qs_stop_waiting_count s)\<rparr>)"
    unfolding QS_OnIncomingData_def q qs.heard_def QS_ranges [OF nil] by (simp add: Let_def QS_OnAckFrameStart_def acked_to_def max)
  moreover have "VS_OnIncomingData q lib lm now ?dat v = Some (v\<lparr>qs_last_received := now, qs_manager := ?m (qs_manager v),
      qs_largest_acked := max (ack_largest_acked a) (qs_largest_acked v),
      qs_stop_waiting_count := give_up_count lm (ack_packets a) (?m (qs_manager v)) (qs_stop_waiting_count v),
      vs_sent_queue := filter (\<lambda>(k, _). \<forall>(lo, hi) \<in> set (ack_packets a). \<not> (lo \<le> k \<and> k < hi)) (vs_sent_queue v)\<rparr>)"
    unfolding VS_OnIncomingData_def v vs.heard_def VS_ranges [OF nil]
    by (simp add: Let_def VS_OnAckFrameStart_def QS_OnAckFrameStart_def acked_to_def max)
  ultimately show ?thesis using QR_SendAck_documented [OF assms] size
    by (intro exI [of _ ?dat] exI [of _ "the (QR_SendAck q lm approx r)"]) (simp add: Let_def)
qed

section \<open>Datagrams on which the senders fail\<close>

definition header_length :: "('r, 'w) quic \<Rightarrow> bytes \<Rightarrow> nat" where
  "header_length q dat = 1 + unat (fst (snd (read_flags q dat)))"

lemma bind_snd: "Option.bind x (\<lambda>(a, b). Some (g b)) = map_option (g \<circ> snd) x"
  by (cases x) auto

lemma read_frames_defined:
  assumes d: "documented q V" and n: "hd_packet_number_length (default_header lib) \<le> 8" and k: "len q MaxPacketSize < 2 ^ 31"
  shows "read_frames q lib lm visit now perspective dat v = None \<longleftrightarrow> len q MaxPacketSize < length dat \<or> length dat < header_length q dat"
proof (cases "len q MaxPacketSize < length dat")
  case True
  then show ?thesis by (simp add: read_frames_def poke_out)
next
  case False
  then obtain buf where buf: "poke (replicate (len q MaxPacketSize) 0) 0 dat = Some buf" "take (length dat) buf = dat" "length buf = len q MaxPacketSize"
    by (simp add: poke_def)
  obtain pf sl r where flags: "read_flags q dat = (pf, sl, r)" by (metis prod_cases3)
  have h: "header_length q dat = 1 + unat sl" by (simp add: header_length_def flags)
  have sl: "unat sl < 256" using unsigned_less [of sl, where ?'a = nat] by simp
  obtain f where f: "MyQuicFramer q lib [version_43 lm] (word_of_int (time_us now)) perspective v = Some f" by (simp add: MyQuicFramer_def)
  let ?remain = "unat (of_nat (length dat) - of_nat (1 + unat sl) :: u32)"
  have data: "ProcessFrameData q lib visit (default_header lib) (new_reader q bs NETWORK_BYTE_ORDER) f \<noteq> None" for bs
    using process_frames_total [OF d n, where r = "new_reader q bs NETWORK_BYTE_ORDER" and k = "length bs" and lib = lib and visit = visit and f = f]
    by (simp add: ProcessFrameData_def documented_state [OF d] del: not_None_eq)
  have eq: "read_frames q lib lm visit now perspective dat v =
      Option.bind (peek buf (1 + unat sl) ?remain) (\<lambda>payload. map_option (f_visitor \<circ> snd)
        (ProcessFrameData q lib visit (default_header lib) (new_reader q payload NETWORK_BYTE_ORDER) f))"
    unfolding read_frames_def Let_def buf(1,2) bind.simps flags prod.case f bind_snd by (rule refl)
  have out: "read_frames q lib lm visit now perspective dat v = None \<longleftrightarrow> len q MaxPacketSize < 1 + unat sl + ?remain"
    unfolding eq using data buf(3) by (cases "peek buf (1 + unat sl) ?remain") (auto simp: peek_def split: if_splits)
  have un: "unat (of_nat m :: u32) = m" if "m < 2 ^ 32" for m using that by (simp add: unat_of_nat take_bit_nat_eq_self)
  have u: "unat (of_nat (length dat) :: u32) = length dat" by (rule un) (use False k in simp)
  have u': "unat (of_nat (1 + unat sl) :: u32) = 1 + unat sl" by (rule un) (use sl in simp)
  have "?remain = (if 1 + unat sl \<le> length dat then length dat - (1 + unat sl) else 2 ^ 32 + length dat - (1 + unat sl))"
    unfolding unat_sub_if' u u' by simp
  then show ?thesis unfolding out h using False k sl by auto
qed

text \<open>
  C19: the senders' reading of a datagram has undefined behaviour exactly when the datagram is longer than \<open>kMaxPacketSize\<close>, the size of the
  buffer into which it is copied, or is shorter than the header that its first byte announces; on all other datagrams, whatever their
  frames are, it returns.
\<close>

theorem incoming_faults_exactly:
  assumes "documented q V" and "hd_packet_number_length (default_header lib) \<le> 8" and "len q MaxPacketSize < 2 ^ 31"
  shows "(QS_OnIncomingData q lib lm now dat s = None \<longleftrightarrow> len q MaxPacketSize < length dat \<or> length dat < header_length q dat) \<and>
    (VS_OnIncomingData q lib lm now dat v = None \<longleftrightarrow> len q MaxPacketSize < length dat \<or> length dat < header_length q dat)"
  by (simp add: QS_OnIncomingData_def VS_OnIncomingData_def read_frames_defined [OF assms])

section \<open>Examples\<close>

text \<open>
  Managers for the examples: one of sent packets that holds the numbers it wants to be sent again and the ranges of an ack frame that is being
  read, and one of received packets that hands out one and the same frame.
\<close>

definition demo_managers :: "(u64 list \<times> (u64 \<times> u64) list, bool) managers" where
  "demo_managers =
     \<lparr>STREAM_FRAME = 8, version_43 = \<lparr>handshake_protocol = 0, transport_version = 43\<rparr>, new_sent = (\<lambda>_. ([], [])),
      SetHandshakeConfirmed = id, SetPacing = id, TimeUntilSend = (\<lambda>_ m. (Delta_Zero, m)),
      sm_OnPacketSent = (\<lambda>info old now t has (pending, ranges). (filter (\<lambda>k. k \<noteq> old) pending, ranges)),
      HasPendingRetransmissions = (\<lambda>(pending, _). pending \<noteq> []),
      NextPendingRetransmission = (\<lambda>(pending, ranges). ((hd pending, 1), (pending, ranges))),
      sm_OnAckFrameStart = (\<lambda>_ _ _ (pending, _). (pending, [])), sm_OnAckRange = (\<lambda>lo hi (pending, ranges). (pending, ranges @ [(lo, hi)])),
      OnAckFrameEnd = (\<lambda>_ (pending, ranges). (ranges \<noteq> [], (filter (\<lambda>k. \<forall>(lo, hi) \<in> set ranges. \<not> (lo \<le> k \<and> k < hi)) pending, []))),
      sm_GetLeastUnacked = (\<lambda>(pending, _). hd (pending @ [1])), BandwidthKBits = (\<lambda>_. 800), ShouldSendProbingPacket = (\<lambda>_. False),
      new_received = False, RecordPacketReceived = (\<lambda>_ _ _. True), ack_frame_updated = id, GetUpdatedAckFrame = (\<lambda>_ _. (two_ranges, False)),
      DontWaitForPacketsBefore = (\<lambda>_ n. n)\<rparr>"

definition demo_video :: "(u64 list \<times> (u64 \<times> u64) list) quic_video" where
  "demo_video = (VS_set_peer \<lparr>sin_addr = 1, sin_port = 2\<rparr> (MyQuicVideoSender demo_managers IS_SERVER (QuicTime 1000)))
     \<lparr>qs_manager := ([8, 9], []), vs_sent_queue := [(7, 1000), (8, 500), (9, 1000)], vs_seq := 12\<rparr>"

lemma two_ranges_size_43: "GetAckFrameSize demo 43 True two_ranges = 9"
  by code_simp

lemma demo_sendable: "sendable demo 43 two_ranges"
proof -
  have "wf_ack 43 two_ranges" by (simp add: wf_ack_def two_ranges_def)
  moreover have "len demo MaxPacketSize = 1452" by (simp add: demo_sel demo_len_def)
  ultimately show ?thesis
    using two_ranges_sizes(4) by (simp add: sendable_def two_ranges_size_43 two_ranges_sel del: block_list.simps)
qed

theorem quic_acks_exchanged_witness:
  "\<exists>r' dat. QR_SendAck demo demo_managers (QuicTime 5000) (MyQuicReceiver demo_managers\<lparr>qr_peer := Some \<lparr>sin_addr = 1, sin_port = 2\<rparr>\<rparr>) = Some r' \<and>
     qr_sent r' = [(\<lparr>sin_addr = 1, sin_port = 2\<rparr>, dat)] \<and> length dat \<le> 1452 \<and>
     (\<exists>v'. VS_OnIncomingData demo demo_lib demo_managers (QuicTime 9000) dat demo_video = Some v' \<and> vs_sent_queue v' = [(9, 1000)] \<and>
        qs_manager v' = ([9], []) \<and> qs_largest_acked v' = 10 \<and> qs_stop_waiting_count v' = 1)"
proof -
  let ?r = "MyQuicReceiver demo_managers\<lparr>qr_peer := Some \<lparr>sin_addr = 1, sin_port = 2\<rparr>\<rparr>"
  have r: "GetUpdatedAckFrame demo_managers (QuicTime 5000) (qr_manager ?r) = (two_ranges, False)" "qr_sent ?r = []"
    "transport_version (version_43 demo_managers) = 43" "qr_peer ?r = Some \<lparr>sin_addr = 1, sin_port = 2\<rparr>"
    by (simp_all add: demo_managers_def MyQuicReceiver_def)
  have k: "len demo MaxPacketSize = 1452" by (simp add: demo_sel demo_len_def)
  note t = quic_acks_exchanged [OF demo_documented r(1) demo_sendable [folded r(3)] r(4), of "QuicTime 9000" demo_lib
     "MyQuicSender demo_managers IS_SERVER (QuicTime 0)" demo_video]
  have "filter (\<lambda>(k, _). \<forall>(lo, hi) \<in> set (ack_packets two_ranges). \<not> (lo \<le> k \<and> k < hi)) (vs_sent_queue demo_video) = [(9, 1000)]"
    "acked_to demo_managers (QuicTime 9000) 10 x (ack_packets two_ranges) (qs_manager demo_video) = ([9], [])"
    "max (ack_largest_acked two_ranges) (qs_largest_acked demo_video) = 10"
    "give_up_count demo_managers (ack_packets two_ranges) ([9], []) (qs_stop_waiting_count demo_video) = 1" for x
    by (simp_all add: two_ranges_def demo_video_def acked_to_def demo_managers_def give_up_count_def VS_set_peer_def QS_set_peer_def MyQuicVideoSender_def)
  with t show ?thesis unfolding Let_def r(2) k two_ranges_sel(1) by auto
qed

theorem incoming_faults_exactly_witness:
  "QS_OnIncomingData demo demo_lib demo_managers (QuicTime 1) [0x30, 1, 2] (MyQuicSender demo_managers IS_SERVER (QuicTime 0)) = None \<and>
   VS_OnIncomingData demo demo_lib demo_managers (QuicTime 1) [0x00, 1] demo_video \<noteq> None"
proof -
  have "header_length demo [0x30, 1, 2] = 7" "header_length demo [0x00, 1] = 2" by (simp_all add: header_length_def) code_simp+
  moreover have "len demo MaxPacketSize = 1452" by (simp add: demo_sel demo_len_def)
  moreover have "hd_packet_number_length (default_header Packet_Safety.demo_lib) \<le> 8" by (simp add: Packet_Safety.demo_lib_def)
  ultimately show ?thesis
    using incoming_faults_exactly [OF demo_documented, of Packet_Safety.demo_lib demo_managers "QuicTime 1"] by (simp del: not_None_eq)
qed

end
