(* ===== verification/Quic_Delay.thy ===== *)
theory Quic_Delay
  imports Quic_Exchange
begin

text \<open>
  The receiver's delayed acknowledgements: however datagrams arrive, no packet waits for its acknowledgement without an alarm, and the
  first round after the alarm's time sends the acknowledgement.
\<close>

section \<open>What a round leaves alone\<close>

text \<open>The lines of the files and the largest number do not matter to the acknowledgements.\<close>

definition same_acks :: "'n quic_receiver \<Rightarrow> 'n quic_receiver \<Rightarrow> bool" where
  "same_acks s s' \<longleftrightarrow> qr_manager s' = qr_manager s \<and> qr_ack_alarm s' = qr_ack_alarm s \<and> qr_since_last_ack s' = qr_since_last_ack s \<and>
     qr_received s' = qr_received s \<and> qr_first s' = qr_first s \<and> qr_peer s' = qr_peer s \<and> qr_sent s' = qr_sent s \<and> qr_seq s' = qr_seq s"

lemma same_acks_trans: "same_acks s s' \<Longrightarrow> same_acks s' s'' \<Longrightarrow> same_acks s s''"
  by (simp add: same_acks_def)

lemma RecordLoss_same: "QR_RecordLoss now n s = Some s' \<Longrightarrow> same_acks s s'"
  by (auto simp: QR_RecordLoss_def same_acks_def split: if_splits option.splits)

lemma losses_same: "QR_losses clk i n s = Some s' \<Longrightarrow> same_acks s s'"
proof (induction clk i n s arbitrary: s' rule: QR_losses.induct)
  case (1 clk i n s)
  show ?case
  proof (cases "i < n")
    case True
    with 1(2) obtain s1 where s1: "QR_RecordLoss (clk (LossOf i)) i s = Some s1" "QR_losses clk (i + 1) n s1 = Some s'"
      by (subst (asm) QR_losses.simps) (auto split: bind_splits)
    from 1(1) [OF True s1] RecordLoss_same [OF s1(1)] show ?thesis by (blast intro: same_acks_trans)
  next
    case False
    with 1(2) show ?thesis by (subst (asm) QR_losses.simps) (simp add: same_acks_def)
  qed
qed

lemma note_number_same:
  assumes "QR_note_number clk n s = Some s'"
  shows "same_acks s s'"
proof (cases "qr_base_seq s + 1 \<le> n")
  case True
  with assms obtain s1 where "QR_losses clk (qr_base_seq s + 1) n s = Some s1" "s' = (if n \<ge> qr_base_seq s1 + 1 then s1\<lparr>qr_base_seq := n\<rparr> else s1)"
    by (auto simp: QR_note_number_def split: bind_splits)
  then show ?thesis using losses_same [of clk "qr_base_seq s + 1" n s s1] by (simp add: same_acks_def)
qed (use assms in \<open>simp add: QR_note_number_def same_acks_def\<close>)

lemma RecordRate_same: "QR_RecordRate now s = Some s' \<Longrightarrow> same_acks s s'"
  by (auto simp: QR_RecordRate_def same_acks_def Let_def split: if_splits bind_splits)

lemma SendAck_same:
  "QR_SendAck q lm now s = Some s' \<Longrightarrow> qr_since_last_ack s' = 0 \<and> qr_ack_alarm s' = qr_ack_alarm s \<and> qr_first s' = qr_first s \<and> qr_peer s' = qr_peer s"
  by (auto simp: QR_SendAck_def Let_def split: prod.splits bind_splits)

section \<open>The invariant\<close>

definition acks_due :: "int \<Rightarrow> 'n quic_receiver \<Rightarrow> bool" where
  "acks_due T s \<longleftrightarrow> qr_since_last_ack s < mMaxRetransmittablePacketsBeforeAck \<and> (\<not> qr_first s \<longrightarrow> qr_peer s \<noteq> None) \<and>
     time_us (m_deadline (qr_ack_alarm s)) \<le> T + 25000 \<and> (0 < qr_since_last_ack s \<longrightarrow> Alarm_IsSet (qr_ack_alarm s) \<and> \<not> qr_first s)"

lemma MaybeSendAck_due:
  assumes r: "QR_MaybeSendAck q lm clk s = Some s'" and s: "acks_due T s0" "qr_since_last_ack s = qr_since_last_ack s0 + 1"
      "qr_ack_alarm s = qr_ack_alarm s0" "\<not> qr_first s" "qr_peer s \<noteq> None"
    and now: "\<forall>x. clock_ok (clk x) \<and> time_us (clk x) \<le> T"
  shows "acks_due T s' \<and> \<not> qr_first s'"
proof (cases "qr_received s < mMinReceivedBeforeAckDecimation \<or> qr_since_last_ack s \<ge> mMaxRetransmittablePacketsBeforeAck")
  case True
  with r have "QR_SendAck q lm (clk AckSent) s = Some s'" by (auto simp: QR_MaybeSendAck_def split: if_splits)
  from SendAck_same [OF this] s show ?thesis by (simp add: acks_due_def mMaxRetransmittablePacketsBeforeAck_def)
next
  case False
  then have less: "qr_since_last_ack s < mMaxRetransmittablePacketsBeforeAck" by auto
  show ?thesis
  proof (cases "Alarm_IsSet (qr_ack_alarm s)")
    case True
    with False r s less show ?thesis by (auto simp: QR_MaybeSendAck_def acks_due_def)
  next
    case unset: False
    have "later 25 (clk DelayedAck) = Some (QuicTime (time_us (clk DelayedAck) + 25 * 1000))" using now by (intro later_defined) simp_all
    with False unset r have "s' = s\<lparr>qr_ack_alarm := Alarm_Update_to (QuicTime (time_us (clk DelayedAck) + 25000)) (qr_ack_alarm s)\<rparr>"
      by (auto simp: QR_MaybeSendAck_def mMaxDelayedAckTimeMs_def mMinRetransmissionTimeMs_def)
    moreover have "0 < time_us (clk DelayedAck)" "time_us (clk DelayedAck) \<le> T" using now by (simp_all add: clock_ok_def)
    ultimately show ?thesis using s less
      by (simp add: acks_due_def Alarm_IsSet_def Alarm_Update_to_def less_QuicTime_def Time_Zero_def)
  qed
qed

lemma OnIncomingData_due:
  assumes r: "QR_OnIncomingData q lm clk dat s = Some s'" and s: "acks_due T s" "\<not> qr_first s"
    and now: "\<forall>x. clock_ok (clk x) \<and> time_us (clk x) \<le> T" and upd: "\<forall>n t m. ack_frame_updated lm (RecordPacketReceived lm n t m)"
  shows "acks_due T s'"
proof -
  have *: "acks_due T (s1\<lparr>qr_manager := m\<rparr>) \<longleftrightarrow> acks_due T s1" for s1 m by (simp add: acks_due_def)
  obtain pf sl r0 n r1 ty r2 where flags: "read_flags q dat = (pf, sl, r0)" "read_or 0 (ReadBytesToUInt64 q (unat sl)) r0 = (n, r1)"
    "read_byte q r1 = (ty, r2)" by (metis prod_cases3 surj_pair)
  have stop: "acks_due T s'" if "acks_due T s1"
    "(if ty = ftype q STOP_WAITING_FRAME
      then do { r \<leftarrow> r3; (least_unack, r) \<leftarrow> ReadBytesToUInt64 q (unat sl) r; Some (s1\<lparr>qr_manager := DontWaitForPacketsBefore lm least_unack (qr_manager s1)\<rparr>) }
      else Some s1) = Some s'" for s1 r3
    using that by (auto simp: * split: if_splits bind_splits)
  show ?thesis
  proof (cases "ty = STREAM_FRAME lm")
    case False
    with r flags stop [OF s(1)] show ?thesis by (simp add: QR_OnIncomingData_def)
  next
    case True
    obtain recv_ts where recv_ts: "ms_of (clk Incoming) = Some recv_ts"
      using r flags True by (cases "ms_of (clk Incoming)") (simp_all add: QR_OnIncomingData_def Let_def)
    obtain sent_ts r3 where sent_ts: "read_or 0 (ReadUInt32 q) r2 = (sent_ts, r3)" by force
    note ts = recv_ts sent_ts
    define s1 where "s1 = (QR_RecordOnewayDelay n (recv_ts - sent_ts) s)\<lparr>qr_manager := RecordPacketReceived lm n (clk Incoming) (qr_manager s)\<rparr>"
    have m: "qr_manager (QR_RecordOnewayDelay n x s) = qr_manager s" for x by (simp add: QR_RecordOnewayDelay_def)
    obtain s2 s3 s4 where s2: "QR_note_number clk n s1 = Some s2"
      and s3: "QR_RecordRate (clk Incoming) (s2\<lparr>qr_since_last_ack := qr_since_last_ack s2 + 1, qr_received := qr_received s2 + 1,
         qr_recv_byte := qr_recv_byte s2 + of_nat (length dat)\<rparr>) = Some s3"
      and s4: "(if ack_frame_updated lm (qr_manager s3) then QR_MaybeSendAck q lm clk s3 else Some s3) = Some s4"
      and s': "(if ty = ftype q STOP_WAITING_FRAME
      then do { r \<leftarrow> r3; (least_unack, r) \<leftarrow> ReadBytesToUInt64 q (unat sl) r; Some (s4\<lparr>qr_manager := DontWaitForPacketsBefore lm least_unack (qr_manager s4)\<rparr>) }
      else Some s4) = Some s'"
      using r unfolding QR_OnIncomingData_def flags prod.case True ts Let_def m s1_def
      by (auto simp: m split: bind_splits)
    have same: "qr_ack_alarm s3 = qr_ack_alarm s" "qr_since_last_ack s3 = qr_since_last_ack s + 1" "\<not> qr_first s3" "qr_peer s3 = qr_peer s"
      "qr_manager s3 = RecordPacketReceived lm n (clk Incoming) (qr_manager s)"
      using note_number_same [OF s2] RecordRate_same [OF s3] s(2) by (simp_all add: same_acks_def s1_def QR_RecordOnewayDelay_def split: if_splits)
    have "QR_MaybeSendAck q lm clk s3 = Some s4" using s4 upd by (simp add: same)
    moreover have "qr_peer s3 \<noteq> None" using s same by (simp add: acks_due_def)
    ultimately have "acks_due T s4" using MaybeSendAck_due [OF _ s(1) same(2,1,3) _ now] by blast
    then show ?thesis using stop s' by blast
  qed
qed

lemma Process_due:
  assumes r: "QR_Process q lm incoming clk s = Some (ret, s')" and s: "acks_due T s"
    and now: "\<forall>x. clock_ok (clk x) \<and> time_us (clk x) \<le> T" and upd: "\<forall>n t m. ack_frame_updated lm (RecordPacketReceived lm n t m)"
  shows "acks_due T s'"
proof -
  obtain recv remote buf where rf: "RecvFrom incoming = Some (recv, remote, buf)" using r by (cases "RecvFrom incoming") (auto simp: QR_Process_def)
  have rem: "remote \<noteq> None" if "0 < recv" using rf that by (auto simp: RecvFrom_def su_udp_recv_def split: option.splits prod.splits)
  define s0 where "s0 = (if qr_ref_time s = Time_Zero then s\<lparr>qr_ref_time := clk Processing\<rparr> else s)"
  obtain s1 where s1: "(if recv > 0
      then do {
        s \<leftarrow> (if qr_first s0
              then map_option (\<lambda>t. s0\<lparr>qr_peer := remote, qr_first := False, qr_stop := t\<rparr>) (later (uint (qr_duration s0)) (clk Processing))
              else Some s0);
        QR_OnIncomingData q lm clk (take (nat recv) buf) s
      } else Some s) = Some s1"
    and s': "(if fst (IsExpired (clk AlarmCheck) (qr_ack_alarm s1))
       then QR_SendAck q lm (clk AlarmAck) (s1\<lparr>qr_ack_alarm := snd (IsExpired (clk AlarmCheck) (qr_ack_alarm s1))\<rparr>)
       else Some (s1\<lparr>qr_ack_alarm := snd (IsExpired (clk AlarmCheck) (qr_ack_alarm s1))\<rparr>)) = Some s'"
    using r unfolding QR_Process_def rf Let_def s0_def [symmetric] bind.simps prod.case case_prod_beta fst_conv snd_conv
    by (elim bind_SomeE) (rule that, assumption, simp)
  have s0: "acks_due T s0" using s by (simp add: s0_def acks_due_def)
  have "acks_due T s1"
  proof (cases "0 < recv")
    case True
    show ?thesis
    proof (cases "qr_first s0")
      case first: True
      with s1 True obtain t where "QR_OnIncomingData q lm clk (take (nat recv) buf) (s0\<lparr>qr_peer := remote, qr_first := False, qr_stop := t\<rparr>) = Some s1"
        by (auto split: bind_splits)
      moreover have "acks_due T (s0\<lparr>qr_peer := remote, qr_first := False, qr_stop := t\<rparr>)" using s0 first rem [OF True] by (auto simp: acks_due_def)
      ultimately show ?thesis by (rule OnIncomingData_due [OF _ _ _ now upd]) simp
    next
      case False
      with s1 True have "QR_OnIncomingData q lm clk (take (nat recv) buf) s0 = Some s1" by simp
      then show ?thesis by (rule OnIncomingData_due [OF _ s0 False now upd])
    qed
  qed (use s1 s in simp)
  moreover have "0 \<le> T" using now by (auto simp: clock_ok_def intro: less_imp_le order_less_le_trans)
  ultimately show ?thesis
    using s' SendAck_same [of q lm "clk AlarmAck" _ s']
    by (auto simp: acks_due_def IsExpired_def Let_def Time_Zero_def mMaxRetransmittablePacketsBeforeAck_def split: if_splits)
qed

section \<open>Runs\<close>

fun QR_run :: "('r, 'w) quic \<Rightarrow> ('m, 'n) managers \<Rightarrow> ((su_addr \<times> bytes) option \<times> (reading \<Rightarrow> QuicTime)) list \<Rightarrow> 'n quic_receiver \<Rightarrow> 'n quic_receiver option" where
  "QR_run q lm [] s = Some s"
| "QR_run q lm ((incoming, clk) # rounds) s = do { (ret, s) \<leftarrow> QR_Process q lm incoming clk s; QR_run q lm rounds s }"

lemma QR_run_due:
  assumes "\<forall>n t m. ack_frame_updated lm (RecordPacketReceived lm n t m)"
  shows "QR_run q lm rounds s = Some s' \<Longrightarrow> acks_due T s \<Longrightarrow> \<forall>(_, clk) \<in> set rounds. \<forall>x. clock_ok (clk x) \<and> time_us (clk x) \<le> T \<Longrightarrow> acks_due T s'"
proof (induction rounds arbitrary: s)
  case (Cons round rounds)
  obtain incoming clk where round: "round = (incoming, clk)" by force
  with Cons.prems(1) obtain ret s1 where s1: "QR_Process q lm incoming clk s = Some (ret, s1)" "QR_run q lm rounds s1 = Some s'"
    by (auto elim!: bind_SomeE)
  from Process_due [OF s1(1) Cons.prems(2) _ assms] Cons.prems(3) round have "acks_due T s1" by simp
  with Cons.IH [OF s1(2)] Cons.prems(3) show ?case by simp
qed simp

lemma alarm_round:
  assumes d: "documented q V" and due: "Alarm_IsSet (qr_ack_alarm s)" "m_deadline (qr_ack_alarm s) \<le> clk AlarmCheck" and peer: "qr_peer s \<noteq> None"
    and a: "sendable q (transport_version (version_43 lm)) (fst (GetUpdatedAckFrame lm (clk AlarmAck) (qr_manager s)))"
  shows "\<exists>ret s' out. QR_Process q lm None clk s = Some (ret, s') \<and> qr_since_last_ack s' = 0 \<and> qr_sent s' = qr_sent s @ [out]"
proof -
  obtain a m where am: "GetUpdatedAckFrame lm (clk AlarmAck) (qr_manager s) = (a, m)" by force
  obtain addr where addr: "qr_peer s = Some addr" using peer by blast
  let ?s = "s\<lparr>qr_ack_alarm := (qr_ack_alarm s)\<lparr>m_deadline := Time_Zero\<rparr>\<rparr>"
  have "IsExpired (clk AlarmCheck) (qr_ack_alarm s) = (True, (qr_ack_alarm s)\<lparr>m_deadline := Time_Zero\<rparr>)" using due by (simp add: IsExpired_def Let_def)
  moreover from QR_SendAck_documented [OF d, of lm "clk AlarmAck" ?s a m addr] am a addr
  obtain out where "QR_SendAck q lm (clk AlarmAck) ?s = Some (?s\<lparr>qr_manager := m, qr_ack_sent := True, qr_since_last_ack := 0, qr_sent := qr_sent s @ [out]\<rparr>)"
    by simp
  moreover have "RecvFrom None = Some (- 1, None, replicate max_len 0)" by (simp add: RecvFrom_def su_udp_recv_def)
  ultimately show ?thesis by (simp add: QR_Process_def Let_def)
qed

text \<open>
  C15: no packet waits for its acknowledgement for ever. From a receiver that has nothing to acknowledge, such as a new one, and after any rounds whose clock readings are not above \<open>T\<close>, fewer than ten packets are
  unacknowledged, and if there are any then the alarm is set to at most 25 ms after \<open>T\<close>; the first quiet round at that time sends
  exactly one datagram, the acknowledgement, and none is unacknowledged after it.
\<close>

theorem no_packet_waits_forever:
  assumes "documented q V" and "\<forall>n t m. ack_frame_updated lm (RecordPacketReceived lm n t m)" and "0 \<le> T"
    and "qr_since_last_ack r = 0" and "m_deadline (qr_ack_alarm r) = Time_Zero" and "qr_first r \<or> qr_peer r \<noteq> None"
    and "\<forall>(_, clk) \<in> set rounds. \<forall>x. clock_ok (clk x) \<and> time_us (clk x) \<le> T"
    and "QR_run q lm rounds r = Some s"
  shows "qr_since_last_ack s < 10 \<and>
    (0 < qr_since_last_ack s \<longrightarrow> Alarm_IsSet (qr_ack_alarm s) \<and> time_us (m_deadline (qr_ack_alarm s)) \<le> T + 25000 \<and>
      (\<forall>clk. T + 25000 \<le> time_us (clk AlarmCheck) \<and>
          sendable q (transport_version (version_43 lm)) (fst (GetUpdatedAckFrame lm (clk AlarmAck) (qr_manager s))) \<longrightarrow>
        (\<exists>ret s' out. QR_Process q lm None clk s = Some (ret, s') \<and> qr_since_last_ack s' = 0 \<and> qr_sent s' = qr_sent s @ [out])))"
proof -
  have "acks_due T r" using assms(3-6) by (auto simp: acks_due_def Time_Zero_def mMaxRetransmittablePacketsBeforeAck_def)
  from QR_run_due [OF assms(2,8) this assms(7)] have s: "acks_due T s" .
  then have "\<exists>ret s' out. QR_Process q lm None clk s = Some (ret, s') \<and> qr_since_last_ack s' = 0 \<and> qr_sent s' = qr_sent s @ [out]"
    if "0 < qr_since_last_ack s" "T + 25000 \<le> time_us (clk AlarmCheck)"
      "sendable q (transport_version (version_43 lm)) (fst (GetUpdatedAckFrame lm (clk AlarmAck) (qr_manager s)))" for clk
    using that by (intro alarm_round [OF assms(1)]) (auto simp: acks_due_def less_eq_QuicTime_def less_QuicTime_def)
  with s show ?thesis by (auto simp: acks_due_def mMaxRetransmittablePacketsBeforeAck_def)
qed

definition demo_waiting :: "bool quic_receiver" where
  "demo_waiting = MyQuicReceiver demo_managers\<lparr>qr_first := False, qr_peer := Some \<lparr>sin_addr = 1, sin_port = 2\<rparr>, qr_received := 200,
     qr_base_seq := 6, qr_ref_time := QuicTime 500, qr_stop := QuicTime 90000000\<rparr>"

lemma demo_packet:
  "QR_OnIncomingData demo demo_managers (\<lambda>_. QuicTime 1000) [0, 7, 8] demo_waiting =
     Some (demo_waiting\<lparr>qr_manager := True, qr_base_seq := 7, qr_received := 201, qr_since_last_ack := 1, qr_recv_byte := 3,
       qr_ack_alarm := \<lparr>m_deadline = QuicTime 26000\<rparr>\<rparr>)"
  by code_simp

theorem no_packet_waits_forever_witness:
  "\<exists>s. QR_run demo demo_managers [(Some (\<lparr>sin_addr = 1, sin_port = 2\<rparr>, [0, 7, 8]), \<lambda>_. QuicTime 1000)] demo_waiting = Some s \<and>
     qr_since_last_ack s = 1 \<and> (\<forall>clk. 26000 \<le> time_us (clk AlarmCheck) \<longrightarrow>
       (\<exists>ret s' out. QR_Process demo demo_managers None clk s = Some (ret, s') \<and> qr_since_last_ack s' = 0 \<and> qr_sent s' = [out]))"
proof -
  let ?addr = "\<lparr>sin_addr = 1, sin_port = 2\<rparr>" and ?clk = "\<lambda>_ :: reading. QuicTime 1000"
  let ?s = "demo_waiting\<lparr>qr_manager := True, qr_base_seq := 7, qr_received := 201, qr_since_last_ack := 1, qr_recv_byte := 3,
       qr_ack_alarm := \<lparr>m_deadline = QuicTime 26000\<rparr>\<rparr>"
  have "length [0, 7, 8 :: u8] \<le> max_len" by (simp add: max_len_def)
  with RecvFrom_datagram [of "[0, 7, 8]" ?addr] obtain buf where
    "RecvFrom (Some (?addr, [0, 7, 8])) = Some (3, Some ?addr, buf)" "take 3 buf = [0, 7, 8]" by (auto simp: numeral_3_eq_3)
  moreover have "qr_ref_time demo_waiting \<noteq> Time_Zero" "\<not> qr_first demo_waiting"
    by (simp_all add: demo_waiting_def Time_Zero_def)
  moreover have "IsExpired (QuicTime 1000) (qr_ack_alarm ?s) = (False, qr_ack_alarm ?s)"
    by (simp add: IsExpired_def Let_def Alarm_IsSet_def less_eq_QuicTime_def less_QuicTime_def)
  ultimately have "QR_Process demo demo_managers (Some (?addr, [0, 7, 8])) ?clk demo_waiting = Some (\<not> (\<not> qr_first ?s \<and> QuicTime 1000 > qr_stop ?s), ?s)"
    using demo_packet by (simp add: QR_Process_def Let_def)
  then have run: "QR_run demo demo_managers [(Some (?addr, [0, 7, 8]), ?clk)] demo_waiting = Some ?s" by simp
  have "qr_since_last_ack ?s < 10 \<and> (0 < qr_since_last_ack ?s \<longrightarrow> Alarm_IsSet (qr_ack_alarm ?s) \<and> time_us (m_deadline (qr_ack_alarm ?s)) \<le> 1000 + 25000 \<and>
      (\<forall>clk. 1000 + 25000 \<le> time_us (clk AlarmCheck) \<and>
          sendable demo (transport_version (version_43 demo_managers)) (fst (GetUpdatedAckFrame demo_managers (clk AlarmAck) (qr_manager ?s))) \<longrightarrow>
        (\<exists>ret s' out. QR_Process demo demo_managers None clk ?s = Some (ret, s') \<and> qr_since_last_ack s' = 0 \<and> qr_sent s' = qr_sent ?s @ [out])))"
    by (rule no_packet_waits_forever [OF demo_documented _ _ _ _ _ _ run])
      (simp_all add: demo_managers_def demo_waiting_def MyQuicReceiver_def MyQuicAlarm_new_def clock_ok_def)
  moreover have "sendable demo (transport_version (version_43 demo_managers)) (fst (GetUpdatedAckFrame demo_managers t m))" for t m
    using demo_sendable by (simp add: demo_managers_def)
  moreover have "qr_since_last_ack ?s = 1" "qr_sent ?s = []" by (simp_all add: demo_waiting_def MyQuicReceiver_def)
  ultimately show ?thesis using run by (intro exI [of _ ?s]) auto
qed

end
