(* ===== verification/Quic_Resend.thy ===== *)
theory Quic_Resend
  imports Quic_Exchange
begin

text \<open>
  Sending again what was lost. With a manager of sent packets that keeps its documented contract the plain sender's loop ends and sends every
  packet at most once; the video sender's ends when all packets that are to be sent again are in its queue, and never returns when one is not.
  Then the queues of the video sender over a whole run.
\<close>

section \<open>The contract of the manager\<close>

text \<open>
  What the library documents of pending retransmissions: \<open>NextPendingRetransmission\<close> names one that is pending and leaves it so, and a packet is no
  longer pending once \<open>OnPacketSent\<close> was told that it was sent again.
\<close>

definition pending_documented :: "('m, 'n) managers \<Rightarrow> ('m \<Rightarrow> u64 set) \<Rightarrow> bool" where
  "pending_documented lm pend \<longleftrightarrow>
     (\<forall>m. finite (pend m) \<and> (HasPendingRetransmissions lm m \<longleftrightarrow> pend m \<noteq> {})) \<and>
     (\<forall>m. pend m \<noteq> {} \<longrightarrow> fst (fst (NextPendingRetransmission lm m)) \<in> pend m \<and> pend (snd (NextPendingRetransmission lm m)) = pend m) \<and>
     (\<forall>t m. pend (snd (TimeUntilSend lm t m)) = pend m) \<and>
     (\<forall>info old t has m. old \<in> pend m \<longrightarrow> pend (sm_OnPacketSent lm info old t LOSS_RETRANSMISSION has m) = pend m - {old})"

lemma ms_of_defined: "clock_ok t \<Longrightarrow> \<exists>ms. ms_of t = Some ms"
  by (auto simp: ms_of_def time_diff_def Time_Zero_def clock_ok_def i64_in)

lemma QS_OnRetransPacket_defined:
  assumes "qs_peer s \<noteq> None" and "\<forall>x. clock_ok (clk x)"
  shows "\<exists>s' info t out. QS_OnRetransPacket q lm clk pending s = Some s' \<and> qs_peer s' = qs_peer s \<and> qs_sent s' = qs_sent s @ [out] \<and>
     qs_manager s' = sm_OnPacketSent lm info (fst pending) t LOSS_RETRANSMISSION True (qs_manager s)"
proof -
  from assms obtain p ms where "qs_peer s = Some p" "ms_of (clk (ResendOf (ucast (qs_seq s)))) = Some ms" using ms_of_defined by blast
  then show ?thesis by (auto simp: QS_OnRetransPacket_def Let_def split: prod.splits)
qed

lemma QS_retransmit_ends:
  assumes doc: "pending_documented lm pend" and clk: "\<forall>x. clock_ok (clk x)"
  shows "qs_peer s \<noteq> None \<Longrightarrow> \<exists>s'. QS_retransmit q lm clk s = Some s' \<and> pend (qs_manager s') \<subseteq> pend (qs_manager s) \<and>
     length (qs_sent s') = length (qs_sent s) + card (pend (qs_manager s) - pend (qs_manager s'))"
proof (induction "card (pend (qs_manager s))" arbitrary: s rule: less_induct)
  case less
  obtain d m where t: "TimeUntilSend lm (clk Resend) (qs_manager s) = (d, m)" by force
  have pm: "pend m = pend (qs_manager s)" using doc t unfolding pending_documented_def by (metis snd_conv)
  show ?case
  proof (cases "d = Delta_Zero \<and> HasPendingRetransmissions lm m")
    case False
    then have "QS_retransmit q lm clk s = Some (s\<lparr>qs_manager := m\<rparr>)" using t by (subst QS_retransmit.simps) auto
    then show ?thesis using pm by simp
  next
    case True
    obtain n fr m1 where nx: "NextPendingRetransmission lm m = ((n, fr), m1)" by (metis surj_pair)
    have n: "n \<in> pend m" "pend m1 = pend m" "finite (pend m)" using doc True nx unfolding pending_documented_def by (metis fst_conv snd_conv)+
    from QS_OnRetransPacket_defined [of "s\<lparr>qs_manager := m1\<rparr>" clk q lm "(n, fr)"] less.prems clk obtain s1 info t' out where
      s1: "QS_OnRetransPacket q lm clk (n, fr) (s\<lparr>qs_manager := m1\<rparr>) = Some s1" "qs_peer s1 = qs_peer s" "qs_sent s1 = qs_sent s @ [out]"
        "qs_manager s1 = sm_OnPacketSent lm info n t' LOSS_RETRANSMISSION True m1" by auto
    have p1: "pend (qs_manager s1) = pend (qs_manager s) - {n}" using doc n pm s1(4) unfolding pending_documented_def by metis
    have "card (pend (qs_manager s1)) < card (pend (qs_manager s))" unfolding p1 using n pm by (intro card_Diff1_less) simp_all
    from less.hyps [OF this] less.prems s1(2) obtain s' where s': "QS_retransmit q lm clk s1 = Some s'" "pend (qs_manager s') \<subseteq> pend (qs_manager s1)"
      "length (qs_sent s') = length (qs_sent s1) + card (pend (qs_manager s1) - pend (qs_manager s'))" by auto
    have "QS_retransmit q lm clk s = Some s'" using t True nx s1(1) s'(1) by (subst QS_retransmit.simps) simp
    moreover have "pend (qs_manager s) - pend (qs_manager s') = insert n (pend (qs_manager s1) - pend (qs_manager s'))"
      using s'(2) n pm by (auto simp: p1)
    then have "card (pend (qs_manager s) - pend (qs_manager s')) = Suc (card (pend (qs_manager s1) - pend (qs_manager s')))"
      using n pm by (simp add: p1)
    ultimately show ?thesis using s' s1(3) by (auto simp: p1)
  qed
qed

text \<open>
  C17: the plain sender's retransmission ends, however many packets its manager wants to be sent again and whenever the manager stops it: every
  pending packet is sent again at most once, in one datagram, and the ones that are no longer pending are exactly those that were.
\<close>

theorem sender_retransmissions_end:
  assumes "pending_documented lm pend" and "qs_peer s \<noteq> None" and "\<forall>x. clock_ok (clk x)"
  shows "\<exists>s'. QS_SendRetransmission q lm clk s = Some s' \<and> pend (qs_manager s') \<subseteq> pend (qs_manager s) \<and>
     length (qs_sent s') = length (qs_sent s) + card (pend (qs_manager s) - pend (qs_manager s'))"
  unfolding QS_SendRetransmission_def by (rule QS_retransmit_ends [OF assms(1,3,2)])

section \<open>A packet that is not in the queue\<close>

definition stuck :: "('m, 'n) managers \<Rightarrow> (sender_reading \<Rightarrow> QuicTime) \<Rightarrow> 'm quic_video \<Rightarrow> bool" where
  "stuck lm clk s \<longleftrightarrow> TimeUntilSend lm (clk Resend) (qs_manager s) = (Delta_Zero, qs_manager s) \<and> HasPendingRetransmissions lm (qs_manager s) \<and>
     snd (NextPendingRetransmission lm (qs_manager s)) = qs_manager s \<and>
     map_of (vs_sent_queue s) (fst (fst (NextPendingRetransmission lm (qs_manager s)))) = None"

lemma VS_retransmit_stuck:
  assumes "VS_retransmit q lm clk s = Some s'"
  shows "\<not> stuck lm clk s"
proof (rule VS_retransmit.raw_induct [where P = "\<lambda>q lm clk s s'. \<not> stuck lm clk s", OF _ assms])
  fix retransmit q lm clk s s'
  assume IH: "\<And>q lm clk s s'. retransmit q lm clk s = Some s' \<Longrightarrow> \<not> stuck lm clk s"
    and body: "(case TimeUntilSend lm (clk Resend) (qs_manager s) of
        (d, m) \<Rightarrow>
          if d = Delta_Zero
          then if HasPendingRetransmissions lm m
               then case NextPendingRetransmission lm m of
                      (pending, m) \<Rightarrow> Option.bind (VS_OnRetransPacket q lm clk pending (s\<lparr>qs_manager := m\<rparr>)) (retransmit q lm clk)
               else Some (s\<lparr>qs_manager := m\<rparr>)
          else Some (s\<lparr>qs_manager := m\<rparr>)) = Some s'"
  show "\<not> stuck lm clk s"
  proof
    assume stuck: "stuck lm clk s"
    then have "VS_OnRetransPacket q lm clk (fst (NextPendingRetransmission lm (qs_manager s))) (s\<lparr>qs_manager := qs_manager s\<rparr>) = Some s"
      by (simp add: VS_OnRetransPacket_def stuck_def)
    with body stuck have "retransmit q lm clk s = Some s'" by (simp add: stuck_def case_prod_beta)
    from IH [OF this] stuck show False by blast
  qed
qed

text \<open>
  C16: an ack frame that breaks off stops the video sender for good. The sender drops the packets of a range from its queue when it hears of
  the range; if the frame's last range never comes, the manager is not told that the frame is complete and goes on to take these packets for lost. As
  soon as it asks for one of them again, and may send, the loop of \<open>SendRetransmission\<close> neither sends it nor leaves: it never returns.
\<close>

theorem broken_ack_stops_video_sender:
  defines "heard \<equiv> \<lambda>lm start finish s. snd (VS_OnAckRange lm start finish False s)"
  assumes "start \<le> n" and "n < finish" and "qs_manager (heard lm start finish s) = m"
    and "TimeUntilSend lm (clk Resend) m = (Delta_Zero, m)" and "HasPendingRetransmissions lm m" and "NextPendingRetransmission lm m = ((n, fr), m)"
  shows "VS_SendRetransmission q lm clk (heard lm start finish s) = None"
proof (cases "VS_SendRetransmission q lm clk (heard lm start finish s)")
  case (Some s')
  have "map_of (vs_sent_queue (heard lm start finish s)) n = None"
    using assms(2,3) by (auto simp: heard_def VS_range map_of_eq_None_iff)
  with VS_retransmit_stuck [OF Some [unfolded VS_SendRetransmission_def]] assms(4-7) show ?thesis by (simp add: stuck_def)
qed

end
