(* ===== verification/Quic_Video_Proofs.thy ===== *)
theory Quic_Video_Proofs
  imports Quic_Resend
begin

text \<open>
  The queues of the video sender over any run: parts leave the queue in the order of the frames, what is kept for being sent again is never more
  than what has left, and every datagram goes out of the packet buffer alone.
\<close>

section \<open>The invariant\<close>

text \<open>\<open>ps\<close> are all parts that were ever queued. Numbers are 64 bits, so the claims about them hold until \<open>2 ^ 64\<close> datagrams are sent.\<close>

definition part_ok :: "int \<Rightarrow> bool" where
  "part_ok x \<longleftrightarrow> 0 \<le> x \<and> x \<le> int QUIC_MAX_VIDEO_SIZE"

definition bytes_kept :: "'m quic_video \<Rightarrow> int" where
  "bytes_kept s = sum_list (map snd (vs_sent_queue s))"

definition numbers_left :: "'m quic_video \<Rightarrow> bool" where
  "numbers_left s \<longleftrightarrow> length (qs_sent s) < 2 ^ 64 - 1"

definition sent_queue_ok :: "'m quic_video \<Rightarrow> int \<Rightarrow> bool" where
  "sent_queue_ok s limit \<longleftrightarrow> ascending (vs_sent_queue s) \<and> (\<forall>k \<in> fst ` set (vs_sent_queue s). k < vs_seq s) \<and>
     unat (vs_seq s) \<le> 1 + length (qs_sent s) \<and> bytes_kept s \<le> limit"

definition video_inv :: "('r, 'w) quic \<Rightarrow> int list \<Rightarrow> 'm quic_video \<Rightarrow> bool" where
  "video_inv q ps s \<longleftrightarrow> (\<forall>x \<in> set ps. part_ok x) \<and> (\<forall>d \<in> set (qs_sent s). length (snd d) \<le> len q MaxPacketSize) \<and>
     (\<forall>x \<in> snd ` set (vs_sent_queue s). part_ok x) \<and>
     (\<exists>k \<le> length ps. vs_pending_queue s = drop k ps \<and> (numbers_left s \<longrightarrow> sent_queue_ok s (sum_list (take k ps))))"

lemma video_inv_cong:
  assumes "vs_pending_queue s' = vs_pending_queue s" "vs_sent_queue s' = vs_sent_queue s" "qs_sent s' = qs_sent s" "vs_seq s' = vs_seq s"
  shows "video_inv q ps s' \<longleftrightarrow> video_inv q ps s"
  using assms by (simp add: video_inv_def numbers_left_def sent_queue_ok_def bytes_kept_def)

lemma filter_sum_le: "\<forall>x \<in> snd ` set m. part_ok x \<Longrightarrow> sum_list (map snd (filter P m)) \<le> sum_list (map snd m)"
  by (induction m) (auto simp: part_ok_def)

lemma filter_ascending: "ascending m \<Longrightarrow> ascending (filter P m)"
  by (induction m) auto

lemma video_inv_filter:
  assumes "video_inv q ps s" and "vs_pending_queue s' = vs_pending_queue s" "vs_sent_queue s' = filter P (vs_sent_queue s)"
    "qs_sent s' = qs_sent s" "vs_seq s' = vs_seq s"
  shows "video_inv q ps s'"
proof -
  have "sent_queue_ok s' n" if "sent_queue_ok s n" "\<forall>x \<in> snd ` set (vs_sent_queue s). part_ok x" for n
    using that filter_sum_le [of "vs_sent_queue s" P] filter_ascending [of "vs_sent_queue s" P] assms(3-5)
    by (auto simp: sent_queue_ok_def bytes_kept_def)
  with assms show ?thesis unfolding video_inv_def numbers_left_def by auto
qed

lemma erase_sum:
  "ascending m \<Longrightarrow> map_of m k = Some v \<Longrightarrow> sum_list (map snd (map_erase k m)) + v = (sum_list (map snd m) :: int)"
proof (induction m)
  case (Cons p m)
  show ?case
  proof (cases "fst p = k")
    case True
    then have "k \<notin> fst ` set m" using Cons.prems(1) by (cases p) auto
    then have "map_erase k m = m" by (auto simp: map_erase_def image_iff intro!: filter_True)
    then show ?thesis using True Cons.prems(2) by (cases p) (simp add: map_erase_def)
  next
    case False
    with Cons show ?thesis by (cases p) (auto simp: map_erase_def)
  qed
qed simp

section \<open>Sending\<close>

lemma video_packet_documented:
  assumes d: "documented q V" and k: "8 \<le> len q MaxPacketSize"
  shows "\<exists>w. video_packet q lm n = (\<lparr>hdr_seq_len = of_nat (seq_bytes n), hdr_seq = n\<rparr>, 2 + seq_bytes n, w) \<and>
     written q w = Quic_Apps.header_bytes V 0 n @ [STREAM_FRAME lm]"
proof -
  from start_packet_documented [OF d, of "len q MaxPacketSize" 0 n] k obtain w where
    w: "start_packet q (len q MaxPacketSize) 0 n = (\<lparr>hdr_seq_len = of_nat (seq_bytes n), hdr_seq = n\<rparr>, w)"
    "written q w = Quic_Apps.header_bytes V 0 n" "capacity q w = len q MaxPacketSize" "worder V w = NETWORK_BYTE_ORDER" by auto
  have "length (written q w) \<le> 7" using documented_lengths(1) [OF d] seq_bytes_cases(2) [of n] by (simp add: w(2) Quic_Apps.header_bytes_def)
  moreover from d have "emits q V NETWORK_BYTE_ORDER (WriteBytes q [STREAM_FRAME lm]) [STREAM_FRAME lm]"
    by (simp add: documented_def writer_documented_def)
  ultimately obtain w1 where "WriteBytes q [STREAM_FRAME lm] w = Some w1" "written q w1 = written q w @ [STREAM_FRAME lm]"
    using emits_fit [OF _ w(4)] w(3) k by fastforce
  then show ?thesis using w(1,2) by (simp add: video_packet_def write_on_def seq_bytes_cases(3))
qed

text \<open>What is sent out of the packet buffer is never more than the buffer.\<close>

lemma part_length:
  assumes d: "documented q V" and k: "8 \<le> len q MaxPacketSize" and w: "video_packet q lm n = (header, h, w)"
  shows "peek (filled q (len q MaxPacketSize) w) 0 i = Some buf \<Longrightarrow> length buf \<le> len q MaxPacketSize"
    "8 \<le> j \<Longrightarrow> length (filled q j w) = j"
proof -
  from video_packet_documented [OF d k, of lm n] w have "length (written q w) \<le> 8"
    using documented_lengths(1) [OF d] seq_bytes_cases(2) [of n] by (simp add: Quic_Apps.header_bytes_def)
  then show f: "8 \<le> j \<Longrightarrow> length (filled q j w) = j" for j by (simp add: filled_def)
  show "peek (filled q (len q MaxPacketSize) w) 0 i = Some buf \<Longrightarrow> length buf \<le> len q MaxPacketSize"
    using f [OF k] by (auto simp: peek_def split: if_splits)
qed

text \<open>A number is used: for a new part, for one that is sent again, or for none.\<close>

lemma next_number:
  assumes "sent_queue_ok s limit" "length (qs_sent s) + 1 < 2 ^ 64 - 1"
  shows "unat (vs_seq s + 1) = unat (vs_seq s) + 1" "vs_seq s < vs_seq s + 1"
proof -
  have "unat (vs_seq s) + 1 < 2 ^ 64" using assms by (simp add: sent_queue_ok_def)
  then show "unat (vs_seq s + 1) = unat (vs_seq s) + 1" by (simp add: unat_word_ariths)
  then show "vs_seq s < vs_seq s + 1" by (simp add: word_less_nat_alt)
qed

lemma video_inv_sent:
  assumes s: "video_inv q ps s" and d: "length (snd d) \<le> len q MaxPacketSize"
    and s': "vs_pending_queue s' = vs_pending_queue s" "vs_sent_queue s' = vs_sent_queue s" "qs_sent s' = qs_sent s @ [d]"
      "vs_seq s' = vs_seq s \<or> vs_seq s' = vs_seq s + 1"
  shows "video_inv q ps s'"
proof -
  have "sent_queue_ok s' n" if "sent_queue_ok s n" "numbers_left s'" for n
    using that next_number [OF that(1)] s' by (auto simp: sent_queue_ok_def numbers_left_def bytes_kept_def intro: less_trans)
  moreover have "numbers_left s" if "numbers_left s'" using that s'(3) by (simp add: numbers_left_def)
  ultimately show ?thesis using s d s' unfolding video_inv_def by auto
qed

lemma sent_queue_insert:
  assumes m: "ascending m" "\<forall>k \<in> fst ` set m. k < n"
  shows "map_insert n x m = m @ [(n, x)]" "ascending (m @ [(n, x)])"
  using m by (auto intro!: map_insert_last simp: ascending_append)

lemma SendFakePacket_inv:
  assumes d: "documented q V" and k8: "8 \<le> len q MaxPacketSize" and s: "video_inv q ps s" and r: "VS_SendFakePacket q lm clk s = Some s'"
  shows "video_inv q ps s'"
proof (cases "vs_pending_queue s")
  case Nil
  with s r show ?thesis by (simp add: VS_SendFakePacket_def)
next
  case (Cons x xs)
  obtain h n w where w: "video_packet q lm (vs_seq s) = (h, n, w)" by (metis prod_cases3)
  obtain buf p where buf: "peek (filled q (len q MaxPacketSize) w) 0 (nat (int n + x)) = Some buf"
    and s': "vs_pending_queue s' = xs" "vs_sent_queue s' = map_insert (vs_seq s) x (vs_sent_queue s)" "qs_sent s' = qs_sent s @ [(p, buf)]" "vs_seq s' = vs_seq s + 1"
    using r by (auto simp: VS_SendFakePacket_def Cons w Let_def VS_OnPacketSent_def note_sent_def split: bind_splits)
  obtain k where k: "k \<le> length ps" "drop k ps = x # xs" "numbers_left s \<Longrightarrow> sent_queue_ok s (sum_list (take k ps))"
    using s Cons by (auto simp: video_inv_def)
  then have k1: "Suc k \<le> length ps" "xs = drop (Suc k) ps" "take (Suc k) ps = take k ps @ [x]"
    using take_add [of k 1 ps] by (auto simp: drop_Suc tl_drop [symmetric] dest: arg_cong [where f = length])
  have "x \<in> set ps" using k(2) by (metis in_set_dropD list.set_intros(1))
  with s have x: "part_ok x" by (simp add: video_inv_def)
  have "length buf \<le> len q MaxPacketSize" by (rule part_length(1) [OF d k8 w buf])
  moreover have "sent_queue_ok s' (sum_list (take (Suc k) ps))" if "numbers_left s'"
  proof -
    have left: "length (qs_sent s) + 1 < 2 ^ 64 - 1" using that s'(3) by (simp add: numbers_left_def)
    then have ok: "sent_queue_ok s (sum_list (take k ps))" using k(3) by (simp add: numbers_left_def)
    then have m: "ascending (vs_sent_queue s)" "\<forall>k \<in> fst ` set (vs_sent_queue s). k < vs_seq s" by (simp_all add: sent_queue_ok_def)
    show ?thesis using ok s' sent_queue_insert [OF m, of x] next_number [OF ok left]
      by (auto simp: sent_queue_ok_def bytes_kept_def k1(3) intro: less_trans)
  qed
  moreover have "\<forall>y \<in> snd ` set (vs_sent_queue s'). part_ok y"
    using s x map_insert_entries(1) [of "vs_seq s" x "vs_sent_queue s"] unfolding s'(2) video_inv_def by auto
  ultimately show ?thesis using s s' k1(1,2) unfolding video_inv_def by auto
qed

lemma SendPaddingData_inv:
  assumes d: "documented q V" and k: "1000 \<le> len q MaxPacketSize" and s: "video_inv q ps s" and r: "VS_SendPaddingData q lm clk s = Some s'"
  shows "video_inv q ps s'"
proof -
  obtain h n w where w: "video_packet q lm (vs_seq s) = (h, n, w)" by (metis prod_cases3)
  then obtain p where s': "vs_pending_queue s' = vs_pending_queue s" "vs_sent_queue s' = vs_sent_queue s"
    "qs_sent s' = qs_sent s @ [(p, filled q QUIC_MAX_VIDEO_SIZE w)]" "vs_seq s' = vs_seq s + 1"
    using r by (auto simp: VS_SendPaddingData_def Let_def VS_OnPacketSent_def note_sent_def split: bind_splits)
  have "length (filled q QUIC_MAX_VIDEO_SIZE w) = QUIC_MAX_VIDEO_SIZE"
    using k by (intro part_length(2) [OF d _ w]) (simp_all add: QUIC_MAX_VIDEO_SIZE_def)
  then show ?thesis using k s' by (intro video_inv_sent [OF s _ s'(1-3)]) (simp_all add: QUIC_MAX_VIDEO_SIZE_def)
qed

lemma OnRetransPacket_inv:
  assumes d: "documented q V" and k8: "8 \<le> len q MaxPacketSize" and s: "video_inv q ps s" and r: "VS_OnRetransPacket q lm clk pending s = Some s'"
  shows "video_inv q ps s'"
proof (cases "map_of (vs_sent_queue s) (fst pending)")
  case None
  with s r show ?thesis by (simp add: VS_OnRetransPacket_def)
next
  case (Some x)
  let ?m = "map_erase (fst pending) (vs_sent_queue s)"
  obtain h n w where w: "video_packet q lm (vs_seq s) = (h, n, w)" by (metis prod_cases3)
  obtain buf p where buf: "peek (filled q (len q MaxPacketSize) w) 0 (nat (int n + x)) = Some buf"
    and s': "vs_pending_queue s' = vs_pending_queue s" "vs_sent_queue s' = map_insert (vs_seq s) x ?m"
      "qs_sent s' = qs_sent s @ [(p, buf)]" "vs_seq s' = vs_seq s + 1"
    using r by (auto simp: VS_OnRetransPacket_def Some w Let_def split: bind_splits)
  have x: "part_ok x" using s map_of_SomeD [OF Some] by (force simp: video_inv_def)
  have sub: "set ?m \<subseteq> set (vs_sent_queue s)" by (auto simp: map_erase_def)
  have "sent_queue_ok s' b" if ok: "sent_queue_ok s b" and left: "length (qs_sent s) + 1 < 2 ^ 64 - 1" for b
  proof -
    have asc: "ascending (vs_sent_queue s)" and less: "\<forall>k \<in> fst ` set (vs_sent_queue s). k < vs_seq s" using ok by (simp_all add: sent_queue_ok_def)
    then have m: "ascending ?m" "\<forall>k \<in> fst ` set ?m. k < vs_seq s" using sub by (auto intro: map_erase_ascending)
    show ?thesis using ok s' sent_queue_insert [OF m, of x] next_number [OF ok left] erase_sum [OF asc Some] sub less
      by (auto simp: sent_queue_ok_def bytes_kept_def intro: less_trans)
  qed
  then have "sent_queue_ok s' b" if "sent_queue_ok s b" "numbers_left s'" for b using that s'(3) by (simp add: numbers_left_def)
  moreover have "numbers_left s" if "numbers_left s'" using that s'(3) by (simp add: numbers_left_def)
  moreover have "\<forall>y \<in> snd ` set (vs_sent_queue s'). part_ok y"
    using s x sub map_insert_entries(1) [of "vs_seq s" x ?m] unfolding s'(2) video_inv_def by fastforce
  ultimately show ?thesis using s s'(1,3) part_length(1) [OF d k8 w buf] unfolding video_inv_def by auto
qed

lemma retransmit_inv:
  assumes d: "documented q V" and k8: "8 \<le> len q MaxPacketSize" and r: "VS_retransmit q lm clk s = Some s'"
  shows "video_inv q ps s \<Longrightarrow> video_inv q ps s'"
proof -
  have cong: "video_inv q ps (s\<lparr>qs_manager := m\<rparr>) \<longleftrightarrow> video_inv q ps s" for q ps s m by (rule video_inv_cong) simp_all
  have "documented q V \<and> 8 \<le> len q MaxPacketSize \<and> video_inv q ps s \<longrightarrow> video_inv q ps s'"
  proof (rule VS_retransmit.raw_induct [where P = "\<lambda>q lm clk s s'. documented q V \<and> 8 \<le> len q MaxPacketSize \<and> video_inv q ps s \<longrightarrow> video_inv q ps s'", OF _ r])
    fix retransmit q lm clk s s'
    assume IH: "\<And>q lm clk s s'. retransmit q lm clk s = Some s' \<Longrightarrow> documented q V \<and> 8 \<le> len q MaxPacketSize \<and> video_inv q ps s \<longrightarrow> video_inv q ps s'"
      and body: "(case TimeUntilSend lm (clk Resend) (qs_manager s) of
        (d, m) \<Rightarrow>
          if d = Delta_Zero
          then if HasPendingRetransmissions lm m
               then case NextPendingRetransmission lm m of
                      (pending, m) \<Rightarrow> Option.bind (VS_OnRetransPacket q lm clk pending (s\<lparr>qs_manager := m\<rparr>)) (retransmit q lm clk)
               else Some (s\<lparr>qs_manager := m\<rparr>)
          else Some (s\<lparr>qs_manager := m\<rparr>)) = Some s'"
    show "documented q V \<and> 8 \<le> len q MaxPacketSize \<and> video_inv q ps s \<longrightarrow> video_inv q ps s'"
    proof (intro impI, elim conjE)
      assume a: "documented q V" "8 \<le> len q MaxPacketSize" "video_inv q ps s"
      have "video_inv q ps s'" if "VS_OnRetransPacket q lm clk pending (s\<lparr>qs_manager := m\<rparr>) = Some s1" "retransmit q lm clk s1 = Some s'" for pending m s1
        using OnRetransPacket_inv [OF a(1,2) _ that(1)] IH [OF that(2)] a by (simp add: cong)
      then show "video_inv q ps s'" using body a(3) by (auto simp: cong split: prod.splits if_splits bind_splits)
    qed
  qed
  then show "video_inv q ps s \<Longrightarrow> video_inv q ps s'" using d k8 by blast
qed

text \<open>A writer never goes beyond its buffer, whether its writes succeed or not.\<close>

lemma write_on_capacity:
  "emits q V e f bs \<Longrightarrow> worder V w = e \<Longrightarrow> capacity q (write_on f w) = capacity q w \<and> worder V (write_on f w) = e"
  by (cases "f w") (auto simp: write_on_def emits_def split: if_splits)

lemma stop_waiting_length:
  assumes d: "documented q V" and k: "8 \<le> len q MaxPacketSize"
  shows "length (stop_waiting_packet q n unack) \<le> len q MaxPacketSize"
proof -
  from start_packet_documented [OF d, of "len q MaxPacketSize" 0 n] k obtain w where
    w: "start_packet q (len q MaxPacketSize) 0 n = (\<lparr>hdr_seq_len = of_nat (seq_bytes n), hdr_seq = n\<rparr>, w)"
    "capacity q w = len q MaxPacketSize" "worder V w = NETWORK_BYTE_ORDER" by auto
  from d have e: "emits q V NETWORK_BYTE_ORDER (WriteBytes q bs) bs"
    "emits q V NETWORK_BYTE_ORDER (WriteBytesToUInt64 q (seq_bytes n) unack) (int_enc V NETWORK_BYTE_ORDER (seq_bytes n) unack)" for bs
    using seq_bytes_cases(2) [of n] by (simp_all add: documented_def writer_documented_def)
  let ?w1 = "write_on (WriteBytes q [ftype q STOP_WAITING_FRAME]) w"
  let ?w2 = "write_on (WriteBytesToUInt64 q (seq_bytes n) unack) ?w1"
  have "capacity q ?w2 = len q MaxPacketSize" using write_on_capacity [OF e(1) w(3)] write_on_capacity [OF e(2), of ?w1] w(2) by simp
  then have "length (written q ?w2) \<le> len q MaxPacketSize" using documented_state(2) [OF d, of ?w2] by simp
  then show ?thesis using w(1) by (simp add: stop_waiting_packet_def Let_def seq_bytes_cases(3) documented_state(1) [OF d])
qed

section \<open>Receiving\<close>

text \<open>Whatever a datagram holds, it can only take packets off the queue of sent ones.\<close>

lemma visit_keeps: "video_inv q ps (f_visitor f) \<Longrightarrow> video_inv q ps (f_visitor (snd (VS_visit lm c f)))"
proof (cases c)
  case (OnAckRangeCall lo hi b)
  assume s: "video_inv q ps (f_visitor f)"
  have "video_inv q ps (snd (VS_OnAckRange lm lo hi b (f_visitor f)))"
    by (rule video_inv_filter [OF s, where P = "\<lambda>(k, _). \<not> (lo \<le> k \<and> k < hi)"])
      (simp_all add: VS_OnAckRange_def Let_def remove_acked_filter VS_PostProcessAfterAckFrame_def QS_PostProcessAfterAckFrame_def split: prod.splits)
  then show ?thesis by (simp add: OnAckRangeCall VS_visit_def on_visitor_def case_prod_beta)
next
  case (OnAckFrameStartCall l dl)
  assume s: "video_inv q ps (f_visitor f)"
  have "video_inv q ps (snd (VS_OnAckFrameStart lm l dl (f_visitor f))) \<longleftrightarrow> video_inv q ps (f_visitor f)"
    by (rule video_inv_cong) (simp_all add: VS_OnAckFrameStart_def QS_OnAckFrameStart_def Let_def)
  with s show ?thesis by (simp add: OnAckFrameStartCall VS_visit_def on_visitor_def case_prod_beta)
qed (simp_all add: VS_visit_def on_visitor_def VS_OnAckFrame_def QS_OnAckFrame_def AbstractQuicFramerVisitor_def)

interpretation video_queues: frame_invariant "VS_visit lm" "\<lambda>f. video_inv q ps (f_visitor f)" for lm q ps
  by unfold_locales (simp_all add: visit_keeps set_error_def set_detailed_error_def)

lemma OnIncomingData_inv:
  assumes d: "documented q V" and s: "video_inv q ps s" and r: "VS_OnIncomingData q lib lm now dat s = Some s'"
  shows "video_inv q ps s'"
proof -
  obtain payload f ok f' where f: "MyQuicFramer q lib [version_43 lm] (word_of_int (time_us now)) (qs_perspective s) (s\<lparr>qs_last_received := now\<rparr>) = Some f"
    "ProcessFrameData q lib (VS_visit lm) (default_header lib) (new_reader q payload NETWORK_BYTE_ORDER) f = Some (ok, f')" "s' = f_visitor f'"
    using r by (auto simp: VS_OnIncomingData_def read_frames_def Let_def split: prod.splits bind_splits)
  have "f_visitor f = s\<lparr>qs_last_received := now\<rparr>" using f(1) by (auto simp: MyQuicFramer_def)
  moreover have "video_inv q ps (s\<lparr>qs_last_received := now\<rparr>)" using s by (subst video_inv_cong [of _ s]) simp_all
  ultimately show ?thesis using video_queues.ProcessFrameData_P [OF d _ f(2), of q ps] f(3) by simp
qed

section \<open>Rounds\<close>

lemma queue_frame_inv:
  assumes s: "video_inv q ps s" and r: "VS_queue_frame now s = Some s'" and g: "vs_source s = Some g" "GetFrame now g = Some (n, g')"
  shows "video_inv q (ps @ frame_parts (nat n)) s'"
proof -
  have keep: "video_inv q (ps @ ps') s'"
    if s': "s' = s\<lparr>vs_source := Some g', vs_pending_queue := vs_pending_queue s @ ps'\<rparr>" and ps': "\<forall>x \<in> set ps'. part_ok x" for ps'
  proof -
    from s obtain k where "k \<le> length ps" "vs_pending_queue s = drop k ps" "numbers_left s \<longrightarrow> sent_queue_ok s (sum_list (take k ps))"
      by (auto simp: video_inv_def)
    then have "\<exists>k \<le> length (ps @ ps'). vs_pending_queue s' = drop k (ps @ ps') \<and> (numbers_left s' \<longrightarrow> sent_queue_ok s' (sum_list (take k (ps @ ps'))))"
      by (intro exI [of _ k]) (simp add: s' numbers_left_def sent_queue_ok_def bytes_kept_def)
    then show ?thesis using s ps' by (auto simp: video_inv_def s')
  qed
  show ?thesis
  proof (cases "0 < n")
    case False
    with r have "s' = s\<lparr>vs_source := Some g'\<rparr>" by (simp add: VS_queue_frame_def g Let_def)
    then show ?thesis using keep [of "[]"] False by (simp add: frame_parts_def)
  next
    case True
    with r obtain number splits where
      f: "n sdiv int QUIC_MAX_VIDEO_SIZE < int MAX_SPLIT_NUMBER" "FrameSplit (replicate MAX_SPLIT_NUMBER 0) (nat n) = Some (number, splits)"
      "s' = s\<lparr>vs_source := Some g', vs_pending_queue := vs_pending_queue s @ map uint (take (unat number) splits)\<rparr>"
      by (auto simp: VS_queue_frame_def g Let_def split: if_splits bind_splits)
    have "n div 1000 < 1024" using f(1) True sdiv_pos [of n "int QUIC_MAX_VIDEO_SIZE"] by (simp add: QUIC_MAX_VIDEO_SIZE_def MAX_SPLIT_NUMBER_def)
    then have "nat n < 1024 * 1000" by linarith
    then have "nat n div QUIC_MAX_VIDEO_SIZE < MAX_SPLIT_NUMBER" by (simp add: QUIC_MAX_VIDEO_SIZE_def MAX_SPLIT_NUMBER_def less_mult_imp_div_less)
    with FrameSplit_parts [of "nat n" "replicate MAX_SPLIT_NUMBER 0"] f(2) True
    have "map uint (take (unat number) splits) = frame_parts (nat n)" by auto
    then show ?thesis using keep [OF f(3)] frame_parts_size [of _ "nat n"] by (auto simp: part_ok_def)
  qed
qed

lemma SendDataOrPadding_inv:
  assumes "documented q V" and "1000 \<le> len q MaxPacketSize" and "video_inv q ps s" and "VS_SendDataOrPadding q lm clk s = Some s'"
  shows "video_inv q ps s'"
proof (cases "vs_pending_queue s = []")
  case True
  from assms(4) have "(if ShouldSendProbingPacket lm (qs_manager s) then VS_SendPaddingData q lm clk s else Some s) = Some s'"
    unfolding VS_SendDataOrPadding_def if_P [OF True] by (elim bind_SomeE)
  with SendPaddingData_inv [OF assms(1-3), of lm clk s'] assms(3) show ?thesis by (cases "ShouldSendProbingPacket lm (qs_manager s)") simp_all
next
  case False
  with assms(4) have "VS_SendFakePacket q lm clk s = Some s'" by (simp add: VS_SendDataOrPadding_def)
  then show ?thesis using SendFakePacket_inv [OF assms(1) _ assms(3)] assms(2) by simp
qed

lemma video_inv_rest:
  "VS_UpdateSourceRate lm now s = Some s' \<Longrightarrow> video_inv q ps s' \<longleftrightarrow> video_inv q ps s"
  "VS_RecordRate lm now s = Some s' \<Longrightarrow> video_inv q ps s' \<longleftrightarrow> video_inv q ps s"
proof -
  assume "VS_UpdateSourceRate lm now s = Some s'"
  then show "video_inv q ps s' \<longleftrightarrow> video_inv q ps s"
    by (intro video_inv_cong) (auto simp: VS_UpdateSourceRate_def split: if_splits bind_splits)
next
  assume "VS_RecordRate lm now s = Some s'"
  then show "video_inv q ps s' \<longleftrightarrow> video_inv q ps s"
    by (intro video_inv_cong) (auto simp: VS_RecordRate_def log_rate_def Let_def split: if_splits bind_splits)
qed

lemma Process_inv:
  assumes d: "documented q V" and k: "1000 \<le> len q MaxPacketSize" and s: "video_inv q ps s" and g: "vs_source s = Some g" "GetFrame (clk Call) g = Some (n, g')"
    and r: "VS_Process q lib lm incoming clk s = Some (ret, s')"
  shows "video_inv q (ps @ frame_parts (nat n)) s'"
proof -
  let ?ps' = "frame_parts (nat n)"
  have cong: "video_inv q ps (s\<lparr>qs_manager := m\<rparr>) \<longleftrightarrow> video_inv q ps s" for ps s m by (rule video_inv_cong) simp_all
  have k8: "8 \<le> len q MaxPacketSize" using k by simp
  from r obtain s1 s2 z s3 s4 s5 s6 where
    r1: "VS_queue_frame (clk Call) s = Some s1"
    and r2: "(if fst (TimeUntilSend lm (clk Call) (qs_manager s1)) = Delta_Zero
       then VS_SendDataOrPadding q lm clk (s1\<lparr>qs_manager := snd (TimeUntilSend lm (clk Call) (qs_manager s1))\<rparr>)
       else Some (s1\<lparr>qs_manager := snd (TimeUntilSend lm (clk Call) (qs_manager s1))\<rparr>)) = Some s2"
    and "RecvFrom incoming = Some z"
    and r3: "(if fst z > 0 then VS_OnIncomingData q lib lm (clk Datagram) (take (nat (fst z)) (snd (snd z))) s2 else Some s2) = Some s3"
    and r4: "(if qs_stop_waiting_count s3 > 2 then VS_SendStopWaitingFrame q lm s3 else Some s3) = Some s4"
    and r5: "VS_SendRetransmission q lm clk s4 = Some s5"
    and r6: "VS_UpdateSourceRate lm (clk Call) s5 = Some s6" and r7: "VS_RecordRate lm (clk Call) s6 = Some s'"
    unfolding VS_Process_def Let_def case_prod_beta by (elim bind_SomeE) (rule that, assumption+, simp)
  have 1: "video_inv q (ps @ ?ps') s1" by (rule queue_frame_inv [OF s r1 g])
  have 2: "video_inv q (ps @ ?ps') s2"
  proof (cases "fst (TimeUntilSend lm (clk Call) (qs_manager s1)) = Delta_Zero")
    case True
    from SendDataOrPadding_inv [OF d k _ r2 [unfolded if_P [OF True]]] 1 show ?thesis by (simp only: cong)
  next
    case False
    from r2 [unfolded if_not_P [OF False]] 1 show ?thesis by (auto simp: cong)
  qed
  have 3: "video_inv q (ps @ ?ps') s3" using r3 2 OnIncomingData_inv [OF d] by (auto split: if_splits)
  have 4: "video_inv q (ps @ ?ps') s4"
  proof (cases "qs_stop_waiting_count s3 > 2")
    case True
    with r4 obtain p u where s4: "s4 = s3\<lparr>qs_stop_waiting_count := 0, qs_sent := qs_sent s3 @ [(p, stop_waiting_packet q (vs_seq s3) u)]\<rparr>"
      by (auto simp: VS_SendStopWaitingFrame_def Let_def split: bind_splits)
    show ?thesis using stop_waiting_length [OF d k8] by (intro video_inv_sent [OF 3]) (simp_all add: s4)
  qed (use r4 3 in simp)
  have 5: "video_inv q (ps @ ?ps') s5" using retransmit_inv [OF d k8 _ 4] r5 by (simp add: VS_SendRetransmission_def)
  have 6: "video_inv q (ps @ ?ps') s6"
    using video_inv_rest(1) [OF r6] 5 by blast
  show ?thesis using video_inv_rest(2) [OF r7] 6 by blast
qed

section \<open>Runs\<close>

text \<open>Rounds of \<open>Process\<close>, with the sizes of the frames that the source gave.\<close>

fun VS_run :: "('r, 'w) quic \<Rightarrow> ('d, 'e, 'k, 'a, 'p) lib \<Rightarrow> ('m, 'n) managers \<Rightarrow> ((su_addr \<times> bytes) option \<times> (sender_reading \<Rightarrow> QuicTime)) list \<Rightarrow>
    'm quic_video \<Rightarrow> (int list \<times> 'm quic_video) option" where
  "VS_run q lib lm [] s = Some ([], s)"
| "VS_run q lib lm ((incoming, clk) # rounds) s = do {
     source \<leftarrow> vs_source s;
     (n, source) \<leftarrow> GetFrame (clk Call) source;
     (ret, s) \<leftarrow> VS_Process q lib lm incoming clk s;
     (ns, s) \<leftarrow> VS_run q lib lm rounds s;
     Some (max 0 n # ns, s)
   }"

definition parts_of :: "int list \<Rightarrow> int list" where
  "parts_of ns = concat (map (\<lambda>n. frame_parts (nat n)) ns)"

lemma VS_run_inv:
  assumes "documented q V" and "1000 \<le> len q MaxPacketSize"
  shows "video_inv q ps s \<Longrightarrow> VS_run q lib lm rounds s = Some (ns, s') \<Longrightarrow> video_inv q (ps @ parts_of ns) s'"
proof (induction rounds arbitrary: ps s ns)
  case Nil
  then show ?case by (simp add: parts_of_def)
next
  case (Cons round rounds)
  obtain incoming clk where round: "round = (incoming, clk)" by force
  from Cons.prems(2) obtain g n g' ret s1 ns1 where g: "vs_source s = Some g" "GetFrame (clk Call) g = Some (n, g')"
    and r: "VS_Process q lib lm incoming clk s = Some (ret, s1)" "VS_run q lib lm rounds s1 = Some (ns1, s')" "ns = max 0 n # ns1"
    unfolding round by (auto elim!: bind_SomeE)
  from Cons.IH [OF Process_inv [OF assms Cons.prems(1) g r(1)] r(2)] show ?case
    by (cases "0 \<le> n") (simp_all add: r(3) parts_of_def max_def)
qed

text \<open>
  C14: the queues of the QUIC video sender, whatever arrives from the network and whatever its manager does. Let \<open>ps\<close> be the parts of all frames that
  the source gave, in the order of the frames, each frame cut into parts of \<open>QUIC_MAX_VIDEO_SIZE\<close> bytes and one of the rest. The queue holds what
  remains of \<open>ps\<close> when its first \<open>k\<close> parts are taken away, so the parts leave in their order; no datagram is longer than the packet buffer; and, while
  numbers last, every number in the queue of sent packets is there once and was used before, and the bytes that are kept to be sent again are at
  most those of the first \<open>k\<close> parts.
\<close>

theorem video_sender_queues:
  assumes "documented q V" and "1000 \<le> len q MaxPacketSize"
    and "VS_run q lib lm rounds (VS_SetVideoSource source (VS_set_peer peer (MyQuicVideoSender lm perspective now))) = Some (ns, s)"
  shows "\<exists>k. k \<le> length (parts_of ns) \<and> vs_pending_queue s = drop k (parts_of ns) \<and>
     (\<forall>d \<in> set (qs_sent s). length (snd d) \<le> len q MaxPacketSize) \<and>
     (length (qs_sent s) < 2 ^ 64 - 1 \<longrightarrow> distinct (map fst (vs_sent_queue s)) \<and> (\<forall>n \<in> fst ` set (vs_sent_queue s). n < vs_seq s) \<and>
        sum_list (map snd (vs_sent_queue s)) \<le> sum_list (take k (parts_of ns)))"
proof -
  let ?s = "VS_SetVideoSource source (VS_set_peer peer (MyQuicVideoSender lm perspective now))"
  have "video_inv q [] ?s"
    by (simp add: video_inv_def VS_SetVideoSource_def VS_set_peer_def QS_set_peer_def MyQuicVideoSender_def sent_queue_ok_def bytes_kept_def)
  from VS_run_inv [OF assms(1,2) this assms(3)] have "video_inv q (parts_of ns) s" by simp
  then show ?thesis unfolding video_inv_def numbers_left_def sent_queue_ok_def bytes_kept_def by (fast intro: ascending_distinct)
qed

section \<open>Sending again\<close>

text \<open>Every packet that is pending is in the queue, so it can be sent again.\<close>

definition resendable :: "('r, 'w) quic \<Rightarrow> ('m \<Rightarrow> u64 set) \<Rightarrow> 'm quic_video \<Rightarrow> bool" where
  "resendable q pend s \<longleftrightarrow> qs_peer s \<noteq> None \<and> ascending (vs_sent_queue s) \<and> (\<forall>k \<in> fst ` set (vs_sent_queue s). k < vs_seq s) \<and>
     (\<forall>x \<in> snd ` set (vs_sent_queue s). part_ok x) \<and> pend (qs_manager s) \<subseteq> fst ` set (vs_sent_queue s) \<and>
     unat (vs_seq s) + card (pend (qs_manager s)) < 2 ^ 64"

lemma OnRetransPacket_queue:
  assumes d: "documented q V" and k: "1008 \<le> len q MaxPacketSize" and s: "resendable q pend s" and n: "n \<in> pend (qs_manager s)"
  shows "\<exists>s' info t out x. VS_OnRetransPacket q lm clk (n, fr) s = Some s' \<and> qs_peer s' = qs_peer s \<and> qs_sent s' = qs_sent s @ [out] \<and>
     qs_manager s' = sm_OnPacketSent lm info n t LOSS_RETRANSMISSION True (qs_manager s) \<and> vs_seq s' = vs_seq s + 1 \<and>
     map_of (vs_sent_queue s) n = Some x \<and> vs_sent_queue s' = map_erase n (vs_sent_queue s) @ [(vs_seq s, x)]"
proof -
  from s n obtain x where x: "map_of (vs_sent_queue s) n = Some x" unfolding resendable_def by (metis domD dom_map_of_conv_image_fst subsetD)
  have px: "part_ok x" using s map_of_SomeD [OF x] by (force simp: resendable_def)
  obtain p where p: "qs_peer s = Some p" using s by (auto simp: resendable_def)
  from video_packet_documented [OF d, of lm "vs_seq s"] k obtain w where
    w: "video_packet q lm (vs_seq s) = (\<lparr>hdr_seq_len = of_nat (seq_bytes (vs_seq s)), hdr_seq = vs_seq s\<rparr>, 2 + seq_bytes (vs_seq s), w)" by auto
  have "nat (int (2 + seq_bytes (vs_seq s)) + x) \<le> len q MaxPacketSize"
    using px seq_bytes_cases(2) [of "vs_seq s"] k by (auto simp: part_ok_def QUIC_MAX_VIDEO_SIZE_def nat_le_iff)
  moreover have "length (filled q (len q MaxPacketSize) w) = len q MaxPacketSize" using part_length(2) [OF d _ w] k by simp
  ultimately obtain buf where buf: "peek (filled q (len q MaxPacketSize) w) 0 (nat (int (2 + seq_bytes (vs_seq s)) + x)) = Some buf" by (simp add: peek_def)
  have m: "ascending (map_erase n (vs_sent_queue s))" "\<forall>k \<in> fst ` set (map_erase n (vs_sent_queue s)). k < vs_seq s"
    using s by (auto simp: resendable_def map_erase_set intro: map_erase_ascending)
  show ?thesis
    using x p w buf sent_queue_insert(1) [OF m, of x] by (simp add: VS_OnRetransPacket_def Let_def del: of_nat_add) blast
qed

lemma VS_retransmit_ends:
  assumes doc: "pending_documented lm pend" and d: "documented q V" and k: "1008 \<le> len q MaxPacketSize"
  shows "resendable q pend s \<Longrightarrow> \<exists>s'. VS_retransmit q lm clk s = Some s' \<and> pend (qs_manager s') \<subseteq> pend (qs_manager s) \<and>
     length (qs_sent s') = length (qs_sent s) + card (pend (qs_manager s) - pend (qs_manager s')) \<and> bytes_kept s' = bytes_kept s"
proof (induction "card (pend (qs_manager s))" arbitrary: s rule: less_induct)
  case less
  obtain dl m where t: "TimeUntilSend lm (clk Resend) (qs_manager s) = (dl, m)" by force
  have pm: "pend m = pend (qs_manager s)" using doc t unfolding pending_documented_def by (metis snd_conv)
  show ?case
  proof (cases "dl = Delta_Zero \<and> HasPendingRetransmissions lm m")
    case False
    then have "VS_retransmit q lm clk s = Some (s\<lparr>qs_manager := m\<rparr>)" using t by (subst VS_retransmit.simps) auto
    then show ?thesis using pm by (simp add: bytes_kept_def)
  next
    case True
    obtain n fr m1 where nx: "NextPendingRetransmission lm m = ((n, fr), m1)" by (metis surj_pair)
    have n: "n \<in> pend m" "pend m1 = pend m" "finite (pend m)" using doc True nx unfolding pending_documented_def by (metis fst_conv snd_conv)+
    have "resendable q pend (s\<lparr>qs_manager := m1\<rparr>)" using less.prems n pm by (simp add: resendable_def)
    from OnRetransPacket_queue [OF d k this, of n lm clk fr] n pm obtain s1 info t' out x where
      s1: "VS_OnRetransPacket q lm clk (n, fr) (s\<lparr>qs_manager := m1\<rparr>) = Some s1" "qs_peer s1 = qs_peer s" "qs_sent s1 = qs_sent s @ [out]"
        "qs_manager s1 = sm_OnPacketSent lm info n t' LOSS_RETRANSMISSION True m1" "vs_seq s1 = vs_seq s + 1"
        "map_of (vs_sent_queue s) n = Some x" "vs_sent_queue s1 = map_erase n (vs_sent_queue s) @ [(vs_seq s, x)]" by auto
    have p1: "pend (qs_manager s1) = pend (qs_manager s) - {n}" using doc n pm s1(4) unfolding pending_documented_def by metis
    have c: "card (pend (qs_manager s)) = Suc (card (pend (qs_manager s1)))"
      unfolding p1 using n pm card_Suc_Diff1 [of "pend (qs_manager s)" n] by simp
    have sq: "unat (vs_seq s1) = unat (vs_seq s) + 1" using less.prems c s1(5) by (simp add: resendable_def unat_word_ariths)
    have asc: "ascending (vs_sent_queue s)" "\<forall>k \<in> fst ` set (vs_sent_queue s). k < vs_seq s" using less.prems by (simp_all add: resendable_def)
    have "vs_seq s < vs_seq s1" using sq by (simp add: word_less_nat_alt)
    moreover have "part_ok x" using less.prems map_of_SomeD [OF s1(6)] by (force simp: resendable_def)
    moreover have "ascending (vs_sent_queue s1)"
      unfolding s1(7) using asc by (intro sent_queue_insert(2)) (auto simp: map_erase_set intro: map_erase_ascending)
    ultimately have "resendable q pend s1"
      using less.prems c sq s1(2) unfolding resendable_def p1 s1(7) by (force simp: map_erase_set image_iff intro: less_trans)
    from less.hyps [OF _ this] c obtain s' where s': "VS_retransmit q lm clk s1 = Some s'" "pend (qs_manager s') \<subseteq> pend (qs_manager s1)"
      "length (qs_sent s') = length (qs_sent s1) + card (pend (qs_manager s1) - pend (qs_manager s'))" "bytes_kept s' = bytes_kept s1" by auto
    have "VS_retransmit q lm clk s = Some s'" using t True nx s1(1) s'(1) by (subst VS_retransmit.simps) simp
    moreover have "pend (qs_manager s) - pend (qs_manager s') = insert n (pend (qs_manager s1) - pend (qs_manager s'))"
      using s'(2) n pm by (auto simp: p1)
    then have "card (pend (qs_manager s) - pend (qs_manager s')) = Suc (card (pend (qs_manager s1) - pend (qs_manager s')))"
      using n pm by (simp add: p1)
    moreover have "bytes_kept s1 = bytes_kept s" using erase_sum [OF asc(1) s1(6)] by (simp add: bytes_kept_def s1(7))
    ultimately show ?thesis using s' s1(3) by (auto simp: p1)
  qed
qed

text \<open>
  C18: the video sender's retransmission ends when every pending packet is still in its queue: each is sent again at most once, under a new number,
  what the manager still holds pending was pending before, and the bytes that are kept to be sent again stay the same.
\<close>

theorem video_retransmissions_end:
  assumes "pending_documented lm pend" and "documented q V" and "1008 \<le> len q MaxPacketSize" and "resendable q pend s"
  shows "\<exists>s'. VS_SendRetransmission q lm clk s = Some s' \<and> pend (qs_manager s') \<subseteq> pend (qs_manager s) \<and>
     length (qs_sent s') = length (qs_sent s) + card (pend (qs_manager s) - pend (qs_manager s')) \<and>
     sum_list (map snd (vs_sent_queue s')) = sum_list (map snd (vs_sent_queue s))"
  using VS_retransmit_ends [OF assms, of clk] by (simp add: VS_SendRetransmission_def bytes_kept_def)

section \<open>Examples\<close>

lemma demo_pending: "pending_documented demo_managers (set \<circ> fst)"
  by (auto simp: pending_documented_def demo_managers_def)

theorem sender_retransmissions_end_witness:
  "\<exists>s'. QS_SendRetransmission demo demo_managers (\<lambda>_. QuicTime 1000)
       ((QS_set_peer \<lparr>sin_addr = 1, sin_port = 2\<rparr> (MyQuicSender demo_managers IS_SERVER (QuicTime 1000)))\<lparr>qs_manager := ([3, 5], [])\<rparr>) = Some s' \<and>
     (set \<circ> fst) (qs_manager s') \<subseteq> {3, 5} \<and> length (qs_sent s') = card ({3, 5} - (set \<circ> fst) (qs_manager s'))"
proof -
  let ?s = "(QS_set_peer \<lparr>sin_addr = 1, sin_port = 2\<rparr> (MyQuicSender demo_managers IS_SERVER (QuicTime 1000)))\<lparr>qs_manager := ([3, 5], [])\<rparr>"
  have "qs_peer ?s \<noteq> None" "qs_manager ?s = ([3, 5], [])" "qs_sent ?s = []" by (simp_all add: QS_set_peer_def MyQuicSender_def)
  with sender_retransmissions_end [OF demo_pending this(1), of "\<lambda>_. QuicTime 1000" demo] show ?thesis by (simp add: clock_ok_def)
qed

theorem broken_ack_stops_video_sender_witness:
  "VS_SendRetransmission demo demo_managers (\<lambda>_. QuicTime 1000) (snd (VS_OnAckRange demo_managers 8 9 False demo_video)) = None"
  by (rule broken_ack_stops_video_sender [of 8 8 9 demo_managers demo_video "([8, 9], [(8, 9)])" _ 1])
    (simp_all add: VS_range demo_video_def demo_managers_def)

theorem video_retransmissions_end_witness:
  "\<exists>s'. VS_SendRetransmission demo demo_managers (\<lambda>_. QuicTime 1000) demo_video = Some s' \<and> (set \<circ> fst) (qs_manager s') \<subseteq> {8, 9} \<and>
     length (qs_sent s') = card ({8, 9} - (set \<circ> fst) (qs_manager s')) \<and> sum_list (map snd (vs_sent_queue s')) = 2500"
proof -
  have v: "qs_manager demo_video = ([8, 9], [])" "vs_sent_queue demo_video = [(7, 1000), (8, 500), (9, 1000)]" "vs_seq demo_video = 12"
    "qs_peer demo_video \<noteq> None" "qs_sent demo_video = []"
    by (simp_all add: demo_video_def VS_set_peer_def QS_set_peer_def MyQuicVideoSender_def)
  have "resendable demo (set \<circ> fst) demo_video"
    by (simp add: resendable_def v part_ok_def QUIC_MAX_VIDEO_SIZE_def)
  moreover have "1008 \<le> len demo MaxPacketSize" by (simp add: demo_sel demo_len_def)
  ultimately show ?thesis using video_retransmissions_end [OF demo_pending demo_documented, of demo_video "\<lambda>_. QuicTime 1000"] by (simp add: v)
qed

text \<open>One round in which the source gives a frame of 4000 bytes, and the first part is sent.\<close>

lemma demo_round:
  "map_option (\<lambda>(ns, s). (ns, vs_pending_queue s, vs_sent_queue s)) (VS_run demo Packet_Safety.demo_lib demo_managers [(None, \<lambda>_. QuicTime 1000)]
       (VS_SetVideoSource demo_source (VS_set_peer \<lparr>sin_addr = 1, sin_port = 2\<rparr> (MyQuicVideoSender demo_managers IS_SERVER (QuicTime 500))))) =
   Some ([4000], [1000, 1000, 1000], [(1, 1000)])"
  by code_simp

theorem video_sender_queues_witness:
  "\<exists>ns s k. VS_run demo Packet_Safety.demo_lib demo_managers [(None, \<lambda>_. QuicTime 1000)]
       (VS_SetVideoSource demo_source (VS_set_peer \<lparr>sin_addr = 1, sin_port = 2\<rparr> (MyQuicVideoSender demo_managers IS_SERVER (QuicTime 500)))) = Some (ns, s) \<and>
     vs_pending_queue s = [1000, 1000, 1000] \<and> vs_pending_queue s = drop k [1000, 1000, 1000, 1000] \<and> (\<forall>d \<in> set (qs_sent s). length (snd d) \<le> 1452)"
proof -
  from demo_round obtain ns s where r: "VS_run demo Packet_Safety.demo_lib demo_managers [(None, \<lambda>_. QuicTime 1000)]
       (VS_SetVideoSource demo_source (VS_set_peer \<lparr>sin_addr = 1, sin_port = 2\<rparr> (MyQuicVideoSender demo_managers IS_SERVER (QuicTime 500)))) = Some (ns, s)"
    "ns = [4000]" "vs_pending_queue s = [1000, 1000, 1000]" by auto
  have k: "len demo MaxPacketSize = 1452" by (simp add: demo_sel demo_len_def)
  then have "1000 \<le> len demo MaxPacketSize" by simp
  from video_sender_queues [OF demo_documented this r(1)] obtain j where
    j: "vs_pending_queue s = drop j (parts_of ns)" "\<forall>d \<in> set (qs_sent s). length (snd d) \<le> 1452" unfolding k by (elim exE conjE)
  have "replicate 4 (1000 :: int) = [1000, 1000, 1000, 1000]" by (simp add: eval_nat_numeral)
  then have "parts_of ns = [1000, 1000, 1000, 1000]" by (simp add: r(2) parts_of_def frame_parts_def QUIC_MAX_VIDEO_SIZE_def)
  then have "vs_pending_queue s = drop j [1000, 1000, 1000, 1000]" using j(1) by simp
  then show ?thesis using r(1,3) j(2) by (intro exI [of _ ns] exI [of _ s] exI [of _ j] conjI)
qed

end
