(* ===== verification/Video_Source.thy ===== *)
theory Video_Source
  imports Quic_Time
begin

text \<open>
  \<^verbatim>\<open>mininet-webrtc/fakevideosource.{h,cc}\<close>: the source that feeds the WebRTC sender. It makes a frame and posts its next turn to a task queue of the WebRTC
  library; what it asks of the queue and of its target is recorded in order. Sizes are computed in single precision.
\<close>

section \<open>Single precision\<close>

definition to_single :: "rat \<Rightarrow> rat" where
  "to_single x =
     (if x = 0 then 0
      else let u = pow2 (exponent \<bar>x\<bar> - 23) in (if x < 0 then - 1 else 1) * of_int (round_even (\<bar>x\<bar> / u)) * u)"

text \<open>Without frames per second the length is infinite, which has no value as an integer.\<close>

definition frame_length :: "u32 \<Rightarrow> u32 \<Rightarrow> u32 option" where
  "frame_length rate fs =
     (let d = to_single (of_int (uint fs)) * 8 in
      if d = 0 then None
      else let l = to_single (to_single (of_int (uint rate)) / d) in if \<lfloor>l\<rfloor> < 2 ^ 32 then Some (word_of_int \<lfloor>l\<rfloor>) else None)"

section \<open>The source\<close>

record time_rate_t =
  tr_now :: u32
  tr_bps :: u32

datatype source_call = FrameTo u32 | PostGenerate u32 | PostWrite time_rate_t | Printed time_rate_t

text \<open>\<open>vg_minR\<close> has no value before \<open>SetMinRate\<close>.\<close>

record video_generator =
  vg_fs :: u32
  vg_rate :: u32
  vg_minR :: "u32 option"
  vg_running :: bool
  vg_sender :: bool
  vg_log_enable :: bool
  vg_first :: u32
  vg_file :: "(u32 \<times> u32) list option"
  vg_calls :: "source_call list"

definition VideoGenerator :: "u32 \<Rightarrow> video_generator" where
  "VideoGenerator fs = \<lparr>vg_fs = fs, vg_rate = 0, vg_minR = None, vg_running = False, vg_sender = False, vg_log_enable = False, vg_first = 0,
     vg_file = None, vg_calls = []\<rparr>"

definition VG_SendFrame :: "video_generator \<Rightarrow> video_generator option" where
  "VG_SendFrame s =
     (if vg_rate s = 0 then Some s
      else do {
        bytesToSend \<leftarrow> frame_length (vg_rate s) (vg_fs s);
        Some (if vg_sender s then s\<lparr>vg_calls := vg_calls s @ [FrameTo bytesToSend]\<rparr> else s)
      })"

definition VG_Generate :: "video_generator \<Rightarrow> video_generator option" where
  "VG_Generate s =
     (if vg_running s
      then do {
        s \<leftarrow> VG_SendFrame s;
        duration \<leftarrow> (if vg_fs s = 0 then None else Some (1000 div vg_fs s));
        Some (s\<lparr>vg_calls := vg_calls s @ [PostGenerate duration]\<rparr>)
      }
      else Some s)"

definition VG_Start :: "video_generator \<Rightarrow> video_generator option" where "VG_Start s = VG_Generate (s\<lparr>vg_running := True\<rparr>)"
definition VG_Stop :: "video_generator \<Rightarrow> video_generator" where "VG_Stop s = s\<lparr>vg_running := False\<rparr>"
definition VG_RegisterVideoTarget :: "video_generator \<Rightarrow> video_generator" where "VG_RegisterVideoTarget s = s\<lparr>vg_sender := True\<rparr>"
definition VG_SetMinRate :: "u32 \<Rightarrow> video_generator \<Rightarrow> video_generator" where "VG_SetMinRate minR s = s\<lparr>vg_minR := Some minR, vg_rate := minR\<rparr>"

definition VG_LogRate :: "int \<Rightarrow> u32 \<Rightarrow> video_generator \<Rightarrow> video_generator" where
  "VG_LogRate time_ms bitrate s =
     (let now = (word_of_int time_ms :: u32);
          s = (if vg_first s = 0 then s\<lparr>vg_first := now\<rparr> else s);
          record = \<lparr>tr_now = now - vg_first s, tr_bps = bitrate\<rparr>
      in s\<lparr>vg_calls := vg_calls s @ [if vg_log_enable s then PostWrite record else Printed record]\<rparr>)"

definition VG_ChangeRate :: "int \<Rightarrow> u32 \<Rightarrow> video_generator \<Rightarrow> video_generator option" where
  "VG_ChangeRate time_ms bitrate s = do {
     minR \<leftarrow> vg_minR s;
     let s = (if bitrate > minR then s\<lparr>vg_rate := bitrate\<rparr> else s\<lparr>vg_rate := minR\<rparr>);
     Some (VG_LogRate time_ms (vg_rate s) s)
   }"

definition VG_SetLogFile :: "bool \<Rightarrow> video_generator \<Rightarrow> video_generator" where
  "VG_SetLogFile opened s = s\<lparr>vg_log_enable := True, vg_file := (if opened then Some [] else None)\<rparr>"

definition VG_WriteToFile :: "time_rate_t \<Rightarrow> video_generator \<Rightarrow> video_generator" where
  "VG_WriteToFile record s = s\<lparr>vg_file := map_option (\<lambda>f. f @ [(tr_now record, tr_bps record)]) (vg_file s)\<rparr>"

definition VG_Close :: "video_generator \<Rightarrow> video_generator" where "VG_Close s = s\<lparr>vg_file := None\<rparr>"

section \<open>Rounding\<close>

lemma round_even_near: "\<bar>of_int (round_even y) - y\<bar> \<le> 1 / 2"
  using of_int_floor_le [of y] floor_correct [of y] by (auto simp: round_even_def Let_def abs_le_iff)

lemma pow2_23: "pow2 (e - 23) = pow2 e / 2 ^ 23"
proof -
  obtain i j where e: "e = int i - int j" by (metis int_diff_cases)
  then have "e - 23 = int i - int (j + 23)" by simp
  with e show ?thesis by (simp only: pow2_diff) (simp add: power_add)
qed

lemma scale: "0 < u \<Longrightarrow> \<bar>a * u - x\<bar> = \<bar>a - x / u\<bar> * u" for u :: rat
proof -
  assume u: "0 < u"
  then have "a * u - x = (a - x / u) * u" by (simp add: left_diff_distrib)
  then show ?thesis using u by (simp add: abs_mult)
qed

lemma to_single_near:
  assumes "0 < x"
  shows "\<bar>to_single x - x\<bar> \<le> x / 2 ^ 24" "0 \<le> to_single x"
proof -
  let ?u = "pow2 (exponent x - 23)"
  have u: "0 < ?u" "?u \<le> x / 2 ^ 23" using exponent_le [OF assms] by (simp_all add: pow2_pos pow2_23 divide_right_mono)
  have s: "to_single x = of_int (round_even (x / ?u)) * ?u" using assms by (simp add: to_single_def Let_def)
  have "\<bar>to_single x - x\<bar> = \<bar>of_int (round_even (x / ?u)) - x / ?u\<bar> * ?u" using u(1) scale [of ?u "of_int (round_even (x / ?u))" x] by (simp only: s)
  also have "\<dots> \<le> 1 / 2 * ?u" using round_even_near [of "x / ?u"] u(1) by (intro mult_right_mono) simp_all
  finally show "\<bar>to_single x - x\<bar> \<le> x / 2 ^ 24" using u(2) by simp
  show "0 \<le> to_single x" using round_even_le(2) [of "x / ?u"] u assms by (simp add: s)
qed

lemma to_single_bounds:
  assumes "0 < x"
  shows "to_single x \<le> x * (1 + 1 / 2 ^ 24)" "x * (1 - 1 / 2 ^ 24) \<le> to_single x"
proof -
  have "to_single x \<le> x + x / 2 ^ 24" "x - x / 2 ^ 24 \<le> to_single x"
    using abs_le_D1 [OF to_single_near(1) [OF assms]] abs_le_D2 [OF to_single_near(1) [OF assms]] by linarith+
  moreover have "x * (1 + 1 / 2 ^ 24) = x + x / 2 ^ 24" "x * (1 - 1 / 2 ^ 24) = x - x / 2 ^ 24" by (simp_all add: field_simps)
  ultimately show "to_single x \<le> x * (1 + 1 / 2 ^ 24)" "x * (1 - 1 / 2 ^ 24) \<le> to_single x" by (simp_all only:)
qed

text \<open>A frame is never more than its share of the rate, but for the rounding.\<close>

lemma frame_length_bound:
  assumes "rate \<noteq> 0" and "fs \<noteq> 0"
  shows "\<exists>n. frame_length rate fs = Some n \<and> of_int (8 * uint fs * uint n) \<le> of_int (uint rate) * (1 + 1 / 2 ^ 22 :: rat)"
proof -
  define R F :: rat where "R = of_int (uint rate)" and "F = of_int (uint fs)"
  have R: "0 < R" "R < 2 ^ 32" and F: "1 \<le> F"
  proof -
    have "uint rate \<noteq> 0" "uint fs \<noteq> 0" using assms by (simp_all add: unsigned_eq_0_iff)
    then have "0 < uint rate" "1 \<le> uint fs" using uint_ge_0 [of rate] uint_ge_0 [of fs] by linarith+
    moreover have "uint rate < 2 ^ 32" using uint_lt2p [of rate] by simp
    ultimately have "of_int 0 < (of_int (uint rate) :: rat)" "(of_int (uint rate) :: rat) < of_int (2 ^ 32)" "of_int 1 \<le> (of_int (uint fs) :: rat)"
      by (simp_all only: of_int_less_iff of_int_le_iff)
    then show "0 < R" "R < 2 ^ 32" "1 \<le> F" by (simp_all add: R_def F_def)
  qed
  define r f where "r = to_single R" and "f = to_single F"
  have r: "0 \<le> r" "r \<le> R * (1 + 1 / 2 ^ 24)" unfolding r_def by (rule to_single_near(2) to_single_bounds(1), rule R(1))+
  have f: "F * (1 - 1 / 2 ^ 24) \<le> f" unfolding f_def using F by (intro to_single_bounds(2)) simp
  then have f0: "0 < f" using F by (intro less_le_trans [OF _ f]) simp
  define x where "x = r / (f * 8)"
  define l where "l = to_single x"
  have x: "0 \<le> x" "x * (f * 8) = r" using r f0 by (simp_all add: x_def)
  have l: "0 \<le> l" "l \<le> x * (1 + 1 / 2 ^ 24)"
    using to_single_near(2) [of x] to_single_bounds(1) [of x] x(1) by (cases "x = 0"; simp add: l_def to_single_def)+
  have "l * (F * 8) * (1 - 1 / 2 ^ 24) \<le> l * (f * 8)" using mult_left_mono [OF f, of "l * 8"] l(1) by (simp add: algebra_simps)
  also have "\<dots> \<le> x * (1 + 1 / 2 ^ 24) * (f * 8)" using l(2) f0 by (intro mult_right_mono) simp_all
  also have "\<dots> = r * (1 + 1 / 2 ^ 24)" using x(2) by (simp add: algebra_simps)
  also have "\<dots> \<le> R * (1 + 1 / 2 ^ 24) * (1 + 1 / 2 ^ 24)" using r(2) by (intro mult_right_mono) simp_all
  also have "\<dots> \<le> R * ((1 + 1 / 2 ^ 22) * (1 - 1 / 2 ^ 24))" using R(1) unfolding mult.assoc by (intro mult_left_mono) simp_all
  finally have bound: "l * (F * 8) \<le> R * (1 + 1 / 2 ^ 22)" by (simp add: mult.commute mult.left_commute)
  have fl: "of_int \<lfloor>l\<rfloor> \<le> l" "0 \<le> \<lfloor>l\<rfloor>" using l(1) by simp_all
  have "l * 8 \<le> l * (F * 8)" using l(1) F by (intro mult_left_mono) simp_all
  from order_trans [OF this bound] R(2) have "l < 2 ^ 32" by simp
  then have less: "\<lfloor>l\<rfloor> < 2 ^ 32" by (simp add: floor_less_iff)
  have "frame_length rate fs = Some (word_of_int \<lfloor>l\<rfloor>)"
    using f0 less by (simp add: frame_length_def Let_def l_def x_def r_def f_def R_def F_def)
  moreover have "uint (word_of_int \<lfloor>l\<rfloor> :: u32) = \<lfloor>l\<rfloor>" using fl(2) less by (simp add: uint_word_of_int take_bit_int_eq_self)
  moreover have "of_int (8 * uint fs * \<lfloor>l\<rfloor>) \<le> R * (1 + 1 / 2 ^ 22)"
  proof -
    have "of_int (8 * uint fs * \<lfloor>l\<rfloor>) = of_int \<lfloor>l\<rfloor> * (F * 8)" by (simp add: F_def)
    also have "\<dots> \<le> l * (F * 8)" using fl(1) F by (intro mult_right_mono) simp_all
    finally show ?thesis using bound by simp
  qed
  ultimately show ?thesis by (intro exI [of _ "word_of_int \<lfloor>l\<rfloor>"]) (simp only: R_def simp_thms)
qed

section \<open>Turns of the queue\<close>

text \<open>How many turns a call posts.\<close>

definition turns :: "video_generator \<Rightarrow> nat" where
  "turns s = length (filter (\<lambda>c. case c of PostGenerate _ \<Rightarrow> True | _ \<Rightarrow> False) (vg_calls s))"

text \<open>
  The source with its queue: how many turns are posted and have not run, the source, and how often it was started. The queue runs a posted turn
  at any time; the program calls any method.
\<close>

inductive source_step :: "nat \<times> video_generator \<times> nat \<Rightarrow> nat \<times> video_generator \<times> nat \<Rightarrow> bool" where
  Start: "VG_Start s = Some s' \<Longrightarrow> source_step (n, s, k) (n + (turns s' - turns s), s', Suc k)"
| Stop: "source_step (n, s, k) (n, VG_Stop s, k)"
| Turn: "VG_Generate s = Some s' \<Longrightarrow> source_step (Suc n, s, k) (n + (turns s' - turns s), s', k)"
| Register: "source_step (n, s, k) (n, VG_RegisterVideoTarget s, k)"
| SetMin: "source_step (n, s, k) (n, VG_SetMinRate r s, k)"
| Change: "VG_ChangeRate t r s = Some s' \<Longrightarrow> source_step (n, s, k) (n, s', k)"
| Log: "source_step (n, s, k) (n, VG_SetLogFile opened s, k)"
| Write: "source_step (n, s, k) (n, VG_WriteToFile record s, k)"

lemma Generate_turns:
  assumes "VG_Generate s = Some s'"
  shows "vg_running s' = vg_running s \<and> vg_fs s' = vg_fs s \<and> turns s' = turns s + (if vg_running s then 1 else 0)"
  using assms by (auto simp: VG_Generate_def VG_SendFrame_def turns_def split: if_splits bind_splits)

lemma Generate_defined: "vg_fs s \<noteq> 0 \<Longrightarrow> \<exists>s'. VG_Generate s = Some s'"
  using frame_length_bound [of "vg_rate s" "vg_fs s"] by (auto simp: VG_Generate_def VG_SendFrame_def)

lemma source_step_turns:
  assumes "source_step w w'" and "fst w \<le> snd (snd w)" and "vg_running (fst (snd w)) \<longrightarrow> 1 \<le> fst w"
  shows "fst w' \<le> snd (snd w') \<and> (vg_running (fst (snd w')) \<longrightarrow> 1 \<le> fst w') \<and> vg_fs (fst (snd w')) = vg_fs (fst (snd w))"
  using assms
proof (cases rule: source_step.cases)
  case (Start s s' n k)
  from Generate_turns [OF Start(3) [unfolded VG_Start_def]] show ?thesis using assms Start by (simp add: turns_def)
next
  case (Turn s s' n k)
  from Generate_turns [OF Turn(3)] show ?thesis using assms Turn by auto
qed (auto simp: VG_Stop_def VG_RegisterVideoTarget_def VG_SetMinRate_def VG_ChangeRate_def VG_LogRate_def Let_def VG_SetLogFile_def VG_WriteToFile_def
    split: bind_splits if_splits)

lemma source_steps_turns:
  "source_step\<^sup>*\<^sup>* (0, VideoGenerator fs, 0) w \<Longrightarrow> fst w \<le> snd (snd w) \<and> (vg_running (fst (snd w)) \<longrightarrow> 1 \<le> fst w) \<and> vg_fs (fst (snd w)) = fs"
proof (induction rule: rtranclp_induct)
  case base
  show ?case by (simp add: VideoGenerator_def)
next
  case (step w w')
  with source_step_turns [OF step(2)] show ?case by simp
qed

text \<open>
  C31: the video source, however its methods and its posted turns follow each other. While it runs a next turn is posted, and a turn always runs without a fault
  and makes one frame, of not more than its share of the rate but for the rounding of single precision. There are never more turns than
  starts; but nothing takes a posted turn back, so a source that is stopped and started before that turn runs has two, and gives twice its rate.
\<close>

theorem source_turns:
  assumes "fs \<noteq> 0"
  shows "(source_step\<^sup>*\<^sup>* (0, VideoGenerator fs, 0) (n, s, k) \<longrightarrow> n \<le> k \<and> (vg_running s \<longrightarrow> 1 \<le> n) \<and> (\<exists>s'. VG_Generate s = Some s' \<and>
        (vg_running s \<and> vg_sender s \<and> vg_rate s \<noteq> 0 \<longrightarrow> (\<exists>b. vg_calls s' = vg_calls s @ [FrameTo b, PostGenerate (1000 div fs)] \<and>
           of_int (8 * uint fs * uint b) \<le> of_int (uint (vg_rate s)) * (1 + 1 / 2 ^ 22 :: rat))))) \<and>
    (\<exists>s. source_step\<^sup>*\<^sup>* (0, VideoGenerator fs, 0) (2, s, 2) \<and> vg_running s)"
proof (intro conjI impI)
  assume reach: "source_step\<^sup>*\<^sup>* (0, VideoGenerator fs, 0) (n, s, k)"
  from source_steps_turns [OF reach] have s: "n \<le> k" "vg_running s \<longrightarrow> 1 \<le> n" "vg_fs s = fs" by simp_all
  then show "n \<le> k" "vg_running s \<Longrightarrow> 1 \<le> n" by simp_all
  show "\<exists>s'. VG_Generate s = Some s' \<and>
        (vg_running s \<and> vg_sender s \<and> vg_rate s \<noteq> 0 \<longrightarrow> (\<exists>b. vg_calls s' = vg_calls s @ [FrameTo b, PostGenerate (1000 div fs)] \<and>
           of_int (8 * uint fs * uint b) \<le> of_int (uint (vg_rate s)) * (1 + 1 / 2 ^ 22 :: rat)))"
  proof (cases "vg_running s \<and> vg_sender s \<and> vg_rate s \<noteq> 0")
    case True
    with frame_length_bound [of "vg_rate s" fs] assms obtain b where "frame_length (vg_rate s) fs = Some b"
      "of_int (8 * uint fs * uint b) \<le> of_int (uint (vg_rate s)) * (1 + 1 / 2 ^ 22 :: rat)" by auto
    then show ?thesis using True s(3) assms by (auto simp: VG_Generate_def VG_SendFrame_def)
  next
    case False
    then show ?thesis using Generate_defined [of s] s(3) assms by auto
  qed
next
  let ?g = "VideoGenerator fs"
  let ?s1 = "?g\<lparr>vg_running := True, vg_calls := [PostGenerate (1000 div fs)]\<rparr>"
  let ?s2 = "?g\<lparr>vg_running := True, vg_calls := [PostGenerate (1000 div fs), PostGenerate (1000 div fs)]\<rparr>"
  have "VG_Start ?g = Some ?s1" "VG_Start (VG_Stop ?s1) = Some ?s2"
    using assms by (simp_all add: VG_Start_def VG_Stop_def VG_Generate_def VG_SendFrame_def VideoGenerator_def)
  from source_step.Start [OF this(1), of 0 0] source_step.Stop [of 1 ?s1 1] source_step.Start [OF this(2), of 1 1]
  have "source_step (0, ?g, 0) (1, ?s1, 1)" "source_step (1, ?s1, 1) (1, VG_Stop ?s1, 1)" "source_step (1, VG_Stop ?s1, 1) (2, ?s2, 2)"
    by (simp_all add: turns_def VG_Stop_def VideoGenerator_def numeral_2_eq_2)
  then have "source_step\<^sup>*\<^sup>* (0, ?g, 0) (2, ?s2, 2)" by (meson rtranclp.intros)
  then show "\<exists>s. source_step\<^sup>*\<^sup>* (0, ?g, 0) (2, s, 2) \<and> vg_running s" by (intro exI [of _ ?s2]) simp
qed

theorem source_turns_witness:
  "\<exists>s. source_step\<^sup>*\<^sup>* (0, VideoGenerator 25, 0) (2, s, 2) \<and> vg_running s"
  using source_turns [of 25] by simp

end
