(* ===== verification/Spec2Isabelle.thy ===== *)
theory Spec2Isabelle
  imports Quic_Alarm Bbr_Modes Peer_Video Peer_Safety App_Video Quic_Delay Quic_Video_Proofs Video_Source
begin

text \<open>
  A verification library for the transport code of the repository: the simulation protocol of
  \<^verbatim>\<open>mininet-webrtc/razor\<close> with the sender, the receiver and the video source that use it, the QUIC framer of \<^verbatim>\<open>quic-test/myquic\<close> with its senders and
  receiver, the congestion control of \<^verbatim>\<open>quic-test/mybbr\<close> with its senders and receiver, and the times, clocks and alarms of \<^verbatim>\<open>scoped_ptr\<close>.

  \<^bold>\<open>The program.\<close> The repository holds two test beds. In \<^verbatim>\<open>mininet-webrtc\<close> a sender and a receiver exchange
  datagrams of a small protocol: \<^verbatim>\<open>razor/sim_proto.*\<close> encodes and decodes the messages, on top of the growable
  byte stream \<^verbatim>\<open>razor/cf_stream.*\<close>, and ends each with the checksum of \<^verbatim>\<open>razor/cf_crc32.c\<close>. \<open>Sender\<close> cuts video frames into segments, which
  the pacer of the WebRTC library asks for one by one; \<open>Receiver\<close> reports what arrives to a congestion controller, whose feedback travels
  back; both measure the round trip with pings. In \<^verbatim>\<open>quic-test\<close> senders and
  receivers build on \<open>MyQuicFramer\<close> (\<^verbatim>\<open>myquic/my_quic_framer.*\<close>), which turns frames into packets and back,
  tells a visitor (\<^verbatim>\<open>myquic/quic_framer_visitor.*\<close>) what a packet holds, and owns the encrypters and
  decrypters: \<open>MyQuicReceiver\<close> acknowledges packets in ack frames, \<open>MyQuicSender\<close> and \<open>MyQuicVideoSender\<close> are visitors that pass the
  acknowledged ranges on to the library's manager of sent packets, which tells them when to send and what to send again.
  \<open>MyBbrSender\<close> (\<^verbatim>\<open>mybbr/my_bbr_sender.*\<close>) hears of every packet sent and acknowledged, samples the bandwidth over
  clusters of packets and sets the rate at which \<open>MyPacingSender\<close> (\<^verbatim>\<open>my_pacing_sender.*\<close>) spaces the packets; \<open>MyBbrSenderApp\<close>,
  \<open>MyBbrVideoSenderApp\<close> and \<open>MyBbrReceiverApp\<close> are the programs around it. Sockets and test programs surround them all.

  \<^bold>\<open>Theories and sources.\<close>
  \<^item> \<open>Prelude\<close>: machine integers, \<open>size_t\<close> arithmetic with its wrap-around, checked buffer accesses, big-endian bytes.
  \<^item> \<open>Crc32\<close>: \<^verbatim>\<open>cf_crc32.c\<close>. The table-driven checksum equals the bitwise one and separates burst errors.
  \<^item> \<open>Bin_Stream\<close>: \<^verbatim>\<open>cf_stream.{h,c}\<close>, every function, on hosts of either byte order. The locale \<open>field_codec\<close> is the
    contract of the scalar writers and readers, with eight interpretations; a stream refines a queue of bytes.
  \<^item> \<open>Sim_Proto\<close>: \<^verbatim>\<open>sim_proto.{h,inl,c}\<close>. Round trip of every message, safety on arbitrary datagrams, burst errors.
  \<^item> \<open>Quic_Io\<close>, \<open>Quic_Demo\<close>: what the framer uses of the QUIC library (\<open>QuicDataReader\<close>, \<open>QuicDataWriter\<close>, enumerators), as
    one record of parameters with its documented behaviour (\<open>documented\<close>), and a concrete instance for the
    closed examples.
  \<^item> \<open>Framer_Base\<close>: constants, sizes, bit fields and packet-number arithmetic of \<^verbatim>\<open>my_quic_framer.cc\<close>.
  \<^item> \<open>Framer_Frames\<close>, \<open>Framer_Ietf\<close>: the \<open>Append...Frame\<close> and \<open>Process...Frame\<close> functions of both formats, each pair
    with its inversion lemma.
  \<^item> \<open>Framer_Ack\<close>, \<open>Ack_Proofs\<close>: ack frames, with the truncation to the free space, gaps above 255 and incremental
    processing.
  \<^item> \<open>Framer_Packet\<close>: the framer's fields (record \<open>framer\<close>), constructor, setters, \<open>RaiseError\<close>, \<open>ComputeFrameLength\<close>,
    \<open>GetSerializedFrameLength\<close> and the \<open>Build...Packet\<close> functions. The class \<open>MyQuicFramerVisitorInterface\<close> is the
    datatype \<open>call\<close>; a visitor is a function of a call and the framer, so it may change the framer.
  \<^item> \<open>Framer_Process\<close>: \<open>ProcessPacket\<close> and all it calls, the encrypters and decrypters, the two visitor classes.
  \<^item> \<open>Packet_Proofs\<close>: progress of every reader; the locales \<open>frame_invariant\<close>, \<open>packet_invariant\<close>, \<open>framer_visitor\<close>.
  \<^item> \<open>Packet_Safety\<close>: what holds for any datagrams: termination, authentic packet numbers, the key machine
    (inductive relation \<open>key_step\<close>), the error behaviour, plaintext sizes.
  \<^item> \<open>Header_Proofs\<close>, \<open>Packet_Round_Trip\<close>: header and version negotiation round trips, and the composition of all
    parts: a data packet that is built, sealed, sent and opened is heard frame by frame; the lengths promised to the packet's creator.
  \<^item> \<open>Quic_Time\<close>: \<^verbatim>\<open>quic_time.*\<close>, \<^verbatim>\<open>quic_clock.*\<close>, \<^verbatim>\<open>sys_clock.h\<close>. Times are integers of 64 bits, and an operation that
    overflows is \<open>None\<close>; a product with a \<open>double\<close> is rounded to 53 bits as the hardware does.
  \<^item> \<open>Quic_Alarm\<close>: \<^verbatim>\<open>quic_alarm.*\<close>, \<^verbatim>\<open>null_alarm.h\<close>. An alarm refines a machine that is idle or armed.
  \<^item> \<open>Std_Map\<close>: \<open>std::map\<close> as its list of entries in ascending order.
  \<^item> \<open>Bbr_Sender\<close>: every operation of \<open>MyBbrSender\<close>, \<open>SentClusterInfo\<close> and \<open>MyPacingSender\<close>. Clusters live on an explicit heap, a
    map from addresses, because they point to each other and are deleted one by one.
  \<^item> \<open>Bbr_Proofs\<close>: the invariant \<open>core\<close> of that heap (a chain linked in both directions in the order of rounds, with all
    sampled clusters in it), kept by every operation; no dangling pointer, no leak, no overflow.
  \<^item> \<open>Bbr_Modes\<close>: the control loop: the floor of the pacing rate, how PROBE_RTT ends and how it starts over, the pacer's bound
    while packets are sent and acknowledged.
  \<^item> \<open>Su_Addr\<close>: the address functions of \<^verbatim>\<open>razor/posix.c\<close> (of which \<^verbatim>\<open>quic-test/net/posix.c\<close> is a copy but for one character).
  \<^item> \<open>Sim_Peers\<close>: \<^verbatim>\<open>mininet-webrtc/sender.*\<close> and \<^verbatim>\<open>receiver.*\<close>, every operation but \<open>Bind\<close>. Calls into the WebRTC library and the socket are
    recorded in order in the state; clock readings and received datagrams are arguments.
  \<^item> \<open>Peer_Proofs\<close>: round-trip statistics; both peers interpret the locale \<open>rtt_estimator\<close>.
  \<^item> \<open>Peer_Exchange\<close>: the composition of two peers: the locale \<open>ping_peer\<close>, which extends \<open>rtt_estimator\<close> and which both peers interpret, and
    \<open>ping_pair\<close> for two of them, interpreted in both directions.
  \<^item> \<open>Peer_Video\<close>: the way of a video frame from \<open>SendVideo\<close> to the receiver, what is too long for it, and padding.
  \<^item> \<open>Peer_Safety\<close>: what arbitrary datagrams can do to the peers (locale \<open>event_loop\<close>), the round trip that a ping measures whatever
    else arrives, and the way of feedback.
  \<^item> \<open>Video_Source\<close>: \<^verbatim>\<open>mininet-webrtc/fakevideosource.*\<close>, with its task queue as the relation \<open>source_step\<close>; sizes in single precision.
  \<^item> \<open>Quic_Apps\<close>: what the programs of \<^verbatim>\<open>quic-test\<close> share: \<^verbatim>\<open>my_quic_header.*\<close>, \<^verbatim>\<open>my_quic_utils.*\<close>, \<^verbatim>\<open>my_quic_clock.h\<close>, \<^verbatim>\<open>fakevideogenerator.*\<close>, the alarm of
    the receiver; reads and writes whose result is ignored.
  \<^item> \<open>Bbr_Apps\<close>: \<^verbatim>\<open>mybbr/*_app.*\<close>. \<open>App_Receiver\<close>: the receiver refines one that knows only the largest number.
    \<open>App_Senders\<close>: acknowledgements reach the congestion control; on what input the sender has undefined behaviour. \<open>App_Video\<close>: the queue of the video sender.
  \<^item> \<open>Quic_Peers\<close>, \<open>Quic_Video\<close>: \<^verbatim>\<open>my_quic_receiver.*\<close>, \<^verbatim>\<open>my_quic_sender.*\<close>, \<^verbatim>\<open>my_quic_video_sender.*\<close>. The library's managers of sent and received
    packets are the parameter \<open>managers\<close>. \<open>Quic_Exchange\<close>: both senders interpret the locale \<open>ack_listener\<close>, and the receiver's
    acknowledgement reaches their managers range by range. \<open>Quic_Delay\<close>: the delay of acknowledgements.
    \<open>Quic_Resend\<close>, \<open>Quic_Video_Proofs\<close>: retransmission, where it ends and where it does not, and the video sender's queues: parts leave
    in the order of the frames.

  \<^bold>\<open>Errors and undefined behaviour.\<close> An access outside a buffer, a failed \<open>assert\<close>, a null or dangling pointer that is
  used, a signed overflow and a loop that does not end are the value \<open>None\<close>; safety and termination properties exclude it. Where
  the code returns false, the model returns the message or the error code it stores.

  \<^bold>\<open>Bounds of loops.\<close> The frame loop \<open>process_frames\<close> gets the number of unread bytes as its bound, the version loop
  \<open>read_versions\<close> one more, the padding loop the number of unread bytes: each round reads at least one
  byte, and \<open>framer_processes_everything\<close> shows that no bound is ever reached. The doubling loop of
  \<open>bin_stream_resize\<close> is a \<open>partial_function\<close>, because it does not end on a destroyed stream, and so are the loops
  \<open>QS_retransmit\<close> and \<open>VS_retransmit\<close>, which end or not as the library's manager answers: \<open>sender_retransmissions_end\<close> and
  \<open>video_retransmissions_end\<close> say when they do, \<open>broken_ack_stops_video_sender\<close> when not.

  \<^bold>\<open>The library's promises.\<close> Properties of the framer take these as hypotheses, all met by the concrete instance:
  \<open>documented\<close> (readers and writers handle bytes in order and fail beyond the end; enumerator values),
  \<open>header_size_documented\<close> (the encrypted part starts after the header) and \<open>keys_match\<close> (a decrypter opens what its
  encrypter sealed). Encrypters, decrypters, handshake messages, addresses and version labels
  are otherwise arbitrary. The operating system's clock is taken to go forward (\<open>timeofday_documented\<close>). Of bandwidths,
  filters and random numbers nothing is assumed, but that no bandwidth is less than itself where the pacing rate is compared, and that
  transfer times are in range (\<open>transfer_times_ok\<close>) where the programs are run. Of the managers of packets nothing is assumed but, where it is
  named, that a packet that was received makes the ack frame updated, and the contract of pending retransmissions (\<open>pending_documented\<close>). Log statements and \<open>QUIC_BUG\<close> counters have no effect in the model.

  \<^bold>\<open>Not modelled.\<close> The wrappers of sockets, threads, locks and timers (the rest of \<^verbatim>\<open>posix.c\<close>, and \<^verbatim>\<open>net\<close>) only call the operating
  system. The command line parser \<^verbatim>\<open>cmdline.h\<close> and the pointer templates are copies of other projects' headers.
  The RTP module \<^verbatim>\<open>fake_rtp_rtcp_impl.*\<close> is a class of empty methods, and the test programs only start the others. Of the programs that
  are modelled, the texts of log lines are left out: a line is the pair of its numbers.
\<close>

end
